(* ===== verification/Flash_Prelude.thy ===== *)
theory Flash_Prelude
  imports Main "HOL-Library.Word"
begin

unbundle bit_operations_syntax

text \<open>
  What every theory of the development shares: the C integer types the drivers use (a value of an
  unsigned C type is a natural number below its bound, and each conversion that may lose bits is
  written with one of the functions below), the errno values the code returns, little-endian
  byte encodings, and the generic lemmas on lists, filters and array updates.

  Collections: \<open>c_arith\<close> unfolds the conversions, \<open>bmt_defs\<close> gathers the small helpers of
  \<^verbatim>\<open>mtk_bmt.h\<close>, \<open>frame\<close> says which part of the state an operation leaves alone.
\<close>

named_theorems c_arith
named_theorems bmt_defs
named_theorems frame

section \<open>C integers\<close>

type_synonym byte = "8 word"

definition u16 :: "nat \<Rightarrow> nat" where
  "u16 n = n mod 65536"

definition u32 :: "nat \<Rightarrow> nat" where
  "u32 n = n mod 4294967296"

text \<open>Conversion of a \<^verbatim>\<open>u32\<close> to \<^verbatim>\<open>int\<close>, and of an \<^verbatim>\<open>int\<close> to \<^verbatim>\<open>u16\<close> and \<^verbatim>\<open>u32\<close>.\<close>

definition s32 :: "nat \<Rightarrow> int" where
  "s32 n = (if u32 n < 2147483648 then int (u32 n) else int (u32 n) - 4294967296)"

definition u16_of_int :: "int \<Rightarrow> nat" where
  "u16_of_int i = nat (i mod 65536)"

definition u32_of_int :: "int \<Rightarrow> nat" where
  "u32_of_int i = nat (i mod 4294967296)"

text \<open>Conversion of an \<^verbatim>\<open>int\<close> to 64 bits.\<close>

definition u64_of_int :: "int \<Rightarrow> nat" where
  "u64_of_int i = nat (i mod 18446744073709551616)"

text \<open>Subtraction of two \<^verbatim>\<open>u32\<close> values wraps.\<close>

definition sub32 :: "nat \<Rightarrow> nat \<Rightarrow> nat" where
  "sub32 a b = u32 (u32 a + (4294967296 - u32 b))"

lemma u16_less [simp]: "u16 n < 65536"
  by (simp add: u16_def)

lemma u16_id [simp]: "n < 65536 \<Longrightarrow> u16 n = n"
  by (simp add: u16_def)

lemma u32_less [simp]: "u32 n < 4294967296"
  by (simp add: u32_def)

lemma u32_id [simp]: "n < 4294967296 \<Longrightarrow> u32 n = n"
  by (simp add: u32_def)

lemma s32_id [simp]: "n < 2147483648 \<Longrightarrow> s32 n = int n"
  by (simp add: s32_def)

lemma u16_of_int_id [simp]: "0 \<le> i \<Longrightarrow> i < 65536 \<Longrightarrow> u16_of_int i = nat i"
  by (simp add: u16_of_int_def)

lemma u16_of_int_nat [simp]: "n < 65536 \<Longrightarrow> u16_of_int (int n) = n"
  by (simp add: u16_of_int_def)

lemma u32_of_int_nat [simp]: "n < 4294967296 \<Longrightarrow> u32_of_int (int n) = n"
  by (simp add: u32_of_int_def)

lemma sub32_id [simp]: "b \<le> a \<Longrightarrow> a < 4294967296 \<Longrightarrow> sub32 a b = a - b"
  by (simp add: sub32_def u32_def mod_if)

lemma sub32_less [simp]: "sub32 a b < 4294967296"
  by (simp add: sub32_def)

text \<open>The kernel's \<^verbatim>\<open>round_up\<close>, for the divisors the code uses it with (page and block sizes).\<close>

definition round_up :: "nat \<Rightarrow> nat \<Rightarrow> nat" where
  "round_up x y = (x + (y - 1)) div y * y"

section \<open>Error numbers\<close>

abbreviation (input) EIO :: int where "EIO \<equiv> 5"
abbreviation (input) ENOMEM :: int where "ENOMEM \<equiv> 12"
abbreviation (input) ENODEV :: int where "ENODEV \<equiv> 19"
abbreviation (input) EINVAL :: int where "EINVAL \<equiv> 22"
abbreviation (input) ENOSPC :: int where "ENOSPC \<equiv> 28"
abbreviation (input) EBADMSG :: int where "EBADMSG \<equiv> 74"
abbreviation (input) EUCLEAN :: int where "EUCLEAN \<equiv> 117"

text \<open>\<^verbatim>\<open>mtd_is_bitflip\<close>: the correctable case of a negative read result.\<close>

definition mtd_is_bitflip :: "int \<Rightarrow> bool" where
  "mtd_is_bitflip r \<longleftrightarrow> r = - EUCLEAN"

section \<open>Arrays\<close>

text \<open>
  An array of the code is a list. A read past its end is undefined behaviour in C; the model
  answers with the given default there, and the theorems keep the index inside the array.
\<close>

definition arr_get :: "'a \<Rightarrow> 'a list \<Rightarrow> nat \<Rightarrow> 'a" where
  "arr_get z xs i = (if i < length xs then xs ! i else z)"

lemma arr_get_in [simp]: "i < length xs \<Longrightarrow> arr_get z xs i = xs ! i"
  by (simp add: arr_get_def)

lemma arr_get_out: "\<not> i < length xs \<Longrightarrow> arr_get z xs i = z"
  by (simp add: arr_get_def)

lemma arr_get_update: "arr_get z (xs[i := v]) j = (if i = j \<and> i < length xs then v else arr_get z xs j)"
  by (auto simp: arr_get_def)

lemma arr_get_Cons_Suc [simp]: "arr_get z (x # xs) (Suc i) = arr_get z xs i"
  by (simp add: arr_get_def)

section \<open>Little-endian encodings\<close>

definition le16 :: "nat \<Rightarrow> byte list" where
  "le16 n = [of_nat (n mod 256), of_nat (n div 256 mod 256)]"

definition le32 :: "nat \<Rightarrow> byte list" where
  "le32 n = [of_nat (n mod 256), of_nat (n div 256 mod 256),
     of_nat (n div 65536 mod 256), of_nat (n div 16777216 mod 256)]"

fun le_val :: "byte list \<Rightarrow> nat" where
  "le_val [] = 0"
| "le_val (b # bs) = unat b + 256 * le_val bs"

lemma length_le16 [simp]: "length (le16 n) = 2"
  by (simp add: le16_def)

lemma length_le32 [simp]: "length (le32 n) = 4"
  by (simp add: le32_def)

lemma unat_of_nat_byte [simp]: "unat (of_nat (n mod 256) :: byte) = n mod 256"
  by (simp add: unat_of_nat)

lemma unat_of_nat_byte_small [simp]: "n < 256 \<Longrightarrow> unat (of_nat n :: byte) = n"
  by (simp add: unat_of_nat)

lemma bytes16: "n < 65536 \<Longrightarrow> n mod 256 + 256 * (n div 256 mod 256) = (n::nat)"
  by simp

lemma le_val_le16 [simp]: "n < 65536 \<Longrightarrow> le_val (le16 n) = n"
  by (simp add: le16_def)

lemma le_val_le32 [simp]:
  assumes "n < 4294967296"
  shows "le_val (le32 n) = n"
proof -
  have "n div 16777216 < 256" using assms by simp
  moreover have "n = n mod 256 + 256 * (n div 256)" by simp
  moreover have "n div 256 = n div 256 mod 256 + 256 * (n div 65536)"
    using div_mult2_eq [of n 256 256] by simp
  moreover have "n div 65536 = n div 65536 mod 256 + 256 * (n div 16777216)"
    using div_mult2_eq [of n 65536 256] by simp
  ultimately show ?thesis by (simp add: le32_def)
qed

section \<open>Fields of a header, and C strings\<close>

definition be_val :: "byte list \<Rightarrow> nat" where
  "be_val bs = le_val (rev bs)"

definition field :: "nat \<Rightarrow> nat \<Rightarrow> byte list \<Rightarrow> byte list" where
  "field off len bs = take len (drop off bs)"

definition le32_at :: "byte list \<Rightarrow> nat \<Rightarrow> nat" where
  "le32_at bs off = le_val (field off 4 bs)"

definition be32_at :: "byte list \<Rightarrow> nat \<Rightarrow> nat" where
  "be32_at bs off = be_val (field off 4 bs)"

definition be16_at :: "byte list \<Rightarrow> nat \<Rightarrow> nat" where
  "be16_at bs off = be_val (field off 2 bs)"

definition u8_at :: "byte list \<Rightarrow> nat \<Rightarrow> nat" where
  "u8_at bs off = unat (arr_get 0 bs off)"

definition bytes_of :: "string \<Rightarrow> byte list" where
  "bytes_of s = map (of_nat \<circ> of_char) s"

lemma le_val_less: "le_val bs < 256 ^ length bs"
proof (induction bs)
  case (Cons b bs)
  have "unat b < 256" using unsigned_less [of b, where 'a = nat] by simp
  then have "unat b + 256 * le_val bs < 256 * (le_val bs + 1)" by simp
  also have "\<dots> \<le> 256 * 256 ^ length bs" using Cons by (intro mult_left_mono) simp_all
  finally show ?case by simp
qed simp

lemma be_val_less: "be_val bs < 256 ^ length bs"
  using le_val_less [of "rev bs"] by (simp add: be_val_def)

lemma length_field_le: "length (field off n bs) \<le> n"
  by (simp add: field_def)

lemma field_val_less: "length bs \<le> n \<Longrightarrow> le_val bs < 256 ^ n" "length bs \<le> n \<Longrightarrow> be_val bs < 256 ^ n"
  using le_val_less [of bs] be_val_less [of bs] power_increasing [of "length bs" n "256 :: nat"]
  by (auto elim: order.strict_trans2)

lemma u32_fields [simp]: "le32_at bs off < 4294967296" "be32_at bs off < 4294967296"
  using field_val_less [OF length_field_le [of off 4 bs]] by (simp_all add: le32_at_def be32_at_def)

lemma be16_at_less [simp]: "be16_at bs off < 65536"
  using field_val_less(2) [OF length_field_le [of off 2 bs]] by (simp add: be16_at_def)

text \<open>The C string at the start of some memory, without the zero byte that ends it.\<close>

definition c_string :: "byte list \<Rightarrow> byte list" where
  "c_string bs = takeWhile (\<lambda>b. b \<noteq> 0) bs"

text \<open>Whether a C string has another one in it.\<close>

fun strstr :: "byte list \<Rightarrow> byte list \<Rightarrow> bool" where
  "strstr needle [] = (needle = [])"
| "strstr needle (b # bs) = (take (length needle) (b # bs) = needle \<or> strstr needle bs)"

section \<open>Memory\<close>

text \<open>Writing into some memory; what is behind its end is not part of the model.\<close>

definition poke :: "byte list \<Rightarrow> nat \<Rightarrow> byte list \<Rightarrow> byte list" where
  "poke mem off bs = take (length mem) (take off mem @ bs @ drop (off + length bs) mem)"

lemma length_poke [simp]: "length (poke mem off bs) = length mem"
  by (simp add: poke_def)

lemma poke_in: "off + length bs \<le> length mem \<Longrightarrow> poke mem off bs = take off mem @ bs @ drop (off + length bs) mem"
  by (simp add: poke_def)

lemma poke_mid [simp]: "length X = length Y \<Longrightarrow> poke (A @ X @ C) (length A) Y = A @ Y @ C"
  by (simp add: poke_def)

lemma poke_Nil [simp]: "poke mem off [] = mem"
  by (simp add: poke_def)

lemma poke_poke:
  assumes "off + length xs + length ys \<le> length mem"
  shows "poke (poke mem off xs) (off + length xs) ys = poke mem off (xs @ ys)"
  using assms by (simp add: poke_in ac_simps)

lemma take_poke: "off \<le> n \<Longrightarrow> take off (poke mem n bs) = take off mem"
  by (simp add: poke_def min_def)

lemma nth_poke:
  "i < length mem \<Longrightarrow> poke mem off bs ! i = (if off \<le> i \<and> i < off + length bs then bs ! (i - off) else mem ! i)"
  by (auto simp: poke_def nth_append)

lemma field_nth_eqI:
  assumes "length d = length d'" and "\<And>i. off \<le> i \<Longrightarrow> i < off + n \<Longrightarrow> i < length d \<Longrightarrow> d ! i = d' ! i"
  shows "field off n d = field off n d'"
  by (rule nth_equalityI) (use assms in \<open>auto simp: field_def\<close>)

lemma field_poke_other: "off + n \<le> at \<or> at + length bs \<le> off \<Longrightarrow> field off n (poke d at bs) = field off n d"
  by (rule field_nth_eqI) (auto simp: nth_poke)

lemma field_poke_in: "at + length bs \<le> length d \<Longrightarrow> k + n \<le> length bs \<Longrightarrow> field (at + k) n (poke d at bs) = field k n bs"
  by (rule nth_equalityI) (auto simp: field_def nth_poke)

lemma field_field: "k + n \<le> m \<Longrightarrow> field k n (field off m d) = field (off + k) n d"
  by (simp add: field_def take_drop ac_simps min_def)

lemma field_full: "length (field off n d) = n \<Longrightarrow> 0 < n \<Longrightarrow> off + n \<le> length d"
  by (simp add: field_def)

lemma poke_field:
  assumes "off + es \<le> length d" and "k + length bs \<le> es"
  shows "poke d off (poke (field off es d) k bs) = poke d (off + k) bs"
proof (rule nth_equalityI)
  have l: "length (field off es d) = es" using assms(1) by (simp add: field_def)
  fix i assume "i < length (poke d off (poke (field off es d) k bs))"
  then show "poke d off (poke (field off es d) k bs) ! i = poke d (off + k) bs ! i"
    using assms l by (auto simp: nth_poke field_def)
qed simp

lemma field_sub:
  assumes "field off n h = field off n h'" and "off \<le> k" and "k + m \<le> off + n"
  shows "field k m h = field k m h'"
  using arg_cong [OF assms(1), of "field (k - off) m"] assms(2,3) by (simp add: field_field)

lemma poke_block:
  assumes "n \<le> length d" and "a + length xs \<le> n" and "b + length ys \<le> n"
  shows "poke d 0 (poke (poke (field 0 n d) a xs) b ys) = poke (poke d a xs) b ys"
proof (rule nth_equalityI)
  have l: "length (field 0 n d) = n" using assms(1) by (simp add: field_def)
  fix i assume "i < length (poke d 0 (poke (poke (field 0 n d) a xs) b ys))"
  then show "poke d 0 (poke (poke (field 0 n d) a xs) b ys) ! i = poke (poke d a xs) b ys ! i"
    using assms l by (auto simp: nth_poke field_def)
qed simp

section \<open>Lists\<close>

lemma nth_replicate_take_drop:
  "length (take i xs @ ys @ drop (i + length ys) xs) = length xs"
  if "i + length ys \<le> length xs"
  using that by simp

lemma concat_map_length_const:
  assumes "\<And>x. length (f x) = k"
  shows "length (concat (map f xs)) = k * length xs"
  by (induction xs) (simp_all add: assms)

lemma length_filter_list_update:
  assumes "i < length xs" and "P (xs ! i)" and "\<not> P v"
  shows "length (filter P (xs[i := v])) < length (filter P xs)"
proof -
  have "xs = take i xs @ xs ! i # drop (Suc i) xs"
    using assms(1) by (rule id_take_nth_drop)
  then have "length (filter P xs) = length (filter P (take i xs)) + 1 + length (filter P (drop (Suc i) xs))"
    using assms(2) by (metis (no_types, lifting) add.assoc filter.simps(2) filter_append length_append
      length_Cons plus_1_eq_Suc)
  moreover have "length (filter P (xs[i := v])) =
      length (filter P (take i xs)) + length (filter P (drop (Suc i) xs))"
    using assms(1,3) by (simp add: upd_conv_take_nth_drop)
  ultimately show ?thesis by simp
qed

lemma sorted_wrt_le_last: "sorted_wrt (<) (xs :: nat list) \<Longrightarrow> u \<in> set xs \<Longrightarrow> u \<le> last xs"
  by (induction xs rule: rev_induct) (auto simp: sorted_wrt_append)

end
