(* ===== verification/Bmt_Desc.thy ===== *)
theory Bmt_Desc
  imports Flash_Prelude
begin

text \<open>
  The data of the MediaTek bad-block layer (\<^verbatim>\<open>target/linux/generic/files/drivers/mtd/nand\<close>)
  and the wrappers of \<^verbatim>\<open>mtk_bmt.h\<close> and \<^verbatim>\<open>mtk_bmt.c\<close> around the NAND driver.

  The five operations the layer saves from \<^verbatim>\<open>struct mtd_info\<close> before it replaces them belong to
  the chip driver below it, which is not part of this repository: they are the fields of the
  parameter \<open>nand_drv\<close>, functions over an arbitrary device state \<^typ>\<open>'d\<close>. The global
  \<^verbatim>\<open>bmtd\<close>, the \<^verbatim>\<open>mtd_info\<close> it points to and the device are one record \<open>bmt_world\<close>.
\<close>

section \<open>The interface of the NAND driver\<close>

abbreviation (input) MTD_OPS_PLACE_OOB :: nat where "MTD_OPS_PLACE_OOB \<equiv> 0"
abbreviation (input) OOB_SIGNATURE_OFFSET :: nat where "OOB_SIGNATURE_OFFSET \<equiv> 1"

text \<open>
  \<^verbatim>\<open>struct mtd_oob_ops\<close>. For a read, the buffers of the returned record are the bytes the driver
  delivered; for a write, those of the request are the bytes to be written.
\<close>

record mtd_oob_ops =
  oo_mode :: nat
  oo_len :: nat
  oo_retlen :: nat
  oo_ooblen :: nat
  oo_oobretlen :: nat
  oo_ooboffs :: nat
  oo_datbuf :: "byte list"
  oo_oobbuf :: "byte list"

record 'd nand_drv =
  drv_read_oob :: "nat \<Rightarrow> mtd_oob_ops \<Rightarrow> 'd \<Rightarrow> int \<times> mtd_oob_ops \<times> 'd"
  drv_write_oob :: "nat \<Rightarrow> mtd_oob_ops \<Rightarrow> 'd \<Rightarrow> int \<times> mtd_oob_ops \<times> 'd"
  drv_erase :: "nat \<Rightarrow> nat \<Rightarrow> 'd \<Rightarrow> int \<times> 'd"
  drv_block_isbad :: "nat \<Rightarrow> 'd \<Rightarrow> int \<times> 'd"
  drv_block_markbad :: "nat \<Rightarrow> 'd \<Rightarrow> int \<times> 'd"

section \<open>State\<close>

text \<open>Which implementation a function pointer of \<^verbatim>\<open>struct mtd_info\<close> holds.\<close>

datatype mtd_hook = Hook_null | Hook_driver | Hook_bmt

text \<open>The five pointers the layer saves, the members \<^verbatim>\<open>_read_oob\<close> to \<^verbatim>\<open>_block_markbad\<close> of \<^verbatim>\<open>bmtd\<close>.\<close>

record mtd_hooks =
  hk_read_oob :: mtd_hook
  hk_write_oob :: mtd_hook
  hk_erase :: mtd_hook
  hk_block_isbad :: mtd_hook
  hk_block_markbad :: mtd_hook

record mtd_info =
  mtd_size :: nat
  erasesize :: nat
  writesize :: nat
  oobsize :: nat
  bitflip_threshold :: nat
  ecc_strength :: nat
  hook_read_oob :: mtd_hook
  hook_write_oob :: mtd_hook
  hook_erase :: mtd_hook
  hook_block_isbad :: mtd_hook
  hook_block_markbad :: mtd_hook

text \<open>\<^verbatim>\<open>struct bbmt\<close> and \<^verbatim>\<open>struct bbbt\<close> of the v2 format.\<close>

record bbmt =
  bm_block :: nat
  bm_mapped :: nat

abbreviation (input) NO_MAPPED :: nat where "NO_MAPPED \<equiv> 0"
abbreviation (input) NORMAL_MAPPED :: nat where "NORMAL_MAPPED \<equiv> 1"
abbreviation (input) BMT_MAPPED :: nat where "BMT_MAPPED \<equiv> 2"

record bbbt =
  bb_signature :: "byte list"
  bb_version :: nat
  bb_tbl :: "nat list"
  bmt_tbl :: "bbmt list"

text \<open>
  The structures of the NMBM format. \<open>sig_padding\<close> is the three declared bytes and the four that
  align the structure to its 64-bit member.
\<close>

record nmbm_header =
  h_magic :: nat
  h_version :: nat
  h_size :: nat
  h_checksum :: nat

record nmbm_signature =
  sig_header :: nmbm_header
  nand_size :: nat
  sig_block_size :: nat
  sig_page_size :: nat
  sig_spare_size :: nat
  mgmt_start_pb :: nat
  max_try_count :: nat
  sig_padding :: "byte list"

record nmbm_info_table_header =
  it_header :: nmbm_header
  write_count :: nat
  state_table_off :: nat
  mapping_table_off :: nat
  it_padding :: nat

record nmbm_instance =
  rawpage_size :: nat
  rawblock_size :: nat
  rawchip_size :: nat
  signature :: nmbm_signature
  info_table_cache :: "byte list"
  info_table_size :: nat
  info_table_spare_blocks :: nat
  info_table :: nmbm_info_table_header
  block_state :: "32 word list"
  block_state_changed :: nat
  state_table_size :: nat
  block_mapping :: "int list"
  block_mapping_changed :: nat
  mapping_table_size :: nat
  protected :: bool
  block_count :: nat
  data_block_count :: nat
  mgmt_start_ba :: nat
  main_table_ba :: nat
  backup_table_ba :: nat
  mapping_blocks_ba :: nat
  mapping_blocks_top_ba :: nat
  signature_ba :: nat
  max_ratio :: nat
  max_reserved_blocks :: nat
  empty_page_ecc_ok :: bool
  force_create :: bool

text \<open>
  The structures of the EcoNet format (\<^verbatim>\<open>target/linux/econet/files/drivers/mtd/nand/en75_bmt.c\<close>): the
  two tables, the blocks of the reserve area and the context of that back end.
\<close>

record en_entry =
  en_from :: nat
  en_to :: nat

record en_bmt_table =
  bmth_signature :: "byte list"
  bmth_version :: nat
  bmth_bad_count :: nat
  bmth_size :: nat
  bmth_checksum :: nat
  bmth_reserved :: "byte list"
  bmt_entries :: "en_entry list"

record en_bbt_table =
  bbth_signature :: "byte list"
  bbth_checksum :: nat
  bbth_version :: nat
  bbth_size :: nat
  bbth_reserved :: "byte list"
  bbt_entries :: "nat list"

datatype block_status = BS_INVALID | BS_AVAILABLE | BS_BAD | BS_MAPPED | BS_BMT | BS_BBT | BS_NEED_ERASE

record block_info =
  bi_index :: nat
  bi_status :: block_status

record en75_bmt_m =
  en_bbt :: en_bbt_table
  en_bmt :: en_bmt_table
  rblocks :: "block_info list"
  reserve_area_begin :: nat
  can_remap_ranges :: "(nat \<times> nat) list"
  bbt_dirty :: int
  bmt_dirty :: int
  can_write_factory_bbt :: bool

text \<open>
  \<^verbatim>\<open>struct bmt_desc\<close>: \<open>attached\<close> is "the \<^verbatim>\<open>mtd\<close> pointer is set", \<open>ops_sig\<close> is
  \<^verbatim>\<open>bmtd.ops->sig\<close>, \<open>remap_range\<close> is the device-tree property as pairs of host-order cells
  (\<^const>\<open>None\<close> for the null pointer), and \<open>bbt\<close> and \<open>ni\<close> are the two members of the union.
  \<open>en75\<close> is not a member of the structure: it is the static context of the EcoNet back end, kept here
  since the operations of every back end are functions of this record. The generic kernel has none.
\<close>

record bmt_desc =
  attached :: bool
  saved :: mtd_hooks
  ops_sig :: "byte list"
  bbt_buf :: "byte list"
  data_buf :: "byte list"
  bbt :: bbbt
  ni :: nmbm_instance
  table_size :: nat
  pg_size :: nat
  blk_size :: nat
  pg_shift :: nat
  blk_shift :: nat
  pool_lba :: nat
  pool_pba :: nat
  bb_max :: nat
  total_blks :: nat
  bmt_blk_idx :: nat
  bmt_pgs :: nat
  remap_range :: "(nat \<times> nat) list option"
  oob_offset :: nat
  en75 :: en75_bmt_m

record 'd bmt_world =
  dev :: 'd
  mtd :: mtd_info
  bmtd :: bmt_desc

text \<open>\<^verbatim>\<open>struct bmt_desc bmtd = {}\<close>, which is also what detaching leaves: every field is zero.\<close>

definition nmbm_header_zero :: nmbm_header where
  "nmbm_header_zero = \<lparr>h_magic = 0, h_version = 0, h_size = 0, h_checksum = 0\<rparr>"

definition nmbm_instance_zero :: nmbm_instance where
  "nmbm_instance_zero =
     \<lparr>rawpage_size = 0, rawblock_size = 0, rawchip_size = 0,
      signature = \<lparr>sig_header = nmbm_header_zero, nand_size = 0, sig_block_size = 0,
        sig_page_size = 0, sig_spare_size = 0, mgmt_start_pb = 0, max_try_count = 0,
        sig_padding = replicate 7 0\<rparr>,
      info_table_cache = [], info_table_size = 0, info_table_spare_blocks = 0,
      info_table = \<lparr>it_header = nmbm_header_zero, write_count = 0, state_table_off = 0,
        mapping_table_off = 0, it_padding = 0\<rparr>,
      block_state = [], block_state_changed = 0, state_table_size = 0, block_mapping = [],
      block_mapping_changed = 0, mapping_table_size = 0, protected = False, block_count = 0,
      data_block_count = 0, mgmt_start_ba = 0, main_table_ba = 0, backup_table_ba = 0,
      mapping_blocks_ba = 0, mapping_blocks_top_ba = 0, signature_ba = 0, max_ratio = 0,
      max_reserved_blocks = 0, empty_page_ecc_ok = False, force_create = False\<rparr>"

definition en75_zero :: en75_bmt_m where
  "en75_zero =
     \<lparr>en_bbt = \<lparr>bbth_signature = replicate 4 0, bbth_checksum = 0, bbth_version = 0, bbth_size = 0,
        bbth_reserved = replicate 2 0, bbt_entries = replicate 1000 0\<rparr>,
      en_bmt = \<lparr>bmth_signature = replicate 3 0, bmth_version = 0, bmth_bad_count = 0, bmth_size = 0,
        bmth_checksum = 0, bmth_reserved = replicate 13 0, bmt_entries = replicate 256 \<lparr>en_from = 0, en_to = 0\<rparr>\<rparr>,
      rblocks = [], reserve_area_begin = 0, can_remap_ranges = [], bbt_dirty = 0, bmt_dirty = 0,
      can_write_factory_bbt = False\<rparr>"

definition bmtd_zero :: bmt_desc where
  "bmtd_zero =
     \<lparr>attached = False,
      saved = \<lparr>hk_read_oob = Hook_null, hk_write_oob = Hook_null, hk_erase = Hook_null,
        hk_block_isbad = Hook_null, hk_block_markbad = Hook_null\<rparr>, ops_sig = [], bbt_buf = [], data_buf = [],
      bbt = \<lparr>bb_signature = [], bb_version = 0, bb_tbl = [], bmt_tbl = []\<rparr>,
      ni = nmbm_instance_zero, table_size = 0, pg_size = 0, blk_size = 0, pg_shift = 0,
      blk_shift = 0, pool_lba = 0, pool_pba = 0, bb_max = 0, total_blks = 0, bmt_blk_idx = 0,
      bmt_pgs = 0, remap_range = None, oob_offset = 0, en75 = en75_zero\<rparr>"

section \<open>The wrappers of the header\<close>

definition blk_pg :: "bmt_desc \<Rightarrow> nat \<Rightarrow> nat" where
  "blk_pg b block = u32 (block * 2 ^ (blk_shift b - pg_shift b))"

definition oob_request :: "nat \<Rightarrow> nat \<Rightarrow> nat \<Rightarrow> byte list \<Rightarrow> byte list \<Rightarrow> mtd_oob_ops" where
  "oob_request ln ooblen ooboffs dat oob =
     \<lparr>oo_mode = MTD_OPS_PLACE_OOB, oo_len = ln, oo_retlen = 0, oo_ooblen = ooblen,
      oo_oobretlen = 0, oo_ooboffs = ooboffs, oo_datbuf = dat, oo_oobbuf = oob\<rparr>"

text \<open>
  The page number is a \<^verbatim>\<open>u32\<close> and the shift is done at that width. The result is the return
  code, the data bytes and the bytes of the free data of the spare area.
\<close>

definition bbt_nand_read ::
    "'d nand_drv \<Rightarrow> nat \<Rightarrow> nat \<Rightarrow> nat \<Rightarrow> 'd bmt_world \<Rightarrow> int \<times> byte list \<times> byte list \<times> 'd bmt_world" where
  "bbt_nand_read D page dat_len fdm_len w =
     (let ops = oob_request dat_len fdm_len (oob_offset (bmtd w)) [] [];
          (ret, ops', d) = drv_read_oob D (u32 (page * 2 ^ pg_shift (bmtd w))) ops (dev w)
      in (if ret < 0 then ret else 0, oo_datbuf ops', oo_oobbuf ops', w\<lparr>dev := d\<rparr>))"

definition bbt_nand_erase :: "'d nand_drv \<Rightarrow> nat \<Rightarrow> 'd bmt_world \<Rightarrow> int \<times> 'd bmt_world" where
  "bbt_nand_erase D block w =
     (let (ret, d) = drv_erase D (block * 2 ^ blk_shift (bmtd w)) (blk_size (bmtd w)) (dev w)
      in (ret, w\<lparr>dev := d\<rparr>))"

definition write_bmt ::
    "'d nand_drv \<Rightarrow> nat \<Rightarrow> byte list \<Rightarrow> 'd bmt_world \<Rightarrow> int \<times> 'd bmt_world" where
  "write_bmt D block dat w =
     (let b = bmtd w;
          ops = oob_request (u32 (bmt_pgs b * 2 ^ pg_shift b)) (length (ops_sig b))
                  (OOB_SIGNATURE_OFFSET + oob_offset b) dat (ops_sig b);
          (ret, ops', d) = drv_write_oob D (block * 2 ^ blk_shift b) ops (dev w)
      in (ret, w\<lparr>dev := d\<rparr>))"

section \<open>Copying a block\<close>

text \<open>The bytes of a buffer after a transfer of \<open>xs\<close> into its front.\<close>

definition fill_front :: "byte list \<Rightarrow> byte list \<Rightarrow> byte list" where
  "fill_front xs buf = xs @ drop (length xs) buf"

text \<open>
  The loop of \<^verbatim>\<open>bbt_nand_copy\<close>: \<open>n\<close> pages are left. The write request is a fresh local of each
  iteration, and the code sets its \<^verbatim>\<open>ooblen\<close> only after the write.
\<close>

fun bbt_nand_copy_loop ::
    "'d nand_drv \<Rightarrow> nat \<Rightarrow> nat \<Rightarrow> int \<Rightarrow> nat \<Rightarrow> nat \<Rightarrow> nat \<Rightarrow> 'd bmt_world \<Rightarrow> int \<times> 'd bmt_world" where
  "bbt_nand_copy_loop D src dest max_offset pages 0 offset w = (0, w)"
| "bbt_nand_copy_loop D src dest max_offset pages (Suc n) offset w =
     (if int offset \<ge> max_offset then (0, w)
      else
        let b = bmtd w;
            rd_ops = oob_request (pg_size b) (min (oobsize (mtd w) div pages) 64) 0 [] [];
            (ret, rd, d) = drv_read_oob D (src + offset) rd_ops (dev w);
            w1 = w\<lparr>dev := d, bmtd := b\<lparr>data_buf := fill_front (oo_datbuf rd) (data_buf b)\<rparr>\<rparr>
        in if ret < 0 \<and> \<not> mtd_is_bitflip ret then (ret, w1)
           else if oo_retlen rd = 0 then (0, w1)
           else
             let wr_ops = oob_request (pg_size b) 0 0 (data_buf (bmtd w1)) (oo_oobbuf rd);
                 (ret2, wr, d2) = drv_write_oob D (dest + offset) wr_ops (dev w1);
                 w2 = w1\<lparr>dev := d2\<rparr>
             in if ret2 < 0 then (ret2, w2)
                else bbt_nand_copy_loop D src dest max_offset pages n (offset + oo_retlen rd) w2)"

definition bbt_nand_copy ::
    "'d nand_drv \<Rightarrow> nat \<Rightarrow> nat \<Rightarrow> int \<Rightarrow> 'd bmt_world \<Rightarrow> int \<times> 'd bmt_world" where
  "bbt_nand_copy D dest_blk src_blk max_offset w =
     (let b = bmtd w;
          pages = blk_size b div 2 ^ pg_shift b
      in bbt_nand_copy_loop D (src_blk * 2 ^ blk_shift b) (dest_blk * 2 ^ blk_shift b)
           max_offset pages pages 0 w)"

section \<open>Remap ranges\<close>

fun find_range :: "nat \<Rightarrow> (nat \<times> nat) list \<Rightarrow> (int \<times> int) option" where
  "find_range addr [] = None"
| "find_range addr ((lo, hi) # rs) =
     (if addr < lo \<or> addr \<ge> hi then find_range addr rs else Some (s32 lo, s32 hi))"

definition mapping_block_in_range :: "bmt_desc \<Rightarrow> nat \<Rightarrow> (int \<times> int) option" where
  "mapping_block_in_range b block =
     (case remap_range b of
        None \<Rightarrow> Some (0, int (total_blks b))
      | Some [] \<Rightarrow> Some (0, int (total_blks b))
      | Some rs \<Rightarrow> find_range (u32 (block * 2 ^ blk_shift b)) rs)"

section \<open>Frame lemmas\<close>

text \<open>
  The wrappers reach the device only: everything else of the state stays, but for the page buffer
  \<open>data_buf\<close>, which the copy loop uses as scratch space. \<open>same_but_buf\<close> names that relation.
\<close>

definition same_but_buf :: "'d bmt_world \<Rightarrow> 'd bmt_world \<Rightarrow> bool" where
  "same_but_buf w w' \<longleftrightarrow> mtd w' = mtd w \<and> (\<exists>x. bmtd w' = (bmtd w)\<lparr>data_buf := x\<rparr>)"

lemma same_but_buf_refl [simp, intro]: "same_but_buf w w"
  by (auto simp: same_but_buf_def intro!: exI [of _ "data_buf (bmtd w)"])

lemma same_but_bufI: "mtd w' = mtd w \<Longrightarrow> bmtd w' = bmtd w \<Longrightarrow> same_but_buf w w'"
  by (auto simp: same_but_buf_def intro!: exI [of _ "data_buf (bmtd w)"])

lemma same_but_buf_trans [trans]:
  "same_but_buf w w1 \<Longrightarrow> same_but_buf w1 w2 \<Longrightarrow> same_but_buf w w2"
  by (auto simp: same_but_buf_def)

lemma same_but_buf_dev [simp]: "same_but_buf w (w\<lparr>dev := d\<rparr>)"
  by (auto simp: same_but_buf_def intro!: exI [of _ "data_buf (bmtd w)"])

lemma bbt_nand_erase_frame [frame]:
  "bbt_nand_erase D block w = (r, w') \<Longrightarrow> mtd w' = mtd w \<and> bmtd w' = bmtd w"
  by (auto simp: bbt_nand_erase_def split: prod.splits)

lemma write_bmt_frame [frame]:
  "write_bmt D block dat w = (r, w') \<Longrightarrow> mtd w' = mtd w \<and> bmtd w' = bmtd w"
  by (auto simp: write_bmt_def Let_def split: prod.splits)

lemma bbt_nand_read_frame [frame]:
  "bbt_nand_read D page dl fl w = (r, dat, fdm, w') \<Longrightarrow> mtd w' = mtd w \<and> bmtd w' = bmtd w"
  by (auto simp: bbt_nand_read_def Let_def split: prod.splits)

lemma bbt_nand_copy_loop_frame:
  "bbt_nand_copy_loop D src dest mx pages n off w = (r, w') \<Longrightarrow> same_but_buf w w'"
proof (induction n arbitrary: off w)
  case 0
  then show ?case by simp
next
  case (Suc n)
  show ?case
  proof (cases "int off \<ge> mx")
    case True
    with Suc.prems show ?thesis by simp
  next
    case False
    let ?req = "oob_request (pg_size (bmtd w)) (min (oobsize (mtd w) div pages) 64) 0 [] []"
    obtain ret rd d where rd: "drv_read_oob D (src + off) ?req (dev w) = (ret, rd, d)"
      by (cases "drv_read_oob D (src + off) ?req (dev w)") auto
    define w1 where "w1 = w\<lparr>dev := d, bmtd := (bmtd w)\<lparr>data_buf := fill_front (oo_datbuf rd) (data_buf (bmtd w))\<rparr>\<rparr>"
    have w1: "same_but_buf w w1" by (auto simp: w1_def same_but_buf_def)
    let ?wr = "oob_request (pg_size (bmtd w)) 0 0 (data_buf (bmtd w1)) (oo_oobbuf rd)"
    obtain ret2 wr d2 where wr: "drv_write_oob D (dest + off) ?wr (dev w1) = (ret2, wr, d2)"
      by (cases "drv_write_oob D (dest + off) ?wr (dev w1)") auto
    have w2: "same_but_buf w (w1\<lparr>dev := d2\<rparr>)"
      using w1 by (rule same_but_buf_trans) simp
    have unf: "bbt_nand_copy_loop D src dest mx pages (Suc n) off w = (if ret < 0 \<and> \<not> mtd_is_bitflip ret then (ret, w1)
        else if oo_retlen rd = 0 then (0, w1)
        else if ret2 < 0 then (ret2, w1\<lparr>dev := d2\<rparr>)
        else bbt_nand_copy_loop D src dest mx pages n (off + oo_retlen rd) (w1\<lparr>dev := d2\<rparr>))"
      using False wr by (simp add: Let_def rd w1_def)
    show ?thesis
    proof (cases "(ret < 0 \<and> \<not> mtd_is_bitflip ret) \<or> oo_retlen rd = 0 \<or> ret2 < 0")
      case True
      with unf Suc.prems have "w' = w1 \<or> w' = w1\<lparr>dev := d2\<rparr>" by (auto split: if_splits)
      with w1 w2 show ?thesis by blast
    next
      case False
      with unf Suc.prems have "bbt_nand_copy_loop D src dest mx pages n (off + oo_retlen rd) (w1\<lparr>dev := d2\<rparr>) = (r, w')"
        by (simp split: if_splits)
      from Suc.IH [OF this] w2 show ?thesis
        using same_but_buf_trans by metis
    qed
  qed
qed

lemma bbt_nand_copy_frame [frame]:
  "bbt_nand_copy D dest src mx w = (r, w') \<Longrightarrow> same_but_buf w w'"
  unfolding bbt_nand_copy_def Let_def by (rule bbt_nand_copy_loop_frame)


section \<open>A driver for witnesses\<close>

text \<open>
  A concrete driver to instantiate the parameter with: every operation succeeds and is recorded,
  with its kind, its address and the spare-area length of its request. Reads deliver erased
  bytes.
\<close>

datatype nand_event = Ev_read nat nat | Ev_write nat nat | Ev_erase nat | Ev_mark nat

definition log_drv :: "nand_event list nand_drv" where
  "log_drv =
     \<lparr>drv_read_oob = (\<lambda>a req d. (0, req\<lparr>oo_retlen := oo_len req, oo_oobretlen := oo_ooblen req,
        oo_datbuf := replicate (oo_len req) 0xff, oo_oobbuf := replicate (oo_ooblen req) 0xff\<rparr>,
        d @ [Ev_read a (oo_ooblen req)])),
      drv_write_oob = (\<lambda>a req d. (0, req\<lparr>oo_retlen := oo_len req, oo_oobretlen := oo_ooblen req\<rparr>,
        d @ [Ev_write a (oo_ooblen req)])),
      drv_erase = (\<lambda>a n d. (0, d @ [Ev_erase a])),
      drv_block_isbad = (\<lambda>a d. (0, d)),
      drv_block_markbad = (\<lambda>a d. (0, d @ [Ev_mark a]))\<rparr>"

definition ex_mtd :: mtd_info where
  "ex_mtd = \<lparr>mtd_size = 32768, erasesize = 4096, writesize = 1024, oobsize = 64,
     bitflip_threshold = 0, ecc_strength = 4, hook_read_oob = Hook_bmt, hook_write_oob = Hook_bmt,
     hook_erase = Hook_bmt, hook_block_isbad = Hook_bmt, hook_block_markbad = Hook_bmt\<rparr>"

text \<open>A chip of eight blocks of four pages of 1 KiB, its first six blocks a remap range.\<close>

definition ex_desc :: bmt_desc where
  "ex_desc = bmtd_zero\<lparr>attached := True, pg_size := 1024, pg_shift := 10, blk_size := 4096,
     blk_shift := 12, total_blks := 8, remap_range := Some [(0, 24576)]\<rparr>"

section \<open>The copy loop and the spare area\<close>

lemma bbt_nand_copy_loop_keeps:
  assumes rd: "\<And>a req d. Q d \<Longrightarrow> Q (snd (snd (drv_read_oob D a req d)))"
    and wr: "\<And>a req d. Q d \<Longrightarrow> oo_ooblen req = 0 \<Longrightarrow> Q (snd (snd (drv_write_oob D a req d)))"
  shows "Q (dev w) \<Longrightarrow> Q (dev (snd (bbt_nand_copy_loop D src dest mx pages n off w)))"
proof (induction n arbitrary: off w)
  case 0
  then show ?case by simp
next
  case (Suc n)
  let ?req = "oob_request (pg_size (bmtd w)) (min (oobsize (mtd w) div pages) 64) 0 [] []"
  obtain ret got d where rdeq: "drv_read_oob D (src + off) ?req (dev w) = (ret, got, d)"
    by (metis prod_cases3)
  let ?buf = "fill_front (oo_datbuf got) (data_buf (bmtd w))"
  let ?wr = "oob_request (pg_size (bmtd w)) 0 0 ?buf (oo_oobbuf got)"
  obtain ret2 dn d2 where wreq: "drv_write_oob D (dest + off) ?wr d = (ret2, dn, d2)"
    by (metis prod_cases3)
  have "Q d" using rd [OF Suc.prems, of "src + off" ?req] rdeq by simp
  moreover have "Q d2" using wr [OF \<open>Q d\<close>, of ?wr "dest + off"] wreq by (simp add: oob_request_def)
  ultimately show ?case using Suc by (simp add: Let_def rdeq wreq)
qed

text \<open>
  Copying a block never writes the spare area: a property of the device that reads keep and
  that writes keep when they carry no spare bytes is kept by \<^const>\<open>bbt_nand_copy\<close>. The code means
  to copy the spare bytes too, but sets the length of the write request after the write.
\<close>

theorem bbt_nand_copy_never_writes_oob:
  assumes "\<And>a req d. Q d \<Longrightarrow> Q (snd (snd (drv_read_oob D a req d)))"
    and "\<And>a req d. Q d \<Longrightarrow> oo_ooblen req = 0 \<Longrightarrow> Q (snd (snd (drv_write_oob D a req d)))"
    and "Q (dev w)"
  shows "Q (dev (snd (bbt_nand_copy D dest src mx w)))"
  unfolding bbt_nand_copy_def Let_def
  using bbt_nand_copy_loop_keeps [of Q D, OF assms(1,2,3)] by simp

theorem bbt_nand_copy_never_writes_oob_witness:
  "list_all (\<lambda>ev. case ev of Ev_write a n \<Rightarrow> n = 0 | _ \<Rightarrow> True)
     (dev (snd (bbt_nand_copy log_drv 5 2 4096 \<lparr>dev = [], mtd = ex_mtd, bmtd = ex_desc\<rparr>)))"
  by (rule bbt_nand_copy_never_writes_oob) (simp_all add: log_drv_def)

end
