(* ===== verification/Bmt_Core.thy ===== *)
theory Bmt_Core
  imports Bmt_Desc
begin

text \<open>
  The layer itself (\<^verbatim>\<open>mtk_bmt.c\<close>): the five operations it puts in place of the driver's, each of
  which translates a logical block through the back end and, when the driver reports an error,
  asks the back end to remap the block and retries. The back end is a record of functions, the
  \<^verbatim>\<open>struct mtk_bmt_ops\<close> of the code, and the contract the layer relies on is the locale
  \<open>bmt_backend\<close>, which each back end interprets in its own theory.
\<close>

section \<open>The back end interface\<close>

record 'd mtk_bmt_ops =
  op_sig :: "byte list"
  op_remap_block :: "nat \<Rightarrow> nat \<Rightarrow> int \<Rightarrow> 'd bmt_world \<Rightarrow> bool \<times> 'd bmt_world"
  op_unmap_block :: "nat \<Rightarrow> 'd bmt_world \<Rightarrow> 'd bmt_world"
  op_get_mapping_block :: "bmt_desc \<Rightarrow> nat \<Rightarrow> int"

definition mtk_bmt_remap_block ::
    "'d mtk_bmt_ops \<Rightarrow> nat \<Rightarrow> int \<Rightarrow> int \<Rightarrow> 'd bmt_world \<Rightarrow> bool \<times> 'd bmt_world" where
  "mtk_bmt_remap_block B block mapped_block copy_len w =
     (case mapping_block_in_range (bmtd w) block of
        None \<Rightarrow> (False, w)
      | Some _ \<Rightarrow> op_remap_block B (u16 block) (u16_of_int mapped_block) copy_len w)"

section \<open>Read\<close>

text \<open>
  The locals of \<^verbatim>\<open>mtk_bmt_read\<close>: the advancing offset, the totals in the caller's
  \<^verbatim>\<open>mtd_oob_ops\<close>, the fields of \<^verbatim>\<open>cur_ops\<close> that change, the bytes delivered so far (the caller's
  buffers up to the advanced pointers), the retry counter and the two results.
\<close>

record rd_state =
  rd_from :: nat
  rd_retlen :: nat
  rd_oobretlen :: nat
  rd_ooblen :: nat
  rd_ooboffs :: nat
  rd_dat :: "byte list"
  rd_oob :: "byte list"
  rd_retry :: nat
  rd_ret :: int
  rd_max_bitflips :: int

datatype 's flow = Return int | Break 's | Continue 's

definition rd_todo :: "mtd_oob_ops \<Rightarrow> rd_state \<Rightarrow> bool" where
  "rd_todo ops s \<longleftrightarrow> rd_retlen s < oo_len ops \<or> rd_oobretlen s < oo_ooblen ops"

text \<open>
  One iteration of the loop. The comparison with \<^verbatim>\<open>bitflip_threshold\<close> is between an \<^verbatim>\<open>int\<close> and
  an \<^verbatim>\<open>unsigned int\<close>, so C converts the return code first.
\<close>

definition mtk_bmt_read_step ::
    "'d nand_drv \<Rightarrow> 'd mtk_bmt_ops \<Rightarrow> mtd_oob_ops \<Rightarrow> rd_state \<Rightarrow> 'd bmt_world \<Rightarrow>
     rd_state flow \<times> 'd bmt_world" where
  "mtk_bmt_read_step D B ops s w =
     (let b = bmtd w; m = mtd w;
          offset = rd_from s AND (blk_size b - 1);
          block = u32 (rd_from s div 2 ^ blk_shift b);
          cur_block = op_get_mapping_block B b block
      in if cur_block < 0 then (Return (- EIO), w)
         else
           let cur_from = nat cur_block * 2 ^ blk_shift b + offset;
               cur_len = min (u32 (erasesize m - offset)) (u32 (oo_len ops - rd_retlen s));
               req = ops\<lparr>oo_retlen := 0, oo_oobretlen := 0, oo_len := cur_len,
                         oo_ooblen := rd_ooblen s, oo_ooboffs := rd_ooboffs s\<rparr>;
               (cur_ret, got, d) = drv_read_oob D cur_from req (dev w);
               w1 = w\<lparr>dev := d\<rparr>;
               s1 = (if cur_ret < 0 then s\<lparr>rd_ret := cur_ret\<rparr>
                     else s\<lparr>rd_max_bitflips := max (rd_max_bitflips s) cur_ret\<rparr>)
           in if cur_ret < 0 \<and> \<not> mtd_is_bitflip cur_ret then
                let (ok, w2) = mtk_bmt_remap_block B block cur_block (int (erasesize m)) w1
                in if ok then
                     if rd_retry s < 10 then (Continue (s1\<lparr>rd_retry := rd_retry s + 1\<rparr>), w2)
                     else (Break (s1\<lparr>rd_retry := rd_retry s + 1\<rparr>), w2)
                   else (Break s1, w2)
              else
                let w2 = (if bitflip_threshold m \<noteq> 0 \<and> u32_of_int cur_ret \<ge> bitflip_threshold m
                          then snd (mtk_bmt_remap_block B block cur_block (int (erasesize m)) w1)
                          else w1);
                    step = (if cur_len = 0 then erasesize m - offset else cur_len)
                in (Continue (s1\<lparr>rd_retlen := rd_retlen s + oo_retlen got,
                       rd_oobretlen := rd_oobretlen s + oo_oobretlen got,
                       rd_ooboffs := 0,
                       rd_ooblen := rd_ooblen s - oo_oobretlen got,
                       rd_dat := rd_dat s @ oo_datbuf got,
                       rd_oob := rd_oob s @ oo_oobbuf got,
                       rd_from := rd_from s + step,
                       rd_retry := 0\<rparr>), w2))"

text \<open>\<^const>\<open>None\<close> is "not finished within the fuel".\<close>

fun mtk_bmt_read_loop ::
    "nat \<Rightarrow> 'd nand_drv \<Rightarrow> 'd mtk_bmt_ops \<Rightarrow> mtd_oob_ops \<Rightarrow> rd_state \<Rightarrow> 'd bmt_world \<Rightarrow>
     (int \<times> rd_state \<times> 'd bmt_world) option" where
  "mtk_bmt_read_loop 0 D B ops s w = None"
| "mtk_bmt_read_loop (Suc n) D B ops s w =
     (if \<not> rd_todo ops s then Some (if rd_ret s < 0 then rd_ret s else rd_max_bitflips s, s, w)
      else case mtk_bmt_read_step D B ops s w of
             (Return r, w') \<Rightarrow> Some (r, s, w')
           | (Break s', w') \<Rightarrow> Some (if rd_ret s' < 0 then rd_ret s' else rd_max_bitflips s', s', w')
           | (Continue s', w') \<Rightarrow> mtk_bmt_read_loop n D B ops s' w')"

definition rd_init :: "nat \<Rightarrow> mtd_oob_ops \<Rightarrow> rd_state" where
  "rd_init from ops =
     \<lparr>rd_from = from, rd_retlen = 0, rd_oobretlen = 0, rd_ooblen = oo_ooblen ops,
      rd_ooboffs = oo_ooboffs ops, rd_dat = [], rd_oob = [], rd_retry = 0, rd_ret = 0,
      rd_max_bitflips = 0\<rparr>"

definition mtk_bmt_read ::
    "nat \<Rightarrow> 'd nand_drv \<Rightarrow> 'd mtk_bmt_ops \<Rightarrow> nat \<Rightarrow> mtd_oob_ops \<Rightarrow> 'd bmt_world \<Rightarrow>
     (int \<times> mtd_oob_ops \<times> 'd bmt_world) option" where
  "mtk_bmt_read fuel D B from ops w =
     (case mtk_bmt_read_loop fuel D B ops (rd_init from ops) w of
        None \<Rightarrow> None
      | Some (r, s, w') \<Rightarrow>
          Some (r, ops\<lparr>oo_retlen := rd_retlen s, oo_oobretlen := rd_oobretlen s,
                       oo_datbuf := rd_dat s, oo_oobbuf := rd_oob s\<rparr>, w'))"

section \<open>Write\<close>

record wr_state =
  ws_to :: nat
  ws_retlen :: nat
  ws_oobretlen :: nat
  ws_ooblen :: nat
  ws_ooboffs :: nat
  ws_dat :: "byte list"
  ws_oob :: "byte list"
  ws_retry :: nat

definition wr_todo :: "mtd_oob_ops \<Rightarrow> wr_state \<Rightarrow> bool" where
  "wr_todo ops s \<longleftrightarrow> ws_retlen s < oo_len ops \<or> ws_oobretlen s < oo_ooblen ops"

definition mtk_bmt_write_step ::
    "'d nand_drv \<Rightarrow> 'd mtk_bmt_ops \<Rightarrow> mtd_oob_ops \<Rightarrow> wr_state \<Rightarrow> 'd bmt_world \<Rightarrow>
     wr_state flow \<times> 'd bmt_world" where
  "mtk_bmt_write_step D B ops s w =
     (let b = bmtd w; m = mtd w;
          offset = ws_to s AND (blk_size b - 1);
          block = u32 (ws_to s div 2 ^ blk_shift b);
          cur_block = op_get_mapping_block B b block
      in if cur_block < 0 then (Return (- EIO), w)
         else
           let cur_to = nat cur_block * 2 ^ blk_shift b + offset;
               cur_len = min (u32 (blk_size b - offset)) (u32 (oo_len ops - ws_retlen s));
               req = ops\<lparr>oo_retlen := 0, oo_oobretlen := 0, oo_len := cur_len,
                         oo_ooblen := ws_ooblen s, oo_ooboffs := ws_ooboffs s,
                         oo_datbuf := ws_dat s, oo_oobbuf := ws_oob s\<rparr>;
               (ret, done, d) = drv_write_oob D cur_to req (dev w);
               w1 = w\<lparr>dev := d\<rparr>
           in if ret < 0 then
                let (ok, w2) = mtk_bmt_remap_block B block cur_block (int offset) w1
                in if ok \<and> ws_retry s < 10 then (Continue (s\<lparr>ws_retry := ws_retry s + 1\<rparr>), w2)
                   else (Return ret, w2)
              else
                let step = (if cur_len = 0 then erasesize m - offset else cur_len)
                in (Continue (s\<lparr>ws_retlen := ws_retlen s + oo_retlen done,
                       ws_oobretlen := ws_oobretlen s + oo_oobretlen done,
                       ws_ooboffs := 0,
                       ws_dat := drop (oo_retlen done) (ws_dat s),
                       ws_oob := drop (oo_oobretlen done) (ws_oob s),
                       ws_ooblen := ws_ooblen s - oo_oobretlen done,
                       ws_to := ws_to s + step,
                       ws_retry := 0\<rparr>), w1))"

fun mtk_bmt_write_loop ::
    "nat \<Rightarrow> 'd nand_drv \<Rightarrow> 'd mtk_bmt_ops \<Rightarrow> mtd_oob_ops \<Rightarrow> wr_state \<Rightarrow> 'd bmt_world \<Rightarrow>
     (int \<times> wr_state \<times> 'd bmt_world) option" where
  "mtk_bmt_write_loop 0 D B ops s w = None"
| "mtk_bmt_write_loop (Suc n) D B ops s w =
     (if \<not> wr_todo ops s then Some (0, s, w)
      else case mtk_bmt_write_step D B ops s w of
             (Return r, w') \<Rightarrow> Some (r, s, w')
           | (Break s', w') \<Rightarrow> Some (0, s', w')
           | (Continue s', w') \<Rightarrow> mtk_bmt_write_loop n D B ops s' w')"

definition wr_init :: "nat \<Rightarrow> mtd_oob_ops \<Rightarrow> wr_state" where
  "wr_init to ops =
     \<lparr>ws_to = to, ws_retlen = 0, ws_oobretlen = 0, ws_ooblen = oo_ooblen ops,
      ws_ooboffs = oo_ooboffs ops, ws_dat = oo_datbuf ops, ws_oob = oo_oobbuf ops, ws_retry = 0\<rparr>"

definition mtk_bmt_write ::
    "nat \<Rightarrow> 'd nand_drv \<Rightarrow> 'd mtk_bmt_ops \<Rightarrow> nat \<Rightarrow> mtd_oob_ops \<Rightarrow> 'd bmt_world \<Rightarrow>
     (int \<times> mtd_oob_ops \<times> 'd bmt_world) option" where
  "mtk_bmt_write fuel D B to ops w =
     (case mtk_bmt_write_loop fuel D B ops (wr_init to ops) w of
        None \<Rightarrow> None
      | Some (r, s, w') \<Rightarrow>
          Some (r, ops\<lparr>oo_retlen := ws_retlen s, oo_oobretlen := ws_oobretlen s\<rparr>, w'))"

section \<open>Erase\<close>

text \<open>
  The mask \<^verbatim>\<open>~mtd->erasesize_mask\<close> is a 32-bit value. \<open>start_addr\<close> is the loop variable, \<open>retry\<close> the retry counter and \<open>ret\<close> the local the code
  returns, which it does not initialise: its first value is an argument. The second component of
  the result is the address the loop stopped at, \<^verbatim>\<open>instr->fail_addr\<close> where the erase failed.
\<close>

fun mtk_bmt_erase_loop ::
    "nat \<Rightarrow> 'd nand_drv \<Rightarrow> 'd mtk_bmt_ops \<Rightarrow> nat \<Rightarrow> nat \<Rightarrow> nat \<Rightarrow> int \<Rightarrow> 'd bmt_world \<Rightarrow>
     (int \<times> nat \<times> 'd bmt_world) option" where
  "mtk_bmt_erase_loop 0 D B start_addr end_addr retry ret w = None"
| "mtk_bmt_erase_loop (Suc n) D B start_addr end_addr retry ret w =
     (if \<not> start_addr < end_addr then Some (ret, start_addr, w)
      else
        let b = bmtd w;
            orig_block = u16 (start_addr div 2 ^ blk_shift b);
            block = op_get_mapping_block B b orig_block
        in if block < 0 then Some (- EIO, start_addr, w)
           else
             let (ret', d) = drv_erase D (nat block * 2 ^ blk_shift b) (blk_size b) (dev w);
                 w1 = w\<lparr>dev := d\<rparr>
             in if ret' \<noteq> 0 then
                  let (ok, w2) = mtk_bmt_remap_block B orig_block block 0 w1
                  in if ok \<and> retry < 10
                     then mtk_bmt_erase_loop n D B start_addr end_addr (retry + 1) ret' w2
                     else Some (ret', start_addr, w2)
                else mtk_bmt_erase_loop n D B (start_addr + erasesize (mtd w)) end_addr 0 ret' w1)"

definition mtk_bmt_mtd_erase ::
    "nat \<Rightarrow> 'd nand_drv \<Rightarrow> 'd mtk_bmt_ops \<Rightarrow> int \<Rightarrow> nat \<Rightarrow> nat \<Rightarrow> 'd bmt_world \<Rightarrow>
     (int \<times> nat \<times> 'd bmt_world) option" where
  "mtk_bmt_mtd_erase fuel D B uninit addr len w =
     mtk_bmt_erase_loop fuel D B (addr AND (4294967296 - erasesize (mtd w))) (addr + len) 0 uninit w"

section \<open>Bad-block queries\<close>

text \<open>
  The \<^verbatim>\<open>retry\<close> label of \<^verbatim>\<open>mtk_bmt_block_isbad\<close>; \<open>n\<close> is the number of retries left. The mapped
  block is stored in a \<^verbatim>\<open>u16\<close>, also when the back end returns an error.
\<close>

fun mtk_bmt_block_isbad_retry ::
    "nat \<Rightarrow> 'd nand_drv \<Rightarrow> 'd mtk_bmt_ops \<Rightarrow> nat \<Rightarrow> 'd bmt_world \<Rightarrow> int \<times> 'd bmt_world" where
  "mtk_bmt_block_isbad_retry n D B orig_block w =
     (let b = bmtd w;
          block = u16_of_int (op_get_mapping_block B b orig_block);
          (ret, d) = drv_block_isbad D (block * 2 ^ blk_shift b) (dev w);
          w1 = w\<lparr>dev := d\<rparr>
      in if ret \<noteq> 0 then
           let (ok, w2) = mtk_bmt_remap_block B orig_block (int block) (int (blk_size b)) w1
           in if ok then (case n of 0 \<Rightarrow> (ret, w2)
                                  | Suc m \<Rightarrow> mtk_bmt_block_isbad_retry m D B orig_block w2)
              else (ret, w2)
         else (ret, w1))"

definition mtk_bmt_block_isbad ::
    "'d nand_drv \<Rightarrow> 'd mtk_bmt_ops \<Rightarrow> nat \<Rightarrow> 'd bmt_world \<Rightarrow> int \<times> 'd bmt_world" where
  "mtk_bmt_block_isbad D B ofs w =
     mtk_bmt_block_isbad_retry 10 D B (u16 (ofs div 2 ^ blk_shift (bmtd w))) w"

definition mtk_bmt_block_markbad ::
    "'d nand_drv \<Rightarrow> 'd mtk_bmt_ops \<Rightarrow> nat \<Rightarrow> 'd bmt_world \<Rightarrow> int \<times> 'd bmt_world" where
  "mtk_bmt_block_markbad D B ofs w =
     (let b = bmtd w;
          orig_block = u16 (ofs div 2 ^ blk_shift b);
          block = op_get_mapping_block B b orig_block
      in if block < 0 then (- EIO, w)
         else
           let w1 = snd (mtk_bmt_remap_block B orig_block block (int (blk_size b)) w);
               (ret, d) = drv_block_markbad D (nat block * 2 ^ blk_shift b) (dev w1)
           in (ret, w1\<lparr>dev := d\<rparr>))"

section \<open>The debugfs entries\<close>

definition mtk_bmt_debug_repair ::
    "'d nand_drv \<Rightarrow> 'd mtk_bmt_ops \<Rightarrow> nat \<Rightarrow> 'd bmt_world \<Rightarrow> int \<times> 'd bmt_world" where
  "mtk_bmt_debug_repair D B val w =
     (let block = val div 2 ^ blk_shift (bmtd w);
          prev_block = op_get_mapping_block B (bmtd w) block
      in if prev_block < 0 then (- EIO, w)
         else
           let w1 = op_unmap_block B (u16 block) w;
               new_block = op_get_mapping_block B (bmtd w1) block
           in if new_block < 0 then (- EIO, w1)
              else if prev_block = new_block then (0, w1)
              else
                let (_, w2) = bbt_nand_erase D (u16_of_int new_block) w1;
                    (_, w3) = bbt_nand_copy D (u16_of_int new_block) (u16_of_int prev_block)
                                (int (blk_size (bmtd w2))) w2
                in (0, w3))"

definition mtk_bmt_debug_mark_good ::
    "'d mtk_bmt_ops \<Rightarrow> nat \<Rightarrow> 'd bmt_world \<Rightarrow> int \<times> 'd bmt_world" where
  "mtk_bmt_debug_mark_good B val w = (0, op_unmap_block B (u16 (val div 2 ^ blk_shift (bmtd w))) w)"

definition mtk_bmt_debug_mark_bad ::
    "'d mtk_bmt_ops \<Rightarrow> nat \<Rightarrow> 'd bmt_world \<Rightarrow> int \<times> 'd bmt_world" where
  "mtk_bmt_debug_mark_bad B val w =
     (let block = u32 (val div 2 ^ blk_shift (bmtd w));
          cur_block = op_get_mapping_block B (bmtd w) block
      in if cur_block < 0 then (- EIO, w)
         else (0, snd (mtk_bmt_remap_block B block cur_block (int (blk_size (bmtd w))) w)))"

end
