(* ===== verification/Bmt_Contract.thy ===== *)
theory Bmt_Contract
  imports Bmt_Core
begin

text \<open>
  What the layer relies on and what follows for its operations. \<open>bmt_backend\<close> is the contract of
  a back end: a mapped block is a block of the chip, and remapping keeps the back end's
  invariant and the geometry. The lemmas of the locale are about the loops of
  \<^const>\<open>mtk_bmt_write\<close>, \<^const>\<open>mtk_bmt_read\<close> and \<^const>\<open>mtk_bmt_mtd_erase\<close>: they end, they keep the
  invariant, and success means that the whole request was carried out.
\<close>

section \<open>Geometry\<close>

text \<open>What no operation of the layer changes after it is attached.\<close>

definition geom :: "'d bmt_world \<Rightarrow> mtd_info \<times> nat \<times> nat \<times> nat \<times> nat \<times> nat \<times> (nat \<times> nat) list option \<times> bool \<times> mtd_hooks" where
  "geom w = (mtd w, blk_size (bmtd w), blk_shift (bmtd w), pg_size (bmtd w), pg_shift (bmtd w),
     total_blks (bmtd w), remap_range (bmtd w), attached (bmtd w), saved (bmtd w))"

text \<open>What attaching establishes: \<^verbatim>\<open>blk_size\<close> is the erase size and a power of two.\<close>

definition geom_ok :: "'d bmt_world \<Rightarrow> bool" where
  "geom_ok w \<longleftrightarrow> blk_size (bmtd w) = 2 ^ blk_shift (bmtd w) \<and> erasesize (mtd w) = blk_size (bmtd w) \<and>
     blk_shift (bmtd w) < 32 \<and> pg_size (bmtd w) = 2 ^ pg_shift (bmtd w) \<and>
     pg_shift (bmtd w) \<le> blk_shift (bmtd w) \<and> total_blks (bmtd w) < 65536"

definition chip_size :: "'d bmt_world \<Rightarrow> nat" where
  "chip_size w = total_blks (bmtd w) * 2 ^ blk_shift (bmtd w)"

lemma geom_eqD:
  assumes "geom w' = geom w"
  shows "mtd w' = mtd w" and "blk_size (bmtd w') = blk_size (bmtd w)"
    and "blk_shift (bmtd w') = blk_shift (bmtd w)" and "pg_size (bmtd w') = pg_size (bmtd w)"
    and "pg_shift (bmtd w') = pg_shift (bmtd w)" and "total_blks (bmtd w') = total_blks (bmtd w)"
    and "remap_range (bmtd w') = remap_range (bmtd w)"
  using assms by (auto simp: geom_def)

lemma geom_ok_cong: "geom w' = geom w \<Longrightarrow> geom_ok w' \<longleftrightarrow> geom_ok w"
  by (simp add: geom_ok_def geom_def)

lemma chip_size_cong: "geom w' = geom w \<Longrightarrow> chip_size w' = chip_size w"
  by (simp add: chip_size_def geom_def)

lemma geom_dev [simp]: "geom (w\<lparr>dev := d\<rparr>) = geom w"
  by (simp add: geom_def)

lemma same_but_buf_geom: "same_but_buf w w' \<Longrightarrow> geom w' = geom w"
  by (auto simp: same_but_buf_def geom_def)

lemma and_blk_mask:
  assumes "geom_ok w"
  shows "a AND (blk_size (bmtd w) - Suc 0) = a mod 2 ^ blk_shift (bmtd w)"
proof -
  have "blk_size (bmtd w) - Suc 0 = mask (blk_shift (bmtd w))"
    using assms by (simp add: geom_ok_def mask_eq_exp_minus_1)
  then show ?thesis by (simp add: take_bit_eq_mask [symmetric] take_bit_eq_mod)
qed

lemma block_in_chip:
  assumes "a < chip_size w" and "geom_ok w"
  shows "a div 2 ^ blk_shift (bmtd w) < total_blks (bmtd w)"
    and "u32 (a div 2 ^ blk_shift (bmtd w)) = a div 2 ^ blk_shift (bmtd w)"
    and "u16 (a div 2 ^ blk_shift (bmtd w)) = a div 2 ^ blk_shift (bmtd w)"
proof -
  show lt: "a div 2 ^ blk_shift (bmtd w) < total_blks (bmtd w)"
    using assms(1) by (simp add: chip_size_def less_mult_imp_div_less)
  have "total_blks (bmtd w) < 65536" using assms(2) by (simp add: geom_ok_def)
  with lt show "u32 (a div 2 ^ blk_shift (bmtd w)) = a div 2 ^ blk_shift (bmtd w)"
    and "u16 (a div 2 ^ blk_shift (bmtd w)) = a div 2 ^ blk_shift (bmtd w)" by simp_all
qed

section \<open>The driver's contract\<close>

text \<open>
  What the MTD interface promises of a driver: an operation that does not fail transfers what it
  was asked to. For a read, a corrected bitflip (\<open>-EUCLEAN\<close>) is not a failure.
\<close>

definition drv_write_full :: "'d nand_drv \<Rightarrow> bool" where
  "drv_write_full D \<longleftrightarrow> (\<forall>a req d. let (ret, done, d') = drv_write_oob D a req d in
     0 \<le> ret \<longrightarrow> oo_retlen done = oo_len req)"

definition drv_read_full :: "'d nand_drv \<Rightarrow> bool" where
  "drv_read_full D \<longleftrightarrow> (\<forall>a req d. let (ret, got, d') = drv_read_oob D a req d in
     0 \<le> ret \<or> mtd_is_bitflip ret \<longrightarrow>
     oo_retlen got = oo_len req \<and> length (oo_datbuf got) = oo_len req)"

lemma drv_write_fullD:
  "drv_write_full D \<Longrightarrow> drv_write_oob D a req d = (ret, done, d') \<Longrightarrow> 0 \<le> ret \<Longrightarrow>
   oo_retlen done = oo_len req"
  by (force simp: drv_write_full_def Let_def split: prod.splits)

lemma drv_read_fullD:
  assumes "drv_read_full D" and "drv_read_oob D a req d = (ret, got, d')"
    and "0 \<le> ret \<or> mtd_is_bitflip ret"
  shows "oo_retlen got = oo_len req" and "length (oo_datbuf got) = oo_len req"
  using assms by (force simp: drv_read_full_def Let_def split: prod.splits)+

section \<open>The contract of a back end\<close>

locale bmt_backend =
  fixes B :: "'d mtk_bmt_ops"
    and binv :: "bmt_desc \<Rightarrow> bool"
  assumes get_in_chip:
    "binv b \<Longrightarrow> block < total_blks b \<Longrightarrow> op_get_mapping_block B b block < int (total_blks b)"
  and remap_keeps:
    "binv (bmtd w) \<Longrightarrow> geom_ok w \<Longrightarrow> block < total_blks (bmtd w) \<Longrightarrow> mapped < total_blks (bmtd w) \<Longrightarrow>
     op_remap_block B block mapped n w = (r, w') \<Longrightarrow> binv (bmtd w') \<and> geom w' = geom w"
begin

lemma remap_block_keeps:
  assumes "binv (bmtd w)" and g: "geom_ok w" and "block < total_blks (bmtd w)"
    and "0 \<le> mapped" and "mapped < int (total_blks (bmtd w))"
    and eq: "mtk_bmt_remap_block B block mapped n w = (r, w')"
  shows "binv (bmtd w') \<and> geom w' = geom w"
proof (cases "mapping_block_in_range (bmtd w) block")
  case None
  with assms show ?thesis by (simp add: mtk_bmt_remap_block_def)
next
  case (Some p)
  have lt: "total_blks (bmtd w) < 65536" using g by (simp add: geom_ok_def)
  have "op_remap_block B block (nat mapped) n w = (r, w')"
    using eq Some assms(3-5) lt by (simp add: mtk_bmt_remap_block_def)
  from remap_keeps [OF assms(1) g assms(3) _ this] assms(4,5) show ?thesis by simp
qed

text \<open>The loop invariant of a write of data bytes.\<close>

definition wr_ok :: "mtd_oob_ops \<Rightarrow> nat \<Rightarrow> wr_state \<Rightarrow> 'd bmt_world \<Rightarrow> bool" where
  "wr_ok ops to s w \<longleftrightarrow> binv (bmtd w) \<and> geom_ok w \<and> to + oo_len ops \<le> chip_size w \<and>
     oo_len ops < 4294967296 \<and> ws_to s = to + ws_retlen s \<and> ws_retlen s \<le> oo_len ops \<and>
     ws_retry s \<le> 10 \<and> oo_ooblen ops = 0"

lemma wr_ok_cong:
  "wr_ok ops to s w \<Longrightarrow> binv (bmtd w') \<Longrightarrow> geom w' = geom w \<Longrightarrow> wr_ok ops to s w'"
  using geom_ok_cong [of w' w] chip_size_cong [of w' w] by (simp add: wr_ok_def)

lemma write_step_outcome:
  assumes ok: "wr_ok ops to s w" and full: "drv_write_full D" and todo: "wr_todo ops s"
  obtains r w' where "mtk_bmt_write_step D B ops s w = (Return r, w')" and "r < 0"
      and "binv (bmtd w')" and "geom w' = geom w"
  | s' w' where "mtk_bmt_write_step D B ops s w = (Continue s', w')" and "wr_ok ops to s' w'"
      and "geom w' = geom w"
      and "ws_retlen s' = ws_retlen s \<and> ws_retry s' = Suc (ws_retry s) \<or>
           ws_retlen s < ws_retlen s' \<and> ws_retry s' = 0"
proof -
  let ?b = "bmtd w"
  let ?off = "ws_to s mod 2 ^ blk_shift ?b"
  let ?blk = "ws_to s div 2 ^ blk_shift ?b"
  let ?cur = "op_get_mapping_block B ?b ?blk"
  let ?len = "min (u32 (blk_size ?b - ?off)) (u32 (oo_len ops - ws_retlen s))"
  let ?req = "ops\<lparr>oo_retlen := 0, oo_oobretlen := 0, oo_len := ?len, oo_ooblen := ws_ooblen s,
     oo_ooboffs := ws_ooboffs s, oo_datbuf := ws_dat s, oo_oobbuf := ws_oob s\<rparr>"
  have g: "geom_ok w" and inv: "binv ?b" and lt: "ws_retlen s < oo_len ops"
    and in_chip: "ws_to s < chip_size w"
    using ok todo by (auto simp: wr_ok_def wr_todo_def)
  note blk = block_in_chip [OF in_chip g]
  have cur_lt: "?cur < int (total_blks ?b)" using get_in_chip [OF inv blk(1)] .
  have off_lt: "?off < blk_size ?b" and size32: "blk_size ?b < 4294967296"
    using g power_strict_increasing [of "blk_shift ?b" 32 "2::nat"] by (auto simp: geom_ok_def)
  then have len_pos: "0 < ?len" and len_le: "?len \<le> oo_len ops - ws_retlen s"
    using lt ok by (auto simp: wr_ok_def)
  obtain ret dn d where drv:
      "drv_write_oob D (nat ?cur * 2 ^ blk_shift ?b + ?off) ?req (dev w) = (ret, dn, d)"
    by (metis prod_cases3)
  obtain ok' w2 where rm: "mtk_bmt_remap_block B ?blk ?cur (int ?off) (w\<lparr>dev := d\<rparr>) = (ok', w2)"
    by fastforce
  note unf = mtk_bmt_write_step_def Let_def and_blk_mask [OF g] blk(2) drv rm
  consider (neg) "?cur < 0" | (fail) "0 \<le> ?cur" "ret < 0" | (good) "0 \<le> ?cur" "0 \<le> ret"
    by linarith
  then show thesis
  proof cases
    case neg
    then have "mtk_bmt_write_step D B ops s w = (Return (- EIO), w)"
      by (simp add: unf)
    with inv show thesis by (intro that(1)) auto
  next
    case fail
    have k: "binv (bmtd w2) \<and> geom w2 = geom w"
      using remap_block_keeps [OF _ _ _ fail(1) _ rm] inv g blk(1) cur_lt
      by (simp add: geom_ok_cong [OF geom_dev])
    show thesis
    proof (cases "ok' \<and> ws_retry s < 10")
      case True
      with fail have "mtk_bmt_write_step D B ops s w = (Continue (s\<lparr>ws_retry := ws_retry s + 1\<rparr>), w2)"
        by (simp add: unf)
      moreover have "wr_ok ops to (s\<lparr>ws_retry := ws_retry s + 1\<rparr>) w2"
        using ok k True wr_ok_cong [of ops to "s\<lparr>ws_retry := ws_retry s + 1\<rparr>" w w2]
        by (simp add: wr_ok_def)
      ultimately show thesis by (rule that(2)) (simp_all add: k)
    next
      case False
      with fail have "mtk_bmt_write_step D B ops s w = (Return ret, w2)"
        by (auto simp: unf)
      then show thesis by (rule that(1)) (simp_all add: fail k)
    qed
  next
    case good
    have full': "oo_retlen dn = ?len" using drv_write_fullD [OF full drv good(2)] by simp
    define s' where "s' = s\<lparr>ws_retlen := ws_retlen s + ?len,
       ws_oobretlen := ws_oobretlen s + oo_oobretlen dn, ws_ooboffs := 0,
       ws_dat := drop ?len (ws_dat s), ws_oob := drop (oo_oobretlen dn) (ws_oob s),
       ws_ooblen := ws_ooblen s - oo_oobretlen dn, ws_to := ws_to s + ?len, ws_retry := 0\<rparr>"
    have "mtk_bmt_write_step D B ops s w = (Continue s', w\<lparr>dev := d\<rparr>)"
      using good len_pos by (auto simp: unf full' s'_def)
    moreover have "wr_ok ops to s' (w\<lparr>dev := d\<rparr>)"
      using ok len_le lt by (auto simp: wr_ok_def s'_def geom_ok_cong [OF geom_dev] chip_size_def)
    ultimately show thesis by (rule that(2)) (use len_pos in \<open>simp_all add: s'_def\<close>)
  qed
qed

lemma write_loop_returns:
  assumes "wr_ok ops to s w" and "drv_write_full D"
    and "11 * (oo_len ops - ws_retlen s) + (10 - ws_retry s) < fuel"
  shows "\<exists>r s' w'. mtk_bmt_write_loop fuel D B ops s w = Some (r, s', w') \<and> binv (bmtd w') \<and>
     geom w' = geom w \<and> (r = 0 \<longleftrightarrow> ws_retlen s' = oo_len ops) \<and> r \<le> 0"
  using assms(1,3)
proof (induction fuel arbitrary: s w)
  case 0
  then show ?case by simp
next
  case (Suc n)
  show ?case
  proof (cases "wr_todo ops s")
    case False
    with Suc.prems show ?thesis by (auto simp: wr_ok_def wr_todo_def)
  next
    case True
    from Suc.prems(1) assms(2) True show ?thesis
    proof (cases rule: write_step_outcome)
      case (1 r w')
      with True Suc.prems show ?thesis by (auto simp: wr_todo_def wr_ok_def)
    next
      case (2 s' w')
      from 2(2,4) Suc.prems have "11 * (oo_len ops - ws_retlen s') + (10 - ws_retry s') < n"
        by (auto simp: wr_ok_def)
      from Suc.IH [OF 2(2) this] 2 True show ?thesis by auto
    qed
  qed
qed

text \<open>The loop invariant of a read of data bytes, and the same three facts for reads.\<close>

definition rd_ok :: "mtd_oob_ops \<Rightarrow> nat \<Rightarrow> rd_state \<Rightarrow> 'd bmt_world \<Rightarrow> bool" where
  "rd_ok ops fr s w \<longleftrightarrow> binv (bmtd w) \<and> geom_ok w \<and> fr + oo_len ops \<le> chip_size w \<and>
     oo_len ops < 4294967296 \<and> rd_from s = fr + rd_retlen s \<and> rd_retlen s \<le> oo_len ops \<and>
     length (rd_dat s) = rd_retlen s \<and> rd_retry s \<le> 10 \<and> oo_ooblen ops = 0 \<and>
     0 \<le> rd_max_bitflips s"

lemma rd_ok_cong:
  "rd_ok ops fr s w \<Longrightarrow> binv (bmtd w') \<Longrightarrow> geom w' = geom w \<Longrightarrow> rd_ok ops fr s w'"
  using geom_ok_cong [of w' w] chip_size_cong [of w' w] by (simp add: rd_ok_def)

lemma read_step_outcome:
  assumes ok: "rd_ok ops fr s w" and full: "drv_read_full D" and todo: "rd_todo ops s"
  obtains w' where "mtk_bmt_read_step D B ops s w = (Return (- EIO), w')"
      and "binv (bmtd w')" and "geom w' = geom w"
  | s' w' where "mtk_bmt_read_step D B ops s w = (Break s', w')" and "rd_ret s' < 0"
      and "rd_retlen s' = rd_retlen s" and "length (rd_dat s') = rd_retlen s'"
      and "binv (bmtd w')" and "geom w' = geom w"
  | s' w' where "mtk_bmt_read_step D B ops s w = (Continue s', w')" and "rd_ok ops fr s' w'"
      and "geom w' = geom w"
      and "rd_retlen s' = rd_retlen s \<and> rd_retry s' = Suc (rd_retry s) \<or>
           rd_retlen s < rd_retlen s' \<and> rd_retry s' = 0"
proof -
  let ?b = "bmtd w"
  let ?off = "rd_from s mod 2 ^ blk_shift ?b"
  let ?blk = "rd_from s div 2 ^ blk_shift ?b"
  let ?cur = "op_get_mapping_block B ?b ?blk"
  let ?len = "min (u32 (erasesize (mtd w) - ?off)) (u32 (oo_len ops - rd_retlen s))"
  let ?req = "ops\<lparr>oo_retlen := 0, oo_oobretlen := 0, oo_len := ?len, oo_ooblen := rd_ooblen s,
     oo_ooboffs := rd_ooboffs s\<rparr>"
  have g: "geom_ok w" and inv: "binv ?b" and lt: "rd_retlen s < oo_len ops"
    and in_chip: "rd_from s < chip_size w"
    using ok todo by (auto simp: rd_ok_def rd_todo_def)
  note blk = block_in_chip [OF in_chip g]
  have cur_lt: "?cur < int (total_blks ?b)" using get_in_chip [OF inv blk(1)] .
  have off_lt: "?off < erasesize (mtd w)" and size32: "erasesize (mtd w) < 4294967296"
    using g power_strict_increasing [of "blk_shift ?b" 32 "2::nat"] by (auto simp: geom_ok_def)
  then have len_pos: "0 < ?len" and len_le: "?len \<le> oo_len ops - rd_retlen s"
    using lt ok by (auto simp: rd_ok_def)
  obtain ret got d where drv:
      "drv_read_oob D (nat ?cur * 2 ^ blk_shift ?b + ?off) ?req (dev w) = (ret, got, d)"
    by (metis prod_cases3)
  obtain ok' w2 where rm:
      "mtk_bmt_remap_block B ?blk ?cur (int (erasesize (mtd w))) (w\<lparr>dev := d\<rparr>) = (ok', w2)"
    by fastforce
  define s1 where "s1 = (if ret < 0 then s\<lparr>rd_ret := ret\<rparr>
     else s\<lparr>rd_max_bitflips := max (rd_max_bitflips s) ret\<rparr>)"
  note unf = mtk_bmt_read_step_def Let_def and_blk_mask [OF g] blk(2) drv rm s1_def
  consider (neg) "?cur < 0" | (fail) "0 \<le> ?cur" "ret < 0" "\<not> mtd_is_bitflip ret"
    | (good) "0 \<le> ?cur" "0 \<le> ret \<or> mtd_is_bitflip ret"
    by linarith
  then show thesis
  proof cases
    case neg
    then have "mtk_bmt_read_step D B ops s w = (Return (- EIO), w)"
      by (simp add: unf)
    with inv show thesis by (intro that(1)) auto
  next
    case fail
    have k: "binv (bmtd w2)" "geom w2 = geom w"
      using remap_block_keeps [OF _ _ _ fail(1) _ rm] inv g blk(1) cur_lt
      by (simp_all add: geom_ok_cong [OF geom_dev])
    have s1: "rd_ret s1 < 0" "rd_retlen s1 = rd_retlen s" "length (rd_dat s1) = rd_retlen s1"
      and s1_ok: "rd_ok ops fr s1 w"
      using ok fail by (auto simp: s1_def rd_ok_def)
    show thesis
    proof (cases "ok' \<and> rd_retry s < 10")
      case True
      with fail have "mtk_bmt_read_step D B ops s w = (Continue (s1\<lparr>rd_retry := rd_retry s + 1\<rparr>), w2)"
        by (simp add: unf)
      moreover have "rd_ok ops fr (s1\<lparr>rd_retry := rd_retry s + 1\<rparr>) w2"
        using s1_ok k True rd_ok_cong [of ops fr "s1\<lparr>rd_retry := rd_retry s + 1\<rparr>" w w2]
        by (simp add: rd_ok_def)
      ultimately show thesis by (rule that(3)) (simp_all add: k s1)
    next
      case False
      with fail obtain s' where "mtk_bmt_read_step D B ops s w = (Break s', w2)"
          and "s' = s1 \<or> s' = s1\<lparr>rd_retry := rd_retry s + 1\<rparr>"
        by (cases ok') (simp_all add: unf)
      then show thesis using s1 k by (intro that(2) [of s' w2]) auto
    qed
  next
    case good
    note full' = drv_read_fullD [OF full drv good(2)]
    define w3 where "w3 = (if bitflip_threshold (mtd w) \<noteq> 0 \<and>
       u32_of_int ret \<ge> bitflip_threshold (mtd w) then w2 else w\<lparr>dev := d\<rparr>)"
    have k: "binv (bmtd w3)" "geom w3 = geom w"
      using remap_block_keeps [OF _ _ _ good(1) _ rm] inv g blk(1) cur_lt
      by (simp_all add: w3_def geom_ok_cong [OF geom_dev])
    define s' where "s' = s1\<lparr>rd_retlen := rd_retlen s + ?len,
       rd_oobretlen := rd_oobretlen s + oo_oobretlen got, rd_ooboffs := 0,
       rd_ooblen := rd_ooblen s - oo_oobretlen got, rd_dat := rd_dat s @ oo_datbuf got,
       rd_oob := rd_oob s @ oo_oobbuf got, rd_from := rd_from s + ?len, rd_retry := 0\<rparr>"
    have no_fail: "(ret < 0 \<and> \<not> mtd_is_bitflip ret) = False" using good(2) by auto
    have len_nz: "(?len = 0) = False" using len_pos by auto
    have "mtk_bmt_read_step D B ops s w = (Continue s', w3)"
      using good(1) full' by (simp add: unf s'_def w3_def no_fail len_nz cong: if_cong split del: if_split)
    moreover have "rd_ok ops fr s' w"
      using ok len_le lt full' by (auto simp: rd_ok_def s'_def s1_def)
    then have "rd_ok ops fr s' w3" using k by (rule rd_ok_cong)
    ultimately show thesis by (rule that(3)) (use len_pos k in \<open>simp_all add: s'_def\<close>)
  qed
qed

lemma read_loop_returns:
  assumes "rd_ok ops fr s w" and "drv_read_full D"
    and "11 * (oo_len ops - rd_retlen s) + (10 - rd_retry s) < fuel"
  shows "\<exists>r s' w'. mtk_bmt_read_loop fuel D B ops s w = Some (r, s', w') \<and> binv (bmtd w') \<and>
     geom w' = geom w \<and> length (rd_dat s') = rd_retlen s' \<and>
     (0 \<le> r \<longrightarrow> rd_retlen s' = oo_len ops)"
  using assms(1,3)
proof (induction fuel arbitrary: s w)
  case 0
  then show ?case by simp
next
  case (Suc n)
  show ?case
  proof (cases "rd_todo ops s")
    case False
    with Suc.prems show ?thesis by (auto simp: rd_ok_def rd_todo_def)
  next
    case True
    from Suc.prems(1) assms(2) True show ?thesis
    proof (cases rule: read_step_outcome)
      case (1 w')
      with True Suc.prems show ?thesis by (auto simp: rd_ok_def)
    next
      case (2 s' w')
      with True show ?thesis by auto
    next
      case (3 s' w')
      from 3(2,4) Suc.prems have "11 * (oo_len ops - rd_retlen s') + (10 - rd_retry s') < n"
        by (auto simp: rd_ok_def)
      from Suc.IH [OF 3(2) this] 3 True show ?thesis by auto
    qed
  qed
qed

text \<open>Erase: the start address is a multiple of the erase size and stays inside the chip.\<close>

lemma erase_loop_returns:
  assumes "binv (bmtd w)" and "geom_ok w" and "e \<le> chip_size w" and "retry \<le> 10"
    and "11 * (e - a) + (10 - retry) < fuel"
  shows "\<exists>r a' w'. mtk_bmt_erase_loop fuel D B a e retry ret w = Some (r, a', w') \<and> binv (bmtd w') \<and>
     geom w' = geom w \<and> (a' < e \<longrightarrow> r \<noteq> 0) \<and> (a < e \<and> e \<le> a' \<longrightarrow> r = 0)"
  using assms
proof (induction fuel arbitrary: a retry ret w)
  case 0
  then show ?case by simp
next
  case (Suc n)
  show ?case
  proof (cases "a < e")
    case False
    with Suc.prems show ?thesis by auto
  next
    case True
    let ?b = "bmtd w"
    let ?blk = "a div 2 ^ blk_shift ?b"
    let ?cur = "op_get_mapping_block B ?b ?blk"
    have "a < chip_size w" using True Suc.prems(3) by simp
    note blk = block_in_chip [OF this Suc.prems(2)]
    have cur_lt: "?cur < int (total_blks ?b)" using get_in_chip [OF Suc.prems(1) blk(1)] .
    obtain ret' d where drv: "drv_erase D (nat ?cur * 2 ^ blk_shift ?b) (blk_size ?b) (dev w) = (ret', d)"
      by fastforce
    obtain ok' w2 where rm: "mtk_bmt_remap_block B ?blk ?cur 0 (w\<lparr>dev := d\<rparr>) = (ok', w2)"
      by fastforce
    note unf = Let_def blk(3) drv rm
    have step: "0 < erasesize (mtd w)" using Suc.prems(2) by (simp add: geom_ok_def)
    consider (neg) "?cur < 0" | (fail) "0 \<le> ?cur" "ret' \<noteq> 0" | (good) "0 \<le> ?cur" "ret' = 0"
      by linarith
    then show ?thesis
    proof cases
      case neg
      with True Suc.prems show ?thesis by (simp add: unf)
    next
      case fail
      have k: "binv (bmtd w2)" "geom w2 = geom w"
        using remap_block_keeps [OF _ _ _ fail(1) _ rm] Suc.prems(1,2) blk(1) cur_lt
        by (simp_all add: geom_ok_cong [OF geom_dev])
      show ?thesis
      proof (cases "ok' \<and> retry < 10")
        case retry: True
        have "11 * (e - a) + (10 - (retry + 1)) < n" using Suc.prems(5) retry by linarith
        from Suc.IH [OF k(1) _ _ _ this, of ret'] fail retry True k Suc.prems(2,3)
        show ?thesis by (auto simp: unf geom_ok_cong [OF k(2)] chip_size_cong [OF k(2)])
      next
        case False
        with fail True k show ?thesis by (auto simp: unf)
      qed
    next
      case good
      have "11 * (e - (a + erasesize (mtd w))) + (10 - 0) < n" using Suc.prems(5) step True by simp
      moreover have "binv (bmtd (w\<lparr>dev := d\<rparr>))" "geom_ok (w\<lparr>dev := d\<rparr>)"
        "e \<le> chip_size (w\<lparr>dev := d\<rparr>)"
        using Suc.prems by (simp_all add: geom_ok_cong [OF geom_dev] chip_size_cong [OF geom_dev])
      ultimately have IH: "\<exists>r a' w'. mtk_bmt_erase_loop n D B (a + erasesize (mtd w)) e 0 0 (w\<lparr>dev := d\<rparr>) =
          Some (r, a', w') \<and> binv (bmtd w') \<and> geom w' = geom (w\<lparr>dev := d\<rparr>) \<and>
          (a' < e \<longrightarrow> r \<noteq> 0) \<and> (a + erasesize (mtd w) < e \<and> e \<le> a' \<longrightarrow> r = 0)"
        by (intro Suc.IH) auto
      show ?thesis
      proof (cases "a + erasesize (mtd w) < e")
        case True
        with IH good \<open>a < e\<close> show ?thesis by (auto simp: unf)
      next
        case False
        with good \<open>a < e\<close> Suc.prems show ?thesis by (cases n) (auto simp: unf)
      qed
    qed
  qed
qed

text \<open>The operations themselves, from their first round.\<close>

lemma write_returns:
  assumes "binv (bmtd w)" and "geom_ok w" and "drv_write_full D"
    and "to + oo_len ops \<le> chip_size w" and "oo_len ops < 4294967296" and "oo_ooblen ops = 0"
    and "11 * oo_len ops + 10 < fuel"
  shows "\<exists>r ops' w'. mtk_bmt_write fuel D B to ops w = Some (r, ops', w') \<and>
    binv (bmtd w') \<and> geom w' = geom w \<and> (r = 0 \<longleftrightarrow> oo_retlen ops' = oo_len ops) \<and> r \<le> 0"
proof -
  have "wr_ok ops to (wr_init to ops) w"
    using assms by (simp add: wr_ok_def wr_init_def)
  from write_loop_returns [OF this assms(3), of fuel] assms(7)
  obtain r s' w' where "mtk_bmt_write_loop fuel D B ops (wr_init to ops) w = Some (r, s', w')"
    and "binv (bmtd w')" and "geom w' = geom w" and "r = 0 \<longleftrightarrow> ws_retlen s' = oo_len ops" and "r \<le> 0"
    by (auto simp: wr_init_def)
  then show ?thesis by (simp add: mtk_bmt_write_def)
qed

lemma read_returns:
  assumes "binv (bmtd w)" and "geom_ok w" and "drv_read_full D"
    and "fr + oo_len ops \<le> chip_size w" and "oo_len ops < 4294967296" and "oo_ooblen ops = 0"
    and "11 * oo_len ops + 10 < fuel"
  shows "\<exists>r ops' w'. mtk_bmt_read fuel D B fr ops w = Some (r, ops', w') \<and>
    binv (bmtd w') \<and> geom w' = geom w \<and> length (oo_datbuf ops') = oo_retlen ops' \<and>
    (0 \<le> r \<longrightarrow> oo_retlen ops' = oo_len ops)"
proof -
  have "rd_ok ops fr (rd_init fr ops) w"
    using assms by (simp add: rd_ok_def rd_init_def)
  from read_loop_returns [OF this assms(3), of fuel] assms(7)
  obtain r s' w' where "mtk_bmt_read_loop fuel D B ops (rd_init fr ops) w = Some (r, s', w')"
    and "binv (bmtd w')" and "geom w' = geom w" and "length (rd_dat s') = rd_retlen s'"
    and "0 \<le> r \<longrightarrow> rd_retlen s' = oo_len ops"
    by (auto simp: rd_init_def)
  then show ?thesis by (simp add: mtk_bmt_read_def)
qed

lemma erase_returns:
  assumes "binv (bmtd w)" and "geom_ok w" and "addr + ln \<le> chip_size w"
    and "11 * (addr + ln) + 10 < fuel"
  shows "\<exists>r a' w'. mtk_bmt_mtd_erase fuel D B uninit addr ln w = Some (r, a', w') \<and>
    binv (bmtd w') \<and> geom w' = geom w \<and> (a' < addr + ln \<longrightarrow> r \<noteq> 0) \<and>
    (0 < ln \<and> addr + ln \<le> a' \<longrightarrow> r = 0)"
proof -
  let ?a = "addr AND (4294967296 - erasesize (mtd w))"
  have le: "?a \<le> addr"
    by (metis and_nat_def nat_int nat_le_eq_zle of_nat_0_le_iff AND_upper1)
  with assms(4) have "11 * (addr + ln - ?a) + (10 - 0) < fuel" by simp
  from erase_loop_returns [OF assms(1,2,3) _ this, of D uninit] le
  show ?thesis by (auto simp: mtk_bmt_mtd_erase_def)
qed

end

end
