(* ===== verification/Bmt_Bbt.thy ===== *)
theory Bmt_Bbt
  imports Bmt_Contract
begin

text \<open>
  The BBT back end (\<^verbatim>\<open>mtk_bmt_bbt.c\<close>): a table of two bits per block, kept in the last blocks of
  the chip. A logical block of a remap range is the block of that range found by skipping the
  blocks the table marks bad; the mapping is recomputed from the table at each access.
\<close>

section \<open>The table\<close>

definition bbt_mask :: "nat \<Rightarrow> byte" where
  "bbt_mask block = push_bit ((block mod 4) * 2) 3"

definition bbt_block_is_bad :: "bmt_desc \<Rightarrow> nat \<Rightarrow> bool" where
  "bbt_block_is_bad b block \<longleftrightarrow> arr_get 0 (bbt_buf b) (block div 4) AND bbt_mask block \<noteq> 0"

definition bbt_update_buf :: "byte list \<Rightarrow> nat \<Rightarrow> bool \<Rightarrow> byte list" where
  "bbt_update_buf buf block bad =
     (let cur = arr_get 0 buf (block div 4); mask = bbt_mask block
      in buf[block div 4 := (if bad then cur OR mask else cur AND NOT mask)])"

definition bbt_set_block_state :: "'d nand_drv \<Rightarrow> nat \<Rightarrow> bool \<Rightarrow> 'd bmt_world \<Rightarrow> 'd bmt_world" where
  "bbt_set_block_state D block bad w =
     (let b = (bmtd w)\<lparr>bbt_buf := bbt_update_buf (bbt_buf (bmtd w)) block bad\<rparr>;
          (_, w1) = bbt_nand_erase D (bmt_blk_idx b) (w\<lparr>bmtd := b\<rparr>);
          (_, w2) = write_bmt D (bmt_blk_idx b) (bbt_buf b) w1
      in w2)"

section \<open>The mapping\<close>

text \<open>
  The first loop of \<^verbatim>\<open>get_mapping_block_index_bbt\<close>, with its locals \<open>i\<close>, \<open>ofs\<close> and
  \<open>bad_blocks\<close>; the index is converted to \<^verbatim>\<open>u16\<close> at the call.
\<close>

function bbt_skip :: "bmt_desc \<Rightarrow> int \<Rightarrow> int \<Rightarrow> int \<Rightarrow> int \<Rightarrow> int \<times> int \<times> int" where
  "bbt_skip b i e ofs bad_blocks =
     (if i < e then
        if bbt_block_is_bad b (u16_of_int i) then bbt_skip b (i + 1) e ofs (bad_blocks + 1)
        else if ofs \<noteq> 0 then bbt_skip b (i + 1) e (ofs - 1) bad_blocks
        else (i, ofs, bad_blocks)
      else (i, ofs, bad_blocks))"
  by pat_completeness auto
termination
  by (relation "measure (\<lambda>(b, i, e, ofs, bad). nat (e - i))") auto

declare bbt_skip.simps [simp del]

text \<open>
  The second loop, downwards from the end of the range: \<^const>\<open>None\<close> when it ends without a
  return. The loop never leaves the range: \<open>bad_blocks\<close> counts bad blocks that are in it.
\<close>

function bbt_overflow :: "bmt_desc \<Rightarrow> int \<Rightarrow> int \<Rightarrow> int \<Rightarrow> int option" where
  "bbt_overflow b i ofs bad_blocks =
     (if bad_blocks > 0 \<and> i \<ge> 0 then
        if \<not> bbt_block_is_bad b (u16_of_int i) then bbt_overflow b (i - 1) ofs bad_blocks
        else if bad_blocks - 1 \<le> ofs then Some i
        else bbt_overflow b (i - 1) ofs (bad_blocks - 1)
      else None)"
  by pat_completeness auto
termination
  by (relation "measure (\<lambda>(b, i, ofs, bad). nat (i + 1))") auto

declare bbt_overflow.simps [simp del]

definition get_mapping_block_index_bbt :: "bmt_desc \<Rightarrow> nat \<Rightarrow> int" where
  "get_mapping_block_index_bbt b block =
     (case mapping_block_in_range b block of
        None \<Rightarrow> int block
      | Some (lo, hi) \<Rightarrow>
          (let start = lo div 2 ^ blk_shift b;
               e = hi div 2 ^ blk_shift b;
               (i, ofs, bad_blocks) = bbt_skip b start e (int block - start) 0
           in if i < e then i
              else case bbt_overflow b (e - 1) ofs bad_blocks of
                     Some j \<Rightarrow> j
                   | None \<Rightarrow> int block))"

section \<open>Remapping\<close>

definition remap_block_bbt ::
    "'d nand_drv \<Rightarrow> nat \<Rightarrow> nat \<Rightarrow> int \<Rightarrow> 'd bmt_world \<Rightarrow> bool \<times> 'd bmt_world" where
  "remap_block_bbt D block mapped_blk copy_len w =
     (case mapping_block_in_range (bmtd w) block of
        None \<Rightarrow> (False, w)
      | Some _ \<Rightarrow>
          (let w1 = bbt_set_block_state D mapped_blk True w;
               new_blk = u16_of_int (get_mapping_block_index_bbt (bmtd w1) block);
               (_, w2) = bbt_nand_erase D new_blk w1
           in if copy_len > 0
              then (True, snd (bbt_nand_copy D new_blk mapped_blk copy_len w2))
              else (True, w2)))"

definition unmap_block_bbt :: "'d nand_drv \<Rightarrow> nat \<Rightarrow> 'd bmt_world \<Rightarrow> 'd bmt_world" where
  "unmap_block_bbt D block w = bbt_set_block_state D block False w"

section \<open>Finding the table at attach time\<close>

definition bbt_sig :: "byte list" where
  "bbt_sig = map (of_nat \<circ> of_char) ''mtknand''"

text \<open>
  The loop of \<^verbatim>\<open>mtk_bmt_read_bbt\<close> from block \<open>i\<close> downwards, \<open>n\<close> blocks to go. The five blocks
  are the last ones, so \<open>i\<close> is a block number of the chip when it has at least five blocks.
\<close>

fun mtk_bmt_read_bbt_loop :: "'d nand_drv \<Rightarrow> nat \<Rightarrow> nat \<Rightarrow> 'd bmt_world \<Rightarrow> int \<times> 'd bmt_world" where
  "mtk_bmt_read_bbt_loop D 0 i w = (- EIO, w)"
| "mtk_bmt_read_bbt_loop D (Suc n) i w =
     (let page = u32 (i * 2 ^ (blk_shift (bmtd w) - pg_shift (bmtd w)));
          (ret, dat, oob_buf, w1) = bbt_nand_read D page (pg_size (bmtd w)) 8 w;
          w2 = w1\<lparr>bmtd := (bmtd w1)\<lparr>bbt_buf := fill_front dat (bbt_buf (bmtd w1))\<rparr>\<rparr>
      in if ret \<noteq> 0 then mtk_bmt_read_bbt_loop D n (i - 1) w2
         else if arr_get 0 oob_buf 0 \<noteq> 0xff then mtk_bmt_read_bbt_loop D n (i - 1) w2
         else if take 7 (drop 1 oob_buf) \<noteq> bbt_sig then mtk_bmt_read_bbt_loop D n (i - 1) w2
         else (0, w2\<lparr>bmtd := (bmtd w2)\<lparr>bmt_blk_idx := u16 i\<rparr>\<rparr>))"

definition mtk_bmt_read_bbt :: "'d nand_drv \<Rightarrow> 'd bmt_world \<Rightarrow> int \<times> 'd bmt_world" where
  "mtk_bmt_read_bbt D w = mtk_bmt_read_bbt_loop D 5 (total_blks (bmtd w) - 1) w"

definition mtk_bmt_init_bbt :: "'d nand_drv \<Rightarrow> bool \<Rightarrow> 'd bmt_world \<Rightarrow> int \<times> 'd bmt_world" where
  "mtk_bmt_init_bbt D kmalloc_ok w =
     (let b = bmtd w;
          buf_size = round_up (total_blks b div 4) (blk_size b)
      in if \<not> kmalloc_ok then (- ENOMEM, w)
         else
           let w1 = w\<lparr>bmtd := b\<lparr>bbt_buf := replicate buf_size 0xff\<rparr>,
                      mtd := (mtd w)\<lparr>mtd_size := mtd_size (mtd w) - 4 * erasesize (mtd w)\<rparr>\<rparr>;
               (ret, w2) = mtk_bmt_read_bbt D w1
           in if ret \<noteq> 0 then (ret, w2)
              else (0, w2\<lparr>bmtd := (bmtd w2)\<lparr>bmt_pgs := buf_size div pg_size b\<rparr>\<rparr>))"

text \<open>
  The debugfs writer: value 0 prints the table (no effect on the state), value 100 moves the
  table to the last block and writes it there.
\<close>

definition mtk_bmt_debug_bbt :: "'d nand_drv \<Rightarrow> nat \<Rightarrow> 'd bmt_world \<Rightarrow> int \<times> 'd bmt_world" where
  "mtk_bmt_debug_bbt D val w =
     (if val = 100 then
        let b = (bmtd w)\<lparr>bmt_blk_idx := u16 (total_blks (bmtd w) - 1)\<rparr>;
            (_, w1) = bbt_nand_erase D (bmt_blk_idx b) (w\<lparr>bmtd := b\<rparr>);
            (_, w2) = write_bmt D (bmt_blk_idx b) (bbt_buf b) w1
        in (0, w2)
      else (0, w))"

definition mtk_bmt_bbt_ops :: "'d nand_drv \<Rightarrow> 'd mtk_bmt_ops" where
  "mtk_bmt_bbt_ops D =
     \<lparr>op_sig = bbt_sig, op_remap_block = remap_block_bbt D, op_unmap_block = unmap_block_bbt D,
      op_get_mapping_block = get_mapping_block_index_bbt\<rparr>"

section \<open>Properties of the table\<close>

lemma mod4_cases: "(n::nat) mod 4 = 0 \<or> n mod 4 = 1 \<or> n mod 4 = 2 \<or> n mod 4 = 3"
  by linarith

lemma bbt_mask_nonzero: "bbt_mask block \<noteq> 0"
  using mod4_cases [of block] by (auto simp: bbt_mask_def)

lemma bbt_mask_disjoint: "x mod 4 \<noteq> y mod 4 \<Longrightarrow> bbt_mask x AND bbt_mask y = 0"
  using mod4_cases [of x] mod4_cases [of y] by (auto simp: bbt_mask_def)

lemma bbt_block_is_bad_update:
  assumes "x div 4 < length (bbt_buf b)"
  shows "bbt_block_is_bad (b\<lparr>bbt_buf := bbt_update_buf (bbt_buf b) x bad\<rparr>) y \<longleftrightarrow>
    (if y = x then bad else bbt_block_is_bad b y)"
proof (cases "y div 4 = x div 4")
  case False
  then have "y \<noteq> x" by auto
  with False show ?thesis
    by (simp add: bbt_block_is_bad_def bbt_update_buf_def Let_def arr_get_update)
next
  case True
  let ?c = "bbt_buf b ! (x div 4)"
  have new: "bbt_block_is_bad (b\<lparr>bbt_buf := bbt_update_buf (bbt_buf b) x bad\<rparr>) y \<longleftrightarrow>
      (if bad then ?c OR bbt_mask x else ?c AND NOT (bbt_mask x)) AND bbt_mask y \<noteq> 0"
    using True assms by (simp add: bbt_block_is_bad_def bbt_update_buf_def Let_def arr_get_update)
  show ?thesis
  proof (cases "y = x")
    case True
    have "(?c AND NOT (bbt_mask x)) AND bbt_mask x = 0"
      by (simp add: and.assoc)
    moreover have "(?c OR bbt_mask x) AND bbt_mask x = bbt_mask x"
      by (simp add: bit.conj_disj_distrib2 or.commute)
    ultimately show ?thesis using True new bbt_mask_nonzero by (auto split: if_splits)
  next
    case False
    with \<open>y div 4 = x div 4\<close> have ne: "x mod 4 \<noteq> y mod 4"
      by (metis div_mult_mod_eq)
    have "(?c OR bbt_mask x) AND bbt_mask y = ?c AND bbt_mask y"
      by (simp add: bit.conj_disj_distrib2 bbt_mask_disjoint [OF ne])
    moreover have "(?c AND NOT (bbt_mask x)) AND bbt_mask y = ?c AND bbt_mask y"
    proof -
      have "bbt_mask y AND NOT (bbt_mask x) = bbt_mask y"
        using bbt_mask_disjoint [OF ne]
        by (metis bit.conj_cancel_right bit.conj_disj_distrib bit.disj_cancel_right bit.conj_one_right and.commute or.left_neutral)
      then show ?thesis by (metis and.assoc and.commute)
    qed
    ultimately show ?thesis using False new assms \<open>y div 4 = x div 4\<close>
      by (auto simp: bbt_block_is_bad_def split: if_splits)
  qed
qed

section \<open>The mapping against its specification\<close>

text \<open>What a range maps to: its good blocks in order, and then its bad blocks.\<close>

definition bbt_range_map :: "bmt_desc \<Rightarrow> nat \<Rightarrow> nat \<Rightarrow> nat list" where
  "bbt_range_map b s e =
     filter (\<lambda>i. \<not> bbt_block_is_bad b i) [s..<e] @ filter (bbt_block_is_bad b) [s..<e]"

lemma bbt_skip_spec:
  fixes b :: bmt_desc
  assumes "s \<le> e" and "e \<le> 65536"
  defines "G \<equiv> filter (\<lambda>i. \<not> bbt_block_is_bad b i) [s..<e]"
  shows "if ofs < length G
    then \<exists>k'. bbt_skip b (int s) (int e) (int ofs) k = (int (G ! ofs), 0, k')
    else bbt_skip b (int s) (int e) (int ofs) k =
      (int e, int (ofs - length G), k + int (length (filter (bbt_block_is_bad b) [s..<e])))"
  using assms(1,2) unfolding G_def
proof (induction "e - s" arbitrary: s ofs k)
  case 0
  then show ?case by (simp add: bbt_skip.simps [of b "int s" "int s"])
next
  case (Suc n)
  then have lt: "s < e" and le: "Suc s \<le> e" and n: "n = e - Suc s" by auto
  have u: "u16_of_int (int s) = s" using lt Suc.prems by simp
  have upt: "[s..<e] = s # [Suc s..<e]" using lt by (rule upt_conv_Cons)
  have i1: "int s + 1 = int (Suc s)" by simp
  note IH = Suc.hyps(1) [OF n le Suc.prems(2)]
  show ?case
  proof (cases "bbt_block_is_bad b s")
    case True
    with IH [of ofs "k + 1"] lt show ?thesis
      by (subst (1 2) bbt_skip.simps) (auto simp: u upt i1 split: if_splits)
  next
    case good: False
    show ?thesis
    proof (cases ofs)
      case 0
      with good lt show ?thesis
        by (subst bbt_skip.simps) (simp add: u upt)
    next
      case (Suc m)
      with IH [of m k] lt good show ?thesis
        by (subst (1 2) bbt_skip.simps) (auto simp: u upt i1 split: if_splits)
    qed
  qed
qed

lemma bbt_overflow_spec:
  assumes "s \<le> i" and "i \<le> 65536" and "ofs < length (filter (bbt_block_is_bad b) [s..<i])"
  shows "bbt_overflow b (int i - 1) (int ofs) (int (length (filter (bbt_block_is_bad b) [s..<i]))) =
    Some (int (filter (bbt_block_is_bad b) [s..<i] ! ofs))"
  using assms
proof (induction "i - s" arbitrary: i)
  case 0
  then show ?case by simp
next
  case (Suc n)
  then obtain j where i: "i = Suc j" and sj: "s \<le> j" and n: "n = j - s"
    by (cases i) auto
  have u: "u16_of_int (int j) = j" and i1: "int i - 1 = int j" using Suc.prems i by simp_all
  have upt: "[s..<i] = [s..<j] @ [j]" using i sj by simp
  have j65: "j \<le> 65536" using Suc.prems i by simp
  let ?F = "filter (bbt_block_is_bad b) [s..<j]"
  show ?case
  proof (cases "bbt_block_is_bad b j")
    case False
    with Suc.prems upt have "ofs < length ?F" by simp
    from Suc.hyps(1) [OF n sj j65 this] this False show ?thesis
      by (subst bbt_overflow.simps) (auto simp: i1 u upt)
  next
    case True
    show ?thesis
    proof (cases "ofs < length ?F")
      case False
      with Suc.prems upt True have "ofs = length ?F" by simp
      with True show ?thesis
        by (subst bbt_overflow.simps) (simp add: i1 u upt nth_append)
    next
      case lt: True
      from Suc.hyps(1) [OF n sj j65 this] lt True show ?thesis
        by (subst bbt_overflow.simps) (simp add: i1 u upt nth_append)
    qed
  qed
qed


text \<open>
  \<open>bbt_range b s e\<close>: the blocks from \<open>s\<close> up to \<open>e\<close> are one remap range of the device tree, on
  block boundaries and below the 16-bit block numbers of the table.
\<close>

definition bbt_range :: "bmt_desc \<Rightarrow> nat \<Rightarrow> nat \<Rightarrow> bool" where
  "bbt_range b s e \<longleftrightarrow> e \<le> 65536 \<and>
     list_all (\<lambda>block. mapping_block_in_range b block =
       Some (int (s * 2 ^ blk_shift b), int (e * 2 ^ blk_shift b))) [s..<e]"

lemma bbt_rangeD:
  assumes "bbt_range b s e" and "s \<le> block" and "block < e"
  shows "mapping_block_in_range b block = Some (int (s * 2 ^ blk_shift b), int (e * 2 ^ blk_shift b))"
    and "e \<le> 65536"
  using assms by (auto simp: bbt_range_def list_all_iff)

lemma length_filter_compl:
  "length (filter (\<lambda>x. \<not> P x) xs) + length (filter P xs) = length xs"
  using sum_length_filter_compl [of P xs] by simp

lemma length_bbt_range_map [simp]: "length (bbt_range_map b s e) = e - s"
  using length_filter_compl [of "bbt_block_is_bad b" "[s..<e]"]
  by (simp add: bbt_range_map_def)

lemma set_bbt_range_map [simp]: "set (bbt_range_map b s e) = {s..<e}"
  by (auto simp: bbt_range_map_def)

lemma distinct_bbt_range_map [simp]: "distinct (bbt_range_map b s e)"
  by (auto simp: bbt_range_map_def)

lemma bbt_mapping_at:
  assumes r: "mapping_block_in_range b block =
      Some (int (s * 2 ^ blk_shift b), int (e * 2 ^ blk_shift b))" "e \<le> 65536"
    and s: "s \<le> block" and e: "block < e"
  shows "get_mapping_block_index_bbt b block = int (bbt_range_map b s e ! (block - s))"
proof -
  note rng = r
  let ?G = "filter (\<lambda>i. \<not> bbt_block_is_bad b i) [s..<e]"
  let ?B = "filter (bbt_block_is_bad b) [s..<e]"
  have se: "s \<le> e" using s e by simp
  have ofs: "int block - int s = int (block - s)" using s by simp
  have len: "length ?G + length ?B = e - s"
    using length_filter_compl [of "bbt_block_is_bad b" "[s..<e]"] by simp
  have dv: "int (s * 2 ^ blk_shift b) div 2 ^ blk_shift b = int s"
    "int (e * 2 ^ blk_shift b) div 2 ^ blk_shift b = int e" by simp_all
  have unf: "get_mapping_block_index_bbt b block =
     (let (i, ofs, bad_blocks) = bbt_skip b (int s) (int e) (int (block - s)) 0
      in if i < int e then i
         else case bbt_overflow b (int e - 1) ofs bad_blocks of Some j \<Rightarrow> j | None \<Rightarrow> int block)"
    by (simp only: get_mapping_block_index_bbt_def rng(1) option.case prod.case Let_def dv ofs)
  note skip = bbt_skip_spec [OF se rng(2), of "block - s" b 0]
  show ?thesis
  proof (cases "block - s < length ?G")
    case True
    then have "?G ! (block - s) \<in> set ?G" by (rule nth_mem)
    then have "?G ! (block - s) < e" by auto
    with skip True unf show ?thesis by (auto simp: bbt_range_map_def nth_append)
  next
    case False
    with len s e have lt: "block - s - length ?G < length ?B" by simp
    from bbt_overflow_spec [OF se rng(2) lt] skip False unf show ?thesis
      by (simp add: bbt_range_map_def nth_append)
  qed
qed

lemma bbt_mapping_eq:
  assumes "bbt_range b s e" and "s \<le> block" and "block < e"
  shows "get_mapping_block_index_bbt b block = int (bbt_range_map b s e ! (block - s))"
  using bbt_mapping_at [OF bbt_rangeD [OF assms] assms(2,3)] .

lemma bbt_mapping_bij_aux:
  assumes r: "bbt_range b s e"
  shows "bij_betw (get_mapping_block_index_bbt b) {s..<e} (int ` {s..<e})"
proof -
  let ?M = "bbt_range_map b s e"
  have "bij_betw ((!) ?M) {..<e - s} {s..<e}"
    using bij_betw_nth [of ?M "{..<e - s}" "{s..<e}"] by simp
  moreover have "bij_betw (\<lambda>k. k - s) {s..<e} {..<e - s}"
    by (rule bij_betw_byWitness [where f' = "\<lambda>k. k + s"]) auto
  ultimately have "bij_betw ((!) ?M \<circ> (\<lambda>k. k - s)) {s..<e} {s..<e}"
    by (rule bij_betw_trans [rotated])
  moreover have "bij_betw int {s..<e} (int ` {s..<e})"
    by (simp add: bij_betw_def)
  ultimately have "bij_betw (int \<circ> ((!) ?M \<circ> (\<lambda>k. k - s))) {s..<e} (int ` {s..<e})"
    by (rule bij_betw_trans)
  then show ?thesis
    by (rule bij_betw_cong [THEN iffD1, rotated]) (simp add: bbt_mapping_eq [OF r])
qed



section \<open>The contract\<close>

text \<open>
  The table covers the chip and every remap range ends inside it.
\<close>

definition bbt_inv :: "bmt_desc \<Rightarrow> bool" where
  "bbt_inv b \<longleftrightarrow> total_blks b \<le> 4 * length (bbt_buf b) \<and>
     (case remap_range b of None \<Rightarrow> True
      | Some rs \<Rightarrow> list_all (\<lambda>(lo, hi). hi < 2147483648 \<and> hi \<le> total_blks b * 2 ^ blk_shift b) rs)"

lemma find_range_in:
  "find_range addr rs = Some (lo, hi) \<Longrightarrow>
   \<exists>l h. (l, h) \<in> set rs \<and> l \<le> addr \<and> addr < h \<and> lo = s32 l \<and> hi = s32 h"
proof (induction addr rs rule: find_range.induct)
  case (2 addr l h rs)
  show ?case
  proof (cases "addr < l \<or> addr \<ge> h")
    case True
    with 2 show ?thesis by fastforce
  next
    case False
    with "2.prems" have "lo = s32 l" and "hi = s32 h" and "l \<le> addr" and "addr < h" by auto
    then show ?thesis by (intro exI [of _ l] exI [of _ h]) simp
  qed
qed simp

lemma bbt_inv_range:
  assumes inv: "bbt_inv b" and r: "mapping_block_in_range b block = Some (lo, hi)"
  shows "hi div 2 ^ blk_shift b \<le> int (total_blks b)"
proof (cases "remap_range b = None \<or> remap_range b = Some []")
  case True
  with r have "hi = int (total_blks b)"
    by (auto simp: mapping_block_in_range_def)
  then show ?thesis
    by (metis of_nat_numeral of_nat_power zdiv_int of_nat_le_iff div_le_dividend)
next
  case False
  then obtain x xs where rs: "remap_range b = Some (x # xs)"
    by (metis not_None_eq list.exhaust)
  with r have "find_range (u32 (block * 2 ^ blk_shift b)) (x # xs) = Some (lo, hi)"
    by (simp add: mapping_block_in_range_def)
  from find_range_in [OF this] obtain l h where "(l, h) \<in> set (x # xs)" and hi: "hi = s32 h"
    by blast
  with inv rs have "h < 2147483648" and h: "h \<le> total_blks b * 2 ^ blk_shift b"
    by (auto simp: bbt_inv_def list_all_iff)
  with hi have "hi = int h" by simp
  moreover have "h div 2 ^ blk_shift b \<le> total_blks b"
    using div_le_mono [OF h, of "2 ^ blk_shift b"] by simp
  ultimately show ?thesis
    by (metis of_nat_numeral of_nat_power zdiv_int of_nat_le_iff)
qed

lemma bbt_overflow_le: "bbt_overflow b i ofs k = Some j \<Longrightarrow> j \<le> i"
proof (induction b i ofs k rule: bbt_overflow.induct)
  case (1 b i ofs k)
  from "1.prems" "1.IH" show ?case
    by (subst (asm) bbt_overflow.simps) (fastforce split: if_splits)
qed

lemma bbt_get_in_chip:
  assumes inv: "bbt_inv b" and blk: "block < total_blks b"
  shows "get_mapping_block_index_bbt b block < int (total_blks b)"
proof (cases "mapping_block_in_range b block")
  case None
  with blk show ?thesis by (simp add: get_mapping_block_index_bbt_def)
next
  case (Some p)
  obtain lo hi where p: "p = (lo, hi)" by (cases p)
  let ?s = "lo div 2 ^ blk_shift b" and ?e = "hi div 2 ^ blk_shift b"
  have e: "?e \<le> int (total_blks b)" using bbt_inv_range inv Some p by simp
  obtain i ofs k where sk: "bbt_skip b ?s ?e (int block - ?s) 0 = (i, ofs, k)"
    by (metis prod_cases3)
  show ?thesis
  proof (cases "i < ?e")
    case True
    with Some p sk e show ?thesis by (simp add: get_mapping_block_index_bbt_def)
  next
    case False
    show ?thesis
    proof (cases "bbt_overflow b (?e - 1) ofs k")
      case None
      with False Some p sk blk show ?thesis by (simp add: get_mapping_block_index_bbt_def)
    next
      case ov: (Some j)
      from bbt_overflow_le [OF ov] e have "j < int (total_blks b)" by simp
      with ov False Some p sk show ?thesis by (simp add: get_mapping_block_index_bbt_def)
    qed
  qed
qed

lemma length_bbt_update_buf [simp]: "length (bbt_update_buf buf x bad) = length buf"
  by (simp add: bbt_update_buf_def Let_def)

lemma bbt_set_block_state_bmtd [simp]:
  "bmtd (bbt_set_block_state D x bad w) = (bmtd w)\<lparr>bbt_buf := bbt_update_buf (bbt_buf (bmtd w)) x bad\<rparr>"
  "mtd (bbt_set_block_state D x bad w) = mtd w"
  by (auto simp: bbt_set_block_state_def Let_def split: prod.splits
      dest!: bbt_nand_erase_frame write_bmt_frame)

text \<open>What remapping does to everything but the device and the page buffer.\<close>

lemma remap_block_bbt_effect:
  assumes "remap_block_bbt D block mapped n w = (r, w')"
  shows "(r \<longleftrightarrow> mapping_block_in_range (bmtd w) block \<noteq> None)"
    and "same_but_buf (if r then w\<lparr>bmtd := (bmtd w)\<lparr>bbt_buf :=
       bbt_update_buf (bbt_buf (bmtd w)) mapped True\<rparr>\<rparr> else w) w'"
proof -
  let ?w1 = "bbt_set_block_state D mapped True w"
  let ?new = "u16_of_int (get_mapping_block_index_bbt (bmtd ?w1) block)"
  obtain e w2 where er: "bbt_nand_erase D ?new ?w1 = (e, w2)" by fastforce
  obtain c w3 where cp: "bbt_nand_copy D ?new mapped n w2 = (c, w3)" by fastforce
  have w2: "same_but_buf ?w1 w2" using bbt_nand_erase_frame [OF er] by (simp add: same_but_bufI)
  have w3: "same_but_buf ?w1 w3"
    using w2 bbt_nand_copy_frame [OF cp] by (rule same_but_buf_trans)
  show "(r \<longleftrightarrow> mapping_block_in_range (bmtd w) block \<noteq> None)"
    using assms by (auto simp: remap_block_bbt_def Let_def split: option.splits prod.splits if_splits)
  show "same_but_buf (if r then w\<lparr>bmtd := (bmtd w)\<lparr>bbt_buf :=
       bbt_update_buf (bbt_buf (bmtd w)) mapped True\<rparr>\<rparr> else w) w'"
  proof (cases "mapping_block_in_range (bmtd w) block")
    case None
    with assms show ?thesis by (simp add: remap_block_bbt_def)
  next
    case (Some p)
    with assms er cp have "r" and "w' = w2 \<or> w' = w3"
      by (auto simp: remap_block_bbt_def Let_def split: if_splits)
    with w2 w3 show ?thesis by (auto simp: same_but_buf_def)
  qed
qed

lemma bbt_remap_keeps:
  assumes "bbt_inv (bmtd w)" and eq: "remap_block_bbt D block mapped n w = (r, w')"
  shows "bbt_inv (bmtd w') \<and> geom w' = geom w"
  using remap_block_bbt_effect [OF eq] assms(1)
  by (auto simp: same_but_buf_def bbt_inv_def geom_def split: if_splits option.splits)

interpretation bbt: bmt_backend "mtk_bmt_bbt_ops D" bbt_inv for D :: "'d nand_drv"
  by unfold_locales (auto simp: mtk_bmt_bbt_ops_def bbt_get_in_chip dest: bbt_remap_keeps)

section \<open>Properties\<close>

lemma mapping_block_in_range_buf [simp]:
  "mapping_block_in_range (b\<lparr>bbt_buf := x\<rparr>) = mapping_block_in_range b"
  by (auto simp: mapping_block_in_range_def split: option.splits list.splits)

lemma filter_neq_nth:
  assumes "distinct xs" and "i < length xs"
  shows "filter (\<lambda>x. x \<noteq> xs ! i) xs = take i xs @ drop (Suc i) xs"
proof -
  have split: "xs = take i xs @ xs ! i # drop (Suc i) xs" using assms(2) by (rule id_take_nth_drop)
  with assms(1) have d: "distinct (take i xs @ xs ! i # drop (Suc i) xs)" by simp
  have "filter (\<lambda>x. x \<noteq> xs ! i) (take i xs @ xs ! i # drop (Suc i) xs) = take i xs @ drop (Suc i) xs"
    using d by (auto simp: filter_empty_conv intro!: arg_cong2 [where f = append] filter_True)
  with split show ?thesis by metis
qed

lemma bbt_mark_good_list:
  assumes "x div 4 < length (bbt_buf b)"
  shows "filter (\<lambda>i. \<not> bbt_block_is_bad (b\<lparr>bbt_buf := bbt_update_buf (bbt_buf b) x True\<rparr>) i) L =
    filter (\<lambda>i. i \<noteq> x) (filter (\<lambda>i. \<not> bbt_block_is_bad b i) L)"
  by (simp add: bbt_block_is_bad_update [OF assms] conj_commute) (metis (lifting) filter_cong)

lemma bbt_next_mapping:
  assumes r: "bbt_range b s e" and s: "s \<le> lb" and e: "Suc lb < e"
    and good: "\<not> bbt_block_is_bad b (nat (get_mapping_block_index_bbt b (Suc lb)))"
    and cover: "e \<le> 4 * length (bbt_buf b)"
    and pb: "int pb = get_mapping_block_index_bbt b lb"
  shows "get_mapping_block_index_bbt (b\<lparr>bbt_buf := bbt_update_buf (bbt_buf b) pb True\<rparr>) lb =
    get_mapping_block_index_bbt b (Suc lb)"
proof -
  let ?b' = "b\<lparr>bbt_buf := bbt_update_buf (bbt_buf b) pb True\<rparr>"
  let ?G = "filter (\<lambda>i. \<not> bbt_block_is_bad b i) [s..<e]"
  let ?o = "lb - s"
  have lbe: "lb < e" and ss: "s \<le> Suc lb" using e s by simp_all
  have so: "Suc lb - s = Suc ?o" using s by simp
  have m1: "get_mapping_block_index_bbt b (Suc lb) = int (bbt_range_map b s e ! Suc ?o)"
    using bbt_mapping_eq [OF r ss e] by (simp only: so)
  have o: "Suc ?o < length ?G"
  proof (rule ccontr)
    assume n: "\<not> Suc ?o < length ?G"
    then have nth: "bbt_range_map b s e ! Suc ?o =
        filter (bbt_block_is_bad b) [s..<e] ! (Suc ?o - length ?G)"
      by (simp add: bbt_range_map_def nth_append)
    have "Suc ?o < length (bbt_range_map b s e)" using e s by simp
    with n have "Suc ?o - length ?G < length (filter (bbt_block_is_bad b) [s..<e])"
      unfolding bbt_range_map_def length_append by linarith
    then have "bbt_range_map b s e ! Suc ?o \<in> set (filter (bbt_block_is_bad b) [s..<e])"
      unfolding nth by (rule nth_mem)
    with good m1 show False by simp
  qed
  then have pb': "pb = ?G ! ?o"
    using pb bbt_mapping_eq [OF r s lbe] by (simp add: bbt_range_map_def nth_append)
  have "pb \<in> set ?G" unfolding pb' using o by (intro nth_mem) simp
  then have in_buf: "pb div 4 < length (bbt_buf b)" using cover by auto
  have "filter (\<lambda>i. \<not> bbt_block_is_bad ?b' i) [s..<e] = take ?o ?G @ drop (Suc ?o) ?G"
    unfolding bbt_mark_good_list [OF in_buf] unfolding pb' using o
    by (intro filter_neq_nth) auto
  moreover have "bbt_range ?b' s e" using r by (simp add: bbt_range_def)
  ultimately have new: "get_mapping_block_index_bbt ?b' lb = int (((take ?o ?G @ drop (Suc ?o) ?G) @
      filter (bbt_block_is_bad ?b') [s..<e]) ! ?o)"
    using bbt_mapping_eq [of ?b' s e lb] s lbe by (simp only: bbt_range_map_def)
  have "?o < length (take ?o ?G @ drop (Suc ?o) ?G)" and "length (take ?o ?G) = ?o" using o by simp_all
  then have "((take ?o ?G @ drop (Suc ?o) ?G) @ filter (bbt_block_is_bad ?b') [s..<e]) ! ?o = ?G ! Suc ?o"
    using o by (simp only: nth_append) simp
  with new have "get_mapping_block_index_bbt ?b' lb = int (?G ! Suc ?o)" by simp
  also have "\<dots> = get_mapping_block_index_bbt b (Suc lb)"
    using m1 o by (simp add: bbt_range_map_def nth_append)
  finally show ?thesis .
qed

text \<open>
  C4. In a remap range the mapping is the skip-bad-blocks rule: the logical blocks are the good
  blocks of the range in order, and once these are used up the bad blocks in order.
\<close>

theorem bbt_mapping_spec:
  assumes "bbt_range b s e" and "s \<le> block" and "block < e"
  shows "get_mapping_block_index_bbt b block =
    int ((filter (\<lambda>i. \<not> bbt_block_is_bad b i) [s..<e] @ filter (bbt_block_is_bad b) [s..<e]) ! (block - s))"
  using bbt_mapping_eq [OF assms] by (simp add: bbt_range_map_def)

definition ex_bbt :: bmt_desc where
  "ex_bbt = ex_desc\<lparr>bbt_buf := [0x0c, 0x00], ops_sig := bbt_sig, bmt_blk_idx := 7, bmt_pgs := 4\<rparr>"

lemma ex_bbt_range: "bbt_range ex_bbt 0 6"
  by (simp add: bbt_range_def ex_bbt_def ex_desc_def mapping_block_in_range_def upt_rec)

lemma ex_bbt_bad: "bbt_block_is_bad ex_bbt 1" "\<not> bbt_block_is_bad ex_bbt 0"
  "\<not> bbt_block_is_bad ex_bbt 2" "\<not> bbt_block_is_bad ex_bbt 3" "\<not> bbt_block_is_bad ex_bbt 4"
  "\<not> bbt_block_is_bad ex_bbt 5"
  by (simp_all add: bbt_block_is_bad_def bbt_mask_def ex_bbt_def)

lemma ex_bbt_map:
  "filter (\<lambda>i. \<not> bbt_block_is_bad ex_bbt i) [0..<6] @ filter (bbt_block_is_bad ex_bbt) [0..<6]
   = [0, 2, 3, 4, 5, 1]"
proof -
  have "[0..<6] = [0, 1, 2, 3, 4, 5::nat]" by code_simp
  then show ?thesis using ex_bbt_bad by simp
qed

lemma ex_bbt_len [simp]: "length (bbt_buf ex_bbt) = 2"
  by (simp add: ex_bbt_def)

theorem bbt_mapping_spec_witness:
  "get_mapping_block_index_bbt ex_bbt 1 = 2 \<and> get_mapping_block_index_bbt ex_bbt 5 = 1"
  using bbt_mapping_spec [OF ex_bbt_range, of 1, unfolded ex_bbt_map]
    bbt_mapping_spec [OF ex_bbt_range, of 5, unfolded ex_bbt_map] by simp

text \<open>
  C5. In a remap range the mapping is a permutation: no two logical blocks of the range share a
  physical block, and none leaves the range.
\<close>

theorem bbt_mapping_permutes_range:
  assumes "bbt_range b s e"
  shows "bij_betw (get_mapping_block_index_bbt b) {s..<e} (int ` {s..<e})"
  using bbt_mapping_bij_aux [OF assms] .

theorem bbt_mapping_permutes_range_witness:
  "bij_betw (get_mapping_block_index_bbt ex_bbt) {0..<6} (int ` {0..<6})"
  using bbt_mapping_permutes_range [OF ex_bbt_range] .

text \<open>
  Recording the state of a block changes the mark of that block and of no other.
\<close>

theorem bbt_set_block_state_exact:
  assumes "x div 4 < length (bbt_buf (bmtd w))"
  shows "bbt_block_is_bad (bmtd (bbt_set_block_state D x bad w)) y \<longleftrightarrow>
    (if y = x then bad else bbt_block_is_bad (bmtd w) y)"
  using bbt_block_is_bad_update [OF assms] by simp

theorem bbt_set_block_state_exact_witness:
  "bbt_block_is_bad (bmtd (bbt_set_block_state log_drv 6 True \<lparr>dev = [], mtd = ex_mtd, bmtd = ex_bbt\<rparr>)) 6 \<and>
   \<not> bbt_block_is_bad (bmtd (bbt_set_block_state log_drv 6 True \<lparr>dev = [], mtd = ex_mtd, bmtd = ex_bbt\<rparr>)) 5"
proof -
  have h: "6 div 4 < length (bbt_buf (bmtd \<lparr>dev = ([] :: nand_event list), mtd = ex_mtd, bmtd = ex_bbt\<rparr>))"
    by (simp add: ex_bbt_def)
  show ?thesis
    using ex_bbt_bad bbt_set_block_state_exact [OF h, of log_drv True 6] bbt_set_block_state_exact [OF h, of log_drv True 5]
    by simp
qed

text \<open>
  Remapping a block in this mode takes the physical block of its successor: when logical
  blocks \<open>lb\<close> and \<open>lb + 1\<close> of a range are on good blocks, \<^const>\<open>remap_block_bbt\<close> on \<open>lb\<close> erases
  the block that holds the data of \<open>lb + 1\<close> (and copies there, for a positive length).
\<close>

theorem bbt_remap_erases_next_block:
  assumes r: "bbt_range (bmtd w) s e" and s: "s \<le> lb" and e: "Suc lb < e"
    and good: "\<not> bbt_block_is_bad (bmtd w) (nat (get_mapping_block_index_bbt (bmtd w) (Suc lb)))"
    and cover: "e \<le> 4 * length (bbt_buf (bmtd w))"
    and pb: "int pb = get_mapping_block_index_bbt (bmtd w) lb"
  shows "remap_block_bbt D lb pb 0 w = (True, snd (bbt_nand_erase D
     (nat (get_mapping_block_index_bbt (bmtd w) (Suc lb))) (bbt_set_block_state D pb True w)))"
proof -
  have ss: "s \<le> Suc lb" and lbe: "lb < e" and e16: "e \<le> 65536"
    using s e bbt_rangeD(2) [OF r s] by simp_all
  have m: "get_mapping_block_index_bbt (bmtd w) (Suc lb) = int (bbt_range_map (bmtd w) s e ! (Suc lb - s))"
    by (rule bbt_mapping_eq [OF r ss e])
  have "bbt_range_map (bmtd w) s e ! (Suc lb - s) \<in> set (bbt_range_map (bmtd w) s e)"
    using e s by (intro nth_mem) simp
  then have lt: "bbt_range_map (bmtd w) s e ! (Suc lb - s) < 65536" using e16 by simp
  show ?thesis
    using bbt_next_mapping [OF r s e good cover pb] m lt bbt_rangeD(1) [OF r s lbe]
    by (simp add: remap_block_bbt_def Let_def split_beta)
qed

theorem bbt_remap_erases_next_block_witness:
  "dev (snd (remap_block_bbt log_drv 2 3 0 \<lparr>dev = [], mtd = ex_mtd, bmtd = ex_bbt\<rparr>)) =
     [Ev_erase 28672, Ev_write 28672 7, Ev_erase 16384] \<and>
   get_mapping_block_index_bbt ex_bbt 3 = 4"
proof -
  let ?w = "\<lparr>dev = ([] :: nand_event list), mtd = ex_mtd, bmtd = ex_bbt\<rparr>"
  have r: "bbt_range (bmtd ?w) 0 6" using ex_bbt_range by simp
  have m: "get_mapping_block_index_bbt ex_bbt 2 = 3" "get_mapping_block_index_bbt ex_bbt (Suc 2) = 4"
    using bbt_mapping_eq [OF ex_bbt_range, of 2] bbt_mapping_eq [OF ex_bbt_range, of 3]
    by (simp_all add: bbt_range_map_def ex_bbt_map)
  have g: "\<not> bbt_block_is_bad (bmtd ?w) (nat (get_mapping_block_index_bbt (bmtd ?w) (Suc 2)))"
    using m ex_bbt_bad by simp
  have "remap_block_bbt log_drv 2 3 0 ?w = (True, snd (bbt_nand_erase log_drv
     (nat (get_mapping_block_index_bbt (bmtd ?w) (Suc 2))) (bbt_set_block_state log_drv 3 True ?w)))"
    by (rule bbt_remap_erases_next_block [OF r _ _ g]) (simp_all add: m)
  moreover have "dev (bbt_set_block_state log_drv 3 True ?w) = [Ev_erase 28672, Ev_write 28672 7]"
    by (simp add: bbt_set_block_state_def bbt_nand_erase_def write_bmt_def log_drv_def ex_bbt_def
        ex_desc_def oob_request_def bbt_sig_def)
  ultimately show ?thesis using m
    by (simp add: bbt_nand_erase_def log_drv_def ex_bbt_def ex_desc_def)
qed

text \<open>
  Without a remap range in the device tree this back end does not remap at all: the default
  range is given in blocks where the mapping expects bytes, so it is empty. Each block maps to
  itself, and remapping a block reports success after erasing that block and copying it onto
  itself.
\<close>

theorem bbt_without_range_remaps_to_itself:
  assumes "remap_range (bmtd w) = None" and "total_blks (bmtd w) < 2 ^ blk_shift (bmtd w)"
    and "block < 65536" and "0 < n"
  shows "get_mapping_block_index_bbt (bmtd w) block = int block \<and>
    remap_block_bbt D block block n w = (True, snd (bbt_nand_copy D block block n
      (snd (bbt_nand_erase D block (bbt_set_block_state D block True w)))))"
proof -
  have id: "get_mapping_block_index_bbt b block = int block"
    if "remap_range b = None" and "total_blks b < 2 ^ blk_shift b" for b
  proof -
    have "int (total_blks b) div 2 ^ blk_shift b = 0"
      using that(2) by (simp add: div_pos_pos_trivial)
    with that(1) show ?thesis
      by (simp add: get_mapping_block_index_bbt_def mapping_block_in_range_def
          bbt_skip.simps [of b 0 0] bbt_overflow.simps [of b "-1"])
  qed
  show ?thesis
    using id [of "bmtd w"] id [of "bmtd (bbt_set_block_state D block True w)"] assms
    by (simp add: remap_block_bbt_def mapping_block_in_range_def Let_def split_beta)
qed

theorem bbt_without_range_remaps_to_itself_witness:
  "get_mapping_block_index_bbt (ex_bbt\<lparr>remap_range := None\<rparr>) 1 = 1 \<and>
   fst (remap_block_bbt log_drv 1 1 4096 \<lparr>dev = [], mtd = ex_mtd, bmtd = ex_bbt\<lparr>remap_range := None\<rparr>\<rparr>)"
  using bbt_without_range_remaps_to_itself
    [of "\<lparr>dev = [], mtd = ex_mtd, bmtd = ex_bbt\<lparr>remap_range := None\<rparr>\<rparr>" 1 4096 log_drv]
  by (simp add: ex_bbt_def ex_desc_def)

text \<open>
  C1. A write of data bytes through the layer over this back end returns, whatever the driver's
  failures: \<open>11 * len + 11\<close> rounds are enough (ten retries per chunk), the invariant and the
  geometry are kept, and the result is 0 exactly when every byte was accepted by the driver. A write that
  the driver reports as successful is taken to be a full one (\<open>drv_write_full\<close>).
\<close>

theorem bbt_write_returns:
  assumes "bbt_inv (bmtd w)" and "geom_ok w" and "drv_write_full D"
    and "to + oo_len ops \<le> chip_size w" and "oo_len ops < 4294967296" and "oo_ooblen ops = 0"
    and "11 * oo_len ops + 10 < fuel"
  shows "\<exists>r ops' w'. mtk_bmt_write fuel D (mtk_bmt_bbt_ops D) to ops w = Some (r, ops', w') \<and>
    bbt_inv (bmtd w') \<and> geom w' = geom w \<and> (r = 0 \<longleftrightarrow> oo_retlen ops' = oo_len ops) \<and> r \<le> 0"
  using bbt.write_returns [OF assms] .

theorem bbt_write_returns_witness:
  "\<exists>r ops' w'. mtk_bmt_write 56331 log_drv (mtk_bmt_bbt_ops log_drv) 4096
     (oob_request 5120 0 0 (replicate 5120 0) []) \<lparr>dev = [], mtd = ex_mtd, bmtd = ex_bbt\<rparr> =
     Some (r, ops', w') \<and> (r = 0 \<longleftrightarrow> oo_retlen ops' = 5120)"
proof -
  have "drv_write_full log_drv" by (simp add: drv_write_full_def log_drv_def)
  moreover have "bbt_inv ex_bbt" by (simp add: bbt_inv_def ex_bbt_def ex_desc_def)
  moreover have "geom_ok \<lparr>dev = ([] :: nand_event list), mtd = ex_mtd, bmtd = ex_bbt\<rparr>"
    by (simp add: geom_ok_def ex_bbt_def ex_desc_def ex_mtd_def)
  moreover have "chip_size \<lparr>dev = ([] :: nand_event list), mtd = ex_mtd, bmtd = ex_bbt\<rparr> = 32768"
    by (simp add: chip_size_def ex_bbt_def ex_desc_def)
  ultimately show ?thesis
    using bbt_write_returns [of "\<lparr>dev = [], mtd = ex_mtd, bmtd = ex_bbt\<rparr>" log_drv 4096
        "oob_request 5120 0 0 (replicate 5120 0) []" 56331]
    by (auto simp: oob_request_def)
qed

end
