(* ===== verification/Bmt_V2.thy ===== *)
theory Bmt_V2
  imports Bmt_Contract
begin

text \<open>
  The BMT v2 back end (\<^verbatim>\<open>mtk_bmt_v2.c\<close>): \<open>bb_tbl\<close> maps every logical block to a physical one and
  \<open>bmt_tbl\<close> is the pool of replacement blocks behind the data area, the last usable of which
  stores both tables. The table is found by its signature at attach time or built by a scan.
\<close>

section \<open>Table layout\<close>

text \<open>
  The code has no encoding of its own: it casts the buffer that is read and written to the structures. The bytes of the structures, and the structures in
  a buffer, are this cast in its two directions, on a machine with the low byte first.
\<close>

definition bbmt_bytes :: "bbmt \<Rightarrow> byte list" where
  "bbmt_bytes e = le16 (bm_block e) @ le16 (bm_mapped e)"

definition bbbt_bytes :: "bbbt \<Rightarrow> byte list" where
  "bbbt_bytes t = bb_signature t @ [of_nat (bb_version t)] @ concat (map le16 (bb_tbl t)) @
     concat (map bbmt_bytes (bmt_tbl t))"

fun u16s_of_bytes :: "byte list \<Rightarrow> nat list" where
  "u16s_of_bytes (a # b # bs) = le_val [a, b] # u16s_of_bytes bs"
| "u16s_of_bytes _ = []"

fun bbmts_of_bytes :: "byte list \<Rightarrow> bbmt list" where
  "bbmts_of_bytes (a # b # c # d # bs) =
     \<lparr>bm_block = le_val [a, b], bm_mapped = le_val [c, d]\<rparr> # bbmts_of_bytes bs"
| "bbmts_of_bytes _ = []"

definition bbbt_of_bytes :: "nat \<Rightarrow> byte list \<Rightarrow> bbbt" where
  "bbbt_of_bytes tsize bs =
     \<lparr>bb_signature = take 3 bs, bb_version = unat (arr_get 0 bs 3),
      bb_tbl = u16s_of_bytes (take (2 * tsize) (drop 4 bs)),
      bmt_tbl = bbmts_of_bytes (drop (4 + 2 * tsize) bs)\<rparr>"

definition str_BMT :: "byte list" where
  "str_BMT = map (of_nat \<circ> of_char) ''BMT''"

definition v2_sig :: "byte list" where
  "v2_sig = map (of_nat \<circ> of_char) ''bmt''"

abbreviation (input) BBMT_VERSION :: nat where "BBMT_VERSION \<equiv> 2"

section \<open>State access\<close>

definition set_bbt :: "(bbbt \<Rightarrow> bbbt) \<Rightarrow> 'd bmt_world \<Rightarrow> 'd bmt_world" where
  "set_bbt f w = w\<lparr>bmtd := (bmtd w)\<lparr>bbt := f (bbt (bmtd w))\<rparr>\<rparr>"

definition set_bb_tbl :: "nat \<Rightarrow> nat \<Rightarrow> bbbt \<Rightarrow> bbbt" where
  "set_bb_tbl i v t = t\<lparr>bb_tbl := (bb_tbl t)[i := v]\<rparr>"

definition bbmt_zero :: bbmt where
  "bbmt_zero = \<lparr>bm_block = 0, bm_mapped = 0\<rparr>"

definition bmt_entry :: "bbbt \<Rightarrow> nat \<Rightarrow> bbmt" where
  "bmt_entry t i = arr_get bbmt_zero (bmt_tbl t) i"

definition set_bmt_entry :: "nat \<Rightarrow> bbmt \<Rightarrow> bbbt \<Rightarrow> bbbt" where
  "set_bmt_entry i e t = t\<lparr>bmt_tbl := (bmt_tbl t)[i := e]\<rparr>"

section \<open>Building the tables\<close>

text \<open>
  The retry loop of \<^verbatim>\<open>find_valid_block\<close>; \<open>n\<close> is \<^verbatim>\<open>bb_max - loop\<close>. The block number is below
  \<^verbatim>\<open>total_blks\<close>, a \<^verbatim>\<open>u16\<close>, when it is incremented, so the increment does not wrap.
\<close>

fun find_valid_block_loop :: "'d nand_drv \<Rightarrow> nat \<Rightarrow> nat \<Rightarrow> 'd bmt_world \<Rightarrow> nat \<times> 'd bmt_world" where
  "find_valid_block_loop D n block w =
     (let b = bmtd w in
      if block \<ge> total_blks b then (0, w)
      else
        let (ret, dat, fdm, w1) = bbt_nand_read D (blk_pg b block) (pg_size b) 4 w;
            w2 = w1\<lparr>bmtd := (bmtd w1)\<lparr>data_buf := fill_front dat (data_buf (bmtd w1))\<rparr>\<rparr>
        in if ret \<noteq> 0 \<or> arr_get 0 fdm 0 \<noteq> 0xff then
             (case n of 0 \<Rightarrow> (0, w2)
                      | Suc m \<Rightarrow> find_valid_block_loop D m (block + 1) w2)
           else (block, w2))"

definition find_valid_block :: "'d nand_drv \<Rightarrow> nat \<Rightarrow> 'd bmt_world \<Rightarrow> nat \<times> 'd bmt_world" where
  "find_valid_block D block w = find_valid_block_loop D (bb_max (bmtd w)) block w"

lemma find_valid_block_loop_spec:
  "find_valid_block_loop D n block w = (r, w') \<Longrightarrow>
   same_but_buf w w' \<and> (r \<noteq> 0 \<longrightarrow> block \<le> r \<and> r < total_blks (bmtd w))"
proof (induction n arbitrary: block w)
  case 0
  obtain ret dat fdm w1 where rd:
      "bbt_nand_read D (blk_pg (bmtd w) block) (pg_size (bmtd w)) 4 w = (ret, dat, fdm, w1)"
    by (metis prod_cases4)
  have s2: "same_but_buf w (w1\<lparr>bmtd := (bmtd w1)\<lparr>data_buf := fill_front dat (data_buf (bmtd w1))\<rparr>\<rparr>)"
    using bbt_nand_read_frame [OF rd] by (auto simp: same_but_buf_def)
  from 0 show ?case
    by (subst (asm) find_valid_block_loop.simps)
      (auto simp: Let_def rd s2 split: if_splits)
next
  case (Suc n)
  obtain ret dat fdm w1 where rd:
      "bbt_nand_read D (blk_pg (bmtd w) block) (pg_size (bmtd w)) 4 w = (ret, dat, fdm, w1)"
    by (metis prod_cases4)
  define w2 where "w2 = w1\<lparr>bmtd := (bmtd w1)\<lparr>data_buf := fill_front dat (data_buf (bmtd w1))\<rparr>\<rparr>"
  have s2: "same_but_buf w w2"
    using bbt_nand_read_frame [OF rd] by (auto simp: w2_def same_but_buf_def)
  then have tb: "total_blks (bmtd w2) = total_blks (bmtd w)" by (auto simp: same_but_buf_def)
  have unf: "find_valid_block_loop D (Suc n) block w =
      (if block \<ge> total_blks (bmtd w) then (0, w)
       else if ret \<noteq> 0 \<or> arr_get 0 fdm 0 \<noteq> 0xff then find_valid_block_loop D n (block + 1) w2
       else (block, w2))"
    by (subst find_valid_block_loop.simps) (simp add: Let_def rd w2_def)
  show ?case
    using Suc.prems [unfolded unf] Suc.IH [of "block + 1" w2] s2 tb
    by (auto split: if_splits intro: same_but_buf_trans)
qed

lemma find_valid_block_spec:
  assumes "find_valid_block D block w = (r, w')"
  shows "same_but_buf w w'" and "r \<noteq> 0 \<Longrightarrow> block \<le> r \<and> r < total_blks (bmtd w)"
  using find_valid_block_loop_spec [OF assms [unfolded find_valid_block_def]] by auto

declare find_valid_block_loop.simps [simp del]

text \<open>The first loop of \<^verbatim>\<open>scan_bad_blocks\<close>: \<open>n\<close> entries are left, \<open>i\<close> is the next.\<close>

fun scan_bb_tbl :: "'d nand_drv \<Rightarrow> nat \<Rightarrow> nat \<Rightarrow> 'd bmt_world \<Rightarrow> bool \<times> 'd bmt_world" where
  "scan_bb_tbl D 0 i w = (True, w)"
| "scan_bb_tbl D (Suc n) i w =
     (let (v, w1) = find_valid_block D (u16 (arr_get 0 (bb_tbl (bbt (bmtd w))) (i - 1) + 1)) w;
          w2 = set_bbt (set_bb_tbl i v) w1
      in if v = 0 then (False, w2) else scan_bb_tbl D n (i + 1) w2)"

text \<open>The second loop: the usable blocks from \<open>block\<close> on fill the pool.\<close>

function scan_pool :: "'d nand_drv \<Rightarrow> nat \<Rightarrow> nat \<Rightarrow> 'd bmt_world \<Rightarrow> nat \<times> 'd bmt_world" where
  "scan_pool D block i w =
     (case find_valid_block D block w of
        (v, w1) \<Rightarrow>
          if v \<noteq> 0 then
            scan_pool D (v + 1) (i + 1)
              (set_bbt (set_bmt_entry i \<lparr>bm_block = v, bm_mapped = NO_MAPPED\<rparr>) w1)
          else (i, w1))"
  by pat_completeness auto
termination
proof (relation "measure (\<lambda>(D, block, i, w). total_blks (bmtd w) - block)", goal_cases)
  case (2 D block i w v w1)
  then have "find_valid_block D block w = (v, w1)" by simp
  note spec = find_valid_block_spec [OF this]
  have "total_blks (bmtd w1) = total_blks (bmtd w)" using spec(1) by (auto simp: same_but_buf_def)
  with spec(2) 2 show ?case by (auto simp: set_bbt_def)
qed simp

declare scan_pool.simps [simp del]

definition scan_bad_blocks :: "'d nand_drv \<Rightarrow> 'd bmt_world \<Rightarrow> int \<times> 'd bmt_world" where
  "scan_bad_blocks D w =
     (let w0 = set_bbt (set_bb_tbl 0 0) w;
          (ok, w1) = scan_bb_tbl D (pool_lba (bmtd w) - 1) 1 w0
      in if \<not> ok then (-1, w1)
         else
           let last = arr_get 0 (bb_tbl (bbt (bmtd w1))) (max 1 (pool_lba (bmtd w)) - 1);
               w2 = w1\<lparr>bmtd := (bmtd w1)\<lparr>pool_pba := u16 (last + 1)\<rparr>\<rparr>
           in if int (pool_pba (bmtd w2)) \<ge> int (total_blks (bmtd w2)) - 2 then (-1, w2)
              else
                let (i, w3) = scan_pool D (pool_pba (bmtd w2)) 0 w2;
                    idx = u16_of_int (int i - 1);
                    w4 = set_bbt (\<lambda>t. set_bmt_entry idx ((bmt_entry t idx)\<lparr>bm_mapped := BMT_MAPPED\<rparr>) t)
                           (w3\<lparr>bmtd := (bmtd w3)\<lparr>bmt_blk_idx := idx\<rparr>\<rparr>)
                in if i < 1 then (-1, w4) else (0, w4))"

section \<open>Storing the tables\<close>

definition is_valid_bmt :: "bbbt \<Rightarrow> byte list \<Rightarrow> bool" where
  "is_valid_bmt t fdm \<longleftrightarrow> bb_signature t = str_BMT \<and> take 3 (drop OOB_SIGNATURE_OFFSET fdm) = v2_sig \<and>
     bb_version t = BBMT_VERSION"

fun get_bmt_index_from :: "nat \<Rightarrow> bbmt list \<Rightarrow> nat" where
  "get_bmt_index_from i [] = 0"
| "get_bmt_index_from i (e # es) =
     (if bm_block e \<noteq> 0 then if bm_mapped e = BMT_MAPPED then u16 i else get_bmt_index_from (i + 1) es
      else 0)"

definition get_bmt_index :: "bbbt \<Rightarrow> nat" where
  "get_bmt_index t = get_bmt_index_from 0 (bmt_tbl t)"

text \<open>
  \<^verbatim>\<open>upload_bmt\<close> with \<open>n + 1\<close> as the recursion argument, so that 0 is the index -1.
\<close>

fun upload_bmt_from :: "'d nand_drv \<Rightarrow> nat \<Rightarrow> 'd bmt_world \<Rightarrow> nat \<times> 'd bmt_world" where
  "upload_bmt_from D 0 w = (65535, w)"
| "upload_bmt_from D (Suc n) w =
     (let e = bmt_entry (bbt (bmtd w)) n
      in if bm_mapped e = NORMAL_MAPPED then (65535, w)
         else
           let block = bm_block e;
               (r1, w1) = bbt_nand_erase D block w
           in if r1 \<noteq> 0
              then upload_bmt_from D n (set_bbt (set_bmt_entry n (e\<lparr>bm_block := 0\<rparr>)) w1)
              else
                let w2 = set_bbt (\<lambda>t. t\<lparr>bb_signature := str_BMT, bb_version := BBMT_VERSION\<rparr>) w1;
                    (r2, w3) = write_bmt D block (bbbt_bytes (bbt (bmtd w2))) w2
                in if r2 \<noteq> 0
                   then upload_bmt_from D n (set_bbt (set_bmt_entry n (e\<lparr>bm_block := 0\<rparr>)) w3)
                   else (u16 n, w3))"

definition upload_bmt :: "'d nand_drv \<Rightarrow> int \<Rightarrow> 'd bmt_world \<Rightarrow> nat \<times> 'd bmt_world" where
  "upload_bmt D n w = upload_bmt_from D (nat (n + 1)) w"

text \<open>The common tail of the operations: store the tables and remember where they are.\<close>

definition upload_current :: "'d nand_drv \<Rightarrow> 'd bmt_world \<Rightarrow> 'd bmt_world" where
  "upload_current D w =
     (let (idx, w1) = upload_bmt D (int (bmt_blk_idx (bmtd w))) w
      in w1\<lparr>bmtd := (bmtd w1)\<lparr>bmt_blk_idx := idx\<rparr>\<rparr>)"

section \<open>Mapping, remapping, unmapping\<close>

fun pool_search :: "nat \<Rightarrow> nat \<Rightarrow> bbbt \<Rightarrow> nat option" where
  "pool_search 0 i t = None"
| "pool_search (Suc n) i t =
     (if bm_block (bmt_entry t i) \<noteq> 0 \<and> bm_mapped (bmt_entry t i) = NO_MAPPED then Some i
      else pool_search n (i + 1) t)"

definition find_valid_block_in_pool :: "'d bmt_world \<Rightarrow> nat \<times> 'd bmt_world" where
  "find_valid_block_in_pool w =
     (if bmt_blk_idx (bmtd w) = 0 then (0, w)
      else case pool_search (bmt_blk_idx (bmtd w)) 0 (bbt (bmtd w)) of
             None \<Rightarrow> (0, w)
           | Some i \<Rightarrow>
               (let e = bmt_entry (bbt (bmtd w)) i
                in (bm_block e, set_bbt (set_bmt_entry i (e\<lparr>bm_mapped := NORMAL_MAPPED\<rparr>)) w)))"

definition remap_block_v2 ::
    "'d nand_drv \<Rightarrow> nat \<Rightarrow> nat \<Rightarrow> int \<Rightarrow> 'd bmt_world \<Rightarrow> bool \<times> 'd bmt_world" where
  "remap_block_v2 D block mapped_block copy_len w =
     (let (new_block, w1) = find_valid_block_in_pool w
      in if new_block = 0 then (False, w1)
         else
           let w2 = set_bbt (set_bb_tbl block new_block) w1;
               (_, w3) = bbt_nand_erase D new_block w2;
               w4 = (if copy_len > 0 then snd (bbt_nand_copy D new_block mapped_block copy_len w3) else w3)
           in (True, upload_current D w4))"

definition get_mapping_block_index_v2 :: "bmt_desc \<Rightarrow> nat \<Rightarrow> int" where
  "get_mapping_block_index_v2 b block =
     (if block \<ge> pool_lba b then int block
      else case mapping_block_in_range b block of
             None \<Rightarrow> int block
           | Some _ \<Rightarrow> int (arr_get 0 (bb_tbl (bbt b)) block))"

definition unmap_block_v2 :: "'d nand_drv \<Rightarrow> nat \<Rightarrow> 'd bmt_world \<Rightarrow> 'd bmt_world" where
  "unmap_block_v2 D block w = upload_current D (set_bbt (set_bb_tbl block block) w)"

section \<open>The debugfs entry\<close>

text \<open>
  \<^verbatim>\<open>mtk_bmt_get_mapping_mask\<close>: the set of pool entries below \<open>bmt_blk_idx\<close> that a remapped main
  block points to, each block marking the first entry it matches.
\<close>

definition first_entry :: "bbbt \<Rightarrow> nat \<Rightarrow> nat \<Rightarrow> nat option" where
  "first_entry t idx v = List.find (\<lambda>k. bm_block (bmt_entry t k) = v) [0..<idx]"

definition mtk_bmt_get_mapping_mask :: "'d bmt_world \<Rightarrow> nat list" where
  "mtk_bmt_get_mapping_mask w =
     (let b = bmtd w; t = bbt b; main_blocks = mtd_size (mtd w) div 2 ^ blk_shift b
      in List.map_filter (\<lambda>i. if arr_get 0 (bb_tbl t) i = i then None
                              else first_entry t (bmt_blk_idx b) (arr_get 0 (bb_tbl t) i))
           [1..<main_blocks])"

text \<open>The loop of case 100 over the pool entries \<open>is\<close>, with the number of entries freed.\<close>

fun free_unused :: "nat list \<Rightarrow> nat list \<Rightarrow> bbbt \<Rightarrow> nat \<times> bbbt" where
  "free_unused used [] t = (0, t)"
| "free_unused used (i # is) t =
     (let e = bmt_entry t i
      in if bm_mapped e \<noteq> NORMAL_MAPPED \<or> i \<in> set used then free_unused used is t
         else let (n, t') = free_unused used is (set_bmt_entry i (e\<lparr>bm_mapped := NO_MAPPED\<rparr>) t)
              in (n + 1, t'))"

definition mtk_bmt_debug_v2 :: "'d nand_drv \<Rightarrow> bool \<Rightarrow> nat \<Rightarrow> 'd bmt_world \<Rightarrow> int \<times> 'd bmt_world" where
  "mtk_bmt_debug_v2 D kcalloc_ok val w =
     (if \<not> kcalloc_ok then (- ENOMEM, w)
      else if val = 100 then
        let used = mtk_bmt_get_mapping_mask w;
            (n_remap, t) = free_unused used [0..<Suc (bmt_blk_idx (bmtd w))] (bbt (bmtd w));
            w1 = set_bbt (\<lambda>_. t) w
        in (0, if n_remap > 0 then upload_current D w1 else w1)
      else (0, w))"

section \<open>Attaching\<close>

definition v2_bufsz :: "nat \<Rightarrow> nat \<Rightarrow> nat" where
  "v2_bufsz bmt_table_size psize = u32 (round_up (4 + bmt_table_size * 4) psize)"

text \<open>
  The search for a stored table, from the last block down to \<^verbatim>\<open>pool_lba\<close>, \<open>n\<close> blocks to go: the
  result says whether \<^verbatim>\<open>bmtd.bbt\<close> was set.
  The counter of the code is a \<^verbatim>\<open>u16\<close>, so that its loop does not end when \<^verbatim>\<open>pool_lba\<close> is 0 and
  no table is found; the search here ends.
\<close>

fun v2_find_table :: "'d nand_drv \<Rightarrow> nat \<Rightarrow> nat \<Rightarrow> nat \<Rightarrow> 'd bmt_world \<Rightarrow> bool \<times> 'd bmt_world" where
  "v2_find_table D bufsz 0 block w = (False, w)"
| "v2_find_table D bufsz (Suc n) block w =
     (let (ret, dat, fdm, w1) = bbt_nand_read D (blk_pg (bmtd w) block) bufsz 4 w;
          w2 = w1\<lparr>bmtd := (bmtd w1)\<lparr>bbt_buf := fill_front dat (bbt_buf (bmtd w1))\<rparr>\<rparr>;
          t = bbbt_of_bytes (table_size (bmtd w2)) (bbt_buf (bmtd w2))
      in if ret \<noteq> 0 then v2_find_table D bufsz n (block - 1) w2
         else if \<not> is_valid_bmt t fdm then v2_find_table D bufsz n (block - 1) w2
         else
           let w3 = w2\<lparr>bmtd := (bmtd w2)\<lparr>bmt_blk_idx := get_bmt_index t\<rparr>\<rparr>
           in if get_bmt_index t = 0 then (False, w3)
              else (True, w3\<lparr>bmtd := (bmtd w3)\<lparr>bbt := t\<rparr>\<rparr>))"

text \<open>
  The three device-tree properties are arguments, \<^const>\<open>None\<close> for an absent one, as is the result
  of the allocation. The new size is computed as an \<^verbatim>\<open>int\<close> and then extended to 64 bits.
\<close>

definition mtk_bmt_init_v2 ::
    "'d nand_drv \<Rightarrow> nat option \<Rightarrow> nat option \<Rightarrow> nat option \<Rightarrow> bool \<Rightarrow> 'd bmt_world \<Rightarrow> int \<times> 'd bmt_world" where
  "mtk_bmt_init_v2 D pool_prop oob_prop tsize_prop kzalloc_ok w =
     (let bmt_pool_size = (case pool_prop of None \<Rightarrow> 80 | Some n \<Rightarrow> n);
          bmt_table_size = (case tsize_prop of None \<Rightarrow> 0x2000 | Some n \<Rightarrow> n);
          b = bmtd w;
          pmt_block = u16 (sub32 (sub32 (total_blks b) bmt_pool_size) 2);
          bufsz = v2_bufsz bmt_table_size (pg_size b);
          b1 = b\<lparr>oob_offset := (case oob_prop of None \<Rightarrow> 0 | Some n \<Rightarrow> n),
                 table_size := bmt_table_size,
                 pool_lba := u16 (pmt_block + 2),
                 bb_max := u16 (total_blks b * 2 div 100),
                 bmt_pgs := bufsz div 2 ^ pg_shift b\<rparr>;
          w1 = w\<lparr>bmtd := b1, mtd := (mtd w)\<lparr>mtd_size := u64_of_int (s32 (pmt_block * 2 ^ blk_shift b))\<rparr>\<rparr>
      in if \<not> kzalloc_ok then (- ENOMEM, w1)
         else
           let w2 = w1\<lparr>bmtd := b1\<lparr>bbt_buf := replicate bufsz 0xff\<rparr>\<rparr>;
               (found, w3) = v2_find_table D bufsz (total_blks b - pool_lba b1) (total_blks b - 1) w2
           in if found then (0, w3)
              else if total_blks b > bmt_table_size + bmt_table_size * 2 div 100 then (-1, w3)
              else
                let w4 = set_bbt (\<lambda>_. (bbbt_of_bytes bmt_table_size (bbt_buf (bmtd w3)))
                           \<lparr>bmt_tbl := replicate bmt_table_size bbmt_zero\<rparr>) w3;
                    (ret, w5) = scan_bad_blocks D w4
                in if ret \<noteq> 0 then (-1, w5)
                   else
                     let w6 = upload_current D w5
                     in if bmt_blk_idx (bmtd w6) = 65535 then (-1, w6) else (0, w6))"

definition mtk_bmt_v2_ops :: "'d nand_drv \<Rightarrow> 'd mtk_bmt_ops" where
  "mtk_bmt_v2_ops D =
     \<lparr>op_sig = v2_sig, op_remap_block = remap_block_v2 D, op_unmap_block = unmap_block_v2 D,
      op_get_mapping_block = get_mapping_block_index_v2\<rparr>"

section \<open>What uploading the tables changes\<close>

lemma bbt_set_bbt [simp]: "bbt (bmtd (set_bbt f w)) = f (bbt (bmtd w))"
  by (simp add: set_bbt_def)

lemma bmt_entry_set [simp]:
  "bmt_entry (set_bmt_entry i e t) j = (if i = j \<and> i < length (bmt_tbl t) then e else bmt_entry t j)"
  by (simp add: bmt_entry_def set_bmt_entry_def arr_get_update)

lemma bmt_entry_out: "length (bmt_tbl t) \<le> i \<Longrightarrow> bmt_entry t i = bbmt_zero"
  by (simp add: bmt_entry_def arr_get_out)

lemma bmt_entry_zero_block:
  "bmt_entry (set_bmt_entry i ((bmt_entry t i)\<lparr>bm_block := 0\<rparr>) t) j =
   (if i = j then (bmt_entry t j)\<lparr>bm_block := 0\<rparr> else bmt_entry t j)"
  by (auto simp: bmt_entry_out bbmt_zero_def not_less)

lemma bb_tbl_set_bmt_entry [simp]: "bb_tbl (set_bmt_entry i e t) = bb_tbl t"
  by (simp add: set_bmt_entry_def)

lemma length_set_bmt_entry [simp]: "length (bmt_tbl (set_bmt_entry i e t)) = length (bmt_tbl t)"
  by (simp add: set_bmt_entry_def)

lemma set_bb_tbl_simps [simp]:
  "bb_tbl (set_bb_tbl i v t) = (bb_tbl t)[i := v]" "bmt_tbl (set_bb_tbl i v t) = bmt_tbl t"
  by (simp_all add: set_bb_tbl_def)

lemma bmt_entry_set_bb_tbl [simp]: "bmt_entry (set_bb_tbl i v t) = bmt_entry t"
  by (rule ext) (simp add: bmt_entry_def)

lemma bmt_entry_head [simp]: "bmt_entry (t\<lparr>bb_signature := s, bb_version := v\<rparr>) = bmt_entry t"
  by (rule ext) (simp add: bmt_entry_def)

text \<open>
  The tables after an upload from entry \<open>n - 1\<close> down to entry \<open>k\<close>: the entries the upload gave
  up, \<open>k\<close> to \<open>n - 1\<close>, have lost their block number; nothing else of the two tables has changed.
\<close>

definition gave_up :: "nat \<Rightarrow> nat \<Rightarrow> bbbt \<Rightarrow> bbbt \<Rightarrow> bool" where
  "gave_up k n t t' \<longleftrightarrow> bb_tbl t' = bb_tbl t \<and> length (bmt_tbl t') = length (bmt_tbl t) \<and>
     (\<forall>i. bmt_entry t' i = (if k \<le> i \<and> i < n then (bmt_entry t i)\<lparr>bm_block := 0\<rparr> else bmt_entry t i))"

lemma gave_up_refl [simp]: "gave_up n n t t"
  by (simp add: gave_up_def)

lemma gave_up_step:
  assumes "gave_up k n (set_bmt_entry n ((bmt_entry t n)\<lparr>bm_block := 0\<rparr>) t) t'" and "k \<le> n"
  shows "gave_up k (Suc n) t t'"
  using assms by (auto simp: gave_up_def bmt_entry_zero_block less_Suc_eq simp del: bmt_entry_set)

lemma gave_up_head:
  assumes "gave_up k n (t\<lparr>bb_signature := s, bb_version := v\<rparr>) t'"
  shows "gave_up k n t t'"
  using assms by (simp add: gave_up_def bmt_entry_def)

definition tables_only :: "'d bmt_world \<Rightarrow> 'd bmt_world \<Rightarrow> bool" where
  "tables_only w w' \<longleftrightarrow> mtd w' = mtd w \<and> (\<exists>t. bmtd w' = (bmtd w)\<lparr>bbt := t\<rparr>)"

lemma tables_only_set [simp]:
  "tables_only w w1 \<Longrightarrow> tables_only w (set_bbt f w1)"
  by (auto simp: tables_only_def set_bbt_def)

lemma tables_only_eqI: "mtd w' = mtd w \<Longrightarrow> bmtd w' = bmtd w \<Longrightarrow> tables_only w w'"
  by (auto simp: tables_only_def intro!: exI [of _ "bbt (bmtd w)"])

lemma tables_only_trans: "tables_only w w1 \<Longrightarrow> tables_only w1 w2 \<Longrightarrow> tables_only w w2"
  by (auto simp: tables_only_def)

lemma upload_bmt_from_effect:
  assumes "upload_bmt_from D n w = (r, w')"
  shows "\<exists>k\<le>n. tables_only w w' \<and> gave_up k n (bbt (bmtd w)) (bbt (bmtd w')) \<and>
    (r = 65535 \<and> (k = 0 \<or> bm_mapped (bmt_entry (bbt (bmtd w)) (k - 1)) = NORMAL_MAPPED) \<or>
     0 < k \<and> r = u16 (k - 1) \<and> bm_mapped (bmt_entry (bbt (bmtd w)) (k - 1)) \<noteq> NORMAL_MAPPED \<and>
     bb_signature (bbt (bmtd w')) = str_BMT \<and> bb_version (bbt (bmtd w')) = BBMT_VERSION)"
  using assms
proof (induction n arbitrary: w)
  case 0
  then show ?case by (auto intro: tables_only_eqI)
next
  case (Suc n)
  let ?t = "bbt (bmtd w)"
  let ?e = "bmt_entry ?t n"
  let ?z = "set_bmt_entry n (?e\<lparr>bm_block := 0\<rparr>)"
  let ?h = "\<lambda>t. t\<lparr>bb_signature := str_BMT, bb_version := BBMT_VERSION\<rparr>"
  obtain r1 w1 where er: "bbt_nand_erase D (bm_block ?e) w = (r1, w1)" by fastforce
  obtain r2 w3 where wr: "write_bmt D (bm_block ?e) (bbbt_bytes (bbt (bmtd (set_bbt ?h w1)))) (set_bbt ?h w1) = (r2, w3)"
    by fastforce
  have b1: "bmtd w1 = bmtd w" "mtd w1 = mtd w" using bbt_nand_erase_frame [OF er] by simp_all
  have b3: "bmtd w3 = bmtd (set_bbt ?h w1)" "mtd w3 = mtd w" using write_bmt_frame [OF wr] b1 by (simp_all add: set_bbt_def)
  have t3: "tables_only w w3" using b1 b3 by (auto simp: tables_only_def set_bbt_def)
  have t1: "tables_only w w1" using b1 by (auto intro: tables_only_eqI)
  have unf: "upload_bmt_from D (Suc n) w =
      (if bm_mapped ?e = NORMAL_MAPPED then (65535, w)
       else if r1 \<noteq> 0 then upload_bmt_from D n (set_bbt ?z w1)
       else if r2 \<noteq> 0 then upload_bmt_from D n (set_bbt ?z w3)
       else (u16 n, w3))"
    using wr by (simp add: Let_def er)
  consider (norm) "bm_mapped ?e = NORMAL_MAPPED" | (e) "bm_mapped ?e \<noteq> NORMAL_MAPPED" "r1 \<noteq> 0"
    | (wf) "bm_mapped ?e \<noteq> NORMAL_MAPPED" "r1 = 0" "r2 \<noteq> 0"
    | (ok) "bm_mapped ?e \<noteq> NORMAL_MAPPED" "r1 = 0" "r2 = 0" by blast
  then show ?case
  proof cases
    case norm
    with Suc.prems unf show ?thesis by (intro exI [of _ "Suc n"]) (auto intro: tables_only_eqI)
  next
    case e
    have lt: "k \<le> n \<Longrightarrow> bm_mapped (bmt_entry (?z ?t) (k - 1)) = bm_mapped (bmt_entry ?t (k - 1))" for k
      by simp
    from e Suc.prems unf have "upload_bmt_from D n (set_bbt ?z w1) = (r, w')" by simp
    from Suc.IH [OF this] obtain k where k: "k \<le> n" "tables_only (set_bbt ?z w1) w'"
      "gave_up k n (?z ?t) (bbt (bmtd w'))"
      "r = 65535 \<and> (k = 0 \<or> bm_mapped (bmt_entry (?z ?t) (k - 1)) = NORMAL_MAPPED) \<or>
       0 < k \<and> r = u16 (k - 1) \<and> bm_mapped (bmt_entry (?z ?t) (k - 1)) \<noteq> NORMAL_MAPPED \<and>
       bb_signature (bbt (bmtd w')) = str_BMT \<and> bb_version (bbt (bmtd w')) = BBMT_VERSION"
      by (auto simp: b1)
    show ?thesis
      using k gave_up_step [OF k(3,1)] tables_only_trans [OF tables_only_set [OF t1] k(2)]
      unfolding lt [OF k(1)] by (intro exI [of _ k]) simp
  next
    case wf
    have lt: "k \<le> n \<Longrightarrow> bm_mapped (bmt_entry (?z (?h ?t)) (k - 1)) = bm_mapped (bmt_entry ?t (k - 1))" for k
      by simp
    from wf Suc.prems unf have "upload_bmt_from D n (set_bbt ?z w3) = (r, w')" by simp
    from Suc.IH [OF this] obtain k where k: "k \<le> n" "tables_only (set_bbt ?z w3) w'"
      "gave_up k n (?z (?h ?t)) (bbt (bmtd w'))"
      "r = 65535 \<and> (k = 0 \<or> bm_mapped (bmt_entry (?z (?h ?t)) (k - 1)) = NORMAL_MAPPED) \<or>
       0 < k \<and> r = u16 (k - 1) \<and> bm_mapped (bmt_entry (?z (?h ?t)) (k - 1)) \<noteq> NORMAL_MAPPED \<and>
       bb_signature (bbt (bmtd w')) = str_BMT \<and> bb_version (bbt (bmtd w')) = BBMT_VERSION"
      by (auto simp: b1 b3)
    have g: "gave_up k (Suc n) (?h ?t) (bbt (bmtd w'))"
      using k(1,3) by (intro gave_up_step) simp_all
    show ?thesis
      using k gave_up_head [OF g] tables_only_trans [OF tables_only_set [OF t3] k(2)]
      unfolding lt [OF k(1)] by (intro exI [of _ k]) simp
  next
    case ok
    have "gave_up (Suc n) (Suc n) ?t (?h ?t)"
      by (simp add: gave_up_def)
    moreover from ok Suc.prems unf have "r = u16 n" "w' = w3" by simp_all
    ultimately show ?thesis using ok t3 b3 b1
      by (intro exI [of _ "Suc n"]) simp
  qed
qed

lemma upload_current_effect:
  obtains k t idx where "k \<le> Suc (bmt_blk_idx (bmtd w))"
    and "gave_up k (Suc (bmt_blk_idx (bmtd w))) (bbt (bmtd w)) t"
    and "bmtd (upload_current D w) = (bmtd w)\<lparr>bbt := t, bmt_blk_idx := idx\<rparr>"
    and "mtd (upload_current D w) = mtd w"
proof -
  obtain r w' where up: "upload_bmt_from D (Suc (bmt_blk_idx (bmtd w))) w = (r, w')" by fastforce
  then have eq: "upload_current D w = w'\<lparr>bmtd := (bmtd w')\<lparr>bmt_blk_idx := r\<rparr>\<rparr>"
    by (simp add: upload_current_def upload_bmt_def nat_add_distrib)
  from upload_bmt_from_effect [OF up] obtain k where "k \<le> Suc (bmt_blk_idx (bmtd w))"
    "tables_only w w'" "gave_up k (Suc (bmt_blk_idx (bmtd w))) (bbt (bmtd w)) (bbt (bmtd w'))" by blast
  then show thesis by (intro that [of k "bbt (bmtd w')" r]) (auto simp: eq tables_only_def)
qed

section \<open>The invariants\<close>

text \<open>
  \<open>v2_inv\<close>: the tables hold block numbers of the chip. \<open>v2_inj\<close>: no physical block is used
  twice, neither by two main blocks, nor by a main block and an entry of the pool that is not
  marked as mapped, nor by two entries of the pool.
\<close>

definition v2_main :: "bmt_desc \<Rightarrow> nat list" where
  "v2_main b = take (pool_lba b) (bb_tbl (bbt b))"

definition v2_inv :: "bmt_desc \<Rightarrow> bool" where
  "v2_inv b \<longleftrightarrow> pool_lba b \<le> length (bb_tbl (bbt b)) \<and> (\<forall>v\<in>set (v2_main b). v < total_blks b) \<and>
     (\<forall>i. bm_block (bmt_entry (bbt b) i) < total_blks b)"

definition v2_inj :: "bmt_desc \<Rightarrow> bool" where
  "v2_inj b \<longleftrightarrow> distinct (v2_main b) \<and>
     (\<forall>i j. i \<noteq> j \<longrightarrow> bm_block (bmt_entry (bbt b) i) \<noteq> 0 \<longrightarrow>
        bm_block (bmt_entry (bbt b) i) \<noteq> bm_block (bmt_entry (bbt b) j)) \<and>
     (\<forall>i. bm_block (bmt_entry (bbt b) i) \<noteq> 0 \<longrightarrow> bm_mapped (bmt_entry (bbt b) i) \<noteq> NORMAL_MAPPED \<longrightarrow>
        bm_block (bmt_entry (bbt b) i) \<notin> set (v2_main b))"

lemma pool_search_Some:
  "pool_search n i t = Some j \<Longrightarrow>
   i \<le> j \<and> j < i + n \<and> bm_block (bmt_entry t j) \<noteq> 0 \<and> bm_mapped (bmt_entry t j) = NO_MAPPED"
  by (induction n i t rule: pool_search.induct) (auto split: if_splits)

lemma pool_search_None:
  "pool_search n i t = None \<Longrightarrow> i \<le> j \<Longrightarrow> j < i + n \<Longrightarrow>
   bm_block (bmt_entry t j) = 0 \<or> bm_mapped (bmt_entry t j) \<noteq> NO_MAPPED"
proof (induction n arbitrary: i)
  case (Suc n)
  then show ?case by (cases "j = i") (force split: if_splits)+
qed simp

lemma remap_block_v2_effect:
  assumes "remap_block_v2 D block mapped n w = (r, w')"
  obtains (full) "\<not> r" and "w' = w"
  | (moved) i k t x idx where "r" and "i < bmt_blk_idx (bmtd w)" and "i < length (bmt_tbl (bbt (bmtd w)))"
    and "bm_block (bmt_entry (bbt (bmtd w)) i) \<noteq> 0"
    and "bm_mapped (bmt_entry (bbt (bmtd w)) i) = NO_MAPPED"
    and "gave_up k (Suc (bmt_blk_idx (bmtd w)))
       (set_bb_tbl block (bm_block (bmt_entry (bbt (bmtd w)) i))
         (set_bmt_entry i ((bmt_entry (bbt (bmtd w)) i)\<lparr>bm_mapped := NORMAL_MAPPED\<rparr>) (bbt (bmtd w)))) t"
    and "bmtd w' = (bmtd w)\<lparr>bbt := t, data_buf := x, bmt_blk_idx := idx\<rparr>" and "mtd w' = mtd w"
proof (cases "if bmt_blk_idx (bmtd w) = 0 then None else pool_search (bmt_blk_idx (bmtd w)) 0 (bbt (bmtd w))")
  case None
  with assms show thesis
    by (intro full) (auto simp: remap_block_v2_def find_valid_block_in_pool_def split: if_splits)
next
  case (Some i)
  let ?e = "bmt_entry (bbt (bmtd w)) i"
  let ?w1 = "set_bbt (set_bmt_entry i (?e\<lparr>bm_mapped := NORMAL_MAPPED\<rparr>)) w"
  let ?w2 = "set_bbt (set_bb_tbl block (bm_block ?e)) ?w1"
  have ps: "bmt_blk_idx (bmtd w) \<noteq> 0" "pool_search (bmt_blk_idx (bmtd w)) 0 (bbt (bmtd w)) = Some i"
    using Some by (auto split: if_splits)
  from pool_search_Some [OF ps(2)] have i: "i < bmt_blk_idx (bmtd w)" "bm_block ?e \<noteq> 0" "bm_mapped ?e = NO_MAPPED"
    by simp_all
  then have il: "i < length (bmt_tbl (bbt (bmtd w)))"
    by (metis bmt_entry_out bbmt_zero_def bbmt.select_convs(1) not_less)
  obtain r3 w3 where er: "bbt_nand_erase D (bm_block ?e) ?w2 = (r3, w3)" by fastforce
  define w4 where "w4 = (if n > 0 then snd (bbt_nand_copy D (bm_block ?e) mapped n w3) else w3)"
  have eq: "r" "w' = upload_current D w4"
    using assms i ps er by (simp_all add: remap_block_v2_def find_valid_block_in_pool_def w4_def Let_def)
  have b3: "bmtd w3 = bmtd ?w2" "mtd w3 = mtd w" using bbt_nand_erase_frame [OF er] by (simp_all add: set_bbt_def)
  have "same_but_buf w3 w4"
    by (cases "bbt_nand_copy D (bm_block ?e) mapped n w3") (auto simp: w4_def dest: bbt_nand_copy_frame)
  then obtain x where b4: "bmtd w4 = (bmtd ?w2)\<lparr>data_buf := x\<rparr>" "mtd w4 = mtd w"
    using b3 by (auto simp: same_but_buf_def)
  obtain k t idx where up: "gave_up k (Suc (bmt_blk_idx (bmtd w4))) (bbt (bmtd w4)) t"
    "bmtd (upload_current D w4) = (bmtd w4)\<lparr>bbt := t, bmt_blk_idx := idx\<rparr>" "mtd (upload_current D w4) = mtd w4"
    by (rule upload_current_effect)
  show thesis
    by (rule moved [where i = i and k = k and t = t and x = x and idx = idx]) (use eq i il b4 up in \<open>simp_all add: set_bbt_def\<close>)
qed

lemma set_v2_main_update:
  "set (take p (xs[i := v])) \<subseteq> insert v (set (take p xs))"
  by (metis set_update_subset_insert take_update_swap)

lemma v2_remap_keeps:
  assumes "v2_inv (bmtd w)" and "remap_block_v2 D block mapped n w = (r, w')"
  shows "v2_inv (bmtd w') \<and> geom w' = geom w"
  using assms(2)
proof (cases rule: remap_block_v2_effect)
  case full
  with assms show ?thesis by simp
next
  case (moved i k t x idx)
  have "set (take (pool_lba (bmtd w)) (bb_tbl t)) \<subseteq>
      insert (bm_block (bmt_entry (bbt (bmtd w)) i)) (set (v2_main (bmtd w)))"
    using moved(6) set_v2_main_update [of "pool_lba (bmtd w)" "bb_tbl (bbt (bmtd w))" block]
    by (simp add: gave_up_def v2_main_def)
  with moved assms(1) show ?thesis
    by (auto simp: v2_inv_def v2_main_def gave_up_def geom_def)
qed

lemma v2_inj_step:
  assumes inj: "v2_inj b" and d: "distinct (v2_main b')"
    and sub: "set (v2_main b') \<subseteq> insert (bm_block (bmt_entry (bbt b) i)) (set (v2_main b))"
    and blk: "\<And>j. bm_block (bmt_entry (bbt b') j) = 0 \<or>
        bm_block (bmt_entry (bbt b') j) = bm_block (bmt_entry (bbt b) j)"
    and mp: "\<And>j. bm_mapped (bmt_entry (bbt b') j) =
        (if j = i then NORMAL_MAPPED else bm_mapped (bmt_entry (bbt b) j))"
  shows "v2_inj b'"
  unfolding v2_inj_def
proof (intro conjI allI impI)
  fix j l :: nat
  assume "j \<noteq> l" and nz: "bm_block (bmt_entry (bbt b') j) \<noteq> 0"
  with blk [of j] blk [of l] inj show "bm_block (bmt_entry (bbt b') j) \<noteq> bm_block (bmt_entry (bbt b') l)"
    unfolding v2_inj_def by metis
next
  fix j
  assume nz: "bm_block (bmt_entry (bbt b') j) \<noteq> 0" and m: "bm_mapped (bmt_entry (bbt b') j) \<noteq> NORMAL_MAPPED"
  from m mp have ji: "j \<noteq> i" and m': "bm_mapped (bmt_entry (bbt b) j) \<noteq> NORMAL_MAPPED" by (auto split: if_splits)
  from nz blk [of j] have eq: "bm_block (bmt_entry (bbt b') j) = bm_block (bmt_entry (bbt b) j)" by simp
  have "bm_block (bmt_entry (bbt b) j) \<noteq> bm_block (bmt_entry (bbt b) i)"
    "bm_block (bmt_entry (bbt b) j) \<notin> set (v2_main b)"
    using inj nz ji m' unfolding v2_inj_def eq by blast+
  with sub eq show "bm_block (bmt_entry (bbt b') j) \<notin> set (v2_main b')" by auto
qed (rule d)

lemma v2_remap_keeps_inj_aux:
  assumes inj: "v2_inj (bmtd w)" and eq: "remap_block_v2 D block mapped n w = (r, w')"
  shows "v2_inj (bmtd w')"
  using eq
proof (cases rule: remap_block_v2_effect)
  case full
  with inj show ?thesis by simp
next
  case (moved i k t x idx)
  let ?v = "bm_block (bmt_entry (bbt (bmtd w)) i)"
  have main: "v2_main (bmtd w') = (v2_main (bmtd w))[block := ?v]"
    using moved by (simp add: v2_main_def gave_up_def take_update_swap)
  have new: "?v \<notin> set (v2_main (bmtd w))" using inj moved by (simp add: v2_inj_def)
  have d: "distinct (v2_main (bmtd w'))"
    unfolding main using inj new by (auto simp: v2_inj_def intro: distinct_list_update)
  have sub: "set (v2_main (bmtd w')) \<subseteq> insert ?v (set (v2_main (bmtd w)))"
    unfolding main by (rule set_update_subset_insert)
  have ent: "bm_block (bmt_entry t j) = 0 \<or> bm_block (bmt_entry t j) = bm_block (bmt_entry (bbt (bmtd w)) j)"
    "bm_mapped (bmt_entry t j) = (if j = i then NORMAL_MAPPED else bm_mapped (bmt_entry (bbt (bmtd w)) j))" for j
    using moved(3,6) by (auto simp: gave_up_def)
  show ?thesis by (rule v2_inj_step [OF inj d sub]) (use ent moved(7) in simp_all)
qed

lemma v2_get_in_chip:
  assumes "v2_inv b" and "block < total_blks b"
  shows "get_mapping_block_index_v2 b block < int (total_blks b)"
proof (cases "block < pool_lba b")
  case True
  with assms have "bb_tbl (bbt b) ! block \<in> set (v2_main b)"
    by (auto simp: v2_main_def v2_inv_def in_set_conv_nth intro!: exI [of _ block])
  with assms True show ?thesis by (auto simp: get_mapping_block_index_v2_def v2_inv_def split: option.splits)
next
  case False
  with assms show ?thesis by (simp add: get_mapping_block_index_v2_def)
qed

interpretation v2: bmt_backend "mtk_bmt_v2_ops D" v2_inv for D :: "'d nand_drv"
  by unfold_locales (auto simp: mtk_bmt_v2_ops_def v2_get_in_chip dest: v2_remap_keeps)

section \<open>The scan\<close>

definition scan_frame :: "'d bmt_world \<Rightarrow> 'd bmt_world \<Rightarrow> bool" where
  "scan_frame w w' \<longleftrightarrow> mtd w' = mtd w \<and> (\<exists>t x. bmtd w' = (bmtd w)\<lparr>bbt := t, data_buf := x\<rparr>)"

lemma scan_frame_refl [simp]: "scan_frame w w"
  by (auto simp: scan_frame_def intro!: exI [of _ "bbt (bmtd w)"] exI [of _ "data_buf (bmtd w)"])

lemma scan_frame_trans: "scan_frame w w1 \<Longrightarrow> scan_frame w1 w2 \<Longrightarrow> scan_frame w w2"
  by (auto simp: scan_frame_def) blast

lemma scan_frame_set [simp]: "scan_frame w (set_bbt f w)"
  by (auto simp: scan_frame_def set_bbt_def intro!: exI [of _ "data_buf (bmtd w)"])

lemma scan_frame_buf: "same_but_buf w w' \<Longrightarrow> scan_frame w w'"
  by (auto simp: scan_frame_def same_but_buf_def intro!: exI [of _ "bbt (bmtd w)"])

lemma scan_frame_simps:
  assumes "scan_frame w w'"
  shows "total_blks (bmtd w') = total_blks (bmtd w)" and "pool_lba (bmtd w') = pool_lba (bmtd w)"
  using assms by (auto simp: scan_frame_def)

lemma find_valid_block_bbt:
  "find_valid_block D block w = (v, w') \<Longrightarrow> bbt (bmtd w') = bbt (bmtd w)"
  using find_valid_block_spec(1) [of D block w v w'] by (auto simp: same_but_buf_def)

lemma scan_bb_tbl_spec:
  assumes "scan_bb_tbl D n i w = (True, w')" and "0 < i" and "i + n \<le> length (bb_tbl (bbt (bmtd w)))"
    and "total_blks (bmtd w) < 65536" and "bb_tbl (bbt (bmtd w)) ! (i - 1) < total_blks (bmtd w)"
  shows "scan_frame w w' \<and> bmt_tbl (bbt (bmtd w')) = bmt_tbl (bbt (bmtd w)) \<and>
    (\<exists>bs. length bs = n \<and> bb_tbl (bbt (bmtd w')) =
        take i (bb_tbl (bbt (bmtd w))) @ bs @ drop (i + n) (bb_tbl (bbt (bmtd w))) \<and>
      sorted_wrt (<) (bb_tbl (bbt (bmtd w)) ! (i - 1) # bs) \<and> (\<forall>v\<in>set bs. v < total_blks (bmtd w)))"
  using assms
proof (induction n arbitrary: i w)
  case 0
  then show ?case by simp
next
  case (Suc n)
  let ?T = "bb_tbl (bbt (bmtd w))"
  let ?p = "?T ! (i - 1)"
  have ip: "i < length ?T" and il: "i - 1 < length ?T" using Suc.prems by simp_all
  obtain v w1 where fv: "find_valid_block D (u16 (?p + 1)) w = (v, w1)" by fastforce
  define w2 where "w2 = set_bbt (set_bb_tbl i v) w1"
  have step: "v \<noteq> 0" "scan_bb_tbl D n (i + 1) w2 = (True, w')"
    using Suc.prems(1) il fv by (auto simp: Let_def w2_def split: if_splits)
  note spec = find_valid_block_spec [OF fv]
  have f2: "scan_frame w w2" using scan_frame_trans [OF scan_frame_buf [OF spec(1)]] by (simp add: w2_def)
  have v: "?p < v" "v < total_blks (bmtd w)" using spec(2) [OF step(1)] Suc.prems(4,5) by simp_all
  have t2: "bb_tbl (bbt (bmtd w2)) = ?T[i := v]" "bmt_tbl (bbt (bmtd w2)) = bmt_tbl (bbt (bmtd w))"
    using find_valid_block_bbt [OF fv] by (simp_all add: w2_def)
  have tk: "take (Suc i) (?T[i := v]) = take i ?T @ [v]"
    using ip by (simp add: take_Suc_conv_app_nth)
  from Suc.IH [OF step(2)] Suc.prems ip v scan_frame_simps(1) [OF f2]
  obtain bs where bs: "scan_frame w2 w'" "bmt_tbl (bbt (bmtd w')) = bmt_tbl (bbt (bmtd w))" "length bs = n"
    "bb_tbl (bbt (bmtd w')) = take (Suc i) (?T[i := v]) @ bs @ drop (Suc i + n) (?T[i := v])"
    "sorted_wrt (<) (v # bs)" "\<forall>u\<in>set bs. u < total_blks (bmtd w)"
    by (auto simp: t2 simp del: take_Suc)
  show ?case
    using bs scan_frame_trans [OF f2 bs(1)] v unfolding tk
    by (intro conjI exI [of _ "v # bs"]) auto
qed

lemma scan_pool_spec:
  assumes "scan_pool D block i w = (i', w')" and "i + (total_blks (bmtd w) - block) \<le> length (bmt_tbl (bbt (bmtd w)))"
  shows "scan_frame w w' \<and> bb_tbl (bbt (bmtd w')) = bb_tbl (bbt (bmtd w)) \<and>
    (\<exists>bs. i' = i + length bs \<and> bmt_tbl (bbt (bmtd w')) = take i (bmt_tbl (bbt (bmtd w))) @
        map (\<lambda>v. \<lparr>bm_block = v, bm_mapped = NO_MAPPED\<rparr>) bs @ drop i' (bmt_tbl (bbt (bmtd w))) \<and>
      length bs \<le> total_blks (bmtd w) - block \<and>
      sorted_wrt (<) bs \<and> (\<forall>v\<in>set bs. v \<noteq> 0 \<and> block \<le> v \<and> v < total_blks (bmtd w)))"
  using assms
proof (induction D block i w rule: scan_pool.induct)
  case (1 D block i w)
  let ?M = "bmt_tbl (bbt (bmtd w))"
  obtain v w1 where fv: "find_valid_block D block w = (v, w1)" by fastforce
  note spec = find_valid_block_spec [OF fv]
  note f1 = scan_frame_buf [OF spec(1)]
  show ?case
  proof (cases "v = 0")
    case True
    with "1.prems"(1) fv have "i' = i" "w' = w1" by (auto simp: scan_pool.simps [of D block i w])
    with f1 find_valid_block_bbt [OF fv] show ?thesis by auto
  next
    case False
    let ?e = "\<lparr>bm_block = v, bm_mapped = NO_MAPPED\<rparr>"
    define w2 where "w2 = set_bbt (set_bmt_entry i ?e) w1"
    have sc: "scan_pool D (v + 1) (i + 1) w2 = (i', w')"
      using False "1.prems"(1) fv by (simp add: scan_pool.simps [of D block i w] w2_def)
    have f2: "scan_frame w w2" using scan_frame_trans [OF f1] by (simp add: w2_def)
    have t2: "bb_tbl (bbt (bmtd w2)) = bb_tbl (bbt (bmtd w))" "bmt_tbl (bbt (bmtd w2)) = ?M[i := ?e]"
      using find_valid_block_bbt [OF fv] by (simp_all add: set_bmt_entry_def w2_def)
    have v: "block \<le> v" "v < total_blks (bmtd w)" using spec(2) [OF False] by simp_all
    have il: "i < length ?M" using v "1.prems"(2) by simp
    have tk: "take (Suc i) (?M[i := ?e]) = take i ?M @ [?e]" using il by (simp add: take_Suc_conv_app_nth)
    have "i + 1 + (total_blks (bmtd w2) - (v + 1)) \<le> length (bmt_tbl (bbt (bmtd w2)))"
      using "1.prems"(2) v scan_frame_simps(1) [OF f2] t2 by simp
    from "1.IH" [OF fv [symmetric] False, folded w2_def, OF sc this]
    obtain bs where bs: "scan_frame w2 w'" "bb_tbl (bbt (bmtd w')) = bb_tbl (bbt (bmtd w))" "i' = Suc i + length bs"
      "bmt_tbl (bbt (bmtd w')) = take (Suc i) (?M[i := ?e]) @
         map (\<lambda>v. \<lparr>bm_block = v, bm_mapped = NO_MAPPED\<rparr>) bs @ drop i' (?M[i := ?e])"
      "length bs \<le> total_blks (bmtd w) - (v + 1)" "sorted_wrt (<) bs"
      "\<forall>u\<in>set bs. u \<noteq> 0 \<and> v + 1 \<le> u \<and> u < total_blks (bmtd w)"
      by (auto simp: t2 scan_frame_simps(1) [OF f2] simp del: take_Suc)
    show ?thesis
      using bs scan_frame_trans [OF f2 bs(1)] v False unfolding tk
      by (intro conjI exI [of _ "v # bs"]) auto
  qed
qed

lemma scan_bad_blocks_result:
  assumes sc: "scan_bad_blocks D w = (0, w')" and p: "0 < pool_lba (bmtd w)" and N: "0 < total_blks (bmtd w)"
    and len: "pool_lba (bmtd w) \<le> length (bb_tbl (bbt (bmtd w)))"
    and tb: "total_blks (bmtd w) < 65536" and pl: "total_blks (bmtd w) \<le> length (bmt_tbl (bbt (bmtd w)))"
  obtains ms bs where "v2_main (bmtd w') = 0 # ms" and "bs \<noteq> []"
    and "sorted_wrt (<) (0 # ms @ bs)" and "\<forall>v\<in>set (ms @ bs). v < total_blks (bmtd w)"
    and "bmt_blk_idx (bmtd w') = length bs - 1"
    and "bmt_tbl (bbt (bmtd w')) = map (\<lambda>v. \<lparr>bm_block = v, bm_mapped = NO_MAPPED\<rparr>) (butlast bs) @
       \<lparr>bm_block = last bs, bm_mapped = BMT_MAPPED\<rparr> # drop (length bs) (bmt_tbl (bbt (bmtd w)))"
    and "mtd w' = mtd w" and "total_blks (bmtd w') = total_blks (bmtd w)"
    and "pool_lba (bmtd w') = pool_lba (bmtd w)"
    and "length (bb_tbl (bbt (bmtd w'))) = length (bb_tbl (bbt (bmtd w)))"
proof -
  let ?P = "pool_lba (bmtd w)" and ?T = "bb_tbl (bbt (bmtd w))" and ?N = "total_blks (bmtd w)"
  define w0 where "w0 = set_bbt (set_bb_tbl 0 0) w"
  have f0: "scan_frame w w0" and t0: "bb_tbl (bbt (bmtd w0)) = ?T[0 := 0]"
    and m0: "bmt_tbl (bbt (bmtd w0)) = bmt_tbl (bbt (bmtd w))" by (simp_all add: w0_def)
  obtain ok w1 where s1: "scan_bb_tbl D (?P - Suc 0) (Suc 0) w0 = (ok, w1)" by fastforce
  define last1 where "last1 = arr_get 0 (bb_tbl (bbt (bmtd w1))) (?P - Suc 0)"
  define w2 where "w2 = w1\<lparr>bmtd := (bmtd w1)\<lparr>pool_pba := u16 (last1 + 1)\<rparr>\<rparr>"
  obtain i w3 where s3: "scan_pool D (pool_pba (bmtd w2)) 0 w2 = (i, w3)" by fastforce
  let ?idx = "u16_of_int (int i - 1)"
  let ?w4 = "set_bbt (\<lambda>t. set_bmt_entry ?idx ((bmt_entry t ?idx)\<lparr>bm_mapped := BMT_MAPPED\<rparr>) t)
    (w3\<lparr>bmtd := (bmtd w3)\<lparr>bmt_blk_idx := ?idx\<rparr>\<rparr>)"
  have mx: "max (Suc 0) ?P - Suc 0 = ?P - Suc 0" using p by simp
  have ok: "ok" and i1: "\<not> i < 1" and w': "w' = ?w4"
    using sc p unfolding scan_bad_blocks_def w0_def [symmetric]
    by (auto simp: s1 Let_def mx last1_def [symmetric] s3 [unfolded w2_def, simplified] split: if_splits)
  have l0: "0 < length ?T" using p len by (rule order_less_le_trans)
  then have tl: "?T[0 := 0] ! 0 = 0" by simp
  have "scan_bb_tbl D (?P - Suc 0) (Suc 0) w0 = (True, w1)" using s1 ok by simp
  from scan_bb_tbl_spec [OF this] tl p len tb N scan_frame_simps [OF f0]
  obtain ms where f1: "scan_frame w0 w1" and m1: "bmt_tbl (bbt (bmtd w1)) = bmt_tbl (bbt (bmtd w))"
    and ms: "length ms = ?P - Suc 0" "bb_tbl (bbt (bmtd w1)) = take (Suc 0) (?T[0 := 0]) @ ms @ drop ?P (?T[0 := 0])"
      "sorted_wrt (<) (0 # ms)" "\<forall>v\<in>set ms. v < ?N"
    by (auto simp: t0 m0)
  have T1: "bb_tbl (bbt (bmtd w1)) = 0 # ms @ drop ?P ?T" using ms p l0 by (cases ?T) (auto simp: drop_Cons')
  then have last1: "last1 = last (0 # ms)"
    using ms(1) p by (cases ms rule: rev_cases) (auto simp: last1_def nth_append nth_Cons')
  then have l1: "last1 < ?N" using ms(4) N by (auto simp: last_in_set)
  have f2: "total_blks (bmtd w2) = ?N" "pool_lba (bmtd w2) = ?P" "mtd w2 = mtd w"
     "pool_pba (bmtd w2) = Suc last1" "bmt_tbl (bbt (bmtd w2)) = bmt_tbl (bbt (bmtd w))"
     "bb_tbl (bbt (bmtd w2)) = 0 # ms @ drop ?P ?T"
    using scan_frame_trans [OF f0 f1] m1 T1 l1 tb by (auto simp: w2_def scan_frame_def)
  from scan_pool_spec [OF s3] f2 pl
  obtain bs where f3: "scan_frame w2 w3" and b3: "bb_tbl (bbt (bmtd w3)) = 0 # ms @ drop ?P ?T"
    and bs: "i = length bs" "bmt_tbl (bbt (bmtd w3)) = map (\<lambda>v. \<lparr>bm_block = v, bm_mapped = NO_MAPPED\<rparr>) bs @
        drop i (bmt_tbl (bbt (bmtd w)))" "length bs \<le> ?N"
      "sorted_wrt (<) bs" "\<forall>v\<in>set bs. v \<noteq> 0 \<and> Suc last1 \<le> v \<and> v < ?N"
    by fastforce
  have ne: "bs \<noteq> []" using i1 bs(1) by auto
  have idx: "?idx = length bs - 1" using ne bs(1,3) tb by (cases bs) auto
  show thesis
  proof (rule that [of ms bs])
    show "v2_main (bmtd w') = 0 # ms"
      using b3 ms(1) p f3 f2(2) by (auto simp: w' v2_main_def set_bbt_def set_bmt_entry_def scan_frame_def take_Cons')
    show "bmt_tbl (bbt (bmtd w')) = map (\<lambda>v. \<lparr>bm_block = v, bm_mapped = NO_MAPPED\<rparr>) (butlast bs) @
       \<lparr>bm_block = last bs, bm_mapped = BMT_MAPPED\<rparr> # drop (length bs) (bmt_tbl (bbt (bmtd w)))"
      using ne bs(1,2) unfolding w' idx
      by (cases bs rule: rev_cases) (auto simp: set_bbt_def set_bmt_entry_def bmt_entry_def arr_get_def nth_append list_update_append)
    have "\<forall>u\<in>set (0 # ms). u \<le> last1"
      unfolding last1 using ms(3) sorted_wrt_le_last by blast
    then show "sorted_wrt (<) (0 # ms @ bs)"
      using ms(3) bs(4,5) by (fastforce simp: sorted_wrt_append)
    show "length (bb_tbl (bbt (bmtd w'))) = length ?T"
      using b3 ms(1) p len by (simp add: w' set_bbt_def set_bmt_entry_def)
  qed (use ne ms(4) bs(5) idx f3 f2 in \<open>auto simp: w' set_bbt_def scan_frame_def\<close>)
qed


lemma v2_tables_from_scan:
  assumes "v2_main b = 0 # ms" and "sorted_wrt (<) (0 # ms @ bs)" and "\<forall>v\<in>set (ms @ bs). v < total_blks b"
    and "bs \<noteq> []" and "bmt_tbl (bbt b) = map (\<lambda>v. \<lparr>bm_block = v, bm_mapped = NO_MAPPED\<rparr>) (butlast bs) @
       \<lparr>bm_block = last bs, bm_mapped = BMT_MAPPED\<rparr> # replicate n bbmt_zero"
    and "0 < total_blks b" and "pool_lba b \<le> length (bb_tbl (bbt b))"
  shows "v2_inv b" and "v2_inj b"
    and "map bm_block (take (length bs) (bmt_tbl (bbt b))) = bs"
proof -
  have bs: "bs = butlast bs @ [last bs]" using assms(4) by simp
  have mb: "map bm_block (bmt_tbl (bbt b)) = bs @ replicate n 0"
    unfolding assms(5) using assms(4) by (simp add: comp_def bbmt_zero_def)
  have ent: "bm_block (bmt_entry (bbt b) i) = (if i < length bs then bs ! i else 0)" for i
    using arg_cong [OF mb, of "\<lambda>xs. arr_get 0 xs i"]
    by (auto simp: bmt_entry_def arr_get_def bbmt_zero_def nth_append split: if_splits)
  have d: "distinct (0 # ms @ bs)" using assms(2) by (auto simp: strict_sorted_iff)
  show "v2_inv b"
    using assms by (auto simp: v2_inv_def ent)
  show "v2_inj b"
    using d assms(1) by (auto simp: v2_inj_def ent nth_eq_iff_index_eq)
  show "map bm_block (take (length bs) (bmt_tbl (bbt b))) = bs"
    using mb by (simp add: take_map [symmetric])
qed

section \<open>Properties\<close>

text \<open>
  C3. A successful scan over a cleared pool table builds tables without a double use: the main
  table starts with block 0 and is strictly increasing, the pool up to the block of the stored table continues it
  strictly increasing, so every later use of the tables starts from \<open>v2_inv\<close> and \<open>v2_inj\<close>.
\<close>

theorem v2_scan_builds_tables:
  assumes "fst (scan_bad_blocks D w) = 0" and "0 < pool_lba (bmtd w)" and "0 < total_blks (bmtd w)"
    and "pool_lba (bmtd w) \<le> length (bb_tbl (bbt (bmtd w)))" and "total_blks (bmtd w) < 65536"
    and "bmt_tbl (bbt (bmtd w)) = replicate n bbmt_zero" and "total_blks (bmtd w) \<le> n"
  shows "let b = bmtd (snd (scan_bad_blocks D w)) in
    v2_inv b \<and> v2_inj b \<and> hd (v2_main b) = 0 \<and> bm_mapped (bmt_entry (bbt b) (bmt_blk_idx b)) = BMT_MAPPED \<and>
    sorted_wrt (<) (v2_main b @ map bm_block (take (Suc (bmt_blk_idx b)) (bmt_tbl (bbt b))))"
proof -
  obtain w' where sc: "scan_bad_blocks D w = (0, w')" using assms(1) by (metis prod.collapse)
  obtain ms bs where *: "v2_main (bmtd w') = 0 # ms" "bs \<noteq> []" "sorted_wrt (<) (0 # ms @ bs)"
    "\<forall>v\<in>set (ms @ bs). v < total_blks (bmtd w')" "bmt_blk_idx (bmtd w') = length bs - 1"
    "bmt_tbl (bbt (bmtd w')) = map (\<lambda>v. \<lparr>bm_block = v, bm_mapped = NO_MAPPED\<rparr>) (butlast bs) @
       \<lparr>bm_block = last bs, bm_mapped = BMT_MAPPED\<rparr> # replicate (n - length bs) bbmt_zero"
    "0 < total_blks (bmtd w')" "pool_lba (bmtd w') \<le> length (bb_tbl (bbt (bmtd w')))"
    using scan_bad_blocks_result [OF sc assms(2,3,4,5)] assms by (metis drop_replicate length_replicate)
  note t = v2_tables_from_scan [OF *(1,3,4,2,6,7,8)]
  have "bm_mapped (bmt_entry (bbt (bmtd w')) (length bs - 1)) = BMT_MAPPED"
    using *(2) by (simp add: bmt_entry_def *(6) nth_append)
  with t * show ?thesis by (simp add: sc)
qed

text \<open>A chip of eight blocks of two two-byte pages, for evaluation; the pool starts at block 3.\<close>

definition ex_v2_tables :: bbbt where
  "ex_v2_tables = \<lparr>bb_signature = [], bb_version = 0, bb_tbl = [9, 9, 9, 9], bmt_tbl = replicate 8 bbmt_zero\<rparr>"

definition ex_v2 :: bmt_desc where
  "ex_v2 = bmtd_zero\<lparr>attached := True, ops_sig := v2_sig, pg_size := 2, pg_shift := 1, blk_size := 4,
     blk_shift := 2, total_blks := 8, pool_lba := 3, bb_max := 1, table_size := 4, bmt_pgs := 1,
     bbt := ex_v2_tables\<rparr>"

lemma find_valid_block_log:
  "find_valid_block log_drv block w = (if block < total_blks (bmtd w)
     then (block, w\<lparr>dev := dev w @ [Ev_read (u32 (blk_pg (bmtd w) block * 2 ^ pg_shift (bmtd w))) 4],
       bmtd := (bmtd w)\<lparr>data_buf := fill_front (replicate (pg_size (bmtd w)) 0xff) (data_buf (bmtd w))\<rparr>\<rparr>)
     else (0, w))"
  by (simp add: find_valid_block_def find_valid_block_loop.simps [of _ "bb_max (bmtd w)"] bbt_nand_read_def
    log_drv_def oob_request_def Let_def)

lemma fst_scan_ex: "fst (scan_bad_blocks log_drv \<lparr>dev = [], mtd = ex_mtd, bmtd = ex_v2\<rparr>) = 0"
  by (simp add: scan_bad_blocks_def ex_v2_def ex_v2_tables_def Let_def numeral_2_eq_2
    scan_pool.simps find_valid_block_log set_bbt_def set_bb_tbl_def set_bmt_entry_def)


theorem v2_scan_builds_tables_witness:
  "let b = bmtd (snd (scan_bad_blocks log_drv \<lparr>dev = [], mtd = ex_mtd, bmtd = ex_v2\<rparr>)) in
   v2_inj b \<and> hd (v2_main b) = 0"
  using v2_scan_builds_tables [OF fst_scan_ex, of 8]
  by (simp add: ex_v2_def ex_v2_tables_def Let_def)

text \<open>
  C2. Remapping never makes two main blocks share a physical block: \<open>v2_inj\<close> is kept, whatever
  fails while the tables are stored, and after a success the remapped main block is on a block
  that no main block used before, while every other main block stays where it was.
\<close>

theorem v2_remap_keeps_distinct:
  assumes "v2_inj (bmtd w)" and "v2_inv (bmtd w)" and "block < pool_lba (bmtd w)"
    and "remap_block_v2 D block mapped n w = (r, w')"
  shows "v2_inj (bmtd w') \<and> v2_main (bmtd w') = (if r then (v2_main (bmtd w))[block := v2_main (bmtd w') ! block]
      else v2_main (bmtd w)) \<and>
    (r \<longrightarrow> v2_main (bmtd w') ! block \<notin> set (v2_main (bmtd w)))"
  using assms(4)
proof (cases rule: remap_block_v2_effect)
  case full
  with assms show ?thesis by simp
next
  case (moved i k t x idx)
  have main: "v2_main (bmtd w') = (v2_main (bmtd w))[block := bm_block (bmt_entry (bbt (bmtd w)) i)]"
    using moved by (simp add: v2_main_def gave_up_def take_update_swap)
  moreover have "block < length (v2_main (bmtd w))" using assms(2,3) by (simp add: v2_main_def v2_inv_def)
  moreover have "bm_block (bmt_entry (bbt (bmtd w)) i) \<notin> set (v2_main (bmtd w))"
    using assms(1) moved by (simp add: v2_inj_def)
  ultimately show ?thesis using moved(1) v2_remap_keeps_inj_aux [OF assms(1,4)] by simp
qed

definition ex_v2_ready :: bmt_desc where
  "ex_v2_ready = ex_v2\<lparr>bmt_blk_idx := 2, bbt := ex_v2_tables\<lparr>bb_tbl := [0, 1, 2, 9],
     bmt_tbl := [\<lparr>bm_block = 3, bm_mapped = NO_MAPPED\<rparr>, \<lparr>bm_block = 4, bm_mapped = NO_MAPPED\<rparr>,
       \<lparr>bm_block = 5, bm_mapped = BMT_MAPPED\<rparr>]\<rparr>\<rparr>"

lemma ex_v2_ready_entry:
  "bmt_entry (bbt ex_v2_ready) i = (if i = 0 then \<lparr>bm_block = 3, bm_mapped = NO_MAPPED\<rparr>
     else if i = 1 then \<lparr>bm_block = 4, bm_mapped = NO_MAPPED\<rparr>
     else if i = 2 then \<lparr>bm_block = 5, bm_mapped = BMT_MAPPED\<rparr> else bbmt_zero)"
  by (auto simp: bmt_entry_def ex_v2_ready_def arr_get_def nth_Cons' less_Suc_eq)

lemma ex_v2_ready_main: "v2_main ex_v2_ready = [0, 1, 2]"
  by (simp add: v2_main_def ex_v2_ready_def ex_v2_def)

lemma ex_v2_ready_ok: "v2_inv ex_v2_ready" "v2_inj ex_v2_ready"
  by (auto simp: v2_inv_def v2_inj_def ex_v2_ready_main ex_v2_ready_entry bbmt_zero_def)
    (simp_all add: ex_v2_ready_def ex_v2_def)

theorem v2_remap_keeps_distinct_witness:
  "let (r, w') = remap_block_v2 log_drv 1 1 4 \<lparr>dev = [], mtd = ex_mtd, bmtd = ex_v2_ready\<rparr>
   in v2_inj (bmtd w') \<and> (r \<longrightarrow> v2_main (bmtd w') ! 1 \<notin> {0, 1, 2})"
proof -
  let ?w = "\<lparr>dev = [], mtd = ex_mtd, bmtd = ex_v2_ready\<rparr>"
  obtain r w' where eq: "remap_block_v2 log_drv 1 1 4 ?w = (r, w')" by fastforce
  have "1 < pool_lba (bmtd ?w)" by (simp add: ex_v2_ready_def ex_v2_def)
  from v2_remap_keeps_distinct [OF _ _ this eq] eq show ?thesis by (simp add: ex_v2_ready_ok ex_v2_ready_main)
qed

lemma u16s_roundtrip: "\<forall>v\<in>set xs. v < 65536 \<Longrightarrow> u16s_of_bytes (concat (map le16 xs)) = xs"
  by (induction xs) (simp_all add: le16_def bytes16 del: mod_less)

lemma bbmts_roundtrip:
  "\<forall>e\<in>set es. bm_block e < 65536 \<and> bm_mapped e < 65536 \<Longrightarrow> bbmts_of_bytes (concat (map bbmt_bytes es)) = es"
  by (induction es) (simp_all add: bbmt_bytes_def le16_def bytes16)

text \<open>The two directions of the cast fit together, on tables of the given size whose entries fit their 16 bits.\<close>

lemma v2_tables_roundtrip:
  assumes "length (bb_signature t) = 3" and "bb_version t < 256" and "length (bb_tbl t) = n"
    and "\<forall>v\<in>set (bb_tbl t). v < 65536" and "\<forall>e\<in>set (bmt_tbl t). bm_block e < 65536 \<and> bm_mapped e < 65536"
  shows "bbbt_of_bytes n (bbbt_bytes t) = t"
proof -
  have l: "length (concat (map le16 (bb_tbl t))) = 2 * n"
    using concat_map_length_const [of le16 2 "bb_tbl t"] assms(3) by simp
  have "u16s_of_bytes (take (2 * n) (drop 4 (bbbt_bytes t))) = bb_tbl t"
    using assms(1,4) l by (simp add: bbbt_bytes_def u16s_roundtrip)
  moreover have "bbmts_of_bytes (drop (4 + 2 * n) (bbbt_bytes t)) = bmt_tbl t"
    using assms(1,5) l by (simp add: bbbt_bytes_def bbmts_roundtrip)
  ultimately show ?thesis
    using assms(1,2) by (simp add: bbbt_of_bytes_def) (simp add: bbbt_bytes_def nth_append)
qed

lemma get_bmt_index_from_none:
  "bm_block (arr_get bbmt_zero es p) = 0 \<Longrightarrow> \<forall>i<p. bm_mapped (arr_get bbmt_zero es i) \<noteq> BMT_MAPPED \<Longrightarrow>
   get_bmt_index_from j es = 0"
proof (induction es arbitrary: p j)
  case (Cons e es)
  show ?case
  proof (cases p)
    case 0
    with Cons.prems show ?thesis by simp
  next
    case (Suc q)
    with Cons.prems have "bm_mapped e \<noteq> BMT_MAPPED" "\<forall>i<q. bm_mapped (arr_get bbmt_zero es i) \<noteq> BMT_MAPPED"
      by (auto dest: spec [of _ 0] spec [of _ "Suc _"])
    with Cons.IH [of q] Cons.prems(1) Suc show ?thesis by simp
  qed
qed simp

text \<open>
  Undoing a remapping can make two logical blocks share a physical block: unmapping \<open>block\<close>
  points it at the physical block of its own number, also when the scan gave that block to
  another logical block \<open>j\<close> (it does as soon as one block before it is bad).
\<close>

theorem v2_unmap_can_alias:
  assumes "block < pool_lba (bmtd w)" and "j < pool_lba (bmtd w)" and "j \<noteq> block"
    and "pool_lba (bmtd w) \<le> length (bb_tbl (bbt (bmtd w)))" and "bb_tbl (bbt (bmtd w)) ! j = block"
    and "remap_range (bmtd w) = None"
  shows "get_mapping_block_index_v2 (bmtd (unmap_block_v2 D block w)) block = int block \<and>
    get_mapping_block_index_v2 (bmtd (unmap_block_v2 D block w)) j = int block"
proof -
  let ?w = "set_bbt (set_bb_tbl block block) w"
  obtain k t idx where up: "gave_up k (Suc (bmt_blk_idx (bmtd ?w))) (bbt (bmtd ?w)) t"
    "bmtd (upload_current D ?w) = (bmtd ?w)\<lparr>bbt := t, bmt_blk_idx := idx\<rparr>"
    by (rule upload_current_effect)
  have "bb_tbl t = (bb_tbl (bbt (bmtd w)))[block := block]" using up(1) by (simp add: gave_up_def)
  with up(2) assms show ?thesis
    by (simp add: unmap_block_v2_def get_mapping_block_index_v2_def mapping_block_in_range_def set_bbt_def)
qed

theorem v2_unmap_can_alias_witness:
  "let b = bmtd (unmap_block_v2 log_drv 2 \<lparr>dev = [], mtd = ex_mtd, bmtd = ex_v2_ready\<lparr>bbt := (bbt ex_v2_ready)\<lparr>bb_tbl := [0, 2, 3, 9]\<rparr>\<rparr>\<rparr>)
   in get_mapping_block_index_v2 b 1 = get_mapping_block_index_v2 b 2"
  using v2_unmap_can_alias [of 2 "\<lparr>dev = [], mtd = ex_mtd, bmtd = ex_v2_ready\<lparr>bbt := (bbt ex_v2_ready)\<lparr>bb_tbl := [0, 2, 3, 9]\<rparr>\<rparr>\<rparr>" 1 log_drv]
  by (simp add: ex_v2_ready_def ex_v2_def bmtd_zero_def)

lemma free_unused_entry:
  "distinct is \<Longrightarrow> bmt_entry (snd (free_unused used is t)) i =
     (if i \<in> set is \<and> bm_mapped (bmt_entry t i) = NORMAL_MAPPED \<and> i \<notin> set used
      then (bmt_entry t i)\<lparr>bm_mapped := NO_MAPPED\<rparr> else bmt_entry t i)"
proof (induction used "is" t rule: free_unused.induct)
  case (2 used j js t)
  show ?case
  proof (cases "bm_mapped (bmt_entry t j) \<noteq> NORMAL_MAPPED \<or> j \<in> set used")
    case True
    with 2 show ?thesis by auto
  next
    case False
    then have "j < length (bmt_tbl t)" by (auto simp: bmt_entry_def arr_get_def bbmt_zero_def split: if_splits)
    with 2 False show ?thesis by (auto simp: Let_def split_beta)
  qed
qed simp

text \<open>
  The debugfs command 100 frees exactly the mapped pool entries, up to the table's own, that
  none of the main blocks \<open>1 .. main_blocks - 1\<close> is found to use; the marks of all other entries stay.
\<close>

theorem v2_debug_frees_unused:
  "bm_mapped (bmt_entry (bbt (bmtd (snd (mtk_bmt_debug_v2 D True 100 w)))) i) =
     (if i \<le> bmt_blk_idx (bmtd w) \<and> bm_mapped (bmt_entry (bbt (bmtd w)) i) = NORMAL_MAPPED \<and>
        (\<forall>j\<in>{1..<mtd_size (mtd w) div 2 ^ blk_shift (bmtd w)}.
           arr_get 0 (bb_tbl (bbt (bmtd w))) j \<noteq> j \<longrightarrow>
           first_entry (bbt (bmtd w)) (bmt_blk_idx (bmtd w)) (arr_get 0 (bb_tbl (bbt (bmtd w))) j) \<noteq> Some i)
      then NO_MAPPED else bm_mapped (bmt_entry (bbt (bmtd w)) i))"
  (is "_ = (if ?free then _ else _)")
proof -
  let ?t = "bbt (bmtd w)" and ?n = "Suc (bmt_blk_idx (bmtd w))"
  let ?u = "mtk_bmt_get_mapping_mask w"
  obtain c t where fr: "free_unused ?u [0..<?n] ?t = (c, t)" by fastforce
  have used: "i \<in> set ?u \<longleftrightarrow> (\<exists>j\<in>{1..<mtd_size (mtd w) div 2 ^ blk_shift (bmtd w)}.
      arr_get 0 (bb_tbl ?t) j \<noteq> j \<and> first_entry ?t (bmt_blk_idx (bmtd w)) (arr_get 0 (bb_tbl ?t) j) = Some i)"
    by (auto simp: mtk_bmt_get_mapping_mask_def Let_def map_filter_def split: if_splits) force
  have e: "bm_mapped (bmt_entry t i) = (if ?free then NO_MAPPED else bm_mapped (bmt_entry ?t i))"
    using free_unused_entry [of "[0..<?n]" ?u ?t i] fr used by auto
  let ?w1 = "set_bbt (\<lambda>_. t) w"
  obtain k t' idx where up: "gave_up k (Suc (bmt_blk_idx (bmtd ?w1))) (bbt (bmtd ?w1)) t'"
    "bmtd (upload_current D ?w1) = (bmtd ?w1)\<lparr>bbt := t', bmt_blk_idx := idx\<rparr>"
    by (rule upload_current_effect)
  have "bm_mapped (bmt_entry t' i) = bm_mapped (bmt_entry t i)" using up(1) by (simp add: gave_up_def)
  then show ?thesis using fr up(2) by (auto simp add: mtk_bmt_debug_v2_def Let_def e simp del: upt_Suc)
qed

definition ex_v2_freed :: bmt_desc where
  "ex_v2_freed = ex_v2_ready\<lparr>bbt := set_bmt_entry 0 \<lparr>bm_block = 3, bm_mapped = NORMAL_MAPPED\<rparr> (bbt ex_v2_ready)\<rparr>"

theorem v2_debug_frees_unused_witness:
  "bm_mapped (bmt_entry (bbt ex_v2_freed) 0) = NORMAL_MAPPED \<and>
   bm_mapped (bmt_entry (bbt (bmtd (snd (mtk_bmt_debug_v2 log_drv True 100
     \<lparr>dev = [], mtd = ex_mtd\<lparr>mtd_size := 8\<rparr>, bmtd = ex_v2_freed\<rparr>)))) 0) = NO_MAPPED"
  unfolding v2_debug_frees_unused
  by (auto simp: ex_v2_freed_def ex_v2_ready_def ex_v2_def bmt_entry_def set_bmt_entry_def)

text \<open>
  A read of data bytes through the layer over this back end returns within \<open>11 * len + 11\<close>
  rounds, keeps the tables in the chip, and a result that is not negative means that all bytes
  were delivered.
\<close>

theorem v2_read_returns:
  assumes "v2_inv (bmtd w)" and "geom_ok w" and "drv_read_full D"
    and "fr + oo_len ops \<le> chip_size w" and "oo_len ops < 4294967296" and "oo_ooblen ops = 0"
    and "11 * oo_len ops + 10 < fuel"
  shows "\<exists>r ops' w'. mtk_bmt_read fuel D (mtk_bmt_v2_ops D) fr ops w = Some (r, ops', w') \<and>
    v2_inv (bmtd w') \<and> geom w' = geom w \<and> length (oo_datbuf ops') = oo_retlen ops' \<and>
    (0 \<le> r \<longrightarrow> oo_retlen ops' = oo_len ops)"
  using v2.read_returns [OF assms] .

lemma ex_v2_geom: "geom_ok \<lparr>dev = d, mtd = ex_mtd\<lparr>erasesize := 4\<rparr>, bmtd = ex_v2_ready\<rparr>"
  "chip_size \<lparr>dev = d, mtd = ex_mtd\<lparr>erasesize := 4\<rparr>, bmtd = ex_v2_ready\<rparr> = 32"
  by (simp_all add: geom_ok_def chip_size_def ex_v2_ready_def ex_v2_def)

theorem v2_read_returns_witness:
  "\<exists>r ops' w'. mtk_bmt_read 100 log_drv (mtk_bmt_v2_ops log_drv) 6 (oob_request 8 0 0 [] [])
     \<lparr>dev = [], mtd = ex_mtd\<lparr>erasesize := 4\<rparr>, bmtd = ex_v2_ready\<rparr> = Some (r, ops', w') \<and>
     (0 \<le> r \<longrightarrow> oo_retlen ops' = 8)"
proof -
  have "drv_read_full log_drv" by (simp add: drv_read_full_def log_drv_def)
  from v2_read_returns [OF _ ex_v2_geom(1) this, of "[]" 6 "oob_request 8 0 0 [] []" 100]
  show ?thesis by (auto simp: ex_v2_ready_ok ex_v2_geom oob_request_def)
qed

text \<open>
  An erase through the layer over this back end returns, and its result tells whether it
  finished: it stopped before the end exactly when it reports a failure.
\<close>

theorem v2_erase_returns:
  assumes "v2_inv (bmtd w)" and "geom_ok w" and "addr + ln \<le> chip_size w"
    and "11 * (addr + ln) + 10 < fuel"
  shows "\<exists>r a' w'. mtk_bmt_mtd_erase fuel D (mtk_bmt_v2_ops D) uninit addr ln w = Some (r, a', w') \<and>
    v2_inv (bmtd w') \<and> geom w' = geom w \<and> (a' < addr + ln \<longrightarrow> r \<noteq> 0) \<and>
    (0 < ln \<and> addr + ln \<le> a' \<longrightarrow> r = 0)"
  using v2.erase_returns [OF assms] .

theorem v2_erase_returns_witness:
  "\<exists>r a' w'. mtk_bmt_mtd_erase 200 (worn_drv 4) (mtk_bmt_v2_ops (worn_drv 4)) 0 4 8
     \<lparr>dev = [], mtd = ex_mtd\<lparr>erasesize := 4\<rparr>, bmtd = ex_v2_ready\<rparr> = Some (r, a', w') \<and>
     (a' < 12 \<longrightarrow> r \<noteq> 0) \<and> (12 \<le> a' \<longrightarrow> r = 0)"
  using v2_erase_returns [OF _ ex_v2_geom(1), of "[]" 4 8 200 "worn_drv 4" 0]
  by (auto simp: ex_v2_ready_ok ex_v2_geom)

end
