(* ===== verification/Nmbm_State.thy ===== *)
theory Nmbm_State
  imports Bmt_Contract
begin

text \<open>
  The in-memory part of the NMBM back end (\<^verbatim>\<open>mtk_bmt_nmbm.c\<close>): the two-bit state of each block, the
  walks over good blocks, the initial scan and the initial mapping table.
\<close>

section \<open>State access\<close>

abbreviation (input) NI :: "'d bmt_world \<Rightarrow> nmbm_instance" where "NI w \<equiv> ni (bmtd w)"

definition set_ni :: "(nmbm_instance \<Rightarrow> nmbm_instance) \<Rightarrow> 'd bmt_world \<Rightarrow> 'd bmt_world" where
  "set_ni f w = w\<lparr>bmtd := (bmtd w)\<lparr>ni := f (ni (bmtd w))\<rparr>\<rparr>"

lemma set_ni_simps [simp]:
  "ni (bmtd (set_ni f w)) = f (ni (bmtd w))" "mtd (set_ni f w) = mtd w" "dev (set_ni f w) = dev w"
  "blk_shift (bmtd (set_ni f w)) = blk_shift (bmtd w)" "blk_size (bmtd (set_ni f w)) = blk_size (bmtd w)"
  "pg_size (bmtd (set_ni f w)) = pg_size (bmtd w)" "total_blks (bmtd (set_ni f w)) = total_blks (bmtd w)"
  "data_buf (bmtd (set_ni f w)) = data_buf (bmtd w)"
  by (simp_all add: set_ni_def)

lemma geom_set_ni [simp]: "geom (set_ni f w) = geom w"
  by (simp add: geom_def set_ni_def)

definition ba2addr :: "bmt_desc \<Rightarrow> nat \<Rightarrow> nat" where
  "ba2addr b ba = ba * 2 ^ blk_shift b"

definition size2blk :: "bmt_desc \<Rightarrow> nat \<Rightarrow> nat" where
  "size2blk b sz = u32 ((sz + blk_size b - 1) div 2 ^ blk_shift b)"

definition nmbm_get_spare_block_count :: "nat \<Rightarrow> nat" where
  "nmbm_get_spare_block_count blocks =
     (let val = (blocks + 1) div 2 in if val < 2 then 2 else val)"

section \<open>The state of a block\<close>

abbreviation (input) BLOCK_ST_BAD :: nat where "BLOCK_ST_BAD \<equiv> 0"
abbreviation (input) BLOCK_ST_NEED_REMAP :: nat where "BLOCK_ST_NEED_REMAP \<equiv> 2"
abbreviation (input) BLOCK_ST_GOOD :: nat where "BLOCK_ST_GOOD \<equiv> 3"

definition nmbm_get_block_state_raw :: "32 word list \<Rightarrow> nat \<Rightarrow> nat" where
  "nmbm_get_block_state_raw st ba = unat (drop_bit (ba mod 16 * 2) (arr_get 0 st (ba div 16)) AND 3)"

definition nmbm_get_block_state :: "nmbm_instance \<Rightarrow> nat \<Rightarrow> nat" where
  "nmbm_get_block_state n ba = nmbm_get_block_state_raw (block_state n) ba"

text \<open>The word that holds the new state: the two bits cleared and set.\<close>

definition state_word :: "32 word \<Rightarrow> nat \<Rightarrow> nat \<Rightarrow> 32 word" where
  "state_word v shift state = (v AND NOT (push_bit shift 3)) OR push_bit shift (of_nat state AND 3)"

definition nmbm_set_block_state :: "nat \<Rightarrow> nat \<Rightarrow> nmbm_instance \<Rightarrow> bool \<times> nmbm_instance" where
  "nmbm_set_block_state ba state n =
     (let unit = ba div 16; shift = ba mod 16 * 2;
          orig = nmbm_get_block_state_raw (block_state n) ba;
          n1 = n\<lparr>block_state := (block_state n)[unit := state_word (arr_get 0 (block_state n) unit) shift state]\<rparr>
      in if orig \<noteq> state mod 4
         then (True, n1\<lparr>block_state_changed := u32 (block_state_changed n + 1)\<rparr>)
         else (False, n1))"

definition set_bad :: "nat \<Rightarrow> 'd bmt_world \<Rightarrow> 'd bmt_world" where
  "set_bad ba = set_ni (\<lambda>n. snd (nmbm_set_block_state ba BLOCK_ST_BAD n))"

section \<open>Walking over good blocks\<close>

text \<open>The loops: \<open>n\<close> blocks are left before the limit.\<close>

fun walk_asc :: "nmbm_instance \<Rightarrow> nat \<Rightarrow> nat \<Rightarrow> int \<Rightarrow> nat option" where
  "walk_asc N 0 ba nblock = None"
| "walk_asc N (Suc n) ba nblock =
     (let nblock' = (if nmbm_get_block_state N ba = BLOCK_ST_GOOD then nblock - 1 else nblock)
      in if nblock' < 0 then Some ba else walk_asc N n (ba + 1) nblock')"

fun walk_desc :: "nmbm_instance \<Rightarrow> nat \<Rightarrow> nat \<Rightarrow> int \<Rightarrow> nat option" where
  "walk_desc N 0 ba nblock = None"
| "walk_desc N (Suc n) ba nblock =
     (let nblock' = (if nmbm_get_block_state N ba = BLOCK_ST_GOOD then nblock - 1 else nblock)
      in if nblock' < 0 then Some ba else walk_desc N n (ba - 1) nblock')"

definition walk_limit :: "nmbm_instance \<Rightarrow> nat \<Rightarrow> nat" where
  "walk_limit N limit = (if limit \<ge> block_count N then sub32 (block_count N) 1 else limit)"

definition nmbm_block_walk_asc :: "nmbm_instance \<Rightarrow> nat \<Rightarrow> nat \<Rightarrow> nat \<Rightarrow> nat option" where
  "nmbm_block_walk_asc N ba count limit = walk_asc N (walk_limit N limit - ba) ba (s32 count)"

definition nmbm_block_walk_desc :: "nmbm_instance \<Rightarrow> nat \<Rightarrow> nat \<Rightarrow> nat \<Rightarrow> nat option" where
  "nmbm_block_walk_desc N ba count limit = walk_desc N (ba - walk_limit N limit) ba (s32 count)"

definition nmbm_block_walk :: "nmbm_instance \<Rightarrow> bool \<Rightarrow> nat \<Rightarrow> nat \<Rightarrow> nat \<Rightarrow> nat option" where
  "nmbm_block_walk N ascending ba count limit =
     (if ascending then nmbm_block_walk_asc N ba count limit
      else nmbm_block_walk_desc N ba count limit)"

text \<open>
  \<^verbatim>\<open>nmbm_try_reserve_blocks\<close>: the loop variable is \<open>min_count + k - 1\<close>, \<open>k\<close> the number of
  attempts left.
\<close>

fun reserve_down :: "nmbm_instance \<Rightarrow> nat \<Rightarrow> int \<Rightarrow> nat \<Rightarrow> nat \<Rightarrow> nat option" where
  "reserve_down N ba min_count limit 0 = None"
| "reserve_down N ba min_count limit (Suc k) =
     (case nmbm_block_walk N True ba (u32_of_int (min_count + int k)) limit of
        Some nba \<Rightarrow> Some nba
      | None \<Rightarrow> reserve_down N ba min_count limit k)"

definition nmbm_try_reserve_blocks :: "nmbm_instance \<Rightarrow> nat \<Rightarrow> nat \<Rightarrow> int \<Rightarrow> nat \<Rightarrow> nat option" where
  "nmbm_try_reserve_blocks N ba count min_count limit =
     reserve_down N ba min_count limit (nat (s32 count - min_count + 1))"

section \<open>The initial tables\<close>

definition nmbm_check_bad_phys_block :: "'d nand_drv \<Rightarrow> nat \<Rightarrow> 'd bmt_world \<Rightarrow> bool \<times> 'd bmt_world" where
  "nmbm_check_bad_phys_block D ba w =
     (let (ret, d) = drv_block_isbad D (ba2addr (bmtd w) ba) (dev w) in (ret \<noteq> 0, w\<lparr>dev := d\<rparr>))"

definition nmbm_mark_phys_bad_block :: "'d nand_drv \<Rightarrow> nat \<Rightarrow> 'd bmt_world \<Rightarrow> int \<times> 'd bmt_world" where
  "nmbm_mark_phys_bad_block D ba w =
     (let (ret, d) = drv_block_markbad D (ba2addr (bmtd w) ba) (dev w) in (ret, w\<lparr>dev := d\<rparr>))"

fun scan_badblocks_from :: "'d nand_drv \<Rightarrow> nat \<Rightarrow> nat \<Rightarrow> 'd bmt_world \<Rightarrow> 'd bmt_world" where
  "scan_badblocks_from D 0 ba w = w"
| "scan_badblocks_from D (Suc n) ba w =
     (let (bad, w1) = nmbm_check_bad_phys_block D ba w
      in scan_badblocks_from D n (ba + 1) (if bad then set_bad ba w1 else w1))"

definition nmbm_scan_badblocks :: "'d nand_drv \<Rightarrow> 'd bmt_world \<Rightarrow> 'd bmt_world" where
  "nmbm_scan_badblocks D w = scan_badblocks_from D (block_count (NI w)) 0 w"

text \<open>The two loops of \<^verbatim>\<open>nmbm_build_mapping_table\<close>.\<close>

fun map_good :: "nmbm_instance \<Rightarrow> nat \<Rightarrow> nat \<Rightarrow> nat \<Rightarrow> int list \<Rightarrow> nat \<times> int list" where
  "map_good N 0 pb lb tbl = (lb, tbl)"
| "map_good N (Suc n) pb lb tbl =
     (if nmbm_get_block_state N pb = BLOCK_ST_BAD then map_good N n (pb + 1) lb tbl
      else map_good N n (pb + 1) (lb + 1) (tbl[lb := int pb]))"

fun map_rest :: "nat \<Rightarrow> nat \<Rightarrow> int list \<Rightarrow> int list" where
  "map_rest 0 pb tbl = tbl"
| "map_rest (Suc n) pb tbl = map_rest n (pb + 1) (tbl[pb := -1])"

definition nmbm_build_mapping_table :: "nmbm_instance \<Rightarrow> nmbm_instance" where
  "nmbm_build_mapping_table n =
     (let (lb, tbl) = map_good n (mgmt_start_ba n) 0 0 (block_mapping n)
      in n\<lparr>data_block_count := lb, block_mapping := map_rest (block_count n - lb) lb tbl\<rparr>)"

section \<open>The bitmap\<close>

lemma bit_3 [simp]: "bit (3 :: int) n \<longleftrightarrow> n < 2" "bit (3 :: nat) n \<longleftrightarrow> n < 2"
  using bit_mask_iff [where 'a = int, of 2 n] bit_mask_iff [where 'a = nat, of 2 n]
  by (simp_all add: mask_eq_exp_minus_1)

lemma bit_3_word [simp]: "bit (3 :: 32 word) n \<longleftrightarrow> n < 2"
  by (auto simp: bit_simps)

lemma state_word_field:
  assumes "k < 16" and "j < 16"
  shows "drop_bit (j * 2) (state_word v (k * 2) s) AND 3 =
    (if j = k then of_nat s AND 3 else drop_bit (j * 2) v AND 3)"
proof (rule bit_word_eqI)
  fix i :: nat
  assume i: "i < LENGTH(32)"
  show "bit (drop_bit (j * 2) (state_word v (k * 2) s) AND 3) i =
      bit (if j = k then of_nat s AND 3 else drop_bit (j * 2) v AND 3 :: 32 word) i"
  proof (cases "i < 2")
    case True
    have d: "k * 2 \<le> j * 2 + i \<and> j * 2 + i - k * 2 < 2 \<longleftrightarrow> j = k" using True by arith
    have l: "j * 2 + i < 32" using assms True by simp
    show ?thesis using True l d
      by (auto simp: state_word_def bit_simps)
  next
    case False
    then show ?thesis by (simp add: bit_simps)
  qed
qed

lemma get_block_state_raw_update:
  assumes "ba div 16 < length st"
  shows "nmbm_get_block_state_raw (st[ba div 16 := state_word (arr_get 0 st (ba div 16)) (ba mod 16 * 2) s]) x =
    (if x = ba then s mod 4 else nmbm_get_block_state_raw st x)"
proof -
  have m4: "unat (of_nat s AND 3 :: 32 word) = s mod 4"
  proof -
    have "(of_nat s AND 3 :: 32 word) = take_bit 2 (of_nat s)"
      by (simp add: take_bit_eq_mask mask_eq_exp_minus_1)
    then show ?thesis by (simp add: take_bit_eq_mod unat_mod_distrib unat_of_nat mod_mod_cancel)
  qed
  show ?thesis
  proof (cases "x div 16 = ba div 16")
    case True
    have "x mod 16 = ba mod 16 \<longleftrightarrow> x = ba" using True by (metis div_mult_mod_eq)
    with True assms state_word_field [of "ba mod 16" "x mod 16" "st ! (ba div 16)" s] m4 show ?thesis
      by (simp add: nmbm_get_block_state_raw_def arr_get_update)
  next
    case False
    then have "x \<noteq> ba" by auto
    with False show ?thesis by (simp add: nmbm_get_block_state_raw_def arr_get_update)
  qed
qed

lemma set_block_state_fields:
  "block_state (snd (nmbm_set_block_state ba s n)) =
     (block_state n)[ba div 16 := state_word (arr_get 0 (block_state n) (ba div 16)) (ba mod 16 * 2) s]"
  "fst (nmbm_set_block_state ba s n) \<longleftrightarrow> nmbm_get_block_state n ba \<noteq> s mod 4"
  "block_state_changed (snd (nmbm_set_block_state ba s n)) =
     (if nmbm_get_block_state n ba \<noteq> s mod 4 then u32 (block_state_changed n + 1) else block_state_changed n)"
  by (simp_all add: nmbm_set_block_state_def nmbm_get_block_state_def Let_def)

lemma get_set_block_state:
  assumes "ba div 16 < length (block_state n)"
  shows "nmbm_get_block_state (snd (nmbm_set_block_state ba s n)) x =
    (if x = ba then s mod 4 else nmbm_get_block_state n x)"
  using get_block_state_raw_update [OF assms] by (simp add: nmbm_get_block_state_def set_block_state_fields)

text \<open>Past the end of the table every block is bad, so a good block is a block of the table.\<close>

lemma good_in_table: "nmbm_get_block_state n ba \<noteq> 0 \<Longrightarrow> ba div 16 < length (block_state n)"
  by (rule ccontr) (simp add: nmbm_get_block_state_def nmbm_get_block_state_raw_def arr_get_out)

lemma set_bad_state:
  "nmbm_get_block_state (NI (set_bad ba w)) x = (if x = ba then 0 else nmbm_get_block_state (NI w) x)"
proof (cases "ba div 16 < length (block_state (NI w))")
  case True
  then show ?thesis by (simp add: set_bad_def get_set_block_state)
next
  case False
  then have "nmbm_get_block_state (NI w) ba = 0" using good_in_table by blast
  with False show ?thesis by (auto simp: set_bad_def nmbm_get_block_state_def set_block_state_fields list_update_beyond not_less)
qed

section \<open>The walks\<close>

text \<open>
  Both walks look for the good block number \<open>count\<close> (from 0) of the blocks they pass.
\<close>

abbreviation (input) is_good :: "nmbm_instance \<Rightarrow> nat \<Rightarrow> bool" where
  "is_good n ba \<equiv> nmbm_get_block_state n ba = BLOCK_ST_GOOD"

definition pick :: "'a list \<Rightarrow> nat \<Rightarrow> 'a option" where
  "pick xs k = (if k < length xs then Some (xs ! k) else None)"

lemma pick_Cons: "pick (x # xs) k = (case k of 0 \<Rightarrow> Some x | Suc j \<Rightarrow> pick xs j)"
  by (simp add: pick_def split: nat.split)

lemma walk_asc_spec: "walk_asc n k ba (int c) = pick (filter (is_good n) [ba..<ba + k]) c"
proof (induction k arbitrary: ba c)
  case (Suc k)
  have r: "[ba..<ba + Suc k] = ba # [Suc ba..<Suc ba + k]" by (simp add: upt_conv_Cons)
  show ?case
  proof (cases c)
    case 0
    with Suc [of "Suc ba" 0] show ?thesis unfolding r by (simp add: Let_def pick_Cons)
  next
    case (Suc j)
    with Suc.IH [of "Suc ba" j] Suc.IH [of "Suc ba" c] show ?thesis unfolding r by (simp add: Let_def pick_Cons)
  qed
qed (simp add: pick_def)

lemma walk_desc_spec:
  "k \<le> ba \<Longrightarrow> walk_desc n k ba (int c) = pick (filter (is_good n) (rev [Suc ba - k..<Suc ba])) c"
proof (induction k arbitrary: ba c)
  case (Suc k)
  then obtain b where b: "ba = Suc b" by (cases ba) auto
  have r: "rev [Suc ba - Suc k..<Suc ba] = ba # rev [ba - k..<ba]" using Suc.prems by simp
  have k: "k \<le> b" using Suc.prems b by simp
  show ?case
  proof (cases c)
    case 0
    with Suc.IH [OF k, of 0] b show ?thesis unfolding r by (simp add: Let_def pick_Cons)
  next
    case (Suc j)
    with Suc.IH [OF k, of j] Suc.IH [OF k, of c] b show ?thesis unfolding r by (simp add: Let_def pick_Cons)
  qed
qed (simp add: pick_def)


lemma pick_SomeD: "pick xs k = Some x \<Longrightarrow> k < length xs \<and> x = xs ! k"
  by (auto simp: pick_def split: if_splits)

lemma walk_desc_result:
  assumes "nmbm_block_walk N False ba c limit = Some pb" and "limit < block_count N" and "c < 2147483648"
  shows "limit < pb" and "pb \<le> ba" and "is_good N pb"
    and "c = 0 \<Longrightarrow> \<forall>x. pb < x \<and> x \<le> ba \<longrightarrow> \<not> is_good N x"
proof -
  have "walk_desc N (ba - limit) ba (int c) = Some pb"
    using assms by (simp add: nmbm_block_walk_def nmbm_block_walk_desc_def walk_limit_def)
  moreover have "limit < ba" using calculation by (cases "limit < ba") auto
  ultimately have p: "pick (filter (is_good N) (rev [Suc limit..<Suc ba])) c = Some pb"
    by (simp add: walk_desc_spec Suc_diff_le)
  then have "pb \<in> set (filter (is_good N) (rev [Suc limit..<Suc ba]))"
    by (metis pick_SomeD nth_mem)
  then show "limit < pb" "pb \<le> ba" "is_good N pb" by auto
  show "\<forall>x. pb < x \<and> x \<le> ba \<longrightarrow> \<not> is_good N x" if "c = 0"
  proof (intro allI impI notI)
    fix x assume x: "pb < x \<and> x \<le> ba" "is_good N x"
    let ?F = "filter (is_good N) [Suc limit..<Suc ba]"
    have ne: "?F \<noteq> []" and l: "pb = last ?F"
      using p \<open>c = 0\<close> by (auto simp: pick_def rev_filter [symmetric] hd_rev [symmetric] hd_conv_nth split: if_splits)
    have "x \<in> set ?F" using x \<open>limit < pb\<close> by (auto simp del: upt_Suc)
    moreover have "sorted_wrt (<) ?F" by (intro sorted_wrt_filter) (simp del: upt_Suc)
    ultimately have "x \<le> last ?F" by (intro sorted_wrt_le_last)
    with l x show False by simp
  qed
qed

lemma walk_asc_result:
  assumes "nmbm_block_walk N True ba c limit = Some nba"
  shows "ba \<le> nba" and "nba < walk_limit N limit"
proof -
  have *: "walk_asc N k b x = Some y \<Longrightarrow> b \<le> y \<and> y < b + k" for k b x y
    by (induction k arbitrary: b x) (fastforce simp: Let_def split: if_splits)+
  show "ba \<le> nba" "nba < walk_limit N limit"
    using * [of "walk_limit N limit - ba" ba "s32 c" nba] assms
    by (auto simp: nmbm_block_walk_def nmbm_block_walk_asc_def)
qed

lemma reserve_result:
  assumes "nmbm_try_reserve_blocks N ba count m limit = Some nba"
  shows "ba \<le> nba" and "nba < walk_limit N limit"
proof -
  have "reserve_down N ba m limit k = Some nba \<Longrightarrow> ba \<le> nba \<and> nba < walk_limit N limit" for k
    by (induction k) (auto split: option.splits dest: walk_asc_result)
  then show "ba \<le> nba" "nba < walk_limit N limit"
    using assms by (auto simp: nmbm_try_reserve_blocks_def)
qed

section \<open>The initial mapping\<close>

lemma map_good_spec:
  "lb + k \<le> length tbl \<Longrightarrow> map_good N k pb lb tbl =
   (let gs = filter (\<lambda>x. nmbm_get_block_state N x \<noteq> 0) [pb..<pb + k]
    in (lb + length gs, take lb tbl @ map int gs @ drop (lb + length gs) tbl))"
proof (induction k arbitrary: pb lb tbl)
  case (Suc k)
  have r: "[pb..<pb + Suc k] = pb # [Suc pb..<Suc pb + k]" by (simp add: upt_conv_Cons)
  show ?case
  proof (cases "nmbm_get_block_state N pb = 0")
    case True
    with Suc.IH [of lb tbl "Suc pb"] Suc.prems show ?thesis unfolding r by (simp add: Let_def)
  next
    case False
    have "take (Suc lb) (tbl[lb := int pb]) = take lb tbl @ [int pb]"
      using Suc.prems by (simp add: take_Suc_conv_app_nth)
    with False Suc.IH [of "Suc lb" "tbl[lb := int pb]" "Suc pb"] Suc.prems show ?thesis
      unfolding r by (simp add: Let_def)
  qed
qed simp

lemma map_rest_spec: "pb + k \<le> length tbl \<Longrightarrow> map_rest k pb tbl = take pb tbl @ replicate k (-1) @ drop (pb + k) tbl"
proof (induction k arbitrary: pb tbl)
  case (Suc k)
  have "take (Suc pb) (tbl[pb := - 1]) = take pb tbl @ [- 1]"
    using Suc.prems by (simp add: take_Suc_conv_app_nth)
  with Suc.IH [of "Suc pb" "tbl[pb := -1]"] Suc.prems show ?case by simp
qed simp

lemma build_mapping_table_result:
  assumes "mgmt_start_ba n \<le> block_count n" and "block_count n = length (block_mapping n)"
  shows "let gs = filter (\<lambda>pb. nmbm_get_block_state n pb \<noteq> BLOCK_ST_BAD) [0..<mgmt_start_ba n]
    in data_block_count (nmbm_build_mapping_table n) = length gs \<and>
       block_mapping (nmbm_build_mapping_table n) = map int gs @ replicate (block_count n - length gs) (-1)"
proof -
  let ?gs = "filter (\<lambda>pb. nmbm_get_block_state n pb \<noteq> 0) [0..<mgmt_start_ba n]"
  have l: "length ?gs \<le> mgmt_start_ba n" by (metis length_filter_le length_upt minus_nat.diff_0)
  have g: "map_good n (mgmt_start_ba n) 0 0 (block_mapping n) =
      (length ?gs, map int ?gs @ drop (length ?gs) (block_mapping n))"
    using map_good_spec [of 0 "mgmt_start_ba n" "block_mapping n" n 0] assms by (simp add: Let_def)
  have "map_rest (block_count n - length ?gs) (length ?gs) (map int ?gs @ drop (length ?gs) (block_mapping n)) =
      map int ?gs @ replicate (block_count n - length ?gs) (-1)"
    using assms l by (subst map_rest_spec) auto
  with g show ?thesis by (simp add: nmbm_build_mapping_table_def Let_def)
qed

section \<open>The scan\<close>

lemma scan_badblocks_state:
  assumes "\<And>a d. drv_block_isbad D a d = (bad a, d)"
  shows "nmbm_get_block_state (NI (scan_badblocks_from D k ba w)) x =
    (if ba \<le> x \<and> x < ba + k \<and> bad (x * 2 ^ blk_shift (bmtd w)) \<noteq> 0 then 0 else nmbm_get_block_state (NI w) x)"
proof (induction k arbitrary: ba w)
  case (Suc k)
  have c: "nmbm_check_bad_phys_block D ba w = (bad (ba * 2 ^ blk_shift (bmtd w)) \<noteq> 0, w)"
    by (simp add: nmbm_check_bad_phys_block_def assms ba2addr_def)
  have bs: "blk_shift (bmtd (set_bad ba w)) = blk_shift (bmtd w)" by (simp add: set_bad_def)
  show ?case
    using Suc.IH [of "Suc ba" w] Suc.IH [of "Suc ba" "set_bad ba w"]
    by (auto simp: c Let_def set_bad_state bs)
qed simp

section \<open>Properties\<close>

text \<open>
  The bitmap is exact: after setting the state of a block of the table, that block has the
  new state and every other block the one it had, and the change counter advances exactly when
  the state is new.
\<close>

theorem nmbm_block_state_exact:
  assumes "ba div 16 < length (block_state n)" and "s < 4" and "block_state_changed n < 4294967295"
  shows "let (changed, n') = nmbm_set_block_state ba s n in
    nmbm_get_block_state n' ba = s \<and> (\<forall>x. x \<noteq> ba \<longrightarrow> nmbm_get_block_state n' x = nmbm_get_block_state n x) \<and>
    changed = (nmbm_get_block_state n ba \<noteq> s) \<and>
    block_state_changed n' = block_state_changed n + (if changed then 1 else 0)"
  using get_set_block_state [OF assms(1), of s] assms(2,3) set_block_state_fields(2,3) [of ba s n]
  by (cases "nmbm_set_block_state ba s n") (auto simp: Let_def)

definition ex_nmbm :: nmbm_instance where
  "ex_nmbm = nmbm_instance_zero\<lparr>block_count := 16, block_state := [0xffffffff], mgmt_start_ba := 10,
     block_mapping := replicate 16 0\<rparr>"

theorem nmbm_block_state_exact_witness:
  "let (changed, n') = nmbm_set_block_state 5 BLOCK_ST_BAD ex_nmbm in
   nmbm_get_block_state n' 5 = BLOCK_ST_BAD \<and> nmbm_get_block_state n' 6 = nmbm_get_block_state ex_nmbm 6"
  using nmbm_block_state_exact [of 5 ex_nmbm 0]
  by (auto simp: ex_nmbm_def nmbm_instance_zero_def)

text \<open>
  The walks find what their comments say: the ascending walk from \<open>ba\<close> returns good block
  number \<open>count\<close> (from 0) of the blocks from \<open>ba\<close> up to, not including, the limit, the
  descending walk good block number \<open>count\<close> of those from \<open>ba\<close> down to the block above the limit, and both fail
  when there are not enough.
\<close>

theorem nmbm_block_walk_spec:
  assumes "count < 2147483648"
  shows "nmbm_block_walk N True ba count limit =
      pick (filter (\<lambda>x. nmbm_get_block_state N x = BLOCK_ST_GOOD) [ba..<walk_limit N limit]) count \<and>
    nmbm_block_walk N False ba count limit =
      pick (filter (\<lambda>x. nmbm_get_block_state N x = BLOCK_ST_GOOD) (rev [Suc (walk_limit N limit)..<Suc ba])) count"
proof -
  let ?l = "walk_limit N limit"
  have "[ba..<ba + (?l - ba)] = [ba..<?l]" by (cases "ba \<le> ?l") simp_all
  moreover have "rev [Suc ba - (ba - ?l)..<Suc ba] = rev [Suc ?l..<Suc ba]"
    by (cases "?l \<le> ba") (simp_all add: Suc_diff_le del: upt_Suc)
  ultimately show ?thesis
    using walk_asc_spec [of N "?l - ba" ba count] walk_desc_spec [of "ba - ?l" ba N count] assms
    by (simp add: nmbm_block_walk_def nmbm_block_walk_asc_def nmbm_block_walk_desc_def del: upt_Suc)
qed

theorem nmbm_block_walk_spec_witness:
  "nmbm_block_walk ex_nmbm True 3 2 10 =
     pick (filter (\<lambda>x. nmbm_get_block_state ex_nmbm x = BLOCK_ST_GOOD) [3..<walk_limit ex_nmbm 10]) 2"
  using nmbm_block_walk_spec [of 2 ex_nmbm 3 10] by simp

text \<open>
  The initial mapping skips bad blocks: the logical blocks are the blocks below the
  management area that are not bad, in ascending order, so two of them never share a physical
  block; all other entries of the table are -1.
\<close>

theorem nmbm_build_mapping_table_spec:
  assumes "mgmt_start_ba n \<le> block_count n" and "block_count n = length (block_mapping n)"
  shows "let m = nmbm_build_mapping_table n;
             gs = filter (\<lambda>pb. nmbm_get_block_state n pb \<noteq> BLOCK_ST_BAD) [0..<mgmt_start_ba n]
    in data_block_count m = length gs \<and> take (data_block_count m) (block_mapping m) = map int gs \<and>
       distinct (take (data_block_count m) (block_mapping m)) \<and>
       drop (data_block_count m) (block_mapping m) = replicate (block_count n - length gs) (-1)"
  using build_mapping_table_result [OF assms] by (simp add: Let_def distinct_map)

theorem nmbm_build_mapping_table_spec_witness:
  "distinct (take (data_block_count (nmbm_build_mapping_table ex_nmbm)) (block_mapping (nmbm_build_mapping_table ex_nmbm)))"
proof -
  have "mgmt_start_ba ex_nmbm \<le> block_count ex_nmbm" "block_count ex_nmbm = length (block_mapping ex_nmbm)"
    by (simp_all add: ex_nmbm_def)
  from nmbm_build_mapping_table_spec [OF this] show ?thesis unfolding Let_def by blast
qed

text \<open>
  The scan records the driver's bad blocks and nothing else: with a driver whose answer to
  the bad-block query depends on the address only, a block of the chip is bad afterwards exactly
  when it was before or the driver says so.
\<close>

theorem nmbm_scan_badblocks_spec:
  assumes "\<And>a d. drv_block_isbad D a d = (bad a, d)"
  shows "nmbm_get_block_state (NI (nmbm_scan_badblocks D w)) x =
    (if x < block_count (NI w) \<and> bad (ba2addr (bmtd w) x) \<noteq> 0 then BLOCK_ST_BAD
     else nmbm_get_block_state (NI w) x)"
  using scan_badblocks_state [OF assms, of "block_count (NI w)" 0 w x]
  by (auto simp: nmbm_scan_badblocks_def ba2addr_def)

theorem nmbm_scan_badblocks_spec_witness:
  "nmbm_get_block_state (NI (nmbm_scan_badblocks (log_drv\<lparr>drv_block_isbad := (\<lambda>a d. (if a = 8192 then 1 else 0, d))\<rparr>)
     \<lparr>dev = [], mtd = ex_mtd, bmtd = ex_desc\<lparr>ni := ex_nmbm\<rparr>\<rparr>)) 2 = BLOCK_ST_BAD"
  by (subst nmbm_scan_badblocks_spec [where bad = "\<lambda>a. if a = 8192 then 1 else 0"])
    (simp_all add: ba2addr_def ex_desc_def ex_nmbm_def)

end
