(* ===== verification/Nmbm_Flash.thy ===== *)
theory Nmbm_Flash
  imports Nmbm_State
begin

text \<open>
  The part of the NMBM back end (\<^verbatim>\<open>mtk_bmt_nmbm.c\<close>) that reaches the chip: pages and blocks
  with retries, erasing with a check, and verified writes over the good blocks of a range.
  Every call of the page functions in the source passes a data buffer and no spare buffer, so
  that is what the model takes. \<^verbatim>\<open>page_cache\<close> is \<^verbatim>\<open>bmtd.data_buf\<close>.
\<close>

section \<open>Pages and blocks\<close>

abbreviation (input) NMBM_TRY_COUNT :: nat where "NMBM_TRY_COUNT \<equiv> 3"

text \<open>The loop of \<^verbatim>\<open>nmbm_read_phys_page\<close>: \<open>n\<close> tries are left, \<open>ret\<close> is the last result.\<close>

fun nmbm_read_retry ::
    "'d nand_drv \<Rightarrow> nat \<Rightarrow> nat \<Rightarrow> int \<Rightarrow> byte list \<Rightarrow> 'd bmt_world \<Rightarrow> int \<times> byte list \<times> 'd bmt_world" where
  "nmbm_read_retry D 0 addr ret dat w = (ret, dat, w)"
| "nmbm_read_retry D (Suc n) addr ret dat w =
     (let (ret', got, d) = drv_read_oob D addr (oob_request (pg_size (bmtd w)) 0 0 [] []) (dev w);
          w1 = w\<lparr>dev := d\<rparr>
      in if ret' = - EUCLEAN
         then (int (min (u32 (bitflip_threshold (mtd w) + 1)) (ecc_strength (mtd w))), oo_datbuf got, w1)
         else if ret' \<ge> 0 then (0, oo_datbuf got, w1)
         else nmbm_read_retry D n addr ret' (oo_datbuf got) w1)"

definition nmbm_read_phys_page ::
    "'d nand_drv \<Rightarrow> nat \<Rightarrow> 'd bmt_world \<Rightarrow> int \<times> byte list \<times> 'd bmt_world" where
  "nmbm_read_phys_page D addr w = nmbm_read_retry D NMBM_TRY_COUNT addr 0 [] w"

fun nmbm_write_retry :: "'d nand_drv \<Rightarrow> nat \<Rightarrow> nat \<Rightarrow> byte list \<Rightarrow> 'd bmt_world \<Rightarrow> bool \<times> 'd bmt_world" where
  "nmbm_write_retry D 0 addr dat w = (False, w)"
| "nmbm_write_retry D (Suc n) addr dat w =
     (let (ret, dn, d) = drv_write_oob D addr (oob_request (pg_size (bmtd w)) 0 0 dat []) (dev w);
          w1 = w\<lparr>dev := d\<rparr>
      in if ret = 0 then (True, w1) else nmbm_write_retry D n addr dat w1)"

definition nmbm_write_phys_page ::
    "'d nand_drv \<Rightarrow> nat \<Rightarrow> byte list \<Rightarrow> 'd bmt_world \<Rightarrow> bool \<times> 'd bmt_world" where
  "nmbm_write_phys_page D addr dat w = nmbm_write_retry D NMBM_TRY_COUNT addr dat w"

fun nmbm_erase_retry :: "'d nand_drv \<Rightarrow> nat \<Rightarrow> nat \<Rightarrow> 'd bmt_world \<Rightarrow> bool \<times> 'd bmt_world" where
  "nmbm_erase_retry D 0 addr w = (False, w)"
| "nmbm_erase_retry D (Suc n) addr w =
     (let (ret, d) = drv_erase D addr (erasesize (mtd w)) (dev w); w1 = w\<lparr>dev := d\<rparr>
      in if ret = 0 then (True, w1) else nmbm_erase_retry D n addr w1)"

definition nmbm_erase_phys_block :: "'d nand_drv \<Rightarrow> nat \<Rightarrow> 'd bmt_world \<Rightarrow> bool \<times> 'd bmt_world" where
  "nmbm_erase_phys_block D addr w = nmbm_erase_retry D NMBM_TRY_COUNT addr w"

text \<open>Reading a page into \<^verbatim>\<open>page_cache\<close>, and putting bytes into it.\<close>

definition set_page_cache :: "byte list \<Rightarrow> 'd bmt_world \<Rightarrow> 'd bmt_world" where
  "set_page_cache dat w = w\<lparr>bmtd := (bmtd w)\<lparr>data_buf := fill_front dat (data_buf (bmtd w))\<rparr>\<rparr>"

definition read_to_page_cache :: "'d nand_drv \<Rightarrow> nat \<Rightarrow> 'd bmt_world \<Rightarrow> int \<times> 'd bmt_world" where
  "read_to_page_cache D addr w =
     (let (ret, dat, w1) = nmbm_read_phys_page D addr w in (ret, set_page_cache dat w1))"

definition pages_per_block :: "bmt_desc \<Rightarrow> nat" where
  "pages_per_block b = (blk_size b + pg_size b - 1) div pg_size b"

section \<open>Erasing\<close>

fun check_empty_pages :: "'d nand_drv \<Rightarrow> nat \<Rightarrow> nat \<Rightarrow> 'd bmt_world \<Rightarrow> bool \<times> 'd bmt_world" where
  "check_empty_pages D 0 addr w = (True, w)"
| "check_empty_pages D (Suc n) addr w =
     (let (ret, w1) = read_to_page_cache D addr w
      in if ret = - EBADMSG then (False, w1)
         else check_empty_pages D n (addr + pg_size (bmtd w)) w1)"

definition nmbm_erase_block_and_check :: "'d nand_drv \<Rightarrow> nat \<Rightarrow> 'd bmt_world \<Rightarrow> bool \<times> 'd bmt_world" where
  "nmbm_erase_block_and_check D ba w =
     (let (success, w1) = nmbm_erase_phys_block D (ba2addr (bmtd w) ba) w
      in if \<not> success then (False, w1)
         else if \<not> empty_page_ecc_ok (NI w1) then (True, w1)
         else check_empty_pages D (pages_per_block (bmtd w1)) (ba2addr (bmtd w1) ba) w1)"

definition mark_bad :: "'d nand_drv \<Rightarrow> nat \<Rightarrow> 'd bmt_world \<Rightarrow> 'd bmt_world" where
  "mark_bad D ba w = set_bad ba (snd (nmbm_mark_phys_bad_block D ba w))"

text \<open>One round of \<^verbatim>\<open>nmbm_erase_range\<close>, and the loop with \<open>n\<close> blocks left.\<close>

definition erase_one :: "'d nand_drv \<Rightarrow> nat \<Rightarrow> 'd bmt_world \<Rightarrow> 'd bmt_world" where
  "erase_one D ba w =
     (if nmbm_get_block_state (NI w) ba \<noteq> BLOCK_ST_GOOD then w
      else
        let (bad, w1) = nmbm_check_bad_phys_block D ba w
        in if bad then set_bad ba w1
           else
             let (success, w2) = nmbm_erase_block_and_check D ba w1
             in if success then w2 else mark_bad D ba w2)"

fun erase_range_from :: "'d nand_drv \<Rightarrow> nat \<Rightarrow> nat \<Rightarrow> 'd bmt_world \<Rightarrow> 'd bmt_world" where
  "erase_range_from D 0 ba w = w"
| "erase_range_from D (Suc n) ba w = erase_range_from D n (ba + 1) (erase_one D ba w)"

definition nmbm_erase_range :: "'d nand_drv \<Rightarrow> nat \<Rightarrow> nat \<Rightarrow> 'd bmt_world \<Rightarrow> 'd bmt_world" where
  "nmbm_erase_range D ba limit w = erase_range_from D (limit - ba) ba w"

section \<open>Writing the signature\<close>

fun write_repeated_pages :: "'d nand_drv \<Rightarrow> nat \<Rightarrow> nat \<Rightarrow> byte list \<Rightarrow> 'd bmt_world \<Rightarrow> bool \<times> 'd bmt_world" where
  "write_repeated_pages D 0 addr dat w = (True, w)"
| "write_repeated_pages D (Suc n) addr dat w =
     (let w1 = set_page_cache (dat @ replicate (rawpage_size (NI w) - length dat) 0xff) w;
          (success, w2) = nmbm_write_phys_page D addr (data_buf (bmtd w1)) w1
      in if \<not> success then (False, w2)
         else
           let (ret, w3) = read_to_page_cache D addr w2
           in if ret < 0 then (False, w3)
              else if take (length dat) (data_buf (bmtd w3)) \<noteq> dat then (False, w3)
              else write_repeated_pages D n (addr + pg_size (bmtd w)) dat w3)"

definition nmbm_write_repeated_data :: "'d nand_drv \<Rightarrow> nat \<Rightarrow> byte list \<Rightarrow> 'd bmt_world \<Rightarrow> bool \<times> 'd bmt_world" where
  "nmbm_write_repeated_data D ba dat w =
     (if length dat > pg_size (bmtd w) then (False, w)
      else write_repeated_pages D (pages_per_block (bmtd w)) (ba2addr (bmtd w) ba) dat w)"

text \<open>The loop of \<^verbatim>\<open>nmbm_write_signature\<close>, at block \<open>limit + n\<close>.\<close>

fun write_signature_from :: "'d nand_drv \<Rightarrow> nat \<Rightarrow> nat \<Rightarrow> byte list \<Rightarrow> 'd bmt_world \<Rightarrow> nat option \<times> 'd bmt_world" where
  "write_signature_from D limit 0 sig w = (None, w)"
| "write_signature_from D limit (Suc n) sig w =
     (let ba = limit + Suc n
      in if nmbm_get_block_state (NI w) ba \<noteq> BLOCK_ST_GOOD then write_signature_from D limit n sig w
         else
           let (bad, w1) = nmbm_check_bad_phys_block D ba w
           in if bad then write_signature_from D limit n sig (set_bad ba w1)
              else
                let (success, w2) = nmbm_erase_block_and_check D ba w1
                in if \<not> success then write_signature_from D limit n sig (mark_bad D ba w2)
                   else
                     let (success', w3) = nmbm_write_repeated_data D ba sig w2
                     in if success' then (Some ba, w3)
                        else write_signature_from D limit n sig (mark_bad D ba w3))"

definition nmbm_write_signature :: "'d nand_drv \<Rightarrow> nat \<Rightarrow> byte list \<Rightarrow> 'd bmt_world \<Rightarrow> nat option \<times> 'd bmt_world" where
  "nmbm_write_signature D limit sig w =
     write_signature_from D limit (sub32 (block_count (NI w)) 1 - limit) sig w"

section \<open>Reading and writing data\<close>

lemma nat_and_le: "(a :: nat) AND m \<le> m"
  by (metis AND_upper2 and_nat_def nat_int nat_le_eq_zle of_nat_0_le_iff)

text \<open>The offset inside its page of an address, and how much of \<open>sizeremain\<close> bytes that page takes.\<close>

definition page_leading :: "bmt_desc \<Rightarrow> nat \<Rightarrow> nat" where
  "page_leading b off = off AND (pg_size b - 1)"

definition page_chunk :: "bmt_desc \<Rightarrow> nat \<Rightarrow> nat \<Rightarrow> nat" where
  "page_chunk b off sizeremain = min (pg_size b - page_leading b off) sizeremain"

lemma page_chunk_pos: "0 < pg_size b \<Longrightarrow> 0 < sizeremain \<Longrightarrow> 0 < page_chunk b off sizeremain"
  using nat_and_le [of off "pg_size b - 1"] by (simp add: page_chunk_def page_leading_def)

lemma page_chunk_le: "page_chunk b off sizeremain \<le> sizeremain"
  by (simp add: page_chunk_def)

text \<open>
  The page loop of \<^verbatim>\<open>nmbn_read_data\<close>. The bytes delivered so far are \<open>acc\<close>; on an error they are
  what the destination buffer holds. Attaching excludes a page size of 0; the model returns at
  once in that case, where the loop of the code would not advance.
\<close>

function nmbn_read_loop ::
    "'d nand_drv \<Rightarrow> nat \<Rightarrow> nat \<Rightarrow> byte list \<Rightarrow> 'd bmt_world \<Rightarrow> int \<times> byte list \<times> 'd bmt_world" where
  "nmbn_read_loop D off sizeremain acc w =
     (if sizeremain = 0 \<or> pg_size (bmtd w) = 0 then (0, acc, w)
      else
        let leading = page_leading (bmtd w) off;
            chunksize = page_chunk (bmtd w) off sizeremain;
            (ret, dat, w1) = nmbm_read_phys_page D (off - leading) w
        in if chunksize = pg_size (bmtd w) then
             if ret < 0 then (ret, acc @ dat, w1)
             else nmbn_read_loop D (off + chunksize) (sizeremain - chunksize) (acc @ dat) w1
           else
             let w2 = set_page_cache dat w1
             in if ret < 0 then (ret, acc, w2)
                else nmbn_read_loop D (off + chunksize) (sizeremain - chunksize)
                       (acc @ take chunksize (drop leading (data_buf (bmtd w2)))) w2)"
  by pat_completeness auto
termination
  by (relation "measure (\<lambda>(D, off, sizeremain, acc, w). sizeremain)") (auto simp: page_chunk_pos)

declare nmbn_read_loop.simps [simp del]

definition nmbn_read_data ::
    "'d nand_drv \<Rightarrow> nat \<Rightarrow> nat \<Rightarrow> 'd bmt_world \<Rightarrow> int \<times> byte list \<times> 'd bmt_world" where
  "nmbn_read_data D addr sz w = nmbn_read_loop D addr sz [] w"

text \<open>\<^verbatim>\<open>nmbn_write_verify_data\<close>: \<open>ptr\<close> is the data still to be written, \<open>sizeremain\<close> its length.\<close>

function nmbn_write_verify_data :: "'d nand_drv \<Rightarrow> nat \<Rightarrow> byte list \<Rightarrow> 'd bmt_world \<Rightarrow> bool \<times> 'd bmt_world" where
  "nmbn_write_verify_data D off ptr w =
     (if ptr = [] \<or> pg_size (bmtd w) = 0 then (True, w)
      else
        let leading = page_leading (bmtd w) off;
            chunksize = page_chunk (bmtd w) off (length ptr);
            chunk = take chunksize ptr;
            page = replicate leading 0xff @ chunk @ replicate (rawpage_size (NI w) - leading - chunksize) 0xff;
            w1 = set_page_cache page w;
            (success, w2) = nmbm_write_phys_page D (off - leading) (data_buf (bmtd w1)) w1
        in if \<not> success then (False, w2)
           else
             let (ret, w3) = read_to_page_cache D (off - leading) w2
             in if ret < 0 then (False, w3)
                else if take chunksize (drop leading (data_buf (bmtd w3))) \<noteq> chunk then (False, w3)
                else nmbn_write_verify_data D (off + chunksize) (drop chunksize ptr) w3)"
  by pat_completeness auto
termination
  by (relation "measure (\<lambda>(D, off, ptr, w). length ptr)") (auto simp: page_chunk_pos)

declare nmbn_write_verify_data.simps [simp del]

section \<open>Writing management data\<close>

text \<open>
  The loop of \<^verbatim>\<open>nmbm_write_mgmt_range\<close> at block \<open>ba\<close>: \<open>n\<close> blocks are left before the limit,
  \<open>ptr\<close> is the data still to be written, \<open>first\<close> says that nothing has been written
  (\<^verbatim>\<open>sizeremain == size\<close>) and \<open>st\<close> is \<^verbatim>\<open>*actual_start_ba\<close>. The result is the pair of start and
  end block, \<^const>\<open>None\<close> for false.
\<close>

fun write_mgmt_from ::
    "'d nand_drv \<Rightarrow> nat \<Rightarrow> nat \<Rightarrow> byte list \<Rightarrow> bool \<Rightarrow> nat \<Rightarrow> 'd bmt_world \<Rightarrow> (nat \<times> nat) option \<times> 'd bmt_world" where
  "write_mgmt_from D 0 ba ptr first st w = (if ptr = [] then Some (st, ba) else None, w)"
| "write_mgmt_from D (Suc n) ba ptr first st w =
     (if ptr = [] then (Some (st, ba), w)
      else if nmbm_get_block_state (NI w) ba \<noteq> BLOCK_ST_GOOD
      then write_mgmt_from D n (ba + 1) ptr first st w
      else
        let (bad, w1) = nmbm_check_bad_phys_block D ba w
        in if bad then write_mgmt_from D n (ba + 1) ptr first st (set_bad ba w1)
           else
             let (success, w2) = nmbm_erase_block_and_check D ba w1
             in if \<not> success then write_mgmt_from D n (ba + 1) ptr first st (mark_bad D ba w2)
                else
                  let chunksize = min (length ptr) (blk_size (bmtd w));
                      (success', w3) = nmbn_write_verify_data D (ba2addr (bmtd w2) ba) (take chunksize ptr) w2
                  in if \<not> success' then write_mgmt_from D n (ba + 1) ptr first st (mark_bad D ba w3)
                     else write_mgmt_from D n (ba + 1) (drop chunksize ptr) False
                            (if first then ba else st) w3)"

definition nmbm_write_mgmt_range ::
    "'d nand_drv \<Rightarrow> nat \<Rightarrow> nat \<Rightarrow> byte list \<Rightarrow> 'd bmt_world \<Rightarrow> (nat \<times> nat) option \<times> 'd bmt_world" where
  "nmbm_write_mgmt_range D ba limit dat w = write_mgmt_from D (limit - ba) ba dat True 0 w"

section \<open>What the operations may change\<close>

text \<open>
  \<open>dev_keeps D Q A\<close>: \<open>Q\<close> is a property of the chip that no read and no query changes, and that
  writing, erasing and marking at the addresses of \<open>A\<close> keeps. An operation that keeps every
  such \<open>Q\<close> does not write, erase or mark anything outside \<open>A\<close>.

  \<open>nmbm_eff D Q S T w w'\<close>: from \<open>w\<close> to \<open>w'\<close> the state table changed at most by blocks of \<open>S\<close>
  going from good to bad, its change counter only if one did, the chip at most in the blocks of
  \<open>T\<close>, and nothing else but the page buffer.
\<close>

definition dev_keeps :: "'d nand_drv \<Rightarrow> ('d \<Rightarrow> bool) \<Rightarrow> nat set \<Rightarrow> bool" where
  "dev_keeps D Q A \<longleftrightarrow> (\<forall>d. Q d \<longrightarrow>
     (\<forall>a req. Q (snd (snd (drv_read_oob D a req d)))) \<and> (\<forall>a. Q (snd (drv_block_isbad D a d))) \<and>
     (\<forall>a\<in>A. (\<forall>req. Q (snd (snd (drv_write_oob D a req d)))) \<and> (\<forall>n. Q (snd (drv_erase D a n d))) \<and>
        Q (snd (drv_block_markbad D a d))))"

definition block_addrs :: "bmt_desc \<Rightarrow> nat set \<Rightarrow> nat set" where
  "block_addrs b T = {a. a div 2 ^ blk_shift b \<in> T}"

definition lost :: "nmbm_instance \<Rightarrow> nmbm_instance \<Rightarrow> nat \<Rightarrow> bool" where
  "lost n n' x \<longleftrightarrow> nmbm_get_block_state n x = BLOCK_ST_GOOD \<and> nmbm_get_block_state n' x = BLOCK_ST_BAD"

definition ni_frame :: "'d bmt_world \<Rightarrow> 'd bmt_world \<Rightarrow> bool" where
  "ni_frame w w' \<longleftrightarrow> mtd w' = mtd w \<and> (\<exists>st ch x. length st = length (block_state (NI w)) \<and>
     bmtd w' = (bmtd w)\<lparr>ni := (NI w)\<lparr>block_state := st, block_state_changed := ch\<rparr>, data_buf := x\<rparr>)"

lemma ni_frameI:
  "mtd w' = mtd w \<Longrightarrow> length st = length (block_state (NI w)) \<Longrightarrow>
   bmtd w' = (bmtd w)\<lparr>ni := (NI w)\<lparr>block_state := st, block_state_changed := ch\<rparr>, data_buf := x\<rparr> \<Longrightarrow> ni_frame w w'"
  by (auto simp: ni_frame_def)

lemma ni_frameE:
  assumes "ni_frame w w'"
  obtains st ch x where "length st = length (block_state (NI w))" and "mtd w' = mtd w"
    and "bmtd w' = (bmtd w)\<lparr>ni := (NI w)\<lparr>block_state := st, block_state_changed := ch\<rparr>, data_buf := x\<rparr>"
  using assms by (auto simp: ni_frame_def)

lemma ni_frame_refl [simp]: "ni_frame w w"
  by (rule ni_frameI [of _ _ "block_state (NI w)" "data_buf (bmtd w)" "block_state_changed (NI w)"]) simp_all

lemma ni_frame_trans:
  assumes "ni_frame w w1" and "ni_frame w1 w2"
  shows "ni_frame w w2"
proof -
  from assms(1) obtain st ch x where "length st = length (block_state (NI w))" "mtd w1 = mtd w"
    "bmtd w1 = (bmtd w)\<lparr>ni := (NI w)\<lparr>block_state := st, block_state_changed := ch\<rparr>, data_buf := x\<rparr>"
    by (rule ni_frameE)
  moreover from assms(2) obtain st' ch' x' where "length st' = length (block_state (NI w1))" "mtd w2 = mtd w1"
    "bmtd w2 = (bmtd w1)\<lparr>ni := (NI w1)\<lparr>block_state := st', block_state_changed := ch'\<rparr>, data_buf := x'\<rparr>"
    by (rule ni_frameE)
  ultimately show ?thesis by (intro ni_frameI [of _ _ st' x' ch']) simp_all
qed

lemma ni_frame_simps:
  assumes "ni_frame w w'"
  shows "mtd w' = mtd w" and "geom w' = geom w" and "blk_shift (bmtd w') = blk_shift (bmtd w)"
    and "blk_size (bmtd w') = blk_size (bmtd w)" and "pg_size (bmtd w') = pg_size (bmtd w)"
    and "length (block_state (NI w')) = length (block_state (NI w))"
  using assms by (rule ni_frameE, simp add: geom_def)+

definition nmbm_eff :: "'d nand_drv \<Rightarrow> ('d \<Rightarrow> bool) \<Rightarrow> nat set \<Rightarrow> nat set \<Rightarrow> 'd bmt_world \<Rightarrow> 'd bmt_world \<Rightarrow> bool" where
  "nmbm_eff D Q S T w w' \<longleftrightarrow> ni_frame w w' \<and>
     (\<forall>x. nmbm_get_block_state (NI w') x = nmbm_get_block_state (NI w) x \<or> x \<in> S \<and> lost (NI w) (NI w') x) \<and>
     (block_state_changed (NI w') = block_state_changed (NI w) \<or> (\<exists>x. lost (NI w) (NI w') x)) \<and>
     (dev_keeps D Q (block_addrs (bmtd w) T) \<longrightarrow> Q (dev w) \<longrightarrow> Q (dev w'))"

lemma nmbm_eff_frame: "nmbm_eff D Q S T w w' \<Longrightarrow> ni_frame w w'"
  by (simp add: nmbm_eff_def)

lemmas nmbm_eff_simps = ni_frame_simps [OF nmbm_eff_frame]

lemma nmbm_eff_refl [simp, intro]: "nmbm_eff D Q S T w w"
  by (simp add: nmbm_eff_def)

lemma nmbm_eff_mono:
  assumes "nmbm_eff D Q S T w w'" and "S \<subseteq> S'" and "T \<subseteq> T'"
  shows "nmbm_eff D Q S' T' w w'"
proof -
  have "dev_keeps D Q (block_addrs (bmtd w) T') \<Longrightarrow> dev_keeps D Q (block_addrs (bmtd w) T)"
    using assms(3) unfolding dev_keeps_def block_addrs_def by blast
  then show ?thesis using assms(1,2) unfolding nmbm_eff_def by blast
qed

lemma lost_trans:
  assumes "nmbm_get_block_state n1 x = nmbm_get_block_state n x \<or> lost n n1 x"
    and "nmbm_get_block_state n2 x = nmbm_get_block_state n1 x \<or> lost n1 n2 x"
  shows "lost n n1 x \<Longrightarrow> lost n n2 x" and "lost n1 n2 x \<Longrightarrow> lost n n2 x"
    and "nmbm_get_block_state n2 x = nmbm_get_block_state n x \<or> lost n n2 x"
  using assms by (auto simp: lost_def)

lemma nmbm_eff_trans:
  assumes "nmbm_eff D Q S T w w1" and "nmbm_eff D Q S T w1 w2"
  shows "nmbm_eff D Q S T w w2"
proof -
  note a = assms(1) [unfolded nmbm_eff_def] and b = assms(2) [unfolded nmbm_eff_def]
  have st: "nmbm_get_block_state (NI w1) x = nmbm_get_block_state (NI w) x \<or> lost (NI w) (NI w1) x"
    "nmbm_get_block_state (NI w2) x = nmbm_get_block_state (NI w1) x \<or> lost (NI w1) (NI w2) x" for x
    using a b by blast+
  note tr = lost_trans [OF st]
  show ?thesis
    unfolding nmbm_eff_def
  proof (intro conjI allI impI)
    show "ni_frame w w2" using a b ni_frame_trans by blast
    show "block_state_changed (NI w2) = block_state_changed (NI w) \<or> (\<exists>x. lost (NI w) (NI w2) x)"
      using a b tr(1,2) by metis
    show "nmbm_get_block_state (NI w2) x = nmbm_get_block_state (NI w) x \<or> x \<in> S \<and> lost (NI w) (NI w2) x" for x
      using a b tr [of x] by (metis (no_types))
    have "blk_shift (bmtd w1) = blk_shift (bmtd w)" using assms(1) by (rule nmbm_eff_simps)
    then show "Q (dev w2)" if "dev_keeps D Q (block_addrs (bmtd w) T)" "Q (dev w)"
      using a b that by (simp add: block_addrs_def)
  qed
qed

lemma nmbm_eff_dev:
  assumes "dev_keeps D Q (block_addrs (bmtd w) T) \<Longrightarrow> Q (dev w) \<Longrightarrow> Q d"
  shows "nmbm_eff D Q S T w (w\<lparr>dev := d\<rparr>)"
proof -
  have "ni_frame w (w\<lparr>dev := d\<rparr>)"
    by (rule ni_frameI [of _ _ "block_state (NI w)" "data_buf (bmtd w)" "block_state_changed (NI w)"]) simp_all
  with assms show ?thesis by (simp add: nmbm_eff_def)
qed

lemma nmbm_eff_page_cache [simp]: "nmbm_eff D Q S T w (set_page_cache dat w)"
proof -
  have "ni_frame w (set_page_cache dat w)"
    by (rule ni_frameI [of _ _ "block_state (NI w)" "fill_front dat (data_buf (bmtd w))" "block_state_changed (NI w)"])
      (simp_all add: set_page_cache_def)
  then show ?thesis by (simp add: nmbm_eff_def set_page_cache_def)
qed

lemma nmbm_eff_set_bad:
  assumes "ba \<in> S" and "is_good (NI w) ba"
  shows "nmbm_eff D Q S T w (set_bad ba w)"
proof -
  have "lost (NI w) (NI (set_bad ba w)) ba" using assms by (simp add: lost_def set_bad_state)
  moreover have "nmbm_get_block_state (NI (set_bad ba w)) x = nmbm_get_block_state (NI w) x \<or> x = ba" for x
    by (simp add: set_bad_state)
  moreover have "ni_frame w (set_bad ba w)"
    by (rule ni_frameI [where st = "block_state (NI (set_bad ba w))" and ch = "block_state_changed (NI (set_bad ba w))"
          and x = "data_buf (bmtd w)"])
      (simp_all add: set_bad_def set_ni_def nmbm_set_block_state_def Let_def)
  moreover have "dev (set_bad ba w) = dev w" by (simp add: set_bad_def)
  ultimately show ?thesis using assms(1) unfolding nmbm_eff_def by metis
qed


lemma nmbm_eff_snoc:
  "nmbm_eff D Q S T w w1 \<Longrightarrow> (blk_shift (bmtd w1) = blk_shift (bmtd w) \<Longrightarrow> nmbm_eff D Q S T w1 w2) \<Longrightarrow> nmbm_eff D Q S T w w2"
  using nmbm_eff_trans nmbm_eff_simps(3) by metis

section \<open>The effect of each operation\<close>

lemma eff_read_retry: "nmbm_read_retry D n addr ret dat w = (r, dt, w') \<Longrightarrow> nmbm_eff D Q S T w w'"
proof (induction n arbitrary: ret dat w)
  case (Suc n)
  obtain ret' got d where rd: "drv_read_oob D addr (oob_request (pg_size (bmtd w)) 0 0 [] []) (dev w) = (ret', got, d)"
    by (metis prod_cases3)
  have "nmbm_eff D Q S T w (w\<lparr>dev := d\<rparr>)"
    by (rule nmbm_eff_dev) (metis dev_keeps_def rd snd_conv)
  with Suc show ?case by (auto simp: rd Let_def split: if_splits intro: nmbm_eff_trans)
qed simp

lemma eff_read: "nmbm_read_phys_page D addr w = (r, dt, w') \<Longrightarrow> nmbm_eff D Q S T w w'"
  unfolding nmbm_read_phys_page_def by (rule eff_read_retry)

lemma eff_write_retry:
  "nmbm_write_retry D n addr dat w = (r, w') \<Longrightarrow> addr div 2 ^ blk_shift (bmtd w) \<in> T \<Longrightarrow> nmbm_eff D Q S T w w'"
proof (induction n arbitrary: w)
  case (Suc n)
  obtain ret' got d where wr: "drv_write_oob D addr (oob_request (pg_size (bmtd w)) 0 0 dat []) (dev w) = (ret', got, d)"
    by (metis prod_cases3)
  have "addr \<in> block_addrs (bmtd w) T" using Suc.prems(2) by (simp add: block_addrs_def)
  then have "nmbm_eff D Q S T w (w\<lparr>dev := d\<rparr>)"
    by (intro nmbm_eff_dev) (metis dev_keeps_def wr snd_conv)
  with Suc show ?case by (auto simp: wr Let_def split: if_splits intro: nmbm_eff_trans)
qed simp

lemma eff_write:
  "nmbm_write_phys_page D addr dat w = (r, w') \<Longrightarrow> addr div 2 ^ blk_shift (bmtd w) \<in> T \<Longrightarrow> nmbm_eff D Q S T w w'"
  unfolding nmbm_write_phys_page_def by (rule eff_write_retry)

lemma eff_erase_retry:
  "nmbm_erase_retry D n addr w = (r, w') \<Longrightarrow> addr div 2 ^ blk_shift (bmtd w) \<in> T \<Longrightarrow> nmbm_eff D Q S T w w'"
proof (induction n arbitrary: w)
  case (Suc n)
  obtain ret' d where er: "drv_erase D addr (erasesize (mtd w)) (dev w) = (ret', d)" by fastforce
  have "addr \<in> block_addrs (bmtd w) T" using Suc.prems(2) by (simp add: block_addrs_def)
  then have "nmbm_eff D Q S T w (w\<lparr>dev := d\<rparr>)"
    by (intro nmbm_eff_dev) (metis dev_keeps_def er snd_conv)
  with Suc show ?case by (auto simp: er Let_def split: if_splits intro: nmbm_eff_trans)
qed simp

lemma eff_isbad:
  assumes "nmbm_check_bad_phys_block D ba w = (r, w')"
  shows "nmbm_eff D Q S T w w'"
proof -
  obtain ret d where q: "drv_block_isbad D (ba2addr (bmtd w) ba) (dev w) = (ret, d)" by fastforce
  have "nmbm_eff D Q S T w (w\<lparr>dev := d\<rparr>)"
    by (rule nmbm_eff_dev) (metis dev_keeps_def q snd_conv)
  with assms q show ?thesis by (auto simp: nmbm_check_bad_phys_block_def)
qed

lemma ba2addr_block [simp]: "ba2addr b ba div 2 ^ blk_shift b = ba"
  by (simp add: ba2addr_def)

lemma eff_mark:
  assumes "ba \<in> T"
  shows "nmbm_eff D Q S T w (snd (nmbm_mark_phys_bad_block D ba w))"
proof -
  obtain ret d where q: "drv_block_markbad D (ba2addr (bmtd w) ba) (dev w) = (ret, d)" by fastforce
  have "ba2addr (bmtd w) ba \<in> block_addrs (bmtd w) T" using assms by (simp add: block_addrs_def)
  then have "nmbm_eff D Q S T w (w\<lparr>dev := d\<rparr>)"
    by (intro nmbm_eff_dev) (metis dev_keeps_def q snd_conv)
  with q show ?thesis by (simp add: nmbm_mark_phys_bad_block_def)
qed

lemma eff_read_to_page_cache: "read_to_page_cache D addr w = (r, w') \<Longrightarrow> nmbm_eff D Q S T w w'"
  by (auto simp: read_to_page_cache_def split: prod.splits intro: nmbm_eff_trans [OF eff_read])

lemma eff_check_empty: "check_empty_pages D n addr w = (r, w') \<Longrightarrow> nmbm_eff D Q S T w w'"
proof (induction n arbitrary: addr w)
  case (Suc n)
  obtain ret w1 where rd: "read_to_page_cache D addr w = (ret, w1)" by fastforce
  from Suc eff_read_to_page_cache [OF rd, of Q S T] show ?case
    by (auto simp: rd split: if_splits intro: nmbm_eff_trans)
qed simp

lemma eff_erase_and_check:
  assumes "nmbm_erase_block_and_check D ba w = (r, w')" and "ba \<in> T"
  shows "nmbm_eff D Q S T w w'"
proof -
  obtain ok w1 where er: "nmbm_erase_phys_block D (ba2addr (bmtd w) ba) w = (ok, w1)" by fastforce
  have e1: "nmbm_eff D Q S T w w1"
    using eff_erase_retry [OF er [unfolded nmbm_erase_phys_block_def]] assms(2) by simp
  with assms(1) er show ?thesis
    by (auto simp: nmbm_erase_block_and_check_def split: if_splits intro: nmbm_eff_trans eff_check_empty)
qed

lemma eff_mark_bad:
  assumes "ba \<in> S" and "ba \<in> T" and "is_good (NI w) ba"
  shows "nmbm_eff D Q S T w (mark_bad D ba w)"
proof -
  let ?w1 = "snd (nmbm_mark_phys_bad_block D ba w)"
  have "NI ?w1 = NI w" by (simp add: nmbm_mark_phys_bad_block_def split: prod.splits)
  then have "is_good (NI ?w1) ba" using assms(3) by simp
  from nmbm_eff_trans [OF eff_mark [OF assms(2)] nmbm_eff_set_bad [OF assms(1) this]]
  show ?thesis by (simp add: mark_bad_def)
qed

text \<open>An operation that may not change any state keeps a good block good.\<close>

lemma eff_keeps_good: "nmbm_eff D Q {} T w w' \<Longrightarrow> nmbm_get_block_state (NI w') x = nmbm_get_block_state (NI w) x"
  by (auto simp: nmbm_eff_def)

lemma eff_erase_one:
  assumes "ba \<in> S" and "ba \<in> T"
  shows "nmbm_eff D Q S T w (erase_one D ba w)"
proof (cases "is_good (NI w) ba")
  case True
  obtain bad w1 where bd: "nmbm_check_bad_phys_block D ba w = (bad, w1)" by fastforce
  obtain ok w2 where er: "nmbm_erase_block_and_check D ba w1 = (ok, w2)" by fastforce
  note e1 = eff_isbad [OF bd] and e2 = eff_erase_and_check [OF er assms(2)]
  have "is_good (NI w1) ba" and "is_good (NI w2) ba"
    using True eff_keeps_good [OF e1] eff_keeps_good [OF e2] by simp_all
  then show ?thesis
    using True bd er nmbm_eff_trans [OF e1 nmbm_eff_set_bad] nmbm_eff_trans [OF e1 e2]
      nmbm_eff_trans [OF nmbm_eff_trans [OF e1 e2] eff_mark_bad] assms
    by (auto simp: erase_one_def)
qed (simp add: erase_one_def)

lemma eff_erase_range:
  assumes "{ba..<limit} \<subseteq> S" and "{ba..<limit} \<subseteq> T"
  shows "nmbm_eff D Q S T w (nmbm_erase_range D ba limit w)"
proof -
  have "{ba..<ba + n} \<subseteq> S \<Longrightarrow> {ba..<ba + n} \<subseteq> T \<Longrightarrow> nmbm_eff D Q S T w (erase_range_from D n ba w)" for n
  proof (induction n arbitrary: ba w)
    case (Suc n)
    then have "ba \<in> S" "ba \<in> T" "{ba + 1..<ba + 1 + n} \<subseteq> S" "{ba + 1..<ba + 1 + n} \<subseteq> T" by auto
    with Suc.IH [of "ba + 1"] show ?case by (auto intro: nmbm_eff_trans [OF eff_erase_one])
  qed simp
  from this [of "limit - ba"] assms show ?thesis
    by (cases "ba \<le> limit") (auto simp: nmbm_erase_range_def)
qed

lemma page_in_block:
  assumes "geom_ok w"
  shows "(off - page_leading (bmtd w) off) div 2 ^ blk_shift (bmtd w) = off div 2 ^ blk_shift (bmtd w)"
proof -
  let ?m = "2 ^ pg_shift (bmtd w) :: nat" and ?k = "2 ^ (blk_shift (bmtd w) - pg_shift (bmtd w)) :: nat"
  have "pg_size (bmtd w) - Suc 0 = mask (pg_shift (bmtd w))"
    using assms by (simp add: geom_ok_def mask_eq_exp_minus_1)
  then have "page_leading (bmtd w) off = off mod ?m"
    by (simp add: page_leading_def take_bit_eq_mask [symmetric] take_bit_eq_mod)
  then have "off - page_leading (bmtd w) off = ?m * (off div ?m)" by (simp add: minus_mod_eq_mult_div)
  moreover have "2 ^ blk_shift (bmtd w) = ?m * ?k"
    using assms by (simp add: geom_ok_def power_add [symmetric])
  ultimately show ?thesis by (simp add: div_mult2_eq)
qed

lemma div_range: "(0::nat) < k \<Longrightarrow> ba * k \<le> off \<Longrightarrow> off < Suc ba * k \<Longrightarrow> off div k = ba"
  by (simp add: div_nat_eqI mult.commute)

lemma eff_write_verify:
  assumes "nmbn_write_verify_data D off ptr w = (r, w')"
    and "T = UNIV \<or> geom_ok w \<and> ba \<in> T \<and> ba2addr (bmtd w) ba \<le> off \<and>
      off + length ptr \<le> ba2addr (bmtd w) (Suc ba)"
  shows "nmbm_eff D Q S T w w'"
  using assms
proof (induction D off ptr w rule: nmbn_write_verify_data.induct)
  case (1 D off ptr w)
  show ?case
  proof (cases "ptr = [] \<or> pg_size (bmtd w) = 0")
    case True
    with "1.prems"(1) show ?thesis by (auto simp: nmbn_write_verify_data.simps [of D off ptr w])
  next
    case False
    let ?b = "bmtd w"
    let ?leading = "page_leading ?b off" and ?cs = "page_chunk ?b off (length ptr)"
    let ?page = "replicate ?leading 0xff @ take ?cs ptr @ replicate (rawpage_size (NI w) - ?leading - ?cs) 0xff"
    define w1 where "w1 = set_page_cache ?page w"
    obtain ok w2 where wr: "nmbm_write_phys_page D (off - ?leading) (data_buf (bmtd w1)) w1 = (ok, w2)" by fastforce
    obtain ret w3 where rd: "read_to_page_cache D (off - ?leading) w2 = (ret, w3)" by fastforce
    have e1: "nmbm_eff D Q S T w w1" by (simp add: w1_def)
    have len: "0 < length ptr" using False by simp
    have "(off - ?leading) div 2 ^ blk_shift (bmtd w1) \<in> T"
    proof (cases "T = UNIV")
      case False
      with "1.prems"(2) have h: "geom_ok w" "ba \<in> T" "ba2addr ?b ba \<le> off" "off + length ptr \<le> ba2addr ?b (Suc ba)"
        by blast+
      then have "off < ba2addr ?b (Suc ba)" using len by linarith
      then have "off div 2 ^ blk_shift ?b = ba"
        using h(3) by (intro div_range) (simp_all add: ba2addr_def)
      then show ?thesis using page_in_block [OF h(1)] h(2) nmbm_eff_simps(3) [OF e1] by simp
    qed simp
    note e2 = eff_write [OF wr this, of Q S]
    have e3: "nmbm_eff D Q S T w w3"
      using nmbm_eff_trans [OF nmbm_eff_trans [OF e1 e2] eff_read_to_page_cache [OF rd]] .
    have unf: "nmbn_write_verify_data D off ptr w =
       (if \<not> ok then (False, w2) else if ret < 0 then (False, w3)
        else if take ?cs (drop ?leading (data_buf (bmtd w3))) \<noteq> take ?cs ptr then (False, w3)
        else nmbn_write_verify_data D (off + ?cs) (drop ?cs ptr) w3)"
      using False wr rd by (simp add: nmbn_write_verify_data.simps [of D off ptr w] w1_def Let_def)
    show ?thesis
    proof (cases "ok \<and> \<not> ret < 0 \<and> take ?cs (drop ?leading (data_buf (bmtd w3))) = take ?cs ptr")
      case True
      then have rec: "nmbn_write_verify_data D (off + ?cs) (drop ?cs ptr) w3 = (r, w')"
        using "1.prems"(1) unf by simp
      have g3: "geom_ok w3 \<longleftrightarrow> geom_ok w" using geom_ok_cong [OF nmbm_eff_simps(2) [OF e3]] .
      have "nmbm_eff D Q S T w3 w'"
      proof (rule "1.IH" [OF False refl refl refl refl refl])
        show "(True, w2) = nmbm_write_phys_page D (off - ?leading) (data_buf (bmtd (set_page_cache ?page w))) (set_page_cache ?page w)"
          using wr True by (simp add: w1_def)
        show "(ret, w3) = read_to_page_cache D (off - ?leading) w2" using rd by simp
        show "T = UNIV \<or> geom_ok w3 \<and> ba \<in> T \<and> ba2addr (bmtd w3) ba \<le> off + ?cs \<and>
            off + ?cs + length (drop ?cs ptr) \<le> ba2addr (bmtd w3) (Suc ba)"
          using "1.prems"(2) g3 nmbm_eff_simps(3) [OF e3] page_chunk_le [of ?b off "length ptr"]
          by (auto simp: ba2addr_def)
      qed (use True rec in auto)
      with e3 show ?thesis by (rule nmbm_eff_trans)
    next
      case False
      with "1.prems"(1) unf have "w' = w2 \<or> w' = w3" by (auto split: if_splits)
      with e3 nmbm_eff_trans [OF e1 e2] show ?thesis by blast
    qed
  qed
qed

lemma eff_write_mgmt_from:
  assumes "write_mgmt_from D n ba ptr first st w = (res, w')"
    and "{ba..<ba + n} \<subseteq> S" and "{ba..<ba + n} \<subseteq> T" and "T = UNIV \<or> geom_ok w"
  shows "nmbm_eff D Q S T w w'"
  using assms
proof (induction n arbitrary: ba ptr first st w)
  case (Suc n)
  have ba: "ba \<in> S" "ba \<in> T" and sub: "{ba + 1..<ba + 1 + n} \<subseteq> S" "{ba + 1..<ba + 1 + n} \<subseteq> T"
    using Suc.prems by auto
  have rec: "nmbm_eff D Q S T w w'"
    if "nmbm_eff D Q S T w v" "write_mgmt_from D n (ba + 1) ptr' first' st' v = (res, w')" for v ptr' first' st'
    using nmbm_eff_trans [OF that(1) Suc.IH [OF that(2) sub]] geom_ok_cong [OF nmbm_eff_simps(2) [OF that(1)]] Suc.prems(4)
    by simp
  show ?case
  proof (cases "ptr = [] \<or> \<not> is_good (NI w) ba")
    case True
    with Suc.prems rec [OF nmbm_eff_refl] show ?thesis by (auto split: if_splits)
  next
    case False
    obtain bad w1 where bd: "nmbm_check_bad_phys_block D ba w = (bad, w1)" by fastforce
    obtain ok w2 where er: "nmbm_erase_block_and_check D ba w1 = (ok, w2)" by fastforce
    let ?cs = "min (length ptr) (blk_size (bmtd w))"
    obtain ok' w3 where wv: "nmbn_write_verify_data D (ba2addr (bmtd w2) ba) (take ?cs ptr) w2 = (ok', w3)" by fastforce
    have e1: "nmbm_eff D Q' S' T' w w1" for Q' S' T' using bd by (rule eff_isbad)
    have e2: "nmbm_eff D Q' S' T w w2" for Q' S' using nmbm_eff_trans [OF e1 eff_erase_and_check [OF er ba(2)]] .
    have g2: "geom_ok w2 \<longleftrightarrow> geom_ok w" and b2: "blk_size (bmtd w2) = blk_size (bmtd w)"
      using geom_ok_cong [OF nmbm_eff_simps(2) [OF e2]] nmbm_eff_simps(4) [OF e2] by simp_all
    have fits: "T = UNIV \<or> geom_ok w2 \<and> ba \<in> T \<and> ba2addr (bmtd w2) ba \<le> ba2addr (bmtd w2) ba \<and>
        ba2addr (bmtd w2) ba + length (take ?cs ptr) \<le> ba2addr (bmtd w2) (Suc ba)"
      using Suc.prems(4) ba(2) g2 b2 by (auto simp: ba2addr_def geom_ok_def)
    have e3: "nmbm_eff D Q' S' T w w3" for Q' S'
      using nmbm_eff_trans [OF e2 eff_write_verify [OF wv fits]] .
    have good: "is_good (NI w1) ba" "is_good (NI w2) ba" "is_good (NI w3) ba"
      using False eff_keeps_good [OF e1] eff_keeps_good [OF e2] eff_keeps_good [OF e3] by simp_all
    have m: "nmbm_eff D Q S T w (set_bad ba w1)" "nmbm_eff D Q S T w (mark_bad D ba w2)"
      "nmbm_eff D Q S T w (mark_bad D ba w3)"
      using nmbm_eff_trans [OF e1 nmbm_eff_set_bad [OF ba(1) good(1)]]
        nmbm_eff_trans [OF e2 eff_mark_bad [OF ba good(2)]] nmbm_eff_trans [OF e3 eff_mark_bad [OF ba good(3)]] .
    have unf: "write_mgmt_from D (Suc n) ba ptr first st w =
      (if bad then write_mgmt_from D n (ba + 1) ptr first st (set_bad ba w1)
       else if \<not> ok then write_mgmt_from D n (ba + 1) ptr first st (mark_bad D ba w2)
       else if \<not> ok' then write_mgmt_from D n (ba + 1) ptr first st (mark_bad D ba w3)
       else write_mgmt_from D n (ba + 1) (drop ?cs ptr) False (if first then ba else st) w3)"
      using False bd er wv by (simp add: Let_def)
    show ?thesis
      using Suc.prems(1) unfolding unf using rec [OF m(1)] rec [OF m(2)] rec [OF m(3)] rec [OF e3] by metis
  qed
qed (auto split: if_splits)

lemma eff_write_mgmt_range:
  assumes "nmbm_write_mgmt_range D ba limit dat w = (res, w')"
    and "{ba..<limit} \<subseteq> S" and "{ba..<limit} \<subseteq> T" and "T = UNIV \<or> geom_ok w"
  shows "nmbm_eff D Q S T w w'"
  by (rule eff_write_mgmt_from [OF assms(1) [unfolded nmbm_write_mgmt_range_def]])
    (use assms(2-4) in \<open>auto simp: subset_iff\<close>)

text \<open>Where the data went: the block range starts at or after \<open>ba\<close> and ends at or before the limit.\<close>

lemma write_mgmt_from_result:
  assumes "write_mgmt_from D n ba ptr first st w = (Some (s, e), w')"
  shows "ba \<le> e \<and> e \<le> ba + n \<and> (\<not> first \<longrightarrow> s = st) \<and> (first \<and> ptr \<noteq> [] \<longrightarrow> ba \<le> s \<and> s < e)"
  using assms
proof (induction n arbitrary: ba ptr first st w)
  case (Suc n)
  show ?case
  proof (cases "ptr = []")
    case True
    with Suc.prems show ?thesis by simp
  next
    case False
    from Suc.prems False obtain ptr' first' st' v where
      r: "write_mgmt_from D n (ba + 1) ptr' first' st' v = (Some (s, e), w')"
      and alt: "ptr' = ptr \<and> first' = first \<and> st' = st \<or> \<not> first' \<and> st' = (if first then ba else st)"
      by (auto simp: Let_def split: if_splits prod.splits)
    from Suc.IH [OF r] alt False show ?thesis by auto
  qed
qed (auto split: if_splits)

lemma write_mgmt_range_result:
  assumes "nmbm_write_mgmt_range D ba limit dat w = (Some (s, e), w')" and "dat \<noteq> []"
  shows "ba \<le> s" and "s < e" and "e \<le> limit"
  using write_mgmt_from_result [OF assms(1) [unfolded nmbm_write_mgmt_range_def]] assms(2) by auto

end
