(* ===== verification/Nmbm_Table.thy ===== *)
theory Nmbm_Table
  imports Nmbm_Flash
begin

text \<open>
  The info tables of the NMBM back end (\<^verbatim>\<open>mtk_bmt_nmbm.c\<close>): the byte layout of the structures and
  their checksum, and the writing, updating and rescuing of the main and the backup table. The
  structures are stored as the (little-endian) machine keeps them in memory.

  \<^verbatim>\<open>crc32_le\<close> of the kernel is the parameter \<open>crc\<close>.
\<close>

section \<open>Layout and checksum\<close>

abbreviation (input) NMBM_MAGIC_SIGNATURE :: nat where "NMBM_MAGIC_SIGNATURE \<equiv> 0x304d4d4e"
abbreviation (input) NMBM_MAGIC_INFO_TABLE :: nat where "NMBM_MAGIC_INFO_TABLE \<equiv> 0x314d4d4e"

text \<open>\<^verbatim>\<open>NMBM_VERSION_MAKE(1, 0)\<close>\<close>

abbreviation (input) NMBM_VER :: nat where "NMBM_VER \<equiv> 1"

type_synonym crc_fun = "nat \<Rightarrow> byte list \<Rightarrow> nat"

function nmbm_crc32 :: "crc_fun \<Rightarrow> nat \<Rightarrow> byte list \<Rightarrow> nat" where
  "nmbm_crc32 crc crcval buf =
     (if buf = [] then crcval
      else nmbm_crc32 crc (crc crcval (take 4294967295 buf)) (drop 4294967295 buf))"
  by pat_completeness auto
termination
  by (relation "measure (\<lambda>(crc, c, buf). length buf)") auto

declare nmbm_crc32.simps [simp del]

definition u32_at :: "byte list \<Rightarrow> nat \<Rightarrow> nat" where
  "u32_at bs off = le_val (take 4 (drop off bs))"

definition patch :: "nat \<Rightarrow> byte list \<Rightarrow> byte list \<Rightarrow> byte list" where
  "patch off xs bs = take off bs @ xs @ drop (off + length xs) bs"

definition header_bytes :: "nmbm_header \<Rightarrow> byte list" where
  "header_bytes h = le32 (h_magic h) @ le32 (h_version h) @ le32 (h_size h) @ le32 (h_checksum h)"

definition header_of_bytes :: "byte list \<Rightarrow> nmbm_header" where
  "header_of_bytes bs = \<lparr>h_magic = u32_at bs 0, h_version = u32_at bs 4, h_size = u32_at bs 8, h_checksum = u32_at bs 12\<rparr>"

definition signature_bytes :: "nmbm_signature \<Rightarrow> byte list" where
  "signature_bytes s = header_bytes (sig_header s) @
     le32 (nand_size s mod 4294967296) @ le32 (nand_size s div 4294967296) @
     le32 (sig_block_size s) @ le32 (sig_page_size s) @ le32 (sig_spare_size s) @ le32 (mgmt_start_pb s) @
     of_nat (max_try_count s) # sig_padding s"

definition signature_of_bytes :: "byte list \<Rightarrow> nmbm_signature" where
  "signature_of_bytes bs =
     \<lparr>sig_header = header_of_bytes bs, nand_size = u32_at bs 16 + 4294967296 * u32_at bs 20,
      sig_block_size = u32_at bs 24, sig_page_size = u32_at bs 28, sig_spare_size = u32_at bs 32,
      mgmt_start_pb = u32_at bs 36, max_try_count = unat (arr_get 0 bs 40), sig_padding = drop 41 bs\<rparr>"

abbreviation (input) signature_size :: nat where "signature_size \<equiv> 48"

definition info_header_bytes :: "nmbm_info_table_header \<Rightarrow> byte list" where
  "info_header_bytes t = header_bytes (it_header t) @
     le32 (write_count t) @ le32 (state_table_off t) @ le32 (mapping_table_off t) @ le32 (it_padding t)"

definition info_header_of_bytes :: "byte list \<Rightarrow> nmbm_info_table_header" where
  "info_header_of_bytes bs =
     \<lparr>it_header = header_of_bytes bs, write_count = u32_at bs 16, state_table_off = u32_at bs 20,
      mapping_table_off = u32_at bs 24, it_padding = u32_at bs 28\<rparr>"

text \<open>The state table and the mapping table in memory order.\<close>

definition state_bytes :: "32 word list \<Rightarrow> byte list" where
  "state_bytes st = concat (map (\<lambda>v. le32 (unat v)) st)"

definition mapping_bytes :: "int list \<Rightarrow> byte list" where
  "mapping_bytes m = concat (map (\<lambda>v. le32 (u32_of_int v)) m)"

fun u32s_of_bytes :: "byte list \<Rightarrow> nat list" where
  "u32s_of_bytes (a # b # c # d # bs) = le_val [a, b, c, d] # u32s_of_bytes bs"
| "u32s_of_bytes _ = []"

definition states_of_bytes :: "byte list \<Rightarrow> 32 word list" where
  "states_of_bytes bs = map of_nat (u32s_of_bytes bs)"

definition mapping_of_bytes :: "byte list \<Rightarrow> int list" where
  "mapping_of_bytes bs = map s32 (u32s_of_bytes bs)"

definition nmbm_check_header :: "crc_fun \<Rightarrow> byte list \<Rightarrow> nat \<Rightarrow> bool" where
  "nmbm_check_header crc dat sz =
     (let hsize = u32_at dat 8
      in if hsize > sz then False
         else
           let c1 = nmbm_crc32 crc 0 (take 12 dat @ [0, 0, 0, 0]);
               c2 = (if hsize > 16 then nmbm_crc32 crc c1 (take (hsize - 16) (drop 16 dat)) else c1)
           in u32_at dat 12 = c2)"

definition nmbm_update_checksum :: "crc_fun \<Rightarrow> byte list \<Rightarrow> byte list" where
  "nmbm_update_checksum crc bs =
     (let z = patch 12 [0, 0, 0, 0] bs
      in patch 12 (le32 (nmbm_crc32 crc 0 (take (u32_at z 8) z))) z)"

section \<open>The cache of the info table\<close>

definition nmbm_generate_info_table_cache :: "crc_fun \<Rightarrow> nmbm_instance \<Rightarrow> bool \<times> nmbm_instance" where
  "nmbm_generate_info_table_cache crc n =
     (let c0 = replicate (info_table_size n) 0xff;
          c1 = patch (state_table_off (info_table n)) (take (state_table_size n) (state_bytes (block_state n))) c0;
          c2 = patch (mapping_table_off (info_table n)) (take (mapping_table_size n) (mapping_bytes (block_mapping n))) c1;
          changed = (block_state_changed n \<noteq> 0 \<or> block_mapping_changed n \<noteq> 0);
          t = (info_table n)\<lparr>it_header := (it_header (info_table n))\<lparr>h_magic := NMBM_MAGIC_INFO_TABLE,
                 h_version := NMBM_VER, h_size := info_table_size n\<rparr>,
               write_count := (if changed then u32 (write_count (info_table n) + 1) else write_count (info_table n))\<rparr>;
          c3 = patch 0 (info_header_bytes t) c2
      in (changed, n\<lparr>info_table := t, info_table_cache := nmbm_update_checksum crc c3\<rparr>))"

definition nmbm_write_info_table ::
    "'d nand_drv \<Rightarrow> nat \<Rightarrow> nat \<Rightarrow> 'd bmt_world \<Rightarrow> (nat \<times> nat) option \<times> 'd bmt_world" where
  "nmbm_write_info_table D ba limit w =
     nmbm_write_mgmt_range D ba limit (take (info_table_size (NI w)) (info_table_cache (NI w))) w"

definition nmbm_mark_tables_clean :: "nmbm_instance \<Rightarrow> nmbm_instance" where
  "nmbm_mark_tables_clean n = n\<lparr>block_state_changed := 0, block_mapping_changed := 0\<rparr>"

text \<open>The room for another table: the limit the callers of the reservation pass.\<close>

definition table_room :: "'d bmt_world \<Rightarrow> nat" where
  "table_room w = sub32 (mapping_blocks_top_ba (NI w)) (size2blk (bmtd w) (info_table_size (NI w)))"

section \<open>Building and rescuing tables\<close>

definition nmbm_rebuild_info_table :: "'d nand_drv \<Rightarrow> 'd bmt_world \<Rightarrow> bool \<times> 'd bmt_world" where
  "nmbm_rebuild_info_table D w =
     (let w1 = set_ni (\<lambda>n. n\<lparr>main_table_ba := 0, backup_table_ba := 0,
                 mapping_blocks_ba := mapping_blocks_top_ba n\<rparr>) w;
          (r, w2) = nmbm_write_info_table D (mgmt_start_ba (NI w1)) (mapping_blocks_top_ba (NI w1)) w1
      in case r of
           None \<Rightarrow> (False, set_ni (\<lambda>n. n\<lparr>protected := True\<rparr>) w2)
         | Some (start_ba, end_ba) \<Rightarrow>
             let w3 = set_ni (\<lambda>n. nmbm_mark_tables_clean (n\<lparr>main_table_ba := start_ba, mapping_blocks_ba := end_ba\<rparr>)) w2
             in case nmbm_try_reserve_blocks (NI w3) end_ba (info_table_spare_blocks (NI w3)) 0 (table_room w3) of
                  None \<Rightarrow> (True, w3)
                | Some next_start_ba \<Rightarrow>
                    let (r', w4) = nmbm_write_info_table D next_start_ba (mapping_blocks_top_ba (NI w3)) w3
                    in case r' of
                         None \<Rightarrow> (True, w4)
                       | Some (start_ba', end_ba') \<Rightarrow>
                           let w5 = set_ni (\<lambda>n. n\<lparr>backup_table_ba := start_ba', mapping_blocks_ba := end_ba'\<rparr>) w4
                           in (True, nmbm_erase_range D end_ba (backup_table_ba (NI w5)) w5))"

text \<open>
  The loops that try to write a table at \<open>write_ba\<close>, then one block lower, down to \<open>lo\<close>:
  \<open>k\<close> candidates are left, the next one is \<open>lo + k - 1\<close>. The code decrements \<open>write_ba\<close> below
  \<open>lo\<close> to end the loop; \<open>lo\<close> is the end of a table, so it is not 0.
\<close>

fun write_table_down :: "'d nand_drv \<Rightarrow> nat \<Rightarrow> nat \<Rightarrow> 'd bmt_world \<Rightarrow> (nat \<times> nat) option \<times> 'd bmt_world" where
  "write_table_down D lo 0 w = (None, w)"
| "write_table_down D lo (Suc k) w =
     (let (r, w1) = nmbm_write_info_table D (lo + k) (mapping_blocks_top_ba (NI w)) w
      in case r of Some p \<Rightarrow> (Some p, w1) | None \<Rightarrow> write_table_down D lo k w1)"

definition nmbm_rescue_single_info_table :: "'d nand_drv \<Rightarrow> 'd bmt_world \<Rightarrow> bool \<times> 'd bmt_world" where
  "nmbm_rescue_single_info_table D w =
     (let (r, w1) = nmbm_write_info_table D (mgmt_start_ba (NI w)) (main_table_ba (NI w)) w
      in case r of
           Some (start_ba, end_ba) \<Rightarrow>
             let w2 = set_ni (\<lambda>n. nmbm_mark_tables_clean (n\<lparr>backup_table_ba := main_table_ba n, main_table_ba := start_ba\<rparr>)) w1
             in (True, nmbm_erase_range D end_ba (backup_table_ba (NI w2)) w2)
         | None \<Rightarrow>
             case nmbm_try_reserve_blocks (NI w1) (mapping_blocks_ba (NI w1)) (info_table_spare_blocks (NI w1)) 0 (table_room w1) of
               None \<Rightarrow> (False, w1)
             | Some write_ba \<Rightarrow>
                 let (r', w2) = write_table_down D (mapping_blocks_ba (NI w1)) (write_ba + 1 - mapping_blocks_ba (NI w1)) w1
                 in case r' of
                      None \<Rightarrow> (False, w2)
                    | Some (start_ba, end_ba) \<Rightarrow>
                        let w3 = nmbm_erase_range D (mapping_blocks_ba (NI w2)) start_ba w2
                        in (True, set_ni (\<lambda>n. nmbm_mark_tables_clean (n\<lparr>backup_table_ba := start_ba, mapping_blocks_ba := end_ba\<rparr>)) w3))"

definition nmbm_update_single_info_table :: "'d nand_drv \<Rightarrow> bool \<Rightarrow> 'd bmt_world \<Rightarrow> bool \<times> 'd bmt_world" where
  "nmbm_update_single_info_table D update_main_table w =
     (let write_start_ba = (if update_main_table then main_table_ba (NI w) else backup_table_ba (NI w));
          write_limit = (if update_main_table then backup_table_ba (NI w) else mapping_blocks_top_ba (NI w));
          (r, w1) = nmbm_write_info_table D write_start_ba write_limit w
      in case r of
           Some (start_ba, end_ba) \<Rightarrow>
             (True, set_ni (\<lambda>n. nmbm_mark_tables_clean
                (if update_main_table then n\<lparr>main_table_ba := start_ba\<rparr>
                 else n\<lparr>backup_table_ba := start_ba, mapping_blocks_ba := end_ba\<rparr>)) w1)
         | None \<Rightarrow>
             if update_main_table
             then nmbm_rescue_single_info_table D
                    (set_ni (\<lambda>n. n\<lparr>main_table_ba := backup_table_ba n, backup_table_ba := 0\<rparr>) w1)
             else (False, set_ni (\<lambda>n. n\<lparr>mapping_blocks_ba := backup_table_ba n, backup_table_ba := 0\<rparr>) w1))"

text \<open>
  \<^verbatim>\<open>nmbm_rescue_main_info_table\<close>, in two parts: the second one starts where the main table has been
  written over the temporary one. The backup table takes the place of the main table:
\<close>

definition backup_becomes_main :: "nmbm_instance \<Rightarrow> nmbm_instance" where
  "backup_becomes_main n = n\<lparr>main_table_ba := backup_table_ba n, backup_table_ba := 0\<rparr>"

definition rescue_write_backup :: "'d nand_drv \<Rightarrow> nat \<Rightarrow> 'd bmt_world \<Rightarrow> bool \<times> 'd bmt_world" where
  "rescue_write_backup D main_end_ba w =
     (let w1 = set_ni (\<lambda>n. n\<lparr>mapping_blocks_ba := main_end_ba\<rparr>) w
      in case nmbm_try_reserve_blocks (NI w1) main_end_ba (info_table_spare_blocks (NI w1)) 0 (table_room w1) of
           None \<Rightarrow> (True, set_ni (\<lambda>n. n\<lparr>backup_table_ba := 0\<rparr>) w1)
         | Some write_ba \<Rightarrow>
             let (r, w2) = write_table_down D main_end_ba (write_ba + 1 - main_end_ba) w1
             in case r of
                  None \<Rightarrow> (True, set_ni (\<lambda>n. n\<lparr>backup_table_ba := 0\<rparr>) w2)
                | Some (start_ba, end_ba) \<Rightarrow>
                    let w3 = set_ni (\<lambda>n. n\<lparr>backup_table_ba := start_ba, mapping_blocks_ba := end_ba\<rparr>) w2
                    in (True, nmbm_erase_range D main_end_ba (backup_table_ba (NI w3)) w3))"

definition nmbm_rescue_main_info_table :: "'d nand_drv \<Rightarrow> 'd bmt_world \<Rightarrow> bool \<times> 'd bmt_world" where
  "nmbm_rescue_main_info_table D w =
     (case nmbm_try_reserve_blocks (NI w) (mapping_blocks_ba (NI w)) (info_table_spare_blocks (NI w)) 0 (table_room w) of
        None \<Rightarrow> (True, set_ni backup_becomes_main w)
      | Some write_ba \<Rightarrow>
          let (r, w1) = write_table_down D (mapping_blocks_ba (NI w)) (write_ba + 1 - mapping_blocks_ba (NI w)) w
          in case r of
               None \<Rightarrow> (True, set_ni backup_becomes_main w1)
             | Some (tmp_start_ba, tmp_end_ba) \<Rightarrow>
                 let w2 = set_ni (\<lambda>n. n\<lparr>mapping_blocks_ba := tmp_end_ba\<rparr>) w1;
                     (r', w3) = nmbm_write_info_table D (mgmt_start_ba (NI w2)) tmp_start_ba w2
                 in case r' of
                      None \<Rightarrow> (True, set_ni (\<lambda>n. nmbm_mark_tables_clean (n\<lparr>main_table_ba := tmp_start_ba, backup_table_ba := 0\<rparr>)) w3)
                    | Some (main_start_ba, main_end_ba) \<Rightarrow>
                        let w4 = set_ni (\<lambda>n. nmbm_mark_tables_clean (n\<lparr>main_table_ba := main_start_ba\<rparr>)) w3
                        in if main_end_ba \<le> tmp_start_ba
                           then (True, set_ni (\<lambda>n. n\<lparr>backup_table_ba := tmp_start_ba\<rparr>) w4)
                           else rescue_write_backup D main_end_ba w4)"

section \<open>Updating the tables\<close>

text \<open>The label \<^verbatim>\<open>write_main_table\<close> of \<^verbatim>\<open>nmbm_update_info_table_once\<close>.\<close>

definition update_main_table_at :: "'d nand_drv \<Rightarrow> nat \<Rightarrow> 'd bmt_world \<Rightarrow> bool \<times> 'd bmt_world" where
  "update_main_table_at D main_table_limit w =
     (if main_table_ba (NI w) = 0 then nmbm_rebuild_info_table D w
      else
        let (r, w1) = nmbm_write_info_table D (main_table_ba (NI w)) main_table_limit w
        in case r of
             None \<Rightarrow> if backup_table_ba (NI w1) = 0 then nmbm_rebuild_info_table D w1
                      else nmbm_rescue_main_info_table D w1
           | Some (start_ba, end_ba) \<Rightarrow>
               (True, set_ni (\<lambda>n. nmbm_mark_tables_clean (n\<lparr>main_table_ba := start_ba,
                  mapping_blocks_ba := (if backup_table_ba n = 0 then end_ba else mapping_blocks_ba n)\<rparr>)) w1))"

definition nmbm_update_info_table_once :: "crc_fun \<Rightarrow> 'd nand_drv \<Rightarrow> bool \<Rightarrow> 'd bmt_world \<Rightarrow> bool \<times> 'd bmt_world" where
  "nmbm_update_info_table_once crc D force w =
     (let changed = fst (nmbm_generate_info_table_cache crc (NI w));
          w1 = set_ni (\<lambda>n. snd (nmbm_generate_info_table_cache crc n)) w
      in if \<not> changed \<and> \<not> force then (True, w1)
         else if backup_table_ba (NI w1) = 0 then update_main_table_at D (mapping_blocks_top_ba (NI w1)) w1
         else
           let (r, w2) = nmbm_write_info_table D (backup_table_ba (NI w1)) (mapping_blocks_top_ba (NI w1)) w1
           in case r of
                None \<Rightarrow>
                  let w3 = set_ni (\<lambda>n. n\<lparr>mapping_blocks_ba := backup_table_ba n, backup_table_ba := 0\<rparr>) w2
                  in update_main_table_at D (mapping_blocks_top_ba (NI w3)) w3
              | Some (start_ba, end_ba) \<Rightarrow>
                  let w3 = set_ni (\<lambda>n. nmbm_mark_tables_clean (n\<lparr>backup_table_ba := start_ba, mapping_blocks_ba := end_ba\<rparr>)) w2
                  in update_main_table_at D (backup_table_ba (NI w3)) w3)"

section \<open>What updating the tables may change\<close>

text \<open>The members of the instance that writing tables leaves alone.\<close>

definition ni_fixed :: "nmbm_instance \<Rightarrow> int list \<times> nat \<times> nat \<times> nat \<times> nat \<times> nat" where
  "ni_fixed n = (block_mapping n, data_block_count n, block_count n, mapping_blocks_top_ba n, mgmt_start_ba n, signature_ba n)"

definition counters :: "'d bmt_world \<Rightarrow> nat \<times> nat" where
  "counters w = (block_state_changed (NI w), block_mapping_changed (NI w))"

text \<open>
  \<open>tbl_step\<close>: the state table changed at most by good blocks becoming bad. \<open>tidy\<close>: moreover, the
  change counters changed only if a block did. \<open>settles\<close>: the counters are zero unless a block
  was lost.
\<close>

definition tbl_step :: "'d bmt_world \<Rightarrow> 'd bmt_world \<Rightarrow> bool" where
  "tbl_step w w' \<longleftrightarrow> geom w' = geom w \<and> ni_fixed (NI w') = ni_fixed (NI w) \<and>
     length (block_state (NI w')) = length (block_state (NI w)) \<and>
     (\<forall>x. nmbm_get_block_state (NI w') x = nmbm_get_block_state (NI w) x \<or> lost (NI w) (NI w') x)"

definition some_lost :: "'d bmt_world \<Rightarrow> 'd bmt_world \<Rightarrow> bool" where
  "some_lost w w' \<longleftrightarrow> (\<exists>x. lost (NI w) (NI w') x)"

definition tidy :: "'d bmt_world \<Rightarrow> 'd bmt_world \<Rightarrow> bool" where
  "tidy w w' \<longleftrightarrow> tbl_step w w' \<and> (counters w' = counters w \<or> some_lost w w')"

definition settles :: "'d bmt_world \<Rightarrow> 'd bmt_world \<Rightarrow> bool" where
  "settles w w' \<longleftrightarrow> tbl_step w w' \<and> (counters w' = (0, 0) \<or> some_lost w w')"

lemma tbl_step_refl [simp]: "tbl_step w w"
  by (simp add: tbl_step_def)

lemma tidy_refl [simp]: "tidy w w"
  by (simp add: tidy_def)

lemma tbl_step_trans: "tbl_step w w1 \<Longrightarrow> tbl_step w1 w2 \<Longrightarrow> tbl_step w w2"
  unfolding tbl_step_def using lost_trans(3) [of "NI w1" _ "NI w" "NI w2"] by metis

lemma some_lost_trans:
  assumes "tbl_step w w1" and "tbl_step w1 w2" and "some_lost w w1 \<or> some_lost w1 w2"
  shows "some_lost w w2"
  using assms lost_trans(1,2) [of "NI w1" _ "NI w" "NI w2"] unfolding tbl_step_def some_lost_def by metis

lemma tidy_trans: "tidy w w1 \<Longrightarrow> tidy w1 w2 \<Longrightarrow> tidy w w2"
  unfolding tidy_def using tbl_step_trans [of w w1 w2] some_lost_trans [of w w1 w2] by auto

lemma tidy_step: "tidy w w' \<Longrightarrow> tbl_step w w'"
  by (simp add: tidy_def)

lemma settles_clean: "tbl_step w w1 \<Longrightarrow> counters w1 = (0, 0) \<Longrightarrow> tidy w1 w2 \<Longrightarrow> settles w w2"
  unfolding settles_def tidy_def using tbl_step_trans [of w w1 w2] some_lost_trans [of w w1 w2] by auto

lemma settles_after: "tbl_step w w1 \<Longrightarrow> settles w1 w2 \<Longrightarrow> settles w w2"
  unfolding settles_def using tbl_step_trans [of w w1 w2] some_lost_trans [of w w1 w2] by auto

lemma eff_tidy:
  assumes "nmbm_eff D Q S T w w'"
  shows "tidy w w'"
proof -
  from nmbm_eff_frame [OF assms] have "ni_fixed (NI w') = ni_fixed (NI w)"
    "block_mapping_changed (NI w') = block_mapping_changed (NI w)"
    by (rule ni_frameE, simp add: ni_fixed_def)+
  with assms nmbm_eff_simps(2,6) [OF assms] show ?thesis
    unfolding tidy_def tbl_step_def counters_def some_lost_def by (auto simp: nmbm_eff_def)
qed

lemma tbl_step_set_ni:
  "ni_fixed (f (NI w)) = ni_fixed (NI w) \<Longrightarrow> block_state (f (NI w)) = block_state (NI w) \<Longrightarrow> tbl_step w (set_ni f w)"
  by (simp add: tbl_step_def nmbm_get_block_state_def)

lemma tidy_set_ni:
  "ni_fixed (f (NI w)) = ni_fixed (NI w) \<Longrightarrow> block_state (f (NI w)) = block_state (NI w) \<Longrightarrow>
   block_state_changed (f (NI w)) = block_state_changed (NI w) \<Longrightarrow>
   block_mapping_changed (f (NI w)) = block_mapping_changed (NI w) \<Longrightarrow> tidy w (set_ni f w)"
  by (simp add: tidy_def tbl_step_set_ni counters_def)

lemma tidy_write_info: "nmbm_write_info_table D ba limit w = (r, w') \<Longrightarrow> tidy w w'"
  unfolding nmbm_write_info_table_def
  by (rule eff_tidy [where S = UNIV and T = UNIV and Q = "\<lambda>_. True" and D = D])
    (auto elim: eff_write_mgmt_range)

lemma tidy_erase_range: "tidy w (nmbm_erase_range D ba limit w)"
  by (rule eff_tidy [where S = UNIV and T = UNIV and Q = "\<lambda>_. True" and D = D]) (simp add: eff_erase_range)

lemma tidy_write_table_down: "write_table_down D lo k w = (r, w') \<Longrightarrow> tidy w w'"
proof (induction k arbitrary: w)
  case (Suc k)
  obtain r1 w1 where wi: "nmbm_write_info_table D (lo + k) (mapping_blocks_top_ba (NI w)) w = (r1, w1)" by fastforce
  from Suc tidy_write_info [OF wi] show ?case by (cases r1) (auto simp: wi intro: tidy_trans)
qed simp

lemma write_info_ni:
  assumes "nmbm_write_info_table D ba limit w = (r, w')"
  obtains st ch where "NI w' = (NI w)\<lparr>block_state := st, block_state_changed := ch\<rparr>"
proof -
  have "nmbm_eff D (\<lambda>_. True) UNIV UNIV w w'"
    using assms unfolding nmbm_write_info_table_def by (auto elim: eff_write_mgmt_range)
  from nmbm_eff_frame [OF this] show thesis by (rule ni_frameE) (simp add: that)
qed

section \<open>Every update settles\<close>

lemma rebuild_settles:
  assumes "nmbm_rebuild_info_table D w = (ok, w')"
  shows "tbl_step w w'" and "ok \<Longrightarrow> settles w w'"
proof -
  define w1 where "w1 = set_ni (\<lambda>n. n\<lparr>main_table_ba := 0, backup_table_ba := 0, mapping_blocks_ba := mapping_blocks_top_ba n\<rparr>) w"
  obtain r w2 where wr: "nmbm_write_info_table D (mgmt_start_ba (NI w1)) (mapping_blocks_top_ba (NI w1)) w1 = (r, w2)" by fastforce
  have "tidy w w1" by (simp add: w1_def tidy_set_ni ni_fixed_def)
  then have s2: "tbl_step w w2" using tidy_trans [OF _ tidy_write_info [OF wr]] tidy_step by blast
  have goal: "tbl_step w w' \<and> (ok \<longrightarrow> settles w w')"
  proof (cases r)
    case None
    then have "ok = False" "w' = set_ni (\<lambda>n. n\<lparr>protected := True\<rparr>) w2"
      using assms wr by (simp_all add: nmbm_rebuild_info_table_def w1_def Let_def)
    moreover have "tbl_step w2 (set_ni (\<lambda>n. n\<lparr>protected := True\<rparr>) w2)" by (simp add: tbl_step_set_ni ni_fixed_def)
    ultimately show ?thesis using s2 tbl_step_trans by blast
  next
    case (Some p)
    obtain s e where p: "r = Some (s, e)" using Some by (cases p) auto
    define w3 where "w3 = set_ni (\<lambda>n. nmbm_mark_tables_clean (n\<lparr>main_table_ba := s, mapping_blocks_ba := e\<rparr>)) w2"
    have "tbl_step w2 w3" by (simp add: w3_def tbl_step_set_ni ni_fixed_def nmbm_mark_tables_clean_def)
    then have s3: "tbl_step w w3" using s2 tbl_step_trans by blast
    have c3: "counters w3 = (0, 0)" by (simp add: w3_def counters_def nmbm_mark_tables_clean_def)
    have "ok \<and> tidy w3 w'"
    proof (cases "nmbm_try_reserve_blocks (NI w3) e (info_table_spare_blocks (NI w3)) 0 (table_room w3)")
      case None
      then show ?thesis using assms wr p by (simp add: nmbm_rebuild_info_table_def w1_def w3_def Let_def)
    next
      case (Some nx)
      obtain r' w4 where wr': "nmbm_write_info_table D nx (mapping_blocks_top_ba (NI w3)) w3 = (r', w4)" by fastforce
      note t4 = tidy_write_info [OF wr']
      show ?thesis
      proof (cases r')
        case None
        then show ?thesis using assms wr p Some wr' t4 by (simp add: nmbm_rebuild_info_table_def w1_def w3_def Let_def)
      next
        case (Some q)
        obtain s' e' where q: "r' = Some (s', e')" using Some by (cases q) auto
        define w5 where "w5 = set_ni (\<lambda>n. n\<lparr>backup_table_ba := s', mapping_blocks_ba := e'\<rparr>) w4"
        have "tidy w4 w5" by (simp add: w5_def tidy_set_ni ni_fixed_def)
        then have "tidy w3 (nmbm_erase_range D e (backup_table_ba (NI w5)) w5)"
          using t4 tidy_trans tidy_erase_range by blast
        moreover have "ok" "w' = nmbm_erase_range D e (backup_table_ba (NI w5)) w5"
          using assms wr p \<open>nmbm_try_reserve_blocks _ _ _ _ _ = Some nx\<close> wr' q
          by (simp_all add: nmbm_rebuild_info_table_def w1_def w3_def w5_def Let_def)
        ultimately show ?thesis by simp
      qed
    qed
    then show ?thesis using settles_clean [OF s3 c3] tbl_step_trans [OF s3 tidy_step] by blast
  qed
  then show "tbl_step w w'" "ok \<Longrightarrow> settles w w'" by blast+
qed


lemma tidy_rescue_write_backup:
  assumes "rescue_write_backup D e w = (ok, w')"
  shows "tidy w w'" and "ok"
proof -
  define w1 where "w1 = set_ni (\<lambda>n. n\<lparr>mapping_blocks_ba := e\<rparr>) w"
  have t1: "tidy w w1" by (simp add: w1_def tidy_set_ni ni_fixed_def)
  have z: "tidy v (set_ni (\<lambda>n. n\<lparr>backup_table_ba := 0\<rparr>) v)" for v :: "'a bmt_world"
    by (simp add: tidy_set_ni ni_fixed_def)
  have b: "tidy v (nmbm_erase_range D e x (set_ni (\<lambda>n. n\<lparr>backup_table_ba := s, mapping_blocks_ba := e'\<rparr>) v))" for v s e' x
    by (rule tidy_trans [OF tidy_set_ni tidy_erase_range]) (simp_all add: ni_fixed_def)
  note unf = rescue_write_backup_def [of D e w, folded w1_def] Let_def
  have "ok \<and> tidy w w'"
  proof (cases "nmbm_try_reserve_blocks (NI w1) e (info_table_spare_blocks (NI w1)) 0 (table_room w1)")
    case None
    with assms tidy_trans [OF t1 z] show ?thesis by (simp add: unf)
  next
    case (Some wb)
    obtain r w2 where wd: "write_table_down D e (wb + 1 - e) w1 = (r, w2)" by fastforce
    note t2 = tidy_trans [OF t1 tidy_write_table_down [OF wd]]
    with assms Some wd tidy_trans [OF t2 z] tidy_trans [OF t2 b] show ?thesis
      by (cases r) (auto simp: unf)
  qed
  then show "tidy w w'" "ok" by simp_all
qed

lemma rescue_main_settles:
  assumes "nmbm_rescue_main_info_table D w = (ok, w')"
  shows "tidy w w' \<or> settles w w'"
proof (cases "nmbm_try_reserve_blocks (NI w) (mapping_blocks_ba (NI w)) (info_table_spare_blocks (NI w)) 0 (table_room w)")
  case None
  have "tidy w (set_ni backup_becomes_main w)" by (simp add: backup_becomes_main_def tidy_set_ni ni_fixed_def)
  with assms None show ?thesis by (auto simp: nmbm_rescue_main_info_table_def)
next
  case (Some wb)
  obtain r w1 where wd: "write_table_down D (mapping_blocks_ba (NI w)) (wb + 1 - mapping_blocks_ba (NI w)) w = (r, w1)" by fastforce
  note t1 = tidy_write_table_down [OF wd]
  note unf = nmbm_rescue_main_info_table_def [of D w] Let_def
  show ?thesis
  proof (cases r)
    case None
    have "tidy w1 (set_ni backup_becomes_main w1)" by (simp add: backup_becomes_main_def tidy_set_ni ni_fixed_def)
    with assms Some wd None show ?thesis using tidy_trans [OF t1] by (simp add: unf)
  next
    case rs: (Some p)
    obtain ts te where p: "r = Some (ts, te)" using rs by (cases p) auto
    define w2 where "w2 = set_ni (\<lambda>n. n\<lparr>mapping_blocks_ba := te\<rparr>) w1"
    obtain r' w3 where wr: "nmbm_write_info_table D (mgmt_start_ba (NI w2)) ts w2 = (r', w3)" by fastforce
    have "tidy w1 w2" by (simp add: w2_def tidy_set_ni ni_fixed_def)
    then have s3: "tbl_step w w3" using tidy_trans [OF tidy_trans [OF t1] tidy_write_info [OF wr]] tidy_step by blast
    have clean: "tbl_step w (set_ni f w3) \<and> counters (set_ni f w3) = (0, 0)"
      if "f = (\<lambda>n. nmbm_mark_tables_clean (g n))" "ni_fixed (g (NI w3)) = ni_fixed (NI w3)"
        "block_state (g (NI w3)) = block_state (NI w3)" for f g
      using that tbl_step_trans [OF s3 tbl_step_set_ni [of f w3]]
      by (simp add: counters_def nmbm_mark_tables_clean_def ni_fixed_def)
    show ?thesis
    proof (cases r')
      case None
      with assms Some wd p wr show ?thesis
        using settles_clean [OF _ _ tidy_refl] clean [OF refl, of "\<lambda>n. n\<lparr>main_table_ba := ts, backup_table_ba := 0\<rparr>"]
        by (auto simp: unf w2_def ni_fixed_def)
    next
      case (Some q)
      obtain ms me where q: "r' = Some (ms, me)" using Some by (cases q) auto
      define w4 where "w4 = set_ni (\<lambda>n. nmbm_mark_tables_clean (n\<lparr>main_table_ba := ms\<rparr>)) w3"
      have c4: "tbl_step w w4" "counters w4 = (0, 0)"
        using clean [OF refl, of "\<lambda>n. n\<lparr>main_table_ba := ms\<rparr>"] by (simp_all add: w4_def ni_fixed_def)
      have "(if me \<le> ts then (True, set_ni (\<lambda>n. n\<lparr>backup_table_ba := ts\<rparr>) w4) else rescue_write_backup D me w4) = (ok, w')"
        using assms \<open>nmbm_try_reserve_blocks _ _ _ _ _ = Some wb\<close> wd p wr q by (simp add: unf w2_def w4_def split: if_splits)
      then have "tidy w4 w'"
        using tidy_rescue_write_backup [of D me w4 ok w'] tidy_set_ni [of "\<lambda>n. n\<lparr>backup_table_ba := ts\<rparr>" w4]
        by (auto simp: ni_fixed_def split: if_splits)
      with c4 settles_clean show ?thesis by blast
    qed
  qed
qed

lemma settles_step: "settles w w' \<Longrightarrow> tbl_step w w'"
  by (simp add: settles_def)

lemma tidy_settles: "tidy w w' \<Longrightarrow> counters w = (0, 0) \<Longrightarrow> settles w w'"
  by (auto simp: tidy_def settles_def)

lemma update_main_settles:
  assumes "update_main_table_at D limit w = (ok, w')"
  shows "tbl_step w w'" and "ok \<Longrightarrow> backup_table_ba (NI w) = 0 \<or> counters w = (0, 0) \<Longrightarrow> settles w w'"
proof -
  obtain r w1 where wr: "nmbm_write_info_table D (main_table_ba (NI w)) limit w = (r, w1)" by fastforce
  note t1 = tidy_write_info [OF wr]
  obtain st ch where n1: "NI w1 = (NI w)\<lparr>block_state := st, block_state_changed := ch\<rparr>" using wr by (rule write_info_ni)
  note unf = update_main_table_at_def [of D limit w] Let_def
  have "tbl_step w w' \<and> (ok \<longrightarrow> backup_table_ba (NI w) = 0 \<or> counters w = (0, 0) \<longrightarrow> settles w w')"
  proof (cases "main_table_ba (NI w) = 0")
    case True
    with assms rebuild_settles [of D w ok w'] show ?thesis by (simp add: unf)
  next
    case m: False
    show ?thesis
    proof (cases r)
      case None
      show ?thesis
      proof (cases "backup_table_ba (NI w) = 0")
        case True
        with m None wr assms n1 have "nmbm_rebuild_info_table D w1 = (ok, w')" by (simp add: unf)
        from rebuild_settles [OF this] show ?thesis
          using settles_after [OF tidy_step [OF t1]] tbl_step_trans [OF tidy_step [OF t1]] by blast
      next
        case False
        with m None wr assms n1 have "nmbm_rescue_main_info_table D w1 = (ok, w')" by (simp add: unf)
        from rescue_main_settles [OF this] have "tidy w w' \<or> settles w w'"
          using tidy_trans [OF t1] settles_after [OF tidy_step [OF t1]] by blast
        with False show ?thesis using tidy_step settles_step tidy_settles by blast
      qed
    next
      case (Some p)
      obtain s e where p: "p = (s, e)" by fastforce
      let ?f = "\<lambda>n. nmbm_mark_tables_clean (n\<lparr>main_table_ba := s,
                  mapping_blocks_ba := (if backup_table_ba n = 0 then e else mapping_blocks_ba n)\<rparr>)"
      have "tbl_step w (set_ni ?f w1)"
        by (rule tbl_step_trans [OF tidy_step [OF t1] tbl_step_set_ni]) (simp_all add: ni_fixed_def nmbm_mark_tables_clean_def)
      moreover have "counters (set_ni ?f w1) = (0, 0)" by (simp add: counters_def nmbm_mark_tables_clean_def)
      ultimately show ?thesis
        using m Some p wr assms settles_clean [OF _ _ tidy_refl, of w "set_ni ?f w1"] by (simp add: unf)
    qed
  qed
  then show "tbl_step w w'" "ok \<Longrightarrow> backup_table_ba (NI w) = 0 \<or> counters w = (0, 0) \<Longrightarrow> settles w w'" by blast+
qed

lemma generate_ni:
  "ni_fixed (snd (nmbm_generate_info_table_cache crc n)) = ni_fixed n"
  "block_state (snd (nmbm_generate_info_table_cache crc n)) = block_state n"
  "block_state_changed (snd (nmbm_generate_info_table_cache crc n)) = block_state_changed n"
  "block_mapping_changed (snd (nmbm_generate_info_table_cache crc n)) = block_mapping_changed n"
  "fst (nmbm_generate_info_table_cache crc n) \<longleftrightarrow> block_state_changed n \<noteq> 0 \<or> block_mapping_changed n \<noteq> 0"
  by (simp_all add: nmbm_generate_info_table_cache_def Let_def ni_fixed_def)

lemma once_settles:
  assumes "nmbm_update_info_table_once crc D force w = (ok, w')"
  shows "tbl_step w w'" and "ok \<Longrightarrow> settles w w'"
proof -
  let ?g = "\<lambda>n. snd (nmbm_generate_info_table_cache crc n)"
  define w1 where "w1 = set_ni ?g w"
  have t1: "tidy w w1" unfolding w1_def by (rule tidy_set_ni) (simp_all add: generate_ni)
  have c1: "counters w1 = counters w" by (simp add: w1_def counters_def generate_ni)
  obtain r w2 where wr: "nmbm_write_info_table D (backup_table_ba (NI w1)) (mapping_blocks_top_ba (NI w1)) w1 = (r, w2)" by fastforce
  note t2 = tidy_trans [OF t1 tidy_write_info [OF wr]]
  note unf = nmbm_update_info_table_once_def [of crc D force w, folded w1_def] Let_def
  have "tbl_step w w' \<and> (ok \<longrightarrow> settles w w')"
  proof (cases "counters w = (0, 0) \<and> \<not> force")
    case True
    then have "\<not> fst (nmbm_generate_info_table_cache crc (NI w))" by (simp add: generate_ni counters_def)
    with assms True have "w' = w1" by (simp add: nmbm_update_info_table_once_def w1_def Let_def)
    with t1 True tidy_settles tidy_step show ?thesis by blast
  next
    case changed: False
    then have ch: "\<not> (\<not> fst (nmbm_generate_info_table_cache crc (NI w)) \<and> \<not> force)"
      by (auto simp: generate_ni counters_def)
    have fin: "tbl_step w w' \<and> (ok \<longrightarrow> settles w w')"
      if "tbl_step w v" "update_main_table_at D lim v = (ok, w')" "backup_table_ba (NI v) = 0 \<or> counters v = (0, 0)" for v lim
      using update_main_settles [OF that(2)] that(1,3) tbl_step_trans settles_after by blast
    show ?thesis
    proof (cases "backup_table_ba (NI w1) = 0")
      case True
      with assms ch show ?thesis by (intro fin [OF tidy_step [OF t1]]) (auto simp: unf)
    next
      case b: False
      show ?thesis
      proof (cases r)
        case None
        let ?f = "\<lambda>n. n\<lparr>mapping_blocks_ba := backup_table_ba n, backup_table_ba := 0\<rparr>"
        have "tbl_step w (set_ni ?f w2)"
          by (rule tbl_step_trans [OF tidy_step [OF t2] tbl_step_set_ni]) (simp_all add: ni_fixed_def)
        with assms ch b wr None show ?thesis by (intro fin) (auto simp: unf)
      next
        case (Some p)
        obtain s e where p: "p = (s, e)" by fastforce
        let ?f = "\<lambda>n. nmbm_mark_tables_clean (n\<lparr>backup_table_ba := s, mapping_blocks_ba := e\<rparr>)"
        have "tbl_step w (set_ni ?f w2)"
          by (rule tbl_step_trans [OF tidy_step [OF t2] tbl_step_set_ni]) (simp_all add: ni_fixed_def nmbm_mark_tables_clean_def)
        moreover have "counters (set_ni ?f w2) = (0, 0)" by (simp add: counters_def nmbm_mark_tables_clean_def)
        ultimately show ?thesis using assms ch b wr Some p by (intro fin) (auto simp: unf)
      qed
    qed
  qed
  then show "tbl_step w w'" "ok \<Longrightarrow> settles w w'" by blast+
qed


section \<open>The update loop\<close>

definition good_blocks :: "nmbm_instance \<Rightarrow> nat set" where
  "good_blocks n = {x. is_good n x}"

lemma finite_good_blocks [simp]: "finite (good_blocks n)"
proof (rule finite_subset)
  show "good_blocks n \<subseteq> {..<16 * length (block_state n)}"
  proof
    fix x assume "x \<in> good_blocks n"
    then have "nmbm_get_block_state n x \<noteq> 0" by (simp add: good_blocks_def)
    from good_in_table [OF this] show "x \<in> {..<16 * length (block_state n)}" by simp
  qed
qed simp

lemma tbl_step_good_mono: "tbl_step w w' \<Longrightarrow> good_blocks (NI w') \<subseteq> good_blocks (NI w)"
  by (auto simp: tbl_step_def good_blocks_def lost_def) (metis zero_neq_numeral)

lemma some_lost_card:
  assumes "tbl_step w w'" and "some_lost w w'"
  shows "card (good_blocks (NI w')) < card (good_blocks (NI w))"
proof (rule psubset_card_mono)
  show "good_blocks (NI w') \<subset> good_blocks (NI w)"
  proof
    from assms(2) obtain x where "is_good (NI w) x" "nmbm_get_block_state (NI w') x = 0"
      by (auto simp: some_lost_def lost_def)
    then have "x \<in> good_blocks (NI w)" "x \<notin> good_blocks (NI w')" by (simp_all add: good_blocks_def)
    then show "good_blocks (NI w') \<noteq> good_blocks (NI w)" by blast
  qed (rule tbl_step_good_mono [OF assms(1)])
qed simp

function update_tables_loop :: "crc_fun \<Rightarrow> 'd nand_drv \<Rightarrow> 'd bmt_world \<Rightarrow> bool \<times> 'd bmt_world" where
  "update_tables_loop crc D w =
     (if block_state_changed (NI w) = 0 \<and> block_mapping_changed (NI w) = 0 then (True, w)
      else
        case nmbm_update_info_table_once crc D False w of
          (success, w1) \<Rightarrow> if \<not> success then (False, w1) else update_tables_loop crc D w1)"
  by pat_completeness auto
termination
proof (relation "measure (\<lambda>(crc, D, w). 2 * card (good_blocks (NI w)) + (if counters w = (0, 0) then 0 else 1))", goal_cases)
  case (2 crc D w success w1)
  then have s: "settles w w1" using once_settles(2) [of crc D False w True w1] by simp
  have "card (good_blocks (NI w1)) \<le> card (good_blocks (NI w))"
    using tbl_step_good_mono [OF settles_step [OF s]] by (simp add: card_mono)
  with 2 s some_lost_card [OF settles_step [OF s]] show ?case by (auto simp: settles_def counters_def)
qed simp

declare update_tables_loop.simps [simp del]

definition nmbm_update_info_table :: "crc_fun \<Rightarrow> 'd nand_drv \<Rightarrow> 'd bmt_world \<Rightarrow> bool \<times> 'd bmt_world" where
  "nmbm_update_info_table crc D w =
     (if protected (NI w) then (True, w) else update_tables_loop crc D w)"

lemma update_tables_loop_result:
  "update_tables_loop crc D w = (ok, w') \<Longrightarrow> tbl_step w w' \<and> (ok \<longrightarrow> counters w' = (0, 0))"
proof (induction crc D w rule: update_tables_loop.induct)
  case (1 crc D w)
  obtain ok1 w1 where on: "nmbm_update_info_table_once crc D False w = (ok1, w1)" by fastforce
  show ?case
  proof (cases "counters w = (0, 0)")
    case True
    with "1.prems" show ?thesis by (auto simp: update_tables_loop.simps [of crc D w] counters_def)
  next
    case False
    then have nz: "\<not> (block_state_changed (NI w) = 0 \<and> block_mapping_changed (NI w) = 0)" by (simp add: counters_def)
    note s1 = once_settles(1) [OF on]
    show ?thesis
    proof (cases ok1)
      case True
      with "1.prems" nz on have "update_tables_loop crc D w1 = (ok, w')"
        by (simp add: update_tables_loop.simps [of crc D w])
      from "1.IH" [OF nz on [symmetric] _ this] True s1 tbl_step_trans show ?thesis by blast
    next
      case False
      with "1.prems" nz on s1 show ?thesis by (simp add: update_tables_loop.simps [of crc D w])
    qed
  qed
qed

lemma update_info_table_step: "nmbm_update_info_table crc D w = (ok, w') \<Longrightarrow> tbl_step w w'"
  by (auto simp: nmbm_update_info_table_def split: if_splits dest: update_tables_loop_result)

section \<open>Checksums and layout\<close>

text \<open>What the code relies on of \<^verbatim>\<open>crc32_le\<close>: it can be continued, and its value has 32 bits.\<close>

definition crc_ok :: "crc_fun \<Rightarrow> bool" where
  "crc_ok crc \<longleftrightarrow> (\<forall>c a b. crc (crc c a) b = crc c (a @ b)) \<and> (\<forall>c a. crc c a < 4294967296)"

lemma nmbm_crc32_short: "length bs \<le> 4294967295 \<Longrightarrow> nmbm_crc32 crc c bs = (if bs = [] then c else crc c bs)"
  by (subst nmbm_crc32.simps) (simp add: nmbm_crc32.simps [of crc _ "[]"])

lemma length_patch [simp]: "off + length xs \<le> length bs \<Longrightarrow> length (patch off xs bs) = length bs"
  by (simp add: patch_def)

lemma patch_read_before:
  "a + k \<le> off \<Longrightarrow> off + length xs \<le> length bs \<Longrightarrow> take k (drop a (patch off xs bs)) = take k (drop a bs)"
  by (simp add: patch_def drop_take)

lemma patch_read_after:
  "off + length xs \<le> a \<Longrightarrow> off + length xs \<le> length bs \<Longrightarrow> drop a (patch off xs bs) = drop a bs"
  by (simp add: patch_def)

lemma patch_read_same:
  "off + length xs \<le> length bs \<Longrightarrow> take (length xs) (drop off (patch off xs bs)) = xs"
  by (simp add: patch_def)

lemma update_checksum_parts:
  assumes "16 \<le> length bs"
  shows "take 12 (nmbm_update_checksum crc bs) = take 12 bs"
    and "drop 16 (nmbm_update_checksum crc bs) = drop 16 bs"
    and "length (nmbm_update_checksum crc bs) = length bs"
    and "u32_at (nmbm_update_checksum crc bs) 8 = u32_at bs 8"
  using assms patch_read_before [of 0 12 12] patch_read_before [of 8 4 12] patch_read_after [of 12 _ 16]
  by (simp_all add: nmbm_update_checksum_def Let_def u32_at_def)

lemma check_update_checksum:
  assumes "crc_ok crc" and "16 \<le> u32_at bs 8" and "u32_at bs 8 \<le> length bs" and "length bs < 4294967296"
  shows "nmbm_check_header crc (nmbm_update_checksum crc bs) (length bs)"
proof -
  let ?h = "u32_at bs 8" and ?n = "nmbm_update_checksum crc bs"
  let ?z = "patch 12 [0, 0, 0, 0] bs"
  have l: "16 \<le> length bs" using assms by simp
  note parts = update_checksum_parts [OF l, of crc]
  have z: "?z = (take 12 bs @ [0, 0, 0, 0]) @ drop 16 bs" by (simp add: patch_def)
  have hz: "u32_at ?z 8 = ?h" using patch_read_before [of 8 4 12 "[0,0,0,0]" bs] l by (simp add: u32_at_def)
  have tz: "take ?h ?z = (take 12 bs @ [0, 0, 0, 0]) @ take (?h - 16) (drop 16 bs)"
  proof -
    define A where "A = take 12 bs @ [0, 0, 0, 0]"
    have "length A = 16" using l by (simp add: A_def)
    then show ?thesis unfolding z A_def [symmetric] using assms(2) by simp
  qed
  define c where "c = nmbm_crc32 crc 0 (take ?h ?z)"
  have ne: "take ?h ?z \<noteq> []" unfolding tz by simp
  have c: "c = crc 0 (take ?h ?z)" and cl: "c < 4294967296"
    using ne assms by (simp_all add: c_def nmbm_crc32_short crc_ok_def)
  have "?n = patch 12 (le32 c) ?z" by (simp add: nmbm_update_checksum_def Let_def hz c_def)
  then have "u32_at ?n 12 = c"
    using patch_read_same [of 12 "le32 c" ?z] l cl by (simp add: u32_at_def)
  moreover have "nmbm_crc32 crc 0 (take 12 bs @ [0, 0, 0, 0]) = crc 0 (take 12 bs @ [0, 0, 0, 0])"
    by (simp add: nmbm_crc32_short)
  moreover have "nmbm_crc32 crc d (take (?h - 16) (drop 16 bs)) = (if ?h > 16 then crc d (take (?h - 16) (drop 16 bs)) else d)" for d
    using assms(2-4) l by (auto simp: nmbm_crc32_short)
  ultimately show ?thesis
    using assms(1-3) parts unfolding nmbm_check_header_def Let_def c tz crc_ok_def
    by (auto simp: not_less)
qed

text \<open>The tables of an instance lie one behind the other in its info table.\<close>

definition layout_ok :: "nmbm_instance \<Rightarrow> bool" where
  "layout_ok n \<longleftrightarrow> 32 \<le> state_table_off (info_table n) \<and>
     state_table_off (info_table n) + state_table_size n \<le> mapping_table_off (info_table n) \<and>
     mapping_table_off (info_table n) + mapping_table_size n \<le> info_table_size n \<and> info_table_size n < 4294967296 \<and>
     state_table_size n = 4 * length (block_state n) \<and> mapping_table_size n = 4 * length (block_mapping n)"

lemma length_header_bytes [simp]: "length (header_bytes h) = 16"
  by (simp add: header_bytes_def)

lemma length_info_header_bytes [simp]: "length (info_header_bytes t) = 32"
  by (simp add: info_header_bytes_def)

lemma length_state_bytes [simp]: "length (state_bytes st) = 4 * length st"
  by (simp add: state_bytes_def concat_map_length_const)

lemma length_mapping_bytes [simp]: "length (mapping_bytes m) = 4 * length m"
  by (simp add: mapping_bytes_def concat_map_length_const)

lemma u32s_of_bytes_le32: "\<forall>v\<in>set vs. v < 4294967296 \<Longrightarrow> u32s_of_bytes (concat (map le32 vs)) = vs"
proof (induction vs)
  case (Cons v vs)
  have "u32s_of_bytes (le32 v @ bs) = le_val (le32 v) # u32s_of_bytes bs" for bs by (simp add: le32_def)
  with Cons show ?case by simp
qed simp

lemma states_roundtrip: "states_of_bytes (state_bytes st) = st"
proof -
  have "u32s_of_bytes (concat (map le32 (map unat st))) = map unat st"
  proof (rule u32s_of_bytes_le32, clarsimp)
    fix v :: "32 word"
    show "unat v < 4294967296" using unsigned_less [of v, where 'a = nat] by simp
  qed
  then show ?thesis by (simp add: states_of_bytes_def state_bytes_def comp_def)
qed

lemma s32_u32_of_int:
  assumes "- 2147483648 \<le> v" and "v < 2147483648"
  shows "s32 (u32_of_int v) = v"
proof (cases "0 \<le> v")
  case False
  have "v mod 4294967296 = v + 4294967296"
    using False assms(1) mod_pos_pos_trivial [of "v + 4294967296" 4294967296] by simp
  with False assms(1) show ?thesis by (simp add: s32_def u32_def u32_of_int_def nat_less_iff)
qed (use assms in \<open>simp add: s32_def u32_def u32_of_int_def\<close>)

lemma mapping_roundtrip:
  assumes "\<forall>v\<in>set m. - 2147483648 \<le> v \<and> v < 2147483648"
  shows "mapping_of_bytes (mapping_bytes m) = m"
proof -
  have "u32s_of_bytes (concat (map le32 (map u32_of_int m))) = map u32_of_int m"
    by (rule u32s_of_bytes_le32) (auto simp: u32_of_int_def)
  with assms show ?thesis by (simp add: mapping_of_bytes_def mapping_bytes_def comp_def s32_u32_of_int map_idI)
qed


text \<open>What the cache holds after it was generated.\<close>

lemma cache_layout:
  fixes crc :: crc_fun
  assumes "layout_ok n"
  defines "n' \<equiv> snd (nmbm_generate_info_table_cache crc n)"
  shows "length (info_table_cache n') = info_table_size n"
    and "u32_at (info_table_cache n') 8 = info_table_size n"
    and "take 16 (drop 16 (info_table_cache n')) = drop 16 (info_header_bytes (info_table n'))"
    and "take (state_table_size n) (drop (state_table_off (info_table n)) (info_table_cache n')) = state_bytes (block_state n)"
    and "take (mapping_table_size n) (drop (mapping_table_off (info_table n)) (info_table_cache n')) = mapping_bytes (block_mapping n)"
proof -
  let ?so = "state_table_off (info_table n)" and ?mo = "mapping_table_off (info_table n)"
  let ?sb = "state_bytes (block_state n)" and ?mb = "mapping_bytes (block_mapping n)"
  let ?t = "info_table n'"
  have lay: "32 \<le> ?so" "?so + state_table_size n \<le> ?mo" "?mo + mapping_table_size n \<le> info_table_size n"
    "info_table_size n < 4294967296" "state_table_size n = length ?sb" "mapping_table_size n = length ?mb"
    using assms(1) by (simp_all add: layout_ok_def)
  define c1 where "c1 = patch ?so ?sb (replicate (info_table_size n) 0xff)"
  define c2 where "c2 = patch ?mo ?mb c1"
  define c3 where "c3 = patch 0 (info_header_bytes ?t) c2"
  have l1: "length c1 = info_table_size n" unfolding c1_def using lay by (subst length_patch) simp_all
  then have l2: "length c2 = info_table_size n" unfolding c2_def using lay by (subst length_patch) simp_all
  then have l3: "length c3 = info_table_size n" unfolding c3_def using lay by (subst length_patch) simp_all
  have eq: "info_table_cache n' = nmbm_update_checksum crc c3"
    using lay by (simp add: n'_def nmbm_generate_info_table_cache_def Let_def c1_def c2_def c3_def)
  have hs: "h_size (it_header ?t) = info_table_size n"
    by (simp add: n'_def nmbm_generate_info_table_cache_def Let_def)
  have l16: "16 \<le> length c3" using l3 lay by simp
  note p = update_checksum_parts [OF l16, of crc]
  have after: "take k (drop a (info_table_cache n')) = take k (drop a c3)" if "16 \<le> a" for a k
    using that p(2) unfolding eq by (metis drop_drop le_add_diff_inverse2)
  show "length (info_table_cache n') = info_table_size n" using p(3) l3 by (simp add: eq)
  have h3: "take 32 c3 = info_header_bytes ?t"
    using patch_read_same [of 0 "info_header_bytes ?t" c2] l2 lay by (simp add: c3_def)
  have "u32_at c3 8 = le_val (take 4 (drop 8 (take 32 c3)))" by (simp add: u32_at_def drop_take)
  then show "u32_at (info_table_cache n') 8 = info_table_size n"
    using p(4) lay by (simp add: eq h3 info_header_bytes_def header_bytes_def hs)
  show "take 16 (drop 16 (info_table_cache n')) = drop 16 (info_header_bytes ?t)"
    unfolding h3 [symmetric] using after [of 16 16] by (simp add: drop_take)
  have "take (state_table_size n) (drop ?so c3) = take (state_table_size n) (drop ?so c1)"
    using patch_read_after [of 0 "info_header_bytes ?t" ?so c2] patch_read_before [of ?so "state_table_size n" ?mo ?mb c1] lay l1 l2
    by (simp add: c3_def c2_def)
  also have "\<dots> = ?sb" using patch_read_same [of ?so ?sb "replicate (info_table_size n) 0xff"] lay by (simp add: c1_def)
  finally show "take (state_table_size n) (drop ?so (info_table_cache n')) = ?sb" using after lay by simp
  have "take (mapping_table_size n) (drop ?mo c3) = take (mapping_table_size n) (drop ?mo c2)"
    using patch_read_after [of 0 "info_header_bytes ?t" ?mo c2] lay l2 by (simp add: c3_def)
  also have "\<dots> = ?mb" using patch_read_same [of ?mo ?mb c1] lay l1 by (simp add: c2_def)
  finally show "take (mapping_table_size n) (drop ?mo (info_table_cache n')) = ?mb" using after lay by simp
qed

section \<open>Properties\<close>

text \<open>
  C29. Updating the info tables changes no entry of the mapping and no part of the layout, and of the state table at most good blocks to bad ones. When it
  reports success on an instance that is not write protected, both counters of unrecorded changes are 0. (The recursion ends because each round with new
  changes has lost a good block. The counters are also cleared for changes that were found while the last copy was written, so that 0 does not say
  that the flash holds them.)
\<close>

theorem nmbm_update_info_table_settles:
  assumes "nmbm_update_info_table crc D w = (ok, w')"
  shows "(ok \<and> \<not> protected (NI w) \<longrightarrow> block_state_changed (NI w') = 0 \<and> block_mapping_changed (NI w') = 0) \<and>
    block_mapping (NI w') = block_mapping (NI w) \<and> data_block_count (NI w') = data_block_count (NI w) \<and>
    geom w' = geom w \<and>
    (\<forall>x. nmbm_get_block_state (NI w') x \<noteq> nmbm_get_block_state (NI w) x \<longrightarrow>
       nmbm_get_block_state (NI w) x = BLOCK_ST_GOOD \<and> nmbm_get_block_state (NI w') x = BLOCK_ST_BAD)"
proof -
  have s: "tbl_step w w'" using assms by (rule update_info_table_step)
  have "counters w' = (0, 0)" if "ok" "\<not> protected (NI w)"
    using assms that update_tables_loop_result [of crc D w ok w'] by (simp add: nmbm_update_info_table_def)
  with s show ?thesis by (auto simp: tbl_step_def counters_def ni_fixed_def lost_def)
qed

definition sum_crc :: crc_fun where
  "sum_crc c bs = (c + sum_list (map unat bs)) mod 4294967296"

lemma sum_crc_ok: "crc_ok sum_crc"
  by (simp add: crc_ok_def sum_crc_def mod_add_left_eq add.assoc)

theorem nmbm_update_info_table_settles_witness:
  "let (ok, w') = nmbm_update_info_table sum_crc log_drv
     \<lparr>dev = [], mtd = ex_mtd, bmtd = ex_desc\<lparr>ni := ex_nmbm\<lparr>block_mapping_changed := 1\<rparr>\<rparr>\<rparr>
   in (ok \<longrightarrow> block_mapping_changed (NI w') = 0) \<and> block_mapping (NI w') = block_mapping ex_nmbm"
proof -
  let ?w = "\<lparr>dev = [], mtd = ex_mtd, bmtd = ex_desc\<lparr>ni := ex_nmbm\<lparr>block_mapping_changed := 1\<rparr>\<rparr>\<rparr>"
  obtain ok w' where eq: "nmbm_update_info_table sum_crc log_drv ?w = (ok, w')" by fastforce
  from nmbm_update_info_table_settles [OF eq] eq show ?thesis by (simp add: ex_nmbm_def nmbm_instance_zero_def)
qed

text \<open>
  A structure whose checksum was updated passes the check: for every checksum function with
  the documented behaviour of \<^verbatim>\<open>crc32_le\<close> and every structure whose header gives a size between
  the header's and the buffer's.
\<close>

theorem nmbm_checksum_roundtrip:
  assumes "crc_ok crc" and "16 \<le> u32_at bs 8" and "u32_at bs 8 \<le> length bs" and "length bs < 4294967296"
  shows "nmbm_check_header crc (nmbm_update_checksum crc bs) (length bs)"
  using assms by (rule check_update_checksum)

theorem nmbm_checksum_roundtrip_witness:
  "nmbm_check_header sum_crc (nmbm_update_checksum sum_crc (replicate 8 1 @ [20, 0, 0, 0] @ replicate 8 7)) 20"
  using nmbm_checksum_roundtrip [OF sum_crc_ok, of "replicate 8 1 @ [20, 0, 0, 0] @ replicate 8 7"]
  by (simp add: u32_at_def)

text \<open>
  C31. The info table can be read back: in the generated cache of an instance with a proper layout
  the header check succeeds, and the two tables decode to the state table and the mapping table in memory.
\<close>

theorem nmbm_info_table_roundtrip:
  assumes "crc_ok crc" and "layout_ok n" and "\<forall>v\<in>set (block_mapping n). - 2147483648 \<le> v \<and> v < 2147483648"
  shows "let c = info_table_cache (snd (nmbm_generate_info_table_cache crc n)) in
    nmbm_check_header crc c (info_table_size n) \<and>
    states_of_bytes (take (state_table_size n) (drop (state_table_off (info_table n)) c)) = block_state n \<and>
    mapping_of_bytes (take (mapping_table_size n) (drop (mapping_table_off (info_table n)) c)) = block_mapping n"
proof -
  note l = cache_layout [OF assms(2), of crc]
  let ?n' = "snd (nmbm_generate_info_table_cache crc n)"
  obtain bs where bs: "info_table_cache ?n' = nmbm_update_checksum crc bs"
    by (simp add: nmbm_generate_info_table_cache_def Let_def)
  have "32 \<le> info_table_size n" "info_table_size n < 4294967296" using assms(2) by (auto simp: layout_ok_def)
  moreover have "16 \<le> length bs" using l(1) calculation unfolding bs nmbm_update_checksum_def by (simp add: Let_def patch_def)
  ultimately have "nmbm_check_header crc (info_table_cache ?n') (info_table_size n)"
    using check_update_checksum [OF assms(1), of bs] l(1,2) update_checksum_parts(3,4) [of bs crc] bs by simp
  with l(4,5) assms(3) show ?thesis by (simp add: Let_def states_roundtrip mapping_roundtrip)
qed

definition ex_nmbm_table :: nmbm_instance where
  "ex_nmbm_table = ex_nmbm\<lparr>info_table_size := 160, state_table_size := 4, mapping_table_size := 64,
     info_table := (info_table nmbm_instance_zero)\<lparr>state_table_off := 32, mapping_table_off := 64\<rparr>\<rparr>"

theorem nmbm_info_table_roundtrip_witness:
  "mapping_of_bytes (take 64 (drop 64 (info_table_cache (snd (nmbm_generate_info_table_cache sum_crc ex_nmbm_table))))) =
     replicate 16 0"
  using nmbm_info_table_roundtrip [OF sum_crc_ok, of ex_nmbm_table]
  by (simp add: Let_def layout_ok_def ex_nmbm_table_def ex_nmbm_def)

end
