(* ===== verification/Nmbm_Attach.thy ===== *)
theory Nmbm_Attach
  imports Nmbm_Table
begin

text \<open>
  The NMBM back end (\<^verbatim>\<open>mtk_bmt_nmbm.c\<close>) from mapping a block to the operations it gives to the
  layer: creating the tables on a new chip, finding and loading them on a used one, remapping
  and unmapping.
\<close>

section \<open>Mapping a block\<close>

definition nmbm_map_block :: "crc_fun \<Rightarrow> 'd nand_drv \<Rightarrow> nat \<Rightarrow> 'd bmt_world \<Rightarrow> bool \<times> 'd bmt_world" where
  "nmbm_map_block crc D lb w =
     (if mapping_blocks_ba (NI w) = mapping_blocks_top_ba (NI w) then (False, w)
      else
        case nmbm_block_walk (NI w) False (mapping_blocks_top_ba (NI w)) 0 (mapping_blocks_ba (NI w)) of
          None \<Rightarrow>
            let (_, w1) = nmbm_update_info_table crc D w
            in (False, set_ni (\<lambda>n. n\<lparr>mapping_blocks_top_ba := mapping_blocks_ba n\<rparr>) w1)
        | Some pb \<Rightarrow>
            (True, set_ni (\<lambda>n. n\<lparr>block_mapping := (block_mapping n)[lb := int pb],
                mapping_blocks_top_ba := sub32 (mapping_blocks_top_ba n) 1,
                block_mapping_changed := u32 (block_mapping_changed n + 1)\<rparr>) w))"

section \<open>Creating the tables\<close>

text \<open>The loop that maps the logical blocks at the end of the data area, \<open>k\<close> of them left.\<close>

fun map_data_end :: "crc_fun \<Rightarrow> 'd nand_drv \<Rightarrow> nat \<Rightarrow> nat \<Rightarrow> 'd bmt_world \<Rightarrow> 'd bmt_world" where
  "map_data_end crc D 0 lb w = w"
| "map_data_end crc D (Suc k) lb w =
     (let (success, w1) = nmbm_map_block crc D lb w
      in if \<not> success then w1
         else map_data_end crc D k (lb + 1)
                (set_ni (\<lambda>n. n\<lparr>data_block_count := u32 (data_block_count n + 1)\<rparr>) w1))"

definition nmbm_create_info_table :: "crc_fun \<Rightarrow> 'd nand_drv \<Rightarrow> 'd bmt_world \<Rightarrow> bool \<times> 'd bmt_world" where
  "nmbm_create_info_table crc D w =
     (case nmbm_block_walk (NI w) False (signature_ba (NI w)) 1 (mgmt_start_ba (NI w)) of
        None \<Rightarrow> (False, w)
      | Some top_ba \<Rightarrow>
          let w1 = set_ni (\<lambda>n. snd (nmbm_generate_info_table_cache crc (n\<lparr>mapping_blocks_top_ba := top_ba\<rparr>))) w;
              (success, w2) = nmbm_rebuild_info_table D w1
          in if \<not> success then (False, w2)
             else nmbm_update_info_table crc D
                    (map_data_end crc D (mgmt_start_ba (NI w2) - data_block_count (NI w2)) (data_block_count (NI w2)) w2))"

text \<open>The lower bound of the management blocks on a new chip.\<close>

definition mgmt_start :: "nmbm_instance \<Rightarrow> nat" where
  "mgmt_start n =
     (let start = u32 (block_count n * sub32 16 (max_ratio n)) div 16
      in if max_reserved_blocks n \<noteq> 0 \<and> sub32 (block_count n) start > max_reserved_blocks n
         then sub32 (block_count n) (max_reserved_blocks n) else start)"

definition chip_bytes :: "bmt_desc \<Rightarrow> nat" where
  "chip_bytes b = u64_of_int (s32 (total_blks b * 2 ^ blk_shift b))"

definition new_signature :: "crc_fun \<Rightarrow> 'd bmt_world \<Rightarrow> nmbm_signature" where
  "new_signature crc w =
     (let s = (signature (NI w))\<lparr>sig_header := (sig_header (signature (NI w)))\<lparr>h_magic := NMBM_MAGIC_SIGNATURE,
                h_version := NMBM_VER, h_size := signature_size, h_checksum := 0\<rparr>,
              nand_size := chip_bytes (bmtd w), sig_block_size := blk_size (bmtd w),
              sig_page_size := pg_size (bmtd w), sig_spare_size := oobsize (mtd w),
              mgmt_start_pb := mgmt_start_ba (NI w), max_try_count := NMBM_TRY_COUNT\<rparr>
      in s\<lparr>sig_header := (sig_header s)\<lparr>h_checksum := nmbm_crc32 crc 0 (signature_bytes s)\<rparr>\<rparr>)"

definition nmbm_create_new :: "crc_fun \<Rightarrow> 'd nand_drv \<Rightarrow> 'd bmt_world \<Rightarrow> bool \<times> 'd bmt_world" where
  "nmbm_create_new crc D w =
     (let w1 = set_ni (\<lambda>n. n\<lparr>mgmt_start_ba := mgmt_start n\<rparr>) w;
          w2 = set_ni nmbm_build_mapping_table (nmbm_scan_badblocks D w1);
          w3 = set_ni (\<lambda>n. n\<lparr>signature := new_signature crc w2\<rparr>) w2;
          (r, w4) = nmbm_write_signature D (mgmt_start_ba (NI w3)) (signature_bytes (signature (NI w3))) w3
      in case r of
           None \<Rightarrow> (False, w4)
         | Some ba \<Rightarrow> nmbm_create_info_table crc D (set_ni (\<lambda>n. n\<lparr>signature_ba := ba\<rparr>) w4))"

section \<open>Checking a table\<close>

definition nmbm_check_info_table_header :: "nmbm_instance \<Rightarrow> byte list \<Rightarrow> bool" where
  "nmbm_check_info_table_header n dat =
     (let h = info_header_of_bytes dat
      in h_magic (it_header h) = NMBM_MAGIC_INFO_TABLE \<and> h_size (it_header h) = info_table_size n \<and>
         \<not> sub32 (mapping_table_off h) (state_table_off h) < state_table_size n \<and>
         \<not> sub32 (info_table_size n) (mapping_table_off h) < mapping_table_size n)"

text \<open>
  The first loop of \<^verbatim>\<open>nmbm_check_info_table\<close>; the comparisons are between \<^verbatim>\<open>int32_t\<close> and
  \<^verbatim>\<open>uint32_t\<close>, hence unsigned, so the entries are read as such.
\<close>

fun check_mapping :: "nmbm_instance \<Rightarrow> nat \<Rightarrow> (nat \<Rightarrow> nat) \<Rightarrow> nat \<Rightarrow> nat \<Rightarrow> nat \<Rightarrow> nat option" where
  "check_mapping n end_ba entry 0 ba minimum = Some minimum"
| "check_mapping n end_ba entry (Suc k) ba minimum =
     (let m = entry ba
      in if (m \<ge> data_block_count n \<and> m < end_ba) \<or> m = signature_ba n then None
         else check_mapping n end_ba entry k (ba + 1) (if m \<ge> end_ba \<and> m < minimum then m else minimum))"

fun check_states :: "nmbm_instance \<Rightarrow> 32 word list \<Rightarrow> nat \<Rightarrow> nat \<Rightarrow> bool" where
  "check_states n st 0 ba = True"
| "check_states n st (Suc k) ba =
     (if nmbm_get_block_state n ba = BLOCK_ST_GOOD \<and> nmbm_get_block_state_raw st ba \<noteq> BLOCK_ST_GOOD then False
      else check_states n st k (ba + 1))"

definition nmbm_check_info_table :: "nmbm_instance \<Rightarrow> nat \<Rightarrow> nat \<Rightarrow> byte list \<Rightarrow> nat option" where
  "nmbm_check_info_table n start_ba end_ba dat =
     (let h = info_header_of_bytes dat
      in case check_mapping n end_ba (\<lambda>i. u32_at dat (mapping_table_off h + 4 * i)) (data_block_count n) 0 (signature_ba n) of
           None \<Rightarrow> None
         | Some minimum \<Rightarrow>
             if check_states n (states_of_bytes (drop (state_table_off h) dat)) (end_ba - start_ba) start_ba
             then Some (sub32 minimum 1) else None)"

section \<open>Loading a table\<close>

text \<open>
  The loop of \<^verbatim>\<open>nmbm_try_load_info_table\<close>: \<open>k\<close> blocks are left, \<open>off\<close> bytes of the cache have been
  read, \<open>checkhdr\<close> and \<open>start_ba\<close> are the locals. The result is the pair of start and end
  block.
\<close>

fun load_table_from ::
    "'d nand_drv \<Rightarrow> nat \<Rightarrow> nat \<Rightarrow> nat \<Rightarrow> bool \<Rightarrow> nat \<Rightarrow> 'd bmt_world \<Rightarrow> (nat \<times> nat) option \<times> 'd bmt_world" where
  "load_table_from D 0 ba off checkhdr start_ba w =
     (if info_table_size (NI w) - off = 0 then Some (start_ba, ba) else None, w)"
| "load_table_from D (Suc k) ba off checkhdr start_ba w =
     (let sizeremain = info_table_size (NI w) - off
      in if sizeremain = 0 then (Some (start_ba, ba), w)
         else if nmbm_get_block_state (NI w) ba \<noteq> BLOCK_ST_GOOD
         then load_table_from D k (ba + 1) off checkhdr start_ba w
         else
           let (bad, w1) = nmbm_check_bad_phys_block D ba w
           in if bad then load_table_from D k (ba + 1) off checkhdr start_ba (set_bad ba w1)
              else
                let chunksize = min sizeremain (blk_size (bmtd w));
                    (ret, dat, w2) = nmbn_read_data D (ba2addr (bmtd w1) ba) chunksize w1;
                    w3 = set_ni (\<lambda>n. n\<lparr>info_table_cache := patch off dat (info_table_cache n)\<rparr>) w2
                in if ret < 0 then load_table_from D k (ba + 1) off checkhdr start_ba (set_bad ba w3)
                   else if ret > 0 then (None, w3)
                   else if checkhdr \<and> \<not> nmbm_check_info_table_header (NI w3) (drop off (info_table_cache (NI w3)))
                   then (None, w3)
                   else load_table_from D k (ba + 1) (off + chunksize) False (if checkhdr then ba else start_ba) w3)"

text \<open>The result is the end block, the write count and the top of the mapping blocks.\<close>

definition nmbm_try_load_info_table ::
    "crc_fun \<Rightarrow> 'd nand_drv \<Rightarrow> nat \<Rightarrow> bool \<Rightarrow> 'd bmt_world \<Rightarrow> (nat \<times> nat \<times> nat) option \<times> 'd bmt_world" where
  "nmbm_try_load_info_table crc D ba table_loaded w =
     (let limit = u32 (ba + size2blk (bmtd w) (info_table_size (NI w)));
          (r, w1) = load_table_from D (limit - ba) ba 0 True 0 w
      in case r of
           None \<Rightarrow> (None, w1)
         | Some (start_ba, eba) \<Rightarrow>
             let cache = info_table_cache (NI w1); h = info_header_of_bytes cache
             in if \<not> nmbm_check_header crc cache (info_table_size (NI w1)) then (None, w1)
                else
                  case nmbm_check_info_table (NI w1) start_ba eba cache of
                    None \<Rightarrow> (None, w1)
                  | Some top_ba \<Rightarrow>
                      (Some (eba, write_count h, top_ba),
                       if \<not> table_loaded \<or> write_count h > write_count (info_table (NI w1))
                       then set_ni (\<lambda>n. n\<lparr>info_table := h,
                              block_state := states_of_bytes (take (state_table_size n) (drop (state_table_off h) cache)),
                              block_mapping := mapping_of_bytes (take (mapping_table_size n) (drop (mapping_table_off h) cache))\<rparr>) w1
                       else w1))"

fun search_table_from ::
    "crc_fun \<Rightarrow> 'd nand_drv \<Rightarrow> nat \<Rightarrow> nat \<Rightarrow> bool \<Rightarrow> 'd bmt_world \<Rightarrow> (nat \<times> nat \<times> nat \<times> nat) option \<times> 'd bmt_world" where
  "search_table_from crc D 0 ba table_loaded w = (None, w)"
| "search_table_from crc D (Suc k) ba table_loaded w =
     (let (r, w1) = nmbm_try_load_info_table crc D ba table_loaded w
      in case r of
           Some (eba, wc, top_ba) \<Rightarrow> (Some (ba, eba, wc, top_ba), w1)
         | None \<Rightarrow> search_table_from crc D k (ba + 1) table_loaded w1)"

definition nmbm_search_info_table ::
    "crc_fun \<Rightarrow> 'd nand_drv \<Rightarrow> nat \<Rightarrow> nat \<Rightarrow> bool \<Rightarrow> 'd bmt_world \<Rightarrow> (nat \<times> nat \<times> nat \<times> nat) option \<times> 'd bmt_world" where
  "nmbm_search_info_table crc D ba limit table_loaded w =
     search_table_from crc D (sub32 limit (size2blk (bmtd w) (info_table_size (NI w))) - ba) ba table_loaded w"

text \<open>The loop that finds the last mapped data block, from \<open>i\<close> down.\<close>

fun last_mapped :: "int list \<Rightarrow> nat \<Rightarrow> nat option" where
  "last_mapped m 0 = None"
| "last_mapped m (Suc i) = (if arr_get 0 m i \<ge> 0 then Some (Suc i) else last_mapped m i)"

definition nmbm_load_info_table :: "crc_fun \<Rightarrow> 'd nand_drv \<Rightarrow> nat \<Rightarrow> nat \<Rightarrow> 'd bmt_world \<Rightarrow> bool \<times> 'd bmt_world" where
  "nmbm_load_info_table crc D ba limit w =
     (let w1 = set_ni (\<lambda>n. n\<lparr>main_table_ba := 0, backup_table_ba := 0,
                 info_table := (info_table n)\<lparr>write_count := 0\<rparr>,
                 mapping_blocks_top_ba := sub32 (signature_ba n) 1,
                 data_block_count := mgmt_start_pb (signature n)\<rparr>) w;
          (r1, w2) = nmbm_search_info_table crc D ba limit False w1
      in case r1 of
           None \<Rightarrow> (False, w2)
         | Some (main_ba, main_end_ba, main_wc, main_top_ba) \<Rightarrow>
             let w3 = set_ni (\<lambda>n. n\<lparr>main_table_ba := main_ba\<rparr>) w2;
                 (r2, w4) = nmbm_search_info_table crc D main_end_ba limit True w3;
                 w5 = (case r2 of None \<Rightarrow> w4 | Some (b, _, _, _) \<Rightarrow> set_ni (\<lambda>n. n\<lparr>backup_table_ba := b\<rparr>) w4);
                 table_end_ba = (case r2 of None \<Rightarrow> main_end_ba | Some (_, e, _, _) \<Rightarrow> e);
                 backup_wc = (case r2 of None \<Rightarrow> 0 | Some (_, _, wc, _) \<Rightarrow> wc);
                 top_ba = (case r2 of None \<Rightarrow> main_top_ba
                           | Some (_, _, wc, t) \<Rightarrow>
                               if backup_table_ba (NI w5) = 0 \<or> main_wc \<ge> wc then main_top_ba else t);
                 w6 = set_ni (\<lambda>n. n\<lparr>mapping_blocks_top_ba := top_ba, mapping_blocks_ba := table_end_ba,
                        data_block_count := (case last_mapped (block_mapping n) (mgmt_start_pb (signature n)) of
                           None \<Rightarrow> data_block_count n | Some i \<Rightarrow> i)\<rparr>) w5;
                 w7 = set_ni (\<lambda>n. snd (nmbm_generate_info_table_cache crc n)) w6;
                 (success, w8) =
                   (if backup_table_ba (NI w7) = 0 then nmbm_rescue_single_info_table D w7
                    else if main_wc \<noteq> backup_wc
                    then nmbm_update_single_info_table D (main_wc < backup_wc)
                           (set_ni (\<lambda>n. n\<lparr>block_state_changed := 1, block_mapping_changed := 1\<rparr>) w7)
                    else (True, w7))
             in (True, if mapping_blocks_ba (NI w8) = mapping_blocks_top_ba (NI w8) \<or> \<not> success
                       then set_ni (\<lambda>n. n\<lparr>protected := True\<rparr>) w8 else w8))"

definition nmbm_load_existing :: "crc_fun \<Rightarrow> 'd nand_drv \<Rightarrow> 'd bmt_world \<Rightarrow> bool \<times> 'd bmt_world" where
  "nmbm_load_existing crc D w =
     (let w1 = set_ni (\<lambda>n. n\<lparr>mgmt_start_ba := mgmt_start_pb (signature n)\<rparr>) w;
          (success, w2) = nmbm_load_info_table crc D (mgmt_start_ba (NI w1)) (signature_ba (NI w1)) w1
      in if success then (True, w2)
         else if \<not> force_create (NI w2) then (False, w2)
         else nmbm_create_info_table crc D (set_ni nmbm_build_mapping_table (nmbm_scan_badblocks D w2)))"

section \<open>Finding the signature\<close>

text \<open>The page loop of \<^verbatim>\<open>nmbm_find_signature\<close>, \<open>k\<close> pages left.\<close>

fun find_signature_page ::
    "crc_fun \<Rightarrow> 'd nand_drv \<Rightarrow> nat \<Rightarrow> nat \<Rightarrow> 'd bmt_world \<Rightarrow> nmbm_signature option \<times> 'd bmt_world" where
  "find_signature_page crc D 0 addr w = (None, w)"
| "find_signature_page crc D (Suc k) addr w =
     (let (ret, dat, w1) = nmbn_read_data D addr signature_size w
      in if ret = 0 \<and> nmbm_check_header crc dat signature_size \<and> h_magic (header_of_bytes dat) = NMBM_MAGIC_SIGNATURE
         then (Some (signature_of_bytes dat), w1)
         else find_signature_page crc D k (addr + pg_size (bmtd w)) w1)"

text \<open>
  The block loop runs while \<open>ba \<ge> limit\<close> and decrements \<open>ba\<close> first. With a limit of 0 it does
  not end by itself, so it is a partial function.
\<close>

partial_function (option) find_signature_from ::
    "crc_fun \<Rightarrow> 'd nand_drv \<Rightarrow> nat \<Rightarrow> nat \<Rightarrow> 'd bmt_world \<Rightarrow> ((nmbm_signature \<times> nat) option \<times> 'd bmt_world) option" where
  "find_signature_from crc D limit ba w =
     (if \<not> ba \<ge> limit then Some (None, w)
      else
        let ba' = sub32 ba 1;
            (bad, w1) = nmbm_check_bad_phys_block D ba' w
        in if bad then find_signature_from crc D limit ba' w1
           else
             case find_signature_page crc D (pages_per_block (bmtd w1)) (ba2addr (bmtd w1) ba') w1 of
               (Some sig, w2) \<Rightarrow> Some (Some (sig, ba'), w2)
             | (None, w2) \<Rightarrow> find_signature_from crc D limit ba' w2)"

definition signature_limit :: "'d bmt_world \<Rightarrow> nat" where
  "signature_limit w =
     (let bc = total_blks (bmtd w); limit = u32 ((bc div 16) * sub32 16 (max_ratio (NI w)))
      in if max_reserved_blocks (NI w) \<noteq> 0 \<and> sub32 bc limit > max_reserved_blocks (NI w)
         then sub32 bc (max_reserved_blocks (NI w)) else limit)"

definition nmbm_find_signature ::
    "crc_fun \<Rightarrow> 'd nand_drv \<Rightarrow> 'd bmt_world \<Rightarrow> ((nmbm_signature \<times> nat) option \<times> 'd bmt_world) option" where
  "nmbm_find_signature crc D w = find_signature_from crc D (signature_limit w) (total_blks (bmtd w)) w"

section \<open>Attaching\<close>

definition state_table_bytes :: "nat \<Rightarrow> nat" where
  "state_table_bytes blocks = (blocks + 15) div 16 * 4"

text \<open>The size of the allocation; \<open>instance_size\<close> is the size of the structure itself.\<close>

definition nmbm_calc_structure_size :: "nat \<Rightarrow> bmt_desc \<Rightarrow> nat" where
  "nmbm_calc_structure_size instance_size b =
     (let bc = total_blks b; st = state_table_bytes bc; mt = bc * 4;
          it = u32 (round_up 32 (pg_size b) + round_up st (pg_size b) + round_up mt (pg_size b))
      in u32 (it + st + mt) + instance_size)"

definition nmbm_init_structure :: "'d bmt_world \<Rightarrow> nmbm_instance \<Rightarrow> nmbm_instance" where
  "nmbm_init_structure w n =
     (let b = bmtd w; rawpage = pg_size b + oobsize (mtd w);
          rawblock = u32 (blk_size b div pg_size b * rawpage);
          bc = total_blks b; st = state_table_bytes bc; mt = bc * 4;
          off1 = round_up 32 (pg_size b);
          off2 = u32 (off1 + round_up st (pg_size b));
          it = u32 (off2 + round_up mt (pg_size b))
      in n\<lparr>rawpage_size := rawpage, rawblock_size := rawblock, rawchip_size := u32 (bc * rawblock),
           block_count := bc, state_table_size := st, mapping_table_size := mt, info_table_size := it,
           info_table := (info_table n)\<lparr>state_table_off := off1, mapping_table_off := off2\<rparr>,
           info_table_spare_blocks := nmbm_get_spare_block_count (size2blk b it),
           info_table_cache := replicate it 0, block_state := replicate (st div 4) 0xffffffff,
           block_mapping := replicate bc 0, block_state_changed := 0, block_mapping_changed := 0\<rparr>)"

definition nmbm_attach :: "crc_fun \<Rightarrow> 'd nand_drv \<Rightarrow> 'd bmt_world \<Rightarrow> (int \<times> 'd bmt_world) option" where
  "nmbm_attach crc D w =
     (let w1 = set_ni (nmbm_init_structure w) w
      in case nmbm_find_signature crc D w1 of
           None \<Rightarrow> None
         | Some (None, w2) \<Rightarrow>
             Some (if \<not> force_create (NI w2) then (- ENODEV, w2)
                   else let (success, w3) = nmbm_create_new crc D w2
                        in (if success then 0 else - ENODEV, w3))
         | Some (Some (sig, ba), w2) \<Rightarrow>
             let w3 = set_ni (\<lambda>n. n\<lparr>signature := sig, signature_ba := ba\<rparr>) w2
             in Some (if h_version (sig_header sig) \<noteq> NMBM_VER then (- EINVAL, w3)
                      else if nand_size sig \<noteq> chip_bytes (bmtd w3) \<or> sig_block_size sig \<noteq> blk_size (bmtd w3) \<or>
                              sig_page_size sig \<noteq> pg_size (bmtd w3) \<or> sig_spare_size sig \<noteq> oobsize (mtd w3)
                      then (- EINVAL, w3)
                      else let (success, w4) = nmbm_load_existing crc D w3
                           in (if success then 0 else - ENODEV, w4)))"

section \<open>The operations of the back end\<close>

definition remap_block_nmbm ::
    "crc_fun \<Rightarrow> 'd nand_drv \<Rightarrow> nat \<Rightarrow> nat \<Rightarrow> int \<Rightarrow> 'd bmt_world \<Rightarrow> bool \<times> 'd bmt_world" where
  "remap_block_nmbm crc D block mapped_block copy_len w =
     (if block \<ge> data_block_count (NI w) then (False, w)
      else
        let (success, w1) = nmbm_map_block crc D block (set_bad mapped_block w)
        in if \<not> success then (False, w1)
           else
             let new_block = u16_of_int (arr_get 0 (block_mapping (NI w1)) block);
                 (_, w2) = bbt_nand_erase D new_block w1;
                 w3 = (if copy_len > 0 then snd (bbt_nand_copy D new_block mapped_block copy_len w2) else w2)
             in (True, snd (nmbm_update_info_table crc D w3)))"

definition get_mapping_block_index_nmbm :: "bmt_desc \<Rightarrow> nat \<Rightarrow> int" where
  "get_mapping_block_index_nmbm b block =
     (if block \<ge> data_block_count (ni b) then -1 else arr_get 0 (block_mapping (ni b)) block)"

text \<open>
  The device-tree properties are arguments, \<^const>\<open>None\<close> or \<^const>\<open>False\<close> for an absent one. The new
  instance is zeroed memory.
\<close>

definition mtk_bmt_init_nmbm ::
    "crc_fun \<Rightarrow> 'd nand_drv \<Rightarrow> nat option \<Rightarrow> nat option \<Rightarrow> bool \<Rightarrow> bool \<Rightarrow> bool \<Rightarrow> 'd bmt_world \<Rightarrow>
     (int \<times> 'd bmt_world) option" where
  "mtk_bmt_init_nmbm crc D ratio_prop reserved_prop ecc_prop force_prop kzalloc_ok w =
     (if \<not> kzalloc_ok then Some (- ENOMEM, w)
      else
        let w1 = set_ni (\<lambda>_. nmbm_instance_zero\<lparr>
                   max_ratio := (case ratio_prop of None \<Rightarrow> 1 | Some r \<Rightarrow> r),
                   max_reserved_blocks := (case reserved_prop of None \<Rightarrow> 256 | Some r \<Rightarrow> r),
                   empty_page_ecc_ok := ecc_prop, force_create := force_prop\<rparr>) w
        in case nmbm_attach crc D w1 of
             None \<Rightarrow> None
           | Some (ret, w2) \<Rightarrow>
               Some (if ret \<noteq> 0 then (ret, set_ni (\<lambda>_. nmbm_instance_zero) w2)
                     else (0, w2\<lparr>mtd := (mtd w2)\<lparr>mtd_size := u32 (data_block_count (NI w2) * 2 ^ blk_shift (bmtd w2))\<rparr>\<rparr>)))"

text \<open>The debugfs writer only prints the remapped blocks.\<close>

definition mtk_bmt_debug_nmbm :: "nat \<Rightarrow> 'd bmt_world \<Rightarrow> int \<times> 'd bmt_world" where
  "mtk_bmt_debug_nmbm val w = (0, w)"

text \<open>
  The two loops of \<^verbatim>\<open>unmap_block_nmbm\<close>. The comparisons with \<^verbatim>\<open>mapping_blocks_ba\<close> are unsigned. The
  first one goes down from \<open>start\<close> to a block that is not remapped; \<^const>\<open>None\<close> when it leaves the
  table.
\<close>

fun unmap_start :: "nmbm_instance \<Rightarrow> nat \<Rightarrow> nat \<Rightarrow> (nat \<times> nat) option" where
  "unmap_start n 0 offset =
     (if u32_of_int (arr_get 0 (block_mapping n) 0) \<ge> mapping_blocks_ba n then None else Some (0, offset))"
| "unmap_start n (Suc start) offset =
     (if u32_of_int (arr_get 0 (block_mapping n) (Suc start)) \<ge> mapping_blocks_ba n
      then unmap_start n start (offset + 1) else Some (Suc start, offset))"

fun unmap_top :: "nmbm_instance \<Rightarrow> int list \<Rightarrow> int \<Rightarrow> int" where
  "unmap_top n [] new_block = new_block"
| "unmap_top n (cur # rest) new_block =
     unmap_top n rest (if \<not> u32_of_int cur < mapping_blocks_ba n \<and> cur \<le> new_block then cur - 1 else new_block)"

definition unmap_block_nmbm :: "crc_fun \<Rightarrow> 'd nand_drv \<Rightarrow> nat \<Rightarrow> 'd bmt_world \<Rightarrow> 'd bmt_world" where
  "unmap_block_nmbm crc D block w =
     (if block \<ge> data_block_count (NI w) then w
      else
        case unmap_start (NI w) block 0 of
          None \<Rightarrow> w
        | Some (start, offset) \<Rightarrow>
            if offset = 0 then w
            else
              let new_block = arr_get 0 (block_mapping (NI w)) start + int offset;
                  w1 = set_ni (\<lambda>n. snd (nmbm_set_block_state (u32_of_int new_block) BLOCK_ST_GOOD n)) w;
                  w2 = set_ni (\<lambda>n. n\<lparr>block_mapping := (block_mapping n)[block := new_block],
                         block_mapping_changed := u32 (block_mapping_changed n + 1)\<rparr>) w1;
                  top_ba = unmap_top (NI w2) (take (data_block_count (NI w2)) (block_mapping (NI w2)))
                             (s32 (sub32 (signature_ba (NI w2)) 1))
              in snd (nmbm_update_info_table crc D
                   (set_ni (\<lambda>n. n\<lparr>mapping_blocks_top_ba := u32_of_int top_ba\<rparr>) w2)))"

definition mtk_bmt_nmbm_ops :: "crc_fun \<Rightarrow> 'd nand_drv \<Rightarrow> 'd mtk_bmt_ops" where
  "mtk_bmt_nmbm_ops crc D =
     \<lparr>op_sig = [], op_remap_block = remap_block_nmbm crc D, op_unmap_block = unmap_block_nmbm crc D,
      op_get_mapping_block = get_mapping_block_index_nmbm\<rparr>"

section \<open>The contract of the layer\<close>

text \<open>
  The invariant: every mapped block is a block of the chip, and so is the top of the mapping
  blocks as long as some are left.
\<close>

definition nmbm_inv :: "bmt_desc \<Rightarrow> bool" where
  "nmbm_inv b \<longleftrightarrow> (\<forall>v\<in>set (block_mapping (ni b)). v < int (total_blks b)) \<and>
     (mapping_blocks_top_ba (ni b) < total_blks b \<or> mapping_blocks_top_ba (ni b) = mapping_blocks_ba (ni b))"

lemma walk_desc_le: "walk_desc N k ba c = Some pb \<Longrightarrow> pb \<le> ba"
  by (induction k arbitrary: ba c) (fastforce simp: Let_def split: if_splits)+

lemma set_bad_ni: "NI (set_bad ba w) = (NI w)\<lparr>block_state := block_state (NI (set_bad ba w)),
   block_state_changed := block_state_changed (NI (set_bad ba w))\<rparr>"
  by (simp add: set_bad_def nmbm_set_block_state_def Let_def)

lemma set_bad_fixed [simp]:
  "ni_fixed (NI (set_bad ba w)) = ni_fixed (NI w)" "geom (set_bad ba w) = geom w"
  "mapping_blocks_ba (NI (set_bad ba w)) = mapping_blocks_ba (NI w)"
  by (subst set_bad_ni, simp add: ni_fixed_def) (simp_all add: set_bad_def nmbm_set_block_state_def Let_def)

lemma ni_fixed_simps:
  assumes "ni_fixed n' = ni_fixed n"
  shows "block_mapping n' = block_mapping n" and "data_block_count n' = data_block_count n"
    and "block_count n' = block_count n" and "mapping_blocks_top_ba n' = mapping_blocks_top_ba n"
    and "mgmt_start_ba n' = mgmt_start_ba n" and "signature_ba n' = signature_ba n"
  using assms by (simp_all add: ni_fixed_def)

lemma map_block_result:
  assumes "nmbm_map_block crc D lb w = (ok, w')"
  obtains (none) "\<not> ok" and "w' = w" and "mapping_blocks_ba (NI w) = mapping_blocks_top_ba (NI w)"
  | (full) "\<not> ok" and "geom w' = geom w" and "block_mapping (NI w') = block_mapping (NI w)"
      and "mapping_blocks_top_ba (NI w') = mapping_blocks_ba (NI w')"
  | (mapped) pb where "ok" and "mapping_blocks_ba (NI w) \<noteq> mapping_blocks_top_ba (NI w)"
      and "nmbm_block_walk (NI w) False (mapping_blocks_top_ba (NI w)) 0 (mapping_blocks_ba (NI w)) = Some pb"
      and "w' = set_ni (\<lambda>n. n\<lparr>block_mapping := (block_mapping n)[lb := int pb],
                mapping_blocks_top_ba := sub32 (mapping_blocks_top_ba n) 1,
                block_mapping_changed := u32 (block_mapping_changed n + 1)\<rparr>) w"
      and "pb \<le> mapping_blocks_top_ba (NI w)" and "0 < mapping_blocks_top_ba (NI w)"
proof (cases "mapping_blocks_ba (NI w) = mapping_blocks_top_ba (NI w)")
  case True
  with assms show thesis by (intro none) (auto simp: nmbm_map_block_def)
next
  case ne: False
  show thesis
  proof (cases "nmbm_block_walk (NI w) False (mapping_blocks_top_ba (NI w)) 0 (mapping_blocks_ba (NI w))")
    case None
    obtain r w1 where up: "nmbm_update_info_table crc D w = (r, w1)" by fastforce
    from update_info_table_step [OF up] have "geom w1 = geom w" "block_mapping (NI w1) = block_mapping (NI w)"
      by (auto simp: tbl_step_def ni_fixed_def)
    with assms ne None up show thesis by (intro full) (auto simp: nmbm_map_block_def)
  next
    case (Some pb)
    then have "pb \<le> mapping_blocks_top_ba (NI w)"
      by (auto simp: nmbm_block_walk_def nmbm_block_walk_desc_def dest: walk_desc_le)
    moreover have "0 < mapping_blocks_top_ba (NI w)"
      using Some by (cases "mapping_blocks_top_ba (NI w)") (auto simp: nmbm_block_walk_def nmbm_block_walk_desc_def)
    ultimately show thesis using assms ne Some by (intro mapped) (auto simp: nmbm_map_block_def)
  qed
qed

lemma nmbm_inv_cong:
  "geom w' = geom w \<Longrightarrow> ni_fixed (NI w') = ni_fixed (NI w) \<Longrightarrow> mapping_blocks_ba (NI w') = mapping_blocks_ba (NI w) \<or>
   mapping_blocks_top_ba (NI w) < total_blks (bmtd w) \<Longrightarrow> nmbm_inv (bmtd w) \<Longrightarrow> nmbm_inv (bmtd w')"
  by (auto simp: nmbm_inv_def geom_def ni_fixed_def)

lemma map_block_keeps:
  assumes "nmbm_inv (bmtd w)" and "nmbm_map_block crc D lb w = (ok, w')" and "total_blks (bmtd w) < 65536"
  shows "nmbm_inv (bmtd w')" and "geom w' = geom w"
    and "ok \<Longrightarrow> mapping_blocks_top_ba (NI w') < total_blks (bmtd w')"
proof -
  have "nmbm_inv (bmtd w') \<and> geom w' = geom w \<and> (ok \<longrightarrow> mapping_blocks_top_ba (NI w') < total_blks (bmtd w'))"
    using assms(2)
  proof (cases rule: map_block_result)
    case none
    with assms show ?thesis by simp
  next
    case full
    with assms(1) show ?thesis by (simp add: nmbm_inv_def geom_def)
  next
    case (mapped pb)
    have top: "mapping_blocks_top_ba (NI w) < total_blks (bmtd w)"
      using assms(1) mapped(2) by (auto simp: nmbm_inv_def)
    have "sub32 (mapping_blocks_top_ba (NI w)) 1 < total_blks (bmtd w)"
      using mapped(6) top assms(3) by simp
    moreover have "\<forall>v\<in>set ((block_mapping (NI w))[lb := int pb]). v < int (total_blks (bmtd w))"
      using assms(1) mapped(5) top set_update_subset_insert [of "block_mapping (NI w)" lb "int pb"]
      by (auto simp: nmbm_inv_def)
    ultimately show ?thesis using mapped(1,4) by (simp add: nmbm_inv_def)
  qed
  then show "nmbm_inv (bmtd w')" "geom w' = geom w" "ok \<Longrightarrow> mapping_blocks_top_ba (NI w') < total_blks (bmtd w')"
    by blast+
qed


lemma nmbm_inv_buf: "nmbm_inv (b\<lparr>data_buf := x\<rparr>) \<longleftrightarrow> nmbm_inv b"
  by (simp add: nmbm_inv_def)

lemma remap_block_nmbm_result:
  assumes "remap_block_nmbm crc D block mapped n w = (r, w')"
  obtains (out) "\<not> r" and "w' = w" and "data_block_count (NI w) \<le> block"
  | (full) w1 where "\<not> r" and "nmbm_map_block crc D block (set_bad mapped w) = (False, w1)" and "w' = w1"
  | (moved) w1 w3 where "r" and "nmbm_map_block crc D block (set_bad mapped w) = (True, w1)"
      and "same_but_buf w1 w3" and "w' = snd (nmbm_update_info_table crc D w3)"
proof -
  obtain ok w1 where mb: "nmbm_map_block crc D block (set_bad mapped w) = (ok, w1)" by fastforce
  let ?nb = "u16_of_int (arr_get 0 (block_mapping (NI w1)) block)"
  obtain r2 w2 where er: "bbt_nand_erase D ?nb w1 = (r2, w2)" by fastforce
  obtain r3 w3 where cp: "bbt_nand_copy D ?nb mapped n w2 = (r3, w3)" by fastforce
  have s2: "same_but_buf w1 w2" using bbt_nand_erase_frame [OF er] by (auto intro: same_but_bufI)
  have s3: "same_but_buf w1 w3" using s2 bbt_nand_copy_frame [OF cp] by (rule same_but_buf_trans)
  show thesis
  proof (cases "data_block_count (NI w) \<le> block")
    case True
    with assms show thesis by (intro out) (auto simp: remap_block_nmbm_def)
  next
    case nb: False
    show thesis
    proof (cases ok)
      case False
      with assms nb mb show thesis by (intro full) (auto simp: remap_block_nmbm_def)
    next
      case True
      with assms nb mb er cp s2 s3 show thesis
        by (intro moved [of w1 "if n > 0 then w3 else w2"]) (auto simp: remap_block_nmbm_def Let_def)
    qed
  qed
qed

lemma nmbm_remap_keeps:
  assumes "nmbm_inv (bmtd w)" and "geom_ok w" and "remap_block_nmbm crc D block mapped n w = (r, w')"
  shows "nmbm_inv (bmtd w') \<and> geom w' = geom w"
proof -
  let ?w0 = "set_bad mapped w"
  have i0: "nmbm_inv (bmtd ?w0)" by (rule nmbm_inv_cong [OF _ _ _ assms(1)]) simp_all
  have t0: "total_blks (bmtd ?w0) < 65536" using assms(2) by (simp add: geom_ok_def set_bad_def)
  from assms(3) show ?thesis
  proof (cases rule: remap_block_nmbm_result)
    case out
    with assms show ?thesis by simp
  next
    case (full w1)
    with map_block_keeps [OF i0 full(2) t0] show ?thesis by simp
  next
    case (moved w1 w3)
    note k = map_block_keeps [OF i0 moved(2) t0]
    obtain ok w4 where up: "nmbm_update_info_table crc D w3 = (ok, w4)" by fastforce
    have s: "tbl_step w3 w4" using up by (rule update_info_table_step)
    have i3: "nmbm_inv (bmtd w3)" "mapping_blocks_top_ba (NI w3) < total_blks (bmtd w3)"
      using k moved(3) by (auto simp: same_but_buf_def nmbm_inv_buf)
    have "nmbm_inv (bmtd w4)"
      by (rule nmbm_inv_cong [OF _ _ _ i3(1)]) (use s i3(2) in \<open>auto simp: tbl_step_def\<close>)
    moreover have "geom w4 = geom w"
      using s k(2) same_but_buf_geom [OF moved(3)] by (simp add: tbl_step_def)
    ultimately show ?thesis using moved(4) up by simp
  qed
qed

lemma nmbm_get_in_chip:
  assumes "nmbm_inv b" and "block < total_blks b"
  shows "get_mapping_block_index_nmbm b block < int (total_blks b)"
  using assms by (auto simp: get_mapping_block_index_nmbm_def nmbm_inv_def arr_get_def)

interpretation nmbm: bmt_backend "mtk_bmt_nmbm_ops crc D" nmbm_inv for crc :: crc_fun and D :: "'d nand_drv"
  by unfold_locales (auto simp: mtk_bmt_nmbm_ops_def nmbm_get_in_chip dest: nmbm_remap_keeps)

section \<open>The signature search\<close>

lemma find_signature_returns:
  assumes "0 < limit" and "ba < 4294967296"
  shows "\<exists>r. find_signature_from crc D limit ba w = Some r"
  using assms(2)
proof (induction ba arbitrary: w rule: less_induct)
  case (less ba)
  show ?case
  proof (cases "limit \<le> ba")
    case True
    then have s: "sub32 ba 1 < ba" "sub32 ba 1 < 4294967296" using assms(1) less.prems by simp_all
    note IH = less.IH [OF s]
    show ?thesis using True IH
      by (subst find_signature_from.simps) (auto simp: Let_def split: prod.splits option.splits)
  next
    case False
    then show ?thesis by (subst find_signature_from.simps) simp
  qed
qed

section \<open>The layout\<close>

lemma round_up_ge: "0 < y \<Longrightarrow> x \<le> round_up x y"
proof -
  assume y: "0 < y"
  have "x + (y - 1) = (x + (y - 1)) div y * y + (x + (y - 1)) mod y" by simp
  moreover have "(x + (y - 1)) mod y \<le> y - 1" using y mod_less_divisor [OF y, of "x + (y - 1)"] by linarith
  ultimately show ?thesis unfolding round_up_def by linarith
qed

lemma round_up_le: "round_up x y \<le> x + (y - 1)"
  by (simp add: round_up_def)

lemma init_structure_layout:
  assumes "0 < pg_size (bmtd w)" and "pg_size (bmtd w) \<le> 1048576" and "total_blks (bmtd w) < 65536"
  shows "layout_ok (nmbm_init_structure w n)"
proof -
  let ?p = "pg_size (bmtd w)" and ?t = "total_blks (bmtd w)"
  let ?st = "state_table_bytes ?t"
  have st: "?st \<le> 16384" "4 dvd ?st" using assms(3) by (auto simp: state_table_bytes_def)
  note ge = round_up_ge [OF assms(1), of 32] round_up_ge [OF assms(1), of ?st] round_up_ge [OF assms(1), of "?t * 4"]
  note le = round_up_le [of 32 ?p] round_up_le [of ?st ?p] round_up_le [of "?t * 4" ?p]
  have "round_up 32 ?p + round_up ?st ?p + round_up (?t * 4) ?p < 4294967296"
    using le st assms by linarith
  with ge st show ?thesis by (simp add: layout_ok_def nmbm_init_structure_def Let_def)
qed

section \<open>Properties\<close>

lemma map_block_walk:
  assumes "nmbm_map_block crc D lb w = (True, w')" and "mapping_blocks_ba (NI w) < block_count (NI w)"
  obtains pb where "mapping_blocks_ba (NI w) < pb" and "pb \<le> mapping_blocks_top_ba (NI w)" and "is_good (NI w) pb"
    and "\<forall>x. pb < x \<and> x \<le> mapping_blocks_top_ba (NI w) \<longrightarrow> \<not> is_good (NI w) x"
    and "w' = set_ni (\<lambda>n. n\<lparr>block_mapping := (block_mapping n)[lb := int pb],
                mapping_blocks_top_ba := sub32 (mapping_blocks_top_ba n) 1,
                block_mapping_changed := u32 (block_mapping_changed n + 1)\<rparr>) w"
    and "nmbm_block_walk (NI w) False (mapping_blocks_top_ba (NI w)) 0 (mapping_blocks_ba (NI w)) = Some pb"
  using assms(1)
proof (cases rule: map_block_result)
  case (mapped pb)
  from walk_desc_result [OF mapped(3) assms(2)] mapped(3,4) that [of pb] show ?thesis by simp
qed simp_all

text \<open>
  C32. When mapping a block succeeds, it takes the highest good block at or below the top of the spare blocks: the block lies above the start of the
  spare blocks, no good block lies between it and the top, only the entry of the mapped logical block changes, the top goes down by one and neither the
  states nor the device are touched. Since the top goes down by one and not to the block taken, the block can be taken again.
\<close>

theorem nmbm_map_block_spec:
  assumes "nmbm_map_block crc D lb w = (True, w')" and "mapping_blocks_ba (NI w) < block_count (NI w)"
    and "mapping_blocks_top_ba (NI w) < 4294967296"
  shows "\<exists>pb. mapping_blocks_ba (NI w) < pb \<and> pb \<le> mapping_blocks_top_ba (NI w) \<and> is_good (NI w) pb \<and>
    (\<forall>x. pb < x \<and> x \<le> mapping_blocks_top_ba (NI w) \<longrightarrow> \<not> is_good (NI w) x) \<and>
    block_mapping (NI w') = (block_mapping (NI w))[lb := int pb] \<and>
    mapping_blocks_top_ba (NI w') = mapping_blocks_top_ba (NI w) - 1 \<and>
    block_state (NI w') = block_state (NI w) \<and> dev w' = dev w"
  using assms(1,2)
proof (cases rule: map_block_walk)
  case (1 pb)
  then show ?thesis using assms(3) by (intro exI [of _ pb]) simp
qed

definition ex_spare :: "nand_event list bmt_world" where
  "ex_spare = \<lparr>dev = [], mtd = ex_mtd, bmtd = ex_desc\<lparr>ni := ex_nmbm\<lparr>block_mapping := map int [0..<10],
     data_block_count := 10, mapping_blocks_ba := 10, mapping_blocks_top_ba := 14\<rparr>\<rparr>\<rparr>"

lemma ex_spare_simps [simp]:
  "mapping_blocks_ba (NI ex_spare) = 10" "mapping_blocks_top_ba (NI ex_spare) = 14" "block_count (NI ex_spare) = 16"
  "block_mapping (NI ex_spare) = map int [0..<10]"
  by (simp_all add: ex_spare_def ex_nmbm_def nmbm_instance_zero_def)

lemma ex_good: "nmbm_get_block_state ex_nmbm 14 = 3" "nmbm_get_block_state ex_nmbm 13 = 3"
  by (simp_all add: ex_nmbm_def nmbm_get_block_state_def nmbm_get_block_state_raw_def)

lemma walk_desc_cong:
  "nmbm_get_block_state N' = nmbm_get_block_state N \<Longrightarrow> walk_desc N' k ba c = walk_desc N k ba c"
  by (induction k arbitrary: ba c) (simp_all add: Let_def)

lemma walk_good:
  assumes "is_good N ba" and "limit < ba" and "limit < block_count N"
  shows "nmbm_block_walk N False ba 0 limit = Some ba"
proof -
  obtain k where "ba - limit = Suc k" using assms(2) by (metis Suc_diff_Suc)
  with assms show ?thesis by (simp add: nmbm_block_walk_def nmbm_block_walk_desc_def walk_limit_def)
qed

lemma walk_not_good:
  assumes "\<not> is_good N ba" and "limit < ba" and "limit < block_count N"
  shows "nmbm_block_walk N False ba 0 limit = nmbm_block_walk N False (ba - 1) 0 limit"
proof -
  have "ba - limit = Suc (ba - 1 - limit)" using assms(2) by simp
  with assms show ?thesis by (simp add: nmbm_block_walk_def nmbm_block_walk_desc_def walk_limit_def del: One_nat_def)
qed

lemma block_walk_cong:
  "nmbm_get_block_state N' = nmbm_get_block_state N \<Longrightarrow> block_count N' = block_count N \<Longrightarrow>
   nmbm_block_walk N' False ba c limit = nmbm_block_walk N False ba c limit"
  by (simp add: nmbm_block_walk_def nmbm_block_walk_desc_def walk_limit_def walk_desc_cong [of N' N])

lemma ex_spare_good: "nmbm_get_block_state (NI ex_spare) ba = nmbm_get_block_state ex_nmbm ba"
  by (simp add: ex_spare_def nmbm_get_block_state_def)

theorem nmbm_map_block_spec_witness:
  "\<exists>w' pb. nmbm_map_block sum_crc log_drv 3 ex_spare = (True, w') \<and> 10 < pb \<and> pb \<le> 14 \<and>
     block_mapping (NI w') = (map int [0..<10])[3 := int pb] \<and> mapping_blocks_top_ba (NI w') = 13"
proof -
  have "nmbm_block_walk (NI ex_spare) False 14 0 10 = Some 14"
    by (rule walk_good) (simp_all add: ex_spare_good ex_good)
  then obtain w' where m: "nmbm_map_block sum_crc log_drv 3 ex_spare = (True, w')"
    by (simp add: nmbm_map_block_def)
  from nmbm_map_block_spec [OF m] m show ?thesis by auto
qed

text \<open>
  When the top of the spare blocks is not good, two remappings share a block: mapping takes
  the next good block below the top, but lowers the top by one only, so the next mapping finds
  the same physical block again and two logical blocks are mapped to it.
\<close>

theorem nmbm_map_block_twice_same:
  assumes "nmbm_map_block crc D lb w = (True, w1)" and "\<not> is_good (NI w) (mapping_blocks_top_ba (NI w))"
    and "mapping_blocks_ba (NI w) < block_count (NI w)" and "mapping_blocks_top_ba (NI w) < 4294967296"
    and "lb \<noteq> lb2" and "lb < length (block_mapping (NI w))" and "lb2 < length (block_mapping (NI w))"
  shows "\<exists>w2. nmbm_map_block crc D lb2 w1 = (True, w2) \<and>
    block_mapping (NI w2) ! lb = block_mapping (NI w2) ! lb2"
  using assms(1,3)
proof (cases rule: map_block_walk)
  case (1 pb)
  let ?top = "mapping_blocks_top_ba (NI w)" and ?ba = "mapping_blocks_ba (NI w)"
  have "pb \<noteq> ?top" using 1(3) assms(2) by auto
  with 1 have lt: "pb \<le> ?top - 1" "?ba < ?top - 1" by simp_all
  have st: "nmbm_get_block_state (NI w1) = nmbm_get_block_state (NI w)" "block_count (NI w1) = block_count (NI w)"
    using 1(5) by (auto simp: nmbm_get_block_state_def fun_eq_iff)
  have "nmbm_block_walk (NI w1) False (?top - 1) 0 ?ba = Some pb"
    using walk_not_good [OF assms(2) _ assms(3)] lt 1(6) block_walk_cong [OF st] by simp
  then show ?thesis using 1(5) lt assms(4-7) by (simp add: nmbm_map_block_def)
qed


definition ex_spare_bad :: "nand_event list bmt_world" where
  "ex_spare_bad = set_bad 14 ex_spare"

theorem nmbm_map_block_twice_same_witness:
  "\<exists>w1 w2. nmbm_map_block sum_crc log_drv 3 ex_spare_bad = (True, w1) \<and>
     nmbm_map_block sum_crc log_drv 4 w1 = (True, w2) \<and>
     block_mapping (NI w2) ! 3 = block_mapping (NI w2) ! 4"
proof -
  have st: "nmbm_get_block_state (NI ex_spare_bad) x = (if x = 14 then 0 else nmbm_get_block_state ex_nmbm x)" for x
    by (simp add: ex_spare_bad_def set_bad_state ex_spare_good)
  have fs: "mapping_blocks_ba (NI ex_spare_bad) = 10" "mapping_blocks_top_ba (NI ex_spare_bad) = 14"
    "block_count (NI ex_spare_bad) = 16" "length (block_mapping (NI ex_spare_bad)) = 10"
    using ni_fixed_simps [OF set_bad_fixed(1), of 14 ex_spare] by (simp_all add: ex_spare_bad_def)
  have "nmbm_block_walk (NI ex_spare_bad) False 14 0 10 = nmbm_block_walk (NI ex_spare_bad) False 13 0 10"
    using walk_not_good [of "NI ex_spare_bad" 14 10] st fs by simp
  also have "\<dots> = Some 13" by (rule walk_good) (simp_all add: st fs ex_good)
  finally obtain w1 where m: "nmbm_map_block sum_crc log_drv 3 ex_spare_bad = (True, w1)"
    by (simp add: nmbm_map_block_def fs)
  from nmbm_map_block_twice_same [OF m, of 4] m show ?thesis by (simp add: st fs)
qed

text \<open>
  A write through the layer over the NMBM back end returns, whatever the driver's failures and
  however many blocks wear out on the way, keeps every mapped block inside the chip, and is 0
  exactly when every byte was accepted by the driver.
\<close>

theorem nmbm_write_returns:
  assumes "nmbm_inv (bmtd w)" and "geom_ok w" and "drv_write_full D"
    and "to + oo_len ops \<le> chip_size w" and "oo_len ops < 4294967296" and "oo_ooblen ops = 0"
    and "11 * oo_len ops + 10 < fuel"
  shows "\<exists>r ops' w'. mtk_bmt_write fuel D (mtk_bmt_nmbm_ops crc D) to ops w = Some (r, ops', w') \<and>
    nmbm_inv (bmtd w') \<and> geom w' = geom w \<and> (r = 0 \<longleftrightarrow> oo_retlen ops' = oo_len ops) \<and> r \<le> 0"
  using nmbm.write_returns [OF assms] .

theorem nmbm_write_returns_witness:
  "\<exists>r ops' w'. mtk_bmt_write 56331 log_drv (mtk_bmt_nmbm_ops sum_crc log_drv) 4096
     (oob_request 5120 0 0 (replicate 5120 0) [])
     \<lparr>dev = [], mtd = ex_mtd, bmtd = ex_desc\<lparr>ni := ex_nmbm\<lparr>block_mapping := map int [0..<8], data_block_count := 8\<rparr>\<rparr>\<rparr> =
     Some (r, ops', w') \<and> (r = 0 \<longleftrightarrow> oo_retlen ops' = 5120)"
proof -
  define w where "w = \<lparr>dev = ([] :: nand_event list), mtd = ex_mtd, bmtd = ex_desc\<lparr>ni := ex_nmbm\<lparr>block_mapping := map int [0..<8], data_block_count := 8\<rparr>\<rparr>\<rparr>"
  have "drv_write_full log_drv" by (simp add: drv_write_full_def log_drv_def)
  moreover have "nmbm_inv (bmtd w)" by (simp add: w_def nmbm_inv_def ex_nmbm_def nmbm_instance_zero_def ex_desc_def)
  moreover have "geom_ok w" by (simp add: geom_ok_def w_def ex_desc_def ex_mtd_def)
  moreover have "chip_size w = 32768" by (simp add: chip_size_def w_def ex_desc_def)
  ultimately show ?thesis unfolding w_def [symmetric]
    using nmbm_write_returns [of w log_drv 4096 "oob_request 5120 0 0 (replicate 5120 0) []" 56331 sum_crc]
    by (auto simp: oob_request_def)
qed

text \<open>
  C33. The search for the signature ends at attach: when its lower limit is not 0 it returns,
  with a signature or without one, whatever the chip holds. (With a limit of 0 the block number
  wraps and the search goes on past block 0.)
\<close>

theorem nmbm_find_signature_returns:
  assumes "0 < signature_limit w" and "total_blks (bmtd w) < 65536"
  shows "\<exists>r w'. nmbm_find_signature crc D w = Some (r, w')"
  using find_signature_returns [OF assms(1), of "total_blks (bmtd w)" crc D w] assms(2)
  by (auto simp: nmbm_find_signature_def)

theorem nmbm_find_signature_returns_witness:
  "\<exists>r w'. nmbm_find_signature sum_crc log_drv
     \<lparr>dev = [], mtd = ex_mtd, bmtd = ex_desc\<lparr>total_blks := 1024, ni := nmbm_instance_zero\<lparr>max_ratio := 1, max_reserved_blocks := 256\<rparr>\<rparr>\<rparr> =
     Some (r, w')"
  by (rule nmbm_find_signature_returns) (simp_all add: signature_limit_def)

text \<open>
  C34. The layout computed at attach is a proper one for every page size and block count the
  driver supports: header, state table and mapping table lie behind each other inside the info
  table, nothing wraps at 32 bits, and the arrays have the sizes the header gives.
\<close>

theorem nmbm_init_structure_layout:
  assumes "0 < pg_size (bmtd w)" and "pg_size (bmtd w) \<le> 1048576" and "total_blks (bmtd w) < 65536"
  shows "let n' = nmbm_init_structure w n; h = info_table n' in
    32 \<le> state_table_off h \<and> state_table_off h + state_table_size n' \<le> mapping_table_off h \<and>
    mapping_table_off h + mapping_table_size n' \<le> info_table_size n' \<and> info_table_size n' < 4294967296 \<and>
    length (info_table_cache n') = info_table_size n' \<and> 4 * length (block_state n') = state_table_size n' \<and>
    4 * length (block_mapping n') = mapping_table_size n' \<and> length (block_mapping n') = block_count n'"
proof -
  from init_structure_layout [OF assms, of n] show ?thesis
    by (simp add: layout_ok_def Let_def nmbm_init_structure_def state_table_bytes_def)
qed

theorem nmbm_init_structure_layout_witness:
  "let n' = nmbm_init_structure \<lparr>dev = (), mtd = ex_mtd, bmtd = ex_desc\<lparr>pg_size := 2048, total_blks := 1024\<rparr>\<rparr> nmbm_instance_zero in
   mapping_table_off (info_table n') + mapping_table_size n' \<le> info_table_size n'"
  using nmbm_init_structure_layout [of "\<lparr>dev = (), mtd = ex_mtd, bmtd = ex_desc\<lparr>pg_size := 2048, total_blks := 1024\<rparr>\<rparr>" nmbm_instance_zero]
  by (simp add: Let_def)





end
