(* ===== verification/Bmt_Attach.thy ===== *)
theory Bmt_Attach
  imports Bmt_Bbt Bmt_V2 Nmbm_Attach
begin

text \<open>
  Attaching and detaching the layer (\<^verbatim>\<open>mtk_bmt.c\<close>): the five operations of the \<^verbatim>\<open>mtd_info\<close> are
  saved and replaced, the geometry is taken from it, the back end of the device node is
  initialised, and a failure undoes it all. The world has one \<^verbatim>\<open>mtd_info\<close>, so that the test of
  \<^verbatim>\<open>mtk_bmt_detach\<close> is whether the layer is attached.
\<close>

section \<open>Attaching and detaching\<close>

text \<open>
  The properties of the device node that attaching reads: \<^const>\<open>None\<close> and \<^const>\<open>False\<close> stand for an
  absent one. The remap range is given as its pairs of cells.
\<close>

record bmt_node =
  dt_v2 :: bool
  dt_nmbm :: bool
  dt_bbt :: bool
  dt_remap_range :: "(nat \<times> nat) list option"
  dt_overridden_oobsize :: "nat option"
  dt_pool_size :: "nat option"
  dt_oob_offset :: "nat option"
  dt_table_size :: "nat option"
  dt_max_ratio :: "nat option"
  dt_max_reserved_blocks :: "nat option"
  dt_empty_page_ecc_protected :: bool
  dt_force_create :: bool

function ffs :: "nat \<Rightarrow> nat" where
  "ffs x = (if x = 0 then 0 else if odd x then 1 else ffs (x div 2) + 1)"
  by pat_completeness auto
termination
  by (relation "measure id") auto

declare ffs.simps [simp del]

definition mtk_bmt_replace_ops :: "'d bmt_world \<Rightarrow> 'd bmt_world" where
  "mtk_bmt_replace_ops w =
     w\<lparr>bmtd := (bmtd w)\<lparr>saved := \<lparr>hk_read_oob = hook_read_oob (mtd w), hk_write_oob = hook_write_oob (mtd w),
           hk_erase = hook_erase (mtd w), hk_block_isbad = hook_block_isbad (mtd w),
           hk_block_markbad = hook_block_markbad (mtd w)\<rparr>\<rparr>,
       mtd := (mtd w)\<lparr>hook_read_oob := Hook_bmt, hook_write_oob := Hook_bmt, hook_erase := Hook_bmt,
           hook_block_isbad := Hook_bmt, hook_block_markbad := Hook_bmt\<rparr>\<rparr>"

definition mtk_bmt_detach :: "'d bmt_world \<Rightarrow> 'd bmt_world" where
  "mtk_bmt_detach w =
     (if \<not> attached (bmtd w) then w
      else let s = saved (bmtd w)
           in w\<lparr>mtd := (mtd w)\<lparr>hook_read_oob := hk_read_oob s, hook_write_oob := hk_write_oob s,
                  hook_erase := hk_erase s, hook_block_isbad := hk_block_isbad s,
                  hook_block_markbad := hk_block_markbad s,
                  mtd_size := u64_of_int (s32 (total_blks (bmtd w) * 2 ^ blk_shift (bmtd w)))\<rparr>,
                bmtd := bmtd_zero\<rparr>)"

text \<open>The call of \<^verbatim>\<open>bmtd.ops->init\<close>, with the signature of the operations chosen.\<close>

definition node_sig :: "bmt_node \<Rightarrow> byte list option" where
  "node_sig np =
     (if dt_v2 np then Some v2_sig else if dt_nmbm np then Some [] else if dt_bbt np then Some bbt_sig else None)"

definition ops_init :: "crc_fun \<Rightarrow> 'd nand_drv \<Rightarrow> bmt_node \<Rightarrow> bool \<Rightarrow> 'd bmt_world \<Rightarrow> (int \<times> 'd bmt_world) option" where
  "ops_init crc D np alloc_ok w =
     (if dt_v2 np then Some (mtk_bmt_init_v2 D (dt_pool_size np) (dt_oob_offset np) (dt_table_size np) alloc_ok w)
      else if dt_nmbm np then mtk_bmt_init_nmbm crc D (dt_max_ratio np) (dt_max_reserved_blocks np)
             (dt_empty_page_ecc_protected np) (dt_force_create np) alloc_ok w
      else Some (mtk_bmt_init_bbt D alloc_ok w))"

text \<open>
  \<^verbatim>\<open>np\<close> is \<^const>\<open>None\<close> without a device node; \<open>buf_ok\<close> and \<open>alloc_ok\<close> are the results of the two
  allocations. \<^const>\<open>None\<close> is an attach that does not return (the signature search of NMBM).
\<close>

definition attach_prepare :: "bmt_node \<Rightarrow> byte list \<Rightarrow> 'd bmt_world \<Rightarrow> 'd bmt_world" where
  "attach_prepare np sig w =
     (let w1 = mtk_bmt_replace_ops (w\<lparr>bmtd := (bmtd w)\<lparr>ops_sig := sig, remap_range := dt_remap_range np, attached := True\<rparr>\<rparr>);
          w2 = (case dt_overridden_oobsize np of
                  None \<Rightarrow> w1
                | Some n \<Rightarrow> if n < oobsize (mtd w1) then w1\<lparr>mtd := (mtd w1)\<lparr>oobsize := n\<rparr>\<rparr> else w1);
          blk = u16_of_int (int (ffs (erasesize (mtd w2))) - 1)
      in w2\<lparr>bmtd := (bmtd w2)\<lparr>blk_size := erasesize (mtd w2), blk_shift := blk, pg_size := writesize (mtd w2),
              pg_shift := u16_of_int (int (ffs (writesize (mtd w2))) - 1),
              total_blks := u16 (mtd_size (mtd w2) div 2 ^ blk)\<rparr>\<rparr>)"

definition mtk_bmt_attach ::
    "crc_fun \<Rightarrow> 'd nand_drv \<Rightarrow> bmt_node option \<Rightarrow> bool \<Rightarrow> bool \<Rightarrow> 'd bmt_world \<Rightarrow> (int \<times> 'd bmt_world) option" where
  "mtk_bmt_attach crc D np buf_ok alloc_ok w =
     (if attached (bmtd w) then Some (- ENOSPC, w)
      else
        case np of
          None \<Rightarrow> Some (0, w)
        | Some np \<Rightarrow>
            (case node_sig np of
               None \<Rightarrow> Some (0, w)
             | Some sig \<Rightarrow>
                 let w1 = attach_prepare np sig w
                 in if \<not> buf_ok then Some (-1, mtk_bmt_detach w1)
                    else
                      case ops_init crc D np alloc_ok
                             (w1\<lparr>bmtd := (bmtd w1)\<lparr>data_buf := replicate (pg_size (bmtd w1) + oobsize (mtd w1)) 0xff\<rparr>\<rparr>) of
                        None \<Rightarrow> None
                      | Some (ret, w2) \<Rightarrow> Some (if ret \<noteq> 0 then (ret, mtk_bmt_detach w2) else (0, w2))))"

section \<open>What the back ends leave alone at attach\<close>

text \<open>
  The part of the state detaching relies on. No initialisation of a back end changes it.
\<close>

definition anchor :: "'d bmt_world \<Rightarrow> bool \<times> mtd_hooks \<times> nat \<times> nat \<times> nat" where
  "anchor w = (attached (bmtd w), saved (bmtd w), total_blks (bmtd w), blk_shift (bmtd w), oobsize (mtd w))"

lemma anchor_geom: "geom w' = geom w \<Longrightarrow> anchor w' = anchor w"
  by (simp add: anchor_def geom_def)

lemma anchor_simps [simp]:
  "anchor (w\<lparr>dev := d\<rparr>) = anchor w" "anchor (set_ni f w) = anchor w"
  "anchor (w\<lparr>mtd := (mtd w)\<lparr>mtd_size := n\<rparr>\<rparr>) = anchor w"
  by (simp_all add: anchor_def set_ni_def)

lemma geom_scan_badblocks_from: "geom (scan_badblocks_from D n ba w) = geom w"
  by (induction n arbitrary: ba w)
    (auto simp: Let_def nmbm_check_bad_phys_block_def split: prod.splits)


text \<open>The geometry through the operations of NMBM, from the effects proved for them.\<close>

lemmas any_eff = nmbm_eff_simps(2) [where Q = "\<lambda>_. True" and S = UNIV and T = UNIV]

lemma geom_set_bad [simp]: "geom (set_bad ba w) = geom w"
  by (simp add: set_bad_def)

lemma geom_mark_bad [simp]: "geom (mark_bad D ba w) = geom w"
  using any_eff [OF eff_mark [of ba UNIV], of D w] by (simp add: mark_bad_def)

lemma geom_page_cache [simp]: "geom (set_page_cache dat w) = geom w"
  by (simp add: set_page_cache_def geom_def)

lemma geom_isbad: "nmbm_check_bad_phys_block D ba w = (r, w') \<Longrightarrow> geom w' = geom w"
  by (rule any_eff) (rule eff_isbad)

lemma geom_erase_and_check: "nmbm_erase_block_and_check D ba w = (r, w') \<Longrightarrow> geom w' = geom w"
  by (rule any_eff) (rule eff_erase_and_check, simp_all)

lemma geom_read: "nmbm_read_phys_page D addr w = (r, dt, w') \<Longrightarrow> geom w' = geom w"
  by (rule any_eff) (rule eff_read)

lemma geom_write: "nmbm_write_phys_page D addr dat w = (r, w') \<Longrightarrow> geom w' = geom w"
  by (rule any_eff) (rule eff_write, simp_all)

lemma geom_read_to_page_cache: "read_to_page_cache D addr w = (r, w') \<Longrightarrow> geom w' = geom w"
  by (rule any_eff) (rule eff_read_to_page_cache)

lemma geom_read_loop: "nmbn_read_loop D off n acc w = (r, dat, w') \<Longrightarrow> geom w' = geom w"
proof (induction D off n acc w arbitrary: r dat w' rule: nmbn_read_loop.induct)
  case (1 D off n acc w)
  show ?case
  proof (cases "n = 0 \<or> pg_size (bmtd w) = 0")
    case True
    with "1.prems" show ?thesis by (auto simp: nmbn_read_loop.simps [of D off n acc w])
  next
    case False
    let ?l = "page_leading (bmtd w) off" and ?c = "page_chunk (bmtd w) off n"
    obtain ret dt w1 where rd: "nmbm_read_phys_page D (off - ?l) w = (ret, dt, w1)" by (metis prod_cases3)
    note g = geom_read [OF rd]
    note IH = "1.IH" [OF False refl refl rd [symmetric] refl refl]
    from "1.prems" False show ?thesis
      unfolding nmbn_read_loop.simps [of D off n acc w]
      using IH g by (auto simp: rd Let_def split: if_splits)
  qed
qed

lemma geom_write_repeated_pages: "write_repeated_pages D n addr dat w = (r, w') \<Longrightarrow> geom w' = geom w"
proof (induction n arbitrary: addr w)
  case (Suc n)
  let ?w1 = "set_page_cache (dat @ replicate (rawpage_size (NI w) - length dat) 0xff) w"
  obtain ok w2 where wr: "nmbm_write_phys_page D addr (data_buf (bmtd ?w1)) ?w1 = (ok, w2)" by fastforce
  obtain ret w3 where rd: "read_to_page_cache D addr w2 = (ret, w3)" by fastforce
  from Suc geom_write [OF wr] geom_read_to_page_cache [OF rd] show ?case
    by (auto simp: Let_def wr rd split: if_splits)
qed simp

lemma geom_write_repeated: "nmbm_write_repeated_data D ba dat w = (r, w') \<Longrightarrow> geom w' = geom w"
  by (auto simp: nmbm_write_repeated_data_def split: if_splits dest: geom_write_repeated_pages)

lemma geom_write_signature_from: "write_signature_from D limit n sig w = (r, w') \<Longrightarrow> geom w' = geom w"
proof (induction n arbitrary: w)
  case (Suc n)
  let ?ba = "limit + Suc n"
  obtain bad w1 where bd: "nmbm_check_bad_phys_block D ?ba w = (bad, w1)" by fastforce
  obtain ok w2 where er: "nmbm_erase_block_and_check D ?ba w1 = (ok, w2)" by fastforce
  obtain ok' w3 where wr: "nmbm_write_repeated_data D ?ba sig w2 = (ok', w3)" by fastforce
  have g: "geom w1 = geom w" "geom w2 = geom w" "geom w3 = geom w"
    using geom_isbad [OF bd] geom_erase_and_check [OF er] geom_write_repeated [OF wr] by simp_all
  note IH = Suc.IH [of w] Suc.IH [of "set_bad ?ba w1"] Suc.IH [of "mark_bad D ?ba w2"] Suc.IH [of "mark_bad D ?ba w3"]
  show ?case
    using Suc.prems IH g bd er wr by (auto simp: Let_def split: if_splits)
qed simp

lemma geom_map_block: "nmbm_map_block crc D lb w = (ok, w') \<Longrightarrow> geom w' = geom w"
  by (erule map_block_result) simp_all

lemma geom_map_data_end: "geom (map_data_end crc D k lb w) = geom w"
proof (induction k arbitrary: lb w)
  case (Suc k)
  obtain ok w1 where mb: "nmbm_map_block crc D lb w = (ok, w1)" by fastforce
  show ?case using geom_map_block [OF mb] by (simp add: mb Suc)
qed simp

lemma geom_tbl: "tbl_step w w' \<Longrightarrow> geom w' = geom w"
  by (simp add: tbl_step_def)

lemma geom_update: "nmbm_update_info_table crc D w = (ok, w') \<Longrightarrow> geom w' = geom w"
  by (rule geom_tbl) (rule update_info_table_step)

lemma geom_create_info_table:
  assumes "nmbm_create_info_table crc D w = (ok, w')"
  shows "geom w' = geom w"
proof (cases "nmbm_block_walk (NI w) False (signature_ba (NI w)) 1 (mgmt_start_ba (NI w))")
  case None
  with assms show ?thesis by (simp add: nmbm_create_info_table_def)
next
  case (Some top_ba)
  let ?w1 = "set_ni (\<lambda>n. snd (nmbm_generate_info_table_cache crc (n\<lparr>mapping_blocks_top_ba := top_ba\<rparr>))) w"
  obtain ok2 w2 where rb: "nmbm_rebuild_info_table D ?w1 = (ok2, w2)" by fastforce
  have "geom w2 = geom w" using geom_tbl [OF rebuild_settles(1) [OF rb]] by simp
  with assms Some rb show ?thesis
    by (auto simp: nmbm_create_info_table_def geom_map_data_end Let_def split: if_splits dest: geom_update)
qed

lemma geom_create_new:
  assumes "nmbm_create_new crc D w = (ok, w')"
  shows "geom w' = geom w"
proof -
  let ?w2 = "set_ni nmbm_build_mapping_table (nmbm_scan_badblocks D (set_ni (\<lambda>n. n\<lparr>mgmt_start_ba := mgmt_start n\<rparr>) w))"
  let ?w3 = "set_ni (\<lambda>n. n\<lparr>signature := new_signature crc ?w2\<rparr>) ?w2"
  obtain r w4 where ws: "nmbm_write_signature D (mgmt_start_ba (NI ?w3)) (signature_bytes (signature (NI ?w3))) ?w3 = (r, w4)"
    by fastforce
  have "geom ?w3 = geom w" by (simp add: nmbm_scan_badblocks_def geom_scan_badblocks_from)
  then have "geom w4 = geom w" using geom_write_signature_from [OF ws [unfolded nmbm_write_signature_def]] by simp
  with assms ws show ?thesis
    by (auto simp: nmbm_create_new_def Let_def split: option.splits dest: geom_create_info_table)
qed


lemma geom_write_info: "nmbm_write_info_table D ba limit w = (r, w') \<Longrightarrow> geom w' = geom w"
  by (rule geom_tbl) (rule tidy_step, rule tidy_write_info)

lemma geom_erase_range [simp]: "geom (nmbm_erase_range D ba limit w) = geom w"
  by (rule geom_tbl) (rule tidy_step, rule tidy_erase_range)

lemma geom_write_table_down: "write_table_down D lo k w = (r, w') \<Longrightarrow> geom w' = geom w"
  by (rule geom_tbl) (rule tidy_step, rule tidy_write_table_down)

lemma geom_rescue_single:
  assumes "nmbm_rescue_single_info_table D w = (ok, w')"
  shows "geom w' = geom w"
proof -
  obtain r w1 where wi: "nmbm_write_info_table D (mgmt_start_ba (NI w)) (main_table_ba (NI w)) w = (r, w1)" by fastforce
  note g = geom_write_info [OF wi]
  show ?thesis
  proof (cases r)
    case (Some p)
    with assms wi g show ?thesis by (auto simp: nmbm_rescue_single_info_table_def Let_def split: prod.splits)
  next
    case None
    with assms wi g show ?thesis
      by (auto simp: nmbm_rescue_single_info_table_def Let_def split: option.splits prod.splits dest: geom_write_table_down)
  qed
qed

lemma geom_update_single:
  assumes "nmbm_update_single_info_table D b w = (ok, w')"
  shows "geom w' = geom w"
proof -
  obtain r w1 where wi: "nmbm_write_info_table D (if b then main_table_ba (NI w) else backup_table_ba (NI w))
      (if b then backup_table_ba (NI w) else mapping_blocks_top_ba (NI w)) w = (r, w1)" by fastforce
  note g = geom_write_info [OF wi]
  show ?thesis
  proof (cases r)
    case (Some p)
    with assms wi g show ?thesis by (auto simp: nmbm_update_single_info_table_def Let_def split: prod.splits)
  next
    case None
    with assms wi g show ?thesis
      by (cases b) (auto simp: nmbm_update_single_info_table_def Let_def dest: geom_rescue_single)
  qed
qed

lemma geom_load_table_from: "load_table_from D k ba off c st w = (r, w') \<Longrightarrow> geom w' = geom w"
proof (induction k arbitrary: ba off c st w)
  case (Suc k)
  obtain bad w1 where bd: "nmbm_check_bad_phys_block D ba w = (bad, w1)" by fastforce
  let ?n = "min (info_table_size (NI w) - off) (blk_size (bmtd w))"
  obtain ret dat w2 where rd: "nmbn_read_data D (ba2addr (bmtd w1) ba) ?n w1 = (ret, dat, w2)" by (metis prod_cases3)
  have g: "geom w1 = geom w" "geom w2 = geom w"
    using geom_isbad [OF bd] geom_read_loop [OF rd [unfolded nmbn_read_data_def]] by simp_all
  define w3 where "w3 = set_ni (\<lambda>n. n\<lparr>info_table_cache := patch off dat (info_table_cache n)\<rparr>) w2"
  have g3: "geom w3 = geom w" "geom (set_bad ba w3) = geom w" "geom (set_bad ba w1) = geom w"
    using g by (simp_all add: w3_def)
  have IH: "\<And>b o' c' s. load_table_from D k b o' c' s w3 = (r, w') \<Longrightarrow> geom w' = geom w"
    "\<And>b o' c' s. load_table_from D k b o' c' s (set_bad ba w3) = (r, w') \<Longrightarrow> geom w' = geom w"
    "\<And>b o' c' s. load_table_from D k b o' c' s (set_bad ba w1) = (r, w') \<Longrightarrow> geom w' = geom w"
    "\<And>b o' c' s. load_table_from D k b o' c' s w = (r, w') \<Longrightarrow> geom w' = geom w"
    using Suc.IH g3 by metis+
  show ?case
    using Suc.prems IH g3
    by (simp add: bd rd Let_def w3_def [symmetric] split: if_splits)
qed simp

lemma geom_try_load: "nmbm_try_load_info_table crc D ba l w = (r, w') \<Longrightarrow> geom w' = geom w"
  by (auto simp: nmbm_try_load_info_table_def Let_def split: prod.splits option.splits if_splits
      dest: geom_load_table_from)

lemma geom_search_from: "search_table_from crc D k ba l w = (r, w') \<Longrightarrow> geom w' = geom w"
proof (induction k arbitrary: ba w)
  case (Suc k)
  obtain r1 w1 where t: "nmbm_try_load_info_table crc D ba l w = (r1, w1)" by fastforce
  from Suc geom_try_load [OF t] show ?case by (auto simp: t split: option.splits)
qed simp

lemma geom_search: "nmbm_search_info_table crc D ba limit l w = (r, w') \<Longrightarrow> geom w' = geom w"
  unfolding nmbm_search_info_table_def by (rule geom_search_from)

lemma geom_find_signature_page: "find_signature_page crc D k addr w = (r, w') \<Longrightarrow> geom w' = geom w"
proof (induction k arbitrary: addr w)
  case (Suc k)
  obtain ret dat w1 where rd: "nmbn_read_data D addr signature_size w = (ret, dat, w1)" by (metis prod_cases3)
  from Suc geom_read_loop [OF rd [unfolded nmbn_read_data_def]] show ?case
    by (auto simp: rd split: if_splits)
qed simp

lemma geom_find_signature_from:
  assumes "find_signature_from crc D limit ba w = Some y"
  shows "geom (snd y) = geom w"
proof (rule find_signature_from.raw_induct [where P = "\<lambda>crc D limit ba w y. geom (snd y) = geom w", OF _ assms])
  fix f :: "crc_fun \<Rightarrow> 'a nand_drv \<Rightarrow> nat \<Rightarrow> nat \<Rightarrow> 'a bmt_world \<Rightarrow> ((nmbm_signature \<times> nat) option \<times> 'a bmt_world) option"
  fix crc D limit ba w y
  assume IH: "\<And>crc D limit ba w y. f crc D limit ba w = Some y \<Longrightarrow> geom (snd y) = geom w"
    and eq: "(if \<not> limit \<le> ba then Some (None, w)
      else let ba' = sub32 ba 1; (bad, w1) = nmbm_check_bad_phys_block D ba' w
           in if bad then f crc D limit ba' w1
              else case find_signature_page crc D (pages_per_block (bmtd w1)) (ba2addr (bmtd w1) ba') w1 of
                   (None, w2) \<Rightarrow> f crc D limit ba' w2
                   | (Some sig, w2) \<Rightarrow> Some (Some (sig, ba'), w2)) = Some y"
  obtain bad w1 where bd: "nmbm_check_bad_phys_block D (sub32 ba 1) w = (bad, w1)" by fastforce
  obtain r w2 where pg: "find_signature_page crc D (pages_per_block (bmtd w1)) (ba2addr (bmtd w1) (sub32 ba 1)) w1 = (r, w2)"
    by fastforce
  have "geom w1 = geom w" "geom w2 = geom w" using geom_isbad [OF bd] geom_find_signature_page [OF pg] by simp_all
  with eq IH show "geom (snd y) = geom w"
    by (auto simp: bd pg Let_def simp del: One_nat_def split: if_splits option.splits)
qed

lemma geom_load_info_table:
  assumes "nmbm_load_info_table crc D ba limit w = (ok, w')"
  shows "geom w' = geom w"
proof -
  define w1 where "w1 = set_ni (\<lambda>n. n\<lparr>main_table_ba := 0, backup_table_ba := 0,
                 info_table := (info_table n)\<lparr>write_count := 0\<rparr>,
                 mapping_blocks_top_ba := sub32 (signature_ba n) 1,
                 data_block_count := mgmt_start_pb (signature n)\<rparr>) w"
  obtain r1 w2 where s1: "nmbm_search_info_table crc D ba limit False w1 = (r1, w2)" by fastforce
  have g2: "geom w2 = geom w" using geom_search [OF s1] by (simp add: w1_def)
  show ?thesis
  proof (cases r1)
    case None
    with assms s1 g2 show ?thesis by (simp add: nmbm_load_info_table_def w1_def [symmetric] del: One_nat_def)
  next
    case (Some p)
    obtain a e wc t where p: "p = (a, e, wc, t)" by (metis prod_cases4)
    obtain r2 w4 where s2: "nmbm_search_info_table crc D e limit True (set_ni (\<lambda>n. n\<lparr>main_table_ba := a\<rparr>) w2) = (r2, w4)"
      by fastforce
    have "geom w4 = geom w" using geom_search [OF s2] g2 by simp
    then show ?thesis using assms s1 Some p s2
      by (auto simp: nmbm_load_info_table_def w1_def [symmetric] Let_def simp del: One_nat_def split: prod.splits if_splits option.splits
          dest!: geom_rescue_single geom_update_single)
  qed
qed


lemma geom_nmbm_attach:
  assumes "nmbm_attach crc D w = Some (ret, w')"
  shows "geom w' = geom w"
proof -
  define w1 where "w1 = set_ni (nmbm_init_structure w) w"
  from assms obtain r w2 where fs: "nmbm_find_signature crc D w1 = Some (r, w2)"
    by (auto simp: nmbm_attach_def w1_def Let_def split: option.splits)
  have g: "geom w2 = geom w"
    using geom_find_signature_from [OF fs [unfolded nmbm_find_signature_def]] by (simp add: w1_def)
  show ?thesis
  proof (cases r)
    case None
    with assms fs g show ?thesis
      by (auto simp: nmbm_attach_def w1_def [symmetric] split: if_splits prod.splits dest: geom_create_new)
  next
    case (Some p)
    obtain sig ba where p: "p = (sig, ba)" by fastforce
    have "nmbm_load_existing crc D w3 = (ok, w4) \<Longrightarrow> geom w4 = geom w3" for w3 ok w4
      by (auto simp: nmbm_load_existing_def Let_def nmbm_scan_badblocks_def geom_scan_badblocks_from
          split: prod.splits if_splits dest!: geom_load_info_table geom_create_info_table)
    with assms fs g Some p show ?thesis
      by (auto simp: nmbm_attach_def w1_def [symmetric] Let_def split: if_splits prod.splits)
  qed
qed

lemma anchor_init_nmbm:
  assumes "mtk_bmt_init_nmbm crc D a b c d ok w = Some (ret, w')"
  shows "anchor w' = anchor w"
proof (cases ok)
  case True
  define w1 where "w1 = set_ni (\<lambda>_. nmbm_instance_zero\<lparr>
                   max_ratio := (case a of None \<Rightarrow> 1 | Some r \<Rightarrow> r),
                   max_reserved_blocks := (case b of None \<Rightarrow> 256 | Some r \<Rightarrow> r),
                   empty_page_ecc_ok := c, force_create := d\<rparr>) w"
  from assms True obtain r2 w2 where at: "nmbm_attach crc D w1 = Some (r2, w2)"
    by (auto simp: mtk_bmt_init_nmbm_def w1_def Let_def simp del: One_nat_def split: option.splits)
  have "anchor w2 = anchor w" using anchor_geom [OF geom_nmbm_attach [OF at]] by (simp add: w1_def)
  with assms True at show ?thesis
    by (auto simp: mtk_bmt_init_nmbm_def w1_def [symmetric] simp del: One_nat_def split: if_splits)
qed (use assms in \<open>simp add: mtk_bmt_init_nmbm_def\<close>)

lemma anchor_read_bbt_loop: "mtk_bmt_read_bbt_loop D n i w = (r, w') \<Longrightarrow> anchor w' = anchor w"
proof (induction n arbitrary: i w)
  case (Suc n)
  let ?page = "u32 (i * 2 ^ (blk_shift (bmtd w) - pg_shift (bmtd w)))"
  obtain ret dat oob w1 where rd: "bbt_nand_read D ?page (pg_size (bmtd w)) 8 w = (ret, dat, oob, w1)" by (metis prod_cases4)
  have "anchor (w1\<lparr>bmtd := (bmtd w1)\<lparr>bbt_buf := x\<rparr>\<rparr>) = anchor w" for x
    using bbt_nand_read_frame [OF rd] by (simp add: anchor_def)
  with Suc show ?case
    by (auto simp: rd Let_def anchor_def split: if_splits)
qed simp

lemma anchor_init_bbt: "mtk_bmt_init_bbt D ok w = (r, w') \<Longrightarrow> anchor w' = anchor w"
  by (auto simp: mtk_bmt_init_bbt_def mtk_bmt_read_bbt_def Let_def anchor_def split: if_splits prod.splits
      dest!: anchor_read_bbt_loop [unfolded anchor_def])

lemma anchor_same_but_buf: "same_but_buf w w' \<Longrightarrow> anchor w' = anchor w"
  by (auto simp: same_but_buf_def anchor_def)

lemma anchor_set_bbt [simp]: "anchor (set_bbt f w) = anchor w"
  by (simp add: anchor_def set_bbt_def)

lemma anchor_scan_bb_tbl: "scan_bb_tbl D n i w = (r, w') \<Longrightarrow> anchor w' = anchor w"
proof (induction n arbitrary: i w)
  case (Suc n)
  obtain v w1 where f: "find_valid_block D (u16 (arr_get 0 (bb_tbl (bbt (bmtd w))) (i - 1) + 1)) w = (v, w1)" by fastforce
  from Suc anchor_same_but_buf [OF find_valid_block_spec(1) [OF f]] show ?case
    by (auto simp: f Let_def simp del: One_nat_def split: if_splits)
qed simp

lemma anchor_scan_pool: "scan_pool D block i w = (r, w') \<Longrightarrow> anchor w' = anchor w"
proof (induction D block i w arbitrary: r w' rule: scan_pool.induct)
  case (1 D block i w)
  obtain v w1 where f: "find_valid_block D block w = (v, w1)" by fastforce
  from "1.IH" [OF f [symmetric]] "1.prems" anchor_same_but_buf [OF find_valid_block_spec(1) [OF f]] show ?case
    by (subst (asm) scan_pool.simps) (auto simp: f split: if_splits)
qed

lemma anchor_scan_bad_blocks:
  assumes "scan_bad_blocks D w = (r, w')"
  shows "anchor w' = anchor w"
proof -
  obtain ok w1 where s1: "scan_bb_tbl D (pool_lba (bmtd w) - 1) 1 (set_bbt (set_bb_tbl 0 0) w) = (ok, w1)" by fastforce
  note g1 = anchor_scan_bb_tbl [OF s1]
  define w2 where "w2 = w1\<lparr>bmtd := (bmtd w1)\<lparr>pool_pba := u16 (arr_get 0 (bb_tbl (bbt (bmtd w1))) (max 1 (pool_lba (bmtd w)) - 1) + 1)\<rparr>\<rparr>"
  obtain i w3 where s3: "scan_pool D (pool_pba (bmtd w2)) 0 w2 = (i, w3)" by fastforce
  have g2: "anchor w2 = anchor w" using g1 by (simp add: anchor_def w2_def set_bbt_def)
  have "anchor w3 = anchor w" using anchor_scan_pool [OF s3] g2 by simp
  then have "anchor (w3\<lparr>bmtd := (bmtd w3)\<lparr>bmt_blk_idx := x\<rparr>\<rparr>) = anchor w" for x by (simp add: anchor_def)
  with assms s1 s3 g1 g2 show ?thesis
    by (auto simp: scan_bad_blocks_def Let_def w2_def [symmetric] simp del: One_nat_def split: if_splits)
qed

lemma anchor_find_table: "v2_find_table D sz n block w = (r, w') \<Longrightarrow> anchor w' = anchor w"
proof (induction n arbitrary: block w)
  case (Suc n)
  obtain ret dat fdm w1 where rd: "bbt_nand_read D (blk_pg (bmtd w) block) sz 4 w = (ret, dat, fdm, w1)" by (metis prod_cases4)
  have "anchor (w1\<lparr>bmtd := (bmtd w1)\<lparr>bbt_buf := x\<rparr>\<rparr>) = anchor w" for x
    using bbt_nand_read_frame [OF rd] by (simp add: anchor_def)
  with Suc show ?case
    by (auto simp: rd Let_def anchor_def split: if_splits)
qed simp

lemma anchor_upload_current: "anchor (upload_current D w) = anchor w"
  by (rule upload_current_effect [of w D]) (simp add: anchor_def)


lemma anchor_init_v2: "mtk_bmt_init_v2 D a b c ok w = (r, w') \<Longrightarrow> anchor w' = anchor w"
  by (auto simp: mtk_bmt_init_v2_def Let_def anchor_upload_current split: if_splits prod.splits
      dest!: anchor_find_table anchor_scan_bad_blocks) (simp_all add: anchor_def)

lemma anchor_ops_init: "ops_init crc D np ok w = Some (r, w') \<Longrightarrow> anchor w' = anchor w"
  by (auto simp: ops_init_def split: if_splits dest: anchor_init_nmbm intro: anchor_init_v2 anchor_init_bbt)

section \<open>Attach and detach restore the device\<close>

lemma ffs_power: "ffs (2 ^ k) = Suc k"
  by (induction k) (subst ffs.simps, simp)+

lemma ffs_shift: "k < 65536 \<Longrightarrow> u16_of_int (int (ffs (2 ^ k)) - 1) = k"
  by (simp add: ffs_power)

definition mtd_hooks_of :: "mtd_info \<Rightarrow> mtd_hooks" where
  "mtd_hooks_of m = \<lparr>hk_read_oob = hook_read_oob m, hk_write_oob = hook_write_oob m, hk_erase = hook_erase m,
     hk_block_isbad = hook_block_isbad m, hk_block_markbad = hook_block_markbad m\<rparr>"

definition node_oobsize :: "bmt_node \<Rightarrow> nat \<Rightarrow> nat" where
  "node_oobsize np n = (case dt_overridden_oobsize np of None \<Rightarrow> n | Some o' \<Rightarrow> min o' n)"

lemma attach_prepare_anchor:
  assumes "erasesize (mtd w) = 2 ^ k" and "k < 32" and "mtd_size (mtd w) = n * 2 ^ k" and "n < 65536"
  shows "anchor (attach_prepare np sig w) = (True, mtd_hooks_of (mtd w), n, k, node_oobsize np (oobsize (mtd w)))"
  using assms ffs_shift [of k]
  by (auto simp: anchor_def attach_prepare_def mtk_bmt_replace_ops_def mtd_hooks_of_def node_oobsize_def Let_def
      split: option.splits)

lemma detach_anchor:
  assumes "anchor w = (True, s, n, k, ob)" and "n * 2 ^ k < 2147483648"
  shows "mtd_hooks_of (mtd (mtk_bmt_detach w)) = s" and "mtd_size (mtd (mtk_bmt_detach w)) = n * 2 ^ k"
    and "bmtd (mtk_bmt_detach w) = bmtd_zero" and "oobsize (mtd (mtk_bmt_detach w)) = ob"
proof -
  have "u64_of_int (int (n * 2 ^ k)) = n * 2 ^ k"
    using assms(2) by (simp only: u64_of_int_def mod_pos_pos_trivial of_nat_0_le_iff)
  then have "u64_of_int (s32 (n * 2 ^ k)) = n * 2 ^ k" using assms(2) by (simp del: of_nat_mult)
  with assms(1) show "mtd_hooks_of (mtd (mtk_bmt_detach w)) = s" "mtd_size (mtd (mtk_bmt_detach w)) = n * 2 ^ k"
    "bmtd (mtk_bmt_detach w) = bmtd_zero" "oobsize (mtd (mtk_bmt_detach w)) = ob"
    by (auto simp: anchor_def mtk_bmt_detach_def Let_def mtd_hooks_of_def)
qed


text \<open>
  C35. Attaching is all or nothing, and detaching undoes it: after a failed attach, and after a
  successful one that is detached again, the five operations of the \<^verbatim>\<open>mtd_info\<close> are the ones it had
  before, its size is the old one and the layer is not attached; for a chip of whole blocks below 2 GiB.
  The spare size alone stays what the device node made of it.
\<close>

theorem bmt_attach_detach_restores:
  assumes "mtk_bmt_attach crc D (Some np) buf_ok alloc_ok w = Some (ret, w1)" and "\<not> attached (bmtd w)"
    and "node_sig np \<noteq> None"
    and "erasesize (mtd w) = 2 ^ k" and "k < 32" and "mtd_size (mtd w) = n * 2 ^ k" and "n < 65536"
    and "n * 2 ^ k < 2147483648"
  shows "let w2 = (if ret = 0 then mtk_bmt_detach w1 else w1) in
    mtd_hooks_of (mtd w2) = mtd_hooks_of (mtd w) \<and> mtd_size (mtd w2) = mtd_size (mtd w) \<and> bmtd w2 = bmtd_zero \<and>
    oobsize (mtd w2) = node_oobsize np (oobsize (mtd w))"
proof -
  obtain sig where sig: "node_sig np = Some sig" using assms(3) by auto
  define w0 where "w0 = attach_prepare np sig w"
  have a0: "anchor w0 = (True, mtd_hooks_of (mtd w), n, k, node_oobsize np (oobsize (mtd w)))"
    unfolding w0_def by (rule attach_prepare_anchor [OF assms(4-7)])
  have "\<exists>w3. anchor w3 = anchor w0 \<and> (if ret = 0 then mtk_bmt_detach w1 else w1) = mtk_bmt_detach w3"
  proof (cases buf_ok)
    case False
    with assms(1,2) sig show ?thesis by (intro exI [of _ w0]) (simp add: mtk_bmt_attach_def w0_def Let_def)
  next
    case True
    define wb where "wb = w0\<lparr>bmtd := (bmtd w0)\<lparr>data_buf := replicate (pg_size (bmtd w0) + oobsize (mtd w0)) 0xff\<rparr>\<rparr>"
    from assms(1,2) sig True obtain r3 w3 where oi: "ops_init crc D np alloc_ok wb = Some (r3, w3)"
      and eq: "(ret, w1) = (if r3 \<noteq> 0 then (r3, mtk_bmt_detach w3) else (0, w3))"
      by (auto simp: mtk_bmt_attach_def w0_def [symmetric] wb_def Let_def split: option.splits)
    have "anchor w3 = anchor w0" using anchor_ops_init [OF oi] by (simp add: wb_def anchor_def)
    with eq show ?thesis by (intro exI [of _ w3]) (auto split: if_splits)
  qed
  then obtain w3 where "anchor w3 = anchor w0" "(if ret = 0 then mtk_bmt_detach w1 else w1) = mtk_bmt_detach w3" by blast
  with detach_anchor [of w3] a0 assms(6,8) show ?thesis by (simp add: Let_def)
qed

definition ex_node :: bmt_node where
  "ex_node = \<lparr>dt_v2 = False, dt_nmbm = False, dt_bbt = True, dt_remap_range = None, dt_overridden_oobsize = Some 32,
     dt_pool_size = None, dt_oob_offset = None, dt_table_size = None, dt_max_ratio = None, dt_max_reserved_blocks = None,
     dt_empty_page_ecc_protected = False, dt_force_create = False\<rparr>"

definition ex_chip :: mtd_info where
  "ex_chip = ex_mtd\<lparr>hook_read_oob := Hook_driver, hook_write_oob := Hook_driver, hook_erase := Hook_driver,
     hook_block_isbad := Hook_driver, hook_block_markbad := Hook_null\<rparr>"

theorem bmt_attach_detach_restores_witness:
  "\<exists>ret w1. mtk_bmt_attach sum_crc log_drv (Some ex_node) True True \<lparr>dev = [], mtd = ex_chip, bmtd = bmtd_zero\<rparr> = Some (ret, w1) \<and>
     mtd_hooks_of (mtd (if ret = 0 then mtk_bmt_detach w1 else w1)) = mtd_hooks_of ex_chip"
proof -
  have at: "\<exists>ret w1. mtk_bmt_attach sum_crc log_drv (Some ex_node) True True \<lparr>dev = [], mtd = ex_chip, bmtd = bmtd_zero\<rparr> = Some (ret, w1)"
    by (simp add: mtk_bmt_attach_def node_sig_def ex_node_def ops_init_def bmtd_zero_def Let_def split: prod.splits)
  then obtain ret w1 where m: "mtk_bmt_attach sum_crc log_drv (Some ex_node) True True \<lparr>dev = [], mtd = ex_chip, bmtd = bmtd_zero\<rparr> = Some (ret, w1)"
    by blast
  from bmt_attach_detach_restores [OF m, of 12 8] m show ?thesis
    by (simp add: Let_def bmtd_zero_def node_sig_def ex_node_def ex_chip_def ex_mtd_def)
qed

end
