(* ===== verification/Bmt_V2_Store.thy ===== *)
theory Bmt_V2_Store
  imports Bmt_V2
begin

text \<open>
  What becomes of the BMT v2 tables between two attachments: the tables that are stored by \<^verbatim>\<open>upload_bmt\<close> at the end of every change, and the search of
  \<^verbatim>\<open>mtk_bmt_init_v2\<close> for them.
\<close>

section \<open>The device between two attachments\<close>

text \<open>
  What is relied on in the driver of the chip: reading changes nothing and gives no more than was asked for, and pages that were written after their
  block was erased are read back, data and spare bytes. Erasing and writing may still fail.
\<close>

definition reads_back :: "'d nand_drv \<Rightarrow> bool" where
  "reads_back D \<longleftrightarrow> (\<forall>a req d. case drv_read_oob D a req d of (_, ops, d') \<Rightarrow> d' = d \<and> length (oo_datbuf ops) \<le> oo_len req) \<and>
     (\<forall>a n ln off sig dat d. fst (drv_erase D a n d) = 0 \<longrightarrow>
        (case drv_write_oob D a (oob_request ln (length sig) (1 + off) dat sig) (snd (drv_erase D a n d)) of
           (ret, _, d') \<Rightarrow> ret = 0 \<longrightarrow>
             (case drv_read_oob D a (oob_request ln (1 + length sig) off [] []) d' of
                (r, ops, _) \<Rightarrow> 0 \<le> r \<and> oo_datbuf ops = take ln dat \<and> take (length sig) (drop 1 (oo_oobbuf ops)) = sig)))"

text \<open>The part of the descriptor that says where and how the tables are stored.\<close>

definition same_layout :: "bmt_desc \<Rightarrow> bmt_desc \<Rightarrow> bool" where
  "same_layout b b' \<longleftrightarrow> total_blks b' = total_blks b \<and> pool_lba b' = pool_lba b \<and> blk_shift b' = blk_shift b \<and> pg_shift b' = pg_shift b \<and>
     oob_offset b' = oob_offset b \<and> table_size b' = table_size b \<and> remap_range b' = remap_range b"

text \<open>
  The buffer of the tables holds \<open>k\<close> entries of the pool behind the block table; block numbers and addresses fit into the types the code gives them.
\<close>

definition tables_fit :: "nat \<Rightarrow> nat \<Rightarrow> bmt_desc \<Rightarrow> bool" where
  "tables_fit bufsz k b \<longleftrightarrow> bufsz = 4 + 2 * table_size b + 4 * k \<and> bufsz < 4294967296 \<and> bmt_pgs b * 2 ^ pg_shift b = bufsz \<and> ops_sig b = v2_sig \<and>
     pg_shift b \<le> blk_shift b \<and> total_blks b * 2 ^ blk_shift b \<le> 4294967296 \<and>
     length (bb_tbl (bbt b)) = table_size b \<and> k \<le> length (bmt_tbl (bbt b)) \<and>
     (\<forall>v \<in> set (bb_tbl (bbt b)). v < 65536) \<and> (\<forall>e \<in> set (bmt_tbl (bbt b)). bm_block e < 65536 \<and> bm_mapped e < 65536)"

text \<open>No block above \<open>block\<close> carries the signature of a table in its spare area.\<close>

definition unsigned_above :: "'d nand_drv \<Rightarrow> nat \<Rightarrow> nat \<Rightarrow> 'd bmt_world \<Rightarrow> bool" where
  "unsigned_above D bufsz block u \<longleftrightarrow> (\<forall>c. block < c \<and> c < total_blks (bmtd u) \<longrightarrow>
     (case bbt_nand_read D (blk_pg (bmtd u) c) bufsz 4 u of (ret, _, fdm, _) \<Rightarrow> ret \<noteq> 0 \<or> take 3 (drop 1 fdm) \<noteq> v2_sig))"

section \<open>What an upload leaves on the device\<close>

lemma upload_bmt_from_wrote:
  "upload_bmt_from D n w = (m, w') \<Longrightarrow> n \<le> 65535 \<Longrightarrow> m \<noteq> 65535 \<Longrightarrow>
    \<exists>w1 w2. bbt_nand_erase D (bm_block (bmt_entry (bbt (bmtd w')) m)) w1 = (0, w2) \<and>
      (\<exists>w3. dev w3 = dev w2 \<and> bmtd w3 = bmtd w' \<and> blk_shift (bmtd w1) = blk_shift (bmtd w') \<and>
        write_bmt D (bm_block (bmt_entry (bbt (bmtd w')) m)) (bbbt_bytes (bbt (bmtd w'))) w3 = (0, w')) \<and>
      bb_signature (bbt (bmtd w')) = str_BMT \<and> bb_version (bbt (bmtd w')) = BBMT_VERSION"
proof (induction n arbitrary: w)
  case (Suc n)
  let ?e = "bmt_entry (bbt (bmtd w)) n"
  let ?z = "set_bmt_entry n (?e\<lparr>bm_block := 0\<rparr>)" and ?h = "\<lambda>t. t\<lparr>bb_signature := str_BMT, bb_version := BBMT_VERSION\<rparr>"
  obtain r1 w1 where er: "bbt_nand_erase D (bm_block ?e) w = (r1, w1)" by fastforce
  obtain r2 w3 where wr: "write_bmt D (bm_block ?e) (bbbt_bytes (bbt (bmtd (set_bbt ?h w1)))) (set_bbt ?h w1) = (r2, w3)" by fastforce
  have b1: "bmtd w1 = bmtd w" using bbt_nand_erase_frame [OF er] by simp
  have b3: "bmtd w3 = bmtd (set_bbt ?h w1)" using write_bmt_frame [OF wr] by simp
  have unf: "upload_bmt_from D (Suc n) w =
      (if bm_mapped ?e = NORMAL_MAPPED then (65535, w)
       else if r1 \<noteq> 0 then upload_bmt_from D n (set_bbt ?z w1)
       else if r2 \<noteq> 0 then upload_bmt_from D n (set_bbt ?z w3)
       else (u16 n, w3))"
    using wr by (simp add: Let_def er)
  show ?case
  proof (cases "bm_mapped ?e \<noteq> NORMAL_MAPPED \<and> r1 = 0 \<and> r2 = 0")
    case True
    then have m: "m = n" "w' = w3" using Suc.prems unf by (simp_all add: u16_def)
    have e: "bmt_entry (bbt (bmtd w')) m = ?e" "bmtd w' = bmtd (set_bbt ?h w1)" using b1 b3 m by simp_all
    have "bbt_nand_erase D (bm_block ?e) w = (0, w1)" "dev (set_bbt ?h w1) = dev w1" "blk_shift (bmtd w) = blk_shift (bmtd w')"
      using er True b1 e(2) by (simp_all add: set_bbt_def)
    moreover have "write_bmt D (bm_block ?e) (bbbt_bytes (bbt (bmtd w'))) (set_bbt ?h w1) = (0, w')" using wr True m b3 by simp
    ultimately show ?thesis unfolding e(1) using e(2) by (intro exI [of _ w] exI [of _ w1]) (auto simp: e(2))
  next
    case False
    then obtain w0 where "upload_bmt_from D n w0 = (m, w')" using Suc.prems unf by (auto split: if_splits)
    then show ?thesis using Suc.IH Suc.prems(2,3) by simp
  qed
qed simp

lemma blk_pg_address:
  assumes "block < total_blks b" and "total_blks b * 2 ^ blk_shift b \<le> 4294967296" and "pg_shift b \<le> blk_shift b"
  shows "u32 (blk_pg b block * 2 ^ pg_shift b) = block * 2 ^ blk_shift b"
proof -
  have s: "block * 2 ^ (blk_shift b - pg_shift b) * 2 ^ pg_shift b = block * 2 ^ blk_shift b"
    using assms(3) by (simp add: mult.assoc power_add [symmetric])
  have "block * 2 ^ blk_shift b < total_blks b * 2 ^ blk_shift b" using assms(1) by simp
  then have l: "block * 2 ^ blk_shift b < 4294967296" using assms(2) by (rule less_le_trans)
  have "block * 2 ^ (blk_shift b - pg_shift b) \<le> block * 2 ^ blk_shift b" by (simp add: power_increasing)
  then have "u32 (block * 2 ^ (blk_shift b - pg_shift b)) = block * 2 ^ (blk_shift b - pg_shift b)" using l by (intro u32_id) (rule le_less_trans)
  then show ?thesis using l by (simp only: blk_pg_def s u32_id)
qed

lemma take_concat_bbmt: "k \<le> length es \<Longrightarrow> take (4 * k) (concat (map bbmt_bytes es)) = concat (map bbmt_bytes (take k es))"
proof (induction es arbitrary: k)
  case (Cons e es)
  have "length (bbmt_bytes e) = 4" by (simp add: bbmt_bytes_def le16_def)
  then show ?case using Cons by (cases k) simp_all
qed simp

lemma take_bbbt_bytes:
  assumes "length (bb_signature t) = 3" and "length (bb_tbl t) = n" and "k \<le> length (bmt_tbl t)"
  shows "take (4 + 2 * n + 4 * k) (bbbt_bytes t) = bbbt_bytes (t\<lparr>bmt_tbl := take k (bmt_tbl t)\<rparr>)"
proof -
  have "length (concat (map le16 (bb_tbl t))) = 2 * n" using concat_map_length_const [of le16 2 "bb_tbl t"] assms(2) by simp
  then show ?thesis using assms by (simp add: bbbt_bytes_def take_concat_bbmt)
qed

lemma length_bbbt_bytes:
  assumes "length (bb_signature t) = 3"
  shows "length (bbbt_bytes t) = 4 + 2 * length (bb_tbl t) + 4 * length (bmt_tbl t)"
  using assms concat_map_length_const [of le16 2 "bb_tbl t"] concat_map_length_const [of bbmt_bytes 4 "bmt_tbl t"]
  by (simp add: bbbt_bytes_def bbmt_bytes_def le16_def)

section \<open>The search for a table\<close>

lemma reads_back_same:
  assumes "reads_back D" and "drv_read_oob D a req d = (r, ops, d')"
  shows "d' = d" and "length (oo_datbuf ops) \<le> oo_len req"
  using assms unfolding reads_back_def by (elim conjE; elim allE [of _ a]; elim allE [of _ req]; elim allE [of _ d]; simp)+

lemma reads_back_stored:
  assumes "reads_back D" and "drv_erase D a n d0 = (0, d)"
    and "drv_write_oob D a (oob_request ln (length sig) (1 + off) dat sig) d = (0, ops, d')"
    and "drv_read_oob D a (oob_request ln (1 + length sig) off [] []) d' = (r, ops', d'')"
  shows "0 \<le> r \<and> oo_datbuf ops' = take ln dat \<and> take (length sig) (drop 1 (oo_oobbuf ops')) = sig"
proof -
  have "case drv_write_oob D a (oob_request ln (length sig) (1 + off) dat sig) (snd (drv_erase D a n d0)) of
      (ret, _, d') \<Rightarrow> ret = 0 \<longrightarrow>
        (case drv_read_oob D a (oob_request ln (1 + length sig) off [] []) d' of
           (r, ops, _) \<Rightarrow> 0 \<le> r \<and> oo_datbuf ops = take ln dat \<and> take (length sig) (drop 1 (oo_oobbuf ops)) = sig)"
    using assms(1,2) unfolding reads_back_def
    by (elim conjE allE [of _ a] allE [of _ n] allE [of _ ln] allE [of _ off] allE [of _ sig] allE [of _ dat] allE [of _ d0]) simp
  then show ?thesis using assms(2-4) by simp
qed

lemma stored_table_read:
  assumes "reads_back D" and "upload_bmt_from D n w = (m, w')" and "n \<le> 65535" and "m \<noteq> 65535" and "tables_fit bufsz k (bmtd w')"
    and "dev u = dev w'" and "same_layout (bmtd w') (bmtd u)" and "bm_block (bmt_entry (bbt (bmtd w')) m) < total_blks (bmtd w')"
  shows "\<exists>fdm. bbt_nand_read D (blk_pg (bmtd u) (bm_block (bmt_entry (bbt (bmtd w')) m))) bufsz 4 u =
    (0, bbbt_bytes ((bbt (bmtd w'))\<lparr>bmt_tbl := take k (bmt_tbl (bbt (bmtd w')))\<rparr>), fdm, u) \<and> take 3 (drop 1 fdm) = v2_sig"
proof -
  define b t block where "b = bmtd w'" and "t = bbt b" and "block = bm_block (bmt_entry t m)"
  obtain w1 w2 w3 where er: "bbt_nand_erase D block w1 = (0, w2)" and d: "dev w3 = dev w2" "bmtd w3 = b" "blk_shift (bmtd w1) = blk_shift b"
    and wr: "write_bmt D block (bbbt_bytes t) w3 = (0, w')" and sg: "bb_signature t = str_BMT"
    using upload_bmt_from_wrote [OF assms(2-4)] unfolding b_def t_def block_def by blast
  have f: "bmt_pgs b * 2 ^ pg_shift b = bufsz" "u32 bufsz = bufsz" "ops_sig b = v2_sig" "length (bb_tbl t) = table_size b" "k \<le> length (bmt_tbl t)"
    "bufsz = 4 + 2 * table_size b + 4 * k"
    using assms(5) by (simp_all add: tables_fit_def b_def t_def)
  let ?a = "block * 2 ^ blk_shift b" and ?n = "blk_size (bmtd w1)"
  have e: "drv_erase D ?a ?n (dev w1) = (0, dev w2)" using er d(3) by (auto simp: bbt_nand_erase_def Let_def split: prod.splits)
  obtain ops where w: "drv_write_oob D ?a (oob_request bufsz (length v2_sig) (1 + oob_offset b) (bbbt_bytes t) v2_sig) (dev w2) = (0, ops, dev w')"
    using wr d f by (auto simp: write_bmt_def Let_def split: prod.splits)
  obtain r ops' d' where rd: "drv_read_oob D ?a (oob_request bufsz (1 + length v2_sig) (oob_offset b) [] []) (dev w') = (r, ops', d')"
    by (metis prod_cases3)
  have g: "0 \<le> r" "oo_datbuf ops' = take bufsz (bbbt_bytes t)" "take (length v2_sig) (drop 1 (oo_oobbuf ops')) = v2_sig" "d' = dev w'"
    using reads_back_stored [OF assms(1) e w rd] reads_back_same [OF assms(1) rd] by simp_all
  have l: "length v2_sig = 3" "length (bb_signature t) = 3" by (simp_all add: v2_sig_def sg str_BMT_def)
  have ad: "u32 (blk_pg (bmtd u) block * 2 ^ pg_shift (bmtd u)) = ?a"
    using blk_pg_address [of block "bmtd u"] assms(5,7,8) by (simp add: same_layout_def tables_fit_def b_def t_def block_def)
  have "oob_offset (bmtd u) = oob_offset b" using assms(7) by (simp add: same_layout_def b_def)
  then have "bbt_nand_read D (blk_pg (bmtd u) block) bufsz 4 u = (0, take bufsz (bbbt_bytes t), oo_oobbuf ops', u)"
    using rd g ad l assms(6) by (simp add: bbt_nand_read_def Let_def)
  then show ?thesis using g(3) l take_bbbt_bytes [OF l(2) f(4,5)] f(6) unfolding b_def t_def block_def by simp
qed

lemma bbt_nand_read_buf:
  "bbt_nand_read D pg ln fl (u\<lparr>bmtd := (bmtd u)\<lparr>bbt_buf := X\<rparr>\<rparr>) =
    (case bbt_nand_read D pg ln fl u of (ret, dat, fdm, u1) \<Rightarrow> (ret, dat, fdm, u\<lparr>dev := dev u1, bmtd := (bmtd u)\<lparr>bbt_buf := X\<rparr>\<rparr>))"
  by (simp add: bbt_nand_read_def Let_def split: prod.splits)

lemma bbt_nand_read_back:
  assumes "reads_back D" and "bbt_nand_read D pg ln fl u = (ret, dat, fdm, u1)"
  shows "u1 = u" and "length dat \<le> ln"
proof -
  let ?a = "u32 (pg * 2 ^ pg_shift (bmtd u))" and ?q = "oob_request ln fl (oob_offset (bmtd u)) [] []"
  obtain r ops d where rd: "drv_read_oob D ?a ?q (dev u) = (r, ops, d)" by (metis prod_cases3)
  then have "d = dev u" "length (oo_datbuf ops) \<le> ln" using reads_back_same [OF assms(1) rd] by (simp_all add: oob_request_def)
  then show "u1 = u" "length dat \<le> ln" using assms(2) rd by (auto simp: bbt_nand_read_def Let_def)
qed

lemma v2_find_skip:
  assumes "reads_back D" and "unsigned_above D bufsz block u"
  shows "length X = bufsz \<Longrightarrow> block + j < total_blks (bmtd u) \<Longrightarrow>
    \<exists>Y. length Y = bufsz \<and> v2_find_table D bufsz (j + n) (block + j) (u\<lparr>bmtd := (bmtd u)\<lparr>bbt_buf := X\<rparr>\<rparr>) =
      v2_find_table D bufsz n block (u\<lparr>bmtd := (bmtd u)\<lparr>bbt_buf := Y\<rparr>\<rparr>)"
proof (induction j arbitrary: X)
  case (Suc j)
  let ?c = "block + Suc j" and ?u = "\<lambda>X. u\<lparr>bmtd := (bmtd u)\<lparr>bbt_buf := X\<rparr>\<rparr>"
  obtain ret dat fdm u1 where rd: "bbt_nand_read D (blk_pg (bmtd u) ?c) bufsz 4 u = (ret, dat, fdm, u1)" by (metis prod_cases4)
  note k = bbt_nand_read_back [OF assms(1) rd]
  have no: "ret \<noteq> 0 \<or> take 3 (drop 1 fdm) \<noteq> v2_sig"
    using assms(2) Suc.prems(2) rd unfolding unsigned_above_def by (auto dest: spec [of _ ?c])
  define Z where "Z = fill_front dat X"
  have lZ: "length Z = bufsz" using k(2) Suc.prems(1) by (simp add: Z_def fill_front_def)
  have rd': "bbt_nand_read D (blk_pg (bmtd (?u X)) ?c) bufsz 4 (?u X) = (ret, dat, fdm, ?u X)"
    using rd k(1) by (simp add: bbt_nand_read_buf blk_pg_def)
  have "v2_find_table D bufsz (Suc j + n) ?c (?u X) = v2_find_table D bufsz (j + n) (block + j) (?u Z)"
    using rd' no by (auto simp: Let_def Z_def is_valid_bmt_def)
  then show ?case using Suc.IH [OF lZ] Suc.prems(2) by auto
qed auto

lemma v2_find_stored:
  assumes "reads_back D" and "upload_bmt_from D n w = (m, w')" and "n \<le> 65535" and "m \<noteq> 65535" and "tables_fit bufsz k (bmtd w')"
    and "dev u = dev w'" and "same_layout (bmtd w') (bmtd u)" and "length (bbt_buf (bmtd u)) = bufsz"
  defines "t \<equiv> bbt (bmtd w')"
  defines "block \<equiv> bm_block (bmt_entry t m)" and "t' \<equiv> t\<lparr>bmt_tbl := take k (bmt_tbl t)\<rparr>"
  assumes "pool_lba (bmtd w') \<le> block" and "block < total_blks (bmtd w')" and "unsigned_above D bufsz block u"
  shows "v2_find_table D bufsz (total_blks (bmtd u) - pool_lba (bmtd u)) (total_blks (bmtd u) - 1) u =
    (get_bmt_index t' \<noteq> 0, u\<lparr>bmtd := (bmtd u)\<lparr>bbt_buf := bbbt_bytes t', bmt_blk_idx := get_bmt_index t',
       bbt := if get_bmt_index t' \<noteq> 0 then t' else bbt (bmtd u)\<rparr>\<rparr>)"
proof -
  let ?b = "bmtd u"
  define j n where "j = total_blks ?b - 1 - block" and "n = block - pool_lba ?b"
  have lay: "total_blks ?b = total_blks (bmtd w')" "pool_lba ?b = pool_lba (bmtd w')" "table_size ?b = table_size (bmtd w')"
    using assms(7) by (simp_all add: same_layout_def)
  have ix: "total_blks ?b - pool_lba ?b = j + Suc n" "total_blks ?b - 1 = block + j" "block + j < total_blks ?b"
    using assms(12,13) lay unfolding j_def n_def by linarith+
  obtain Y where Y: "length Y = bufsz" and sk: "v2_find_table D bufsz (j + Suc n) (block + j) (u\<lparr>bmtd := ?b\<lparr>bbt_buf := bbt_buf ?b\<rparr>\<rparr>) =
      v2_find_table D bufsz (Suc n) block (u\<lparr>bmtd := ?b\<lparr>bbt_buf := Y\<rparr>\<rparr>)"
    using v2_find_skip [OF assms(1,14,8), of j "Suc n"] ix(3) by blast
  let ?u = "u\<lparr>bmtd := ?b\<lparr>bbt_buf := Y\<rparr>\<rparr>"
  have "same_layout (bmtd w') (bmtd ?u)" "dev ?u = dev w'" using assms(6,7) by (simp_all add: same_layout_def)
  from stored_table_read [OF assms(1-5) this(2,1)] assms(13)
  obtain fdm where rd: "bbt_nand_read D (blk_pg (bmtd ?u) block) bufsz 4 ?u = (0, bbbt_bytes t', fdm, ?u)" and fd: "take 3 (drop 1 fdm) = v2_sig"
    unfolding t_def block_def t'_def by blast
  obtain w1 where sg: "bb_signature t = str_BMT" "bb_version t = BBMT_VERSION"
    using upload_bmt_from_wrote [OF assms(2-4)] unfolding t_def by blast
  have fit: "length (bb_tbl t) = table_size (bmtd w')" "\<forall>v \<in> set (bb_tbl t). v < 65536" "k \<le> length (bmt_tbl t)"
    "\<forall>e \<in> set (bmt_tbl t). bm_block e < 65536 \<and> bm_mapped e < 65536" "bufsz = 4 + 2 * table_size (bmtd w') + 4 * k"
    using assms(5) by (simp_all add: tables_fit_def t_def)
  have s3: "length (bb_signature t') = 3" by (simp add: t'_def sg str_BMT_def)
  then have len: "length (bbbt_bytes t') = bufsz" using fit by (simp add: length_bbbt_bytes) (simp add: t'_def)
  have rt: "bbbt_of_bytes (table_size ?b) (bbbt_bytes t') = t'"
    using fit s3 by (intro v2_tables_roundtrip) (auto simp: t'_def sg lay dest: in_set_takeD)
  have buf: "fill_front (bbbt_bytes t') Y = bbbt_bytes t'" using len Y by (simp add: fill_front_def)
  have val: "is_valid_bmt t' fdm" using sg fd by (simp add: is_valid_bmt_def t'_def)
  have "v2_find_table D bufsz (Suc n) block ?u = (get_bmt_index t' \<noteq> 0, u\<lparr>bmtd := ?b\<lparr>bbt_buf := bbbt_bytes t', bmt_blk_idx := get_bmt_index t',
       bbt := if get_bmt_index t' \<noteq> 0 then t' else bbt ?b\<rparr>\<rparr>)"
    unfolding v2_find_table.simps rd by (simp add: Let_def buf rt val)
  then show ?thesis unfolding ix(1,2) using sk by simp
qed

section \<open>Attaching again\<close>

text \<open>The layout that attaching computes from the properties of the device tree.\<close>

definition v2_layout :: "nat option \<Rightarrow> nat option \<Rightarrow> nat option \<Rightarrow> bmt_desc \<Rightarrow> bmt_desc" where
  "v2_layout pool_prop oob_prop tsize_prop b =
     (let ts = (case tsize_prop of None \<Rightarrow> 0x2000 | Some n \<Rightarrow> n);
          pmt_block = u16 (sub32 (sub32 (total_blks b) (case pool_prop of None \<Rightarrow> 80 | Some n \<Rightarrow> n)) 2)
      in b\<lparr>oob_offset := (case oob_prop of None \<Rightarrow> 0 | Some n \<Rightarrow> n), table_size := ts, pool_lba := u16 (pmt_block + 2),
           bb_max := u16 (total_blks b * 2 div 100), bmt_pgs := v2_bufsz ts (pg_size b) div 2 ^ pg_shift b,
           bbt_buf := replicate (v2_bufsz ts (pg_size b)) 0xff\<rparr>)"

text \<open>The chip as the next attachment finds it: what \<open>w'\<close> left on it, the same layout, and no table above the block the tables were stored in.\<close>

definition attaches_after ::
    "'d nand_drv \<Rightarrow> nat option \<Rightarrow> nat option \<Rightarrow> nat option \<Rightarrow> 'd bmt_world \<Rightarrow> nat \<Rightarrow> 'd bmt_world \<Rightarrow> bool" where
  "attaches_after D pool oob ts w' k v \<longleftrightarrow>
     (let b = v2_layout pool oob ts (bmtd v); bufsz = v2_bufsz (table_size b) (pg_size b); block = bm_block (bmt_entry (bbt (bmtd w')) (bmt_blk_idx (bmtd w')))
      in dev v = dev w' \<and> same_layout (bmtd w') b \<and> tables_fit bufsz k (bmtd w') \<and>
         pool_lba (bmtd w') \<le> block \<and> block < total_blks (bmtd w') \<and> unsigned_above D bufsz block (v\<lparr>bmtd := b\<rparr>))"

lemma unsigned_above_mtd: "unsigned_above D bufsz block (u\<lparr>mtd := x, bmtd := b\<rparr>) = unsigned_above D bufsz block (u\<lparr>bmtd := b\<rparr>)"
  by (simp add: unsigned_above_def bbt_nand_read_def Let_def split_beta)

lemma layout_idx:
  "same_layout (b\<lparr>bmt_blk_idx := i\<rparr>) b' = same_layout b b'" "tables_fit bufsz k (b\<lparr>bmt_blk_idx := i\<rparr>) = tables_fit bufsz k b"
  by (simp_all add: same_layout_def tables_fit_def)

lemma v2_attach_stored:
  assumes "reads_back D" and "upload_current D w = w'" and "bmt_blk_idx (bmtd w) < 65535" and "bmt_blk_idx (bmtd w') \<noteq> 65535"
    and "attaches_after D pool oob ts w' k v"
  defines "b \<equiv> v2_layout pool oob ts (bmtd v)"
  defines "x \<equiv> mtd_size_update (\<lambda>_. u64_of_int (s32 (u16 (sub32 (sub32 (total_blks b) (case pool of None \<Rightarrow> 80 | Some n \<Rightarrow> n)) 2) * 2 ^ blk_shift b))) (mtd v)"
    and "t' \<equiv> (bbt (bmtd w'))\<lparr>bmt_tbl := take k (bmt_tbl (bbt (bmtd w')))\<rparr>"
  shows "v2_find_table D (v2_bufsz (table_size b) (pg_size b)) (total_blks b - pool_lba b) (total_blks b - 1) (v\<lparr>mtd := x, bmtd := b\<rparr>) =
    (get_bmt_index t' \<noteq> 0, v\<lparr>mtd := x, bmtd := b\<lparr>bbt_buf := bbbt_bytes t', bmt_blk_idx := get_bmt_index t',
       bbt := if get_bmt_index t' \<noteq> 0 then t' else bbt (bmtd v)\<rparr>\<rparr>)"
proof -
  obtain m w1 where up: "upload_bmt_from D (Suc (bmt_blk_idx (bmtd w))) w = (m, w1)" by fastforce
  then have w': "w' = w1\<lparr>bmtd := (bmtd w1)\<lparr>bmt_blk_idx := m\<rparr>\<rparr>"
    using assms(2) by (simp add: upload_current_def upload_bmt_def nat_add_distrib)
  let ?u = "v\<lparr>mtd := x, bmtd := b\<rparr>" and ?n = "v2_bufsz (table_size b) (pg_size b)"
  have a: "dev ?u = dev w1" "same_layout (bmtd w1) b" "tables_fit ?n k (bmtd w1)"
    "pool_lba (bmtd w1) \<le> bm_block (bmt_entry (bbt (bmtd w1)) m)" "bm_block (bmt_entry (bbt (bmtd w1)) m) < total_blks (bmtd w1)"
    "unsigned_above D ?n (bm_block (bmt_entry (bbt (bmtd w1)) m)) ?u"
    using assms(5) unsigned_above_mtd [where D = D and u = v and x = x and b = b]
    by (simp_all add: attaches_after_def Let_def w' b_def layout_idx)
  have l: "length (bbt_buf (bmtd ?u)) = ?n" "bbt b = bbt (bmtd v)" by (simp_all add: b_def v2_layout_def Let_def)
  have t: "bbt (bmtd w1) = bbt (bmtd w')" by (simp add: w')
  show ?thesis
    using v2_find_stored [OF assms(1) up _ _ a(3) a(1) _ l(1) a(4,5,6)] a(2) assms(3,4) l(2) unfolding t t'_def [symmetric] by (simp add: w')
qed


text \<open>What attaching does once the search is over.\<close>

definition v2_rebuild :: "'d nand_drv \<Rightarrow> 'd bmt_world \<Rightarrow> int \<times> 'd bmt_world" where
  "v2_rebuild D u =
     (let ts = table_size (bmtd u)
      in if total_blks (bmtd u) > ts + ts * 2 div 100 then (-1, u)
         else
           let (ret, w5) = scan_bad_blocks D (set_bbt (\<lambda>_. (bbbt_of_bytes ts (bbt_buf (bmtd u)))\<lparr>bmt_tbl := replicate ts bbmt_zero\<rparr>) u)
           in if ret \<noteq> 0 then (-1, w5)
              else let w6 = upload_current D w5 in if bmt_blk_idx (bmtd w6) = 65535 then (-1, w6) else (0, w6))"

lemma mtk_bmt_init_v2_stored:
  assumes "reads_back D" and "upload_current D w = w'" and "bmt_blk_idx (bmtd w) < 65535" and "bmt_blk_idx (bmtd w') \<noteq> 65535"
    and "attaches_after D pool oob ts w' k v"
  defines "t' \<equiv> (bbt (bmtd w'))\<lparr>bmt_tbl := take k (bmt_tbl (bbt (bmtd w')))\<rparr>" and "b \<equiv> v2_layout pool oob ts (bmtd v)"
  shows "\<exists>x. mtk_bmt_init_v2 D pool oob ts True v =
    (let u = v\<lparr>mtd := x, bmtd := b\<lparr>bbt_buf := bbbt_bytes t', bmt_blk_idx := get_bmt_index t', bbt := if get_bmt_index t' \<noteq> 0 then t' else bbt (bmtd v)\<rparr>\<rparr>
     in if get_bmt_index t' \<noteq> 0 then (0, u) else v2_rebuild D u)"
  using v2_attach_stored [OF assms(1-5)] unfolding b_def [symmetric] t'_def [symmetric]
  by (intro exI [of _ "mtd_size_update (\<lambda>_. u64_of_int (s32 (u16 (sub32 (sub32 (total_blks b) (case pool of None \<Rightarrow> 80 | Some n \<Rightarrow> n)) 2) * 2 ^ blk_shift b))) (mtd v)"])
    (simp add: mtk_bmt_init_v2_def v2_rebuild_def b_def v2_layout_def Let_def)

lemma mtk_bmt_init_v2_found:
  assumes "reads_back D" and "upload_current D w = w'" and "bmt_blk_idx (bmtd w) < 65535" and "bmt_blk_idx (bmtd w') \<noteq> 65535"
    and "attaches_after D pool oob ts w' k v"
  defines "t' \<equiv> (bbt (bmtd w'))\<lparr>bmt_tbl := take k (bmt_tbl (bbt (bmtd w')))\<rparr>"
  obtains u where "dev u = dev w'" and "same_layout (bmtd w') (bmtd u)" and "bmt_blk_idx (bmtd u) = get_bmt_index t'"
    and "get_bmt_index t' \<noteq> 0 \<Longrightarrow> mtk_bmt_init_v2 D pool oob ts True v = (0, u) \<and> bbt (bmtd u) = t'"
    and "get_bmt_index t' = 0 \<Longrightarrow> mtk_bmt_init_v2 D pool oob ts True v = v2_rebuild D u"
proof -
  let ?b = "v2_layout pool oob ts (bmtd v)"
  let ?u = "\<lambda>x. v\<lparr>mtd := x, bmtd := ?b\<lparr>bbt_buf := bbbt_bytes t', bmt_blk_idx := get_bmt_index t', bbt := if get_bmt_index t' \<noteq> 0 then t' else bbt (bmtd v)\<rparr>\<rparr>"
  obtain x where i: "mtk_bmt_init_v2 D pool oob ts True v = (if get_bmt_index t' \<noteq> 0 then (0, ?u x) else v2_rebuild D (?u x))"
    using mtk_bmt_init_v2_stored [OF assms(1-5)] unfolding t'_def [symmetric] Let_def by blast
  show thesis using assms(5) i by (intro that [of "?u x"]) (simp_all add: attaches_after_def Let_def same_layout_def)
qed

lemma v2_rebuild_scans:
  assumes "v2_rebuild D u = (0, v')"
  shows "\<exists>u'. dev u' = dev u \<and> same_layout (bmtd u) (bmtd u') \<and> fst (scan_bad_blocks D u') = 0 \<and> v' = upload_current D (snd (scan_bad_blocks D u'))"
  using assms unfolding v2_rebuild_def Let_def
  by (intro exI [of _ "set_bbt (\<lambda>_. (bbbt_of_bytes (table_size (bmtd u)) (bbt_buf (bmtd u)))\<lparr>bmt_tbl := replicate (table_size (bmtd u)) bbmt_zero\<rparr>) u"])
    (auto simp: set_bbt_def same_layout_def split: prod.splits if_splits)

lemma same_layout_trans: "same_layout a b \<Longrightarrow> same_layout b c \<Longrightarrow> same_layout a c"
  by (simp add: same_layout_def)





text \<open>
  C28. Storing the tables after their block failed loses them: when the upload had to give up the block of entry \<open>bmt_blk_idx\<close>, the only one marked as
  the table's, and succeeded on an earlier entry, the next attachment, on a chip that reads back what was written and has no older table in a block
  above, does not take the stored tables: if it succeeds, its block table is that of a new scan of the chip.
\<close>

theorem v2_fallback_table_lost:
  assumes "reads_back D" and "upload_current D w = w'" and "bmt_blk_idx (bmtd w') < bmt_blk_idx (bmtd w)" and "bmt_blk_idx (bmtd w) < 65535"
    and "\<forall>i<bmt_blk_idx (bmtd w). bm_mapped (bmt_entry (bbt (bmtd w)) i) \<noteq> BMT_MAPPED"
    and "attaches_after D pool oob ts w' k v" and "mtk_bmt_init_v2 D pool oob ts True v = (0, v')"
  shows "\<exists>u. dev u = dev w' \<and> same_layout (bmtd w') (bmtd u) \<and> fst (scan_bad_blocks D u) = 0 \<and> bb_tbl (bbt (bmtd v')) = bb_tbl (bbt (bmtd (snd (scan_bad_blocks D u))))"
proof -
  let ?n = "Suc (bmt_blk_idx (bmtd w))" and ?t = "(bbt (bmtd w'))\<lparr>bmt_tbl := take k (bmt_tbl (bbt (bmtd w')))\<rparr>"
  obtain m w1 where up: "upload_bmt_from D ?n w = (m, w1)" by fastforce
  then have w': "w' = w1\<lparr>bmtd := (bmtd w1)\<lparr>bmt_blk_idx := m\<rparr>\<rparr>"
    using assms(2) by (simp add: upload_current_def upload_bmt_def nat_add_distrib)
  have m: "m < bmt_blk_idx (bmtd w)" "bmt_blk_idx (bmtd w') \<noteq> 65535" using assms(3,4) w' by simp_all
  obtain l where l: "l \<le> ?n" "gave_up l ?n (bbt (bmtd w)) (bbt (bmtd w1))" "0 < l" "m = u16 (l - 1)"
    using upload_bmt_from_effect [OF up] m(1) assms(4) by auto
  then have "l = Suc m" using m(1) assms(4) by simp
  then have e: "bm_block (bmt_entry (bbt (bmtd w')) l) = 0" "\<forall>i<l. bm_mapped (bmt_entry (bbt (bmtd w')) i) \<noteq> BMT_MAPPED"
    using l m assms(5) by (auto simp: gave_up_def w')
  have z: "get_bmt_index ?t = 0"
  proof (cases "l < k")
    case True
    then show ?thesis using e unfolding get_bmt_index_def bmt_entry_def
      by (intro get_bmt_index_from_none [of _ l]) (auto simp: arr_get_def bbmt_zero_def)
  next
    case False
    have "bm_block (arr_get bbmt_zero (take k (bmt_tbl (bbt (bmtd w')))) k) = 0" by (simp add: arr_get_def bbmt_zero_def)
    moreover have "\<forall>i<k. bm_mapped (arr_get bbmt_zero (take k (bmt_tbl (bbt (bmtd w')))) i) \<noteq> BMT_MAPPED"
    proof (intro allI impI)
      fix i assume "i < k"
      then have "bm_mapped (bmt_entry (bbt (bmtd w')) i) \<noteq> BMT_MAPPED" using e(2) False by simp
      then show "bm_mapped (arr_get bbmt_zero (take k (bmt_tbl (bbt (bmtd w')))) i) \<noteq> BMT_MAPPED"
        using \<open>i < k\<close> by (auto simp: bmt_entry_def arr_get_def)
    qed
    ultimately show ?thesis unfolding get_bmt_index_def by (simp add: get_bmt_index_from_none)
  qed
  obtain u' where u': "dev u' = dev w'" "same_layout (bmtd w') (bmtd u')" "fst (scan_bad_blocks D u') = 0" "v' = upload_current D (snd (scan_bad_blocks D u'))"
    using mtk_bmt_init_v2_found [OF assms(1,2,4) m(2) assms(6)] z assms(7) v2_rebuild_scans same_layout_trans by metis
  obtain j t idx where "gave_up j (Suc (bmt_blk_idx (bmtd (snd (scan_bad_blocks D u'))))) (bbt (bmtd (snd (scan_bad_blocks D u')))) t"
    "bmtd v' = (bmtd (snd (scan_bad_blocks D u')))\<lparr>bbt := t, bmt_blk_idx := idx\<rparr>"
    using upload_current_effect [of "snd (scan_bad_blocks D u')" D] unfolding u'(4) by metis
  then show ?thesis using u' by (intro exI [of _ u']) (simp add: gave_up_def)
qed

section \<open>A chip in memory\<close>

text \<open>A chip that keeps the pages written, with their spare bytes, until their block is erased; the blocks at the addresses \<open>worn\<close> cannot be erased.\<close>

type_synonym ram_chip = "nat \<Rightarrow> (byte list \<times> byte list) option"

definition ram_page :: "ram_chip \<Rightarrow> nat \<Rightarrow> nat \<Rightarrow> byte list" where
  "ram_page d a n = take n (case d a of None \<Rightarrow> replicate n 0xff | Some (x, _) \<Rightarrow> x)"

definition ram_clear :: "nat \<Rightarrow> nat \<Rightarrow> ram_chip \<Rightarrow> ram_chip" where
  "ram_clear a n d = (\<lambda>x. if a \<le> x \<and> x < a + n then None else d x)"

definition ram_nand :: "nat list \<Rightarrow> ram_chip nand_drv" where
  "ram_nand worn =
     \<lparr>drv_read_oob = (\<lambda>a req d. (0, req\<lparr>oo_datbuf := ram_page d a (oo_len req),
        oo_oobbuf := (case d a of None \<Rightarrow> replicate (oo_ooblen req) 0xff | Some (_, s) \<Rightarrow> 0xff # s)\<rparr>, d)),
      drv_write_oob = (\<lambda>a req d. (0, req, d(a \<mapsto> (take (oo_len req) (oo_datbuf req), oo_oobbuf req)))),
      drv_erase = (\<lambda>a n d. if a \<in> set worn then (- EIO, d) else (0, ram_clear a n d)),
      drv_block_isbad = (\<lambda>a d. (0, d)), drv_block_markbad = (\<lambda>a d. (0, d))\<rparr>"

lemma ram_nand_reads_back: "reads_back (ram_nand worn)"
  by (simp add: reads_back_def ram_nand_def oob_request_def ram_page_def)

lemma ram_clear_empty [simp]: "ram_clear a n (\<lambda>_. None) = (\<lambda>_. None)"
  by (simp add: ram_clear_def)

lemma ram_erase:
  "bbt_nand_erase (ram_nand worn) block w = (if block * 2 ^ blk_shift (bmtd w) \<in> set worn then (- EIO, w)
     else (0, w\<lparr>dev := ram_clear (block * 2 ^ blk_shift (bmtd w)) (blk_size (bmtd w)) (dev w)\<rparr>))"
  by (simp add: bbt_nand_erase_def ram_nand_def)

lemma ram_write:
  "write_bmt (ram_nand worn) block dat w =
    (0, w\<lparr>dev := (dev w)(block * 2 ^ blk_shift (bmtd w) \<mapsto> (take (u32 (bmt_pgs (bmtd w) * 2 ^ pg_shift (bmtd w))) dat, ops_sig (bmtd w)))\<rparr>)"
  by (simp add: write_bmt_def ram_nand_def Let_def oob_request_def)

lemma upload_bmt_from_3: "upload_bmt_from D 3 w = upload_bmt_from D (Suc (Suc (Suc 0))) w"
  by (simp add: numeral_3_eq_3)

definition ex_store :: bmt_desc where
  "ex_store = bmtd_zero\<lparr>attached := True, ops_sig := v2_sig, pg_size := 4, pg_shift := 2, blk_size := 64, blk_shift := 6, total_blks := 5, pool_lba := 2,
     bb_max := 0, table_size := 6, bmt_pgs := 7, bmt_blk_idx := 2,
     bbt := \<lparr>bb_signature = [], bb_version = 0, bb_tbl = [0, 2, 0, 0, 0, 0],
       bmt_tbl = [\<lparr>bm_block = 2, bm_mapped = NORMAL_MAPPED\<rparr>, \<lparr>bm_block = 3, bm_mapped = NO_MAPPED\<rparr>, \<lparr>bm_block = 4, bm_mapped = BMT_MAPPED\<rparr>]\<rparr>\<rparr>"

definition ex_store_w :: "ram_chip bmt_world" where
  "ex_store_w = \<lparr>dev = (\<lambda>_. None), mtd = ex_mtd, bmtd = ex_store\<rparr>"

text \<open>The next attachment on the chip as \<open>w'\<close> left it.\<close>

definition ex_next :: "ram_chip bmt_world \<Rightarrow> ram_chip bmt_world" where
  "ex_next w' = w'\<lparr>bmtd := bmtd_zero\<lparr>attached := True, ops_sig := v2_sig, pg_size := 4, pg_shift := 2, blk_size := 64, blk_shift := 6, total_blks := 5\<rparr>\<rparr>"

definition ex_layout_b :: bmt_desc where
  "ex_layout_b = bmtd_zero\<lparr>attached := True, ops_sig := v2_sig, pg_size := 4, pg_shift := 2, blk_size := 64, blk_shift := 6, total_blks := 5, oob_offset := 0,
     table_size := 6, pool_lba := 2, bb_max := 0, bmt_pgs := 7, bbt_buf := replicate 28 0xff\<rparr>"

lemma ex_layout: "v2_layout (Some 3) None (Some 6) (bmtd (ex_next w')) = ex_layout_b"
  by (simp add: ex_layout_b_def v2_layout_def ex_next_def Let_def v2_bufsz_def round_up_def sub32_def u32_def u16_def)

definition ex_stored :: "nat \<Rightarrow> bbbt \<Rightarrow> ram_chip" where
  "ex_stored block t = (\<lambda>_. None)(block * 64 \<mapsto> (take 28 (bbbt_bytes t), v2_sig))"

definition ex_signed :: "bbbt \<Rightarrow> bbbt" where
  "ex_signed t = t\<lparr>bb_signature := str_BMT, bb_version := BBMT_VERSION\<rparr>"




lemma ex_upload_worn:
  "upload_current (ram_nand [256]) ex_store_w = ex_store_w\<lparr>dev := ex_stored 3 (ex_signed (set_bmt_entry 2 \<lparr>bm_block = 0, bm_mapped = BMT_MAPPED\<rparr> (bbt ex_store))),
     bmtd := ex_store\<lparr>bbt := ex_signed (set_bmt_entry 2 \<lparr>bm_block = 0, bm_mapped = BMT_MAPPED\<rparr> (bbt ex_store)), bmt_blk_idx := 1\<rparr>\<rparr>"
  by (simp add: upload_current_def upload_bmt_def ex_store_w_def ex_store_def bmt_entry_def upload_bmt_from_3 ram_erase ram_write
    set_bbt_def set_bmt_entry_def ex_stored_def ex_signed_def u32_def u16_def Let_def)

lemma find_valid_block_ram:
  "find_valid_block (ram_nand worn) block w = (if block < total_blks (bmtd w)
     then (block, w\<lparr>bmtd := (bmtd w)\<lparr>data_buf := fill_front (ram_page (dev w) (u32 (blk_pg (bmtd w) block * 2 ^ pg_shift (bmtd w))) (pg_size (bmtd w))) (data_buf (bmtd w))\<rparr>\<rparr>)
     else (0, w))"
  by (simp add: find_valid_block_def find_valid_block_loop.simps [of _ "bb_max (bmtd w)"] bbt_nand_read_def ram_nand_def oob_request_def Let_def split: option.splits)

lemma length_u16s: "length (u16s_of_bytes xs) = length xs div 2"
  by (induction xs rule: u16s_of_bytes.induct) simp_all

lemma ex_rebuild:
  assumes "dev u = ex_stored 3 t" and "bmtd u = bmtd_zero\<lparr>attached := True, ops_sig := v2_sig, pg_size := 4, pg_shift := 2, blk_size := 64, blk_shift := 6,
    total_blks := 5, oob_offset := 0, table_size := 6, pool_lba := 2, bb_max := 0, bmt_pgs := 7, bbt_buf := X, bmt_blk_idx := i, bbt := t'\<rparr>" and "length X = 28"
  shows "fst (v2_rebuild (ram_nand [256]) u) = 0"
proof -
  have "length (bb_tbl (bbbt_of_bytes 6 X)) = 6" using assms(3) by (simp add: bbbt_of_bytes_def length_u16s)
  then show ?thesis using assms
    by (simp add: v2_rebuild_def Let_def scan_bad_blocks_def set_bbt_def set_bb_tbl_def set_bmt_entry_def scan_pool.simps find_valid_block_ram
      u16_def u16_of_int_def upload_current_def upload_bmt_def bmt_entry_def upload_bmt_from_3 ram_erase ram_write bmtd_zero_def)
      (simp add: nth_list_update)
qed

theorem v2_fallback_table_lost_witness:
  "\<exists>w' v' u. upload_current (ram_nand [256]) ex_store_w = w' \<and> bmt_blk_idx (bmtd w') = 1 \<and>
    mtk_bmt_init_v2 (ram_nand [256]) (Some 3) None (Some 6) True (ex_next w') = (0, v') \<and>
    fst (scan_bad_blocks (ram_nand [256]) u) = 0 \<and> bb_tbl (bbt (bmtd v')) = bb_tbl (bbt (bmtd (snd (scan_bad_blocks (ram_nand [256]) u))))"
proof -
  define w' t where "w' = upload_current (ram_nand [256]) ex_store_w" and "t = ex_signed (set_bmt_entry 2 \<lparr>bm_block = 0, bm_mapped = BMT_MAPPED\<rparr> (bbt ex_store))"
  note w = w'_def [unfolded ex_upload_worn, folded t_def]
  have b: "bmtd w' = ex_store\<lparr>bbt := t, bmt_blk_idx := 1\<rparr>" "dev w' = ex_stored 3 t" by (simp_all add: w)
  have i: "bmt_blk_idx (bmtd w') = 1" "bmt_blk_idx (bmtd ex_store_w) = 2" "total_blks (bmtd w') = 5" "pool_lba (bmtd w') = 2"
    by (simp_all add: b ex_store_def ex_store_w_def)
  have e: "bm_block (bmt_entry (bbt (bmtd w')) 1) = 3" unfolding b(1) by (simp add: t_def ex_store_def ex_signed_def bmt_entry_def set_bmt_entry_def)
  have o: "\<forall>i<2. bm_mapped (bmt_entry (bbt (bmtd ex_store_w)) i) \<noteq> BMT_MAPPED"
    by (auto simp: ex_store_w_def ex_store_def bmt_entry_def less_2_cases_iff)
  have sl: "same_layout (bmtd w') (v2_layout (Some 3) None (Some 6) (bmtd (ex_next w')))"
    unfolding ex_layout b(1) by (simp add: same_layout_def ex_store_def ex_layout_b_def bmtd_zero_def)
  have tf: "tables_fit 28 3 (bmtd w')"
    unfolding b(1) by (simp add: tables_fit_def ex_store_def t_def ex_signed_def set_bmt_entry_def bmtd_zero_def)
  have bs: "v2_bufsz 6 4 = 28" by (simp add: v2_bufsz_def round_up_def u32_def)
  have ua: "unsigned_above (ram_nand [256]) 28 3 ((ex_next w')\<lparr>bmtd := v2_layout (Some 3) None (Some 6) (bmtd (ex_next w'))\<rparr>)"
    unfolding unsigned_above_def ex_layout
  proof (intro allI impI)
    fix c assume "3 < c \<and> c < total_blks (bmtd ((ex_next w')\<lparr>bmtd := ex_layout_b\<rparr>))"
    then have "c = 4" by (simp add: ex_layout_b_def)
    moreover have "replicate 3 255 \<noteq> v2_sig" by (simp add: v2_sig_def numeral_3_eq_3)
    ultimately show "case bbt_nand_read (ram_nand [256]) (blk_pg (bmtd ((ex_next w')\<lparr>bmtd := ex_layout_b\<rparr>)) c) 28 4 ((ex_next w')\<lparr>bmtd := ex_layout_b\<rparr>) of
        (ret, _, fdm, _) \<Rightarrow> ret \<noteq> 0 \<or> take 3 (drop 1 fdm) \<noteq> v2_sig"
      by (simp add: bbt_nand_read_def ram_nand_def oob_request_def Let_def ex_next_def b(2) ex_stored_def blk_pg_def u32_def ex_layout_b_def)
  qed
  have a: "attaches_after (ram_nand [256]) (Some 3) None (Some 6) w' 3 (ex_next w')"
    using sl tf bs ua e i by (simp add: attaches_after_def Let_def ex_layout ex_layout_b_def) (simp add: ex_next_def)
  note r = mtk_bmt_init_v2_stored [OF ram_nand_reads_back w'_def [symmetric] _ _ a]
  have z: "get_bmt_index ((bbt (bmtd w'))\<lparr>bmt_tbl := take 3 (bmt_tbl (bbt (bmtd w')))\<rparr>) = 0"
    unfolding b(1) by (simp add: get_bmt_index_def t_def ex_store_def ex_signed_def set_bmt_entry_def)
  have len: "length (bbbt_bytes ((bbt (bmtd w'))\<lparr>bmt_tbl := take 3 (bmt_tbl (bbt (bmtd w')))\<rparr>)) = 28"
    unfolding b(1) by (subst length_bbbt_bytes) (simp_all add: t_def ex_store_def ex_signed_def set_bmt_entry_def str_BMT_def)
  let ?u = "\<lambda>x. (ex_next w')\<lparr>mtd := x, bmtd := ex_layout_b\<lparr>bbt_buf := bbbt_bytes ((bbt (bmtd w'))\<lparr>bmt_tbl := take 3 (bmt_tbl (bbt (bmtd w')))\<rparr>),
    bmt_blk_idx := 0, bbt := bbt (bmtd (ex_next w'))\<rparr>\<rparr>"
  obtain x where u: "mtk_bmt_init_v2 (ram_nand [256]) (Some 3) None (Some 6) True (ex_next w') = v2_rebuild (ram_nand [256]) (?u x)"
    using r i(1,2) by (auto simp: Let_def ex_layout z)
  moreover have "fst (v2_rebuild (ram_nand [256]) (?u x)) = 0"
    by (rule ex_rebuild [OF _ _ len, where t = t and i = 0 and t' = "bbt (bmtd (ex_next w'))"]) (simp_all add: ex_next_def b(2) ex_layout_b_def)
  ultimately obtain v' where v: "mtk_bmt_init_v2 (ram_nand [256]) (Some 3) None (Some 6) True (ex_next w') = (0, v')" by (metis prod.collapse)
  show ?thesis using v2_fallback_table_lost [OF ram_nand_reads_back w'_def [symmetric] _ _ _ a v] v i o w'_def by auto
qed

end
