(* ===== verification/En75_Bmt.thy ===== *)
theory En75_Bmt
  imports Bmt_Contract
begin

text \<open>
  The EcoNet back end (\<^verbatim>\<open>target/linux/econet/files/drivers/mtd/nand/en75_bmt.c\<close>): a table of factory
  bad blocks (BBT) that shifts all blocks behind a bad one, a table of worn blocks (BMT) that replaces
  a block by one of the reserve area, and the blocks of that area with their states. This theory holds the
  functions on the tables, their update on the flash, remapping and unmapping.

  The context is the field \<open>en75\<close> of the descriptor. A pointer to a block of the reserve area is its
  position in \<open>rblocks\<close>. The byte order of the machine is the argument \<open>be\<close>. What the code writes behind
  the end of a table has no effect in the model.
\<close>

section \<open>The context\<close>

abbreviation (input) BLOCK_WORN_MARK :: byte where "BLOCK_WORN_MARK \<equiv> 0x55"

definition ctx :: "'d bmt_world \<Rightarrow> en75_bmt_m" where
  "ctx w = en75 (bmtd w)"

definition upd_ctx :: "(en75_bmt_m \<Rightarrow> en75_bmt_m) \<Rightarrow> 'd bmt_world \<Rightarrow> 'd bmt_world" where
  "upd_ctx f w = w\<lparr>bmtd := (bmtd w)\<lparr>en75 := f (en75 (bmtd w))\<rparr>\<rparr>"

definition no_block :: block_info where
  "no_block = \<lparr>bi_index = 0, bi_status = BS_INVALID\<rparr>"

definition rblock :: "en75_bmt_m \<Rightarrow> nat \<Rightarrow> block_info" where
  "rblock c i = arr_get no_block (rblocks c) i"

definition set_status :: "nat \<Rightarrow> block_status \<Rightarrow> 'd bmt_world \<Rightarrow> 'd bmt_world" where
  "set_status i st = upd_ctx (\<lambda>c. c\<lparr>rblocks := (rblocks c)[i := (rblock c i)\<lparr>bi_status := st\<rparr>]\<rparr>)"

text \<open>The members \<^verbatim>\<open>bbt_dirty\<close> and \<^verbatim>\<open>bmt_dirty\<close> are of type \<^verbatim>\<open>s8\<close>.\<close>

definition s8 :: "int \<Rightarrow> int" where
  "s8 i = (i + 128) mod 256 - 128"

section \<open>Functions on the tables\<close>

text \<open>The sum of the bytes of some \<^verbatim>\<open>u16\<close> numbers, in whatever order the two bytes are stored.\<close>

definition byte_sum :: "nat list \<Rightarrow> nat" where
  "byte_sum xs = sum_list (map (\<lambda>x. x mod 256 + x div 256) xs)"

definition entry_words :: "en_entry list \<Rightarrow> nat list" where
  "entry_words es = concat (map (\<lambda>e. [en_from e, en_to e]) es)"

definition bbt_checksum :: "en_bbt_table \<Rightarrow> nat" where
  "bbt_checksum t = u16 (bbth_version t + bbth_size t + byte_sum (bbt_entries t))"

definition bmt_checksum :: "en_bmt_table \<Rightarrow> nat \<Rightarrow> nat" where
  "bmt_checksum t check_entries =
     (bmth_version t + bmth_size t + byte_sum (entry_words (take (min check_entries 256) (bmt_entries t)))) mod 256"

definition reserve_block_count :: "bmt_desc \<Rightarrow> nat" where
  "reserve_block_count b = total_blks b - reserve_area_begin (en75 b)"

definition find_available_block :: "bmt_desc \<Rightarrow> bool \<Rightarrow> nat option" where
  "find_available_block b start_from_end =
     (let is = [0..<reserve_block_count b]
      in List.find (\<lambda>i. bi_status (rblock (en75 b) i) = BS_AVAILABLE) (if start_from_end then is else rev is))"

definition sort_bbt :: "en_bbt_table \<Rightarrow> en_bbt_table" where
  "sort_bbt t = t\<lparr>bbt_entries := sort (take (bbth_size t) (bbt_entries t)) @ drop (bbth_size t) (bbt_entries t)\<rparr>"

fun bbt_shift :: "nat list \<Rightarrow> int \<Rightarrow> int" where
  "bbt_shift [] block = block"
| "bbt_shift (x # xs) block = bbt_shift xs (if int x \<le> block then block + 1 else block)"

definition get_mapping_block_bbt :: "en75_bmt_m \<Rightarrow> int \<Rightarrow> int" where
  "get_mapping_block_bbt c block =
     (let block' = bbt_shift (take (bbth_size (en_bbt c)) (bbt_entries (en_bbt c))) block
      in if block' \<ge> int (reserve_area_begin c) \<or> block' < 0 then - EINVAL else block')"

text \<open>The search through the BMT begins at its last entry.\<close>

definition bmt_lookup :: "en75_bmt_m \<Rightarrow> int \<Rightarrow> nat option" where
  "bmt_lookup c block =
     map_option en_to (List.find (\<lambda>e. int (en_from e) = block) (rev (take (bmth_size (en_bmt c)) (bmt_entries (en_bmt c)))))"

definition get_mapping_block :: "en75_bmt_m \<Rightarrow> int \<Rightarrow> int" where
  "get_mapping_block c block =
     (let block' = get_mapping_block_bbt c block
      in if block' < 0 then block'
         else case bmt_lookup c block' of None \<Rightarrow> block' | Some t \<Rightarrow> int t)"

definition block_index_is_sane :: "bmt_desc \<Rightarrow> nat \<Rightarrow> bool \<Rightarrow> bool" where
  "block_index_is_sane b bi user_block \<longleftrightarrow>
     bi < total_blks b \<and> (if user_block then bi < reserve_area_begin (en75 b) else reserve_area_begin (en75 b) \<le> bi)"

section \<open>Writing and erasing\<close>

fun write_tries :: "nat \<Rightarrow> 'd nand_drv \<Rightarrow> nat \<Rightarrow> mtd_oob_ops \<Rightarrow> int \<Rightarrow> 'd bmt_world \<Rightarrow> int \<times> 'd bmt_world" where
  "write_tries 0 D addr ops ret w = (ret, w)"
| "write_tries (Suc n) D addr ops ret w =
     (let (ret', _, d) = drv_write_oob D addr ops (dev w);
          w1 = w\<lparr>dev := d\<rparr>
      in if ret' = 0 then (0, w1) else write_tries n D addr ops ret' w1)"

definition w_write :: "'d nand_drv \<Rightarrow> nat \<Rightarrow> bool \<Rightarrow> nat \<Rightarrow> byte list \<Rightarrow> bool \<Rightarrow> 'd bmt_world \<Rightarrow> int \<times> 'd bmt_world" where
  "w_write D bi user_area len buf oob w =
     (if \<not> block_index_is_sane (bmtd w) bi user_area then (- EINVAL, w)
      else write_tries 3 D (bi * 2 ^ blk_shift (bmtd w))
             (oob_request (if oob then 0 else len) (if oob then len else 0) 0 (if oob then [] else buf) (if oob then buf else [])) 0 w)"

definition w_mark_bad :: "'d nand_drv \<Rightarrow> nat \<Rightarrow> bool \<Rightarrow> 'd bmt_world \<Rightarrow> int \<times> 'd bmt_world" where
  "w_mark_bad D bi user_area w = w_write D bi user_area 4 [BLOCK_WORN_MARK, 0xff, 0xff, 0xff] True w"

fun erase_tries :: "nat \<Rightarrow> 'd nand_drv \<Rightarrow> nat \<Rightarrow> int \<Rightarrow> 'd bmt_world \<Rightarrow> int \<times> 'd bmt_world" where
  "erase_tries 0 D bi ret w = (ret, w)"
| "erase_tries (Suc n) D bi ret w =
     (let (ret', w1) = bbt_nand_erase D bi w in if ret' = 0 then (0, w1) else erase_tries n D bi ret' w1)"

definition w_erase_one :: "'d nand_drv \<Rightarrow> nat \<Rightarrow> bool \<Rightarrow> 'd bmt_world \<Rightarrow> int \<times> 'd bmt_world" where
  "w_erase_one D bi user_area w =
     (if \<not> block_index_is_sane (bmtd w) bi user_area then (- EINVAL, w) else erase_tries 3 D bi 0 w)"

definition erase_pending_one :: "'d nand_drv \<Rightarrow> nat \<Rightarrow> 'd bmt_world \<Rightarrow> 'd bmt_world" where
  "erase_pending_one D i w =
     (let bif = rblock (ctx w) i
      in if bi_status bif \<noteq> BS_NEED_ERASE then w
         else
           let (ret, w1) = w_erase_one D (bi_index bif) False w
           in if ret = 0 then set_status i BS_AVAILABLE w1
              else set_status i BS_BAD (if ret = - EINVAL then w1 else snd (w_mark_bad D (bi_index bif) False w1)))"

definition w_erase_pending :: "'d nand_drv \<Rightarrow> 'd bmt_world \<Rightarrow> 'd bmt_world" where
  "w_erase_pending D w = fold (erase_pending_one D) [0..<reserve_block_count (bmtd w)] w"

definition mark_for_erasure :: "block_status \<Rightarrow> 'd bmt_world \<Rightarrow> 'd bmt_world" where
  "mark_for_erasure with_status w =
     fold (\<lambda>i w. if bi_status (rblock (ctx w) i) = with_status then set_status i BS_NEED_ERASE w else w)
       [0..<reserve_block_count (bmtd w)] w"

section \<open>Updating the tables\<close>

text \<open>The layout of the tables on the flash, with numbers in the byte order of the machine.\<close>

definition host16 :: "bool \<Rightarrow> nat \<Rightarrow> byte list" where
  "host16 be n = (if be then rev (le16 n) else le16 n)"

definition host32 :: "bool \<Rightarrow> nat \<Rightarrow> byte list" where
  "host32 be n = (if be then rev (le32 n) else le32 n)"

definition bmt_table_bytes :: "bool \<Rightarrow> en_bmt_table \<Rightarrow> byte list" where
  "bmt_table_bytes be t =
     bmth_signature t @ [of_nat (bmth_version t), of_nat (bmth_bad_count t), of_nat (bmth_size t), of_nat (bmth_checksum t)] @
     bmth_reserved t @ concat (map (host16 be) (entry_words (bmt_entries t)))"

definition bbt_table_bytes :: "bool \<Rightarrow> en_bbt_table \<Rightarrow> byte list" where
  "bbt_table_bytes be t =
     bbth_signature t @ host32 be (bbth_checksum t) @ [of_nat (bbth_version t), of_nat (bbth_size t)] @ bbth_reserved t @
     concat (map (host16 be) (bbt_entries t))"

fun w_update_table ::
    "nat \<Rightarrow> 'd nand_drv \<Rightarrow> bool \<Rightarrow> nat \<Rightarrow> byte list \<Rightarrow> 'd bmt_world \<Rightarrow> (int + nat) \<times> 'd bmt_world" where
  "w_update_table 0 D start_from_end len buf w = (Inl (- EIO), w)"
| "w_update_table (Suc n) D start_from_end len buf w =
     (case find_available_block (bmtd w) start_from_end of
        None \<Rightarrow> (Inl (- ENOSPC), w)
      | Some i \<Rightarrow>
          let (ret, w1) = w_write D (bi_index (rblock (ctx w) i)) False len buf False w
          in if ret \<noteq> 0 then w_update_table n D start_from_end len buf (set_status i BS_NEED_ERASE w1)
             else (Inr i, w1))"

text \<open>Entries from \<open>i\<close> up to but not including \<open>n\<close> are cleared.\<close>

definition clear_entries :: "nat \<Rightarrow> nat \<Rightarrow> en_entry list \<Rightarrow> en_entry list" where
  "clear_entries i n es = map (\<lambda>j. if i \<le> j \<and> j < n then \<lparr>en_from = 0, en_to = 0\<rparr> else es ! j) [0..<length es]"

definition seal_bmt :: "bmt_desc \<Rightarrow> en_bmt_table \<Rightarrow> en_bmt_table" where
  "seal_bmt b t =
     (let t1 = t\<lparr>bmt_entries := clear_entries (bmth_size t) (reserve_block_count b) (bmt_entries t)\<rparr>
      in t1\<lparr>bmth_checksum := bmt_checksum t1 (bmth_size t1)\<rparr>)"

definition seal_bbt :: "en_bbt_table \<Rightarrow> en_bbt_table" where
  "seal_bbt t =
     (let t1 = t\<lparr>bbt_entries := map (\<lambda>j. if bbth_size t \<le> j \<and> j < 1000 then 0 else bbt_entries t ! j) [0..<length (bbt_entries t)]\<rparr>
      in t1\<lparr>bbth_checksum := bbt_checksum t1\<rparr>)"

definition sync_bmt :: "'d nand_drv \<Rightarrow> bool \<Rightarrow> 'd bmt_world \<Rightarrow> int \<times> 'd bmt_world" where
  "sync_bmt D be w =
     (let dirty = bmt_dirty (ctx w)
      in if dirty = 0 then (0, w)
         else
           let w1 = upd_ctx (\<lambda>c. c\<lparr>en_bmt := seal_bmt (bmtd w) (en_bmt c)\<rparr>) w
           in case w_update_table 3 D True 1044 (bmt_table_bytes be (en_bmt (ctx w1))) w1 of
                (Inl e, w2) \<Rightarrow> (e, w2)
              | (Inr i, w2) \<Rightarrow>
                  (0, upd_ctx (\<lambda>c. c\<lparr>bmt_dirty := s8 (bmt_dirty c - dirty)\<rparr>) (set_status i BS_BMT (mark_for_erasure BS_BMT w2))))"

definition sync_bbt :: "'d nand_drv \<Rightarrow> bool \<Rightarrow> 'd bmt_world \<Rightarrow> int \<times> 'd bmt_world" where
  "sync_bbt D be w =
     (let dirty = bbt_dirty (ctx w)
      in if dirty = 0 \<or> \<not> can_write_factory_bbt (ctx w) then (0, w)
         else
           let w1 = upd_ctx (\<lambda>c. c\<lparr>en_bbt := seal_bbt (en_bbt c)\<rparr>) w
           in case w_update_table 3 D False 2012 (bbt_table_bytes be (en_bbt (ctx w1))) w1 of
                (Inl e, w2) \<Rightarrow> (e, w2)
              | (Inr i, w2) \<Rightarrow>
                  (0, upd_ctx (\<lambda>c. c\<lparr>bbt_dirty := s8 (bbt_dirty c - dirty)\<rparr>) (set_status i BS_BBT (mark_for_erasure BS_BBT w2))))"

definition w_sync_tables :: "'d nand_drv \<Rightarrow> bool \<Rightarrow> 'd bmt_world \<Rightarrow> int \<times> 'd bmt_world" where
  "w_sync_tables D be w =
     (let (ret, w1) = sync_bmt D be (w_erase_pending D w)
      in if ret \<noteq> 0 then (ret, w1)
         else let (ret2, w2) = sync_bbt D be w1
              in if ret2 \<noteq> 0 then (ret2, w2) else (0, w_erase_pending D w2))"

section \<open>Remapping\<close>

definition w_make_mapping :: "'d nand_drv \<Rightarrow> bool \<Rightarrow> block_info \<Rightarrow> nat \<Rightarrow> 'd bmt_world \<Rightarrow> int \<times> 'd bmt_world" where
  "w_make_mapping D be replacement_block bad_block_index w =
     (if reserve_area_begin (ctx w) \<le> bad_block_index then (- EINVAL, w)
      else if bi_status replacement_block \<noteq> BS_AVAILABLE then (- EINVAL, w)
      else w_write D (bi_index replacement_block) False 4 ([0xff, 0xff] @ host16 be bad_block_index) True w)"

fun copy_tries :: "nat \<Rightarrow> 'd nand_drv \<Rightarrow> nat \<Rightarrow> nat \<Rightarrow> int \<Rightarrow> 'd bmt_world \<Rightarrow> 'd bmt_world" where
  "copy_tries 0 D dest src copy_len w = w"
| "copy_tries (Suc n) D dest src copy_len w =
     (let (ret, w1) = bbt_nand_copy D dest src copy_len w in if ret = 0 then w1 else copy_tries n D dest src copy_len w1)"

text \<open>The BMT with \<open>block\<close> replaced by \<open>to\<close>: the first entry for the block is changed, or one is added.\<close>

fun replace_entry :: "nat \<Rightarrow> nat \<Rightarrow> en_entry list \<Rightarrow> en_entry list option" where
  "replace_entry block to [] = None"
| "replace_entry block to (e # es) =
     (if en_from e = block then Some (e\<lparr>en_to := to\<rparr> # es) else map_option (Cons e) (replace_entry block to es))"

definition bmt_map :: "nat \<Rightarrow> nat \<Rightarrow> en_bmt_table \<Rightarrow> en_bmt_table" where
  "bmt_map block to t =
     (let used = take (bmth_size t) (bmt_entries t); rest = drop (bmth_size t) (bmt_entries t)
      in case replace_entry block to used of
           Some es \<Rightarrow> t\<lparr>bmt_entries := es @ rest\<rparr>
         | None \<Rightarrow> t\<lparr>bmt_entries := (bmt_entries t)[bmth_size t := \<lparr>en_from = block, en_to = to\<rparr>], bmth_size := (bmth_size t + 1) mod 256\<rparr>)"

definition w_remap_block :: "'d nand_drv \<Rightarrow> bool \<Rightarrow> nat \<Rightarrow> nat option \<Rightarrow> int \<Rightarrow> 'd bmt_world \<Rightarrow> int \<times> 'd bmt_world" where
  "w_remap_block D be block maybe_mapped copy_len w =
     (if bmth_size (en_bmt (ctx w)) = 255 then (- ENOSPC, w)
      else
        case find_available_block (bmtd w) False of
          None \<Rightarrow> (- ENOSPC, w)
        | Some i \<Rightarrow>
            let new_block = rblock (ctx w) i;
                (ret, w1) = w_make_mapping D be new_block block w
            in if ret \<noteq> 0 then (ret, set_status i BS_NEED_ERASE w1)
               else
                 let copy_from = (case maybe_mapped of None \<Rightarrow> block | Some j \<Rightarrow> bi_index (rblock (ctx w1) j));
                     w2 = (if copy_len \<noteq> 0 then copy_tries 10 D (bi_index new_block) copy_from copy_len w1 else w1);
                     w3 = upd_ctx (\<lambda>c. c\<lparr>en_bmt := bmt_map block (bi_index new_block) (en_bmt c), bmt_dirty := s8 (bmt_dirty c + 1)\<rparr>) w2;
                     w4 = set_status i BS_MAPPED w3;
                     (_, w5) = w_mark_bad D block True w4
                 in (0, case maybe_mapped of None \<Rightarrow> w5 | Some j \<Rightarrow> set_status j BS_NEED_ERASE w5))"

datatype unmap_erase = UE_NO_ERASE | UE_ATTEMPT_ERASE | UE_REQUIRE_ERASE

text \<open>The first position with a property.\<close>

fun first_index :: "('a \<Rightarrow> bool) \<Rightarrow> 'a list \<Rightarrow> nat option" where
  "first_index P [] = None"
| "first_index P (x # xs) = (if P x then Some 0 else map_option Suc (first_index P xs))"

text \<open>Entry \<open>k\<close> is replaced by the last one, whose place is cleared.\<close>

definition bmt_unmap :: "nat \<Rightarrow> en_bmt_table \<Rightarrow> en_bmt_table" where
  "bmt_unmap k t =
     (let n = bmth_size t - 1;
          es = (bmt_entries t)[k := arr_get \<lparr>en_from = 0, en_to = 0\<rparr> (bmt_entries t) n]
      in t\<lparr>bmt_entries := es[n := \<lparr>en_from = 0, en_to = 0\<rparr>], bmth_size := n\<rparr>)"

definition w_unmap_block :: "'d nand_drv \<Rightarrow> nat \<Rightarrow> unmap_erase \<Rightarrow> 'd bmt_world \<Rightarrow> int \<times> 'd bmt_world" where
  "w_unmap_block D block erase w =
     (let t = en_bmt (ctx w)
      in case first_index (\<lambda>e. en_from e = block) (take (bmth_size t) (bmt_entries t)) of
           None \<Rightarrow> (- EINVAL, w)
         | Some k \<Rightarrow>
             (case first_index (\<lambda>bif. bi_index bif = en_to (bmt_entries t ! k)) (take (reserve_block_count (bmtd w)) (rblocks (ctx w))) of
                None \<Rightarrow> (- EINVAL, w)
              | Some j \<Rightarrow>
                  let (ret, w1) = (if erase = UE_NO_ERASE then (0, w) else w_erase_one D (bi_index (rblock (ctx w) j)) False w)
                  in if ret \<noteq> 0 \<and> erase = UE_REQUIRE_ERASE then (ret, w1)
                     else (0, set_status j BS_NEED_ERASE
                             (upd_ctx (\<lambda>c. c\<lparr>en_bmt := bmt_unmap k (en_bmt c), bmt_dirty := s8 (bmt_dirty c + 1)\<rparr>) w1))))"

section \<open>The operations of the back end\<close>

definition in_ranges :: "en75_bmt_m \<Rightarrow> nat \<Rightarrow> bool" where
  "in_ranges c user_block = list_ex (\<lambda>(lo, hi). lo \<le> user_block \<and> user_block < hi) (can_remap_ranges c)"

text \<open>
  The mapped block is a \<^verbatim>\<open>u16\<close> here, so that an error of the mapping is not seen as one.
\<close>

definition pub_remap_block :: "'d nand_drv \<Rightarrow> bool \<Rightarrow> nat \<Rightarrow> nat \<Rightarrow> int \<Rightarrow> 'd bmt_world \<Rightarrow> bool \<times> 'd bmt_world" where
  "pub_remap_block D be user_block mapped_block_idx copy_len w =
     (if \<not> in_ranges (ctx w) user_block then (False, w)
      else
        let block = u16_of_int (get_mapping_block_bbt (ctx w) (int user_block))
        in if user_block \<ge> reserve_area_begin (ctx w) then (False, w)
           else
             let mapped = (if mapped_block_idx \<noteq> block
                           then first_index (\<lambda>bif. bi_index bif = mapped_block_idx) (take (reserve_block_count (bmtd w)) (rblocks (ctx w)))
                           else None)
             in if mapped_block_idx \<noteq> block \<and> mapped = None then (False, w)
                else
                  let (ret, w1) = w_remap_block D be block mapped copy_len w;
                      (_, w2) = w_sync_tables D be w1
                  in (ret \<noteq> - ENOSPC, w2))"

definition pub_unmap_block :: "'d nand_drv \<Rightarrow> bool \<Rightarrow> nat \<Rightarrow> 'd bmt_world \<Rightarrow> 'd bmt_world" where
  "pub_unmap_block D be user_block w =
     (let block = get_mapping_block_bbt (ctx w) (int user_block)
      in if block < 0 \<or> user_block \<ge> reserve_area_begin (ctx w) then w
         else snd (w_sync_tables D be (snd (w_unmap_block D (nat block) UE_REQUIRE_ERASE w))))"

definition pub_debug :: "nat \<Rightarrow> 'd bmt_world \<Rightarrow> int \<times> 'd bmt_world" where
  "pub_debug val w = (0, w)"

definition pub_get_mapping_block :: "bmt_desc \<Rightarrow> nat \<Rightarrow> int" where
  "pub_get_mapping_block b user_block = get_mapping_block (en75 b) (int user_block)"

definition en75_bmt_ops :: "'d nand_drv \<Rightarrow> bool \<Rightarrow> 'd mtk_bmt_ops" where
  "en75_bmt_ops D be =
     \<lparr>op_sig = [], op_remap_block = pub_remap_block D be, op_unmap_block = pub_unmap_block D be,
      op_get_mapping_block = pub_get_mapping_block\<rparr>"

end
