(* ===== verification/En75_Remap.thy ===== *)
theory En75_Remap
  imports En75_Bmt
begin

text \<open>
  The EcoNet back end keeps its invariant: the blocks of the reserve area stay the tail of the chip, and the entries of
  the BMT lead from the user area into it. Hence it implements the contract of the layer, no two user blocks
  share a block of the chip, and the factory bad block table numbers the good blocks.
\<close>

section \<open>Frames\<close>

lemma ctx_upd [simp]: "ctx (upd_ctx f w) = f (ctx w)"
  by (simp add: ctx_def upd_ctx_def)

lemma w_write_frame [frame]: "w_write D bi u n buf oob w = (r, w') \<Longrightarrow> mtd w' = mtd w \<and> bmtd w' = bmtd w"
proof -
  have "mtd w' = mtd w \<and> bmtd w' = bmtd w" if "write_tries n D a ops r0 w = (r, w')" for n a ops r0 and w :: "'a bmt_world" and r w'
    using that by (induction n D a ops r0 w rule: write_tries.induct) (auto simp: Let_def split: prod.splits if_splits)
  then show "w_write D bi u n buf oob w = (r, w') \<Longrightarrow> ?thesis" by (auto simp: w_write_def split: if_splits)
qed

lemma w_mark_bad_frame [frame]: "w_mark_bad D bi u w = (r, w') \<Longrightarrow> mtd w' = mtd w \<and> bmtd w' = bmtd w"
  by (simp add: w_mark_bad_def w_write_frame)

lemma w_erase_one_frame [frame]: "w_erase_one D bi u w = (r, w') \<Longrightarrow> mtd w' = mtd w \<and> bmtd w' = bmtd w"
proof -
  have "mtd w' = mtd w \<and> bmtd w' = bmtd w" if "erase_tries n D bi r0 w = (r, w')" for n r0 and w :: "'a bmt_world" and r w'
    using that by (induction n D bi r0 w rule: erase_tries.induct) (auto simp: Let_def split: prod.splits if_splits dest!: bbt_nand_erase_frame)
  then show "w_erase_one D bi u w = (r, w') \<Longrightarrow> ?thesis" by (auto simp: w_erase_one_def split: if_splits)
qed

text \<open>The used part of the tables.\<close>

definition bmt_used :: "en75_bmt_m \<Rightarrow> en_entry list" where
  "bmt_used c = take (bmth_size (en_bmt c)) (bmt_entries (en_bmt c))"

definition bbt_used :: "en75_bmt_m \<Rightarrow> nat list" where
  "bbt_used c = take (bbth_size (en_bbt c)) (bbt_entries (en_bbt c))"

text \<open>
  What updating the tables on the flash may change: the blocks of the reserve area that are not in use for a mapping. The tables
  themselves, the mapped blocks and the geometry stay.
\<close>

definition is_mapped :: "en75_bmt_m \<Rightarrow> nat \<Rightarrow> bool" where
  "is_mapped c i \<longleftrightarrow> bi_status (rblock c i) = BS_MAPPED"

definition ctx_kept :: "en75_bmt_m \<Rightarrow> en75_bmt_m \<Rightarrow> bool" where
  "ctx_kept c c' \<longleftrightarrow> bmt_used c' = bmt_used c \<and> bmth_size (en_bmt c') = bmth_size (en_bmt c) \<and>
     length (bmt_entries (en_bmt c')) = length (bmt_entries (en_bmt c)) \<and> bbt_used c' = bbt_used c \<and>
     reserve_area_begin c' = reserve_area_begin c \<and> can_remap_ranges c' = can_remap_ranges c \<and>
     map bi_index (rblocks c') = map bi_index (rblocks c) \<and> is_mapped c' = is_mapped c"

definition en_frame :: "'d bmt_world \<Rightarrow> 'd bmt_world \<Rightarrow> bool" where
  "en_frame w w' \<longleftrightarrow> mtd w' = mtd w \<and> (\<exists>x c. bmtd w' = (bmtd w)\<lparr>data_buf := x, en75 := c\<rparr>)"

definition en_step :: "'d bmt_world \<Rightarrow> 'd bmt_world \<Rightarrow> bool" where
  "en_step w w' \<longleftrightarrow> en_frame w w' \<and> ctx_kept (ctx w) (ctx w')"

lemma en_frame_refl [simp]: "en_frame w w"
  by (auto simp: en_frame_def intro!: exI [of _ "data_buf (bmtd w)"] exI [of _ "en75 (bmtd w)"])

lemma en_frame_trans: "en_frame w w1 \<Longrightarrow> en_frame w1 w2 \<Longrightarrow> en_frame w w2"
  by (auto simp: en_frame_def) blast

lemma en_frame_geom: "en_frame w w' \<Longrightarrow> geom w' = geom w"
  by (auto simp: en_frame_def geom_def)

lemma en_frame_upd [simp]: "en_frame w (upd_ctx f w)"
  by (auto simp: en_frame_def upd_ctx_def intro!: exI [of _ "data_buf (bmtd w)"])

lemma en_frame_same: "mtd w' = mtd w \<and> bmtd w' = bmtd w \<Longrightarrow> en_frame w w' \<and> ctx w' = ctx w"
  by (auto simp: en_frame_def ctx_def intro!: exI [of _ "data_buf (bmtd w)"] exI [of _ "en75 (bmtd w)"])

lemma en_frame_total: "en_frame w w' \<Longrightarrow> total_blks (bmtd w') = total_blks (bmtd w)"
  by (auto simp: en_frame_def)

lemma ctx_kept_refl [simp]: "ctx_kept c c"
  and ctx_kept_trans: "ctx_kept c c1 \<Longrightarrow> ctx_kept c1 c2 \<Longrightarrow> ctx_kept c c2"
  by (auto simp: ctx_kept_def)

lemma en_step_refl [simp]: "en_step w w"
  and en_step_trans: "en_step w w1 \<Longrightarrow> en_step w1 w2 \<Longrightarrow> en_step w w2"
  by (auto simp: en_step_def intro: en_frame_trans ctx_kept_trans)

lemma en_step_same: "mtd w' = mtd w \<and> bmtd w' = bmtd w \<Longrightarrow> en_step w w'"
  using en_frame_same [of w' w] by (simp add: en_step_def)

lemma en_step_fold: "(\<And>i w. en_step w (f i w)) \<Longrightarrow> en_step w (fold f is w)"
  by (induction "is" arbitrary: w) (auto intro: en_step_trans)

lemma rblock_set_status: "ctx w' = ctx (set_status i st w) \<Longrightarrow>
  rblock (ctx w') j = (if j = i \<and> i < length (rblocks (ctx w)) then (rblock (ctx w) i)\<lparr>bi_status := st\<rparr> else rblock (ctx w) j)"
  by (simp add: set_status_def rblock_def arr_get_update)

lemma set_status_kept:
  assumes "bi_status (rblock (ctx w) i) \<noteq> BS_MAPPED" and "st \<noteq> BS_MAPPED"
  shows "en_step w (set_status i st w)"
proof -
  let ?c = "ctx (set_status i st w)"
  have idx: "map bi_index (rblocks ?c) = map bi_index (rblocks (ctx w))"
    by (cases "i < length (rblocks (ctx w))") (simp_all add: set_status_def rblock_def arr_get_def map_update list_update_beyond, metis list_update_id map_update)
  have "is_mapped ?c = is_mapped (ctx w)" using assms by (auto simp: is_mapped_def rblock_set_status fun_eq_iff)
  then show ?thesis unfolding en_step_def ctx_kept_def using idx by (simp add: set_status_def bmt_used_def bbt_used_def)
qed

lemma w_erase_pending_step: "en_step w (w_erase_pending D w)"
proof -
  have one: "en_step w (erase_pending_one D i w)" for i and w :: "'a bmt_world"
  proof (cases "bi_status (rblock (ctx w) i) = BS_NEED_ERASE")
    case True
    let ?b = "bi_index (rblock (ctx w) i)"
    obtain r w1 where e: "w_erase_one D ?b False w = (r, w1)" by fastforce
    obtain r2 w2 where m: "w_mark_bad D ?b False w1 = (r2, w2)" by fastforce
    have 1: "en_step w w1" "ctx w1 = ctx w" using w_erase_one_frame [OF e] en_step_same en_frame_same by blast+
    have 2: "en_step w1 w2" "ctx w2 = ctx w1" using w_mark_bad_frame [OF m] en_step_same en_frame_same by blast+
    have "en_step w1 (set_status i st w1)" "en_step w2 (set_status i st w2)" if "st \<noteq> BS_MAPPED" for st
      using True 1(2) 2(2) that by (auto intro!: set_status_kept)
    then show ?thesis using True e m 1 2 by (auto simp: erase_pending_one_def intro: en_step_trans)
  qed (simp add: erase_pending_one_def)
  show ?thesis unfolding w_erase_pending_def by (rule en_step_fold) (rule one)
qed

lemma mark_for_erasure_step: "st \<noteq> BS_MAPPED \<Longrightarrow> en_step w (mark_for_erasure st w)"
proof -
  assume st: "st \<noteq> BS_MAPPED"
  show ?thesis unfolding mark_for_erasure_def by (rule en_step_fold) (use st in \<open>auto intro!: set_status_kept\<close>)
qed

lemma find_available_Some:
  "find_available_block b e = Some i \<Longrightarrow> bi_status (rblock (en75 b) i) = BS_AVAILABLE \<and> i < reserve_block_count b"
  by (auto simp: find_available_block_def Let_def find_Some_iff split: if_splits)
     (metis add_lessD1 diff_less_Suc length_rev length_upt nth_mem set_rev set_upt atLeastLessThan_iff minus_nat.diff_0)+

lemma en75_ctx: "en75 (bmtd w) = ctx w"
  by (simp add: ctx_def)

lemma w_update_table_step:
  "w_update_table n D e len buf w = (r, w') \<Longrightarrow> en_step w w' \<and> (\<forall>i. r = Inr i \<longrightarrow> bi_status (rblock (ctx w') i) = BS_AVAILABLE)"
proof (induction n D e len buf w rule: w_update_table.induct)
  case (2 n D e len buf w)
  show ?case
  proof (cases "find_available_block (bmtd w) e")
    case None
    then show ?thesis using 2(2) by auto
  next
    case (Some i)
    have av: "bi_status (rblock (ctx w) i) = BS_AVAILABLE" using find_available_Some [OF Some] by (simp add: en75_ctx)
    obtain ret w1 where w1: "w_write D (bi_index (rblock (ctx w) i)) False len buf False w = (ret, w1)" by fastforce
    have 1: "en_step w w1" "ctx w1 = ctx w" using w_write_frame [OF w1] en_step_same en_frame_same by blast+
    have s: "en_step w1 (set_status i BS_NEED_ERASE w1)" using av 1(2) by (auto intro!: set_status_kept)
    show ?thesis
    proof (cases "ret = 0")
      case True
      then show ?thesis using 2(2) Some w1 1 av by auto
    next
      case False
      then have "w_update_table n D e len buf (set_status i BS_NEED_ERASE w1) = (r, w')" using 2(2) Some w1 by simp
      then show ?thesis using 2(1) [OF Some w1 [symmetric] refl False] s 1 by (blast intro: en_step_trans)
    qed
  qed
qed auto

lemma take_clear_entries: "take n (clear_entries n k es) = take n es"
  by (rule nth_equalityI) (auto simp: clear_entries_def)

lemma length_clear_entries [simp]: "length (clear_entries n k es) = length es"
  by (simp add: clear_entries_def)

lemma seal_bmt_simps [simp]: "bmth_size (seal_bmt b t) = bmth_size t" "length (bmt_entries (seal_bmt b t)) = length (bmt_entries t)"
  "take (bmth_size t) (bmt_entries (seal_bmt b t)) = take (bmth_size t) (bmt_entries t)"
  by (simp_all add: seal_bmt_def Let_def take_clear_entries)

lemma seal_bbt_simps [simp]: "bbth_size (seal_bbt t) = bbth_size t" "length (bbt_entries (seal_bbt t)) = length (bbt_entries t)"
  "take (bbth_size t) (bbt_entries (seal_bbt t)) = take (bbth_size t) (bbt_entries t)"
  by (simp_all add: seal_bbt_def Let_def) (auto intro!: nth_equalityI)

lemma en_step_upd: "ctx_kept (ctx w) (f (ctx w)) \<Longrightarrow> en_step w (upd_ctx f w)"
  by (simp add: en_step_def)

lemma sync_step:
  assumes "w_update_table n D e len buf w1 = (Inr i, w2)" and "en_step w w1" and "st \<noteq> BS_MAPPED"
    and "\<And>c. ctx_kept c (f c)"
  shows "en_step w (upd_ctx f (set_status i st (mark_for_erasure st w2)))"
proof -
  have 2: "en_step w1 w2" "bi_status (rblock (ctx w2) i) = BS_AVAILABLE" using w_update_table_step [OF assms(1)] by auto
  have 3: "en_step w2 (mark_for_erasure st w2)" using assms(3) by (rule mark_for_erasure_step)
  then have "is_mapped (ctx (mark_for_erasure st w2)) i = is_mapped (ctx w2) i" by (simp add: en_step_def ctx_kept_def)
  then have "en_step (mark_for_erasure st w2) (set_status i st (mark_for_erasure st w2))"
    using 2(2) assms(3) by (intro set_status_kept) (auto simp: is_mapped_def)
  then show ?thesis using assms(2) 2(1) 3 assms(4) by (blast intro: en_step_trans en_step_upd)
qed

lemma sync_bmt_step: "sync_bmt D be w = (r, w') \<Longrightarrow> en_step w w'"
proof -
  assume s: "sync_bmt D be w = (r, w')"
  let ?w1 = "upd_ctx (\<lambda>c. c\<lparr>en_bmt := seal_bmt (bmtd w) (en_bmt c)\<rparr>) w"
  have 1: "en_step w ?w1" by (rule en_step_upd) (simp add: ctx_kept_def bmt_used_def bbt_used_def is_mapped_def rblock_def fun_eq_iff)
  show ?thesis
  proof (cases "bmt_dirty (ctx w) = 0")
    case False
    obtain x w2 where u: "w_update_table 3 D True 1044 (bmt_table_bytes be (en_bmt (ctx ?w1))) ?w1 = (x, w2)" by fastforce
    show ?thesis
    proof (cases x)
      case (Inl e)
      then show ?thesis using s False u w_update_table_step [OF u] 1 by (auto simp: sync_bmt_def Let_def intro: en_step_trans)
    next
      case (Inr i)
      have "en_step w (upd_ctx (\<lambda>c. c\<lparr>bmt_dirty := s8 (bmt_dirty c - bmt_dirty (ctx w))\<rparr>) (set_status i BS_BMT (mark_for_erasure BS_BMT w2)))"
        by (rule sync_step [OF u [unfolded Inr] 1]) (simp_all add: ctx_kept_def bmt_used_def bbt_used_def is_mapped_def rblock_def fun_eq_iff)
      then show ?thesis using s False u Inr by (auto simp: sync_bmt_def Let_def)
    qed
  qed (use s in \<open>simp add: sync_bmt_def\<close>)
qed

lemma sync_bbt_step: "sync_bbt D be w = (r, w') \<Longrightarrow> en_step w w'"
proof -
  assume s: "sync_bbt D be w = (r, w')"
  let ?w1 = "upd_ctx (\<lambda>c. c\<lparr>en_bbt := seal_bbt (en_bbt c)\<rparr>) w"
  have 1: "en_step w ?w1" by (rule en_step_upd) (simp add: ctx_kept_def bmt_used_def bbt_used_def is_mapped_def rblock_def fun_eq_iff)
  show ?thesis
  proof (cases "bbt_dirty (ctx w) = 0 \<or> \<not> can_write_factory_bbt (ctx w)")
    case False
    obtain x w2 where u: "w_update_table 3 D False 2012 (bbt_table_bytes be (en_bbt (ctx ?w1))) ?w1 = (x, w2)" by fastforce
    show ?thesis
    proof (cases x)
      case (Inl e)
      then show ?thesis using s False u w_update_table_step [OF u] 1 by (auto simp: sync_bbt_def Let_def intro: en_step_trans)
    next
      case (Inr i)
      have "en_step w (upd_ctx (\<lambda>c. c\<lparr>bbt_dirty := s8 (bbt_dirty c - bbt_dirty (ctx w))\<rparr>) (set_status i BS_BBT (mark_for_erasure BS_BBT w2)))"
        by (rule sync_step [OF u [unfolded Inr] 1]) (simp_all add: ctx_kept_def bmt_used_def bbt_used_def is_mapped_def rblock_def fun_eq_iff)
      then show ?thesis using s False u Inr by (auto simp: sync_bbt_def Let_def)
    qed
  qed (use s in \<open>auto simp: sync_bbt_def\<close>)
qed

lemma w_sync_tables_step: "w_sync_tables D be w = (r, w') \<Longrightarrow> en_step w w'"
proof -
  assume s: "w_sync_tables D be w = (r, w')"
  obtain r1 w1 where 1: "sync_bmt D be (w_erase_pending D w) = (r1, w1)" by fastforce
  obtain r2 w2 where 2: "sync_bbt D be w1 = (r2, w2)" by fastforce
  have w1: "en_step w w1" using w_erase_pending_step sync_bmt_step [OF 1] by (rule en_step_trans)
  then have w2: "en_step w w2" using sync_bbt_step [OF 2] by (rule en_step_trans)
  have "en_step w (w_erase_pending D w2)" using w2 w_erase_pending_step by (rule en_step_trans)
  then show ?thesis using s 1 2 w1 w2 by (auto simp: w_sync_tables_def split: if_splits)
qed

section \<open>The invariant\<close>

text \<open>
  \<open>en_inv\<close> is the type of the tables: the reserve area is listed from the end of the chip and mappings lead from the user area
  into it. \<open>en_sound\<close> says in addition that no block is mapped twice and no block used for a mapping is free.
\<close>

definition en_inv :: "bmt_desc \<Rightarrow> bool" where
  "en_inv b \<longleftrightarrow> reserve_area_begin (en75 b) \<le> total_blks b \<and>
     map bi_index (rblocks (en75 b)) = rev [reserve_area_begin (en75 b)..<total_blks b] \<and>
     length (bmt_entries (en_bmt (en75 b))) = 256 \<and> bmth_size (en_bmt (en75 b)) < 256 \<and>
     list_all (\<lambda>e. en_from e < reserve_area_begin (en75 b) \<and> reserve_area_begin (en75 b) \<le> en_to e \<and> en_to e < total_blks b) (bmt_used (en75 b))"

definition pos_of :: "bmt_desc \<Rightarrow> nat \<Rightarrow> nat" where
  "pos_of b x = total_blks b - 1 - x"

definition en_sound :: "bmt_desc \<Rightarrow> bool" where
  "en_sound b \<longleftrightarrow> en_inv b \<and> distinct (map en_from (bmt_used (en75 b))) \<and> distinct (map en_to (bmt_used (en75 b))) \<and>
     list_all (\<lambda>e. is_mapped (en75 b) (pos_of b (en_to e))) (bmt_used (en75 b)) \<and> sorted_wrt (<) (bbt_used (en75 b))"

lemma en_step_inv: "en_step w w' \<Longrightarrow> en_inv (bmtd w) \<Longrightarrow> en_inv (bmtd w')"
  by (auto simp: en_step_def en_frame_def ctx_kept_def en_inv_def ctx_def)

lemma en_step_sound: "en_step w w' \<Longrightarrow> en_sound (bmtd w) \<Longrightarrow> en_sound (bmtd w')"
  using en_step_inv [of w w'] by (auto simp: en_step_def en_frame_def ctx_kept_def en_sound_def ctx_def pos_of_def)

lemma get_mapping_block_bbt_used: "get_mapping_block_bbt c block =
    (if bbt_shift (bbt_used c) block \<ge> int (reserve_area_begin c) \<or> bbt_shift (bbt_used c) block < 0 then - EINVAL else bbt_shift (bbt_used c) block)"
  by (simp add: get_mapping_block_bbt_def bbt_used_def Let_def)

lemma bmt_lookup_used: "bmt_lookup c block = map_option en_to (List.find (\<lambda>e. int (en_from e) = block) (rev (bmt_used c)))"
  by (simp add: bmt_lookup_def bmt_used_def)

lemma mapping_cong:
  assumes "bmt_used c' = bmt_used c" and "bbt_used c' = bbt_used c" and "reserve_area_begin c' = reserve_area_begin c"
  shows "get_mapping_block c' = get_mapping_block c" and "get_mapping_block_bbt c' = get_mapping_block_bbt c"
  using assms by (simp_all add: fun_eq_iff get_mapping_block_def get_mapping_block_bbt_used bmt_lookup_used)

lemma en_step_mapping: "en_step w w' \<Longrightarrow> pub_get_mapping_block (bmtd w') = pub_get_mapping_block (bmtd w)"
  using mapping_cong(1) [of "ctx w'" "ctx w"] by (simp add: en_step_def ctx_kept_def fun_eq_iff pub_get_mapping_block_def ctx_def)

section \<open>What remapping does\<close>

definition set_st :: "nat \<Rightarrow> block_status \<Rightarrow> en75_bmt_m \<Rightarrow> en75_bmt_m" where
  "set_st i st c = c\<lparr>rblocks := (rblocks c)[i := (rblock c i)\<lparr>bi_status := st\<rparr>]\<rparr>"

lemma ctx_set_status [simp]: "ctx (set_status i st w) = set_st i st (ctx w)"
  by (simp add: set_status_def set_st_def)

lemma en_frame_set_status [simp]: "en_frame w (set_status i st w)"
  by (simp add: set_status_def)

lemma set_st_simps [simp]: "en_bmt (set_st i st c) = en_bmt c" "en_bbt (set_st i st c) = en_bbt c" "reserve_area_begin (set_st i st c) = reserve_area_begin c"
  "can_remap_ranges (set_st i st c) = can_remap_ranges c" "bmt_used (set_st i st c) = bmt_used c" "bbt_used (set_st i st c) = bbt_used c"
  "length (rblocks (set_st i st c)) = length (rblocks c)"
  by (simp_all add: set_st_def bmt_used_def bbt_used_def)

lemma index_set_st [simp]: "map bi_index (rblocks (set_st i st c)) = map bi_index (rblocks c)"
  by (cases "i < length (rblocks c)") (simp_all add: set_st_def rblock_def arr_get_def map_update list_update_beyond, metis list_update_id map_update)

lemma is_mapped_set_st: "is_mapped (set_st i st c) j = (if j = i \<and> i < length (rblocks c) then st = BS_MAPPED else is_mapped c j)"
  by (simp add: set_st_def is_mapped_def rblock_def arr_get_update)

definition remap_ctx :: "nat \<Rightarrow> nat option \<Rightarrow> nat \<Rightarrow> en75_bmt_m \<Rightarrow> en75_bmt_m" where
  "remap_ctx i mapped block c =
     (case mapped of None \<Rightarrow> (\<lambda>c. c) | Some j \<Rightarrow> set_st j BS_NEED_ERASE)
       (set_st i BS_MAPPED (c\<lparr>en_bmt := bmt_map block (bi_index (rblock c i)) (en_bmt c), bmt_dirty := s8 (bmt_dirty c + 1)\<rparr>))"

lemma copy_tries_frame: "same_but_buf w (copy_tries n D dest src k w)"
proof (induction n D dest src k w rule: copy_tries.induct)
  case (2 n D dest src k w)
  obtain r w1 where c: "bbt_nand_copy D dest src k w = (r, w1)" by fastforce
  then have "same_but_buf w w1" by (rule bbt_nand_copy_frame)
  then show ?case using 2 c by (auto intro: same_but_buf_trans)
qed simp

lemma same_but_buf_frame: "same_but_buf w w' \<Longrightarrow> en_frame w w' \<and> ctx w' = ctx w"
  by (auto simp: same_but_buf_def en_frame_def ctx_def intro!: exI [of _ "en75 (bmtd w)"])

lemma w_remap_block_cases:
  assumes "w_remap_block D be block mapped n w = (r, w')"
  obtains "r \<noteq> 0" and "en_step w w'"
  | i where "r = 0" and "find_available_block (bmtd w) False = Some i" and "bmth_size (en_bmt (ctx w)) \<noteq> 255"
      and "block < reserve_area_begin (ctx w)" and "en_frame w w'" and "ctx w' = remap_ctx i mapped block (ctx w)"
proof -
  note cases = that
  show thesis
  proof (cases "bmth_size (en_bmt (ctx w)) = 255 \<or> find_available_block (bmtd w) False = None")
    case True
    then show thesis using assms cases(1) by (auto simp: w_remap_block_def split: option.splits)
  next
    case False
    then obtain i where i: "find_available_block (bmtd w) False = Some i" by auto
    have av: "bi_status (rblock (ctx w) i) = BS_AVAILABLE" using find_available_Some [OF i] by (simp add: en75_ctx)
    let ?new = "rblock (ctx w) i"
    obtain ret w1 where m: "w_make_mapping D be ?new block w = (ret, w1)" by fastforce
    have 1: "en_step w w1" "en_frame w w1" "ctx w1 = ctx w" and lt: "ret = 0 \<Longrightarrow> block < reserve_area_begin (ctx w)"
      using m w_write_frame [of D _ _ _ _ _ w ret w1] en_step_same [of w1 w] en_frame_same [of w1 w]
      by (auto simp: w_make_mapping_def split: if_splits)
    show thesis
    proof (cases "ret = 0")
      case bad: False
      have "en_step w1 (set_status i BS_NEED_ERASE w1)" using av 1(3) by (auto intro!: set_status_kept)
      moreover have "r = ret" "w' = set_status i BS_NEED_ERASE w1" using assms False i m bad by (auto simp: w_remap_block_def)
      ultimately show thesis using cases(1) bad 1(1) by (blast intro: en_step_trans)
    next
      case True
      define from_blk where "from_blk = (case mapped of None \<Rightarrow> block | Some j \<Rightarrow> bi_index (rblock (ctx w1) j))"
      define w2 where "w2 = (if n \<noteq> 0 then copy_tries 10 D (bi_index ?new) from_blk n w1 else w1)"
      have 2: "en_frame w1 w2" "ctx w2 = ctx w1" using same_but_buf_frame [OF copy_tries_frame [of w1 10 D "bi_index ?new" from_blk n]] by (simp_all add: w2_def)
      define w4 where "w4 = set_status i BS_MAPPED (upd_ctx (\<lambda>c. c\<lparr>en_bmt := bmt_map block (bi_index ?new) (en_bmt c), bmt_dirty := s8 (bmt_dirty c + 1)\<rparr>) w2)"
      have 4: "en_frame w2 w4" unfolding w4_def using en_frame_trans [OF en_frame_upd en_frame_set_status] .
      obtain r5 w5 where b: "w_mark_bad D block True w4 = (r5, w5)" by fastforce
      have 5: "en_frame w4 w5" "ctx w5 = ctx w4" using en_frame_same [OF w_mark_bad_frame [OF b]] by auto
      have r: "r = 0" "w' = (case mapped of None \<Rightarrow> w5 | Some j \<Rightarrow> set_status j BS_NEED_ERASE w5)"
        using assms False i m True b [unfolded w4_def w2_def from_blk_def] by (auto simp: w_remap_block_def Let_def)
      have "en_frame w w5" using 1(2) 2(1) 4 5(1) en_frame_trans by blast
      then have "en_frame w w'" using r(2) en_frame_trans [OF _ en_frame_set_status] by (auto split: option.splits)
      moreover have "ctx w' = remap_ctx i mapped block (ctx w)"
        using r(2) 1(3) 2(2) 5(2) by (simp add: remap_ctx_def w4_def split: option.splits)
      ultimately show thesis using cases(2) r(1) i False lt True by blast
    qed
  qed
qed

lemma replace_entry_Some:
  "replace_entry block t es = Some es' \<Longrightarrow> \<exists>k<length es. en_from (es ! k) = block \<and> es' = es[k := (es ! k)\<lparr>en_to := t\<rparr>]"
proof (induction es arbitrary: es')
  case (Cons e es)
  show ?case
  proof (cases "en_from e = block")
    case True
    then show ?thesis using Cons.prems by (intro exI [of _ 0]) auto
  next
    case False
    then obtain es'' where "replace_entry block t es = Some es''" "es' = e # es''" using Cons.prems by auto
    then obtain k where "k < length es" "en_from (es ! k) = block" "es'' = es[k := (es ! k)\<lparr>en_to := t\<rparr>]" using Cons.IH by blast
    then show ?thesis using \<open>es' = e # es''\<close> by (intro exI [of _ "Suc k"]) auto
  qed
qed simp

lemma replace_entry_None: "replace_entry block t es = None \<longleftrightarrow> block \<notin> en_from ` set es"
  by (induction es) auto

lemma bmt_used_map:
  assumes "length (bmt_entries t) = 256" and "bmth_size t < 255"
  shows "bmth_size (bmt_map block to t) < 256" and "length (bmt_entries (bmt_map block to t)) = 256"
    and "take (bmth_size (bmt_map block to t)) (bmt_entries (bmt_map block to t)) =
      (case replace_entry block to (take (bmth_size t) (bmt_entries t)) of Some es \<Rightarrow> es
       | None \<Rightarrow> take (bmth_size t) (bmt_entries t) @ [\<lparr>en_from = block, en_to = to\<rparr>])"
proof -
  let ?u = "take (bmth_size t) (bmt_entries t)"
  have len: "length es = bmth_size t" if "replace_entry block to ?u = Some es" for es
    using replace_entry_Some [OF that] assms by auto
  have "take (Suc (bmth_size t)) ((bmt_entries t)[bmth_size t := x]) = ?u @ [x]" for x
    using assms by (simp add: take_Suc_conv_app_nth)
  then show "bmth_size (bmt_map block to t) < 256" "length (bmt_entries (bmt_map block to t)) = 256"
    "take (bmth_size (bmt_map block to t)) (bmt_entries (bmt_map block to t)) =
      (case replace_entry block to ?u of Some es \<Rightarrow> es | None \<Rightarrow> ?u @ [\<lparr>en_from = block, en_to = to\<rparr>])"
    using assms by (auto simp: bmt_map_def Let_def len split: option.splits)
qed

lemma en_inv_rblock:
  assumes "en_inv b" and "i < reserve_block_count b"
  shows "bi_index (rblock (en75 b) i) = total_blks b - 1 - i" and "reserve_area_begin (en75 b) \<le> bi_index (rblock (en75 b) i)"
    and "bi_index (rblock (en75 b) i) < total_blks b" and "pos_of b (bi_index (rblock (en75 b) i)) = i" and "i < length (rblocks (en75 b))"
proof -
  let ?l = "rev [reserve_area_begin (en75 b)..<total_blks b]"
  have m: "map bi_index (rblocks (en75 b)) = ?l" using assms(1) by (simp add: en_inv_def)
  then have l: "length (rblocks (en75 b)) = reserve_block_count b" by (metis length_map length_rev length_upt reserve_block_count_def)
  then show len: "i < length (rblocks (en75 b))" using assms(2) by simp
  have "bi_index (rblock (en75 b) i) = ?l ! i" using m len by (simp add: rblock_def arr_get_def flip: nth_map [of i "rblocks (en75 b)" bi_index])
  also have "\<dots> = total_blks b - 1 - i" using assms(2) by (simp add: rev_nth reserve_block_count_def)
  finally show "bi_index (rblock (en75 b) i) = total_blks b - 1 - i" .
  then show "reserve_area_begin (en75 b) \<le> bi_index (rblock (en75 b) i)" "bi_index (rblock (en75 b) i) < total_blks b"
    "pos_of b (bi_index (rblock (en75 b) i)) = i" using assms(2) by (auto simp: reserve_block_count_def pos_of_def)
qed

lemma remap_ctx_simps [simp]:
  "reserve_area_begin (remap_ctx i mm blk c) = reserve_area_begin c" "bbt_used (remap_ctx i mm blk c) = bbt_used c"
  "map bi_index (rblocks (remap_ctx i mm blk c)) = map bi_index (rblocks c)" "length (rblocks (remap_ctx i mm blk c)) = length (rblocks c)"
  "en_bmt (remap_ctx i mm blk c) = bmt_map blk (bi_index (rblock c i)) (en_bmt c)"
  by (auto simp: remap_ctx_def bbt_used_def rblock_def split: option.splits)

lemma bmt_used_remap:
  assumes "length (bmt_entries (en_bmt c)) = 256" and "bmth_size (en_bmt c) < 255"
  shows "bmt_used (remap_ctx i mm blk c) = (case replace_entry blk (bi_index (rblock c i)) (bmt_used c) of Some es \<Rightarrow> es
    | None \<Rightarrow> bmt_used c @ [\<lparr>en_from = blk, en_to = bi_index (rblock c i)\<rparr>])"
  unfolding bmt_used_def remap_ctx_simps using assms by (rule bmt_used_map(3))

lemma remap_ctx_inv:
  assumes "en_inv b" and "find_available_block b False = Some i" and "bmth_size (en_bmt (en75 b)) \<noteq> 255"
    and "blk < reserve_area_begin (en75 b)" and "b' = b\<lparr>data_buf := x, en75 := remap_ctx i mm blk (en75 b)\<rparr>"
  shows "en_inv b'"
proof -
  let ?c = "en75 b"
  have i: "i < reserve_block_count b" using find_available_Some [OF assms(2)] by simp
  note r = en_inv_rblock [OF assms(1) i]
  have t: "length (bmt_entries (en_bmt ?c)) = 256" "bmth_size (en_bmt ?c) < 255" using assms(1,3) by (auto simp: en_inv_def)
  have ok: "list_all (\<lambda>e. en_from e < reserve_area_begin ?c \<and> reserve_area_begin ?c \<le> en_to e \<and> en_to e < total_blks b) (bmt_used ?c)"
    using assms(1) by (simp add: en_inv_def)
  have "list_all (\<lambda>e. en_from e < reserve_area_begin ?c \<and> reserve_area_begin ?c \<le> en_to e \<and> en_to e < total_blks b) (bmt_used (remap_ctx i mm blk ?c))"
    unfolding bmt_used_remap [OF t]
  proof (cases "replace_entry blk (bi_index (rblock ?c i)) (bmt_used ?c)")
    case (Some es)
    then obtain k where k: "k < length (bmt_used ?c)" "es = (bmt_used ?c)[k := (bmt_used ?c ! k)\<lparr>en_to := bi_index (rblock ?c i)\<rparr>]"
      using replace_entry_Some by blast
    have "set es \<subseteq> insert ((bmt_used ?c ! k)\<lparr>en_to := bi_index (rblock ?c i)\<rparr>) (set (bmt_used ?c))" using k(2) set_update_subset_insert by metis
    moreover have "bmt_used ?c ! k \<in> set (bmt_used ?c)" using k(1) by simp
    ultimately have "list_all (\<lambda>e. en_from e < reserve_area_begin ?c \<and> reserve_area_begin ?c \<le> en_to e \<and> en_to e < total_blks b) es"
      using ok r(2,3) unfolding list_all_iff by fastforce
    then show "list_all (\<lambda>e. en_from e < reserve_area_begin ?c \<and> reserve_area_begin ?c \<le> en_to e \<and> en_to e < total_blks b)
      (case replace_entry blk (bi_index (rblock ?c i)) (bmt_used ?c) of Some es \<Rightarrow> es | None \<Rightarrow> bmt_used ?c @ [\<lparr>en_from = blk, en_to = bi_index (rblock ?c i)\<rparr>])"
      by (simp add: Some)
  next
    case None
    then show "list_all (\<lambda>e. en_from e < reserve_area_begin ?c \<and> reserve_area_begin ?c \<le> en_to e \<and> en_to e < total_blks b)
      (case replace_entry blk (bi_index (rblock ?c i)) (bmt_used ?c) of Some es \<Rightarrow> es | None \<Rightarrow> bmt_used ?c @ [\<lparr>en_from = blk, en_to = bi_index (rblock ?c i)\<rparr>])"
      using ok r(2,3) assms(4) by simp
  qed
  then show ?thesis using assms(1) bmt_used_map(1,2) [OF t] by (simp add: en_inv_def assms(5))
qed

lemma en_frame_ctx: "en_frame w w' \<Longrightarrow> \<exists>x. bmtd w' = (bmtd w)\<lparr>data_buf := x, en75 := ctx w'\<rparr>"
  by (auto simp: en_frame_def ctx_def)

lemma pub_remap_cases:
  assumes "pub_remap_block D be u m n w = (r, w')"
  obtains "en_step w w'"
  | i w1 mapped where "find_available_block (bmtd w) False = Some i" and "bmth_size (en_bmt (ctx w)) \<noteq> 255"
      and "u16_of_int (get_mapping_block_bbt (ctx w) (int u)) < reserve_area_begin (ctx w)" and "en_frame w w1"
      and "ctx w1 = remap_ctx i mapped (u16_of_int (get_mapping_block_bbt (ctx w) (int u))) (ctx w)" and "en_step w1 w'"
      and "mapped = (if m \<noteq> u16_of_int (get_mapping_block_bbt (ctx w) (int u))
             then first_index (\<lambda>bif. bi_index bif = m) (take (reserve_block_count (bmtd w)) (rblocks (ctx w))) else None)"
proof -
  note cases = that
  let ?blk = "u16_of_int (get_mapping_block_bbt (ctx w) (int u))"
  let ?mapped = "if m \<noteq> ?blk then first_index (\<lambda>bif. bi_index bif = m) (take (reserve_block_count (bmtd w)) (rblocks (ctx w))) else None"
  obtain r1 w1 where 1: "w_remap_block D be ?blk ?mapped n w = (r1, w1)" by fastforce
  obtain r2 w2 where 2: "w_sync_tables D be w1 = (r2, w2)" by fastforce
  have "w' = w \<or> w' = w2" using assms 1 2 by (auto simp: pub_remap_block_def Let_def split: if_splits prod.splits)
  then show thesis
  proof
    assume "w' = w"
    then show thesis using cases(1) by simp
  next
    assume w': "w' = w2"
    from 1 show thesis
    proof (cases rule: w_remap_block_cases)
      case 1
      then show thesis using cases(1) en_step_trans [OF _ w_sync_tables_step [OF 2]] w' by blast
    next
      case (2 i)
      then show thesis using cases(2) [of i w1 ?mapped] w_sync_tables_step [OF \<open>w_sync_tables D be w1 = (r2, w2)\<close>] w' by blast
    qed
  qed
qed

lemma pub_remap_keeps:
  assumes "en_inv (bmtd w)" and "pub_remap_block D be u m n w = (r, w')"
  shows "en_inv (bmtd w') \<and> geom w' = geom w"
  using assms(2)
proof (cases rule: pub_remap_cases)
  case 1
  then show ?thesis using en_step_inv [OF _ assms(1)] en_frame_geom [of w w'] by (simp add: en_step_def)
next
  case (2 i w1 mapped)
  obtain x where x: "bmtd w1 = (bmtd w)\<lparr>data_buf := x, en75 := ctx w1\<rparr>" using en_frame_ctx [OF 2(4)] by blast
  have "en_inv (bmtd w1)"
    using remap_ctx_inv [OF assms(1) 2(1), folded ctx_def, OF 2(2,3)] x 2(5) by metis
  moreover have "geom w' = geom w" using en_frame_geom [OF 2(4)] en_frame_geom [of w1 w'] 2(6) by (simp add: en_step_def)
  ultimately show ?thesis using en_step_inv [OF 2(6)] by simp
qed

lemma en75_get_in_chip:
  assumes "en_inv b"
  shows "pub_get_mapping_block b block < int (total_blks b)"
proof -
  have "bmt_lookup (en75 b) x = Some t \<Longrightarrow> t < total_blks b" for x t
    using assms by (auto simp: bmt_lookup_used en_inv_def list_all_iff find_Some_iff) (metis length_rev nth_mem set_rev)
  moreover have "reserve_area_begin (en75 b) \<le> total_blks b" using assms by (simp add: en_inv_def)
  ultimately show ?thesis
    by (auto simp: pub_get_mapping_block_def get_mapping_block_def get_mapping_block_bbt_used Let_def split: option.splits)
qed

interpretation en75: bmt_backend "en75_bmt_ops D be" en_inv for D :: "'d nand_drv" and be
  by unfold_locales (auto simp: en75_bmt_ops_def en75_get_in_chip dest: pub_remap_keeps)

lemma bbt_shift_mono: "a < b \<Longrightarrow> bbt_shift xs a < bbt_shift xs b"
  by (induction xs arbitrary: a b) auto

section \<open>No block is used twice\<close>

lemma bmt_lookup_sound:
  assumes "en_sound b" and "e \<in> set (bmt_used (en75 b))"
  shows "bmt_lookup (en75 b) (int (en_from e)) = Some (en_to e)"
proof -
  have d: "distinct (map en_from (bmt_used (en75 b)))" using assms(1) by (simp add: en_sound_def)
  have "List.find (\<lambda>x. en_from x = en_from e) (rev xs) = Some e" if "distinct (map en_from xs)" "e \<in> set xs" for xs
  proof -
    have "\<exists>x. List.find (\<lambda>x. en_from x = en_from e) (rev xs) = Some x" using that(2) by (auto simp: find_None_iff simp flip: not_None_eq)
    then obtain x where x: "List.find (\<lambda>x. en_from x = en_from e) (rev xs) = Some x" by blast
    then have "x \<in> set xs" "en_from x = en_from e" by (auto simp: find_Some_iff) (metis length_rev nth_mem set_rev)
    then have "x = e" using that by (metis distinct_map inj_onD)
    then show ?thesis using x by simp
  qed
  from this [OF d assms(2)] show ?thesis by (simp add: bmt_lookup_used)
qed

lemma bmt_lookup_entry: "bmt_lookup c (int blk) = Some t \<Longrightarrow> \<exists>e\<in>set (bmt_used c). en_from e = blk \<and> en_to e = t"
  by (auto simp: bmt_lookup_used find_Some_iff) (metis length_rev nth_mem set_rev)

lemma bmt_lookup_None: "bmt_lookup c (int blk) = None \<longleftrightarrow> blk \<notin> en_from ` set (bmt_used c)"
  by (auto simp: bmt_lookup_used find_None_iff)

text \<open>In a sound state two user blocks are never on the same block of the chip.\<close>

lemma mapping_inj:
  assumes "en_sound b" and "pub_get_mapping_block b u = pub_get_mapping_block b v" and "0 \<le> pub_get_mapping_block b u"
  shows "u = v"
proof -
  let ?c = "en75 b" and ?g = "\<lambda>u. get_mapping_block_bbt (en75 b) (int u)"
  have pos: "0 \<le> ?g x \<and> ?g x < int (reserve_area_begin ?c) \<and> ?g x = bbt_shift (bbt_used ?c) (int x)" if "0 \<le> pub_get_mapping_block b x" for x
    using that by (auto simp: pub_get_mapping_block_def get_mapping_block_def get_mapping_block_bbt_used Let_def split: if_splits)
  have gu: "0 \<le> ?g u" "?g u < int (reserve_area_begin ?c)" "?g u = bbt_shift (bbt_used ?c) (int u)" using pos assms(3) by blast+
  have gv: "0 \<le> ?g v" "?g v < int (reserve_area_begin ?c)" "?g v = bbt_shift (bbt_used ?c) (int v)" using pos assms(2,3) by (metis, metis, metis)
  have m: "pub_get_mapping_block b x = (case bmt_lookup ?c (?g x) of None \<Rightarrow> ?g x | Some t \<Rightarrow> int t)" if "0 \<le> ?g x" for x
    using that by (simp add: pub_get_mapping_block_def get_mapping_block_def Let_def)
  have lk: "\<exists>e\<in>set (bmt_used ?c). en_from e = nat z \<and> en_to e = t \<and> reserve_area_begin ?c \<le> t" if "bmt_lookup ?c z = Some t" "0 \<le> z" for z t
  proof -
    have "bmt_lookup ?c (int (nat z)) = Some t" using that by simp
    from bmt_lookup_entry [OF this] show ?thesis using assms(1) by (auto simp: en_sound_def en_inv_def list_all_iff)
  qed
  have inj_to: "inj_on en_to (set (bmt_used ?c))" using assms(1) by (simp add: en_sound_def distinct_map)
  have "?g u = ?g v"
  proof (cases "bmt_lookup ?c (?g u)")
    case None
    then have "bmt_lookup ?c (?g v) = None" using m [OF gu(1)] m [OF gv(1)] assms(2) lk [OF _ gv(1)] gu(2) by (cases "bmt_lookup ?c (?g v)") fastforce+
    then show ?thesis using None m [OF gu(1)] m [OF gv(1)] assms(2) by simp
  next
    case (Some t)
    then have "pub_get_mapping_block b v = int t" using m [OF gu(1)] assms(2) by simp
    moreover have "reserve_area_begin ?c \<le> t" using lk [OF Some gu(1)] by blast
    ultimately have "bmt_lookup ?c (?g v) = Some t" using m [OF gv(1)] gv(2) by (cases "bmt_lookup ?c (?g v)") auto
    with lk [OF Some gu(1)] lk [OF this gv(1)] inj_to have "nat (?g u) = nat (?g v)" by (metis inj_onD)
    then show ?thesis using gu(1) gv(1) by simp
  qed
  then show ?thesis using gu(3) gv(3) bbt_shift_mono [of "int u" "int v" "bbt_used ?c"] bbt_shift_mono [of "int v" "int u" "bbt_used ?c"]
    by (metis less_irrefl linorder_neqE_nat of_nat_less_iff)
qed

lemma first_index_Some: "first_index P xs = Some j \<Longrightarrow> j < length xs \<and> P (xs ! j)"
  by (induction xs arbitrary: j) (auto split: if_splits)

lemma first_index_None: "first_index P xs = None \<longleftrightarrow> (\<forall>x\<in>set xs. \<not> P x)"
  by (induction xs) auto

lemma pos_of_inj: "x < total_blks b \<Longrightarrow> y < total_blks b \<Longrightarrow> pos_of b x = pos_of b y \<longleftrightarrow> x = y"
  by (auto simp: pos_of_def)

text \<open>The condition on the block that was in use: it is the one of the entry for \<open>blk\<close>, when there is one.\<close>

definition remap_fits :: "bmt_desc \<Rightarrow> nat \<Rightarrow> nat option \<Rightarrow> bool" where
  "remap_fits b blk mapped \<longleftrightarrow>
     (case mapped of
        None \<Rightarrow> blk \<notin> en_from ` set (bmt_used (en75 b))
      | Some j \<Rightarrow> j < reserve_block_count b \<and>
          (\<exists>e\<in>set (bmt_used (en75 b)). en_from e = blk \<and> en_to e = bi_index (rblock (en75 b) j)))"

lemma replace_entry_distinct:
  assumes "replace_entry blk new u = Some es" and d: "distinct (map en_from u)" "distinct (map en_to u)" and "new \<notin> en_to ` set u"
  shows "distinct (map en_from es)" and "distinct (map en_to es)"
    and "\<And>x. x \<in> set es \<longleftrightarrow> x = \<lparr>en_from = blk, en_to = new\<rparr> \<or> (x \<in> set u \<and> en_from x \<noteq> blk)"
proof -
  from replace_entry_Some [OF assms(1)] obtain k where k: "k < length u" "en_from (u ! k) = blk" "es = u[k := (u ! k)\<lparr>en_to := new\<rparr>]" by blast
  have "(u ! k)\<lparr>en_to := new\<rparr> = \<lparr>en_from = blk, en_to = new\<rparr>" using k(2) by simp
  then have es: "es = u[k := \<lparr>en_from = blk, en_to = new\<rparr>]" using k(3) by simp
  have du: "distinct u" using d(1) by (simp add: distinct_map)
  have ek: "x = u ! k" if "x \<in> set u" "en_from x = blk" for x using that k(1,2) d(1) by (metis distinct_map inj_onD nth_mem)
  have "map en_from es = map en_from u" unfolding es using k(1,2) by (simp add: map_update list_update_same_conv)
  then show "distinct (map en_from es)" using d(1) by simp
  show "distinct (map en_to es)" unfolding es map_update using assms(4) d(2) by (intro distinct_list_update) auto
  show "x \<in> set es \<longleftrightarrow> x = \<lparr>en_from = blk, en_to = new\<rparr> \<or> (x \<in> set u \<and> en_from x \<noteq> blk)" for x
    unfolding es using set_update_distinct [OF du k(1)] ek k(1,2) by auto
qed

lemma remap_ctx_entries:
  assumes "en_sound b" and "find_available_block b False = Some i" and "bmth_size (en_bmt (en75 b)) \<noteq> 255" and "remap_fits b blk mapped"
    and "c' = remap_ctx i mapped blk (en75 b)" and "new = bi_index (rblock (en75 b) i)"
  shows "distinct (map en_from (bmt_used c')) \<and> distinct (map en_to (bmt_used c')) \<and>
    list_all (\<lambda>e. is_mapped c' (pos_of b (en_to e))) (bmt_used c') \<and>
    (\<forall>e. e \<in> set (bmt_used c') \<longleftrightarrow> e = \<lparr>en_from = blk, en_to = new\<rparr> \<or> (e \<in> set (bmt_used (en75 b)) \<and> en_from e \<noteq> blk))"
proof -
  let ?c = "en75 b" and ?u = "bmt_used (en75 b)"
  have inv: "en_inv b" using assms(1) by (simp add: en_sound_def)
  have av: "i < reserve_block_count b" "\<not> is_mapped ?c i" using find_available_Some [OF assms(2)] by (auto simp: is_mapped_def)
  note r = en_inv_rblock [OF inv av(1), folded assms(6)]
  have t: "length (bmt_entries (en_bmt ?c)) = 256" "bmth_size (en_bmt ?c) < 255" using inv assms(3) by (auto simp: en_inv_def)
  have ok: "en_to e < total_blks b" "is_mapped ?c (pos_of b (en_to e))" if "e \<in> set ?u" for e
    using assms(1) that by (auto simp: en_sound_def en_inv_def list_all_iff)
  have d: "distinct (map en_from ?u)" "distinct (map en_to ?u)" using assms(1) by (simp_all add: en_sound_def)
  have fresh: "new \<notin> en_to ` set ?u" using ok(2) av(2) r(4) by auto
  have used': "bmt_used c' = (case replace_entry blk new ?u of Some es \<Rightarrow> es | None \<Rightarrow> ?u @ [\<lparr>en_from = blk, en_to = new\<rparr>])"
    unfolding assms(5,6) by (rule bmt_used_remap [OF t])
  show ?thesis
  proof (cases mapped)
    case None
    then have nb: "blk \<notin> en_from ` set ?u" using assms(4) by (simp add: remap_fits_def)
    then have u': "bmt_used c' = ?u @ [\<lparr>en_from = blk, en_to = new\<rparr>]" using used' replace_entry_None [of blk new ?u] by simp
    have "is_mapped c' p \<longleftrightarrow> p = i \<or> is_mapped ?c p" for p
      using r(5) None by (simp add: assms(5) remap_ctx_def is_mapped_set_st) (simp add: is_mapped_def rblock_def)
    then show ?thesis unfolding u' using d(1,2) nb fresh ok(2) r(4) by (auto simp: list_all_iff image_iff)
  next
    case (Some j)
    then obtain e where e: "j < reserve_block_count b" "e \<in> set ?u" "en_from e = blk" "en_to e = bi_index (rblock ?c j)"
      using assms(4) by (auto simp: remap_fits_def)
    then have "replace_entry blk new ?u \<noteq> None" using replace_entry_None [of blk new ?u] by auto
    then obtain es where es: "replace_entry blk new ?u = Some es" by auto
    then have u': "bmt_used c' = es" using used' by simp
    note rep = replace_entry_distinct [OF es d fresh]
    have pj: "pos_of b (en_to e) = j" "j < length (rblocks ?c)" using en_inv_rblock [OF inv e(1)] e(4) by auto
    have im: "is_mapped c' p \<longleftrightarrow> p \<noteq> j \<and> (p = i \<or> is_mapped ?c p)" for p
      using r(5) pj(2) Some by (simp add: assms(5) remap_ctx_def is_mapped_set_st) (auto simp: is_mapped_def rblock_def)
    have ij: "i \<noteq> j" using av(2) ok(2) [OF e(2)] pj(1) by auto
    have pne: "pos_of b (en_to y) \<noteq> j" if "y \<in> set ?u" "en_from y \<noteq> blk" for y
    proof -
      have "y \<noteq> e" using that e(3) by auto
      then have "en_to y \<noteq> en_to e" using that(1) e(2) d(2) by (metis distinct_map inj_onD)
      then show ?thesis using pos_of_inj [OF ok(1) [OF that(1)] ok(1) [OF e(2)]] pj(1) by simp
    qed
    have "is_mapped c' (pos_of b (en_to x))" if "x \<in> set es" for x
      using that [unfolded rep(3)] im ij pne ok(2) r(4) by (elim disjE) simp_all
    then show ?thesis unfolding u' using rep by (simp add: list_all_iff)
  qed
qed

lemma remap_ctx_sound:
  assumes "en_sound b" and "find_available_block b False = Some i" and "bmth_size (en_bmt (en75 b)) \<noteq> 255"
    and "blk < reserve_area_begin (en75 b)" and "b' = b\<lparr>data_buf := x, en75 := remap_ctx i mapped blk (en75 b)\<rparr>"
    and "remap_fits b blk mapped"
  shows "en_sound b'" and "bmt_lookup (en75 b') (int y) = (if y = blk then Some (bi_index (rblock (en75 b) i)) else bmt_lookup (en75 b) (int y))"
proof -
  let ?c = "en75 b" and ?new = "bi_index (rblock (en75 b) i)" and ?u = "bmt_used (en75 b)" and ?c' = "remap_ctx i mapped blk (en75 b)"
  have inv: "en_inv b" using assms(1) by (simp add: en_sound_def)
  have inv': "en_inv b'" using remap_ctx_inv [OF inv assms(2-5)] .
  from remap_ctx_entries [OF assms(1-3,6) refl refl] have s: "distinct (map en_from (bmt_used ?c'))" "distinct (map en_to (bmt_used ?c'))"
    "list_all (\<lambda>e. is_mapped ?c' (pos_of b (en_to e))) (bmt_used ?c')"
    and mem: "\<And>e. e \<in> set (bmt_used ?c') \<longleftrightarrow> e = \<lparr>en_from = blk, en_to = ?new\<rparr> \<or> (e \<in> set ?u \<and> en_from e \<noteq> blk)" by blast+
  show snd: "en_sound b'" using inv' s assms(1) by (simp add: en_sound_def assms(5) pos_of_def)
  have c': "en75 b' = ?c'" by (simp add: assms(5))
  show "bmt_lookup (en75 b') (int y) = (if y = blk then Some ?new else bmt_lookup ?c (int y))"
  proof (cases "y \<in> en_from ` set (bmt_used ?c')")
    case True
    then obtain e where e: "e \<in> set (bmt_used ?c')" "en_from e = y" by auto
    then have "bmt_lookup (en75 b') (int y) = Some (en_to e)" using bmt_lookup_sound [OF snd, of e] c' by simp
    then show ?thesis using e mem [of e] bmt_lookup_sound [OF assms(1), of e] by auto
  next
    case False
    then have nb: "y \<noteq> blk" using mem [of "\<lparr>en_from = blk, en_to = ?new\<rparr>"] by force
    moreover have "y \<notin> en_from ` set ?u"
    proof
      assume "y \<in> en_from ` set ?u"
      then obtain x where "x \<in> set ?u" "en_from x = y" by auto
      moreover from this have "x \<in> set (bmt_used ?c')" using mem nb by simp
      ultimately show False using False by auto
    qed
    ultimately show ?thesis using False bmt_lookup_None [of ?c y] bmt_lookup_None [of ?c' y] c' by simp
  qed
qed

lemma get_mapping_bbt_inj:
  assumes "get_mapping_block_bbt c (int u) = get_mapping_block_bbt c (int v)" and "0 \<le> get_mapping_block_bbt c (int u)"
  shows "u = v"
proof -
  have "get_mapping_block_bbt c (int x) = bbt_shift (bbt_used c) (int x)" if "0 \<le> get_mapping_block_bbt c (int x)" for x
    using that by (simp add: get_mapping_block_bbt_used split: if_splits)
  then have "bbt_shift (bbt_used c) (int u) = bbt_shift (bbt_used c) (int v)" using assms by simp
  then show ?thesis using bbt_shift_mono [of "int u" "int v" "bbt_used c"] bbt_shift_mono [of "int v" "int u" "bbt_used c"]
    by (metis less_irrefl linorder_neqE_nat of_nat_less_iff)
qed

text \<open>The block that the layer passes along is the one in use.\<close>

lemma remap_fits_lookup:
  assumes "en_inv b" and "blk < reserve_area_begin (en75 b)"
    and "m = (case bmt_lookup (en75 b) (int blk) of None \<Rightarrow> blk | Some t \<Rightarrow> t)"
    and "mapped = (if m \<noteq> blk then first_index (\<lambda>bif. bi_index bif = m) (take (reserve_block_count b) (rblocks (en75 b))) else None)"
  shows "remap_fits b blk mapped"
proof (cases "bmt_lookup (en75 b) (int blk)")
  case None
  then have "blk \<notin> en_from ` set (bmt_used (en75 b))" using bmt_lookup_None by blast
  moreover have "mapped = None" using assms(3,4) None by simp
  ultimately show ?thesis by (simp add: remap_fits_def)
next
  case (Some t)
  then obtain e where e: "e \<in> set (bmt_used (en75 b))" "en_from e = blk" "en_to e = t" using bmt_lookup_entry by blast
  then have t: "reserve_area_begin (en75 b) \<le> t" "t < total_blks b" using assms(1) by (auto simp: en_inv_def list_all_iff)
  let ?l = "take (reserve_block_count b) (rblocks (en75 b))"
  have fi: "mapped = first_index (\<lambda>bif. bi_index bif = t) ?l" using assms(2,3,4) Some t(1) by auto
  have p: "pos_of b t < reserve_block_count b" using t by (auto simp: pos_of_def reserve_block_count_def)
  note rp = en_inv_rblock [OF assms(1) p]
  have "rblocks (en75 b) ! pos_of b t \<in> set ?l" using p rp(5) by (auto simp: in_set_conv_nth intro!: exI [of _ "pos_of b t"])
  moreover have "bi_index (rblocks (en75 b) ! pos_of b t) = t" using rp(1,5) t(2) by (simp add: rblock_def arr_get_def pos_of_def)
  ultimately have "mapped \<noteq> None" unfolding fi first_index_None by blast
  then obtain j where j: "mapped = Some j" by blast
  with fi have "j < reserve_block_count b" "bi_index (rblock (en75 b) j) = t"
    using first_index_Some [of "\<lambda>bif. bi_index bif = t" ?l j] by (auto simp: rblock_def arr_get_def)
  then show ?thesis using j e by (auto simp: remap_fits_def)
qed

text \<open>Remapping a user block that the layer has looked up.\<close>

lemma pub_remap_sound:
  assumes "en_sound (bmtd w)" and "geom_ok w" and "m = pub_get_mapping_block (bmtd w) u" and "0 \<le> m"
    and "pub_remap_block D be u (nat m) n w = (r, w')"
  shows "en_sound (bmtd w')" and "v \<noteq> u \<Longrightarrow> pub_get_mapping_block (bmtd w') v = pub_get_mapping_block (bmtd w) v"
proof -
  let ?b = "bmtd w" and ?g = "\<lambda>v. get_mapping_block_bbt (en75 (bmtd w)) (int v)"
  have inv: "en_inv ?b" and tot: "total_blks ?b < 65536" using assms(1,2) by (simp_all add: en_sound_def geom_ok_def)
  have g: "0 \<le> ?g u" "?g u < int (reserve_area_begin (en75 ?b))" "?g u = bbt_shift (bbt_used (en75 ?b)) (int u)"
    using assms(3,4) by (auto simp: pub_get_mapping_block_def get_mapping_block_def get_mapping_block_bbt_used Let_def split: if_splits)
  have le: "reserve_area_begin (en75 ?b) \<le> total_blks ?b" using inv by (simp add: en_inv_def)
  define blk where "blk = nat (?g u)"
  have blk: "u16_of_int (?g u) = blk" "int blk = ?g u" "blk < reserve_area_begin (en75 ?b)" using g le tot by (auto simp: blk_def)
  have mm: "m = (case bmt_lookup (en75 ?b) (int blk) of None \<Rightarrow> int blk | Some t \<Rightarrow> int t)"
    unfolding blk(2) using assms(3) g(1) by (simp add: pub_get_mapping_block_def get_mapping_block_def Let_def)
  have "en_sound (bmtd w') \<and> (v \<noteq> u \<longrightarrow> pub_get_mapping_block (bmtd w') v = pub_get_mapping_block (bmtd w) v)"
    using assms(5)
  proof (cases rule: pub_remap_cases)
    case 1
    then show ?thesis using en_step_sound [OF _ assms(1)] en_step_mapping by metis
  next
    case (2 i w1 mapped)
    note mapped = 2(7) [folded en75_ctx, unfolded blk(1)]
    have fits: "remap_fits ?b blk mapped"
      by (rule remap_fits_lookup [OF inv blk(3) _ mapped]) (simp add: mm split: option.split)
    obtain x where "bmtd w1 = ?b\<lparr>data_buf := x, en75 := ctx w1\<rparr>" using en_frame_ctx [OF 2(4)] by blast
    then have w1: "bmtd w1 = ?b\<lparr>data_buf := x, en75 := remap_ctx i mapped blk (en75 ?b)\<rparr>" using 2(5) blk(1) by (simp add: en75_ctx)
    have b2: "bmth_size (en_bmt (en75 ?b)) \<noteq> 255" using 2(2) by (simp add: en75_ctx)
    have same: "get_mapping_block_bbt (en75 (bmtd w1)) = get_mapping_block_bbt (en75 ?b)" by (simp add: w1 fun_eq_iff get_mapping_block_bbt_used)
    note s = remap_ctx_sound [OF assms(1) 2(1) b2 blk(3) w1 fits]
    have "pub_get_mapping_block (bmtd w1) v = pub_get_mapping_block (bmtd w) v" if "v \<noteq> u"
    proof (cases "0 \<le> ?g v")
      case True
      then have "nat (?g v) \<noteq> blk" using get_mapping_bbt_inj [of "en75 ?b" u v] g(1) that True blk(2) by (metis int_nat_eq)
      then have "bmt_lookup (en75 (bmtd w1)) (?g v) = bmt_lookup (en75 ?b) (?g v)" using s(2) [of "nat (?g v)"] True by simp
      then show ?thesis using same by (simp add: pub_get_mapping_block_def get_mapping_block_def Let_def)
    qed (use same in \<open>simp add: pub_get_mapping_block_def get_mapping_block_def Let_def\<close>)
    then show ?thesis using en_step_sound [OF 2(6) s(1)] en_step_mapping [OF 2(6)] by simp
  qed
  then show "en_sound (bmtd w')" "v \<noteq> u \<Longrightarrow> pub_get_mapping_block (bmtd w') v = pub_get_mapping_block (bmtd w) v" by blast+
qed

section \<open>The shift over factory bad blocks\<close>

lemma bbt_shift_small: "(\<And>x. x \<in> set xs \<Longrightarrow> b < int x) \<Longrightarrow> bbt_shift xs b = b"
proof (induction xs)
  case (Cons x xs)
  then have "\<not> int x \<le> b" by (simp add: not_le)
  then show ?case using Cons by simp
qed simp

lemma bbt_shift_ge: "b \<le> bbt_shift xs b"
  by (induction xs b rule: bbt_shift.induct) (auto split: if_splits)

text \<open>With the table in ascending order the result is a good block, with as many bad ones below it as it was moved.\<close>

lemma bbt_shift_moved:
  assumes "sorted_wrt (<) xs"
  shows "bbt_shift xs n \<notin> int ` set xs \<and> bbt_shift xs n = n + int (length (filter (\<lambda>x. int x < bbt_shift xs n) xs))"
  using assms
proof (induction xs arbitrary: n)
  case (Cons x xs)
  show ?case
  proof (cases "int x \<le> n")
    case True
    have "n + 1 \<le> bbt_shift xs (n + 1)" by (rule bbt_shift_ge)
    with Cons.IH [of "n + 1"] Cons.prems True show ?thesis by auto
  next
    case False
    then have "n < int y" if "y \<in> set xs" for y using Cons.prems that by force
    then have "bbt_shift xs n = n" "filter (\<lambda>y. int y < n) xs = []" by (auto intro!: bbt_shift_small simp: filter_empty_conv) force
    then show ?thesis using False \<open>\<And>y. y \<in> set xs \<Longrightarrow> n < int y\<close> by auto
  qed
qed simp

lemma good_below:
  assumes "sorted_wrt (<) xs"
  shows "card ({..<nat (bbt_shift xs (int n))} - set xs) = n"
proof -
  let ?m = "nat (bbt_shift xs (int n))"
  have m: "bbt_shift xs (int n) = int ?m" using bbt_shift_ge [of "int n" xs] by simp
  have d: "distinct xs" using assms strict_sorted_iff by blast
  have "set xs \<inter> {..<?m} = set (filter (\<lambda>x. int x < bbt_shift xs (int n)) xs)" using m by auto
  then have "card (set xs \<inter> {..<?m}) = length (filter (\<lambda>x. int x < bbt_shift xs (int n)) xs)" using distinct_card [OF distinct_filter [OF d]] by simp
  then have "?m = n + card (set xs \<inter> {..<?m})" using bbt_shift_moved [OF assms, of "int n"] m by linarith
  moreover have "card ({..<?m} - set xs) = ?m - card (set xs \<inter> {..<?m})" by (simp add: card_Diff_subset_Int Int_commute)
  ultimately show ?thesis by linarith
qed

section \<open>Properties\<close>

text \<open>
  A chip of 16 blocks for the witnesses: the last four are the reserve area, block 3 is a factory bad block and block 5
  is worn and on block 14.
\<close>

definition ex_en :: bmt_desc where
  "ex_en = ex_desc\<lparr>total_blks := 16, en75 := en75_zero\<lparr>reserve_area_begin := 12, can_remap_ranges := [(0, 12)],
     rblocks := [\<lparr>bi_index = 15, bi_status = BS_AVAILABLE\<rparr>, \<lparr>bi_index = 14, bi_status = BS_MAPPED\<rparr>,
       \<lparr>bi_index = 13, bi_status = BS_AVAILABLE\<rparr>, \<lparr>bi_index = 12, bi_status = BS_BBT\<rparr>],
     en_bbt := (en_bbt en75_zero)\<lparr>bbth_signature := bytes_of ''RAWB'', bbth_version := 1, bbth_size := 1, bbt_entries := 3 # replicate 999 0\<rparr>,
     en_bmt := (en_bmt en75_zero)\<lparr>bmth_signature := bytes_of ''BMT'', bmth_version := 1, bmth_size := 1,
       bmt_entries := \<lparr>en_from = 5, en_to = 14\<rparr> # replicate 255 \<lparr>en_from = 0, en_to = 0\<rparr>\<rparr>\<rparr>\<rparr>"

lemma ex_en_used: "bbt_used (en75 ex_en) = [3]" "bmt_used (en75 ex_en) = [\<lparr>en_from = 5, en_to = 14\<rparr>]"
  "reserve_area_begin (en75 ex_en) = 12" "total_blks ex_en = 16"
  by (simp_all add: ex_en_def bbt_used_def bmt_used_def)

lemma ex_en_inv: "en_inv ex_en"
  by (simp add: en_inv_def ex_en_used) (simp add: ex_en_def upt_rec)

lemma ex_en_sound: "en_sound ex_en"
  by (simp add: en_sound_def ex_en_inv ex_en_used is_mapped_def pos_of_def) (simp add: ex_en_def rblock_def arr_get_def)

lemma ex_en_geom: "geom_ok \<lparr>dev = d, mtd = ex_mtd, bmtd = ex_en\<rparr>"
  by (simp add: geom_ok_def ex_en_def ex_desc_def ex_mtd_def)

lemma ex_en_mapping: "pub_get_mapping_block ex_en 4 = 14"
  by (simp add: pub_get_mapping_block_def get_mapping_block_def get_mapping_block_bbt_used bmt_lookup_used ex_en_used)

text \<open>
  C8. The factory bad block table maps user block \<open>n\<close> to the good block number \<open>n\<close> of the user area: with the table in
  ascending order the result is a good block with exactly \<open>n\<close> good blocks below it, and it is an error
  exactly when the user area has no more than \<open>n\<close> good blocks.
\<close>

theorem en75_bbt_mapping_spec:
  assumes "sorted_wrt (<) (bbt_used c)" and "bad = set (bbt_used c)" and "m = get_mapping_block_bbt c (int n)"
  shows "if n < card ({..<reserve_area_begin c} - bad)
    then 0 \<le> m \<and> m < int (reserve_area_begin c) \<and> nat m \<notin> bad \<and> card ({..<nat m} - bad) = n
    else m = - EINVAL"
proof -
  let ?s = "bbt_shift (bbt_used c) (int n)"
  have pos: "0 \<le> ?s" using bbt_shift_ge [of "int n" "bbt_used c"] by linarith
  have r: "card ({..<nat ?s} - bad) = n" using good_below [OF assms(1)] assms(2) by simp
  have nb: "nat ?s \<notin> bad" using bbt_shift_moved [OF assms(1), of "int n"] pos assms(2) by (metis image_eqI int_nat_eq)
  show ?thesis
  proof (cases "?s < int (reserve_area_begin c)")
    case True
    then have "insert (nat ?s) ({..<nat ?s} - bad) \<subseteq> {..<reserve_area_begin c} - bad" using nb pos by auto
    from card_mono [OF _ this] have "n < card ({..<reserve_area_begin c} - bad)" using r by simp
    then show ?thesis using True pos nb r assms(3) by (simp add: get_mapping_block_bbt_used)
  next
    case False
    then have "{..<reserve_area_begin c} - bad \<subseteq> {..<nat ?s} - bad" by auto
    from card_mono [OF _ this] have "\<not> n < card ({..<reserve_area_begin c} - bad)" using r by simp
    then show ?thesis using False assms(3) by (simp add: get_mapping_block_bbt_used)
  qed
qed

theorem en75_bbt_mapping_spec_witness:
  "nat (get_mapping_block_bbt (en75 ex_en) (int 7)) \<notin> {3} \<and> card ({..<nat (get_mapping_block_bbt (en75 ex_en) (int 7))} - {3}) = 7 \<and>
   get_mapping_block_bbt (en75 ex_en) (int 11) = - EINVAL"
proof -
  have c: "card ({..<12} - {3 :: nat}) = 11" by (simp add: card_Diff_singleton)
  show ?thesis
    using en75_bbt_mapping_spec [of "en75 ex_en" "{3}" "get_mapping_block_bbt (en75 ex_en) (int 7)" 7]
      en75_bbt_mapping_spec [of "en75 ex_en" "{3}" "get_mapping_block_bbt (en75 ex_en) (int 11)" 11]
    by (simp add: ex_en_used c)
qed

text \<open>
  C7. Remapping keeps every user block on a block of its own: after a remap of a block that the layer has
  looked up, whatever the driver reports, two user blocks are never on the same block of the chip, all
  other user blocks are where they were, and the tables stay sound.
\<close>

theorem en75_remap_keeps_distinct:
  assumes "en_sound (bmtd w)" and "geom_ok w" and "m = pub_get_mapping_block (bmtd w) u" and "0 \<le> m"
    and "pub_remap_block D be u (nat m) n w = (r, w')"
  shows "en_sound (bmtd w') \<and> inj_on (pub_get_mapping_block (bmtd w')) {v. 0 \<le> pub_get_mapping_block (bmtd w') v} \<and>
    (\<forall>v. v \<noteq> u \<longrightarrow> pub_get_mapping_block (bmtd w') v = pub_get_mapping_block (bmtd w) v)"
  using pub_remap_sound [OF assms] mapping_inj by (auto simp: inj_on_def)

theorem en75_remap_keeps_distinct_witness:
  "\<exists>r w'. pub_remap_block log_drv False 4 14 4096 \<lparr>dev = [], mtd = ex_mtd, bmtd = ex_en\<rparr> = (r, w') \<and> en_sound (bmtd w') \<and>
     pub_get_mapping_block (bmtd w') 3 = pub_get_mapping_block ex_en 3"
proof -
  let ?w = "\<lparr>dev = ([] :: nand_event list), mtd = ex_mtd, bmtd = ex_en\<rparr>"
  obtain r w' where r: "pub_remap_block log_drv False 4 14 4096 ?w = (r, w')" by fastforce
  then show ?thesis
    using en75_remap_keeps_distinct [of ?w 14 4 log_drv False 4096 r w'] ex_en_sound ex_en_mapping by (simp add: ex_en_geom)
qed

text \<open>
  A write through the layer over this back end returns whatever the driver reports, keeps the
  invariant, and is 0 exactly when every byte was accepted.
\<close>

theorem en75_write_returns:
  assumes "en_inv (bmtd w)" and "geom_ok w" and "drv_write_full D" and "to + oo_len ops \<le> chip_size w"
    and "oo_len ops < 4294967296" and "oo_ooblen ops = 0" and "11 * oo_len ops + 10 < fuel"
  shows "\<exists>r ops' w'. mtk_bmt_write fuel D (en75_bmt_ops D be) to ops w = Some (r, ops', w') \<and>
    en_inv (bmtd w') \<and> geom w' = geom w \<and> (r = 0 \<longleftrightarrow> oo_retlen ops' = oo_len ops)"
  using en75.write_returns [OF assms] by blast

theorem en75_write_returns_witness:
  "\<exists>r ops' w'. mtk_bmt_write 56331 log_drv (en75_bmt_ops log_drv False) 16384 (oob_request 5120 0 0 (replicate 5120 0) [])
     \<lparr>dev = [], mtd = ex_mtd, bmtd = ex_en\<rparr> = Some (r, ops', w') \<and> (r = 0 \<longleftrightarrow> oo_retlen ops' = 5120)"
proof -
  have "drv_write_full log_drv" by (simp add: drv_write_full_def log_drv_def)
  moreover have "chip_size \<lparr>dev = ([] :: nand_event list), mtd = ex_mtd, bmtd = ex_en\<rparr> = 65536"
    by (simp add: chip_size_def ex_en_def ex_desc_def)
  ultimately show ?thesis
    using en75_write_returns [of "\<lparr>dev = [], mtd = ex_mtd, bmtd = ex_en\<rparr>" log_drv 16384
        "oob_request 5120 0 0 (replicate 5120 0) []" 56331 False] ex_en_inv
    by (auto simp: oob_request_def ex_en_geom)
qed

end
