(* ===== verification/En75_Init.thy ===== *)
theory En75_Init
  imports En75_Remap
begin

text \<open>
  Attaching the EcoNet back end (\<^verbatim>\<open>en75_bmt.c\<close>, from \<^verbatim>\<open>fdm_is_bad\<close> on): the scan of the reserve area, which finds
  the tables on the flash, their reconstruction, the factory bad blocks of the device tree and \<^verbatim>\<open>w_init\<close>.

  The device tree node is a record. Small allocations succeed; the array of the reserve area is
  allocated when \<open>mem\<close> holds.
\<close>

section \<open>The spare area\<close>

datatype block_is_bad = BB_GOOD | BB_FACTORY_BAD | BB_WORN | BB_UNKNOWN_BAD

definition fdm_at :: "byte list \<Rightarrow> nat \<Rightarrow> byte" where
  "fdm_at fdm i = arr_get 0 fdm i"

definition fdm_is_bad :: "byte list \<Rightarrow> block_is_bad" where
  "fdm_is_bad fdm =
     (if fdm_at fdm 0 = 0xff \<and> fdm_at fdm 1 = 0xff then BB_GOOD
      else if fdm_at fdm 0 = BLOCK_WORN_MARK then BB_WORN
      else if fdm_at fdm 0 = 0 \<or> fdm_at fdm 1 = 0 then BB_FACTORY_BAD
      else BB_UNKNOWN_BAD)"

definition fdm_is_mapped :: "byte list \<Rightarrow> bool" where
  "fdm_is_mapped fdm \<longleftrightarrow> fdm_at fdm 0 = 0xff \<and> fdm_at fdm 1 = 0xff \<and> (fdm_at fdm 2 \<noteq> 0xff \<or> fdm_at fdm 3 \<noteq> 0xff)"

definition host16_val :: "bool \<Rightarrow> byte list \<Rightarrow> nat" where
  "host16_val be bs = (if be then be_val bs else le_val bs)"

definition host16_at :: "bool \<Rightarrow> byte list \<Rightarrow> nat \<Rightarrow> nat" where
  "host16_at be bs off = host16_val be (field off 2 bs)"

section \<open>Reconstruction\<close>

text \<open>
  The two \<^verbatim>\<open>memset\<close> calls begin at the header both: the second clears as many bytes as the table has, the
  header and all but the last five entries.
\<close>

definition blank_bmt :: "en_bmt_table \<Rightarrow> en_bmt_table" where
  "blank_bmt t =
     \<lparr>bmth_signature = bytes_of ''BMT'', bmth_version = 1, bmth_bad_count = 0, bmth_size = 0, bmth_checksum = 0,
      bmth_reserved = replicate 13 0, bmt_entries = replicate 251 \<lparr>en_from = 0, en_to = 0\<rparr> @ drop 251 (bmt_entries t)\<rparr>"

definition add_entry :: "nat \<Rightarrow> nat \<Rightarrow> en_bmt_table \<Rightarrow> en_bmt_table" where
  "add_entry block to t =
     t\<lparr>bmt_entries := (bmt_entries t)[bmth_size t := \<lparr>en_from = block, en_to = to\<rparr>], bmth_size := (bmth_size t + 1) mod 256\<rparr>"

definition reconstruct_bmt_block :: "'d nand_drv \<Rightarrow> bool \<Rightarrow> nat \<Rightarrow> 'd bmt_world \<Rightarrow> 'd bmt_world" where
  "reconstruct_bmt_block D be i w =
     (let (ret, _, fdm, w1) = bbt_nand_read D (blk_pg (bmtd w) i) (pg_size (bmtd w)) 4 w
      in if ret < 0 \<or> fdm_is_bad fdm \<noteq> BB_GOOD then w1
         else
           let mapped_block = host16_at be fdm 2
           in if mapped_block \<ge> reserve_area_begin (ctx w) then w1
              else upd_ctx (\<lambda>c. c\<lparr>en_bmt := add_entry mapped_block i (en_bmt c)\<rparr>) w1)"

definition r_reconstruct_bmt :: "'d nand_drv \<Rightarrow> bool \<Rightarrow> 'd bmt_world \<Rightarrow> 'd bmt_world" where
  "r_reconstruct_bmt D be w =
     (let w1 = upd_ctx (\<lambda>c. c\<lparr>en_bmt := blank_bmt (en_bmt c), bmt_dirty := s8 (bmt_dirty c + 1)\<rparr>) w
      in fold (reconstruct_bmt_block D be) (rev [reserve_area_begin (ctx w1)..<total_blks (bmtd w1)]) w1)"

definition blank_bbt :: en_bbt_table where
  "blank_bbt =
     \<lparr>bbth_signature = bytes_of ''RAWB'', bbth_checksum = 0xffffffff, bbth_version = 1, bbth_size = 0,
      bbth_reserved = replicate 2 0xff, bbt_entries = replicate 1000 0\<rparr>"

definition add_bad :: "nat \<Rightarrow> en_bbt_table \<Rightarrow> en_bbt_table" where
  "add_bad block t = t\<lparr>bbt_entries := (bbt_entries t)[bbth_size t := u16 block], bbth_size := (bbth_size t + 1) mod 256\<rparr>"

definition reconstruct_bbt_block :: "'d nand_drv \<Rightarrow> nat \<Rightarrow> 'd bmt_world \<Rightarrow> 'd bmt_world" where
  "reconstruct_bbt_block D i w =
     (if i \<in> en_from ` set (take (bmth_size (en_bmt (ctx w))) (bmt_entries (en_bmt (ctx w)))) then w
      else
        let (ret, _, fdm, w1) = bbt_nand_read D (blk_pg (bmtd w) i) (pg_size (bmtd w)) 4 w
        in if ret = 0 \<and> (fdm_is_bad fdm = BB_GOOD \<or> fdm_is_bad fdm = BB_WORN) then w1
           else upd_ctx (\<lambda>c. c\<lparr>en_bbt := add_bad i (en_bbt c)\<rparr>) w1)"

definition r_reconstruct_bbt :: "'d nand_drv \<Rightarrow> 'd bmt_world \<Rightarrow> int \<times> 'd bmt_world" where
  "r_reconstruct_bbt D w =
     (if bmth_version (en_bmt (ctx w)) = 0 then (- EINVAL, w)
      else
        let w1 = upd_ctx (\<lambda>c. c\<lparr>en_bbt := blank_bbt\<rparr>) w;
            w2 = fold (reconstruct_bbt_block D) [0..<reserve_area_begin (ctx w1)] w1
        in (0, upd_ctx (\<lambda>c. c\<lparr>en_bbt := sort_bbt (en_bbt c)\<rparr>) w2))"

section \<open>The scan of the reserve area\<close>

definition block_is_erased :: "byte list \<Rightarrow> byte list \<Rightarrow> bool" where
  "block_is_erased dat oob \<longleftrightarrow> list_all (\<lambda>b. b = 0xff) dat \<and> list_all (\<lambda>b. b = 0xff) oob"

definition host16s :: "bool \<Rightarrow> nat \<Rightarrow> byte list \<Rightarrow> nat list" where
  "host16s be n bs = map (\<lambda>i. host16_at be bs (2 * i)) [0..<n]"

definition parse_bbt_bytes :: "bool \<Rightarrow> byte list \<Rightarrow> en_bbt_table" where
  "parse_bbt_bytes be buf =
     \<lparr>bbth_signature = take 4 buf, bbth_checksum = (if be then be32_at buf 4 else le32_at buf 4),
      bbth_version = u8_at buf 8, bbth_size = u8_at buf 9, bbth_reserved = field 10 2 buf,
      bbt_entries = host16s be 1000 (drop 12 buf)\<rparr>"

definition try_parse_bbt :: "bool \<Rightarrow> byte list \<Rightarrow> nat \<Rightarrow> en_bbt_table option" where
  "try_parse_bbt be buf len =
     (let t = parse_bbt_bytes be buf
      in if len < 2012 then None
         else if bbth_signature t \<noteq> bytes_of ''RAWB'' then None
         else if bbth_checksum t \<noteq> bbt_checksum t then None
         else Some (sort_bbt t))"

definition parse_bmt_bytes :: "bool \<Rightarrow> byte list \<Rightarrow> en_bmt_table" where
  "parse_bmt_bytes be buf =
     \<lparr>bmth_signature = take 3 buf, bmth_version = u8_at buf 3, bmth_bad_count = u8_at buf 4, bmth_size = u8_at buf 5,
      bmth_checksum = u8_at buf 6, bmth_reserved = field 7 13 buf,
      bmt_entries = map (\<lambda>i. \<lparr>en_from = host16_at be (drop 20 buf) (4 * i), en_to = host16_at be (drop 20 buf) (4 * i + 2)\<rparr>) [0..<256]\<rparr>"

definition try_parse_bmt :: "bool \<Rightarrow> byte list \<Rightarrow> nat \<Rightarrow> en_bmt_table option" where
  "try_parse_bmt be buf len =
     (let t = parse_bmt_bytes be buf
      in if len < 1044 then None
         else if bmth_signature t \<noteq> bytes_of ''BMT'' then None
         else if bmth_checksum t \<noteq> bmt_checksum t (bmth_size t) then None
         else Some t)"

fun read_tries :: "nat \<Rightarrow> 'd nand_drv \<Rightarrow> nat \<Rightarrow> 'd bmt_world \<Rightarrow> int \<times> byte list \<times> byte list \<times> 'd bmt_world" where
  "read_tries 0 D block w = (0, [], [], w)"
| "read_tries (Suc n) D block w =
     (let (ret, dat, fdm, w1) = bbt_nand_read D (blk_pg (bmtd w) block) (pg_size (bmtd w)) 4 w
      in if ret = 0 \<or> n = 0 then (ret, dat, fdm, w1) else read_tries n D block w1)"

text \<open>The state of a block, and the context when a table was found in it.\<close>

definition classify :: "bool \<Rightarrow> int \<Rightarrow> byte list \<Rightarrow> byte list \<Rightarrow> nat \<Rightarrow> en75_bmt_m \<Rightarrow> block_status \<times> en75_bmt_m" where
  "classify be ret dat fdm pg c =
     (if ret \<noteq> 0 \<or> fdm_is_bad fdm \<noteq> BB_GOOD then (BS_BAD, c)
      else if fdm_is_mapped fdm then (BS_MAPPED, c)
      else case try_parse_bbt be dat pg of
             Some t \<Rightarrow> (BS_BBT, c\<lparr>en_bbt := t\<rparr>)
           | None \<Rightarrow>
               (case try_parse_bmt be dat pg of
                  Some t \<Rightarrow> (BS_BMT, c\<lparr>en_bmt := t\<rparr>)
                | None \<Rightarrow> (if block_is_erased dat fdm then BS_AVAILABLE else BS_NEED_ERASE, c)))"

fun scan_reserve :: "nat \<Rightarrow> nat \<Rightarrow> 'd nand_drv \<Rightarrow> bool \<Rightarrow> nat \<Rightarrow> 'd bmt_world \<Rightarrow> (int + nat) \<times> 'd bmt_world" where
  "scan_reserve 0 required D be good w = (Inl (- ENOSPC), w)"
| "scan_reserve (Suc k) required D be good w =
     (let (ret, dat, fdm, w1) = read_tries 3 D (Suc k) w;
          (st, c) = classify be ret dat fdm (pg_size (bmtd w1)) (ctx w1);
          w2 = upd_ctx (\<lambda>_. c\<lparr>rblocks := rblocks c @ [\<lparr>bi_index = Suc k, bi_status = st\<rparr>]\<rparr>) w1;
          good' = good + (if st \<noteq> BS_BAD then 1 else 0)
      in if required \<le> good' then (Inr (Suc k), w2) else scan_reserve k required D be good' w2)"

text \<open>
  The array is filled from its start. The number of blocks is a \<^verbatim>\<open>u16\<close>; when it is 0, the cursor begins at -1 and
  the loop is not entered.
\<close>

definition r_scan_reserve :: "'d nand_drv \<Rightarrow> bool \<Rightarrow> bool \<Rightarrow> 'd bmt_world \<Rightarrow> int \<times> 'd bmt_world" where
  "r_scan_reserve D be mem w =
     (let total = u16 (total_blks (bmtd w))
      in if total = 0 then (0, upd_ctx (\<lambda>c. c\<lparr>reserve_area_begin := 65535\<rparr>) w)
         else if 1 < total \<and> \<not> mem then (- ENOMEM, upd_ctx (\<lambda>c. c\<lparr>rblocks := []\<rparr>) w)
         else
           case scan_reserve (total - 1) (total * 8 div 100) D be 0 (upd_ctx (\<lambda>c. c\<lparr>rblocks := []\<rparr>) w) of
             (Inl e, w1) \<Rightarrow> (e, w1)
           | (Inr cursor, w1) \<Rightarrow> (0, upd_ctx (\<lambda>c. c\<lparr>reserve_area_begin := cursor\<rparr>) w1))"

section \<open>Factory bad blocks\<close>

text \<open>
  The table is emptied from its end: the entry is overwritten by the last one, which is itself, and then
  cleared, before its block is erased.
\<close>

fun clear_bbt :: "'d nand_drv \<Rightarrow> nat list \<Rightarrow> nat \<Rightarrow> 'd bmt_world \<Rightarrow> 'd bmt_world" where
  "clear_bbt D blocks 0 w = w"
| "clear_bbt D blocks (Suc i) w =
     (let t = en_bbt (ctx w);
          keep = arr_get 0 (bbt_entries t) i \<in> set blocks;
          n = bbth_size t - 1;
          es = (bbt_entries t)[i := arr_get 0 (bbt_entries t) n];
          es' = es[n := 0];
          w1 = upd_ctx (\<lambda>c. c\<lparr>en_bbt := t\<lparr>bbt_entries := es', bbth_size := n\<rparr>\<rparr>) w
      in if keep then clear_bbt D blocks i w1
         else clear_bbt D blocks i (snd (w_erase_one D (arr_get 0 es' i) True w1)))"

definition unmap_factory :: "'d nand_drv \<Rightarrow> nat \<Rightarrow> 'd bmt_world \<Rightarrow> 'd bmt_world" where
  "unmap_factory D block w =
     (if get_mapping_block (ctx w) (s32 block) < int (reserve_area_begin (ctx w)) then w
      else snd (w_unmap_block D (u16 block) UE_NO_ERASE w))"

definition add_factory :: "'d nand_drv \<Rightarrow> nat \<Rightarrow> 'd bmt_world \<Rightarrow> 'd bmt_world" where
  "add_factory D block w =
     (if block \<in> set (take (bbth_size (en_bbt (ctx w))) (bbt_entries (en_bbt (ctx w)))) then w
      else snd (w_mark_bad D (u16 block) True (upd_ctx (\<lambda>c. c\<lparr>en_bbt := add_bad block (en_bbt c)\<rparr>) w)))"

definition w_factory_badblocks :: "'d nand_drv \<Rightarrow> nat list \<Rightarrow> 'd bmt_world \<Rightarrow> int \<times> 'd bmt_world" where
  "w_factory_badblocks D blocks w =
     (let c = ctx w; used = take (bbth_size (en_bbt c)) (bbt_entries (en_bbt c))
      in if bbth_version (en_bbt c) = 0 then (- EINVAL, w)
         else if bmth_version (en_bmt c) = 0 then (- EINVAL, w)
         else if list_ex (\<lambda>x. x \<ge> reserve_area_begin c) blocks then (- EINVAL, w)
         else if length blocks > 1000 then (- ENOSPC, w)
         else if \<not> can_write_factory_bbt c
         then (if bbth_size (en_bbt c) \<noteq> length blocks then (- EIO, w)
               else if list_all (\<lambda>x. x \<in> set used) blocks then (0, w) else (- EIO, w))
         else
           let w1 = clear_bbt D blocks (bbth_size (en_bbt c)) w;
               w2 = fold (unmap_factory D) blocks w1;
               w3 = fold (add_factory D) blocks w2
           in (0, upd_ctx (\<lambda>c. c\<lparr>en_bbt := sort_bbt (en_bbt c), bbt_dirty := s8 (bbt_dirty c + 1)\<rparr>) w3))"

section \<open>Attaching\<close>

text \<open>
  The properties of the device tree node; \<open>nd_badblocks\<close> is \<^const>\<open>None\<close> also when there are more than 32. A partition has the property
  that enables remapping or not, and perhaps its start and size.
\<close>

record en_node =
  nd_assert_size :: "nat option"
  nd_can_write :: bool
  nd_badblocks :: "nat list option"
  nd_enable_remap :: bool
  nd_partitions :: "(bool \<times> (nat \<times> nat) option) list"

definition add_remap_range :: "nat \<Rightarrow> nat \<Rightarrow> 'd bmt_world \<Rightarrow> int \<times> 'd bmt_world" where
  "add_remap_range begin_block size_blocks w =
     (if begin_block + size_blocks > reserve_area_begin (ctx w) then (- EINVAL, w)
      else (0, upd_ctx (\<lambda>c. c\<lparr>can_remap_ranges := can_remap_ranges c @ [(begin_block, u16 (begin_block + size_blocks))]\<rparr>) w))"

text \<open>The loop tests the property of the device, not the one of the partition.\<close>

definition partition_range :: "en_node \<Rightarrow> bool \<times> (nat \<times> nat) option \<Rightarrow> 'd bmt_world \<Rightarrow> 'd bmt_world" where
  "partition_range np part w =
     (if \<not> nd_enable_remap np then w
      else
        case snd part of
          None \<Rightarrow> w
        | Some (start, sz) \<Rightarrow>
            if start mod 2 ^ blk_shift (bmtd w) \<noteq> 0 then w
            else if sz mod 2 ^ blk_shift (bmtd w) \<noteq> 0 then w
            else snd (add_remap_range (u16 (start div 2 ^ blk_shift (bmtd w))) (u16 (sz div 2 ^ blk_shift (bmtd w))) w))"

definition init_tables :: "'d nand_drv \<Rightarrow> bool \<Rightarrow> bool \<Rightarrow> 'd bmt_world \<Rightarrow> int \<times> 'd bmt_world" where
  "init_tables D be factory w =
     (let has_bbt = (bbth_version (en_bbt (ctx w)) \<noteq> 0); has_bmt = (bmth_version (en_bmt (ctx w)) \<noteq> 0)
      in if has_bbt then (0, if has_bmt then w else r_reconstruct_bmt D be w)
         else if \<not> can_write_factory_bbt (ctx w) then (- EIO, w)
         else if factory then (0, if has_bmt then w else r_reconstruct_bmt D be w)
         else if has_bmt then r_reconstruct_bbt D w
         else r_reconstruct_bbt D (r_reconstruct_bmt D be w))"

definition usable_size :: "bmt_desc \<Rightarrow> nat" where
  "usable_size b = u64_of_int (s32 (u32_of_int ((int (reserve_area_begin (en75 b)) - int (bbth_size (en_bbt (en75 b)))) * 2 ^ blk_shift b)))"

definition w_init :: "'d nand_drv \<Rightarrow> bool \<Rightarrow> bool \<Rightarrow> en_node \<Rightarrow> 'd bmt_world \<Rightarrow> int \<times> 'd bmt_world" where
  "w_init D be mem np w =
     (let (ret, w1) = r_scan_reserve D be mem w
      in if ret \<noteq> 0 then (ret, w1)
         else if nd_assert_size np \<noteq> None \<and> nd_assert_size np \<noteq> Some (reserve_block_count (bmtd w1)) then (- EINVAL, w1)
         else
           let w2 = (if nd_can_write np then upd_ctx (\<lambda>c. c\<lparr>can_write_factory_bbt := True\<rparr>) w1 else w1);
               w3 = (if nd_enable_remap np then snd (add_remap_range 0 (reserve_area_begin (ctx w2)) w2)
                     else fold (partition_range np) (nd_partitions np) w2);
               (ret2, w4) = init_tables D be (nd_badblocks np \<noteq> None) w3
           in if ret2 \<noteq> 0 then (ret2, w4)
              else
                let (ret3, w5) = (case nd_badblocks np of None \<Rightarrow> (0, w4) | Some blocks \<Rightarrow> w_factory_badblocks D blocks w4)
                in if ret3 \<noteq> 0 then (ret3, w5)
                   else (0, w5\<lparr>mtd := (mtd w5)\<lparr>mtd_size := usable_size (bmtd w5)\<rparr>\<rparr>))"

definition pub_init :: "'d nand_drv \<Rightarrow> bool \<Rightarrow> bool \<Rightarrow> en_node \<Rightarrow> 'd bmt_world \<Rightarrow> int \<times> 'd bmt_world" where
  "pub_init D be mem np w =
     (let (ret, w1) = w_init D be mem np w in if ret = 0 then (0, snd (w_sync_tables D be w1)) else (ret, w1))"

section \<open>The tables on the flash\<close>

lemma length_host [simp]: "length (host16 be n) = 2" "length (host32 be n) = 4"
  by (simp_all add: host16_def host32_def)

lemma host16_val_host16 [simp]: "n < 65536 \<Longrightarrow> host16_val be (host16 be n) = n"
  by (simp add: host16_val_def host16_def be_val_def)

lemma length_host16s [simp]: "length (concat (map (host16 be) xs)) = 2 * length xs"
  by (induction xs) simp_all

lemma field_0_append [simp]: "length a = n \<Longrightarrow> field 0 n (a @ b) = a"
  by (simp add: field_def)

lemma field_append_add: "length a = k \<Longrightarrow> field (k + off) n (a @ b) = field off n b"
  by (simp add: field_def)

lemma host16_at_concat:
  "i < length xs \<Longrightarrow> xs ! i < 65536 \<Longrightarrow> host16_at be (concat (map (host16 be) xs) @ rest) (2 * i) = xs ! i"
proof (induction xs arbitrary: i)
  case (Cons x xs)
  show ?case
  proof (cases i)
    case (Suc j)
    have "field (2 + 2 * j) 2 (host16 be x @ (concat (map (host16 be) xs) @ rest)) = field (2 * j) 2 (concat (map (host16 be) xs) @ rest)"
      by (rule field_append_add) simp
    then show ?thesis using Cons Suc by (simp add: host16_at_def)
  qed (use Cons.prems in \<open>simp add: host16_at_def\<close>)
qed simp

lemma host16s_concat:
  "list_all (\<lambda>x. x < 65536) xs \<Longrightarrow> length xs = n \<Longrightarrow> host16s be n (concat (map (host16 be) xs) @ rest) = xs"
  by (rule nth_equalityI) (simp_all add: host16s_def host16_at_concat list_all_length)

lemma length_entry_words [simp]: "length (entry_words es) = 2 * length es"
  by (induction es) (simp_all add: entry_words_def)

lemma nth_entry_words: "i < length es \<Longrightarrow> entry_words es ! (2 * i) = en_from (es ! i) \<and> entry_words es ! (2 * i + 1) = en_to (es ! i)"
proof (induction es arbitrary: i)
  case (Cons e es)
  then show ?case by (cases i) (simp_all add: entry_words_def)
qed simp

definition bmt_wf :: "en_bmt_table \<Rightarrow> bool" where
  "bmt_wf t \<longleftrightarrow> bmth_signature t = bytes_of ''BMT'' \<and> list_all (\<lambda>x. x < 256) [bmth_version t, bmth_bad_count t, bmth_size t, bmth_checksum t] \<and>
     length (bmth_reserved t) = 13 \<and> length (bmt_entries t) = 256 \<and> list_all (\<lambda>x. x < 65536) (entry_words (bmt_entries t))"

definition bbt_wf :: "en_bbt_table \<Rightarrow> bool" where
  "bbt_wf t \<longleftrightarrow> bbth_signature t = bytes_of ''RAWB'' \<and> bbth_checksum t < 4294967296 \<and> list_all (\<lambda>x. x < 256) [bbth_version t, bbth_size t] \<and>
     length (bbth_reserved t) = 2 \<and> length (bbt_entries t) = 1000 \<and> list_all (\<lambda>x. x < 65536) (bbt_entries t)"

lemma bytes_sig: "bytes_of ''BMT'' = [66, 77, 84]" "bytes_of ''RAWB'' = [82, 65, 87, 66]"
  by (simp_all add: bytes_of_def)

lemma unat_byte [simp]: "n < 256 \<Longrightarrow> unat (word_of_nat n :: byte) = n"
  by (simp add: unat_of_nat)

lemma parse_bmt_bytes_inverse:
  assumes "bmt_wf t"
  shows "parse_bmt_bytes be (bmt_table_bytes be t @ rest) = t"
proof -
  let ?e = "concat (map (host16 be) (entry_words (bmt_entries t))) @ rest"
  let ?h = "[66, 77, 84, of_nat (bmth_version t), of_nat (bmth_bad_count t), of_nat (bmth_size t), of_nat (bmth_checksum t)] :: byte list"
  have b: "bmt_table_bytes be t @ rest = ?h @ bmth_reserved t @ ?e"
    using assms by (simp add: bmt_table_bytes_def bmt_wf_def bytes_sig)
  have l: "length (bmth_reserved t) = 13" using assms by (simp add: bmt_wf_def)
  have d: "drop 20 (bmt_table_bytes be t @ rest) = ?e" using l unfolding b by (simp add: numeral_eq_Suc)
  have f: "field 7 13 (bmt_table_bytes be t @ rest) = bmth_reserved t" using l unfolding b by (simp add: field_def)
  have u: "u8_at (?h @ x) 3 = bmth_version t" "u8_at (?h @ x) 4 = bmth_bad_count t" "u8_at (?h @ x) 5 = bmth_size t" "u8_at (?h @ x) 6 = bmth_checksum t" for x
    using assms by (simp_all add: u8_at_def arr_get_def nth_append bmt_wf_def)
  have e: "map (\<lambda>i. \<lparr>en_from = host16_at be ?e (4 * i), en_to = host16_at be ?e (4 * i + 2)\<rparr>) [0..<256] = bmt_entries t"
  proof (rule nth_equalityI)
    fix i assume "i < length (map (\<lambda>i. \<lparr>en_from = host16_at be ?e (4 * i), en_to = host16_at be ?e (4 * i + 2)\<rparr>) [0..<256])"
    then have i: "i < length (bmt_entries t)" "i < 256" using assms by (simp_all add: bmt_wf_def)
    have x: "j < 512 \<Longrightarrow> host16_at be ?e (2 * j) = entry_words (bmt_entries t) ! j" for j
      using assms by (intro host16_at_concat) (simp_all add: bmt_wf_def list_all_length)
    show "map (\<lambda>i. \<lparr>en_from = host16_at be ?e (4 * i), en_to = host16_at be ?e (4 * i + 2)\<rparr>) [0..<256] ! i = bmt_entries t ! i"
      using x [of "2 * i"] x [of "2 * i + 1"] i nth_entry_words [OF i(1)] by simp
  qed (use assms in \<open>simp add: bmt_wf_def\<close>)
  show ?thesis unfolding parse_bmt_bytes_def d f e unfolding b u using assms by (simp add: bmt_wf_def bytes_sig)
qed

lemma parse_bbt_bytes_inverse:
  assumes "bbt_wf t"
  shows "parse_bbt_bytes be (bbt_table_bytes be t @ rest) = t"
proof -
  let ?e = "concat (map (host16 be) (bbt_entries t)) @ rest"
  let ?s = "[82, 65, 87, 66] :: byte list"
  let ?v = "[of_nat (bbth_version t), of_nat (bbth_size t)] :: byte list"
  have b: "bbt_table_bytes be t @ rest = (?s @ host32 be (bbth_checksum t)) @ ?v @ bbth_reserved t @ ?e"
    using assms by (simp add: bbt_table_bytes_def bbt_wf_def bytes_sig)
  have l: "length (bbth_reserved t) = 2" using assms by (simp add: bbt_wf_def)
  have d: "drop 12 (bbt_table_bytes be t @ rest) = ?e" using l unfolding b by simp
  have f: "field 10 2 (bbt_table_bytes be t @ rest) = bbth_reserved t" using l unfolding b by (simp add: field_def)
  have k: "field 4 4 (bbt_table_bytes be t @ rest) = host32 be (bbth_checksum t)" unfolding b by (simp add: field_def)
  have c: "(if be then be32_at (bbt_table_bytes be t @ rest) 4 else le32_at (bbt_table_bytes be t @ rest) 4) = bbth_checksum t"
    using assms unfolding be32_at_def le32_at_def k by (simp add: host32_def be_val_def bbt_wf_def)
  have u: "u8_at (bbt_table_bytes be t @ rest) 8 = bbth_version t" "u8_at (bbt_table_bytes be t @ rest) 9 = bbth_size t"
    using assms unfolding b by (simp_all add: u8_at_def arr_get_def nth_append bbt_wf_def)
  have e: "host16s be 1000 ?e = bbt_entries t" using assms by (intro host16s_concat) (simp_all add: bbt_wf_def)
  have s: "take 4 (bbt_table_bytes be t @ rest) = bbth_signature t" using assms unfolding b by (simp add: bbt_wf_def bytes_sig)
  show ?thesis unfolding parse_bbt_bytes_def d f c u e s by simp
qed

lemma entry_words_all: "list_all P (entry_words es) \<longleftrightarrow> list_all (\<lambda>e. P (en_from e) \<and> P (en_to e)) es"
  by (induction es) (auto simp: entry_words_def)

lemma clear_entries_all: "list_all P es \<Longrightarrow> P \<lparr>en_from = 0, en_to = 0\<rparr> \<Longrightarrow> list_all P (clear_entries i n es)"
  by (simp add: list_all_length clear_entries_def)

lemma seal_bmt_wf:
  assumes "bmt_wf t"
  shows "bmt_wf (seal_bmt b t)" and "bmth_checksum (seal_bmt b t) = bmt_checksum (seal_bmt b t) (bmth_size (seal_bmt b t))"
proof -
  show "bmt_wf (seal_bmt b t)"
    using assms by (simp add: bmt_wf_def seal_bmt_def Let_def entry_words_all clear_entries_all bmt_checksum_def)
  show "bmth_checksum (seal_bmt b t) = bmt_checksum (seal_bmt b t) (bmth_size (seal_bmt b t))"
    by (simp add: seal_bmt_def Let_def bmt_checksum_def)
qed

lemma seal_bbt_wf:
  assumes "bbt_wf t"
  shows "bbt_wf (seal_bbt t)" and "bbth_checksum (seal_bbt t) = bbt_checksum (seal_bbt t)"
proof -
  have "bbt_checksum u < 65536" for u by (simp add: bbt_checksum_def)
  then have "bbt_checksum u < 4294967296" for u by (rule less_trans) simp
  then show "bbt_wf (seal_bbt t)" using assms by (auto simp: bbt_wf_def seal_bbt_def Let_def list_all_length)
  show "bbth_checksum (seal_bbt t) = bbt_checksum (seal_bbt t)" by (simp add: seal_bbt_def Let_def bbt_checksum_def)
qed

lemma try_parse_bmt_sealed:
  "bmt_wf t \<Longrightarrow> 1044 \<le> pg \<Longrightarrow> try_parse_bmt be (bmt_table_bytes be (seal_bmt b t) @ rest) pg = Some (seal_bmt b t)"
  using seal_bmt_wf [of t b] by (simp add: try_parse_bmt_def parse_bmt_bytes_inverse) (simp add: bmt_wf_def)

lemma sort_bbt_sorted: "sorted (take (bbth_size t) (bbt_entries t)) \<Longrightarrow> sort_bbt t = t"
  by (simp add: sort_bbt_def sorted_sort_id)

lemma try_parse_bbt_sealed:
  "bbt_wf t \<Longrightarrow> sorted (take (bbth_size t) (bbt_entries t)) \<Longrightarrow> 2012 \<le> pg \<Longrightarrow>
   try_parse_bbt be (bbt_table_bytes be (seal_bbt t) @ rest) pg = Some (seal_bbt t)"
  using seal_bbt_wf [of t] sort_bbt_sorted [of "seal_bbt t"] by (simp add: try_parse_bbt_def parse_bbt_bytes_inverse) (simp add: bbt_wf_def)

text \<open>A BMT is not taken for a BBT: the signatures differ.\<close>

lemma try_parse_bbt_bmt: "bmt_wf t \<Longrightarrow> try_parse_bbt be (bmt_table_bytes be t @ rest) pg = None"
  by (simp add: try_parse_bbt_def Let_def parse_bbt_bytes_def bmt_table_bytes_def bmt_wf_def bytes_sig)

section \<open>The scan\<close>

lemma read_tries_frame: "read_tries n D i w = (r, dat, fdm, w') \<Longrightarrow> mtd w' = mtd w \<and> bmtd w' = bmtd w"
proof (induction n D i w rule: read_tries.induct)
  case (2 n D i w)
  obtain r1 dat1 fdm1 w1 where "bbt_nand_read D (blk_pg (bmtd w) i) (pg_size (bmtd w)) 4 w = (r1, dat1, fdm1, w1)" by (metis prod_cases4)
  then show ?case using 2 bbt_nand_read_frame by (fastforce split: if_splits)
qed simp

definition ctx_tables :: "en75_bmt_m \<Rightarrow> en75_bmt_m \<Rightarrow> bool" where
  "ctx_tables c c' \<longleftrightarrow> (\<exists>s t. c' = c\<lparr>en_bbt := s, en_bmt := t\<rparr>)"

lemma classify_entries: "classify be ret dat fdm pg c = (st, c') \<Longrightarrow> length (bmt_entries (en_bmt c)) = 256 \<Longrightarrow> length (bmt_entries (en_bmt c')) = 256"
  by (auto simp: classify_def try_parse_bmt_def parse_bmt_bytes_def Let_def split: if_splits option.splits)

lemma classify_tables: "classify be ret dat fdm pg c = (st, c') \<Longrightarrow> ctx_tables c c'"
proof -
  have x: "c = c\<lparr>en_bbt := en_bbt c, en_bmt := en_bmt c\<rparr>" "c\<lparr>en_bbt := s\<rparr> = c\<lparr>en_bbt := s, en_bmt := en_bmt c\<rparr>" "c\<lparr>en_bmt := t\<rparr> = c\<lparr>en_bbt := en_bbt c, en_bmt := t\<rparr>" for s t
    by simp_all
  assume "classify be ret dat fdm pg c = (st, c')"
  then show ?thesis unfolding classify_def ctx_tables_def by (auto split: if_splits option.splits) (metis x)+
qed

definition goods :: "block_info list \<Rightarrow> nat" where
  "goods bs = length (filter (\<lambda>b. bi_status b \<noteq> BS_BAD) bs)"

lemma goods_simps [simp]: "goods [] = 0" "goods (b # bs) = (if bi_status b \<noteq> BS_BAD then 1 else 0) + goods bs"
  by (simp_all add: goods_def)

text \<open>The scan stops at the first block that makes the number of good ones large enough.\<close>

lemma scan_reserve_spec:
  assumes "scan_reserve k required D be good w = (Inr cur, w')"
  shows "\<exists>new z. 0 < cur \<and> cur \<le> k \<and> rblocks (ctx w') = rblocks (ctx w) @ new @ [z] \<and>
    map bi_index (new @ [z]) = rev [cur..<Suc k] \<and> required \<le> good + goods (new @ [z]) \<and> (new \<noteq> [] \<longrightarrow> good + goods new < required) \<and>
    en_frame w w' \<and> can_remap_ranges (ctx w') = can_remap_ranges (ctx w) \<and>
    (length (bmt_entries (en_bmt (ctx w))) = 256 \<longrightarrow> length (bmt_entries (en_bmt (ctx w'))) = 256)"
  using assms
proof (induction k required D be good w rule: scan_reserve.induct)
  case (2 k required D be good w)
  obtain r dat fdm w1 where r: "read_tries 3 D (Suc k) w = (r, dat, fdm, w1)" by (metis prod_cases4)
  obtain st c where c: "classify be r dat fdm (pg_size (bmtd w1)) (ctx w1) = (st, c)" by fastforce
  let ?z = "\<lparr>bi_index = Suc k, bi_status = st\<rparr>"
  let ?w2 = "upd_ctx (\<lambda>_. c\<lparr>rblocks := rblocks c @ [?z]\<rparr>) w1"
  let ?g = "good + (if st \<noteq> BS_BAD then 1 else 0)"
  have f1: "en_frame w w1" "ctx w1 = ctx w" using en_frame_same [OF read_tries_frame [OF r]] by simp_all
  have f2: "rblocks (ctx ?w2) = rblocks (ctx w) @ [?z]" "can_remap_ranges (ctx ?w2) = can_remap_ranges (ctx w)" "en_frame w ?w2"
    using classify_tables [OF c] f1 by (auto simp: ctx_tables_def intro: en_frame_trans)
  have f3: "length (bmt_entries (en_bmt (ctx w))) = 256 \<longrightarrow> length (bmt_entries (en_bmt (ctx ?w2))) = 256"
    using classify_entries [OF c] f1 by simp
  have step: "scan_reserve (Suc k) required D be good w =
      (if required \<le> ?g then (Inr (Suc k), ?w2) else scan_reserve k required D be ?g ?w2)"
    using r c by (simp add: Let_def)
  show ?case
  proof (cases "required \<le> ?g")
    case True
    with 2(2) step have "cur = Suc k" "w' = ?w2" by simp_all
    then show ?thesis using f2 f3 True by (intro exI [of _ "[]"] exI [of _ ?z]) simp
  next
    case False
    then have s: "scan_reserve k required D be ?g ?w2 = (Inr cur, w')" using step 2(2) by simp
    from 2(1) [OF r [symmetric] refl refl refl c [symmetric] refl refl refl False s]
    obtain new z where n: "0 < cur" "cur \<le> k" "rblocks (ctx w') = rblocks (ctx ?w2) @ new @ [z]"
      "map bi_index (new @ [z]) = rev [cur..<Suc k]" "required \<le> ?g + goods (new @ [z])" "new \<noteq> [] \<longrightarrow> ?g + goods new < required"
      "en_frame ?w2 w'" "can_remap_ranges (ctx w') = can_remap_ranges (ctx ?w2)"
      "length (bmt_entries (en_bmt (ctx ?w2))) = 256 \<longrightarrow> length (bmt_entries (en_bmt (ctx w'))) = 256" by blast
    then show ?thesis using f2 f3 False by (intro exI [of _ "?z # new"] exI [of _ z]) (auto intro: en_frame_trans)
  qed
qed simp

lemma scan_reserve_error: "scan_reserve k required D be good w = (Inl e, w') \<Longrightarrow> e = - ENOSPC"
  by (induction k required D be good w rule: scan_reserve.induct) (auto simp: Let_def split: prod.splits if_splits)

lemma r_scan_reserve_spec:
  assumes "r_scan_reserve D be mem w = (0, w')" and "0 < total_blks (bmtd w)" and "total_blks (bmtd w) < 65536"
  shows "\<exists>new z. 0 < reserve_area_begin (ctx w') \<and> reserve_area_begin (ctx w') < total_blks (bmtd w) \<and> rblocks (ctx w') = new @ [z] \<and>
    map bi_index (new @ [z]) = rev [reserve_area_begin (ctx w')..<total_blks (bmtd w)] \<and>
    total_blks (bmtd w) * 8 div 100 \<le> goods (new @ [z]) \<and> (new \<noteq> [] \<longrightarrow> goods new < total_blks (bmtd w) * 8 div 100) \<and>
    en_frame w w' \<and> can_remap_ranges (ctx w') = can_remap_ranges (ctx w) \<and>
    (length (bmt_entries (en_bmt (ctx w))) = 256 \<longrightarrow> length (bmt_entries (en_bmt (ctx w'))) = 256)"
proof -
  let ?t = "total_blks (bmtd w)"
  have t: "u16 ?t = ?t" using assms(3) by simp
  let ?w0 = "upd_ctx (\<lambda>c. c\<lparr>rblocks := []\<rparr>) w"
  obtain x w1 where s: "scan_reserve (?t - 1) (?t * 8 div 100) D be 0 ?w0 = (x, w1)" by fastforce
  have x0: "x = Inl e \<Longrightarrow> e = - ENOSPC" for e using scan_reserve_error s by blast
  have "\<not> (1 < ?t \<and> \<not> mem)" using assms by (auto simp: r_scan_reserve_def Let_def t split: if_splits)
  then obtain cur where c: "x = Inr cur" "w' = upd_ctx (\<lambda>c. c\<lparr>reserve_area_begin := cur\<rparr>) w1"
    using assms(1,2) s x0 by (cases x) (auto simp: r_scan_reserve_def Let_def t)
  have st: "Suc (?t - 1) = ?t" using assms(2) by simp
  from scan_reserve_spec [OF s [unfolded c(1)], unfolded st] obtain new z where n: "0 < cur" "cur \<le> ?t - 1" "rblocks (ctx w1) = new @ [z]"
      "map bi_index (new @ [z]) = rev [cur..<?t]" "?t * 8 div 100 \<le> goods (new @ [z])" "new \<noteq> [] \<longrightarrow> goods new < ?t * 8 div 100"
      "en_frame ?w0 w1" "can_remap_ranges (ctx w1) = can_remap_ranges (ctx w)"
      "length (bmt_entries (en_bmt (ctx w))) = 256 \<longrightarrow> length (bmt_entries (en_bmt (ctx w1))) = 256"
    by (auto simp del: map_append)
  have "en_frame w w'" unfolding c using n(7) by (meson en_frame_trans en_frame_upd)
  then show ?thesis using n c assms(2) by (intro exI [of _ new] exI [of _ z]) auto
qed

section \<open>Reconstruction\<close>

lemma upd_ctx_bmtd: "bmtd (upd_ctx f w) = (bmtd w)\<lparr>en75 := f (en75 (bmtd w))\<rparr>"
  by (simp add: upd_ctx_def)

text \<open>Adding an entry that leads into the reserve area keeps the invariant: when the table is full, its size wraps to 0.\<close>

lemma add_entry_inv:
  assumes "en_inv b" and "blk < reserve_area_begin (en75 b)" and "reserve_area_begin (en75 b) \<le> i" and "i < total_blks b"
  shows "en_inv (b\<lparr>en75 := (en75 b)\<lparr>en_bmt := add_entry blk i (en_bmt (en75 b))\<rparr>\<rparr>)"
proof -
  let ?t = "en_bmt (en75 b)"
  let ?e = "\<lparr>en_from = blk, en_to = i\<rparr>"
  have w: "length (bmt_entries ?t) = 256" "bmth_size ?t < 256" using assms(1) by (simp_all add: en_inv_def)
  have "take (bmth_size (add_entry blk i ?t)) (bmt_entries (add_entry blk i ?t)) =
      (if bmth_size ?t = 255 then [] else take (bmth_size ?t) (bmt_entries ?t) @ [?e])"
    using w by (simp add: add_entry_def take_Suc_conv_app_nth)
  then show ?thesis using assms w by (auto simp: en_inv_def bmt_used_def list_all_iff add_entry_def)
qed

lemma reconstruct_bmt_block_inv:
  assumes "en_inv (bmtd w)" and "reserve_area_begin (ctx w) \<le> i" and "i < total_blks (bmtd w)"
  shows "en_inv (bmtd (reconstruct_bmt_block D be i w)) \<and> en_frame w (reconstruct_bmt_block D be i w) \<and>
    reserve_area_begin (ctx (reconstruct_bmt_block D be i w)) = reserve_area_begin (ctx w) \<and>
    en_bbt (ctx (reconstruct_bmt_block D be i w)) = en_bbt (ctx w) \<and>
    can_remap_ranges (ctx (reconstruct_bmt_block D be i w)) = can_remap_ranges (ctx w)"
proof -
  obtain r dat fdm w1 where r: "bbt_nand_read D (blk_pg (bmtd w) i) (pg_size (bmtd w)) 4 w = (r, dat, fdm, w1)" by (metis prod_cases4)
  have f: "mtd w1 = mtd w" "bmtd w1 = bmtd w" "en_frame w w1" "ctx w1 = ctx w"
    using bbt_nand_read_frame [OF r] en_frame_same [of w1 w] by simp_all
  show ?thesis
  proof (cases "r < 0 \<or> fdm_is_bad fdm \<noteq> BB_GOOD \<or> host16_at be fdm 2 \<ge> reserve_area_begin (ctx w)")
    case True
    then have "reconstruct_bmt_block D be i w = w1" using r by (auto simp: reconstruct_bmt_block_def)
    then show ?thesis using f assms by simp
  next
    case False
    then have e: "reconstruct_bmt_block D be i w = upd_ctx (\<lambda>c. c\<lparr>en_bmt := add_entry (host16_at be fdm 2) i (en_bmt c)\<rparr>) w1"
      using r by (auto simp: reconstruct_bmt_block_def)
    show ?thesis unfolding e using f assms False add_entry_inv [OF assms(1), of "host16_at be fdm 2" i]
      by (auto simp: upd_ctx_bmtd ctx_def intro: en_frame_trans)
  qed
qed

lemma reconstruct_fold_inv:
  assumes "en_inv (bmtd w)" and "list_all (\<lambda>i. reserve_area_begin (ctx w) \<le> i \<and> i < total_blks (bmtd w)) is"
    and "w' = fold (reconstruct_bmt_block D be) is w"
  shows "en_inv (bmtd w') \<and> en_frame w w' \<and> reserve_area_begin (ctx w') = reserve_area_begin (ctx w) \<and>
    en_bbt (ctx w') = en_bbt (ctx w) \<and> can_remap_ranges (ctx w') = can_remap_ranges (ctx w)"
  using assms
proof (induction "is" arbitrary: w)
  case (Cons i xs)
  let ?w1 = "reconstruct_bmt_block D be i w"
  have 1: "en_inv (bmtd ?w1)" "en_frame w ?w1" "reserve_area_begin (ctx ?w1) = reserve_area_begin (ctx w)" "en_bbt (ctx ?w1) = en_bbt (ctx w)"
      "can_remap_ranges (ctx ?w1) = can_remap_ranges (ctx w)"
    using reconstruct_bmt_block_inv [of w i D be] Cons.prems by auto
  then show ?case using Cons.IH [of ?w1] Cons.prems en_frame_total [OF 1(2)] by (auto intro: en_frame_trans)
qed simp

lemma r_reconstruct_bmt_inv:
  assumes "reserve_area_begin (ctx w) \<le> total_blks (bmtd w)" and "map bi_index (rblocks (ctx w)) = rev [reserve_area_begin (ctx w)..<total_blks (bmtd w)]"
    and "length (bmt_entries (en_bmt (ctx w))) = 256"
  shows "en_inv (bmtd (r_reconstruct_bmt D be w)) \<and> reserve_area_begin (ctx (r_reconstruct_bmt D be w)) = reserve_area_begin (ctx w)"
proof -
  let ?w1 = "upd_ctx (\<lambda>c. c\<lparr>en_bmt := blank_bmt (en_bmt c), bmt_dirty := s8 (bmt_dirty c + 1)\<rparr>) w"
  have 1: "en_inv (bmtd ?w1)" using assms by (simp add: en_inv_def upd_ctx_bmtd blank_bmt_def bmt_used_def ctx_def)
  have 2: "list_all (\<lambda>i. reserve_area_begin (ctx ?w1) \<le> i \<and> i < total_blks (bmtd ?w1)) (rev [reserve_area_begin (ctx ?w1)..<total_blks (bmtd ?w1)])"
    by (simp add: list_all_iff)
  show ?thesis using reconstruct_fold_inv [OF 1 2 refl, of D be] by (simp add: r_reconstruct_bmt_def Let_def)
qed

lemma r_reconstruct_bmt_kept:
  "en_bbt (ctx (r_reconstruct_bmt D be w)) = en_bbt (ctx w)" "can_remap_ranges (ctx (r_reconstruct_bmt D be w)) = can_remap_ranges (ctx w)"
proof -
  have one: "en_bbt (ctx (reconstruct_bmt_block D be i w)) = en_bbt (ctx w) \<and> can_remap_ranges (ctx (reconstruct_bmt_block D be i w)) = can_remap_ranges (ctx w)"
    for i and w :: "'a bmt_world"
    by (auto simp: reconstruct_bmt_block_def Let_def ctx_def upd_ctx_bmtd split: prod.splits dest!: bbt_nand_read_frame)
  have "en_bbt (ctx (fold (reconstruct_bmt_block D be) is w)) = en_bbt (ctx w) \<and>
      can_remap_ranges (ctx (fold (reconstruct_bmt_block D be) is w)) = can_remap_ranges (ctx w)" for "is" and w :: "'a bmt_world"
    by (induction "is" arbitrary: w) (simp_all add: one)
  then show "en_bbt (ctx (r_reconstruct_bmt D be w)) = en_bbt (ctx w)" "can_remap_ranges (ctx (r_reconstruct_bmt D be w)) = can_remap_ranges (ctx w)"
    by (simp_all add: r_reconstruct_bmt_def Let_def)
qed

lemma r_reconstruct_bbt_kept: "r_reconstruct_bbt D w = (r, w') \<Longrightarrow> can_remap_ranges (ctx w') = can_remap_ranges (ctx w)"
proof -
  have one: "can_remap_ranges (ctx (reconstruct_bbt_block D i w)) = can_remap_ranges (ctx w)" for i and w :: "'a bmt_world"
    by (auto simp: reconstruct_bbt_block_def Let_def ctx_def upd_ctx_bmtd split: prod.splits dest!: bbt_nand_read_frame)
  have "can_remap_ranges (ctx (fold (reconstruct_bbt_block D) is w)) = can_remap_ranges (ctx w)" for "is" and w :: "'a bmt_world"
    by (induction "is" arbitrary: w) (simp_all add: one)
  then show "r_reconstruct_bbt D w = (r, w') \<Longrightarrow> can_remap_ranges (ctx w') = can_remap_ranges (ctx w)"
    by (auto simp: r_reconstruct_bbt_def Let_def split: if_splits)
qed

lemma init_tables_kept: "init_tables D be f w = (r, w') \<Longrightarrow> can_remap_ranges (ctx w') = can_remap_ranges (ctx w)"
  by (auto simp: init_tables_def Let_def r_reconstruct_bmt_kept split: if_splits dest: r_reconstruct_bbt_kept)

section \<open>Factory bad blocks\<close>

lemma same_ctx: "mtd w' = mtd w \<and> bmtd w' = bmtd w \<Longrightarrow> ctx w' = ctx w"
  by (simp add: ctx_def)

lemma clear_bbt_kept: "can_remap_ranges (ctx (clear_bbt D blocks n w)) = can_remap_ranges (ctx w)"
proof (induction D blocks n w rule: clear_bbt.induct)
  case (2 D blocks i w)
  have e: "ctx (snd (w_erase_one D x u w)) = ctx w" for x u and w :: "'a bmt_world"
    by (cases "w_erase_one D x u w") (simp add: same_ctx [OF w_erase_one_frame])
  show ?case using 2 by (simp add: Let_def e)
qed simp

lemma unmap_factory_kept: "can_remap_ranges (ctx (unmap_factory D b w)) = can_remap_ranges (ctx w)"
  by (auto simp: unmap_factory_def w_unmap_block_def Let_def split: prod.splits option.splits if_splits dest!: w_erase_one_frame)

lemma add_factory_kept: "can_remap_ranges (ctx (add_factory D b w)) = can_remap_ranges (ctx w)"
proof -
  have e: "ctx (snd (w_mark_bad D x u w)) = ctx w" for x u and w :: "'a bmt_world"
    by (cases "w_mark_bad D x u w") (simp add: same_ctx [OF w_mark_bad_frame])
  show ?thesis by (simp add: add_factory_def e)
qed

lemma w_factory_badblocks_kept: "can_remap_ranges (ctx (snd (w_factory_badblocks D blocks w))) = can_remap_ranges (ctx w)"
proof -
  have u: "can_remap_ranges (ctx (fold (unmap_factory D) bs w)) = can_remap_ranges (ctx w)" for bs and w :: "'a bmt_world"
    by (induction bs arbitrary: w) (simp_all add: unmap_factory_kept)
  have a: "can_remap_ranges (ctx (fold (add_factory D) bs w)) = can_remap_ranges (ctx w)" for bs and w :: "'a bmt_world"
    by (induction bs arbitrary: w) (simp_all add: add_factory_kept)
  show ?thesis by (simp add: w_factory_badblocks_def Let_def u a clear_bbt_kept)
qed

lemma w_init_kept:
  assumes "\<not> nd_enable_remap np" and "w_init D be mem np w = (0, w')" and "0 < total_blks (bmtd w)" and "total_blks (bmtd w) < 65536"
  shows "can_remap_ranges (ctx w') = can_remap_ranges (ctx w)"
proof -
  obtain r1 w1 where 1: "r_scan_reserve D be mem w = (r1, w1)" by fastforce
  let ?w2 = "if nd_can_write np then upd_ctx (\<lambda>c. c\<lparr>can_write_factory_bbt := True\<rparr>) w1 else w1"
  obtain r4 w4 where 4: "init_tables D be (nd_badblocks np \<noteq> None) ?w2 = (r4, w4)" by fastforce
  have "r1 = 0" using assms(2) 1 by (auto simp: w_init_def split: if_splits)
  then have k1: "can_remap_ranges (ctx w1) = can_remap_ranges (ctx w)" using r_scan_reserve_spec [OF _ assms(3,4)] 1 by blast
  have "fold (partition_range np) ps x = x" for ps and x :: "'a bmt_world"
    using assms(1) by (induction ps) (simp_all add: partition_range_def)
  then have "w_init D be mem np w = (if nd_assert_size np \<noteq> None \<and> nd_assert_size np \<noteq> Some (reserve_block_count (bmtd w1)) then (- EINVAL, w1)
      else if r4 \<noteq> 0 then (r4, w4) else
        (let (ret3, w5) = (case nd_badblocks np of None \<Rightarrow> (0, w4) | Some blocks \<Rightarrow> w_factory_badblocks D blocks w4)
         in if ret3 \<noteq> 0 then (ret3, w5) else (0, w5\<lparr>mtd := (mtd w5)\<lparr>mtd_size := usable_size (bmtd w5)\<rparr>\<rparr>)))"
    using assms(1) 1 4 \<open>r1 = 0\<close> by (simp add: w_init_def)
  moreover have "ctx (x\<lparr>mtd := m\<rparr>) = ctx x" for x :: "'a bmt_world" and m by (simp add: ctx_def)
  moreover have "w_factory_badblocks D bs w4 = (r, x) \<Longrightarrow> can_remap_ranges (ctx x) = can_remap_ranges (ctx w4)" for bs r x
    using w_factory_badblocks_kept [of D bs w4] by simp
  ultimately have "can_remap_ranges (ctx w') = can_remap_ranges (ctx w4)"
    using assms(2) by (auto split: if_splits option.splits prod.splits)
  also have "\<dots> = can_remap_ranges (ctx w1)" using init_tables_kept [OF 4] by auto
  finally show ?thesis using k1 by simp
qed

section \<open>Properties\<close>

text \<open>An erased chip of 16 blocks, with some tables in the context.\<close>

definition ex_chip16 :: "en_bbt_table \<Rightarrow> en_bmt_table \<Rightarrow> nand_event list bmt_world" where
  "ex_chip16 s t = \<lparr>dev = [], mtd = ex_mtd, bmtd = ex_desc\<lparr>total_blks := 16, en75 := en75_zero\<lparr>en_bbt := s, en_bmt := t\<rparr>\<rparr>\<rparr>"

lemma ex_chip16_simps: "total_blks (bmtd (ex_chip16 s t)) = 16" "en75 (bmtd (ex_chip16 s t)) = en75_zero\<lparr>en_bbt := s, en_bmt := t\<rparr>"
  "can_remap_ranges (en75 (bmtd (ex_chip16 s t))) = []"
  by (simp_all add: ex_chip16_def ex_desc_def en75_zero_def)

lemma ex_chip16_scan:
  "\<exists>w. r_scan_reserve log_drv be True (ex_chip16 s t) = (0, w) \<and>
     en75 (bmtd w) = en75_zero\<lparr>en_bbt := s, en_bmt := t, reserve_area_begin := 15, rblocks := [\<lparr>bi_index = 15, bi_status = BS_AVAILABLE\<rparr>]\<rparr>"
proof -
  let ?w = "upd_ctx (\<lambda>c. c\<lparr>rblocks := []\<rparr>) (ex_chip16 s t)"
  have r: "read_tries 3 log_drv 15 ?w = (0, replicate 1024 0xff, replicate 4 0xff, ?w\<lparr>dev := [Ev_read 61440 4]\<rparr>)"
    by (simp add: ex_chip16_def upd_ctx_def numeral_3_eq_3 bbt_nand_read_def log_drv_def ex_desc_def blk_pg_def oob_request_def)
  have c: "classify be 0 (replicate 1024 0xff) (replicate 4 0xff) 1024 c = (BS_AVAILABLE, c)" for c
    by (simp add: classify_def fdm_is_bad_def fdm_is_mapped_def fdm_at_def arr_get_def try_parse_bbt_def try_parse_bmt_def block_is_erased_def list_all_iff)
  have "bmtd (?w\<lparr>dev := d\<rparr>) = bmtd ?w" "pg_size (bmtd ?w) = 1024" for d by (simp_all add: ex_chip16_def upd_ctx_def ex_desc_def)
  then have "scan_reserve 15 1 log_drv be 0 ?w = (Inr 15, upd_ctx (\<lambda>_. (ctx ?w)\<lparr>rblocks := [\<lparr>bi_index = 15, bi_status = BS_AVAILABLE\<rparr>]\<rparr>) (?w\<lparr>dev := [Ev_read 61440 4]\<rparr>))"
    using scan_reserve.simps(2) [of 14 1 log_drv be 0 ?w] r c by (simp add: ctx_def upd_ctx_def ex_chip16_def en75_zero_def)
  then show ?thesis by (simp add: r_scan_reserve_def Let_def ex_chip16_simps upd_ctx_bmtd) (simp add: upd_ctx_def ex_chip16_def ctx_def)
qed

text \<open>
  The reserve area that attaching finds is the shortest tail of the chip with enough good blocks: it leaves block 0 to the
  user, its blocks are recorded from the end of the chip on, at least 8\<^verbatim>\<open>%\<close> of the number of
  blocks are good ones in it, and without its first block they would not be, unless it is the only one.
\<close>

theorem en75_scan_reserve_spec:
  assumes "r_scan_reserve D be mem w = (0, w')" and "0 < total_blks (bmtd w)" and "total_blks (bmtd w) < 65536"
    and "c = en75 (bmtd w')" and "need = total_blks (bmtd w) * 8 div 100"
  shows "0 < reserve_area_begin c \<and> map bi_index (rblocks c) = rev [reserve_area_begin c..<total_blks (bmtd w)] \<and>
    need \<le> goods (rblocks c) \<and> (1 < length (rblocks c) \<longrightarrow> goods (butlast (rblocks c)) < need)"
proof -
  from r_scan_reserve_spec [OF assms(1-3)] obtain new z where "0 < reserve_area_begin c" "rblocks c = new @ [z]"
      "map bi_index (new @ [z]) = rev [reserve_area_begin c..<total_blks (bmtd w)]" "need \<le> goods (new @ [z])" "new \<noteq> [] \<longrightarrow> goods new < need"
    unfolding assms(4,5) ctx_def by blast
  then show ?thesis by auto
qed

theorem en75_scan_reserve_spec_witness:
  "\<exists>w. r_scan_reserve log_drv False True (ex_chip16 blank_bbt (blank_bmt (en_bmt en75_zero))) = (0, w) \<and> 1 \<le> goods (rblocks (en75 (bmtd w)))"
proof -
  obtain w where w: "r_scan_reserve log_drv False True (ex_chip16 blank_bbt (blank_bmt (en_bmt en75_zero))) = (0, w)" using ex_chip16_scan by blast
  then show ?thesis using en75_scan_reserve_spec [OF w _ _ refl refl] by (simp add: ex_chip16_simps)
qed

text \<open>
  C10. A BMT that is missing is reconstructed to a sound one: whatever the spare areas hold and the driver reports, after the scan and
  the reconstruction every entry leads from the user area into the reserve area, so the contract of the layer holds.
\<close>

theorem en75_reconstruct_establishes_inv:
  assumes "r_scan_reserve D be mem w = (0, w1)" and "0 < total_blks (bmtd w)" and "total_blks (bmtd w) < 65536"
    and "length (bmt_entries (en_bmt (en75 (bmtd w)))) = 256" and "w2 = r_reconstruct_bmt D be w1"
  shows "en_inv (bmtd w2) \<and> (\<forall>u. pub_get_mapping_block (bmtd w2) u < int (total_blks (bmtd w2)))"
proof -
  from r_scan_reserve_spec [OF assms(1-3)] obtain new z where s: "reserve_area_begin (ctx w1) < total_blks (bmtd w)"
      "map bi_index (rblocks (ctx w1)) = rev [reserve_area_begin (ctx w1)..<total_blks (bmtd w)]" "en_frame w w1"
      "length (bmt_entries (en_bmt (ctx w1))) = 256"
    using assms(4) by (auto simp: ctx_def)
  then have "en_inv (bmtd w2)" using r_reconstruct_bmt_inv [of w1 D be] en_frame_total [OF s(3)] assms(5) by simp
  then show ?thesis using en75_get_in_chip by blast
qed

theorem en75_reconstruct_establishes_inv_witness:
  "\<exists>w. r_scan_reserve log_drv True True (ex_chip16 blank_bbt (en_bmt en75_zero)) = (0, w) \<and> en_inv (bmtd (r_reconstruct_bmt log_drv True w))"
proof -
  obtain w where w: "r_scan_reserve log_drv True True (ex_chip16 blank_bbt (en_bmt en75_zero)) = (0, w)" using ex_chip16_scan by blast
  then show ?thesis using en75_reconstruct_establishes_inv [OF w _ _ _ refl] by (simp add: ex_chip16_simps) (simp add: en75_zero_def)
qed

text \<open>
  C9. What is written to the flash is read back: the next scan recognises a BMT and a BBT written by \<^const>\<open>sync_bmt\<close> and
  \<^const>\<open>sync_bbt\<close>, in either byte order and whatever follows them in the page, and maps every block as before.
\<close>

theorem en75_tables_roundtrip:
  assumes "bmt_wf (en_bmt c)" and "bbt_wf (en_bbt c)" and "sorted_wrt (<) (bbt_used c)" and "2012 \<le> pg"
    and "reserve_area_begin c0 = reserve_area_begin c" and "fdm = replicate 4 0xff"
  shows "\<exists>c1 c2. classify be 0 (bmt_table_bytes be (seal_bmt b (en_bmt c)) @ rest) fdm pg c0 = (BS_BMT, c1) \<and>
    classify be 0 (bbt_table_bytes be (seal_bbt (en_bbt c)) @ rest') fdm pg c1 = (BS_BBT, c2) \<and>
    get_mapping_block c2 = get_mapping_block c"
proof -
  have f: "fdm_is_bad fdm = BB_GOOD" "\<not> fdm_is_mapped fdm" using assms(6) by (simp_all add: fdm_is_bad_def fdm_is_mapped_def fdm_at_def arr_get_def)
  let ?c1 = "c0\<lparr>en_bmt := seal_bmt b (en_bmt c)\<rparr>"
  let ?c2 = "?c1\<lparr>en_bbt := seal_bbt (en_bbt c)\<rparr>"
  have "sorted (take (bbth_size (en_bbt c)) (bbt_entries (en_bbt c)))"
    using assms(3) strict_sorted_imp_sorted by (auto simp: bbt_used_def)
  then have "classify be 0 (bbt_table_bytes be (seal_bbt (en_bbt c)) @ rest') fdm pg ?c1 = (BS_BBT, ?c2)"
    using assms(2,4) f by (simp add: classify_def try_parse_bbt_sealed)
  moreover have "classify be 0 (bmt_table_bytes be (seal_bmt b (en_bmt c)) @ rest) fdm pg c0 = (BS_BMT, ?c1)"
    using assms(1,4) f seal_bmt_wf(1) by (simp add: classify_def try_parse_bmt_sealed try_parse_bbt_bmt)
  moreover have "get_mapping_block ?c2 = get_mapping_block c"
    by (rule mapping_cong(1)) (simp_all add: bmt_used_def bbt_used_def assms(5))
  ultimately show ?thesis by blast
qed

theorem en75_tables_roundtrip_witness:
  "\<exists>c1 c2. classify True 0 (bmt_table_bytes True (seal_bmt ex_en (en_bmt (en75 ex_en))) @ replicate 1004 0xff) (replicate 4 0xff) 2048
       (en75_zero\<lparr>reserve_area_begin := 12\<rparr>) = (BS_BMT, c1) \<and>
     classify True 0 (bbt_table_bytes True (seal_bbt (en_bbt (en75 ex_en))) @ replicate 36 0xff) (replicate 4 0xff) 2048 c1 = (BS_BBT, c2) \<and>
     get_mapping_block c2 4 = 14"
proof -
  have "bmt_wf (en_bmt (en75 ex_en))" by (simp add: bmt_wf_def ex_en_def en75_zero_def entry_words_all) (simp add: list_all_iff)
  moreover have "bbt_wf (en_bbt (en75 ex_en))" by (simp add: bbt_wf_def ex_en_def en75_zero_def list_all_iff)
  ultimately show ?thesis
    using en75_tables_roundtrip [of "en75 ex_en" 2048 "en75_zero\<lparr>reserve_area_begin := 12\<rparr>" "replicate 4 0xff" True ex_en "replicate 1004 0xff" "replicate 36 0xff"]
      ex_en_mapping by (auto simp: ex_en_used pub_get_mapping_block_def)
qed

text \<open>
  The property that enables remapping has no effect on a partition: when the device does not have it, attaching leaves
  no range in which blocks may be remapped, whatever the partitions say, and every request to remap is refused.
\<close>

theorem en75_partition_remap_ignored:
  assumes "\<not> nd_enable_remap np" and "pub_init D be mem np w = (0, w')" and "0 < total_blks (bmtd w)" and "total_blks (bmtd w) < 65536"
    and "can_remap_ranges (en75 (bmtd w)) = []"
  shows "pub_remap_block D be u m n w' = (False, w')"
proof -
  obtain r1 w1 where 1: "w_init D be mem np w = (r1, w1)" by fastforce
  obtain r2 w2 where 2: "w_sync_tables D be w1 = (r2, w2)" by fastforce
  have w: "r1 = 0" "w' = w2" using assms(2) 1 2 by (auto simp: pub_init_def split: if_splits)
  have "can_remap_ranges (ctx w2) = can_remap_ranges (ctx w1)" using w_sync_tables_step [OF 2] by (simp add: en_step_def ctx_kept_def)
  also have "\<dots> = []" using w_init_kept [OF assms(1) _ assms(3,4)] 1 w(1) assms(5) by (simp add: ctx_def)
  finally show ?thesis by (simp add: pub_remap_block_def in_ranges_def w(2))
qed

theorem en75_partition_remap_ignored_witness:
  "\<exists>w. pub_init log_drv False True \<lparr>nd_assert_size = None, nd_can_write = False, nd_badblocks = None, nd_enable_remap = False,
       nd_partitions = [(True, Some (0, 16384))]\<rparr> (ex_chip16 blank_bbt (blank_bmt (en_bmt en75_zero))) = (0, w) \<and>
     pub_remap_block log_drv False 2 2 4096 w = (False, w)"
proof -
  let ?np = "\<lparr>nd_assert_size = None, nd_can_write = False, nd_badblocks = None, nd_enable_remap = False, nd_partitions = [(True, Some (0, 16384))]\<rparr>"
  let ?w = "ex_chip16 blank_bbt (blank_bmt (en_bmt en75_zero))"
  obtain w1 where 1: "r_scan_reserve log_drv False True ?w = (0, w1)"
      "en75 (bmtd w1) = en75_zero\<lparr>en_bbt := blank_bbt, en_bmt := blank_bmt (en_bmt en75_zero), reserve_area_begin := 15, rblocks := [\<lparr>bi_index = 15, bi_status = BS_AVAILABLE\<rparr>]\<rparr>"
    using ex_chip16_scan by blast
  have "\<exists>w. pub_init log_drv False True ?np ?w = (0, w)"
    using 1 by (simp add: pub_init_def w_init_def partition_range_def init_tables_def ctx_def blank_bbt_def blank_bmt_def)
  then obtain w where w: "pub_init log_drv False True ?np ?w = (0, w)" by blast
  then show ?thesis using en75_partition_remap_ignored [OF _ w] by (auto simp: ex_chip16_simps en75_zero_def)
qed

lemma init_tables_no_bbt:
  "init_tables D be True w = (r, w') \<Longrightarrow> bbth_version (en_bbt (ctx w)) = 0 \<Longrightarrow> bbth_version (en_bbt (ctx w')) = 0"
  by (auto simp: init_tables_def Let_def r_reconstruct_bmt_kept split: if_splits)

text \<open>
  The device tree cannot provide a bad block table that is missing from the flash: attaching with a list of
  factory bad blocks fails when no BBT was found, also when writing it is allowed.
\<close>

theorem en75_factory_list_needs_bbt:
  assumes "r_scan_reserve D be mem w = (0, w1)" and "bbth_version (en_bbt (en75 (bmtd w1))) = 0" and "nd_badblocks np = Some blocks"
  shows "fst (pub_init D be mem np w) \<noteq> 0"
proof -
  let ?w2 = "if nd_can_write np then upd_ctx (\<lambda>c. c\<lparr>can_write_factory_bbt := True\<rparr>) w1 else w1"
  let ?w3 = "if nd_enable_remap np then snd (add_remap_range 0 (reserve_area_begin (ctx ?w2)) ?w2) else fold (partition_range np) (nd_partitions np) ?w2"
  obtain r4 w4 where 4: "init_tables D be True ?w3 = (r4, w4)" by fastforce
  have p: "en_bbt (ctx (partition_range np x y)) = en_bbt (ctx y)" for x and y :: "'a bmt_world"
    by (auto simp: partition_range_def add_remap_range_def split: option.splits)
  have "en_bbt (ctx (fold (partition_range np) ps y)) = en_bbt (ctx y)" for ps and y :: "'a bmt_world"
    by (induction ps arbitrary: y) (simp_all add: p)
  then have v3: "bbth_version (en_bbt (ctx ?w3)) = 0" using assms(2) by (simp add: ctx_def [symmetric] add_remap_range_def)
  have "fst (w_init D be mem np w) \<noteq> 0"
  proof (cases "r4 = 0")
    case True
    with v3 4 have "bbth_version (en_bbt (ctx w4)) = 0" by (auto dest: init_tables_no_bbt)
    then have "w_factory_badblocks D blocks w4 = (- EINVAL, w4)" by (simp add: w_factory_badblocks_def)
    then show ?thesis using assms 4 True by (simp add: w_init_def Let_def)
  next
    case False
    then show ?thesis using assms 4 by (simp add: w_init_def Let_def)
  qed
  then show ?thesis by (auto simp: pub_init_def split: prod.splits)
qed

theorem en75_factory_list_needs_bbt_witness:
  "fst (pub_init log_drv False True \<lparr>nd_assert_size = None, nd_can_write = True, nd_badblocks = Some [3], nd_enable_remap = False,
     nd_partitions = []\<rparr> (ex_chip16 (en_bbt en75_zero) (en_bmt en75_zero))) \<noteq> 0"
proof -
  obtain w1 where "r_scan_reserve log_drv False True (ex_chip16 (en_bbt en75_zero) (en_bmt en75_zero)) = (0, w1)"
      "bbth_version (en_bbt (en75 (bmtd w1))) = 0"
    using ex_chip16_scan [of False "en_bbt en75_zero" "en_bmt en75_zero"] by (auto simp: en75_zero_def)
  then show ?thesis by (rule en75_factory_list_needs_bbt) simp
qed

text \<open>The attempt to erase a block depends on the geometry only.\<close>

lemma w_erase_one_upd:
  assumes "\<And>c. reserve_area_begin (f c) = reserve_area_begin c"
  shows "snd (w_erase_one D x u (upd_ctx f w)) = upd_ctx f (snd (w_erase_one D x u w))"
proof -
  have "snd (erase_tries n D x r (upd_ctx f w)) = upd_ctx f (snd (erase_tries n D x r w))" for n r and w :: "'a bmt_world"
  proof (induction n arbitrary: r w)
    case (Suc n)
    obtain e w1 where e: "bbt_nand_erase D x w = (e, w1)" by fastforce
    then have "bbt_nand_erase D x (upd_ctx f w) = (e, upd_ctx f w1)"
      by (auto simp: bbt_nand_erase_def upd_ctx_def split: prod.splits)
    then show ?case using e Suc by simp
  qed simp
  then show ?thesis using assms by (simp add: w_erase_one_def block_index_is_sane_def upd_ctx_bmtd)
qed

text \<open>
  C11. Removing blocks from the table of factory bad blocks does not erase them but block 0, where the boot loader
  is: when none of the \<open>n\<close> entries is on the list, what the driver sees is \<open>n\<close> erasures of block 0.
\<close>

theorem en75_unbad_erases_block_0:
  assumes "bbth_size (en_bbt (en75 (bmtd w))) = n" and "n \<le> length (bbt_entries (en_bbt (en75 (bmtd w))))"
    and "set (bbt_used (en75 (bmtd w))) \<inter> set blocks = {}"
  shows "dev (clear_bbt D blocks n w) = dev (((\<lambda>x. snd (w_erase_one D 0 True x)) ^^ n) w)"
  using assms
proof (induction n arbitrary: w)
  case (Suc i)
  let ?E = "\<lambda>x :: 'a bmt_world. snd (w_erase_one D 0 True x)"
  let ?t = "en_bbt (ctx w)"
  let ?es = "(bbt_entries ?t)[i := 0]"
  let ?f = "\<lambda>c. c\<lparr>en_bbt := ?t\<lparr>bbt_entries := ?es, bbth_size := i\<rparr>\<rparr>"
  have com: "?E (upd_ctx ?f x) = upd_ctx ?f (?E x)" for x by (rule w_erase_one_upd) simp
  have comn: "(?E ^^ k) (upd_ctx ?f x) = upd_ctx ?f ((?E ^^ k) x)" for k x by (induction k) (simp_all add: com)
  have i: "i < length (bbt_entries ?t)" "bbth_size ?t = Suc i" using Suc.prems by (simp_all add: ctx_def)
  then have "bbt_entries ?t ! i \<in> set (bbt_used (ctx w))" by (auto simp: bbt_used_def in_set_conv_nth intro!: exI [of _ i])
  then have "bbt_entries ?t ! i \<notin> set blocks" using Suc.prems(3) by (auto simp: ctx_def)
  then have step: "clear_bbt D blocks (Suc i) w = clear_bbt D blocks i (upd_ctx ?f (?E w))"
    using i com by (simp add: Let_def arr_get_def)
  have c: "ctx (?E w) = ctx w" by (cases "w_erase_one D 0 True w") (simp add: same_ctx [OF w_erase_one_frame])
  have "set (bbt_used (ctx (upd_ctx ?f (?E w)))) \<subseteq> set (bbt_used (ctx w))"
    using i by (simp add: bbt_used_def) (metis Suc_n_not_le_n nat_le_linear set_take_subset_set_take)
  then have "dev (clear_bbt D blocks i (upd_ctx ?f (?E w))) = dev ((?E ^^ i) (upd_ctx ?f (?E w)))"
    using Suc.prems i by (intro Suc.IH) (auto simp: ctx_def [symmetric] c)
  then show ?case unfolding step comn funpow_Suc_right o_apply by (simp add: upd_ctx_def)
qed simp

theorem en75_unbad_erases_block_0_witness:
  "dev (clear_bbt log_drv [7] 1 \<lparr>dev = [], mtd = ex_mtd, bmtd = ex_en\<rparr>) = [Ev_erase 0]"
proof -
  let ?w = "\<lparr>dev = ([] :: nand_event list), mtd = ex_mtd, bmtd = ex_en\<rparr>"
  have "dev (snd (w_erase_one log_drv 0 True ?w)) = [Ev_erase 0]"
    by (simp add: w_erase_one_def block_index_is_sane_def ex_en_used numeral_3_eq_3 bbt_nand_erase_def log_drv_def)
  then show ?thesis using en75_unbad_erases_block_0 [of ?w 1 "[7]" log_drv] by (simp add: ex_en_used) (simp add: ex_en_def)
qed

end
