(* ===== verification/Mtdsplit_Base.thy ===== *)
theory Mtdsplit_Base
  imports Flash_Prelude
begin

text \<open>
  What the firmware splitters (\<^verbatim>\<open>target/linux/generic/files/drivers/mtd/mtdsplit\<close>) share: the flash
  partition they parse, the byte order of header fields, the loops over erase blocks and the
  helpers of \<^verbatim>\<open>mtdsplit.c\<close> that look for a root file system.

  A splitter only reads, so the partition is a record with the read function of the MTD core as
  a parameter: an error code and the bytes delivered. The code is built for 32 and 64 bit
  kernels and both byte orders; \<open>m_szmod\<close> is the range of \<^verbatim>\<open>size_t\<close> and \<open>m_be\<close> the byte order. A
  parser's result is \<open>Inl\<close> of a return code without partitions or \<open>Inr\<close> of the partitions, and
  \<^const>\<open>None\<close> when it does not return. The argument \<open>alloc\<close> of a parser says whether its allocation
  succeeds.
\<close>

section \<open>The partition\<close>

record mtd_dev =
  m_name :: string
  m_size :: nat
  m_erasesize :: nat
  m_offset :: nat
  m_master_erasesize :: nat
  m_nand :: bool
  m_read :: "nat \<Rightarrow> nat \<Rightarrow> int \<times> byte list"
  m_szmod :: nat
  m_be :: bool

record mtd_partition =
  pt_name :: string
  pt_offset :: nat
  pt_size :: nat
  pt_mask_writeable :: bool

type_synonym split_result = "(int + mtd_partition list) option"

abbreviation (input) ENOENT :: int where "ENOENT \<equiv> 2"
abbreviation (input) ENODATA :: int where "ENODATA \<equiv> 61"
abbreviation (input) KERNEL_PART_NAME :: string where "KERNEL_PART_NAME \<equiv> ''kernel''"
abbreviation (input) ROOTFS_PART_NAME :: string where "ROOTFS_PART_NAME \<equiv> ''rootfs''"
abbreviation (input) UBI_PART_NAME :: string where "UBI_PART_NAME \<equiv> ''ubi''"
abbreviation (input) ROOTFS_SPLIT_NAME :: string where "ROOTFS_SPLIT_NAME \<equiv> ''rootfs_data''"

definition mk_part :: "string \<Rightarrow> nat \<Rightarrow> nat \<Rightarrow> mtd_partition" where
  "mk_part name off sz = \<lparr>pt_name = name, pt_offset = off, pt_size = sz, pt_mask_writeable = False\<rparr>"

lemma mk_part_simps [simp]:
  "pt_name (mk_part a b c) = a" "pt_offset (mk_part a b c) = b" "pt_size (mk_part a b c) = c"
  by (simp_all add: mk_part_def)

text \<open>Values of type \<^verbatim>\<open>size_t\<close>, the conversion of an \<^verbatim>\<open>int\<close>, and subtraction of two 64-bit values or of two \<^verbatim>\<open>size_t\<close> values.\<close>

definition szt :: "mtd_dev \<Rightarrow> nat \<Rightarrow> nat" where
  "szt m n = n mod m_szmod m"

definition int_to_szt :: "mtd_dev \<Rightarrow> int \<Rightarrow> nat" where
  "int_to_szt m i = nat (i mod int (m_szmod m))"

definition szt_sub :: "mtd_dev \<Rightarrow> nat \<Rightarrow> nat \<Rightarrow> nat" where
  "szt_sub m a b = nat ((int a - int b) mod int (m_szmod m))"

definition sub64 :: "nat \<Rightarrow> nat \<Rightarrow> nat" where
  "sub64 a b = nat ((int a - int b) mod 18446744073709551616)"

lemma szt_id [simp]: "n < m_szmod m \<Longrightarrow> szt m n = n"
  by (simp add: szt_def)

lemma int_to_szt_nat [simp]: "int_to_szt m (int n) = szt m n"
  by (simp add: int_to_szt_def szt_def nat_mod_distrib)

lemma szt_less [simp]: "0 < m_szmod m \<Longrightarrow> szt m n < m_szmod m"
  by (simp add: szt_def)

lemma nat_diff_mod: "b \<le> a \<Longrightarrow> a < k \<Longrightarrow> nat ((int a - int b) mod int k) = a - b"
  using mod_less [of "a - b" k] by (metis less_imp_diff_less mod_less nat_int of_nat_diff of_nat_mod)

lemma szt_sub_id [simp]: "b \<le> a \<Longrightarrow> a < m_szmod m \<Longrightarrow> szt_sub m a b = a - b"
  by (simp add: szt_sub_def nat_diff_mod)

lemma sub64_id [simp]: "b \<le> a \<Longrightarrow> a < 18446744073709551616 \<Longrightarrow> sub64 a b = a - b"
  using nat_diff_mod [of b a 18446744073709551616] by (simp add: sub64_def)

text \<open>
  A device tree node, as the splitters read it: the compatible strings, and the properties read as
  a 32-bit number, a string or a flag. A read that fails has its error code.
\<close>

record of_node =
  of_compatible :: "string list"
  of_u32 :: "string \<Rightarrow> int + nat"
  of_string :: "string \<Rightarrow> int + string"
  of_bool :: "string \<Rightarrow> bool"

definition of_u32_or :: "of_node \<Rightarrow> string \<Rightarrow> nat \<Rightarrow> nat" where
  "of_u32_or np name dflt = (case of_u32 np name of Inl _ \<Rightarrow> dflt | Inr v \<Rightarrow> v)"

section \<open>Header fields in the byte order of the machine\<close>

definition cpu_at :: "mtd_dev \<Rightarrow> nat \<Rightarrow> byte list \<Rightarrow> nat \<Rightarrow> nat" where
  "cpu_at m len bs off = (if m_be m then be_val (field off len bs) else le_val (field off len bs))"

lemma cpu_at_less: "cpu_at m n bs off < 256 ^ n"
  using field_val_less [OF length_field_le [of off n bs]] by (simp add: cpu_at_def)

section \<open>Reading\<close>

text \<open>A read of which every byte is needed; the C code has it inline and in four helper functions.\<close>

definition read_exact :: "mtd_dev \<Rightarrow> nat \<Rightarrow> nat \<Rightarrow> int + byte list" where
  "read_exact m off len =
     (let (ret, bs) = m_read m off len
      in if ret \<noteq> 0 then Inl ret else if length bs \<noteq> len then Inl (- EIO) else Inr bs)"

lemma read_exact_length: "read_exact m off len = Inr bs \<Longrightarrow> length bs = len"
  by (auto simp: read_exact_def Let_def split: prod.splits if_splits)

lemma read_exact_ok: "read_exact m off len = Inr bs \<Longrightarrow> m_read m off len = (0, bs)"
  by (auto simp: read_exact_def Let_def split: prod.splits if_splits)

lemma read_exact_err: "read_exact m off len = Inl e \<Longrightarrow> e \<noteq> 0"
  by (auto simp: read_exact_def Let_def split: prod.splits if_splits)

section \<open>Loops over erase blocks\<close>

text \<open>
  The loops \<^verbatim>\<open>for (offset = ...; offset < limit; offset = step)\<close> of the splitters: the body returns
  whether it leaves the loop and the new values of the locals. A loop that never ends is
  \<^const>\<open>None\<close>.
\<close>

partial_function (option) for_blocks ::
    "(nat \<Rightarrow> nat) \<Rightarrow> nat \<Rightarrow> (nat \<Rightarrow> 's \<Rightarrow> bool \<times> 's) \<Rightarrow> nat \<Rightarrow> 's \<Rightarrow> (nat \<times> 's) option" where
  "for_blocks step limit body off s =
     (if \<not> off < limit then Some (off, s)
      else case body off s of (stop, s') \<Rightarrow>
             if stop then Some (off, s') else for_blocks step limit body (step off) s')"

lemma for_blocks_end [simp]: "limit \<le> off \<Longrightarrow> for_blocks step limit body off s = Some (off, s)"
  by (subst for_blocks.simps) simp

lemma for_blocks_stop: "off < limit \<Longrightarrow> body off s = (True, s') \<Longrightarrow> for_blocks step limit body off s = Some (off, s')"
  by (subst for_blocks.simps) simp

lemma for_blocks_next:
  "off < limit \<Longrightarrow> body off s = (False, s') \<Longrightarrow>
   for_blocks step limit body off s = for_blocks step limit body (step off) s'"
  by (subst for_blocks.simps) simp

lemma for_blocks_returns_body:
  assumes "\<And>off s t. off < limit \<Longrightarrow> body off s = (False, t) \<Longrightarrow> I off \<Longrightarrow> off < step off \<and> I (step off)" and "I off"
  shows "\<exists>r. for_blocks step limit body off s = Some r"
  using assms(2)
proof (induction "limit - off" arbitrary: off s rule: less_induct)
  case less
  obtain stop s' where b: "body off s = (stop, s')" by fastforce
  show ?case
  proof (cases "off < limit \<and> \<not> stop")
    case True
    then have st: "off < step off \<and> I (step off)" using assms(1) [of off s s'] b less.prems by simp
    then have "limit - step off < limit - off" using True by (auto intro: diff_less_mono2)
    with less.hyps st obtain r where "for_blocks step limit body (step off) s' = Some r" by blast
    then show ?thesis using True b by (auto simp: for_blocks_next)
  next
    case False
    then show ?thesis using b by (cases "off < limit") (auto simp: for_blocks_stop)
  qed
qed

lemma for_blocks_returns_inv:
  assumes "I off" and "\<And>off. I off \<Longrightarrow> off < limit \<Longrightarrow> off < step off \<and> I (step off)"
  shows "\<exists>r. for_blocks step limit body off s = Some r"
  by (rule for_blocks_returns_body [where I = I]) (use assms in auto)

lemma for_blocks_returns:
  assumes "\<And>off. off < limit \<Longrightarrow> off < step off"
  shows "\<exists>r. for_blocks step limit body off s = Some r"
  by (rule for_blocks_returns_inv [where I = "\<lambda>_. True"]) (use assms in auto)

text \<open>
  Invariants of a loop: \<open>I\<close> holds of the locals at each round, and then \<open>Q\<close> of the result, whether
  the body left the loop or it ran to the limit.
\<close>

lemma for_blocks_result:
  assumes "for_blocks step limit body off s = Some (off', s')" and "I off s"
    and "\<And>off s t. I off s \<Longrightarrow> off < limit \<Longrightarrow> body off s = (False, t) \<Longrightarrow> I (step off) t"
    and "\<And>off s t. I off s \<Longrightarrow> off < limit \<Longrightarrow> body off s = (True, t) \<Longrightarrow> Q off t"
    and "\<And>off s. I off s \<Longrightarrow> limit \<le> off \<Longrightarrow> Q off s"
  shows "Q off' s'"
proof -
  let ?P = "\<lambda>st l bd off s r. st = step \<longrightarrow> l = limit \<longrightarrow> bd = body \<longrightarrow> I off s \<longrightarrow> Q (fst r) (snd r)"
  have "?P step limit body off s (off', s')"
  proof (rule for_blocks.raw_induct [where P = ?P, OF _ assms(1)], intro impI)
    fix f st l bd off s r
    assume IH: "\<And>st l bd off s r. f st l bd off s = Some r \<Longrightarrow> ?P st l bd off s r"
      and eq: "(if \<not> off < l then Some (off, s)
        else case bd off s of (stop, s') \<Rightarrow> if stop then Some (off, s') else f st l bd (st off) s') = Some r"
      and id: "st = step" "l = limit" "bd = body" and I: "I off s"
    obtain stop t where b: "body off s = (stop, t)" by fastforce
    show "Q (fst r) (snd r)"
    proof (cases "off < limit")
      case True
      then show ?thesis
        using eq I b id assms(3) [OF I True] assms(4) [OF I True] IH [of step limit body "step off" t r]
        by (cases stop) auto
    next
      case False
      with eq I id assms(5) show ?thesis by auto
    qed
  qed
  with assms(2) show ?thesis by simp
qed

section \<open>Looking for a root file system\<close>

text \<open>The two rounding helpers of the MTD core divide and multiply at 32 bits.\<close>

definition mtd_rounddown_to_eb :: "nat \<Rightarrow> nat \<Rightarrow> nat" where
  "mtd_rounddown_to_eb sz e = (if sz mod e = 0 then sz else u32 (u32 (sz div e) * e))"

definition mtd_roundup_to_eb :: "nat \<Rightarrow> nat \<Rightarrow> nat" where
  "mtd_roundup_to_eb sz e = (if sz mod e = 0 then sz else u32 ((u32 (sz div e) + 1) * e))"

abbreviation (input) SQUASHFS_MAGIC :: nat where "SQUASHFS_MAGIC \<equiv> 0x73717368"
abbreviation (input) UBI_EC_MAGIC :: nat where "UBI_EC_MAGIC \<equiv> 0x55424923"

datatype mtdsplit_part_type = PART_TYPE_UNK | PART_TYPE_SQUASHFS | PART_TYPE_JFFS2 | PART_TYPE_UBI

definition mtd_get_squashfs_len :: "mtd_dev \<Rightarrow> nat \<Rightarrow> int + nat" where
  "mtd_get_squashfs_len m off =
     (case read_exact m off 48 of
        Inl _ \<Rightarrow> Inl (- EIO)
      | Inr sb \<Rightarrow>
          if le32_at sb 0 \<noteq> SQUASHFS_MAGIC then Inl (- EINVAL)
          else
            let len = szt m (le_val (field 40 8 sb))
            in if len = 0 then Inl (- ENOENT)
               else if szt m (off + len) > m_size m then Inl (- EINVAL)
               else Inr len)"

definition mtd_next_eb :: "mtd_dev \<Rightarrow> nat \<Rightarrow> nat" where
  "mtd_next_eb m off = szt m (mtd_rounddown_to_eb off (m_erasesize m) + m_erasesize m)"

definition mtd_check_rootfs_magic :: "mtd_dev \<Rightarrow> nat \<Rightarrow> int + mtdsplit_part_type" where
  "mtd_check_rootfs_magic m off =
     (case read_exact m off 4 of
        Inl e \<Rightarrow> Inl e
      | Inr magic \<Rightarrow>
          if le32_at magic 0 = SQUASHFS_MAGIC then Inr PART_TYPE_SQUASHFS
          else if cpu_at m 4 magic 0 = 0x19852003 then Inr PART_TYPE_JFFS2
          else if be32_at magic 0 = UBI_EC_MAGIC then Inr PART_TYPE_UBI
          else Inl (- EINVAL))"

definition rootfs_test :: "mtd_dev \<Rightarrow> nat \<Rightarrow> mtdsplit_part_type option \<Rightarrow> bool \<times> mtdsplit_part_type option" where
  "rootfs_test m off t =
     (case mtd_check_rootfs_magic m off of Inl _ \<Rightarrow> (False, t) | Inr ty \<Rightarrow> (True, Some ty))"

definition mtd_find_rootfs_from :: "mtd_dev \<Rightarrow> nat \<Rightarrow> nat \<Rightarrow> (int + nat \<times> mtdsplit_part_type) option" where
  "mtd_find_rootfs_from m fr limit =
     (case for_blocks (mtd_next_eb m) limit (rootfs_test m) fr None of
        None \<Rightarrow> None
      | Some (off, Some t) \<Rightarrow> Some (Inr (off, t))
      | Some (off, None) \<Rightarrow> Some (Inl (- ENOENT)))"

text \<open>
  What the theorems assume of a partition: whole erase blocks of at least 1 KiB, less than
  4 GiB in all, a 32 or 64 bit kernel, and the documented behaviour of \<^verbatim>\<open>mtd_read\<close>, that a read which is not inside the
  partition fails.
\<close>

definition dev_ok :: "mtd_dev \<Rightarrow> bool" where
  "dev_ok m \<longleftrightarrow> 0 < m_erasesize m \<and> 1024 dvd m_erasesize m \<and> m_erasesize m dvd m_size m \<and>
     m_size m + m_erasesize m < 4294967296 \<and> (m_szmod m = 2 ^ 32 \<or> m_szmod m = 2 ^ 64) \<and>
     (\<forall>off len bs. m_read m off len = (0, bs) \<and> 0 < len \<longrightarrow> off + len \<le> m_size m)"

lemma dev_okD:
  assumes "dev_ok m"
  shows "0 < m_erasesize m" and "m_size m + m_erasesize m < 4294967296" and "m_size m < 4294967296"
    and "m_size m < m_szmod m" and "szt m (m_size m) = m_size m" and "m_size m + m_erasesize m < m_szmod m"
    and "1024 dvd m_erasesize m" and "m_erasesize m dvd m_size m"
  using assms by (auto simp: dev_ok_def)

lemma mtd_read_inside: "dev_ok m \<Longrightarrow> m_read m off len = (0, bs) \<Longrightarrow> 0 < len \<Longrightarrow> off + len \<le> m_size m"
  by (auto simp: dev_ok_def)

lemma read_exact_inside: "dev_ok m \<Longrightarrow> read_exact m off len = Inr bs \<Longrightarrow> 0 < len \<Longrightarrow> off + len \<le> m_size m"
  using read_exact_ok by (fastforce simp: dev_ok_def)

lemma check_magic_inside: "dev_ok m \<Longrightarrow> mtd_check_rootfs_magic m off = Inr t \<Longrightarrow> off + 4 \<le> m_size m"
  by (auto simp: mtd_check_rootfs_magic_def split: sum.splits dest: read_exact_inside)

lemma rounddown_small: "0 < e \<Longrightarrow> off < 4294967296 \<Longrightarrow> mtd_rounddown_to_eb off e = off div e * e"
proof -
  assume e: "0 < e" and o: "off < 4294967296"
  have l: "off div e * e \<le> off" "off div e \<le> off" by (simp_all add: div_le_dividend)
  then have "u32 (off div e) = off div e" using o by (intro u32_id) linarith
  moreover have "u32 (off div e * e) = off div e * e" using o l by (intro u32_id) linarith
  moreover have "off mod e = 0 \<longrightarrow> off div e * e = off" by (metis add.right_neutral div_mult_mod_eq)
  ultimately show ?thesis by (simp add: mtd_rounddown_to_eb_def)
qed

lemma next_eb:
  assumes "dev_ok m" and "off < m_size m"
  shows "mtd_next_eb m off = (off div m_erasesize m + 1) * m_erasesize m" and "off < mtd_next_eb m off"
proof -
  let ?e = "m_erasesize m"
  note d = dev_okD [OF assms(1)]
  have "off div ?e * ?e \<le> off" by simp
  then have "off div ?e * ?e + ?e < m_szmod m" using assms(2) d(6) by linarith
  then show eq: "mtd_next_eb m off = (off div ?e + 1) * ?e"
    using assms(2) d(1,3) by (simp add: mtd_next_eb_def rounddown_small)
  have "off mod ?e < ?e" using d(1) by simp
  then have "off < off div ?e * ?e + ?e" by (metis add.commute add_less_cancel_right mod_div_mult_eq)
  then show "off < mtd_next_eb m off" by (simp add: eq)
qed

lemma find_rootfs_returns:
  assumes "dev_ok m" and "limit \<le> m_size m"
  shows "\<exists>r. mtd_find_rootfs_from m fr limit = Some r"
proof -
  have "off < mtd_next_eb m off" if "off < limit" for off
    using next_eb(2) [OF assms(1)] that assms(2) by simp
  then obtain r where "for_blocks (mtd_next_eb m) limit (rootfs_test m) fr None = Some r"
    using for_blocks_returns by metis
  then show ?thesis by (cases r) (auto simp: mtd_find_rootfs_from_def split: option.splits)
qed

lemma find_rootfs_total: "dev_ok m \<Longrightarrow> mtd_find_rootfs_from m fr (szt m (m_size m)) = None \<longleftrightarrow> False"
  using find_rootfs_returns [of m "m_size m" fr] dev_okD(5) [of m] by auto

lemma find_rootfs_result:
  assumes "mtd_find_rootfs_from m fr limit = Some (Inr (r, t))" and "dev_ok m" and "limit \<le> m_size m"
  shows "fr \<le> r" and "r < limit" and "mtd_check_rootfs_magic m r = Inr t" and "r = fr \<or> m_erasesize m dvd r"
proof -
  have fb: "for_blocks (mtd_next_eb m) limit (rootfs_test m) fr None = Some (r, Some t)"
    using assms(1) by (auto simp: mtd_find_rootfs_from_def split: option.splits)
  have "Some t = None \<or> fr \<le> r \<and> r < limit \<and> (\<exists>t'. Some t = Some t' \<and> mtd_check_rootfs_magic m r = Inr t') \<and> (r = fr \<or> m_erasesize m dvd r)"
    using fb
  proof (rule for_blocks_result [where I = "\<lambda>off s. s = None \<and> fr \<le> off \<and> (off = fr \<or> m_erasesize m dvd off)"
        and Q = "\<lambda>off s. s = None \<or> fr \<le> off \<and> off < limit \<and> (\<exists>t'. s = Some t' \<and> mtd_check_rootfs_magic m off = Inr t') \<and> (off = fr \<or> m_erasesize m dvd off)"])
    fix off :: nat and s t :: "mtdsplit_part_type option"
    assume I: "s = None \<and> fr \<le> off \<and> (off = fr \<or> m_erasesize m dvd off)" and l: "off < limit"
    note nx = next_eb [OF assms(2), of off]
    show "rootfs_test m off s = (False, t) \<Longrightarrow> t = None \<and> fr \<le> mtd_next_eb m off \<and> (mtd_next_eb m off = fr \<or> m_erasesize m dvd mtd_next_eb m off)"
      using nx I l assms(3) by (auto simp: rootfs_test_def split: sum.splits)
    show "rootfs_test m off s = (True, t) \<Longrightarrow> t = None \<or> fr \<le> off \<and> off < limit \<and>
        (\<exists>t'. t = Some t' \<and> mtd_check_rootfs_magic m off = Inr t') \<and> (off = fr \<or> m_erasesize m dvd off)"
      using I l by (auto simp: rootfs_test_def split: sum.splits)
  qed auto
  then show "fr \<le> r" "r < limit" "mtd_check_rootfs_magic m r = Inr t" "r = fr \<or> m_erasesize m dvd r" by auto
qed


text \<open>
  The offsets the search passes: the start, then the erase blocks behind it.
\<close>

definition rootfs_candidates :: "mtd_dev \<Rightarrow> nat \<Rightarrow> nat \<Rightarrow> nat list" where
  "rootfs_candidates m fr limit =
     (if fr < limit
      then fr # map (\<lambda>k. k * m_erasesize m) [fr div m_erasesize m + 1..<(limit + m_erasesize m - 1) div m_erasesize m]
      else [])"

lemma candidates_step:
  assumes "dev_ok m" and "fr < limit" and "limit \<le> m_size m"
  shows "rootfs_candidates m fr limit = fr # rootfs_candidates m (mtd_next_eb m fr) limit"
proof -
  let ?e = "m_erasesize m" and ?n = "fr div m_erasesize m + 1"
  let ?top = "(limit + ?e - 1) div ?e"
  have e: "0 < ?e" using dev_okD(1) [OF assms(1)] .
  have nx: "mtd_next_eb m fr = ?n * ?e" using next_eb(1) [OF assms(1)] assms(2,3) by simp
  have lt: "?n * ?e < limit \<longleftrightarrow> ?n < ?top"
  proof -
    have "?n < ?top \<longleftrightarrow> Suc ?n \<le> ?top" by auto
    also have "\<dots> \<longleftrightarrow> Suc ?n * ?e \<le> limit + ?e - 1" using e by (simp only: less_eq_div_iff_mult_less_eq)
    also have "\<dots> \<longleftrightarrow> ?n * ?e < limit" using e by auto
    finally show ?thesis by simp
  qed
  show ?thesis
  proof (cases "?n < ?top")
    case True
    then have "[?n..<?top] = ?n # [?n + 1..<?top]" by (simp add: upt_conv_Cons)
    with True lt nx assms(2) e show ?thesis by (simp add: rootfs_candidates_def)
  next
    case False
    with lt nx assms(2) show ?thesis by (simp add: rootfs_candidates_def)
  qed
qed

lemma find_rootfs_spec:
  assumes "dev_ok m" and "limit \<le> m_size m"
  shows "mtd_find_rootfs_from m fr limit =
    Some (case List.find (\<lambda>off. \<not> isl (mtd_check_rootfs_magic m off)) (rootfs_candidates m fr limit) of
            None \<Rightarrow> Inl (- ENOENT) | Some off \<Rightarrow> Inr (off, projr (mtd_check_rootfs_magic m off)))"
proof (induction "limit - fr" arbitrary: fr rule: less_induct)
  case less
  show ?case
  proof (cases "fr < limit")
    case True
    have lt: "limit - mtd_next_eb m fr < limit - fr" using next_eb(2) [OF assms(1)] True assms(2) by (simp add: diff_less_mono2)
    note st = candidates_step [OF assms(1) True assms(2)] and IH = less [OF lt]
    show ?thesis
    proof (cases "mtd_check_rootfs_magic m fr")
      case (Inl e)
      then have "rootfs_test m fr None = (False, None)" by (simp add: rootfs_test_def)
      from for_blocks_next [of fr limit "rootfs_test m" None None "mtd_next_eb m", OF True this]
      show ?thesis using IH Inl by (simp add: mtd_find_rootfs_from_def st)
    next
      case (Inr t)
      then have "rootfs_test m fr None = (True, Some t)" by (simp add: rootfs_test_def)
      from for_blocks_stop [of fr limit "rootfs_test m" None "Some t" "mtd_next_eb m", OF True this]
      show ?thesis using Inr by (simp add: mtd_find_rootfs_from_def st)
    qed
  next
    case False
    then show ?thesis by (simp add: mtd_find_rootfs_from_def rootfs_candidates_def)
  qed
qed

end
