(* ===== verification/Mtdsplit_Parsers.thy ===== *)
theory Mtdsplit_Parsers
  imports Mtdsplit_Base
begin

text \<open>
  The splitters that find the end of the kernel from a header at the start of the partition:
  LZMA, EVA, Seama, WRGG, TP-Link, MINOR, executable prolog, brnImage, H3C, SEIL, ELF and CFE
  bootfs, and the squashfs splitter that adds \<^verbatim>\<open>rootfs_data\<close>. Each header is the list of the bytes
  read; the offsets of its fields are those of the packed C structure.

  Two locales state what a splitter promises its caller: the two partitions are inside the
  device and do not overlap (\<open>kernel_rootfs_split\<close>), and it returns (\<open>total_split\<close>).
\<close>

section \<open>The common end of a splitter\<close>

definition rootfs_name :: "mtdsplit_part_type \<Rightarrow> string" where
  "rootfs_name t = (if t = PART_TYPE_UBI then UBI_PART_NAME else ROOTFS_PART_NAME)"

text \<open>
  Search the root file system from \<open>fr\<close>, allocate the two partitions and fill them: the kernel
  (named \<open>kn\<close>) from 0 to the root file system, which takes the rest.
\<close>

definition split_at_rootfs ::
    "mtd_dev \<Rightarrow> bool \<Rightarrow> string \<Rightarrow> (mtdsplit_part_type \<Rightarrow> string) \<Rightarrow> nat \<Rightarrow> split_result" where
  "split_at_rootfs m alloc kn nm fr =
     (case mtd_find_rootfs_from m (szt m fr) (szt m (m_size m)) of
        None \<Rightarrow> None
      | Some (Inl err) \<Rightarrow> Some (Inl err)
      | Some (Inr (rootfs_offset, t)) \<Rightarrow>
          Some (if \<not> alloc then Inl (- ENOMEM)
                else Inr [mk_part kn 0 rootfs_offset,
                          mk_part (nm t) rootfs_offset (sub64 (m_size m) rootfs_offset)]))"

abbreviation (input) always_rootfs :: "mtdsplit_part_type \<Rightarrow> string" where
  "always_rootfs \<equiv> \<lambda>_. ROOTFS_PART_NAME"

section \<open>LZMA\<close>

definition is_power_of_2 :: "nat \<Rightarrow> bool" where
  "is_power_of_2 n \<longleftrightarrow> n \<noteq> 0 \<and> n AND (n - 1) = 0"

definition mtdsplit_parse_lzma :: "mtd_dev \<Rightarrow> bool \<Rightarrow> split_result" where
  "mtdsplit_parse_lzma m alloc =
     (case read_exact m 0 13 of
        Inl err \<Rightarrow> Some (Inl err)
      | Inr hdr \<Rightarrow>
          if u8_at hdr 0 \<ge> 9 * 5 * 5 then Some (Inl (- EINVAL))
          else if \<not> is_power_of_2 (le32_at hdr 1) then Some (Inl (- EINVAL))
          else if le32_at hdr 9 \<noteq> 0 then Some (Inl (- EINVAL))
          else split_at_rootfs m alloc KERNEL_PART_NAME always_rootfs (m_erasesize m))"

section \<open>EVA\<close>

definition mtdsplit_parse_eva :: "mtd_dev \<Rightarrow> bool \<Rightarrow> split_result" where
  "mtdsplit_parse_eva m alloc =
     Some (case read_exact m 0 8 of
        Inl err \<Rightarrow> Inl err
      | Inr hdr \<Rightarrow>
          if le32_at hdr 0 \<noteq> 0xfeed1281 then Inl (- EINVAL)
          else
            let kernel_size = u32 (le32_at hdr 4 + 0x18);
                rootfs_offset = szt m (szt m (round_up kernel_size 0x10000) + 0x100)
            in if rootfs_offset \<ge> m_size m then Inl (- EINVAL)
               else
                 case mtd_check_rootfs_magic m rootfs_offset of
                   Inl err \<Rightarrow> Inl err
                 | Inr _ \<Rightarrow>
                     if \<not> alloc then Inl (- ENOMEM)
                     else Inr [mk_part KERNEL_PART_NAME 0 kernel_size,
                               mk_part ROOTFS_PART_NAME rootfs_offset (sub64 (m_size m) rootfs_offset)])"

section \<open>Seama\<close>

definition mtdsplit_parse_seama :: "mtd_dev \<Rightarrow> bool \<Rightarrow> split_result" where
  "mtdsplit_parse_seama m alloc =
     (case read_exact m 0 28 of
        Inl err \<Rightarrow> Some (Inl err)
      | Inr hdr \<Rightarrow>
          if be32_at hdr 0 \<noteq> 0x5EA3A417 then Some (Inl (- EINVAL))
          else
            let kernel_ent_size = szt m (28 + be32_at hdr 8 + be16_at hdr 6)
            in if kernel_ent_size > m_size m then Some (Inl (- EINVAL))
               else
                 let fill = (\<lambda>(rootfs_offset, t).
                       if \<not> alloc then Inl (- ENOMEM)
                       else Inr [mk_part KERNEL_PART_NAME (28 + be16_at hdr 6) (sub64 rootfs_offset (28 + be16_at hdr 6)),
                                 mk_part (rootfs_name t) rootfs_offset (sub64 (m_size m) rootfs_offset)])
                 in case mtd_check_rootfs_magic m kernel_ent_size of
                      Inr t \<Rightarrow> Some (fill (kernel_ent_size, t))
                    | Inl _ \<Rightarrow>
                        case mtd_find_rootfs_from m 0x80000 (szt m (m_size m)) of
                          None \<Rightarrow> None
                        | Some (Inl err) \<Rightarrow> Some (Inl err)
                        | Some (Inr p) \<Rightarrow> Some (fill p))"

section \<open>WRGG\<close>

definition mtdsplit_parse_wrgg :: "mtd_dev \<Rightarrow> bool \<Rightarrow> split_result" where
  "mtdsplit_parse_wrgg m alloc =
     (case read_exact m 0 160 of
        Inl err \<Rightarrow> Some (Inl err)
      | Inr hdr \<Rightarrow>
          let kernel_ent_size =
                (if le32_at hdr 32 = 0x20080321 then
                   let sz = szt m (160 + be32_at hdr 104)
                   in if sz > m_size m then
                        let sz' = szt m (160 + le32_at hdr 104)
                        in if sz' > m_size m then None else Some sz'
                      else Some sz
                 else if le32_at hdr 32 = 0x20040220 then Some (szt m (96 + le32_at hdr 40))
                 else None)
          in case kernel_ent_size of
               None \<Rightarrow> Some (Inl (- EINVAL))
             | Some sz \<Rightarrow>
                 if sz > m_size m then Some (Inl (- EINVAL))
                 else split_at_rootfs m alloc KERNEL_PART_NAME always_rootfs 0x80000)"

section \<open>TP-Link\<close>

text \<open>The three fields used, in the layout of each version of the header.\<close>

definition tplink_fields :: "byte list \<Rightarrow> (nat \<times> nat \<times> nat) option" where
  "tplink_fields hdr =
     (let v = le32_at hdr 0
      in if v = 1 then Some (be32_at hdr 128, be32_at hdr 132, be32_at hdr 136)
         else if v = 2 \<or> v = 3 then Some (be32_at hdr 116, be32_at hdr 120, be32_at hdr 124)
         else None)"

definition mtdsplit_parse_tplink :: "mtd_dev \<Rightarrow> bool \<Rightarrow> split_result" where
  "mtdsplit_parse_tplink m alloc =
     (case read_exact m 0 512 of
        Inl err \<Rightarrow> Some (Inl err)
      | Inr hdr \<Rightarrow>
          case tplink_fields hdr of
            None \<Rightarrow> Some (Inl (- EINVAL))
          | Some (kernel_ofs, kernel_len, rootfs_ofs) \<Rightarrow>
              if kernel_ofs \<noteq> 512 then Some (Inl (- EINVAL))
              else
                let kernel_size = szt m (512 + kernel_len);
                    fill = (\<lambda>rootfs_offset.
                      if \<not> alloc then Inl (- ENOMEM)
                      else Inr [mk_part KERNEL_PART_NAME 0 kernel_size,
                                mk_part ROOTFS_PART_NAME rootfs_offset (sub64 (m_size m) rootfs_offset)])
                in if kernel_size > m_size m then Some (Inl (- EINVAL))
                   else
                     case mtd_check_rootfs_magic m rootfs_ofs of
                       Inr _ \<Rightarrow> Some (fill rootfs_ofs)
                     | Inl _ \<Rightarrow>
                         case mtd_find_rootfs_from m 0x80000 (szt m (m_size m)) of
                           None \<Rightarrow> None
                         | Some (Inl err) \<Rightarrow> Some (Inl err)
                         | Some (Inr (r, _)) \<Rightarrow> Some (fill r))"

section \<open>MINOR\<close>

definition mtdsplit_parse_minor :: "mtd_dev \<Rightarrow> bool \<Rightarrow> split_result" where
  "mtdsplit_parse_minor m alloc =
     (case read_exact m 0 140 of
        Inl err \<Rightarrow> Some (Inl err)
      | Inr hdr \<Rightarrow>
          if cpu_at m 4 hdr 0 \<noteq> 1 then Some (Inl (- ENOENT))
          else if cpu_at m 4 hdr 4 \<noteq> 1 then Some (Inl (- ENOENT))
          else if cpu_at m 2 hdr 8 \<noteq> 0xFFFF then Some (Inl (- ENOENT))
          else if field 10 7 hdr \<noteq> bytes_of ''kernel'' @ [0] \<and> field 10 10 hdr \<noteq> bytes_of ''bootimage'' @ [0]
          then Some (Inl (- ENOENT))
          else split_at_rootfs m alloc KERNEL_PART_NAME always_rootfs (m_erasesize m))"

section \<open>Executable prolog\<close>

text \<open>The search for the tag: \<open>n\<close> positions are left, \<open>i\<close> is the next.\<close>

fun find_prolog :: "nat \<Rightarrow> nat \<Rightarrow> byte list \<Rightarrow> nat option" where
  "find_prolog 0 i buf = None"
| "find_prolog (Suc n) i buf =
     (if field i 18 buf = bytes_of ''OPENWRT-PROLOG-512'' then Some i else find_prolog n (i + 1) buf)"

text \<open>\<^verbatim>\<open>kstrtol\<close> of the kernel is a parameter: an error code or the number at the start of the text.\<close>

definition mtdsplit_parse_owrt_prolog :: "(byte list \<Rightarrow> int + int) \<Rightarrow> mtd_dev \<Rightarrow> bool \<Rightarrow> split_result" where
  "mtdsplit_parse_owrt_prolog kstrtol m alloc =
     Some (case read_exact m 0 512 of
        Inl err \<Rightarrow> Inl err
      | Inr buf \<Rightarrow>
          case find_prolog (512 - 32) 0 buf of
            None \<Rightarrow> Inl (- EINVAL)
          | Some i \<Rightarrow>
              case kstrtol (drop (i + 18 + 1) buf) of
                Inl err \<Rightarrow> Inl err
              | Inr v \<Rightarrow>
                  let kernel_size = nat ((v + 512) mod int (m_szmod m));
                      rootfs_offset = szt m (round_up kernel_size 0x20000)
                  in if rootfs_offset \<ge> m_size m then Inl (- EINVAL)
                     else
                       case mtd_check_rootfs_magic m rootfs_offset of
                         Inl err \<Rightarrow> Inl err
                       | Inr _ \<Rightarrow>
                           if \<not> alloc then Inl (- ENOMEM)
                           else Inr [mk_part KERNEL_PART_NAME 0 kernel_size,
                                     mk_part ROOTFS_PART_NAME rootfs_offset (sub64 (m_size m) rootfs_offset)])"

section \<open>brnImage\<close>

text \<open>The state of the loop is the last result of the magic check, 0 before the first.\<close>

definition brn_test :: "mtd_dev \<Rightarrow> nat \<Rightarrow> int \<Rightarrow> bool \<times> int" where
  "brn_test m off ret = (case mtd_check_rootfs_magic m off of Inl e \<Rightarrow> (False, e) | Inr _ \<Rightarrow> (True, 0))"

definition mtdsplit_parse_brnimage :: "mtd_dev \<Rightarrow> bool \<Rightarrow> split_result" where
  "mtdsplit_parse_brnimage m alloc =
     (case for_blocks (\<lambda>off. szt m (off + 0x400)) (m_size m) (brn_test m) 0 0 of
        None \<Rightarrow> None
      | Some (rootfs_offset, ret) \<Rightarrow>
          Some (if ret \<noteq> 0 then Inl ret
                else if rootfs_offset \<ge> m_size m then Inl (- EINVAL)
                else
                  case read_exact m (szt_sub m rootfs_offset 12) 4 of
                    Inl err \<Rightarrow> Inl err
                  | Inr buf \<Rightarrow>
                      let kernel_size = le32_at buf 0
                      in if kernel_size > szt_sub m rootfs_offset 12 then Inl (- EINVAL)
                         else if kernel_size < szt_sub m rootfs_offset (0x400 + 12) then Inl (- EINVAL)
                         else if \<not> alloc then Inl (- ENOMEM)
                         else Inr [mk_part KERNEL_PART_NAME 0 kernel_size,
                                   mk_part ROOTFS_PART_NAME rootfs_offset
                                     (szt m (sub64 (sub64 (m_size m) rootfs_offset) 12))]))"

section \<open>H3C VFS\<close>

text \<open>The offset is computed with type \<^verbatim>\<open>int\<close>, which wraps, and then extended to \<^verbatim>\<open>size_t\<close> with its sign.\<close>

definition block_offset :: "mtd_dev \<Rightarrow> nat \<Rightarrow> nat" where
  "block_offset m block = int_to_szt m (s32 (0x10000 * (block div 63) + 0x400 * (1 + block mod 63)))"

definition block_count_h3c :: "mtd_dev \<Rightarrow> nat \<Rightarrow> nat" where
  "block_count_h3c m sz = szt m (sz + 0x400 - 1) div 0x400"

definition mtdsplit_h3c_vfs_parse :: "mtd_dev \<Rightarrow> bool \<Rightarrow> split_result" where
  "mtdsplit_h3c_vfs_parse m alloc =
     (if m_erasesize m \<noteq> 0x10000 then Some (Inl (- EINVAL))
      else
        case read_exact m 0 4 of
          Inl err \<Rightarrow> Some (Inl err)
        | Inr ff \<Rightarrow>
            if cpu_at m 4 ff 0 \<noteq> 0x10000400 then Some (Inl (- ENOENT))
            else
              case read_exact m 0x800 128 of
                Inl err \<Rightarrow> Some (Inl err)
              | Inr fe \<Rightarrow>
                  if u8_at fe 0 \<noteq> 0x3f then Some (Inl (- ENOENT))
                  else if cpu_at m 4 fe 20 \<noteq> 0 then Some (Inl (- ENOENT))
                  else if cpu_at m 2 fe 24 \<noteq> 0 then Some (Inl (- ENOENT))
                  else if cpu_at m 4 fe 28 \<noteq> 2 then Some (Inl (- ENOENT))
                  else if field 32 19 fe \<noteq> bytes_of ''openwrt-kernel.bin'' @ [0] then Some (Inl (- ENOENT))
                  else
                    let kernel_size = szt m (block_offset m (cpu_at m 4 fe 28 + block_count_h3c m (cpu_at m 4 fe 16) - 1) + 0x400)
                    in split_at_rootfs m alloc KERNEL_PART_NAME always_rootfs (mtd_roundup_to_eb kernel_size (m_erasesize m)))"

section \<open>SEIL\<close>

text \<open>
  The boot loader environment: \<^verbatim>\<open>name=value\<close> strings, each ended by a zero byte. The end of the
  buffer ends a string too, where the code would read on.
\<close>

function seil_env :: "byte list \<Rightarrow> byte list \<Rightarrow> bool" where
  "seil_env devnm bs =
     (if c_string bs = [] then False
      else if 0x3d \<notin> set (c_string bs) then False
      else
        let var = takeWhile (\<lambda>b. b \<noteq> 0x3d) bs;
            rest = drop (length var + 1) bs;
            value = c_string rest
        in if var = bytes_of ''BOOTDEV'' then devnm = value
           else seil_env devnm (drop (length value + 1) rest))"
  by pat_completeness auto
termination
proof (relation "measure (\<lambda>(_, bs). length bs)", goal_cases)
  case (2 devnm bs v r val)
  then have "bs \<noteq> []" by (auto simp: c_string_def)
  with 2 show ?case by simp
qed simp

declare seil_env.simps [simp del]

text \<open>
  \<open>name\<close> is the property with the name of the boot device, or the error of reading it; \<open>env\<close> is the
  partition with the environment, if there is one.
\<close>

definition seil_bootdev_is_active :: "int + string \<Rightarrow> mtd_dev option \<Rightarrow> bool \<Rightarrow> bool" where
  "seil_bootdev_is_active name env vmalloc_ok =
     (case name of
        Inl e \<Rightarrow> e = - EINVAL
      | Inr devnm \<Rightarrow>
          case env of
            None \<Rightarrow> False
          | Some e \<Rightarrow>
              if \<not> vmalloc_ok then False
              else case read_exact e 0 (m_size e) of
                     Inl _ \<Rightarrow> False
                   | Inr buf \<Rightarrow> seil_env (bytes_of devnm) buf)"

definition mtdsplit_parse_seil_fw :: "int + string \<Rightarrow> mtd_dev option \<Rightarrow> bool \<Rightarrow> int + nat \<Rightarrow> mtd_dev \<Rightarrow> bool \<Rightarrow> split_result" where
  "mtdsplit_parse_seil_fw name env vmalloc_ok id_prop m alloc =
     (if \<not> seil_bootdev_is_active name env vmalloc_ok then Some (Inl (- ENOENT))
      else
        case id_prop of
          Inl e \<Rightarrow> Some (Inl e)
        | Inr sid \<Rightarrow>
            if \<not> alloc then Some (Inl (- ENOMEM))
            else
              case read_exact m 0 144 of
                Inl e \<Rightarrow> Some (Inl e)
              | Inr hdr \<Rightarrow>
                  if be_val (field 0 8 hdr) \<noteq> sid \<or> be32_at hdr 92 \<noteq> 1 then Some (Inl (- ENOENT))
                  else
                    let image_size = szt m (144 + be32_at hdr 140)
                    in if image_size > m_size m then Some (Inl (- EINVAL))
                       else
                         case mtd_find_rootfs_from m image_size (szt m (m_size m)) of
                           None \<Rightarrow> None
                         | Some (Inl _) \<Rightarrow> Some (Inl (- ENOENT))
                         | Some (Inr (r, _)) \<Rightarrow>
                             Some (if sub64 (m_size m) r = 0 then Inl (- ENOENT)
                                   else Inr [mk_part KERNEL_PART_NAME 0 r,
                                             mk_part ROOTFS_PART_NAME r (sub64 (m_size m) r)]))"

section \<open>ELF loader\<close>

text \<open>
  The product of two 16-bit numbers has type \<^verbatim>\<open>int\<close>: from \<open>2^31\<close> on it is negative, and added to a 64-bit
  number it is extended with its sign.
\<close>

definition int_product :: "nat \<Rightarrow> nat \<Rightarrow> nat" where
  "int_product a b = (let p = a * b in if p < 2147483648 then p else p + (2 ^ 64 - 2 ^ 32))"

text \<open>
  One program header: the state is the error or the size so far. \<open>sz\<close> is the size of a header,
  \<open>ofs\<close> and \<open>fsz\<close> the offsets of its two members and \<open>w\<close> their width in bytes.
\<close>

definition elf_ph_step :: "mtd_dev \<Rightarrow> nat \<Rightarrow> nat \<Rightarrow> nat \<Rightarrow> nat \<Rightarrow> nat \<Rightarrow> int + nat \<Rightarrow> bool \<times> (int + nat)" where
  "elf_ph_step m sz w ofs fsz ph_entry st =
     (case st of
        Inl e \<Rightarrow> (True, st)
      | Inr sofar \<Rightarrow>
          case read_exact m ph_entry sz of
            Inl e \<Rightarrow> (True, Inl e)
          | Inr ph \<Rightarrow>
              let section_end = szt m ((cpu_at m w ph ofs + cpu_at m w ph fsz) mod 256 ^ w)
              in (False, Inr (max sofar section_end)))"

definition elf_determine_size :: "mtd_dev \<Rightarrow> nat \<Rightarrow> nat \<Rightarrow> nat \<Rightarrow> nat \<Rightarrow> nat \<Rightarrow> nat \<Rightarrow> nat \<Rightarrow> nat \<Rightarrow> nat \<Rightarrow> nat \<Rightarrow> (int + nat) option" where
  "elf_determine_size m w phoff shoff phentsize phnum shentsize shnum sz ofs fsz =
     (if shoff > 0 then Some (Inr (szt m ((shoff + int_product shentsize shnum) mod 256 ^ w)))
      else
        let ph_table_end = szt m ((phoff + int_product phentsize phnum) mod 256 ^ w)
        in case for_blocks (\<lambda>e. szt m (e + phentsize)) ph_table_end (elf_ph_step m sz w ofs fsz) (szt m phoff) (Inr 0) of
             None \<Rightarrow> None
           | Some (_, st) \<Rightarrow> Some st)"

definition elf32_determine_size :: "mtd_dev \<Rightarrow> byte list \<Rightarrow> (int + nat) option" where
  "elf32_determine_size m hdr =
     elf_determine_size m 4 (cpu_at m 4 hdr 28) (cpu_at m 4 hdr 32) (cpu_at m 2 hdr 42) (cpu_at m 2 hdr 44)
       (cpu_at m 2 hdr 46) (cpu_at m 2 hdr 48) 28 4 16"

definition elf64_determine_size :: "mtd_dev \<Rightarrow> byte list \<Rightarrow> (int + nat) option" where
  "elf64_determine_size m hdr =
     elf_determine_size m 8 (cpu_at m 8 hdr 32) (cpu_at m 8 hdr 40) (cpu_at m 2 hdr 54) (cpu_at m 2 hdr 56)
       (cpu_at m 2 hdr 58) (cpu_at m 2 hdr 60) 48 8 32"

definition mtdsplit_parse_elf :: "mtd_dev \<Rightarrow> bool \<Rightarrow> split_result" where
  "mtdsplit_parse_elf m alloc =
     (case read_exact m 0 64 of
        Inl err \<Rightarrow> Some (Inl err)
      | Inr hdr \<Rightarrow>
          if be32_at hdr 0 \<noteq> 0x7f454c46 then Some (Inl (- EINVAL))
          else
            case (if u8_at hdr 4 = 1 then elf32_determine_size m hdr
                  else if u8_at hdr 4 = 2 then elf64_determine_size m hdr
                  else Some (Inl (- EINVAL))) of
              None \<Rightarrow> None
            | Some (Inl err) \<Rightarrow> Some (Inl err)
            | Some (Inr loader_size) \<Rightarrow>
                case mtd_find_rootfs_from m loader_size (szt m (m_size m)) of
                  None \<Rightarrow> None
                | Some (Inl err) \<Rightarrow> Some (Inl err)
                | Some (Inr (r, t)) \<Rightarrow>
                    Some (if r = m_size m then Inl (- ENOENT)
                          else if \<not> alloc then Inl (- ENOMEM)
                          else Inr [mk_part KERNEL_PART_NAME 0 r, mk_part (rootfs_name t) r (sub64 (m_size m) r)]))"

section \<open>CFE bootfs\<close>

text \<open>
  The loop over the JFFS2 nodes, whose result the code does not use. It is a do-while loop: the
  body runs before the test.
\<close>

definition bootfs_next :: "mtd_dev \<Rightarrow> byte list \<Rightarrow> nat \<Rightarrow> nat" where
  "bootfs_next m node off = szt m (szt m (off + cpu_at m 4 node 4) + 3) div 4 * 4"

partial_function (option) bootfs_end :: "mtd_dev \<Rightarrow> nat \<Rightarrow> nat option" where
  "bootfs_end m off =
     (case read_exact m off 40 of
        Inl _ \<Rightarrow> Some off
      | Inr node \<Rightarrow>
          if cpu_at m 2 node 0 \<noteq> 0x1985 then Some off
          else if bootfs_next m node off < m_size m then bootfs_end m (bootfs_next m node off)
          else Some (bootfs_next m node off))"

definition mtdsplit_cfe_bootfs_parse :: "mtd_dev \<Rightarrow> bool \<Rightarrow> split_result" where
  "mtdsplit_cfe_bootfs_parse m alloc =
     (if m_name m \<noteq> ''firmware'' then Some (Inl (- EINVAL))
      else
        case bootfs_end m 0 of
          None \<Rightarrow> None
        | Some _ \<Rightarrow> split_at_rootfs m alloc ''bootfs'' rootfs_name (m_erasesize m))"

section \<open>The overlay behind a squashfs\<close>

definition mtdsplit_parse_squashfs :: "mtd_dev \<Rightarrow> bool \<Rightarrow> split_result" where
  "mtdsplit_parse_squashfs m alloc =
     Some (case mtd_get_squashfs_len m 0 of
        Inl err \<Rightarrow> Inl err
      | Inr squashfs_len \<Rightarrow>
          if \<not> alloc then Inl (- ENOMEM)
          else
            let part_offset = szt m (m_offset m);
                off = sub64 (mtd_roundup_to_eb (szt m (part_offset + squashfs_len)) (m_master_erasesize m)) part_offset
            in Inr [mk_part ROOTFS_SPLIT_NAME off (mtd_rounddown_to_eb (sub64 (m_size m) off) (m_erasesize m))])"

section \<open>What a splitter promises\<close>

text \<open>
  The partitions a splitter hands to the MTD core: a kernel partition and, behind it, the root
  file system, both inside the device.
\<close>

definition good_split :: "mtd_dev \<Rightarrow> mtd_partition list \<Rightarrow> bool" where
  "good_split m ps \<longleftrightarrow>
     (case ps of [a, b] \<Rightarrow> pt_offset a + pt_size a \<le> pt_offset b \<and> pt_offset b + pt_size b \<le> m_size m \<and> pt_offset b < m_size m
      | _ \<Rightarrow> False)"

lemma good_split_cases:
  assumes "good_split m ps"
  obtains a b where "ps = [a, b]" and "pt_offset a + pt_size a \<le> pt_offset b"
    and "pt_offset b + pt_size b \<le> m_size m" and "pt_offset b < m_size m"
  using assms by (auto simp: good_split_def split: list.splits)

definition part_bytes :: "mtd_partition \<Rightarrow> nat set" where
  "part_bytes p = {pt_offset p..<pt_offset p + pt_size p}"

locale kernel_rootfs_split =
  fixes parse :: "mtd_dev \<Rightarrow> bool \<Rightarrow> split_result"
  assumes shape: "dev_ok m \<Longrightarrow> parse m alloc = Some (Inr ps) \<Longrightarrow> good_split m ps"
begin

lemma inside:
  assumes "dev_ok m" and "parse m alloc = Some (Inr ps)" and "p \<in> set ps"
  shows "part_bytes p \<subseteq> {0..<m_size m}"
  using shape [OF assms(1,2)] assms(3) by (auto simp: part_bytes_def elim!: good_split_cases)

lemma disjoint:
  assumes "dev_ok m" and "parse m alloc = Some (Inr ps)"
  shows "length ps = 2 \<and> part_bytes (ps ! 0) \<inter> part_bytes (ps ! 1) = {}"
  using shape [OF assms] by (auto simp: part_bytes_def elim!: good_split_cases)

end

locale total_split = kernel_rootfs_split +
  assumes returns: "dev_ok m \<Longrightarrow> parse m alloc \<noteq> None"
begin

text \<open>What the caller can rely on: the parser answers, with an error or with two disjoint partitions.\<close>

lemma answers:
  assumes "dev_ok m"
  shows "\<exists>r. parse m alloc = Some r \<and> (case r of Inl e \<Rightarrow> True | Inr ps \<Rightarrow>
    length ps = 2 \<and> part_bytes (ps ! 0) \<inter> part_bytes (ps ! 1) = {} \<and> (\<forall>p\<in>set ps. part_bytes p \<subseteq> {0..<m_size m}))"
proof -
  obtain r where r: "parse m alloc = Some r" using returns [OF assms] by auto
  show ?thesis
  proof (cases r)
    case (Inr ps)
    with r disjoint [OF assms] inside [OF assms] show ?thesis by auto
  qed (use r in auto)
qed

end

section \<open>The splitters keep the promise\<close>

lemma good_split_at:
  "r < m_size m \<Longrightarrow> m_size m < 4294967296 \<Longrightarrow> good_split m [mk_part kn 0 r, mk_part rn r (sub64 (m_size m) r)]"
  by (simp add: good_split_def)

lemma split_at_rootfs_shape:
  assumes "dev_ok m" and "split_at_rootfs m alloc kn nm fr = Some (Inr ps)"
  shows "good_split m ps"
proof -
  note d = dev_okD [OF assms(1)]
  from assms(2) d(5) obtain r t where fr: "mtd_find_rootfs_from m (szt m fr) (m_size m) = Some (Inr (r, t))"
    and ps: "ps = [mk_part kn 0 r, mk_part (nm t) r (sub64 (m_size m) r)]"
    by (auto simp: split_at_rootfs_def split: option.splits sum.splits if_splits)
  from find_rootfs_result(2) [OF fr assms(1)] d(3) show ?thesis unfolding ps by (intro good_split_at) simp_all
qed

lemma split_at_rootfs_returns: "dev_ok m \<Longrightarrow> split_at_rootfs m alloc kn nm fr \<noteq> None"
  using find_rootfs_returns [of m "m_size m" "szt m fr"] dev_okD(5) [of m]
  by (auto simp: split_at_rootfs_def split: option.splits sum.splits)

lemmas split_simps = split_at_rootfs_shape split_at_rootfs_returns

interpretation lzma: total_split mtdsplit_parse_lzma
  by unfold_locales (auto simp: mtdsplit_parse_lzma_def split: sum.splits if_splits dest: split_simps)

interpretation minor: total_split mtdsplit_parse_minor
  by unfold_locales (auto simp: mtdsplit_parse_minor_def split: sum.splits if_splits dest: split_simps)

interpretation wrgg: total_split mtdsplit_parse_wrgg
  by unfold_locales (auto simp: mtdsplit_parse_wrgg_def Let_def split: sum.splits option.splits if_splits dest: split_simps)

interpretation h3c: total_split mtdsplit_h3c_vfs_parse
  by unfold_locales (auto simp: mtdsplit_h3c_vfs_parse_def Let_def split: sum.splits if_splits dest: split_simps)

interpretation cfe: kernel_rootfs_split mtdsplit_cfe_bootfs_parse
  by unfold_locales (auto simp: mtdsplit_cfe_bootfs_parse_def split: option.splits if_splits dest: split_simps)

lemma seil_shape:
  assumes "dev_ok m" and "mtdsplit_parse_seil_fw name env v idp m alloc = Some (Inr ps)"
  shows "good_split m ps"
proof -
  note d = dev_okD [OF assms(1)]
  from assms(2) d(5) obtain fr r t where fr: "mtd_find_rootfs_from m fr (m_size m) = Some (Inr (r, t))"
    and ps: "ps = [mk_part KERNEL_PART_NAME 0 r, mk_part ROOTFS_PART_NAME r (sub64 (m_size m) r)]"
    by (auto simp: mtdsplit_parse_seil_fw_def Let_def split: option.splits sum.splits if_splits)
  from find_rootfs_result(2) [OF fr assms(1)] d(3) show ?thesis unfolding ps by (intro good_split_at) simp_all
qed

lemma seil_returns: "dev_ok m \<Longrightarrow> mtdsplit_parse_seil_fw name env v idp m alloc \<noteq> None"
  by (auto simp: mtdsplit_parse_seil_fw_def Let_def find_rootfs_total split: option.splits sum.splits if_splits)

interpretation seil: total_split "mtdsplit_parse_seil_fw name env v idp"
  for name :: "int + string" and env :: "mtd_dev option" and v :: bool and idp :: "int + nat"
  by unfold_locales (auto dest: seil_shape seil_returns)

text \<open>
  The program headers of an ELF file: the loop runs only if the table does not wrap, and then it
  passes each entry once.
\<close>

lemma ph_table:
  fixes p M W P :: nat
  assumes "P < M" and "M dvd W \<or> W dvd M" and "p < W" and "p mod M < ((p + P) mod W) mod M" and "P < W"
  shows "((p + P) mod W) mod M = p mod M + P"
proof (cases "M dvd W")
  case True
  then have eq: "((p + P) mod W) mod M = (p mod M + P) mod M" by (simp add: mod_mod_cancel mod_add_left_eq)
  have q: "p mod M < M" using assms(1) by simp
  define q where "q = p mod M"
  have ql: "q < M" using q by (simp add: q_def)
  have "(q + P) mod M = (if q + P < M then q + P else q + P - M)"
    using ql assms(1) by (simp add: le_mod_geq)
  with assms(1,4) eq q show ?thesis unfolding q_def [symmetric] by (auto split: if_splits)
next
  case False
  then have d: "W dvd M" using assms(2) by simp
  then have "W \<le> M" using assms(1) by (intro dvd_imp_le) auto
  then have l: "(p + P) mod W < M" "p < M" using assms(3) mod_less_divisor [of W "p + P"] by linarith+
  have "p mod M = p" "((p + P) mod W) mod M = (p + P) mod W" using mod_less [OF l(1)] mod_less [OF l(2)] by simp_all
  moreover have "(p + P) mod W = (if p + P < W then p + P else p + P - W)"
    using assms(3,5) by (simp add: le_mod_geq)
  ultimately show ?thesis using assms(3-5) by (auto split: if_splits)
qed

text \<open>With a 32-bit \<^verbatim>\<open>size_t\<close> the sign does not matter; with 64 bits a read behind the device ends the loop.\<close>

lemma szt_int_product:
  assumes "m_szmod m = 2 ^ 32" and "w = 4 \<or> w = 8"
  shows "szt m ((p + int_product a b) mod 256 ^ w) = szt m ((p + a * b) mod 256 ^ w)"
proof -
  have "m_szmod m dvd 256 ^ w" using assms by auto
  then have "szt m (n mod 256 ^ w) = n mod 4294967296" for n using assms(1) by (simp add: szt_def mod_mod_cancel)
  moreover have "(p + int_product a b) mod 4294967296 = (p + a * b) mod 4294967296"
  proof -
    have "(p + (a * b + (2 ^ 64 - 2 ^ 32))) mod 4294967296 = (p + a * b + 4294967295 * 4294967296) mod 4294967296"
      by (simp add: add.assoc)
    then show ?thesis by (simp only: mod_mult_self1 int_product_def Let_def split: if_split) simp
  qed
  ultimately show ?thesis by simp
qed

lemma elf_loop_returns32:
  assumes "dev_ok m" and "m_szmod m = 2 ^ 32" and "w = 4 \<or> w = 8" and "phoff < 256 ^ w" and "phentsize < 65536" and "phnum < 65536"
  shows "\<exists>r. for_blocks (\<lambda>e. szt m (e + phentsize)) (szt m ((phoff + phentsize * phnum) mod 256 ^ w)) body (szt m phoff) st = Some r"
    (is "\<exists>r. for_blocks _ ?t _ ?s _ = _")
proof (cases "?s < ?t")
  case True
  let ?P = "phentsize * phnum"
  have "?P \<le> 65535 * 65535" using assms(5,6) by (intro mult_le_mono) simp_all
  then have dv: "m_szmod m dvd 256 ^ w \<or> 256 ^ w dvd m_szmod m" "?P < m_szmod m" "?P < 256 ^ w" using assms(2,3) by auto
  have t: "?t = ?s + ?P"
    using ph_table [OF dv(2,1) assms(4)] dv(3) True by (simp add: szt_def)
  have tM: "?t < m_szmod m" using assms(2) by (auto simp: szt_def)
  show ?thesis
  proof (rule for_blocks_returns_inv [where I = "\<lambda>off. \<exists>i. off + i * phentsize = ?t"])
    show "\<exists>i. ?s + i * phentsize = ?t" using t by (intro exI [of _ phnum]) simp
    fix off assume i: "\<exists>i. off + i * phentsize = ?t" and l: "off < ?t"
    then obtain i where "off + i * phentsize = ?t" by blast
    moreover from this l obtain j where "i = Suc j" by (cases i) auto
    ultimately have j: "off + phentsize + j * phentsize = ?t" by simp
    then have "szt m (off + phentsize) = off + phentsize" using tM by (intro szt_id) linarith
    moreover have "0 < phentsize" using j l by (cases phentsize) auto
    ultimately show "off < szt m (off + phentsize) \<and> (\<exists>i. szt m (off + phentsize) + i * phentsize = ?t)"
      using j by auto
  qed
qed simp

lemma elf_loop_returns64:
  assumes "dev_ok m" and "m_szmod m = 2 ^ 64" and "0 < phentsize" and "phentsize < 65536" and "0 < sz"
  shows "\<exists>r. for_blocks (\<lambda>e. szt m (e + phentsize)) t (elf_ph_step m sz w ofs fsz) off st = Some r"
proof (rule for_blocks_returns_body [where I = "\<lambda>_. True"])
  fix off s s'
  assume "elf_ph_step m sz w ofs fsz off s = (False, s')"
  then obtain ph where "read_exact m off sz = Inr ph"
    by (auto simp: elf_ph_step_def split: sum.splits)
  then have "off + sz \<le> m_size m" using read_exact_inside [OF assms(1)] assms(5) by blast
  then have "szt m (off + phentsize) = off + phentsize" using dev_okD(3) [OF assms(1)] assms(2,4) by (intro szt_id) simp
  then show "off < szt m (off + phentsize) \<and> True" using assms(3) by simp
qed simp

lemma elf_determine_returns:
  assumes "dev_ok m" and "w = 4 \<or> w = 8" and "phoff < 256 ^ w" and "phentsize < 65536" and "phnum < 65536" and "0 < sz"
  shows "elf_determine_size m w phoff shoff phentsize phnum shentsize shnum sz ofs fsz \<noteq> None"
proof -
  let ?t = "szt m ((phoff + int_product phentsize phnum) mod 256 ^ w)"
  consider "m_szmod m = 2 ^ 32" | "m_szmod m = 2 ^ 64" "0 < phentsize" | "phentsize = 0"
    using assms(1) by (auto simp: dev_ok_def)
  then have "\<exists>r. for_blocks (\<lambda>e. szt m (e + phentsize)) ?t (elf_ph_step m sz w ofs fsz) (szt m phoff) (Inr 0) = Some r"
  proof cases
    case 1
    then show ?thesis using elf_loop_returns32 [OF assms(1) 1 assms(2-5)] by (simp only: szt_int_product [OF 1 assms(2)])
  next
    case 2
    then show ?thesis using elf_loop_returns64 [OF assms(1) 2 assms(4,6)] by simp
  next
    case 3
    then show ?thesis using assms(3) by (simp add: int_product_def)
  qed
  then show ?thesis by (auto simp: elf_determine_size_def Let_def split: option.splits)
qed

lemma elf_sizes_return:
  assumes "dev_ok m"
  shows "elf32_determine_size m hdr = None \<longleftrightarrow> False" and "elf64_determine_size m hdr = None \<longleftrightarrow> False"
  unfolding elf32_determine_size_def elf64_determine_size_def
  using cpu_at_less [of m 2 hdr] cpu_at_less [of m 4 hdr] cpu_at_less [of m 8 hdr]
  by (simp_all add: elf_determine_returns [OF assms] del: not_None_eq)

lemma elf_shape:
  assumes "dev_ok m" and "mtdsplit_parse_elf m alloc = Some (Inr ps)"
  shows "good_split m ps"
proof -
  note d = dev_okD [OF assms(1)]
  from assms(2) d(5) obtain fr r t where fr: "mtd_find_rootfs_from m fr (m_size m) = Some (Inr (r, t))"
    and ps: "ps = [mk_part KERNEL_PART_NAME 0 r, mk_part (rootfs_name t) r (sub64 (m_size m) r)]"
    by (auto simp: mtdsplit_parse_elf_def split: option.splits sum.splits if_splits)
  from find_rootfs_result(2) [OF fr assms(1)] d(3) show ?thesis unfolding ps by (intro good_split_at) simp_all
qed

lemma elf_returns: "dev_ok m \<Longrightarrow> mtdsplit_parse_elf m alloc \<noteq> None"
  by (auto simp: mtdsplit_parse_elf_def find_rootfs_total elf_sizes_return split: option.splits sum.splits if_splits)

interpretation elf: total_split mtdsplit_parse_elf
  by unfold_locales (auto dest: elf_shape elf_returns)

lemma brn_loop:
  assumes "dev_ok m" and "for_blocks (\<lambda>off. szt m (off + 0x400)) (m_size m) (brn_test m) 0 0 = Some (off, ret)"
  shows "1024 dvd off"
  using assms(2)
proof (rule for_blocks_result [where I = "\<lambda>off _. 1024 dvd off" and Q = "\<lambda>off _. 1024 dvd off"])
  fix o' :: nat and s t :: int
  assume "1024 dvd o'" "o' < m_size m"
  moreover have "1024 \<le> m_erasesize m" using dev_okD(1,7) [OF assms(1)] by (simp add: dvd_imp_le)
  ultimately show "1024 dvd szt m (o' + 0x400)" using dev_okD(6) [OF assms(1)] by simp
qed simp_all

lemma brn_shape:
  assumes ok: "dev_ok m" and "mtdsplit_parse_brnimage m alloc = Some (Inr ps)"
  shows "good_split m ps"
proof -
  note d = dev_okD [OF ok]
  from assms(2) obtain r ret buf where
    lp: "for_blocks (\<lambda>off. szt m (off + 0x400)) (m_size m) (brn_test m) 0 0 = Some (r, ret)"
    and r: "r < m_size m" and rd: "read_exact m (szt_sub m r 12) 4 = Inr buf"
    and k: "le32_at buf 0 \<le> szt_sub m r 12"
    and ps: "ps = [mk_part KERNEL_PART_NAME 0 (le32_at buf 0), mk_part ROOTFS_PART_NAME r (szt m (sub64 (sub64 (m_size m) r) 12))]"
    by (auto simp: mtdsplit_parse_brnimage_def Let_def not_le split: option.splits prod.splits sum.splits if_splits)
  have dv: "1024 dvd r" using brn_loop [OF ok lp] .
  have "r \<noteq> 0"
  proof
    assume "r = 0"
    have "szt_sub m 0 12 = m_szmod m - 12" using ok
      by (auto simp: szt_sub_def dev_ok_def zmod_zminus1_eq_if)
    moreover have "szt_sub m r 12 + 4 \<le> m_size m" by (rule read_exact_inside [OF ok rd]) simp
    ultimately show False using \<open>r = 0\<close> d(2) ok by (auto simp: dev_ok_def)
  qed
  then have r12: "1024 \<le> r" using dv by (simp add: dvd_imp_le)
  have "1024 dvd m_size m" using d(7,8) by (rule dvd_trans)
  then have "1024 dvd m_size m - r" using dv by (rule dvd_diff_nat)
  then have "1024 \<le> m_size m - r" using r by (simp add: dvd_imp_le)
  then have "szt m (sub64 (sub64 (m_size m) r) 12) = m_size m - r - 12" using d(3,4) by simp
  moreover have "szt_sub m r 12 = r - 12" using r12 r d(4) by simp
  ultimately show ?thesis using k r r12 \<open>1024 \<le> m_size m - r\<close> by (simp add: ps good_split_def)
qed

lemma brn_returns:
  assumes "dev_ok m"
  shows "mtdsplit_parse_brnimage m alloc \<noteq> None"
proof -
  note d = dev_okD [OF assms]
  have "1024 \<le> m_erasesize m" using d(1,7) by (simp add: dvd_imp_le)
  then have "off < szt m (off + 0x400)" if "off < m_size m" for off using that d(6) by simp
  then obtain r where "for_blocks (\<lambda>off. szt m (off + 0x400)) (m_size m) (brn_test m) 0 0 = Some r"
    using for_blocks_returns by metis
  then show ?thesis by (cases r) (simp add: mtdsplit_parse_brnimage_def)
qed

interpretation brn: total_split mtdsplit_parse_brnimage
  by unfold_locales (auto dest: brn_shape brn_returns)

section \<open>Properties\<close>

text \<open>A flash whose bytes are given by a function, read as the MTD core does.\<close>

definition flash_of :: "(nat \<Rightarrow> byte) \<Rightarrow> nat \<Rightarrow> nat \<Rightarrow> mtd_dev" where
  "flash_of f sz e =
     \<lparr>m_name = ''firmware'', m_size = sz, m_erasesize = e, m_offset = 0, m_master_erasesize = e, m_nand = False,
      m_read = (\<lambda>off len. if off + len \<le> sz then (0, map f [off..<off + len]) else (- EINVAL, [])),
      m_szmod = 2 ^ 32, m_be = False\<rparr>"

lemma flash_of_ok:
  "0 < e \<Longrightarrow> 1024 dvd e \<Longrightarrow> e dvd sz \<Longrightarrow> sz + e < 4294967296 \<Longrightarrow> dev_ok (flash_of f sz e)"
  by (auto simp: dev_ok_def flash_of_def split: if_splits)

text \<open>
  C36. The search for a root file system is the search through a list: it tests the start offset
  and then every erase block up to the limit, and returns the first that begins with the magic
  of squashfs, JFFS2 or UBI, with its type; without one it returns the error.
\<close>

theorem mtd_find_rootfs_from_spec:
  assumes "dev_ok m" and "limit \<le> m_size m"
  shows "mtd_find_rootfs_from m fr limit =
    Some (case List.find (\<lambda>off. \<not> isl (mtd_check_rootfs_magic m off)) (rootfs_candidates m fr limit) of
            None \<Rightarrow> Inl (- ENOENT) | Some off \<Rightarrow> Inr (off, projr (mtd_check_rootfs_magic m off)))"
  using find_rootfs_spec [OF assms] .

definition ex_flash :: mtd_dev where
  "ex_flash = flash_of (\<lambda>i. if i = 2048 then 0x68 else if i = 2049 then 0x73 else if i = 2050 then 0x71
     else if i = 2051 then 0x73 else 0xff) 8192 1024"

lemma ex_flash_ok: "dev_ok ex_flash"
  unfolding ex_flash_def by (rule flash_of_ok) simp_all

theorem mtd_find_rootfs_from_spec_witness:
  "mtd_find_rootfs_from ex_flash 1024 8192 = Some (Inr (2048, PART_TYPE_SQUASHFS))"
proof -
  have lim: "8192 \<le> m_size ex_flash" by (simp add: ex_flash_def flash_of_def)
  have c: "rootfs_candidates ex_flash 1024 8192 = [1024, 2048, 3072, 4096, 5120, 6144, 7168]"
    by (simp add: rootfs_candidates_def ex_flash_def flash_of_def upt_rec)
  have m: "mtd_check_rootfs_magic ex_flash 1024 = Inl (- EINVAL)" "mtd_check_rootfs_magic ex_flash 2048 = Inr PART_TYPE_SQUASHFS"
    by (simp_all add: mtd_check_rootfs_magic_def read_exact_def ex_flash_def flash_of_def upt_rec le32_at_def be32_at_def
        cpu_at_def be_val_def field_def)
  show ?thesis using mtd_find_rootfs_from_spec [OF ex_flash_ok lim, of 1024] by (simp add: c m)
qed

text \<open>
  The splitters that find the root file system by searching, for a device without a boot device
  property (the SEIL splitter takes the device node and the boot loader environment).
\<close>

definition search_splitters :: "int + string \<Rightarrow> mtd_dev option \<Rightarrow> bool \<Rightarrow> int + nat \<Rightarrow> (mtd_dev \<Rightarrow> bool \<Rightarrow> split_result) list" where
  "search_splitters name env v idp =
     [mtdsplit_parse_lzma, mtdsplit_parse_minor, mtdsplit_parse_wrgg, mtdsplit_h3c_vfs_parse, mtdsplit_parse_elf,
      mtdsplit_parse_seil_fw name env v idp, mtdsplit_parse_brnimage]"

text \<open>
  C37. The LZMA, MINOR, WRGG, H3C, ELF, SEIL and brnImage splitters always answer, whatever the
  flash holds: with an error code, or with exactly two partitions that are inside the device and
  do not overlap, so that writing one can never damage the other.
\<close>

theorem search_splitters_sound:
  assumes "dev_ok m" and "parse \<in> set (search_splitters name env v idp)"
  shows "\<exists>r. parse m alloc = Some r \<and> (case r of Inl e \<Rightarrow> True | Inr ps \<Rightarrow>
    length ps = 2 \<and> part_bytes (ps ! 0) \<inter> part_bytes (ps ! 1) = {} \<and> (\<forall>p\<in>set ps. part_bytes p \<subseteq> {0..<m_size m}))"
proof -
  from assms(2) consider "parse = mtdsplit_parse_lzma" | "parse = mtdsplit_parse_minor" | "parse = mtdsplit_parse_wrgg"
    | "parse = mtdsplit_h3c_vfs_parse" | "parse = mtdsplit_parse_elf" | "parse = mtdsplit_parse_seil_fw name env v idp"
    | "parse = mtdsplit_parse_brnimage"
    by (auto simp: search_splitters_def)
  then show ?thesis
    using lzma.answers [OF assms(1)] minor.answers [OF assms(1)] wrgg.answers [OF assms(1)] h3c.answers [OF assms(1)]
      elf.answers [OF assms(1)] seil.answers [OF assms(1)] brn.answers [OF assms(1)]
    by cases (simp only:)+
qed

theorem search_splitters_sound_witness:
  "\<exists>r. mtdsplit_parse_brnimage ex_flash True = Some r \<and> (case r of Inl e \<Rightarrow> True | Inr ps \<Rightarrow>
    length ps = 2 \<and> part_bytes (ps ! 0) \<inter> part_bytes (ps ! 1) = {} \<and> (\<forall>p\<in>set ps. part_bytes p \<subseteq> {0..<m_size ex_flash}))"
  using search_splitters_sound [OF ex_flash_ok, of mtdsplit_parse_brnimage "Inr []" None True "Inr 0" True]
  by (simp add: search_splitters_def)

lemma bootfs_end_stuck:
  assumes "read_exact m 0 40 = Inr node" and "cpu_at m 2 node 0 = 0x1985" and "cpu_at m 4 node 4 = 0"
    and "0 < m_size m"
  shows "bootfs_end m 0 = None"
proof (rule ccontr)
  assume "bootfs_end m 0 \<noteq> None"
  then obtain y where y: "bootfs_end m 0 = Some y" by auto
  have "(3 mod m_szmod m :: nat) < 4" using mod_less_eq_dividend [of 3 "m_szmod m"] by linarith
  then have nx: "bootfs_next m node 0 = 0" using assms(3) div_less by (simp add: bootfs_next_def szt_def)
  have "\<not> (m = m \<and> (0 :: nat) = 0)"
  proof (rule bootfs_end.raw_induct [where P = "\<lambda>m' off y. \<not> (m' = m \<and> off = 0)", OF _ y], rule notI)
    fix f m' off r
    assume IH: "\<And>m' off r. f m' off = Some r \<Longrightarrow> \<not> (m' = m \<and> off = 0)"
      and eq: "(case read_exact m' off 40 of Inl _ \<Rightarrow> Some off
        | Inr node \<Rightarrow> if cpu_at m' 2 node 0 \<noteq> 0x1985 then Some off
            else if bootfs_next m' node off < m_size m' then f m' (bootfs_next m' node off)
            else Some (bootfs_next m' node off)) = Some r" and id: "m' = m \<and> off = 0"
    from eq id assms nx IH [of m 0 r] show False by simp
  qed
  then show False by simp
qed

text \<open>
  The CFE bootfs splitter does not return on a partition whose first JFFS2 node has a total
  length of 0: the loop that looks for the end of the bootfs stays at the same offset.
\<close>

theorem cfe_bootfs_zero_totlen_hangs:
  assumes "read_exact m 0 40 = Inr node" and "cpu_at m 2 node 0 = 0x1985" and "cpu_at m 4 node 4 = 0"
    and "0 < m_size m" and "m_name m = ''firmware''"
  shows "mtdsplit_cfe_bootfs_parse m alloc = None"
  using bootfs_end_stuck [OF assms(1-4)] assms(5) by (simp add: mtdsplit_cfe_bootfs_parse_def)

definition ex_bootfs :: mtd_dev where
  "ex_bootfs = flash_of (\<lambda>i. if i = 0 then 0x85 else if i = 1 then 0x19 else 0) 8192 1024"

theorem cfe_bootfs_zero_totlen_hangs_witness:
  "dev_ok ex_bootfs \<and> mtdsplit_cfe_bootfs_parse ex_bootfs True = None"
proof -
  define node :: "byte list" where "node = map (\<lambda>i. if i = 0 then 0x85 else if i = 1 then 0x19 else 0) [0..<40]"
  have rd: "read_exact ex_bootfs 0 40 = Inr node"
    by (simp add: read_exact_def ex_bootfs_def flash_of_def node_def)
  have "field 0 2 node = [0x85, 0x19]" "field 4 4 node = [0, 0, 0, 0]"
    by (simp_all add: field_def node_def upt_rec)
  moreover have "dev_ok ex_bootfs" unfolding ex_bootfs_def by (rule flash_of_ok) simp_all
  moreover have "m_size ex_bootfs = 8192" "m_name ex_bootfs = ''firmware''" "m_be ex_bootfs = False"
    by (simp_all add: ex_bootfs_def flash_of_def)
  ultimately show ?thesis
    using cfe_bootfs_zero_totlen_hangs [OF rd, of True] by (simp add: cpu_at_def)
qed

lemma roundup_eq:
  assumes "0 < e" and "sz + e < 4294967296"
  shows "mtd_roundup_to_eb sz e = (sz + (e - 1)) div e * e"
proof (cases "sz mod e = 0")
  case True
  then obtain q where "sz = e * q" by (auto elim: dvdE)
  moreover have "((e - 1) + q * e) div e = q" using assms(1) by (subst div_mult_self1) simp_all
  ultimately show ?thesis using True by (simp add: mtd_roundup_to_eb_def ac_simps)
next
  case False
  have dm: "sz = sz div e * e + sz mod e" by simp
  have m: "sz mod e < e" using assms(1) by simp
  have "sz + (e - 1) = (sz mod e - 1) + (sz div e + 1) * e" using dm False assms(1) by (simp only: add_mult_distrib mult_1)
  then have "(sz + (e - 1)) div e = (sz mod e - 1 + (sz div e + 1) * e) div e" by (simp only:)
  also have "\<dots> = sz div e + 1 + (sz mod e - 1) div e" using assms(1) by (intro div_mult_self1) simp
  also have "(sz mod e - 1) div e = 0" using m by (intro div_less) linarith
  finally have q: "(sz + (e - 1)) div e = sz div e + 1" by simp
  have le: "sz div e \<le> sz" by simp
  then have "u32 (sz div e) = sz div e" using assms(2) by (intro u32_id) linarith
  moreover have "(sz div e + 1) * e < 4294967296"
    unfolding add_mult_distrib mult_1 using dm assms(2) by linarith
  ultimately show ?thesis using False q by (simp add: mtd_roundup_to_eb_def)
qed

lemma roundup_small:
  assumes "0 < e" and "sz + e < 4294967296"
  shows "sz \<le> mtd_roundup_to_eb sz e" and "e dvd mtd_roundup_to_eb sz e" and "mtd_roundup_to_eb sz e < sz + e"
proof -
  have "sz + (e - 1) = (sz + (e - 1)) div e * e + (sz + (e - 1)) mod e" by simp
  moreover have "(sz + (e - 1)) mod e \<le> e - 1" using assms(1) mod_less_divisor [of e "sz + (e - 1)"] by linarith
  ultimately show "sz \<le> mtd_roundup_to_eb sz e" "mtd_roundup_to_eb sz e < sz + e"
    unfolding roundup_eq [OF assms] using assms(1) by linarith+
  show "e dvd mtd_roundup_to_eb sz e" by (simp add: roundup_eq [OF assms])
qed

lemma squashfs_len_le:
  assumes "dev_ok m" and "mtd_get_squashfs_len m 0 = Inr len"
  shows "len \<le> m_size m" and "0 < len"
proof -
  have "0 < m_szmod m" using assms(1) by (auto simp: dev_ok_def)
  with assms(2) show "len \<le> m_size m" "0 < len"
    by (auto simp: mtd_get_squashfs_len_def Let_def split: sum.splits if_splits)
qed

text \<open>
  The overlay partition never covers the squashfs: for a partition that ends at an erase block
  of the flash, \<^verbatim>\<open>rootfs_data\<close> starts at an erase block boundary of the flash at or behind the last
  byte of the file system, and ends inside the partition.
\<close>

theorem squashfs_split_behind_squashfs:
  assumes "dev_ok m" and "m_master_erasesize m = m_erasesize m" and "m_erasesize m dvd m_offset m + m_size m"
    and "m_offset m + m_size m + m_erasesize m < 4294967296" and "mtdsplit_parse_squashfs m alloc = Some (Inr ps)"
  shows "\<exists>len off l. mtd_get_squashfs_len m 0 = Inr len \<and> ps = [mk_part ROOTFS_SPLIT_NAME off l] \<and>
    len \<le> off \<and> m_erasesize m dvd m_offset m + off \<and> off + l \<le> m_size m"
proof -
  let ?e = "m_erasesize m" and ?o = "m_offset m"
  from assms(5) obtain len where len: "mtd_get_squashfs_len m 0 = Inr len"
    by (auto simp: mtdsplit_parse_squashfs_def split: sum.splits)
  note l = squashfs_len_le [OF assms(1) len]
  have M: "4294967296 \<le> m_szmod m" using assms(1) by (auto simp: dev_ok_def)
  have e: "0 < ?e" using dev_okD(1) [OF assms(1)] .
  define up where "up = mtd_roundup_to_eb (?o + len) ?e"
  have up: "?o + len \<le> up" "?e dvd up" "up < ?o + len + ?e"
    unfolding up_def using roundup_small [of ?e "?o + len"] e l assms(4) by simp_all
  have top: "up \<le> ?o + m_size m"
  proof (rule ccontr)
    assume "\<not> up \<le> ?o + m_size m"
    then have "0 < up - (?o + m_size m)" "up - (?o + m_size m) < ?e" using up(3) l by simp_all
    moreover have "?e dvd up - (?o + m_size m)" using up(2) assms(3) by (rule dvd_diff_nat)
    ultimately show False by (metis nat_dvd_not_less)
  qed
  have off: "sub64 up ?o = up - ?o" using up(1) top assms(4) by simp
  have rest: "sub64 (m_size m) (up - ?o) = m_size m - (up - ?o)" using top assms(4) by simp
  have sz: "szt m (?o + len) = ?o + len" "szt m ?o = ?o" using l assms(4) M by simp_all
  have "mtd_rounddown_to_eb (m_size m - (up - ?o)) ?e \<le> m_size m - (up - ?o)"
    using rounddown_small [OF e, of "m_size m - (up - ?o)"] assms(4) by simp
  moreover have "ps = [mk_part ROOTFS_SPLIT_NAME (up - ?o) (mtd_rounddown_to_eb (m_size m - (up - ?o)) ?e)]"
    using assms(2,5) len by (auto simp: mtdsplit_parse_squashfs_def Let_def sz up_def [symmetric] off rest split: if_splits)
  moreover have "?o + (up - ?o) = up" using up(1) by simp
  ultimately show ?thesis using len up top
    by (intro exI [of _ len] exI [of _ "up - ?o"] exI [of _ "mtd_rounddown_to_eb (m_size m - (up - ?o)) ?e"]) auto
qed

definition ex_squashfs :: mtd_dev where
  "ex_squashfs = flash_of (\<lambda>i. if i = 0 then 0x68 else if i = 1 then 0x73 else if i = 2 then 0x71 else if i = 3 then 0x73
     else if i = 41 then 5 else 0) 8192 1024"

theorem squashfs_split_behind_squashfs_witness:
  "\<exists>len off l. mtdsplit_parse_squashfs ex_squashfs True = Some (Inr [mk_part ROOTFS_SPLIT_NAME off l]) \<and>
     mtd_get_squashfs_len ex_squashfs 0 = Inr len \<and> len \<le> off \<and> off + l \<le> 8192"
proof -
  have ok: "dev_ok ex_squashfs" unfolding ex_squashfs_def by (rule flash_of_ok) simp_all
  have len: "mtd_get_squashfs_len ex_squashfs 0 = Inr 1280"
    by (simp add: mtd_get_squashfs_len_def read_exact_def ex_squashfs_def flash_of_def upt_rec le32_at_def field_def szt_def Let_def)
  then obtain ps where ps: "mtdsplit_parse_squashfs ex_squashfs True = Some (Inr ps)"
    by (simp add: mtdsplit_parse_squashfs_def Let_def)
  from squashfs_split_behind_squashfs [OF ok _ _ _ ps] ps len show ?thesis
    by (auto simp: ex_squashfs_def flash_of_def)
qed

end
