(* ===== verification/Mtdsplit_Scan.thy ===== *)
theory Mtdsplit_Scan
  imports Mtdsplit_Parsers
begin

text \<open>
  The splitters that look for an image header at every erase block: TRX, uImage and
  JBOOT. The device tree node is an argument. The uImage and the JBOOT splitter have the same
  structure, which the locale \<open>image_splitter\<close> states.
\<close>

section \<open>TRX\<close>

definition read_trx_header :: "mtd_dev \<Rightarrow> nat \<Rightarrow> int + byte list" where
  "read_trx_header m off = read_exact m off 32"

definition eb_step :: "mtd_dev \<Rightarrow> nat \<Rightarrow> nat" where
  "eb_step m off = szt m (off + m_erasesize m)"

text \<open>One round of the search; the locals are the size and the header, which a round without an image keeps.\<close>

definition trx_test :: "mtd_dev \<Rightarrow> nat \<Rightarrow> nat \<times> byte list \<Rightarrow> bool \<times> nat \<times> byte list" where
  "trx_test m off st =
     (case read_trx_header m off of
        Inl _ \<Rightarrow> (False, 0, snd st)
      | Inr hdr \<Rightarrow>
          if le32_at hdr 0 \<noteq> 0x30524448 then (False, 0, hdr)
          else (\<not> szt m (off + le32_at hdr 4) > m_size m, le32_at hdr 4, hdr))"

definition mtdsplit_parse_trx :: "mtd_dev \<Rightarrow> bool \<Rightarrow> split_result" where
  "mtdsplit_parse_trx m alloc =
     (if \<not> alloc then Some (Inl (- ENOMEM))
      else
        case for_blocks (eb_step m) (m_size m) (trx_test m) 0 (0, []) of
          None \<Rightarrow> None
        | Some (off, trx_size, hdr) \<Rightarrow>
            Some (if trx_size = 0 then Inl (- ENOENT)
                  else
                    let trx_offset = szt m (off + cpu_at m 4 hdr 16);
                        rootfs_offset = szt m (off + cpu_at m 4 hdr 20);
                        rootfs_size = szt m (sub64 (m_size m) rootfs_offset);
                        trx_size = szt_sub m rootfs_offset trx_offset
                    in if rootfs_size = 0 then Inl (- ENOENT)
                       else Inr [mk_part KERNEL_PART_NAME trx_offset trx_size,
                                 mk_part ROOTFS_PART_NAME rootfs_offset rootfs_size]))"

section \<open>uImage\<close>

definition read_uimage_header :: "mtd_dev \<Rightarrow> nat \<Rightarrow> nat \<Rightarrow> int + byte list" where
  "read_uimage_header m off header_len = read_exact m off header_len"

record uimage_dt =
  u_extralen :: nat
  u_ih_magic :: nat
  u_ih_type :: nat
  u_header_offset :: nat
  u_part_magic :: nat

definition uimage_parse_dt :: "of_node option \<Rightarrow> uimage_dt \<Rightarrow> uimage_dt" where
  "uimage_parse_dt node d =
     (case node of
        None \<Rightarrow> d
      | Some np \<Rightarrow>
          if ''openwrt,uimage'' \<notin> set (of_compatible np) then d
          else \<lparr>u_extralen = of_u32_or np ''openwrt,padding'' (u_extralen d),
                u_ih_magic = of_u32_or np ''openwrt,ih-magic'' (u_ih_magic d),
                u_ih_type = of_u32_or np ''openwrt,ih-type'' (u_ih_type d),
                u_header_offset = of_u32_or np ''openwrt,offset'' (u_header_offset d),
                u_part_magic = of_u32_or np ''openwrt,partition-magic'' (u_part_magic d)\<rparr>)"

definition uimage_verify_default :: "byte list \<Rightarrow> nat \<Rightarrow> nat \<Rightarrow> int" where
  "uimage_verify_default hdr ih_magic ih_type =
     (if be32_at hdr 0 \<noteq> ih_magic then - EINVAL
      else if u8_at hdr 28 \<noteq> 5 then - EINVAL
      else if u8_at hdr 30 \<noteq> ih_type then - EINVAL
      else 0)"

text \<open>The size of the image whose header is at \<open>off\<close>, if there is one.\<close>

definition uimage_at :: "mtd_dev \<Rightarrow> uimage_dt \<Rightarrow> nat \<Rightarrow> nat option" where
  "uimage_at m d off =
     (case read_uimage_header m off (szt m (64 + u_header_offset d)) of
        Inl _ \<Rightarrow> None
      | Inr buf \<Rightarrow>
          if u_header_offset d \<noteq> 0 \<and> u_part_magic d \<noteq> 0 \<and> be32_at buf 0 \<noteq> u_part_magic d then None
          else if uimage_verify_default (drop (u_header_offset d) buf) (u_ih_magic d) (u_ih_type d) < 0 then None
          else Some (szt m (64 + be32_at buf (u_header_offset d + 12) + u_header_offset d + int_to_szt m (s32 (u_extralen d)))))"

text \<open>One round of the search for an image, which the uImage and the JBOOT splitter share.\<close>

definition image_test :: "mtd_dev \<Rightarrow> (nat \<Rightarrow> nat option) \<Rightarrow> nat \<Rightarrow> nat \<Rightarrow> bool \<times> nat" where
  "image_test m image_at off sz =
     (case image_at off of
        None \<Rightarrow> (False, 0)
      | Some s \<Rightarrow> (\<not> szt m (off + s) > m_size m, s))"

text \<open>
  The partitions around an image at \<open>off\<close>: an image at the start is followed by the root file
  system, any other is preceded by it. \<open>before\<close> is the error for a missing root file system at 0.
\<close>

definition split_around_image :: "mtd_dev \<Rightarrow> (int \<Rightarrow> int) \<Rightarrow> nat \<Rightarrow> nat \<Rightarrow> split_result" where
  "split_around_image m before off sz =
     (if off = 0 then
        case mtd_find_rootfs_from m (szt m (off + sz)) (szt m (m_size m)) of
          None \<Rightarrow> None
        | Some (Inl err) \<Rightarrow> Some (Inl err)
        | Some (Inr (r, t)) \<Rightarrow>
            Some (if szt m (sub64 (m_size m) r) = 0 then Inl (- ENOENT)
                  else Inr [mk_part KERNEL_PART_NAME off (szt_sub m r off),
                            mk_part (rootfs_name t) r (szt m (sub64 (m_size m) r))])
      else
        Some (case mtd_check_rootfs_magic m 0 of
                Inl err \<Rightarrow> Inl (before err)
              | Inr t \<Rightarrow> Inr [mk_part (rootfs_name t) 0 off, mk_part KERNEL_PART_NAME off sz]))"

definition uimage_defaults :: uimage_dt where
  "uimage_defaults = \<lparr>u_extralen = 0, u_ih_magic = 0x27051956, u_ih_type = 2, u_header_offset = 0, u_part_magic = 0\<rparr>"

definition mtdsplit_parse_uimage :: "of_node option \<Rightarrow> bool \<Rightarrow> mtd_dev \<Rightarrow> bool \<Rightarrow> split_result" where
  "mtdsplit_parse_uimage node buf_ok m alloc =
     (if \<not> alloc then Some (Inl (- ENOMEM))
      else
        let d = uimage_parse_dt node uimage_defaults
        in if \<not> buf_ok then Some (Inl (- ENOMEM))
           else
             case for_blocks (eb_step m) (m_size m) (image_test m (uimage_at m d)) 0 0 of
               None \<Rightarrow> None
             | Some (off, uimage_size) \<Rightarrow>
                 if uimage_size = 0 then Some (Inl 0)
                 else split_around_image m (\<lambda>_. - ENOENT) off uimage_size)"

section \<open>JBOOT image\<close>

definition read_jimage_header :: "mtd_dev \<Rightarrow> nat \<Rightarrow> nat \<Rightarrow> int + byte list" where
  "read_jimage_header m off header_len = read_exact m off header_len"

definition jimage_verify_default :: "mtd_dev \<Rightarrow> byte list \<Rightarrow> nat \<Rightarrow> int" where
  "jimage_verify_default m buf len =
     (if cpu_at m 2 buf 2 \<noteq> 0x2B24 then - EINVAL
      else if cpu_at m 2 buf 16 \<noteq> 0x2124 then - EINVAL
      else if u8_at buf 0 \<noteq> u8_at buf 1 then - EINVAL
      else if u8_at buf 1 \<noteq> 0x04 then - EINVAL
      else if u8_at buf 19 \<noteq> 0x02 then - EINVAL
      else 0)"

definition jimage_at :: "mtd_dev \<Rightarrow> (byte list \<Rightarrow> nat \<Rightarrow> int) \<Rightarrow> nat \<Rightarrow> nat option" where
  "jimage_at m find_header off =
     (case read_jimage_header m off 56 of
        Inl _ \<Rightarrow> None
      | Inr buf \<Rightarrow>
          let ret = find_header buf 56
          in if ret < 0 then None else Some (szt m (56 + cpu_at m 4 buf (nat ret + 24) + nat ret)))"

definition mtdsplit_parse_jimage :: "(byte list \<Rightarrow> nat \<Rightarrow> int) \<Rightarrow> bool \<Rightarrow> mtd_dev \<Rightarrow> bool \<Rightarrow> split_result" where
  "mtdsplit_parse_jimage find_header buf_ok m alloc =
     (if \<not> alloc then Some (Inl (- ENOMEM))
      else if \<not> buf_ok then Some (Inl (- ENOMEM))
      else
        case for_blocks (eb_step m) (m_size m) (image_test m (jimage_at m find_header)) 0 0 of
          None \<Rightarrow> None
        | Some (off, jimage_size) \<Rightarrow>
            if jimage_size = 0 then Some (Inl (- ENOENT))
            else split_around_image m (\<lambda>err. err) off jimage_size)"

definition mtdsplit_jimage_parse_generic :: "bool \<Rightarrow> mtd_dev \<Rightarrow> bool \<Rightarrow> split_result" where
  "mtdsplit_jimage_parse_generic buf_ok m alloc = mtdsplit_parse_jimage (jimage_verify_default m) buf_ok m alloc"


section \<open>The search for an image\<close>

lemma eb_step_small: "dev_ok m \<Longrightarrow> off < m_size m \<Longrightarrow> eb_step m off = off + m_erasesize m"
  using dev_okD(6) [of m] by (simp add: eb_step_def)

lemma eb_step_returns: "dev_ok m \<Longrightarrow> \<exists>r. for_blocks (eb_step m) (m_size m) body off s = Some r"
  by (rule for_blocks_returns) (simp add: eb_step_small dev_okD(1))

text \<open>From one erase block to the next: the offset stays a multiple of the erase size, and reaches at most the end.\<close>

definition at_eb :: "mtd_dev \<Rightarrow> nat \<Rightarrow> bool" where
  "at_eb m off \<longleftrightarrow> m_erasesize m dvd off \<and> off \<le> m_size m"

lemma at_eb_0 [simp]: "at_eb m 0"
  by (simp add: at_eb_def)

lemma at_eb_step:
  assumes "dev_ok m" and "at_eb m off" and "off < m_size m"
  shows "at_eb m (eb_step m off)"
proof -
  have "m_erasesize m dvd m_size m - off" using dev_okD(8) [OF assms(1)] assms(2) by (simp add: at_eb_def)
  then have "m_erasesize m \<le> m_size m - off" using assms(3) by (simp add: dvd_imp_le)
  then show ?thesis using assms by (simp add: at_eb_def eb_step_small)
qed

lemma image_search:
  assumes "dev_ok m" and "for_blocks (eb_step m) (m_size m) (image_test m image_at) 0 0 = Some (off, sz)" and "sz \<noteq> 0"
  shows "at_eb m off \<and> (off < m_size m \<and> image_at off = Some sz \<and> szt m (off + sz) \<le> m_size m \<or>
    off = m_size m \<and> image_at (m_size m - m_erasesize m) = Some sz \<and> szt m (m_size m - m_erasesize m + sz) > m_size m)"
proof -
  let ?e = "m_erasesize m"
  have "sz = 0 \<or> at_eb m off \<and> (off < m_size m \<and> image_at off = Some sz \<and> szt m (off + sz) \<le> m_size m \<or>
    off = m_size m \<and> image_at (m_size m - ?e) = Some sz \<and> szt m (m_size m - ?e + sz) > m_size m)"
    using assms(2)
  proof (rule for_blocks_result [where
        I = "\<lambda>off s. at_eb m off \<and> (s = 0 \<or> image_at (off - ?e) = Some s \<and> szt m (off - ?e + s) > m_size m)" and
        Q = "\<lambda>off s. s = 0 \<or> at_eb m off \<and> (off < m_size m \<and> image_at off = Some s \<and> szt m (off + s) \<le> m_size m \<or>
          off = m_size m \<and> image_at (m_size m - ?e) = Some s \<and> szt m (m_size m - ?e + s) > m_size m)"])
    fix off s t
    assume I: "at_eb m off \<and> (s = 0 \<or> image_at (off - ?e) = Some s \<and> szt m (off - ?e + s) > m_size m)"
      and l: "off < m_size m"
    show "image_test m image_at off s = (False, t) \<Longrightarrow>
      at_eb m (eb_step m off) \<and> (t = 0 \<or> image_at (eb_step m off - ?e) = Some t \<and> szt m (eb_step m off - ?e + t) > m_size m)"
      using I l at_eb_step [OF assms(1) _ l]
      by (auto simp: image_test_def eb_step_small [OF assms(1) l] split: option.splits)
    show "image_test m image_at off s = (True, t) \<Longrightarrow>
      t = 0 \<or> at_eb m off \<and> (off < m_size m \<and> image_at off = Some t \<and> szt m (off + t) \<le> m_size m \<or>
        off = m_size m \<and> image_at (m_size m - ?e) = Some t \<and> szt m (m_size m - ?e + t) > m_size m)"
      using I l by (auto simp: image_test_def not_less split: option.splits)
  qed (auto simp: at_eb_def)
  with assms(3) show ?thesis by simp
qed

text \<open>Without an image before the last erase block, the search ends with what that block says.\<close>

lemma image_search_last:
  assumes "dev_ok m" and "\<And>off. m_erasesize m dvd off \<Longrightarrow> off < m_size m - m_erasesize m \<Longrightarrow> image_at off = None"
    and "image_at (m_size m - m_erasesize m) = Some sz" and "szt m (m_size m - m_erasesize m + sz) > m_size m" and "0 < m_size m"
  shows "for_blocks (eb_step m) (m_size m) (image_test m image_at) 0 0 = Some (m_size m, sz)"
proof -
  let ?e = "m_erasesize m" and ?n = "m_size m - m_erasesize m"
  note d = dev_okD [OF assms(1)]
  obtain r where r: "for_blocks (eb_step m) (m_size m) (image_test m image_at) 0 0 = Some r"
    using eb_step_returns [OF assms(1), of "image_test m image_at" 0 0] by blast
  obtain off s where rs: "r = (off, s)" by (cases r)
  have e: "?e \<le> m_size m" using d(8) assms(5) by (simp add: dvd_imp_le)
  have "off = m_size m \<and> s = sz"
  proof (rule for_blocks_result [OF r [unfolded rs], where
        I = "\<lambda>off s. at_eb m off \<and> (if off = m_size m then s = sz else s = 0)" and Q = "\<lambda>off s. off = m_size m \<and> s = sz"])
    show "at_eb m 0 \<and> (if 0 = m_size m then 0 = sz else (0 :: nat) = 0)" using assms(5) by simp
    fix off s t
    assume I: "at_eb m off \<and> (if off = m_size m then s = sz else s = 0)" and l: "off < m_size m"
    have st: "at_eb m (eb_step m off)" using I l at_eb_step [OF assms(1)] by simp
    have at: "image_at off = (if off = ?n then Some sz else None)"
    proof (cases "off < ?n")
      case False
      have "off + ?e \<le> m_size m" using st by (simp add: at_eb_def eb_step_small [OF assms(1) l])
      with False assms(3) show ?thesis by auto
    qed (use assms(2) I in \<open>auto simp: at_eb_def\<close>)
    show "image_test m image_at off s = (False, t) \<Longrightarrow> at_eb m (eb_step m off) \<and> (if eb_step m off = m_size m then t = sz else t = 0)"
      using st at e by (auto simp: image_test_def eb_step_small [OF assms(1) l] split: if_splits)
    show "image_test m image_at off s = (True, t) \<Longrightarrow> off = m_size m \<and> t = sz"
      using at assms(4) by (auto simp: image_test_def split: if_splits)
  qed (auto simp: at_eb_def)
  with r rs show ?thesis by simp
qed

section \<open>What the image splitters promise\<close>

text \<open>The kernel partition behind the end of the device that an oversized header in the last erase block leads to.\<close>

definition stale_split :: "mtd_dev \<Rightarrow> (nat \<Rightarrow> nat option) \<Rightarrow> mtd_partition list \<Rightarrow> bool" where
  "stale_split m image_at ps \<longleftrightarrow>
     (case image_at (m_size m - m_erasesize m) of
        None \<Rightarrow> False
      | Some sz \<Rightarrow> m_size m < m_size m - m_erasesize m + sz \<and>
          tl ps = [mk_part KERNEL_PART_NAME (m_size m) sz])"

locale image_splitter =
  fixes parse :: "mtd_dev \<Rightarrow> bool \<Rightarrow> split_result" and image_at :: "mtd_dev \<Rightarrow> nat \<Rightarrow> nat option"
    and missing :: int and before :: "int \<Rightarrow> int"
  assumes parse_eq: "parse m alloc = (if \<not> alloc then Some (Inl (- ENOMEM)) else
      case for_blocks (eb_step m) (m_size m) (image_test m (image_at m)) 0 0 of
        None \<Rightarrow> None
      | Some (off, sz) \<Rightarrow> if sz = 0 then Some (Inl missing) else split_around_image m before off sz)"
    and image_size: "m_szmod m = 2 ^ 64 \<Longrightarrow> image_at m off = Some sz \<Longrightarrow> sz < 2 ^ 62"
begin

lemma returns: "dev_ok m \<Longrightarrow> parse m alloc \<noteq> None"
  using eb_step_returns [of m "image_test m (image_at m)" 0 0]
  by (auto simp: parse_eq split_around_image_def find_rootfs_total split: option.splits sum.splits)

lemma around:
  assumes "dev_ok m" and "m_szmod m = 2 ^ 64" and "at_eb m off" and "off < m_size m" and "off + sz \<le> m_size m"
    and "split_around_image m before off sz = Some (Inr ps)"
  shows "good_split m ps"
proof -
  note d = dev_okD [OF assms(1)]
  show ?thesis
  proof (cases "off = 0")
    case True
    with assms(5,6) d(4,5) obtain r t where f: "mtd_find_rootfs_from m sz (m_size m) = Some (Inr (r, t))"
      and ps: "ps = [mk_part KERNEL_PART_NAME 0 (szt_sub m r 0), mk_part (rootfs_name t) r (szt m (sub64 (m_size m) r))]"
      by (auto simp: split_around_image_def split: option.splits sum.splits if_splits)
    have r: "r < m_size m" using find_rootfs_result(2) [OF f assms(1)] by simp
    have "szt_sub m r 0 = r" using r d(4) by simp
    moreover have "szt m (sub64 (m_size m) r) = m_size m - r" using r d(3,4) by simp
    ultimately show ?thesis using r by (simp add: ps good_split_def)
  next
    case False
    with assms(4-6) show ?thesis by (auto simp: split_around_image_def good_split_def split: sum.splits)
  qed
qed

lemma sound:
  assumes ok: "dev_ok m" and w: "m_szmod m = 2 ^ 64" and p: "parse m alloc = Some (Inr ps)"
  shows "good_split m ps \<or> stale_split m (image_at m) ps"
proof -
  from p obtain off sz where lp: "for_blocks (eb_step m) (m_size m) (image_test m (image_at m)) 0 0 = Some (off, sz)"
    and sz: "sz \<noteq> 0" and sp: "split_around_image m before off sz = Some (Inr ps)"
    by (auto simp: parse_eq split: option.splits if_splits)
  have big: "image_at m o' = Some sz \<Longrightarrow> o' \<le> m_size m \<Longrightarrow> szt m (o' + sz) = o' + sz" for o'
    using image_size [OF w, of o' sz] dev_okD(3) [OF ok] w by simp
  from image_search [OF ok lp sz] consider
    "at_eb m off" "off < m_size m" "image_at m off = Some sz" "szt m (off + sz) \<le> m_size m"
    | "off = m_size m" "image_at m (m_size m - m_erasesize m) = Some sz" "szt m (m_size m - m_erasesize m + sz) > m_size m"
    by blast
  then show ?thesis
  proof cases
    case 1
    then show ?thesis using around [OF ok w 1(1,2) _ sp] big [OF 1(3)] by simp
  next
    case 2
    have "m_size m \<noteq> 0"
    proof
      assume "m_size m = 0"
      with lp sz show False by simp
    qed
    with 2 sp big [OF 2(2)] show ?thesis
      by (auto simp: stale_split_def split_around_image_def split: sum.splits)
  qed
qed

lemma stale:
  assumes "dev_ok m" and "\<And>off. m_erasesize m dvd off \<Longrightarrow> off < m_size m - m_erasesize m \<Longrightarrow> image_at m off = None"
    and "image_at m (m_size m - m_erasesize m) = Some sz" and "szt m (m_size m - m_erasesize m + sz) > m_size m"
    and "mtd_check_rootfs_magic m 0 = Inr t" and "sz \<noteq> 0"
  shows "parse m True = Some (Inr [mk_part (rootfs_name t) 0 (m_size m), mk_part KERNEL_PART_NAME (m_size m) sz])"
proof -
  have pos: "0 < m_size m" using check_magic_inside [OF assms(1,5)] by simp
  show ?thesis using image_search_last [where image_at = "image_at m", OF assms(1-4) pos] assms(5,6) pos
    by (simp add: parse_eq split_around_image_def)
qed

end


lemma uimage_size:
  assumes "m_szmod m = 2 ^ 64" and "u_extralen d < 2 ^ 31" and "u_header_offset d < 2 ^ 32" and "uimage_at m d off = Some sz"
  shows "sz < 2 ^ 62"
proof -
  have e: "int_to_szt m (s32 (u_extralen d)) = u_extralen d" using assms(1,2) by (simp add: s32_def)
  obtain buf where "sz = szt m (64 + be32_at buf (u_header_offset d + 12) + u_header_offset d + u_extralen d)"
    using assms(4) by (auto simp: uimage_at_def e split: sum.splits if_splits)
  then have "sz \<le> 64 + be32_at buf (u_header_offset d + 12) + u_header_offset d + u_extralen d" by (simp add: szt_def)
  moreover have "be32_at buf (u_header_offset d + 12) < 4294967296" by simp
  moreover have "u_extralen d < 2147483648" "u_header_offset d < 4294967296" using assms(2,3) by simp_all
  ultimately have "sz < 4611686018427387904" by linarith
  then show ?thesis by simp
qed

text \<open>The properties of the node are 32-bit numbers, and the padding is not negative.\<close>

definition uimage_node_ok :: "of_node option \<Rightarrow> bool" where
  "uimage_node_ok node \<longleftrightarrow>
     (let d = uimage_parse_dt node uimage_defaults in u_extralen d < 2 ^ 31 \<and> u_header_offset d < 2 ^ 32)"

interpretation uimage: image_splitter "mtdsplit_parse_uimage (if uimage_node_ok node then node else None) True"
    "\<lambda>m. uimage_at m (uimage_parse_dt (if uimage_node_ok node then node else None) uimage_defaults)" 0 "\<lambda>_. - ENOENT"
  for node :: "of_node option"
proof
  let ?d = "uimage_parse_dt (if uimage_node_ok node then node else None) uimage_defaults"
  have "u_extralen ?d < 2 ^ 31 \<and> u_header_offset ?d < 2 ^ 32"
    by (simp add: uimage_node_ok_def Let_def) (simp add: uimage_parse_dt_def uimage_defaults_def)
  then show "m_szmod m = 2 ^ 64 \<Longrightarrow> uimage_at m ?d off = Some sz \<Longrightarrow> sz < 2 ^ 62" for m :: mtd_dev and off sz :: nat
    using uimage_size by blast
qed (simp add: mtdsplit_parse_uimage_def)

interpretation jimage: image_splitter "mtdsplit_jimage_parse_generic True" "\<lambda>m. jimage_at m (jimage_verify_default m)" "- ENOENT" "\<lambda>e. e"
proof
  fix m :: mtd_dev and off sz :: nat
  assume w: "m_szmod m = 2 ^ 64" and at: "jimage_at m (jimage_verify_default m) off = Some sz"
  then obtain buf where "sz = szt m (56 + cpu_at m 4 buf 24)"
    by (auto simp: jimage_at_def jimage_verify_default_def Let_def split: sum.splits if_splits)
  moreover have "cpu_at m 4 buf 24 < 4294967296" using cpu_at_less [of m 4 buf 24] by simp
  ultimately show "sz < 2 ^ 62" using w by simp
qed (simp add: mtdsplit_jimage_parse_generic_def mtdsplit_parse_jimage_def)


text \<open>
  C39. On a 64-bit kernel the uImage splitter always answers, and the partitions it makes are a
  kernel and a root file system that do not overlap and are inside the device, unless the last
  erase block holds the header of an image that does not fit: then, and only then, the kernel
  partition starts at the end of the device.
\<close>

theorem uimage_split_sound:
  assumes "dev_ok m" and "m_szmod m = 2 ^ 64" and "uimage_node_ok node"
  shows "\<exists>r. mtdsplit_parse_uimage node True m alloc = Some r \<and>
    (case r of Inl e \<Rightarrow> True
     | Inr ps \<Rightarrow> good_split m ps \<or> stale_split m (uimage_at m (uimage_parse_dt node uimage_defaults)) ps)"
proof -
  obtain r where r: "mtdsplit_parse_uimage node True m alloc = Some r"
    using uimage.returns [OF assms(1), of node alloc] assms(3) by auto
  show ?thesis
    using r uimage.sound [OF assms(1,2), of node alloc] assms(3) by (cases r) auto
qed

definition ex_uimage :: mtd_dev where
  "ex_uimage = (flash_of (\<lambda>i. if i = 0 then 0x27 else if i = 1 then 5 else if i = 2 then 0x19 else if i = 3 then 0x56
     else if i = 14 then 4 else if i = 28 then 5 else if i = 30 then 2
     else if i = 2048 then 0x68 else if i = 2049 then 0x73 else if i = 2050 then 0x71 else if i = 2051 then 0x73 else 0)
     8192 1024)\<lparr>m_szmod := 2 ^ 64\<rparr>"

theorem uimage_split_sound_witness:
  "\<exists>r. mtdsplit_parse_uimage None True ex_uimage True = Some r \<and>
    (case r of Inl e \<Rightarrow> True
     | Inr ps \<Rightarrow> good_split ex_uimage ps \<or> stale_split ex_uimage (uimage_at ex_uimage (uimage_parse_dt None uimage_defaults)) ps)"
proof -
  have ok: "dev_ok ex_uimage" by (auto simp: dev_ok_def ex_uimage_def flash_of_def split: if_splits)
  have nd: "uimage_node_ok None" by (simp add: uimage_node_ok_def uimage_parse_dt_def uimage_defaults_def)
  show ?thesis using uimage_split_sound [OF ok _ nd, of True] by (simp add: ex_uimage_def)
qed

text \<open>
  A header in the last erase block whose image exceeds the device is not skipped: the
  search ends with its size, and when a root file system is at the start, the splitter creates
  a kernel partition that begins where the device ends and a root file system over the whole
  device.
\<close>

theorem uimage_oversized_last_block:
  assumes "dev_ok m" and "uimage_node_ok node"
    and "\<And>off. m_erasesize m dvd off \<Longrightarrow> off < m_size m - m_erasesize m \<Longrightarrow>
      uimage_at m (uimage_parse_dt node uimage_defaults) off = None"
    and "uimage_at m (uimage_parse_dt node uimage_defaults) (m_size m - m_erasesize m) = Some sz"
    and "szt m (m_size m - m_erasesize m + sz) > m_size m" and "mtd_check_rootfs_magic m 0 = Inr t" and "sz \<noteq> 0"
  shows "mtdsplit_parse_uimage node True m True =
    Some (Inr [mk_part (rootfs_name t) 0 (m_size m), mk_part KERNEL_PART_NAME (m_size m) sz])"
  using uimage.stale [of m node sz t] assms by simp

definition ex_stale :: mtd_dev where
  "ex_stale = flash_of (\<lambda>i. if i = 0 then 0x68 else if i = 1 then 0x73 else if i = 2 then 0x71 else if i = 3 then 0x73
     else if i = 1024 then 0x27 else if i = 1025 then 5 else if i = 1026 then 0x19 else if i = 1027 then 0x56
     else if i = 1038 then 4 else if i = 1052 then 5 else if i = 1054 then 2 else 0) 2048 1024"

theorem uimage_oversized_last_block_witness:
  "mtdsplit_parse_uimage None True ex_stale True =
     Some (Inr [mk_part ''rootfs'' 0 2048, mk_part ''kernel'' 2048 1088])"
proof -
  have ok: "dev_ok ex_stale" unfolding ex_stale_def by (rule flash_of_ok) simp_all
  have d: "uimage_parse_dt None uimage_defaults = uimage_defaults" by (simp add: uimage_parse_dt_def)
  have nd: "uimage_node_ok None" by (simp add: uimage_node_ok_def uimage_parse_dt_def uimage_defaults_def)
  have z: "m_size ex_stale = 2048" "m_erasesize ex_stale = 1024" "m_szmod ex_stale = 4294967296"
    by (simp_all add: ex_stale_def flash_of_def)
  have at: "uimage_at ex_stale uimage_defaults 0 = None" "uimage_at ex_stale uimage_defaults 1024 = Some 1088"
    by (simp_all add: uimage_at_def uimage_defaults_def read_uimage_header_def read_exact_def ex_stale_def flash_of_def
        uimage_verify_default_def be32_at_def be_val_def field_def u8_at_def arr_get_def szt_def s32_def upt_rec int_to_szt_def)
  have mg: "mtd_check_rootfs_magic ex_stale 0 = Inr PART_TYPE_SQUASHFS"
    by (simp add: mtd_check_rootfs_magic_def read_exact_def ex_stale_def flash_of_def le32_at_def field_def upt_rec)
  have "uimage_at ex_stale uimage_defaults off = None" if "1024 dvd off" "off < 1024" for off :: nat
    using that at(1) nat_dvd_not_less [of off 1024] by (cases "off = 0") auto
  then show ?thesis
    using uimage_oversized_last_block [OF ok nd, of 1088 PART_TYPE_SQUASHFS] at mg
    by (simp add: z d szt_def rootfs_name_def)
qed

end
