(* ===== verification/Mtdsplit_Fit.thy ===== *)
theory Mtdsplit_Fit
  imports Mtdsplit_Scan
begin

text \<open>
  The BCM63xx and the FIT splitter. They call functions of the kernel that are not part of this
  repository, which are arguments of the model: for BCM63xx the checksum, the parsing of a number
  and the layout of the image tag, for FIT the functions of libfdt.
\<close>

section \<open>BCM63xx\<close>

text \<open>What \<^verbatim>\<open>linux/bcm963xx_tag.h\<close>, \<^verbatim>\<open>crc32_le\<close> and \<^verbatim>\<open>kstrtouint\<close> provide: fields are pairs of an offset and a length.\<close>

record bcm_api =
  tag_size :: nat
  tag_header_crc :: nat
  tag_flash_image_start :: "nat \<times> nat"
  tag_kernel_address :: "nat \<times> nat"
  tag_kernel_length :: "nat \<times> nat"
  tag_crc_start :: nat
  bcm_extended_size :: nat
  crc32_le :: "nat \<Rightarrow> byte list \<Rightarrow> nat"
  kstrtouint :: "byte list \<Rightarrow> nat option"

definition bcm63xx_read_image_tag :: "bcm_api \<Rightarrow> mtd_dev \<Rightarrow> nat \<Rightarrow> int + byte list" where
  "bcm63xx_read_image_tag api m off =
     (case read_exact m off (tag_size api) of
        Inl err \<Rightarrow> Inl err
      | Inr hdr \<Rightarrow>
          if crc32_le api (tag_crc_start api) (take (tag_header_crc api) hdr) = cpu_at m 4 hdr (tag_header_crc api)
          then Inr hdr else Inl 1)"

text \<open>A text field, which the code ends with a zero byte at its last position, as a number.\<close>

definition tag_number :: "bcm_api \<Rightarrow> byte list \<Rightarrow> nat \<times> nat \<Rightarrow> nat option" where
  "tag_number api hdr f = kstrtouint api (c_string (field (fst f) (snd f - 1) hdr))"

definition bcm63xx_parse_partitions :: "bcm_api \<Rightarrow> byte list \<Rightarrow> mtd_dev \<Rightarrow> bool \<Rightarrow> int + mtd_partition list" where
  "bcm63xx_parse_partitions api hdr m alloc =
     (case tag_number api hdr (tag_flash_image_start api) of
        None \<Rightarrow> Inl (- EINVAL)
      | Some flash_image_start \<Rightarrow>
          if flash_image_start < bcm_extended_size api then Inl (- EINVAL)
          else
            case tag_number api hdr (tag_kernel_address api) of
              None \<Rightarrow> Inl (- EINVAL)
            | Some kernel_address \<Rightarrow>
                if kernel_address < bcm_extended_size api then Inl (- EINVAL)
                else
                  case tag_number api hdr (tag_kernel_length api) of
                    None \<Rightarrow> Inl (- EINVAL)
                  | Some kernel_length \<Rightarrow>
                      if kernel_length = 0 then Inl (- EINVAL)
                      else
                        let kernel_offset = szt m (sub64 (kernel_address - bcm_extended_size api) (m_offset m));
                            kernel = mk_part KERNEL_PART_NAME kernel_offset kernel_length;
                            parts =
                              (if flash_image_start < kernel_address then
                                 let rootfs_offset = szt m (sub64 (flash_image_start - bcm_extended_size api) (m_offset m))
                                 in [mk_part ROOTFS_PART_NAME rootfs_offset (szt_sub m kernel_offset rootfs_offset), kernel]
                               else
                                 let rootfs_offset = szt m (kernel_offset + kernel_length)
                                 in [kernel, mk_part ROOTFS_PART_NAME rootfs_offset (szt m (sub64 (m_size m) rootfs_offset))])
                        in if \<not> alloc then Inl (- ENOMEM) else Inr parts)"

text \<open>The loop leaves with the first tag whose checksum is right; its offset is 64 bits wide.\<close>

definition bcm63xx_test :: "bcm_api \<Rightarrow> mtd_dev \<Rightarrow> nat \<Rightarrow> byte list option \<Rightarrow> bool \<times> byte list option" where
  "bcm63xx_test api m off found =
     (case bcm63xx_read_image_tag api m off of Inl _ \<Rightarrow> (False, found) | Inr hdr \<Rightarrow> (True, Some hdr))"

definition mtdsplit_parse_bcm63xx :: "bcm_api \<Rightarrow> mtd_dev \<Rightarrow> bool \<Rightarrow> split_result" where
  "mtdsplit_parse_bcm63xx api m alloc =
     (if m_nand m then Some (Inl (- EINVAL))
      else
        case for_blocks (\<lambda>off. off + m_erasesize m) (m_size m) (bcm63xx_test api m) 0 None of
          None \<Rightarrow> None
        | Some (_, Some hdr) \<Rightarrow> Some (bcm63xx_parse_partitions api hdr m alloc)
        | Some (_, None) \<Rightarrow> Some (Inl (- EINVAL)))"

section \<open>FIT images\<close>

text \<open>
  libfdt: a property is the position of its value in the tree and its length; the iteration over
  nodes returns the next node and the new depth.
\<close>

record fdt_api =
  fdt_getprop :: "byte list \<Rightarrow> int \<Rightarrow> string \<Rightarrow> (nat \<times> int) option"
  fdt_totalsize :: "byte list \<Rightarrow> nat"
  fdt_path_offset :: "byte list \<Rightarrow> string \<Rightarrow> int"
  fdt_next_node :: "byte list \<Rightarrow> int \<Rightarrow> int \<Rightarrow> int \<times> int"

text \<open>The data of an image, as its distance from the start of the tree and its size.\<close>

definition fit_image_get_data :: "fdt_api \<Rightarrow> mtd_dev \<Rightarrow> byte list \<Rightarrow> int \<Rightarrow> int + int \<times> nat" where
  "fit_image_get_data api m fit noffset =
     (case fdt_getprop api fit noffset ''data'' of
        None \<Rightarrow> Inl (- 1)
      | Some (pos, len) \<Rightarrow> Inr (int pos, int_to_szt m len))"

definition fit_image_get_data_offset :: "fdt_api \<Rightarrow> byte list \<Rightarrow> int \<Rightarrow> int + int" where
  "fit_image_get_data_offset api fit noffset =
     (case fdt_getprop api fit noffset ''data-offset'' of
        None \<Rightarrow> Inl (- ENOENT) | Some (pos, _) \<Rightarrow> Inr (s32 (be32_at fit pos)))"

definition fit_image_get_data_position :: "fdt_api \<Rightarrow> byte list \<Rightarrow> int \<Rightarrow> int + int" where
  "fit_image_get_data_position api fit noffset =
     (case fdt_getprop api fit noffset ''data-position'' of
        None \<Rightarrow> Inl (- ENOENT) | Some (pos, _) \<Rightarrow> Inr (s32 (be32_at fit pos)))"

definition fit_image_get_data_size :: "fdt_api \<Rightarrow> byte list \<Rightarrow> int \<Rightarrow> int + int" where
  "fit_image_get_data_size api fit noffset =
     (case fdt_getprop api fit noffset ''data-size'' of
        None \<Rightarrow> Inl (- ENOENT) | Some (pos, _) \<Rightarrow> Inr (s32 (be32_at fit pos)))"

definition fit_image_get_data_and_size :: "fdt_api \<Rightarrow> mtd_dev \<Rightarrow> byte list \<Rightarrow> int \<Rightarrow> int + int \<times> nat" where
  "fit_image_get_data_and_size api m fit noffset =
     (let external =
            (case fit_image_get_data_position api fit noffset of
               Inr off \<Rightarrow> Some off
             | Inl _ \<Rightarrow>
                 case fit_image_get_data_offset api fit noffset of
                   Inr off \<Rightarrow> Some (s32 (u32_of_int (off + int (u32 (fdt_totalsize api fit + 3) div 4 * 4))))
                 | Inl _ \<Rightarrow> None)
      in case external of
           None \<Rightarrow> fit_image_get_data api m fit noffset
         | Some off \<Rightarrow>
             case fit_image_get_data_size api fit noffset of
               Inl ret \<Rightarrow> Inl ret
             | Inr len \<Rightarrow> Inr (off, int_to_szt m len))"

text \<open>The loop over the nodes below \<^verbatim>\<open>/images\<close>: an error of an image, or the largest end of an image.\<close>

definition fit_image_end :: "mtd_dev \<Rightarrow> int \<times> nat \<Rightarrow> nat" where
  "fit_image_end m d = int_to_szt m (int (snd d) + fst d)"

partial_function (option) fit_images :: "fdt_api \<Rightarrow> mtd_dev \<Rightarrow> byte list \<Rightarrow> int \<Rightarrow> int \<Rightarrow> nat \<Rightarrow> (int + nat) option" where
  "fit_images api m fit noffset ndepth max_size =
     (if \<not> (noffset \<ge> 0 \<and> ndepth > 0) then Some (Inr max_size)
      else
        case (if ndepth = 1 then
                case fit_image_get_data_and_size api m fit noffset of
                  Inl _ \<Rightarrow> None
                | Inr d \<Rightarrow> Some (max max_size (fit_image_end m d))
              else Some max_size) of
          None \<Rightarrow> Some (Inl 0)
        | Some max_size' \<Rightarrow>
            case fdt_next_node api fit noffset ndepth of
              (noffset', ndepth') \<Rightarrow> fit_images api m fit noffset' ndepth' max_size')"

text \<open>The search for the header; \<open>hdr\<close> is the header read last, and before the first read what the stack holds.\<close>

partial_function (option) fit_find :: "mtd_dev \<Rightarrow> nat \<Rightarrow> nat \<Rightarrow> byte list \<Rightarrow> (int + nat \<times> byte list) option" where
  "fit_find m offset_start off hdr =
     (if \<not> szt m (off + 40) \<le> m_size m then Some (Inr (off, hdr))
      else
        case read_exact m (szt m (off + offset_start)) 40 of
          Inl ret \<Rightarrow> Some (Inl ret)
        | Inr h \<Rightarrow>
            if be32_at h 0 \<noteq> 0xd00dfeed then fit_find m offset_start (eb_step m off) h
            else Some (Inr (off, h)))"

definition strstr :: "string \<Rightarrow> string \<Rightarrow> bool" where
  "strstr hay needle = list_ex (\<lambda>i. take (length needle) (drop i hay) = needle) [0..<length hay + 1]"

text \<open>The two ways of splitting: a root file system behind the image, or an overlay behind the data of a FIT with external data.\<close>

definition fit_split_rootfs :: "nat \<Rightarrow> nat \<Rightarrow> nat \<Rightarrow> mtd_dev \<Rightarrow> bool \<Rightarrow> split_result" where
  "fit_split_rootfs offset_start fit_offset fit_size m alloc =
     (case mtd_find_rootfs_from m (szt m (fit_offset + fit_size + offset_start)) (szt m (m_size m)) of
        None \<Rightarrow> None
      | Some (Inl ret) \<Rightarrow> Some (Inl ret)
      | Some (Inr (r, t)) \<Rightarrow>
          Some (if \<not> alloc then Inl (- ENOMEM)
                else Inr [mk_part KERNEL_PART_NAME fit_offset (mtd_roundup_to_eb (szt m (fit_size + offset_start)) (m_erasesize m)),
                          mk_part (rootfs_name t) r (szt m (sub64 (m_size m) r))]))"

definition fit_split_data :: "fdt_api \<Rightarrow> nat \<Rightarrow> nat \<Rightarrow> nat \<Rightarrow> mtd_dev \<Rightarrow> bool \<Rightarrow> split_result" where
  "fit_split_data api offset_start fit_offset fit_size m alloc =
     (case m_read m fit_offset (szt m (fit_size + offset_start)) of
        (ret, bs) \<Rightarrow>
          if ret \<noteq> 0 then Some (Inl ret)
          else
            let fit = bs @ replicate (fit_size - length bs) 0;
                images_noffset = fdt_path_offset api fit ''/images''
            in if images_noffset < 0 then Some (Inl (- ENOENT))
               else
                 case fdt_next_node api fit images_noffset 0 of
                   (noffset, ndepth) \<Rightarrow>
                     case fit_images api m fit noffset ndepth 0 of
                       None \<Rightarrow> None
                     | Some (Inl ret) \<Rightarrow> Some (Inl ret)
                     | Some (Inr max_size) \<Rightarrow>
                         Some (if \<not> alloc then Inl (- ENOMEM)
                               else let off = fit_offset + mtd_roundup_to_eb max_size (m_erasesize m)
                                    in Inr [mk_part ROOTFS_SPLIT_NAME off (sub64 (m_size m) off)]))"

text \<open>
  \<open>fit_ok\<close> says whether the buffer for the tree is allocated; without it the kernel reads to address 0
  and the parser does not return.
\<close>

definition mtdsplit_fit_parse :: "fdt_api \<Rightarrow> of_node \<Rightarrow> string \<Rightarrow> byte list \<Rightarrow> bool \<Rightarrow> mtd_dev \<Rightarrow> bool \<Rightarrow> split_result" where
  "mtdsplit_fit_parse api np saved_command_line stack fit_ok m alloc =
     (if (case of_string np ''openwrt,cmdline-match'' of Inl _ \<Rightarrow> False | Inr c \<Rightarrow> \<not> strstr saved_command_line c)
      then Some (Inl (- ENOENT))
      else
        let offset_start = of_u32_or np ''openwrt,fit-offset'' 0
        in case fit_find m offset_start 0 stack of
             None \<Rightarrow> None
           | Some (Inl ret) \<Rightarrow> Some (Inl ret)
           | Some (Inr (fit_offset, hdr)) \<Rightarrow>
               let fit_size = be32_at hdr 4
               in if fit_size = 0 then Some (Inl (- ENOENT))
                  else if fit_size > 0x80000 then fit_split_rootfs offset_start fit_offset fit_size m alloc
                  else if \<not> fit_ok then None
                  else fit_split_data api offset_start fit_offset fit_size m alloc)"


section \<open>BCM63xx partitions\<close>

lemma bcm63xx_returns: "dev_ok m \<Longrightarrow> mtdsplit_parse_bcm63xx api m alloc \<noteq> None"
  using for_blocks_returns [of "m_size m" "\<lambda>off. off + m_erasesize m" "bcm63xx_test api m" 0 None] dev_okD(1) [of m]
  by (auto simp: mtdsplit_parse_bcm63xx_def split: option.splits)

text \<open>The addresses of a tag are used as they are: partitions lie in the device when the tag says so.\<close>

lemma bcm63xx_in_window:
  assumes "dev_ok m" and "bcm63xx_parse_partitions api hdr m alloc = Inr ps"
    and "tag_number api hdr (tag_flash_image_start api) = Some fis" and "tag_number api hdr (tag_kernel_address api) = Some ka"
    and "tag_number api hdr (tag_kernel_length api) = Some kl"
    and "bcm_extended_size api + m_offset m \<le> min fis ka"
    and "ka + kl < bcm_extended_size api + m_offset m + m_size m" and "ka < 4294967296"
  shows "good_split m ps"
proof -
  let ?x = "bcm_extended_size api + m_offset m"
  note d = dev_okD [OF assms(1)]
  have w: "szt m (sub64 (a - bcm_extended_size api) (m_offset m)) = a - ?x" if "?x \<le> a" "a < ?x + m_size m" "a < 4294967296" for a
  proof -
    have "m_offset m \<le> a - bcm_extended_size api" "a - bcm_extended_size api < 18446744073709551616" using that by linarith+
    then have "sub64 (a - bcm_extended_size api) (m_offset m) = a - ?x" by simp
    then show ?thesis using that d(4) by simp
  qed
  have k: "szt m (sub64 (ka - bcm_extended_size api) (m_offset m)) = ka - ?x" using assms(6-8) by (intro w) linarith+
  show ?thesis
  proof (cases "fis < ka")
    case True
    have f: "szt m (sub64 (fis - bcm_extended_size api) (m_offset m)) = fis - ?x"
      using True assms(6-8) by (intro w) linarith+
    have s: "szt_sub m (ka - ?x) (fis - ?x) = ka - fis" using True assms(6,7) d(4) by simp
    show ?thesis using assms(2-7) True
      by (simp add: bcm63xx_parse_partitions_def Let_def k f s split: if_splits) (auto simp: good_split_def)
  next
    case False
    define q where "q = ka + kl - ?x"
    have "q \<le> m_size m" using assms(6,7) by (simp add: q_def)
    then have r: "szt m (ka + kl - ?x) = ka + kl - ?x" "szt m (sub64 (m_size m) (ka + kl - ?x)) = m_size m - (ka + kl - ?x)"
      using d(3,4) unfolding q_def [symmetric] by simp_all
    show ?thesis using assms(2-7) False
      by (simp add: bcm63xx_parse_partitions_def Let_def k r split: if_splits) (auto simp: good_split_def)
  qed
qed

section \<open>The search for a FIT image\<close>

lemma at_eb_cases:
  assumes "dev_ok m" and "at_eb m off"
  obtains "off = m_size m" | "off < m_size m" and "off + 1024 \<le> m_size m"
proof (cases "off < m_size m")
  case True
  have "1024 \<le> m_erasesize m" using dev_okD(1,7) [OF assms(1)] by (simp add: dvd_imp_le)
  moreover have "off + m_erasesize m \<le> m_size m"
    using at_eb_step [OF assms True] by (simp add: at_eb_def eb_step_small [OF assms(1) True])
  ultimately show ?thesis using that(2) True by linarith
next
  case False
  with assms(2) show ?thesis using that(1) by (simp add: at_eb_def)
qed

lemma fit_find_result:
  assumes ok: "dev_ok m" and "at_eb m off"
  shows "\<exists>r. fit_find m start off hdr = Some r \<and> (case r of Inl e \<Rightarrow> e \<noteq> 0 | Inr (o', h) \<Rightarrow>
    at_eb m o' \<and> (o' < m_size m \<and> be32_at h 0 = 0xd00dfeed \<and> read_exact m (szt m (o' + start)) 40 = Inr h \<or> o' = m_size m))"
  using assms(2)
proof (induction "m_size m - off" arbitrary: off hdr rule: less_induct)
  case less
  have 40: "szt m (off + 40) = off + 40"
  proof -
    have "1024 \<le> m_erasesize m" using dev_okD(1,7) [OF ok] by (simp add: dvd_imp_le)
    then show ?thesis using less.prems dev_okD(6) [OF ok] by (simp add: at_eb_def)
  qed
  from ok less.prems show ?case
  proof (cases rule: at_eb_cases)
    case 1
    then show ?thesis using 40 less.prems by (subst fit_find.simps) simp
  next
    case 2
    have st: "at_eb m (eb_step m off)" "m_size m - eb_step m off < m_size m - off"
      using at_eb_step [OF ok less.prems 2(1)] 2(1) dev_okD(1) [OF ok] by (auto simp: eb_step_small [OF ok 2(1)] at_eb_def)
    show ?thesis
    proof (cases "read_exact m (szt m (off + start)) 40")
      case (Inl e)
      then show ?thesis using 40 2 read_exact_err [OF Inl] by (subst fit_find.simps) simp
    next
      case (Inr h)
      show ?thesis
      proof (cases "be32_at h 0 = 0xd00dfeed")
        case True
        with Inr show ?thesis using 40 2 less.prems by (subst fit_find.simps) simp
      next
        case False
        with Inr show ?thesis using 40 2 less.hyps [OF st(2,1), of h] by (subst fit_find.simps) simp
      qed
    qed
  qed
qed

lemma fit_split_rootfs_shape:
  assumes ok: "dev_ok m" and w: "m_szmod m = 2 ^ 64" and eb: "at_eb m o'" and s: "fs < 4294967296" "st < 4294967296"
    and sp: "fit_split_rootfs st o' fs m alloc = Some (Inr ps)"
  obtains t r where "ps = [mk_part KERNEL_PART_NAME o' (mtd_roundup_to_eb (fs + st) (m_erasesize m)), mk_part (rootfs_name t) r (m_size m - r)]"
    and "o' + fs + st \<le> r" and "r < m_size m" and "r = o' + fs + st \<or> m_erasesize m dvd r"
proof -
  note d = dev_okD [OF ok]
  have from': "szt m (o' + fs + st) = o' + fs + st" "szt m (fs + st) = fs + st" using w s eb d(3) by (simp_all add: at_eb_def)
  with sp d(5) obtain r t where f: "mtd_find_rootfs_from m (o' + fs + st) (m_size m) = Some (Inr (r, t))"
    and ps: "ps = [mk_part KERNEL_PART_NAME o' (mtd_roundup_to_eb (fs + st) (m_erasesize m)), mk_part (rootfs_name t) r (szt m (sub64 (m_size m) r))]"
    by (auto simp: fit_split_rootfs_def split: option.splits sum.splits if_splits)
  note r = find_rootfs_result [OF f ok order_refl]
  have "szt m (sub64 (m_size m) r) = m_size m - r" using r(2) d(3,4) by simp
  with ps r that show ?thesis by simp
qed

lemma fit_disjoint_iff:
  assumes ok: "dev_ok m" and w: "m_szmod m = 2 ^ 64" and eb: "at_eb m o'" and s: "fs < 4294967296" "st < 4294967296"
    and sp: "fit_split_rootfs st o' fs m alloc = Some (Inr ps)" and f: "0 < fs"
  shows "\<exists>a b. ps = [a, b] \<and> (part_bytes a \<inter> part_bytes b = {} \<longleftrightarrow> m_erasesize m dvd pt_offset b)"
proof -
  let ?e = "m_erasesize m" and ?up = "mtd_roundup_to_eb (fs + st) (m_erasesize m)"
  obtain t r where ps: "ps = [mk_part KERNEL_PART_NAME o' ?up, mk_part (rootfs_name t) r (m_size m - r)]"
    and r: "o' + fs + st \<le> r" "r < m_size m" "r = o' + fs + st \<or> ?e dvd r"
    using fit_split_rootfs_shape [OF ok w eb s sp] by metis
  have e: "0 < ?e" using dev_okD(1) [OF ok] .
  have b: "fs + st + ?e < 4294967296" using r dev_okD(2) [OF ok] by linarith
  note up = roundup_small [OF e b]
  have eo: "?e dvd o'" using eb by (simp add: at_eb_def)
  have "o' + ?up \<le> r \<longleftrightarrow> ?e dvd r"
  proof
    assume le: "o' + ?up \<le> r"
    from r(3) show "?e dvd r"
    proof
      assume "r = o' + fs + st"
      with le up(1) have "r = o' + ?up" by simp
      then show ?thesis using eo up(2) by simp
    qed
  next
    assume dv: "?e dvd r"
    show "o' + ?up \<le> r"
    proof (rule ccontr)
      assume "\<not> o' + ?up \<le> r"
      then have "0 < o' + ?up - r" "o' + ?up - r < ?e" using r(1) up(3) by simp_all
      moreover have "?e dvd o' + ?up - r" using eo up(2) dv by simp
      ultimately show False using nat_dvd_not_less by blast
    qed
  qed
  moreover have "part_bytes (mk_part KERNEL_PART_NAME o' ?up) \<inter> part_bytes (mk_part (rootfs_name t) r (m_size m - r)) = {} \<longleftrightarrow> o' + ?up \<le> r"
    using r f up(1) by (auto simp: part_bytes_def)
  ultimately show ?thesis using ps by simp
qed

section \<open>Properties\<close>

text \<open>
  C40. When the FIT splitter makes a kernel and a root file system partition, on a 64-bit kernel,
  they overlap exactly when the root file system does not start at an erase block: the kernel
  partition is rounded up to whole blocks, the search accepts a root file system right behind
  the image.
\<close>

theorem fit_split_disjoint_iff:
  assumes "dev_ok m" and "m_szmod m = 2 ^ 64" and "of_u32_or np ''openwrt,fit-offset'' 0 < 4294967296"
    and "mtdsplit_fit_parse api np cmdline stack fit_ok m alloc = Some (Inr ps)" and "length ps = 2"
  shows "\<exists>a b. ps = [a, b] \<and> (part_bytes a \<inter> part_bytes b = {} \<longleftrightarrow> m_erasesize m dvd pt_offset b)"
proof -
  let ?st = "of_u32_or np ''openwrt,fit-offset'' 0"
  obtain o' h where f: "fit_find m ?st 0 stack = Some (Inr (o', h))" and z: "be32_at h 4 \<noteq> 0"
    and alt: "fit_split_rootfs ?st o' (be32_at h 4) m alloc = Some (Inr ps) \<or> fit_split_data api ?st o' (be32_at h 4) m alloc = Some (Inr ps)"
    using assms(4) by (auto simp: mtdsplit_fit_parse_def Let_def split: option.splits sum.splits if_splits)
  have eb: "at_eb m o'" using fit_find_result [OF assms(1), of 0 ?st stack] f by auto
  have "fit_split_data api ?st o' (be32_at h 4) m alloc \<noteq> Some (Inr ps)"
    using assms(5) by (auto simp: fit_split_data_def Let_def split: prod.splits option.splits sum.splits if_splits)
  with alt have "fit_split_rootfs ?st o' (be32_at h 4) m alloc = Some (Inr ps)" by simp
  from fit_disjoint_iff [OF assms(1,2) eb u32_fields(2) assms(3) this] z show ?thesis by simp
qed

definition no_fdt :: fdt_api where
  "no_fdt = \<lparr>fdt_getprop = \<lambda>_ _ _. None, fdt_totalsize = \<lambda>_. 0, fdt_path_offset = \<lambda>_ _. - 1, fdt_next_node = \<lambda>_ _ d. (- 1, d)\<rparr>"

definition no_props :: of_node where
  "no_props = \<lparr>of_compatible = [], of_u32 = \<lambda>_. Inl (- EINVAL), of_string = \<lambda>_. Inl (- EINVAL), of_bool = \<lambda>_. False\<rparr>"

text \<open>A FIT image of 0x90400 bytes with a squashfs right behind it, inside the last erase block of the image.\<close>

definition ex_fit :: mtd_dev where
  "ex_fit = (flash_of (\<lambda>i. if i = 0 then 0xd0 else if i = 1 then 0x0d else if i = 2 then 0xfe else if i = 3 then 0xed
     else if i = 5 then 9 else if i = 6 then 4
     else if i = 0x90400 then 0x68 else if i = 0x90401 then 0x73 else if i = 0x90402 then 0x71 else if i = 0x90403 then 0x73 else 0)
     0x200000 0x10000)\<lparr>m_szmod := 2 ^ 64\<rparr>"

theorem fit_split_disjoint_iff_witness:
  "\<exists>a b. mtdsplit_fit_parse no_fdt no_props [] [] True ex_fit True = Some (Inr [a, b]) \<and> part_bytes a \<inter> part_bytes b \<noteq> {}"
proof -
  have ok: "dev_ok ex_fit" by (auto simp: dev_ok_def ex_fit_def flash_of_def split: if_splits)
  have z: "m_size ex_fit = 0x200000" "m_erasesize ex_fit = 0x10000" "m_szmod ex_fit = 2 ^ 64"
    by (simp_all add: ex_fit_def flash_of_def)
  obtain h where rd: "read_exact ex_fit 0 40 = Inr h" and h: "be32_at h 0 = 0xd00dfeed" "be32_at h 4 = 0x90400"
    by (simp add: read_exact_def ex_fit_def flash_of_def be32_at_def be_val_def field_def upt_rec)
  have st: "of_u32_or no_props ''openwrt,fit-offset'' 0 = 0" by (simp add: no_props_def of_u32_or_def)
  have find: "fit_find ex_fit 0 0 [] = Some (Inr (0, h))"
    by (subst fit_find.simps) (simp add: szt_def z rd h)
  have mg: "mtd_check_rootfs_magic ex_fit 0x90400 = Inr PART_TYPE_SQUASHFS"
    by (simp add: mtd_check_rootfs_magic_def read_exact_def ex_fit_def flash_of_def le32_at_def field_def upt_rec)
  have rf: "mtd_find_rootfs_from ex_fit 0x90400 0x200000 = Some (Inr (0x90400, PART_TYPE_SQUASHFS))"
    unfolding mtd_find_rootfs_from_def by (subst for_blocks_stop [where s' = "Some PART_TYPE_SQUASHFS"]) (simp_all add: rootfs_test_def mg)
  define a b where "a = mk_part KERNEL_PART_NAME 0 (mtd_roundup_to_eb 0x90400 0x10000)"
    and "b = mk_part ROOTFS_PART_NAME 0x90400 (szt ex_fit (sub64 0x200000 0x90400))"
  have eq: "mtdsplit_fit_parse no_fdt no_props [] [] True ex_fit True = Some (Inr [a, b])"
    using find h by (simp add: mtdsplit_fit_parse_def st fit_split_rootfs_def szt_def z rf a_def b_def rootfs_name_def) (simp add: no_props_def)
  have "\<not> (0x10000 :: nat) dvd 0x90400" by simp
  then show ?thesis using fit_split_disjoint_iff [OF ok z(3) _ eq] st eq by (auto simp: z b_def)
qed

text \<open>
  Without a FIT header at any erase block the FIT splitter makes no partition but returns an
  error on a 64-bit kernel, although it goes on with the last header read: that one is taken to
  lie behind the end of the device.
\<close>

theorem fit_without_image_fails:
  assumes "dev_ok m" and "m_szmod m = 2 ^ 64"
    and "\<And>off h. at_eb m off \<Longrightarrow> off < m_size m \<Longrightarrow>
      read_exact m (szt m (off + of_u32_or np ''openwrt,fit-offset'' 0)) 40 = Inr h \<Longrightarrow> be32_at h 0 \<noteq> 0xd00dfeed"
    and "of_u32_or np ''openwrt,fit-offset'' 0 < 4294967296"
  shows "\<exists>e. mtdsplit_fit_parse api np cmdline stack True m alloc = Some (Inl e)"
proof -
  let ?st = "of_u32_or np ''openwrt,fit-offset'' 0"
  note d = dev_okD [OF assms(1)]
  consider e where "fit_find m ?st 0 stack = Some (Inl e)" | h where "fit_find m ?st 0 stack = Some (Inr (m_size m, h))"
    using fit_find_result [OF assms(1), of 0 ?st stack] assms(3) by (fastforce split: sum.splits)
  then show ?thesis
  proof cases
    case 2
    let ?fs = "be32_at h 4"
    have "m_szmod m = 18446744073709551616" using assms(2) by simp
    then have sz: "m_size m + ?fs + ?st < m_szmod m" using u32_fields(2) [of h 4] assms(4) d(3) by linarith
    then have w: "szt m (m_size m + ?fs + ?st) = m_size m + ?fs + ?st" "szt m (?fs + ?st) = ?fs + ?st"
      using sz by (intro szt_id, linarith)+
    have rf: "fit_split_rootfs ?st (m_size m) ?fs m alloc = Some (Inl (- ENOENT))"
      unfolding fit_split_rootfs_def w d(5) by (simp add: mtd_find_rootfs_from_def)
    have "\<exists>e. fit_split_data api ?st (m_size m) ?fs m alloc = Some (Inl e)" if "?fs \<noteq> 0"
    proof -
      obtain ret bs where rd: "m_read m (m_size m) (?fs + ?st) = (ret, bs)" by fastforce
      then have "ret \<noteq> 0" using mtd_read_inside [OF assms(1), of "m_size m" "?fs + ?st" bs] that by auto
      then show ?thesis by (simp add: fit_split_data_def w rd)
    qed
    then show ?thesis using 2 rf by (auto simp: mtdsplit_fit_parse_def Let_def split: sum.splits)
  qed (auto simp: mtdsplit_fit_parse_def Let_def split: sum.splits)
qed


definition ex_blank :: mtd_dev where
  "ex_blank = (flash_of (\<lambda>_. 0xff) 2048 1024)\<lparr>m_szmod := 2 ^ 64\<rparr>"

theorem fit_without_image_fails_witness:
  "\<exists>e. mtdsplit_fit_parse no_fdt no_props [] [] True ex_blank True = Some (Inl e)"
proof -
  have ok: "dev_ok ex_blank" by (auto simp: dev_ok_def ex_blank_def flash_of_def split: if_splits)
  have st: "of_u32_or no_props ''openwrt,fit-offset'' 0 = 0" by (simp add: no_props_def of_u32_or_def)
  have "be32_at h 0 \<noteq> 0xd00dfeed" if "read_exact ex_blank off 40 = Inr h" for off h
  proof -
    have "h = map (\<lambda>_. 0xff) [off..<off + 40]"
      using that by (auto simp: read_exact_def ex_blank_def flash_of_def split: if_splits)
    then show ?thesis by (simp add: be32_at_def be_val_def field_def upt_rec map_replicate_const)
  qed
  then show ?thesis using fit_without_image_fails [OF ok, of no_props no_fdt "[]" "[]" True] by (simp add: st ex_blank_def)
qed

end
