(* ===== verification/Mtdsplit_Wfi.thy ===== *)
theory Mtdsplit_Wfi
  imports Mtdsplit_Scan
begin

text \<open>
  The splitters for the whole-flash images of Broadcom (\<^verbatim>\<open>mtdsplit_bcm_wfi.c\<close>), whose loader and kernel
  are files of a JFFS2 file system, with one image or with two. The checksum of the kernel is an argument, and so is the
  memory behind the block buffer, which the search for a file reads when a node is near its end.
\<close>

section \<open>Files in a JFFS2 file system\<close>

record wfi_env =
  crc32 :: "nat \<Rightarrow> byte list \<Rightarrow> nat"
  behind_buf :: "byte list"

definition jffs2_dirent_crc :: "wfi_env \<Rightarrow> byte list \<Rightarrow> nat" where
  "jffs2_dirent_crc env node = crc32 env 0 (take (40 - 8) node)"

definition jffs2_dirent_valid :: "wfi_env \<Rightarrow> mtd_dev \<Rightarrow> byte list \<Rightarrow> bool" where
  "jffs2_dirent_valid env m node \<longleftrightarrow>
     cpu_at m 2 node 0 = 0x1985 \<and> cpu_at m 2 node 2 = 0xE001 \<and> cpu_at m 4 node 20 \<noteq> 0 \<and>
     cpu_at m 4 node 32 = jffs2_dirent_crc env node"

text \<open>How the walk over the nodes of a block ends: at its end, at the file without the marker before it, or at the file.\<close>

datatype dirent_scan = Scan_end bool | Scan_invalid | Scan_found "byte list" nat

definition next_node :: "mtd_dev \<Rightarrow> byte list \<Rightarrow> nat \<Rightarrow> nat" where
  "next_node m node block_offs = u32 (u32 (block_offs + cpu_at m 4 node 4) + 3) div 4 * 4"

partial_function (option) jffs2_scan :: "wfi_env \<Rightarrow> mtd_dev \<Rightarrow> byte list \<Rightarrow> byte list \<Rightarrow> nat \<Rightarrow> bool \<Rightarrow> dirent_scan option" where
  "jffs2_scan env m mem name block_offs valid =
     (if \<not> block_offs < m_erasesize m then Some (Scan_end valid)
      else
        let node = drop block_offs mem
        in if \<not> jffs2_dirent_valid env m node then jffs2_scan env m mem name (u32 (block_offs + 4)) valid
           else if field 40 9 node = bytes_of ''1-openwrt'' then jffs2_scan env m mem name (next_node m node block_offs) True
           else if field 40 (length name) node = name then
             Some (if \<not> valid then Scan_invalid
                   else Scan_found (c_string (field 40 (u8_at node 28) node)) (u8_at node 28))
           else jffs2_scan env m mem name (next_node m node block_offs) valid)"

text \<open>
  The locals of the loop over blocks: whether the marker was seen, or the value returned;
  \<^const>\<open>None\<close> when the walk over a block does not end.
\<close>

type_synonym find_state = "(bool + (int + byte list \<times> nat)) option"

definition jffs2_block :: "wfi_env \<Rightarrow> mtd_dev \<Rightarrow> byte list \<Rightarrow> nat \<Rightarrow> find_state \<Rightarrow> bool \<times> find_state" where
  "jffs2_block env m name off st =
     (case st of
        Some (Inl valid) \<Rightarrow>
          (case read_exact m off 2 of
             Inl _ \<Rightarrow> (False, st)
           | Inr magic \<Rightarrow>
               if cpu_at m 2 magic 0 \<noteq> 0x1985 then (False, st)
               else
                 case m_read m off (m_erasesize m) of
                   (rc, buf) \<Rightarrow>
                     if rc \<noteq> 0 then (True, Some (Inr (Inl rc)))
                     else if length buf \<noteq> m_erasesize m then (True, Some (Inr (Inl (- EINVAL))))
                     else
                       case jffs2_scan env m (buf @ behind_buf env) name 0 valid of
                         None \<Rightarrow> (True, None)
                       | Some (Scan_end valid') \<Rightarrow> (False, Some (Inl valid'))
                       | Some Scan_invalid \<Rightarrow> (True, Some (Inr (Inl (- EINVAL))))
                       | Some (Scan_found nm nsize) \<Rightarrow> (True, Some (Inr (Inr (nm, nsize)))))
      | _ \<Rightarrow> (True, st))"

text \<open>The block of the file, with its name and the length of the name; \<open>size\<close> may be negative.\<close>

definition jffs2_find_file :: "wfi_env \<Rightarrow> mtd_dev \<Rightarrow> byte list \<Rightarrow> nat \<Rightarrow> int \<Rightarrow> (int + nat \<times> byte list \<times> nat) option" where
  "jffs2_find_file env m name offs sz =
     (case for_blocks (\<lambda>off. off + m_erasesize m) (nat (int offs + sz)) (jffs2_block env m name) offs (Some (Inl False)) of
        None \<Rightarrow> None
      | Some (off, None) \<Rightarrow> None
      | Some (off, Some (Inl _)) \<Rightarrow> Some (Inl (- ENOENT))
      | Some (off, Some (Inr (Inl rc))) \<Rightarrow> Some (Inl rc)
      | Some (off, Some (Inr (Inr (nm, nsize)))) \<Rightarrow> Some (Inr (off, nm, nsize)))"

definition ubi_test :: "mtd_dev \<Rightarrow> nat \<Rightarrow> bool \<Rightarrow> bool \<times> bool" where
  "ubi_test m off found =
     (case read_exact m off 4 of
        Inl _ \<Rightarrow> (False, found)
      | Inr magic \<Rightarrow> if be32_at magic 0 = 0x55424923 then (True, True) else (False, found))"

definition ubifs_find :: "mtd_dev \<Rightarrow> nat \<Rightarrow> int \<Rightarrow> (int + nat) option" where
  "ubifs_find m offs sz =
     (case for_blocks (\<lambda>off. off + m_erasesize m) (nat (int offs + sz)) (ubi_test m) offs False of
        None \<Rightarrow> None
      | Some (off, found) \<Rightarrow> Some (if found then Inr off else Inl (- ENOENT)))"

section \<open>One image\<close>

text \<open>Run the rest unless there was an error.\<close>

definition split_bind :: "(int + 'a) option \<Rightarrow> ('a \<Rightarrow> (int + 'b) option) \<Rightarrow> (int + 'b) option" where
  "split_bind r f = (case r of None \<Rightarrow> None | Some (Inl e) \<Rightarrow> Some (Inl e) | Some (Inr a) \<Rightarrow> f a)"

lemma split_bind_Inr: "split_bind r f = Some (Inr b) \<longleftrightarrow> (\<exists>a. r = Some (Inr a) \<and> f a = Some (Inr b))"
  by (auto simp: split_bind_def split: option.splits sum.splits)

definition cferam_prefix :: "of_node option \<Rightarrow> byte list" where
  "cferam_prefix node =
     (let cferam_name = (case node of
            None \<Rightarrow> ''cferam''
          | Some np \<Rightarrow> (case of_string np ''brcm,cferam'' of Inl _ \<Rightarrow> ''cferam'' | Inr s \<Rightarrow> s))
      in take (min (length cferam_name) 32 - 1) (bytes_of cferam_name))"

definition wfi_parts :: "nat option \<Rightarrow> nat \<Rightarrow> nat \<Rightarrow> nat \<Rightarrow> nat \<Rightarrow> mtd_partition list" where
  "wfi_parts cfe_off kernel_off rootfs_off off sz =
     (case cfe_off of
        None \<Rightarrow> []
      | Some c \<Rightarrow> [(mk_part ''cferam'' c (sub64 kernel_off c))\<lparr>pt_mask_writeable := True\<rparr>]) @
     [mk_part ''firmware'' kernel_off (sub64 sz (sub64 kernel_off off)),
      mk_part KERNEL_PART_NAME kernel_off (sub64 rootfs_off kernel_off),
      mk_part UBI_PART_NAME rootfs_off (sub64 sz (sub64 rootfs_off off))]"

definition parse_bcm_wfi :: "wfi_env \<Rightarrow> of_node option \<Rightarrow> nat \<Rightarrow> nat \<Rightarrow> bool \<Rightarrow> mtd_dev \<Rightarrow> bool \<Rightarrow> split_result" where
  "parse_bcm_wfi env node off sz cfe_part m alloc =
     split_bind
       (if cfe_part then
          split_bind (jffs2_find_file env m (cferam_prefix node) off (int sz - (int off - int off)))
            (\<lambda>(cfe_off, _, _). Some (Inr (Some cfe_off, cfe_off + m_erasesize m)))
        else Some (Inr (None, off)))
       (\<lambda>(cfe_off, kernel_start).
          split_bind (jffs2_find_file env m (bytes_of ''vmlinux.lz'') kernel_start (int sz - (int kernel_start - int off)))
            (\<lambda>(kernel_off, _, _).
               let rootfs_start = kernel_off + m_erasesize m
               in split_bind (ubifs_find m rootfs_start (int sz - (int rootfs_start - int off)))
                    (\<lambda>rootfs_off. Some (if \<not> alloc then Inl (- ENOMEM)
                                        else Inr (wfi_parts cfe_off kernel_off rootfs_off off sz)))))"

definition mtdsplit_parse_bcm_wfi :: "wfi_env \<Rightarrow> of_node option \<Rightarrow> bool \<Rightarrow> mtd_dev \<Rightarrow> bool \<Rightarrow> split_result" where
  "mtdsplit_parse_bcm_wfi env node buf_ok m alloc =
     (case node of
        None \<Rightarrow> Some (Inl (- EINVAL))
      | Some np \<Rightarrow>
          if \<not> buf_ok then Some (Inl (- ENOMEM))
          else parse_bcm_wfi env node 0 (m_size m) (\<not> of_bool np ''brcm,no-cferam'') m alloc)"

section \<open>Two images\<close>

definition char_to_num :: "nat \<Rightarrow> int" where
  "char_to_num c = (if 48 \<le> c \<and> c \<le> 57 then int c - 48 else 0)"

definition three_digits :: "byte list \<Rightarrow> nat \<Rightarrow> int" where
  "three_digits bs i = char_to_num (u8_at bs i) * 100 + char_to_num (u8_at bs (i + 1)) * 10 + char_to_num (u8_at bs (i + 2)) * 1"

text \<open>A name that holds a zero byte before its third digit is read as if zeros followed.\<close>

definition cferam_bootflag_value :: "byte list option \<Rightarrow> nat \<Rightarrow> int" where
  "cferam_bootflag_value name name_len =
     (case name of
        None \<Rightarrow> - ENOENT
      | Some nm \<Rightarrow>
          if name_len \<ge> 10 \<and> field 0 7 nm = bytes_of ''cferam.'' then three_digits nm 7 else - ENOENT)"

definition sercomm_test :: "mtd_dev \<Rightarrow> nat \<Rightarrow> int \<Rightarrow> bool \<times> int" where
  "sercomm_test m off rc =
     (case read_exact m off 10 of
        Inl _ \<Rightarrow> (False, rc)
      | Inr buf \<Rightarrow> if field 0 7 buf \<noteq> bytes_of ''eRcOmM.'' then (False, rc) else (True, three_digits buf 7))"

definition sercomm_bootflag_value :: "mtd_dev \<Rightarrow> int option" where
  "sercomm_bootflag_value m =
     map_option snd (for_blocks (\<lambda>off. off + m_erasesize m) (m_size m) (sercomm_test m) 0 (- ENOENT))"

text \<open>The two halves of the flash; the image with the larger flag is the active one, the first on a tie.\<close>

definition image_half :: "mtd_dev \<Rightarrow> bool \<Rightarrow> mtd_partition" where
  "image_half m first =
     (let img2_off = m_size m div 2
      in if first then mk_part ''img1'' 0 (sub64 img2_off 0) else mk_part ''img2'' img2_off (sub64 (m_size m) img2_off))"

text \<open>
  The end of both splitters: the return value and the partitions at \<^verbatim>\<open>*pparts\<close>. The inactive
  image is appended to the partitions of the active one; if the active image is not found the
  array is filled with the two images, but the error is returned. Without memory for that array
  the kernel writes to address 0, and does not return.
\<close>

definition wfi_add_inactive :: "mtd_dev \<Rightarrow> bool \<Rightarrow> bool \<Rightarrow> split_result \<Rightarrow> (int \<times> mtd_partition list) option" where
  "wfi_add_inactive m first_active alloc r =
     (case r of
        None \<Rightarrow> None
      | Some (Inr ps) \<Rightarrow>
          Some (if \<not> alloc then (- ENOMEM, ps)
                else (int (length ps) + 1, ps @ [image_half m (\<not> first_active)]))
      | Some (Inl ret) \<Rightarrow> if \<not> alloc then None else Some (ret, [image_half m True, image_half m False]))"

definition active_wfi :: "wfi_env \<Rightarrow> of_node option \<Rightarrow> bool \<Rightarrow> bool \<Rightarrow> mtd_dev \<Rightarrow> bool \<Rightarrow> split_result" where
  "active_wfi env node cfe_part first_active m alloc =
     parse_bcm_wfi env node (pt_offset (image_half m first_active)) (pt_size (image_half m first_active)) cfe_part m alloc"

text \<open>The name of the loader file of one half, if there is one and it can be copied (\<open>dup\<close>).\<close>

definition cferam_flag :: "wfi_env \<Rightarrow> mtd_dev \<Rightarrow> bool \<Rightarrow> bool \<Rightarrow> int option" where
  "cferam_flag env m dup first =
     (case jffs2_find_file env m (bytes_of ''cferam'') (pt_offset (image_half m first)) (int (pt_size (image_half m first))) of
        None \<Rightarrow> None
      | Some (Inl _) \<Rightarrow> Some (cferam_bootflag_value None 0)
      | Some (Inr (_, nm, nsize)) \<Rightarrow> Some (cferam_bootflag_value (if dup then Some nm else None) nsize))"

definition mtdsplit_parse_bcm_wfi_split ::
    "wfi_env \<Rightarrow> of_node option \<Rightarrow> bool \<Rightarrow> bool \<Rightarrow> bool \<Rightarrow> mtd_dev \<Rightarrow> bool \<Rightarrow> (int \<times> mtd_partition list) option" where
  "mtdsplit_parse_bcm_wfi_split env node buf_ok dup alloc2 m alloc =
     (if \<not> buf_ok then Some (- ENOMEM, [])
      else
        case (cferam_flag env m dup True, cferam_flag env m dup False) of
          (Some bf1, Some bf2) \<Rightarrow> wfi_add_inactive m (bf1 \<ge> bf2) alloc2 (active_wfi env node True (bf1 \<ge> bf2) m alloc)
        | _ \<Rightarrow> None)"

text \<open>The Sercomm splitter has the flags in two partitions; equal flags make it erase the second, as the last result says.\<close>

definition mtdsplit_parse_ser_wfi ::
    "wfi_env \<Rightarrow> of_node option \<Rightarrow> mtd_dev option \<Rightarrow> mtd_dev option \<Rightarrow> bool \<Rightarrow> bool \<Rightarrow> mtd_dev \<Rightarrow> bool \<Rightarrow>
     ((int \<times> mtd_partition list) \<times> bool) option" where
  "mtdsplit_parse_ser_wfi env node mtd_bf1 mtd_bf2 buf_ok alloc2 m alloc =
     (case mtd_bf1 of
        None \<Rightarrow> Some ((- ENOENT, []), False)
      | Some m1 \<Rightarrow>
          case mtd_bf2 of
            None \<Rightarrow> Some ((- ENOENT, []), False)
          | Some m2 \<Rightarrow>
              if \<not> buf_ok then Some ((- ENOMEM, []), False)
              else
                case (sercomm_bootflag_value m1, sercomm_bootflag_value m2) of
                  (Some bf1, Some bf2) \<Rightarrow>
                    let same = (bf1 = bf2 \<and> bf2 \<ge> 0);
                        bf2 = (if same then - ENOENT else bf2)
                    in map_option (\<lambda>r. (r, same))
                         (wfi_add_inactive m (bf1 \<ge> bf2) alloc2 (active_wfi env node False (bf1 \<ge> bf2) m alloc))
                | _ \<Rightarrow> None)"


section \<open>Where the files are\<close>

lemma jffs2_block_returned: "jffs2_block env m name off (Some (Inr x)) = (True, Some (Inr x))"
  by (simp add: jffs2_block_def)

lemma jffs2_find_file_range:
  assumes "jffs2_find_file env m name offs sz = Some (Inr (o', nm, n))"
  shows "offs \<le> o'" and "int o' < int offs + sz"
proof -
  let ?l = "nat (int offs + sz)"
  obtain s where fb: "for_blocks (\<lambda>off. off + m_erasesize m) ?l (jffs2_block env m name) offs (Some (Inl False)) = Some (o', s)"
    and s: "s = Some (Inr (Inr (nm, n)))"
    using assms by (auto simp: jffs2_find_file_def split: option.splits prod.splits sum.splits)
  have "offs \<le> o' \<and> ((\<exists>x. s = Some (Inr x)) \<longrightarrow> o' < ?l)"
    by (rule for_blocks_result [OF fb, where I = "\<lambda>off s. offs \<le> off \<and> (\<exists>v. s = Some (Inl v))"
          and Q = "\<lambda>off s. offs \<le> off \<and> ((\<exists>x. s = Some (Inr x)) \<longrightarrow> off < ?l)"])
       (auto simp: jffs2_block_def split: option.splits sum.splits prod.splits if_splits dirent_scan.splits)
  with s show "offs \<le> o'" "int o' < int offs + sz" by auto
qed

lemma jffs2_find_file_error:
  assumes "jffs2_find_file env m name offs sz = Some (Inl e)" and "\<And>off len. fst (m_read m off len) \<le> 0"
  shows "e < 0"
proof -
  let ?l = "nat (int offs + sz)"
  obtain o' s where fb: "for_blocks (\<lambda>off. off + m_erasesize m) ?l (jffs2_block env m name) offs (Some (Inl False)) = Some (o', s)"
    and s: "s = Some (Inr (Inl e)) \<or> e = - ENOENT"
    using assms(1) by (auto simp: jffs2_find_file_def split: option.splits prod.splits sum.splits)
  have neg: "m_read m off len = (rc, b) \<Longrightarrow> rc \<noteq> 0 \<Longrightarrow> rc < 0" for off len rc b
    using assms(2) [of off len] by simp
  have "\<forall>x. s = Some (Inr (Inl x)) \<longrightarrow> x < 0"
    by (rule for_blocks_result [OF fb, where I = "\<lambda>off s. \<exists>v. s = Some (Inl v)"
          and Q = "\<lambda>off s. \<forall>x. s = Some (Inr (Inl x)) \<longrightarrow> x < 0"])
       (auto simp: jffs2_block_def neg split: option.splits sum.splits prod.splits if_splits dirent_scan.splits)
  with s show ?thesis by auto
qed

lemma ubifs_find_range:
  assumes "ubifs_find m offs sz = Some (Inr o')"
  shows "offs \<le> o'" and "int o' < int offs + sz"
proof -
  let ?l = "nat (int offs + sz)"
  have fb: "for_blocks (\<lambda>off. off + m_erasesize m) ?l (ubi_test m) offs False = Some (o', True)"
    using assms by (auto simp: ubifs_find_def split: option.splits prod.splits if_splits)
  have "offs \<le> o' \<and> (True \<longrightarrow> o' < ?l)"
    by (rule for_blocks_result [OF fb, where I = "\<lambda>off s. offs \<le> off \<and> \<not> s" and Q = "\<lambda>off s. offs \<le> off \<and> (s \<longrightarrow> off < ?l)"])
       (auto simp: ubi_test_def split: sum.splits if_splits)
  then show "offs \<le> o'" "int o' < int offs + sz" by auto
qed

lemma ubifs_find_error: "ubifs_find m offs sz = Some (Inl e) \<Longrightarrow> e = - ENOENT"
  by (auto simp: ubifs_find_def split: option.splits prod.splits if_splits)

section \<open>The partitions of an image\<close>

definition wfi_order :: "mtd_dev \<Rightarrow> bool \<Rightarrow> nat option \<Rightarrow> nat \<Rightarrow> nat \<Rightarrow> nat \<Rightarrow> nat \<Rightarrow> bool" where
  "wfi_order m cfe_part c k r off sz \<longleftrightarrow>
     off \<le> k \<and> k + m_erasesize m \<le> r \<and> r < off + sz \<and>
     (case c of None \<Rightarrow> \<not> cfe_part | Some c' \<Rightarrow> cfe_part \<and> off \<le> c' \<and> c' + m_erasesize m \<le> k)"

lemma parse_bcm_wfi_shape:
  assumes "parse_bcm_wfi env node off sz cfe_part m alloc = Some (Inr ps)"
  obtains c k r where "ps = wfi_parts c k r off sz" and "wfi_order m cfe_part c k r off sz"
proof -
  let ?e = "m_erasesize m"
  from assms obtain c ks k nk sk r where
    cs: "(if cfe_part then split_bind (jffs2_find_file env m (cferam_prefix node) off (int sz - (int off - int off)))
            (\<lambda>(cfe_off, _, _). Some (Inr (Some cfe_off, cfe_off + ?e))) else Some (Inr (None, off))) = Some (Inr (c, ks))"
    and k: "jffs2_find_file env m (bytes_of ''vmlinux.lz'') ks (int sz - (int ks - int off)) = Some (Inr (k, nk, sk))"
    and r: "ubifs_find m (k + ?e) (int sz - (int (k + ?e) - int off)) = Some (Inr r)"
    and ps: "ps = wfi_parts c k r off sz"
    by (auto simp: parse_bcm_wfi_def split_bind_Inr Let_def split: if_splits prod.splits)
  have "case c of None \<Rightarrow> \<not> cfe_part \<and> ks = off | Some c' \<Rightarrow> cfe_part \<and> off \<le> c' \<and> c' + ?e = ks"
    using cs by (auto simp: split_bind_Inr split: if_splits option.splits dest: jffs2_find_file_range(1))
  with jffs2_find_file_range [OF k] ubifs_find_range [OF r] have "wfi_order m cfe_part c k r off sz"
    by (auto simp: wfi_order_def split: option.splits)
  with ps that show ?thesis by blast
qed

lemma parse_bcm_wfi_error:
  assumes "parse_bcm_wfi env node off sz cfe_part m alloc = Some (Inl e)" and "\<And>off len. fst (m_read m off len) \<le> 0"
  shows "e < 0"
proof -
  have f: "jffs2_find_file env m name o' z = Some (Inl e) \<Longrightarrow> e < 0" for name o' z
    using jffs2_find_file_error assms(2) by blast
  have u: "ubifs_find m o' z = Some (Inl e) \<Longrightarrow> e < 0" for o' z
    using ubifs_find_error by force
  show ?thesis using assms(1)
    by (auto simp: parse_bcm_wfi_def split_bind_def Let_def f u split: option.splits sum.splits if_splits)
qed

lemma wfi_parts_length: "3 \<le> length (wfi_parts c k r off sz)"
  by (simp add: wfi_parts_def split: option.splits)

lemma wfi_parts_inside:
  assumes "wfi_order m cfe_part c k r off sz" and "off + sz < 18446744073709551616" and "p \<in> set (wfi_parts c k r off sz)"
  shows "part_bytes p \<subseteq> {off..<off + sz}"
proof -
  have o: "off \<le> k" "k \<le> r" "r < off + sz" "\<And>c'. c = Some c' \<Longrightarrow> off \<le> c' \<and> c' \<le> k"
    using assms(1) by (auto simp: wfi_order_def split: option.splits)
  have "sub64 k off = k - off" "sub64 r off = r - off" "sub64 r k = r - k" "\<And>c'. c = Some c' \<Longrightarrow> sub64 k c' = k - c'"
    using o assms(2) by (auto intro!: sub64_id)
  then have s: "sub64 sz (sub64 k off) = sz - (k - off)" "sub64 sz (sub64 r off) = sz - (r - off)" "sub64 r k = r - k"
    "\<And>c'. c = Some c' \<Longrightarrow> sub64 k c' = k - c'"
    using o assms(2) by simp_all
  show ?thesis using assms(3) o by (auto simp: wfi_parts_def s part_bytes_def split: option.splits)
qed

lemma image_half_bytes:
  assumes "m_size m < 18446744073709551616"
  shows "pt_offset (image_half m True) = 0" and "pt_size (image_half m True) = m_size m div 2"
    and "pt_offset (image_half m False) = m_size m div 2" and "pt_size (image_half m False) = m_size m - m_size m div 2"
  using assms by (simp_all add: image_half_def Let_def)

lemma image_halves_disjoint: "m_size m < 18446744073709551616 \<Longrightarrow> part_bytes (image_half m True) \<inter> part_bytes (image_half m False) = {}"
  by (auto simp: part_bytes_def image_half_bytes)

lemma active_wfi_inside:
  assumes "m_size m < 18446744073709551616" and "active_wfi env node cfe_part a m alloc = Some (Inr ps)" and "p \<in> set ps"
  shows "part_bytes p \<subseteq> part_bytes (image_half m a)"
proof -
  let ?h = "image_half m a"
  obtain c k r where ps: "ps = wfi_parts c k r (pt_offset ?h) (pt_size ?h)" and o: "wfi_order m cfe_part c k r (pt_offset ?h) (pt_size ?h)"
    using parse_bcm_wfi_shape [OF assms(2) [unfolded active_wfi_def]] by blast
  have "pt_offset ?h + pt_size ?h < 18446744073709551616" using assms(1) image_half_bytes [OF assms(1)] by (cases a) simp_all
  from wfi_parts_inside [OF o this] ps assms(3) show ?thesis by (simp add: part_bytes_def)
qed

section \<open>Properties\<close>

text \<open>
  C38. When the splitter for two Broadcom images succeeds, the number it returns is the number of
  partitions; the last one is exactly the half of the flash whose boot flag is the smaller one
  (the second on a tie), and every other partition is inside the half with the larger flag. So
  no write to the running system can touch the other image.
\<close>

theorem wfi_split_keeps_inactive:
  assumes "m_size m < 18446744073709551616" and "\<And>off len. fst (m_read m off len) \<le> 0"
    and "cferam_flag env m dup True = Some bf1" and "cferam_flag env m dup False = Some bf2"
    and "mtdsplit_parse_bcm_wfi_split env node buf_ok dup alloc2 m alloc = Some (ret, ps)" and "0 < ret"
  shows "ret = int (length ps) \<and> last ps = image_half m (bf1 < bf2) \<and>
    (\<forall>p\<in>set (butlast ps). part_bytes p \<subseteq> part_bytes (image_half m (bf2 \<le> bf1))) \<and>
    part_bytes (image_half m True) \<inter> part_bytes (image_half m False) = {}"
proof -
  obtain ps' where a: "active_wfi env node True (bf2 \<le> bf1) m alloc = Some (Inr ps')"
    and r: "ret = int (length ps') + 1" and ps: "ps = ps' @ [image_half m (bf1 < bf2)]"
    using assms(3-6) parse_bcm_wfi_error [OF _ assms(2)]
    by (fastforce simp: mtdsplit_parse_bcm_wfi_split_def wfi_add_inactive_def active_wfi_def not_le split: if_splits option.splits sum.splits)
  show ?thesis using active_wfi_inside [OF assms(1) a] image_halves_disjoint [OF assms(1)] by (simp add: r ps)
qed

text \<open>
  The fallback of the splitter for two images is never used: whenever the partitions it
  leaves are just the two images, the value it returns is not positive, so that the MTD core
  takes it for an error and creates no partition.
\<close>

theorem wfi_split_fallback_lost:
  assumes "\<And>off len. fst (m_read m off len) \<le> 0"
    and "mtdsplit_parse_bcm_wfi_split env node buf_ok dup alloc2 m alloc = Some (ret, [image_half m True, image_half m False])"
  shows "ret < 0"
proof -
  obtain a where w: "wfi_add_inactive m a alloc2 (active_wfi env node True a m alloc) = Some (ret, [image_half m True, image_half m False])
      \<or> ret = - ENOMEM"
    using assms(2) by (auto simp: mtdsplit_parse_bcm_wfi_split_def split: if_splits option.splits)
  have three: "length ps \<ge> 3" if "active_wfi env node True a m alloc = Some (Inr ps)" for ps
    using parse_bcm_wfi_shape [OF that [unfolded active_wfi_def]] wfi_parts_length by metis
  have neg: "e < 0" if "active_wfi env node True a m alloc = Some (Inl e)" for e
    using that assms(1) parse_bcm_wfi_error unfolding active_wfi_def by blast
  show ?thesis
    using w three neg by (auto simp: wfi_add_inactive_def Cons_eq_append_conv append_eq_Cons_conv split: option.splits sum.splits if_splits)
qed

text \<open>
  A flash with one image: a marker and the loader in the first block, a marker and the kernel in
  the second, UBI in the third; the checksum function is constant.
\<close>

definition ex_dirent :: "byte list \<Rightarrow> byte \<Rightarrow> byte list" where
  "ex_dirent nm n = [0x85, 0x19, 1, 0xe0, 56, 0, 0, 0, 0, 0, 0, 0, 0, 0, 0, 0, 0, 0, 0, 0, 1, 0, 0, 0, 0, 0, 0, 0, n, 0, 0, 0,
     0, 0, 0, 0, 0, 0, 0, 0] @ nm @ [0, 0, 0, 0, 0, 0]"

definition ex_marker :: "byte list" where
  "ex_marker = ex_dirent [0x31, 0x2d, 0x6f, 0x70, 0x65, 0x6e, 0x77, 0x72, 0x74, 0] 9"

definition ex_cferam :: "byte list" where
  "ex_cferam = ex_dirent [0x63, 0x66, 0x65, 0x72, 0x61, 0x6d, 0x2e, 0x30, 0x30, 0x31] 10"

definition ex_kernel :: "byte list" where
  "ex_kernel = ex_dirent [0x76, 0x6d, 0x6c, 0x69, 0x6e, 0x75, 0x78, 0x2e, 0x6c, 0x7a] 10"

definition ex_wfi :: mtd_dev where
  "ex_wfi = flash_of (\<lambda>i. if i < 112 then (ex_marker @ ex_cferam) ! i
     else if 1024 \<le> i \<and> i < 1136 then (ex_marker @ ex_kernel) ! (i - 1024)
     else if i = 2048 then 0x55 else if i = 2049 then 0x42 else if i = 2050 then 0x49 else if i = 2051 then 0x23 else 0xff) 8192 1024"

definition ex_env :: wfi_env where
  "ex_env = \<lparr>crc32 = \<lambda>_ _. 0, behind_buf = []\<rparr>"

lemma ex_wfi_fields [simp]: "m_size ex_wfi = 8192" "m_erasesize ex_wfi = 1024" "m_be ex_wfi = False"
  by (simp_all add: ex_wfi_def flash_of_def)

lemma ex_lengths [simp]: "length (ex_marker) = 56" "length ex_cferam = 56" "length ex_kernel = 56"
  by (simp_all add: ex_marker_def ex_cferam_def ex_kernel_def ex_dirent_def)

lemma ex_dirent_valid: "length nm = 10 \<Longrightarrow> jffs2_dirent_valid ex_env ex_wfi (ex_dirent nm n @ rest)"
  by (simp add: jffs2_dirent_valid_def jffs2_dirent_crc_def ex_env_def ex_dirent_def cpu_at_def field_def)

lemma ex_dirent_name: "length nm = 10 \<Longrightarrow> k \<le> 10 \<Longrightarrow> field 40 k (ex_dirent nm n @ rest) = take k nm"
  by (simp add: ex_dirent_def field_def)

lemma ex_dirent_next: "next_node ex_wfi (ex_dirent nm n @ rest) 0 = 56"
  by (simp add: ex_dirent_def field_def next_node_def cpu_at_def)

lemma ex_dirent_nsize: "u8_at (ex_dirent nm n @ rest) 28 = unat n"
  by (simp add: ex_dirent_def u8_at_def arr_get_def)

lemma ex_scan:
  assumes "length nm = 10" and "take 9 nm \<noteq> bytes_of ''1-openwrt''" and "length name \<le> 10" and "take (length name) nm = name" and "0 \<notin> set nm"
  shows "jffs2_scan ex_env ex_wfi (ex_marker @ ex_dirent nm 10 @ rest) name 0 False = Some (Scan_found nm 10)"
proof -
  let ?node = "ex_dirent nm 10 @ rest"
  have nz: "takeWhile (\<lambda>b. b \<noteq> 0) nm = nm" using assms(5) by (auto simp: takeWhile_eq_all_conv)
  have b: "bytes_of ''1-openwrt'' = [0x31, 0x2d, 0x6f, 0x70, 0x65, 0x6e, 0x77, 0x72, 0x74]" by (simp add: bytes_of_def)
  have "jffs2_scan ex_env ex_wfi (ex_marker @ ?node) name 0 False = jffs2_scan ex_env ex_wfi (ex_marker @ ?node) name 56 True"
    by (subst jffs2_scan.simps)
       (simp add: ex_marker_def ex_dirent_valid ex_dirent_name ex_dirent_next b)
  also have "drop 56 (ex_marker @ ?node) = ?node" by simp
  then have "jffs2_scan ex_env ex_wfi (ex_marker @ ?node) name 56 True = Some (Scan_found nm 10)"
    using assms nz by (subst jffs2_scan.simps)
       (simp add: Let_def ex_dirent_valid ex_dirent_name ex_dirent_nsize c_string_def)
  finally show ?thesis .
qed

lemma ex_block:
  assumes "off = 0 \<and> fl = ex_cferam \<or> off = 1024 \<and> fl = ex_kernel"
  shows "m_read ex_wfi off 1024 = (0, ex_marker @ fl @ replicate 912 0xff)"
proof -
  have "map (\<lambda>i. if i < 112 then (ex_marker @ ex_cferam) ! i
     else if 1024 \<le> i \<and> i < 1136 then (ex_marker @ ex_kernel) ! (i - 1024)
     else if i = 2048 then 0x55 else if i = 2049 then 0x42 else if i = 2050 then 0x49 else if i = 2051 then 0x23 else (0xff :: byte)) [off..<off + 1024]
     = ex_marker @ fl @ replicate 912 0xff"
    using assms by (intro nth_equalityI) (auto simp: nth_append)
  then show ?thesis using assms by (auto simp: ex_wfi_def flash_of_def)
qed

lemma ex_magic: "read_exact ex_wfi off 2 = (if off + 2 \<le> 8192 then Inr (map (\<lambda>i. if i < 112 then (ex_marker @ ex_cferam) ! i
     else if 1024 \<le> i \<and> i < 1136 then (ex_marker @ ex_kernel) ! (i - 1024)
     else if i = 2048 then 0x55 else if i = 2049 then 0x42 else if i = 2050 then 0x49 else if i = 2051 then 0x23 else 0xff) [off..<off + 2]) else Inl (- EINVAL))"
  by (simp add: read_exact_def ex_wfi_def flash_of_def)

lemma ex_first:
  assumes "off = 0 \<and> fl = ex_cferam \<or> off = 1024 \<and> fl = ex_kernel"
  shows "read_exact ex_wfi off 2 = Inr [0x85, 0x19]"
  using assms by (auto simp: ex_magic ex_marker_def ex_dirent_def upt_rec)

lemma ex_find:
  assumes "off = 0 \<and> fl = ex_dirent nm 10 \<and> fl = ex_cferam \<or> off = 1024 \<and> fl = ex_dirent nm 10 \<and> fl = ex_kernel" and "0 < sz"
    and "length nm = 10" and "take 9 nm \<noteq> bytes_of ''1-openwrt''" and "length name \<le> 10" and "take (length name) nm = name" and "0 \<notin> set nm"
  shows "jffs2_find_file ex_env ex_wfi name off sz = Some (Inr (off, nm, 10))"
proof -
  have rd: "read_exact ex_wfi off 2 = Inr [0x85, 0x19]" "m_read ex_wfi off 1024 = (0, ex_marker @ ex_dirent nm 10 @ replicate 912 0xff)"
    using ex_first [of off fl] ex_block [of off fl] assms(1) by auto
  have len: "length (ex_dirent nm 10) = 56" using assms(1) by auto
  have "jffs2_block ex_env ex_wfi name off (Some (Inl False)) = (True, Some (Inr (Inr (nm, 10))))"
    using ex_scan [OF assms(3-7), of "replicate 912 0xff"]
    by (simp add: jffs2_block_def rd cpu_at_def field_def len ex_env_def)
  then show ?thesis unfolding jffs2_find_file_def using assms(2)
    by (subst for_blocks_stop) auto
qed

lemma ex_no_second: "jffs2_find_file ex_env ex_wfi name 4096 4096 = Some (Inl (- ENOENT))"
proof -
  have "jffs2_block ex_env ex_wfi name off (Some (Inl False)) = (False, Some (Inl False))" if "4096 \<le> off" for off
    using that by (simp add: jffs2_block_def ex_magic upt_rec cpu_at_def field_def)
  then show ?thesis by (simp add: jffs2_find_file_def for_blocks.simps)
qed

lemma ex_flags: "cferam_flag ex_env ex_wfi True True = Some 1" "cferam_flag ex_env ex_wfi True False = Some (- 2)"
proof -
  have "jffs2_find_file ex_env ex_wfi (bytes_of ''cferam'') 0 4096 = Some (Inr (0, [0x63, 0x66, 0x65, 0x72, 0x61, 0x6d, 0x2e, 0x30, 0x30, 0x31], 10))"
    by (rule ex_find [where fl = ex_cferam]) (simp_all add: ex_cferam_def bytes_of_def)
  then show "cferam_flag ex_env ex_wfi True True = Some 1"
    by (simp add: cferam_flag_def image_half_def cferam_bootflag_value_def field_def bytes_of_def three_digits_def
        u8_at_def arr_get_def char_to_num_def)
  show "cferam_flag ex_env ex_wfi True False = Some (- 2)"
    by (simp add: cferam_flag_def image_half_def ex_no_second cferam_bootflag_value_def)
qed

lemma ex_active: "parse_bcm_wfi ex_env None 0 4096 True ex_wfi True = Some (Inr (wfi_parts (Some 0) 1024 2048 0 4096))"
proof -
  have c: "jffs2_find_file ex_env ex_wfi (cferam_prefix None) 0 4096 = Some (Inr (0, [0x63, 0x66, 0x65, 0x72, 0x61, 0x6d, 0x2e, 0x30, 0x30, 0x31], 10))"
    by (rule ex_find [where fl = ex_cferam]) (simp_all add: ex_cferam_def bytes_of_def cferam_prefix_def)
  have k: "jffs2_find_file ex_env ex_wfi (bytes_of ''vmlinux.lz'') 1024 3072 = Some (Inr (1024, [0x76, 0x6d, 0x6c, 0x69, 0x6e, 0x75, 0x78, 0x2e, 0x6c, 0x7a], 10))"
    by (rule ex_find [where fl = ex_kernel]) (simp_all add: ex_kernel_def bytes_of_def)
  have "ubi_test ex_wfi 2048 False = (True, True)"
    by (simp add: ubi_test_def read_exact_def ex_wfi_def flash_of_def upt_rec be32_at_def be_val_def field_def)
  then have u: "ubifs_find ex_wfi 2048 2048 = Some (Inr 2048)"
    unfolding ubifs_find_def by (subst for_blocks_stop) auto
  show ?thesis by (simp add: parse_bcm_wfi_def split_bind_def c k u)
qed

lemma ex_split: "mtdsplit_parse_bcm_wfi_split ex_env None True True True ex_wfi True =
  Some (5, wfi_parts (Some 0) 1024 2048 0 4096 @ [image_half ex_wfi False])"
  by (simp add: mtdsplit_parse_bcm_wfi_split_def ex_flags wfi_add_inactive_def active_wfi_def image_half_def ex_active)
     (simp add: wfi_parts_def)

theorem wfi_split_keeps_inactive_witness:
  "list_all (\<lambda>p. part_bytes p \<inter> part_bytes (image_half ex_wfi False) = {}) (wfi_parts (Some 0) 1024 2048 0 4096)"
proof -
  have "m_size ex_wfi < 18446744073709551616" "\<And>off len. fst (m_read ex_wfi off len) \<le> 0"
    by (simp_all add: ex_wfi_def flash_of_def)
  from wfi_split_keeps_inactive [OF this ex_flags ex_split] show ?thesis by (auto simp: list_all_iff)
qed


definition ex_erased :: mtd_dev where
  "ex_erased = flash_of (\<lambda>_. 0xff) 2048 1024"

theorem wfi_split_fallback_lost_witness:
  "\<exists>ret<0. mtdsplit_parse_bcm_wfi_split ex_env None True True True ex_erased True =
     Some (ret, [image_half ex_erased True, image_half ex_erased False])"
proof -
  have z: "m_size ex_erased = 2048" "m_erasesize ex_erased = 1024" by (simp_all add: ex_erased_def flash_of_def)
  have b: "jffs2_block ex_env ex_erased name off (Some (Inl v)) = (False, Some (Inl v))" for name off v
    by (simp add: jffs2_block_def read_exact_def ex_erased_def flash_of_def upt_rec cpu_at_def field_def)
  have f: "jffs2_find_file ex_env ex_erased name off 1024 = Some (Inl (- ENOENT))" if "off = 0 \<or> off = 1024" for name off
    using that by (auto simp: jffs2_find_file_def for_blocks.simps b z)
  have r: "mtdsplit_parse_bcm_wfi_split ex_env None True True True ex_erased True =
      Some (- 2, [image_half ex_erased True, image_half ex_erased False])"
    by (simp add: mtdsplit_parse_bcm_wfi_split_def cferam_flag_def image_half_def z f cferam_bootflag_value_def
        wfi_add_inactive_def active_wfi_def parse_bcm_wfi_def split_bind_def)
  have "\<And>off len. fst (m_read ex_erased off len) \<le> 0" by (simp add: ex_erased_def flash_of_def)
  from wfi_split_fallback_lost [OF this r] r show ?thesis by auto
qed

end
