(* ===== verification/Mtdsplit_Mstc.thy ===== *)
theory Mtdsplit_Mstc
  imports Mtdsplit_Scan
begin

text \<open>
  The splitter for the two firmware partitions of MSTC devices (\<^verbatim>\<open>mtdsplit_mstc_boot.c\<close>). What the
  device tree says is in records: the node of the partition with the node of the persistent
  partition it refers to, and the fixed partitions below it.
\<close>

text \<open>A child node: its cell sizes, its \<^verbatim>\<open>reg\<close> property and its \<^verbatim>\<open>label-base\<close>.\<close>

record mstc_child =
  c_addr_cells :: nat
  c_size_cells :: nat
  c_reg :: "int + nat \<times> nat"
  c_label :: "int + string"

text \<open>The persistent partition: whether it has the same parent node, and its offset on the flash.\<close>

record mstc_node =
  n_bootnum :: "int + nat"
  n_persist :: "(bool \<times> (int + nat)) option"
  n_children :: "mstc_child list"

text \<open>Whether this partition is the active one, with its boot number; \<open>par\<close> is the flash as a whole.\<close>

definition mstcboot_is_active :: "mstc_node \<Rightarrow> mtd_dev \<Rightarrow> int + bool \<times> nat" where
  "mstcboot_is_active np par =
     (case n_bootnum np of
        Inl ret \<Rightarrow> Inl ret
      | Inr bootnum_dt \<Rightarrow>
          case n_persist np of
            None \<Rightarrow> Inl (- ENODATA)
          | Some (same_parent, reg) \<Rightarrow>
              if \<not> same_parent then Inl (- EINVAL)
              else
                case reg of
                  Inl ret \<Rightarrow> Inl ret
                | Inr persist_offset \<Rightarrow>
                    case read_exact par (u32 (persist_offset + 4)) 1 of
                      Inl ret \<Rightarrow> Inl ret
                    | Inr b \<Rightarrow> Inr (u8_at b 0 = bootnum_dt, bootnum_dt))"

definition mstc_kern_len :: "mtd_dev \<Rightarrow> byte list \<Rightarrow> nat" where
  "mstc_kern_len m buf =
     (if be32_at buf 0 = 0xd00dfeed then be32_at buf 4
      else if be32_at buf 0 = 0x27051956 then szt m (64 + be32_at buf 12)
      else 0)"

definition mstcboot_parse_image_parts :: "mtd_dev \<Rightarrow> bool \<Rightarrow> split_result" where
  "mstcboot_parse_image_parts m alloc =
     (case read_exact m 0 64 of
        Inl ret \<Rightarrow> Some (Inl ret)
      | Inr buf \<Rightarrow>
          let kern_len = mstc_kern_len m buf
          in case mtd_find_rootfs_from m kern_len (szt m (m_size m)) of
               None \<Rightarrow> None
             | Some (Inl ret) \<Rightarrow> Some (Inl ret)
             | Some (Inr (r, t)) \<Rightarrow>
                 Some (if \<not> alloc then Inl (- ENOMEM)
                       else Inr ((if kern_len \<noteq> 0 then [mk_part KERNEL_PART_NAME 0 r] else []) @
                                 [mk_part (rootfs_name t) r (sub64 (m_size m) r)])))"

text \<open>\<^verbatim>\<open>%u\<close> of the kernel's \<^verbatim>\<open>printf\<close>.\<close>

fun dec_string :: "nat \<Rightarrow> string" where
  "dec_string n = (if n < 10 then [char_of (48 + n)] else dec_string (n div 10) @ [char_of (48 + n mod 10)])"

declare dec_string.simps [simp del]

definition fixed_part :: "bool \<Rightarrow> nat \<Rightarrow> bool \<Rightarrow> mstc_child \<Rightarrow> int + mtd_partition" where
  "fixed_part active bootnum_dt asprintf_ok child =
     (if c_addr_cells child \<noteq> 1 \<or> c_size_cells child \<noteq> 1 then Inl (- EINVAL)
      else
        case c_reg child of
          Inl ret \<Rightarrow> Inl ret
        | Inr (reg0, reg1) \<Rightarrow>
            case c_label child of
              Inl ret \<Rightarrow> Inl ret
            | Inr label \<Rightarrow>
                if \<not> active \<and> \<not> asprintf_ok then Inl (- ENOMEM)
                else Inr (mk_part (if active then label else label @ dec_string bootnum_dt) reg0 reg1))"

fun fixed_parts :: "bool \<Rightarrow> nat \<Rightarrow> bool \<Rightarrow> mstc_child list \<Rightarrow> int + mtd_partition list" where
  "fixed_parts active bootnum_dt asprintf_ok [] = Inr []"
| "fixed_parts active bootnum_dt asprintf_ok (child # rest) =
     (case fixed_part active bootnum_dt asprintf_ok child of
        Inl ret \<Rightarrow> Inl ret
      | Inr p \<Rightarrow>
          case fixed_parts active bootnum_dt asprintf_ok rest of
            Inl ret \<Rightarrow> Inl ret
          | Inr ps \<Rightarrow> Inr (p # ps))"

definition mstcboot_parse_fixed_parts :: "mstc_node \<Rightarrow> bool \<Rightarrow> nat \<Rightarrow> bool \<Rightarrow> bool \<Rightarrow> int + mtd_partition list" where
  "mstcboot_parse_fixed_parts np active bootnum_dt asprintf_ok alloc =
     (if length (n_children np) > 2 then Inl (- EINVAL)
      else if \<not> alloc then Inl (- ENOMEM)
      else fixed_parts active bootnum_dt asprintf_ok (n_children np))"

definition mtdsplit_mstcboot_parse :: "mstc_node \<Rightarrow> mtd_dev \<Rightarrow> bool \<Rightarrow> mtd_dev \<Rightarrow> bool \<Rightarrow> split_result" where
  "mtdsplit_mstcboot_parse np par asprintf_ok m alloc =
     (case mstcboot_is_active np par of
        Inl ret \<Rightarrow> Some (Inl ret)
      | Inr (active, bootnum_dt) \<Rightarrow>
          if n_children np \<noteq> [] then Some (mstcboot_parse_fixed_parts np active bootnum_dt asprintf_ok alloc)
          else if active then mstcboot_parse_image_parts m alloc
          else Some (Inl 0))"

section \<open>The two firmware partitions\<close>

text \<open>The partitions of an inactive firmware have the boot number in their names.\<close>

definition with_bootnum :: "nat \<Rightarrow> mtd_partition \<Rightarrow> mtd_partition" where
  "with_bootnum n p = p\<lparr>pt_name := pt_name p @ dec_string n\<rparr>"

lemma fixed_part_inactive: "fixed_part False n True c = map_sum id (with_bootnum n) (fixed_part True n True c)"
  by (auto simp: fixed_part_def with_bootnum_def mk_part_def split: sum.splits)

lemma fixed_parts_inactive: "fixed_parts False n True cs = map_sum id (map (with_bootnum n)) (fixed_parts True n True cs)"
  by (induction cs) (auto simp: fixed_part_inactive split: sum.splits)

lemma fixed_parts_places:
  "fixed_parts active n ok cs = Inr ps \<Longrightarrow> map (\<lambda>p. Inr (pt_offset p, pt_size p)) ps = map c_reg cs"
proof (induction cs arbitrary: ps)
  case (Cons c cs)
  then obtain p ps' where p: "fixed_part active n ok c = Inr p" and ps': "fixed_parts active n ok cs = Inr ps'" and "ps = p # ps'"
    by (auto split: sum.splits)
  moreover have "c_reg c = Inr (pt_offset p, pt_size p)"
    using p by (auto simp: fixed_part_def split: if_splits sum.splits)
  ultimately show ?case using Cons.IH by simp
qed simp

text \<open>
  With fixed partitions both firmwares give the same places on the flash, those of the \<^verbatim>\<open>reg\<close>
  properties in order; the partitions of the firmware that is not active differ in their names
  only, which end with its boot number, so that nothing finds them under the usual names.
\<close>

theorem mstcboot_fixed_parts_inactive:
  assumes "mstcboot_is_active np par = Inr (False, n)" and "mstcboot_is_active np par' = Inr (True, n)" and "n_children np \<noteq> []"
    and "mtdsplit_mstcboot_parse np par' True m alloc = Some (Inr ps)"
  shows "mtdsplit_mstcboot_parse np par True m alloc = Some (Inr (map (with_bootnum n) ps)) \<and>
    map (\<lambda>p. Inr (pt_offset p, pt_size p)) ps = map c_reg (n_children np)"
proof -
  have "fixed_parts True n True (n_children np) = Inr ps" "length (n_children np) \<le> 2" "alloc"
    using assms(2-4) by (auto simp: mtdsplit_mstcboot_parse_def mstcboot_parse_fixed_parts_def split: if_splits)
  then show ?thesis using assms(1,3) fixed_parts_places [of True n True "n_children np" ps]
    by (simp add: mtdsplit_mstcboot_parse_def mstcboot_parse_fixed_parts_def fixed_parts_inactive)
qed

definition ex_mstc :: mstc_node where
  "ex_mstc = \<lparr>n_bootnum = Inr 1, n_persist = Some (True, Inr 0),
     n_children = [\<lparr>c_addr_cells = 1, c_size_cells = 1, c_reg = Inr (0, 4096), c_label = Inr ''kernel''\<rparr>,
       \<lparr>c_addr_cells = 1, c_size_cells = 1, c_reg = Inr (4096, 8192), c_label = Inr ''ubi''\<rparr>]\<rparr>"

definition ex_persist :: "byte \<Rightarrow> mtd_dev" where
  "ex_persist b = flash_of (\<lambda>i. if i = 4 then b else 0) 2048 1024"

theorem mstcboot_fixed_parts_inactive_witness:
  "mtdsplit_mstcboot_parse ex_mstc (ex_persist 0) True (ex_persist 0) True =
     Some (Inr [mk_part ''kernel1'' 0 4096, mk_part ''ubi1'' 4096 8192])"
proof -
  have i: "mstcboot_is_active ex_mstc (ex_persist 0) = Inr (False, 1)" and a: "mstcboot_is_active ex_mstc (ex_persist 1) = Inr (True, 1)"
    by (simp_all add: mstcboot_is_active_def ex_mstc_def ex_persist_def flash_of_def read_exact_def upt_rec u8_at_def arr_get_def)
  have c: "n_children ex_mstc \<noteq> []" by (simp add: ex_mstc_def)
  have "mtdsplit_mstcboot_parse ex_mstc (ex_persist 1) True (ex_persist 0) True =
      Some (Inr [mk_part ''kernel'' 0 4096, mk_part ''ubi'' 4096 8192])"
    using a by (simp add: mtdsplit_mstcboot_parse_def) (simp add: mstcboot_parse_fixed_parts_def ex_mstc_def fixed_part_def)
  moreover have "char_of (49 :: nat) = CHR ''1''" by code_simp
  ultimately show ?thesis using mstcboot_fixed_parts_inactive [OF i a c]
    by (simp add: with_bootnum_def mk_part_def dec_string.simps)
qed

text \<open>A firmware found by its header: the root file system ends the device, the kernel is before it.\<close>

lemma mstcboot_image_parts_shape:
  assumes "dev_ok m" and "mstcboot_parse_image_parts m alloc = Some (Inr ps)"
  shows "(length ps = 2 \<longrightarrow> good_split m ps) \<and> length ps \<le> 2 \<and> (\<forall>p\<in>set ps. part_bytes p \<subseteq> {0..<m_size m})"
proof -
  note d = dev_okD [OF assms(1)]
  from assms(2) d(5) obtain k r t where f: "mtd_find_rootfs_from m k (m_size m) = Some (Inr (r, t))"
    and ps: "ps = (if k \<noteq> 0 then [mk_part KERNEL_PART_NAME 0 r] else []) @ [mk_part (rootfs_name t) r (sub64 (m_size m) r)]"
    by (auto simp: mstcboot_parse_image_parts_def Let_def split: option.splits sum.splits if_splits)
  have r: "r < m_size m" using find_rootfs_result(2) [OF f assms(1)] by simp
  then have "sub64 (m_size m) r = m_size m - r" using d(3) by simp
  then show ?thesis using r by (auto simp: ps good_split_def part_bytes_def)
qed

end
