(* ===== verification/Crc_Step.thy ===== *)
theory Crc_Step
  imports Flash_Prelude
begin

text \<open>
  What the checksums by table of the repository have in common: the table holds eight steps of a bit by bit
  division for every byte. The steps are linear for exclusive or, so that the table follows from its entries at the powers of two
  (the lemma \<open>table_double\<close> builds it up by doubling), and on a word whose low bits are zero they are a shift.
\<close>

lemma pow2_xor: "j < 2 ^ k \<Longrightarrow> 2 ^ k + j = 2 ^ k XOR (j :: nat)"
proof (rule disjunctive_add_eq_xor)
  assume "j < 2 ^ k"
  then have t: "take_bit k j = j" by (simp add: take_bit_nat_eq_self)
  show "2 ^ k AND j = 0"
  proof (rule bit_eqI)
    fix n
    show "bit (2 ^ k AND j) n = bit (0 :: nat) n"
      by (subst t [symmetric]) (auto simp: bit_and_iff bit_take_bit_iff bit_exp_iff)
  qed
qed

definition table_byte :: "('a :: len word \<Rightarrow> 'a word) \<Rightarrow> nat \<Rightarrow> 'a word" where
  "table_byte step i = (step ^^ 8) (of_nat i)"

locale crc_step =
  fixes step :: "'a :: len word \<Rightarrow> 'a word"
  assumes step_xor: "step (a XOR b) = step a XOR step b"
    and step_shift: "\<not> bit a 0 \<Longrightarrow> step a = drop_bit 1 a"
begin

lemma steps_xor: "(step ^^ n) (a XOR b) = (step ^^ n) a XOR (step ^^ n) b"
  by (induction n) (simp_all add: step_xor)

lemma steps_shift: "(\<And>i. i < n \<Longrightarrow> \<not> bit a i) \<Longrightarrow> (step ^^ n) a = drop_bit n a"
proof (induction n)
  case (Suc n)
  then have "(step ^^ n) a = drop_bit n a" by simp
  moreover have "\<not> bit (drop_bit n a) 0" using Suc.prems [of n] by (simp add: bit_drop_bit_eq)
  ultimately show ?case by (simp add: step_shift)
qed simp

lemma table_double:
  "map (table_byte step) [0..<2 * 2 ^ k] =
     map (table_byte step) [0..<2 ^ k] @ map (\<lambda>x. x XOR table_byte step (2 ^ k)) (map (table_byte step) [0..<2 ^ k])"
proof -
  have "[0..<2 * 2 ^ k] = [0..<2 ^ k] @ map (\<lambda>j. 2 ^ k + j) [0..<2 ^ k]"
    using upt_add_eq_append [of 0 "2 ^ k" "2 ^ k"] map_add_upt [of "2 ^ k" "2 ^ k"] by (simp add: mult_2 add.commute)
  moreover have "table_byte step (2 ^ k + j) = table_byte step j XOR table_byte step (2 ^ k)" if "j < 2 ^ k" for j
    unfolding table_byte_def pow2_xor [OF that] of_nat_xor_eq steps_xor by (simp add: ac_simps)
  ultimately show ?thesis by simp
qed

text \<open>The table from its entries at the powers of two.\<close>

lemma table_from_basis:
  assumes "map (\<lambda>k. table_byte step (2 ^ k)) [0..<8] = bs" and "table_byte step 0 = 0"
  shows "map (table_byte step) [0..<256] = foldl (\<lambda>t b. t @ map (\<lambda>x. x XOR b) t) [0] bs"
proof -
  have "map (table_byte step) [0..<2 ^ n] = foldl (\<lambda>t b. t @ map (\<lambda>x. x XOR b) t) [0] (map (\<lambda>k. table_byte step (2 ^ k)) [0..<n])" for n
    by (induction n) (simp_all add: assms(2) table_double)
  from this [of 8] show ?thesis using assms(1) by simp
qed

end

end
