(* ===== verification/Nvram_Table.thy ===== *)
theory Nvram_Table
  imports Crc_Step
begin

text \<open>
  The variables of the \<^verbatim>\<open>nvram\<close> tool in memory (\<^verbatim>\<open>package/utils/nvram/src\<close>): the checksum of \<^verbatim>\<open>crc.c\<close>
  and the hash table of \<^verbatim>\<open>nvram.c\<close> with its operations. A C string is the list of its bytes without
  the terminating zero; names and values passed to the functions are never NULL. The value of
  a tuple is \<^const>\<open>None\<close> after a failed \<^verbatim>\<open>realloc\<close>.

  The locale \<open>var_table\<close> is what the rest of the tool relies on: the operations act on a map from
  names to values. The hash table is shown to be an implementation of it.
\<close>

section \<open>The checksum\<close>

definition crc8_table :: "byte list" where
  "crc8_table = [
     0x00, 0xF7, 0xB9, 0x4E, 0x25, 0xD2, 0x9C, 0x6B,
     0x4A, 0xBD, 0xF3, 0x04, 0x6F, 0x98, 0xD6, 0x21,
     0x94, 0x63, 0x2D, 0xDA, 0xB1, 0x46, 0x08, 0xFF,
     0xDE, 0x29, 0x67, 0x90, 0xFB, 0x0C, 0x42, 0xB5,
     0x7F, 0x88, 0xC6, 0x31, 0x5A, 0xAD, 0xE3, 0x14,
     0x35, 0xC2, 0x8C, 0x7B, 0x10, 0xE7, 0xA9, 0x5E,
     0xEB, 0x1C, 0x52, 0xA5, 0xCE, 0x39, 0x77, 0x80,
     0xA1, 0x56, 0x18, 0xEF, 0x84, 0x73, 0x3D, 0xCA,
     0xFE, 0x09, 0x47, 0xB0, 0xDB, 0x2C, 0x62, 0x95,
     0xB4, 0x43, 0x0D, 0xFA, 0x91, 0x66, 0x28, 0xDF,
     0x6A, 0x9D, 0xD3, 0x24, 0x4F, 0xB8, 0xF6, 0x01,
     0x20, 0xD7, 0x99, 0x6E, 0x05, 0xF2, 0xBC, 0x4B,
     0x81, 0x76, 0x38, 0xCF, 0xA4, 0x53, 0x1D, 0xEA,
     0xCB, 0x3C, 0x72, 0x85, 0xEE, 0x19, 0x57, 0xA0,
     0x15, 0xE2, 0xAC, 0x5B, 0x30, 0xC7, 0x89, 0x7E,
     0x5F, 0xA8, 0xE6, 0x11, 0x7A, 0x8D, 0xC3, 0x34,
     0xAB, 0x5C, 0x12, 0xE5, 0x8E, 0x79, 0x37, 0xC0,
     0xE1, 0x16, 0x58, 0xAF, 0xC4, 0x33, 0x7D, 0x8A,
     0x3F, 0xC8, 0x86, 0x71, 0x1A, 0xED, 0xA3, 0x54,
     0x75, 0x82, 0xCC, 0x3B, 0x50, 0xA7, 0xE9, 0x1E,
     0xD4, 0x23, 0x6D, 0x9A, 0xF1, 0x06, 0x48, 0xBF,
     0x9E, 0x69, 0x27, 0xD0, 0xBB, 0x4C, 0x02, 0xF5,
     0x40, 0xB7, 0xF9, 0x0E, 0x65, 0x92, 0xDC, 0x2B,
     0x0A, 0xFD, 0xB3, 0x44, 0x2F, 0xD8, 0x96, 0x61,
     0x55, 0xA2, 0xEC, 0x1B, 0x70, 0x87, 0xC9, 0x3E,
     0x1F, 0xE8, 0xA6, 0x51, 0x3A, 0xCD, 0x83, 0x74,
     0xC1, 0x36, 0x78, 0x8F, 0xE4, 0x13, 0x5D, 0xAA,
     0x8B, 0x7C, 0x32, 0xC5, 0xAE, 0x59, 0x17, 0xE0,
     0x2A, 0xDD, 0x93, 0x64, 0x0F, 0xF8, 0xB6, 0x41,
     0x60, 0x97, 0xD9, 0x2E, 0x45, 0xB2, 0xFC, 0x0B,
     0xBE, 0x49, 0x07, 0xF0, 0x9B, 0x6C, 0x22, 0xD5,
     0xF4, 0x03, 0x4D, 0xBA, 0xD1, 0x26, 0x68, 0x9F]"

fun hndcrc8 :: "byte list \<Rightarrow> byte \<Rightarrow> byte" where
  "hndcrc8 [] crc = crc"
| "hndcrc8 (b # pdata) crc = hndcrc8 pdata (crc8_table ! unat ((crc XOR b) AND 0xff))"

lemma hndcrc8_append: "hndcrc8 (xs @ ys) crc = hndcrc8 ys (hndcrc8 xs crc)"
  by (induction xs crc rule: hndcrc8.induct) simp_all

text \<open>The checksum bit by bit, for the polynomial of the comment with its bits reversed.\<close>

definition crc8_bit :: "byte \<Rightarrow> byte" where
  "crc8_bit c = (if bit c 0 then drop_bit 1 c XOR 0xAB else drop_bit 1 c)"

fun crc8_spec :: "byte list \<Rightarrow> byte \<Rightarrow> byte" where
  "crc8_spec [] crc = crc"
| "crc8_spec (b # bs) crc = crc8_spec bs ((crc8_bit ^^ 8) (crc XOR b))"

interpretation crc8: crc_step crc8_bit
  by unfold_locales (auto simp: crc8_bit_def bit_xor_iff drop_bit_xor ac_simps)

lemma crc8_basis: "map (\<lambda>k. table_byte crc8_bit (2 ^ k)) [0..<8] = [0xF7, 0xB9, 0x25, 0x4A, 0x94, 0x7F, 0xFE, 0xAB]" "table_byte crc8_bit 0 = 0"
  by code_simp+

lemma crc8_table_bytes: "map (table_byte crc8_bit) [0..<256] = crc8_table"
  unfolding crc8.table_from_basis [OF crc8_basis] crc8_table_def by simp

lemma crc8_table_nth: "crc8_table ! unat c = (crc8_bit ^^ 8) c"
proof -
  have "unat c < 256" using unsigned_less [of c, where 'a = nat] by simp
  then show ?thesis unfolding crc8_table_bytes [symmetric] by (simp add: table_byte_def)
qed

section \<open>Tuples and handles\<close>

record nvram_tuple =
  t_name :: "byte list"
  t_value :: "byte list option"

text \<open>
  A handle: the mapped file, its length, the offset of the header in it and the hash table. The
  last four fields describe the machine: the outcomes of the next allocations (all others
  succeed), the byte order, whether \<^verbatim>\<open>char\<close> is signed, and whether the file is mapped above 2 GiB.
\<close>

record nvram_handle =
  h_mmap :: "byte list"
  h_length :: nat
  h_offset :: nat
  h_hash :: "nvram_tuple list list"
  h_dead :: "nvram_tuple list"
  h_alloc :: "bool list"
  h_be :: bool
  h_schar :: bool
  h_high :: bool

definition alloc :: "nvram_handle \<Rightarrow> bool \<times> nvram_handle" where
  "alloc h = (case h_alloc h of [] \<Rightarrow> (True, h) | ok # rest \<Rightarrow> (ok, h\<lparr>h_alloc := rest\<rparr>))"

definition char_val :: "bool \<Rightarrow> byte \<Rightarrow> int" where
  "char_val schar c = (if schar then sint c else uint c)"

definition nv_hash :: "bool \<Rightarrow> byte list \<Rightarrow> nat" where
  "nv_hash schar s = foldl (\<lambda>h c. u32_of_int (31 * int h + char_val schar c)) 0 s"

definition bucket_of :: "nvram_handle \<Rightarrow> byte list \<Rightarrow> nat" where
  "bucket_of h name = nv_hash (h_schar h) name mod 257"

definition find_tuple :: "byte list \<Rightarrow> nvram_tuple list \<Rightarrow> nvram_tuple option" where
  "find_tuple name ts = List.find (\<lambda>t. t_name t = name) ts"

section \<open>Operations\<close>

definition nvram_free :: "nvram_handle \<Rightarrow> nvram_handle" where
  "nvram_free h = h\<lparr>h_hash := replicate 257 [], h_dead := []\<rparr>"

text \<open>
  The tuple for \<open>name\<close> with the value: the result, the tuple that was in the table as it is now,
  and the handle.
\<close>

definition nvram_realloc ::
    "nvram_handle \<Rightarrow> nvram_tuple option \<Rightarrow> byte list \<Rightarrow> byte list \<Rightarrow> nvram_tuple option \<times> nvram_tuple option \<times> nvram_handle" where
  "nvram_realloc h t name value =
     (if length value + 1 > sub32 (h_length h) (h_offset h) then (None, t, h)
      else
        case t of
          None \<Rightarrow>
            let (ok, h1) = alloc h
            in if \<not> ok then (None, None, h1)
               else let (ok2, h2) = alloc h1
                    in if \<not> ok2 then (None, None, h2)
                       else (Some \<lparr>t_name = name, t_value = Some value\<rparr>, None, h2)
        | Some x \<Rightarrow>
            if t_value x = Some value then (Some x, Some x, h)
            else
              let (ok, h1) = alloc h
              in if \<not> ok then (None, Some (x\<lparr>t_value := None\<rparr>), h1)
                 else (Some (x\<lparr>t_value := Some value\<rparr>), Some (x\<lparr>t_value := Some value\<rparr>), h1))"

definition nvram_get :: "nvram_handle \<Rightarrow> byte list \<Rightarrow> byte list option" where
  "nvram_get h name =
     (case find_tuple name (arr_get [] (h_hash h) (bucket_of h name)) of None \<Rightarrow> None | Some t \<Rightarrow> t_value t)"

fun put_tuple :: "byte list \<Rightarrow> nvram_tuple \<Rightarrow> nvram_tuple list \<Rightarrow> nvram_tuple list" where
  "put_tuple name x [] = []"
| "put_tuple name x (t # ts) = (if t_name t = name then x # ts else t # put_tuple name x ts)"

text \<open>
  A tuple that is in the table is always changed in place, so that the code for moving it to the
  dead list is not reached.
\<close>

definition nvram_set :: "nvram_handle \<Rightarrow> byte list \<Rightarrow> byte list \<Rightarrow> int \<times> nvram_handle" where
  "nvram_set h name value =
     (let i = bucket_of h name;
          ts = arr_get [] (h_hash h) i;
          t = find_tuple name ts;
          (u, t', h1) = nvram_realloc h t name value;
          ts' = (case t' of None \<Rightarrow> ts | Some x \<Rightarrow> put_tuple name x ts)
      in case u of
           None \<Rightarrow> (- 12, h1\<lparr>h_hash := (h_hash h)[i := ts']\<rparr>)
         | Some x \<Rightarrow> (0, h1\<lparr>h_hash := (h_hash h)[i := (if t = None then x # ts else ts')]\<rparr>))"

fun drop_tuple :: "byte list \<Rightarrow> nvram_tuple list \<Rightarrow> nvram_tuple list" where
  "drop_tuple name [] = []"
| "drop_tuple name (t # ts) = (if t_name t = name then ts else t # drop_tuple name ts)"

definition nvram_unset :: "nvram_handle \<Rightarrow> byte list \<Rightarrow> int \<times> nvram_handle" where
  "nvram_unset h name =
     (let i = bucket_of h name;
          ts = arr_get [] (h_hash h) i
      in case find_tuple name ts of
           None \<Rightarrow> (0, h)
         | Some t \<Rightarrow> (0, h\<lparr>h_hash := (h_hash h)[i := drop_tuple name ts], h_dead := t # h_dead h\<rparr>))"

text \<open>The copy of a bucket: a failing allocation ends the loop over it, not the one over the table.\<close>

fun getall_bucket :: "nvram_tuple list \<Rightarrow> nvram_tuple list \<Rightarrow> nvram_handle \<Rightarrow> nvram_tuple list \<times> nvram_handle" where
  "getall_bucket [] l h = (l, h)"
| "getall_bucket (t # ts) l h =
     (let (ok, h1) = alloc h in if ok then getall_bucket ts (t # l) h1 else (l, h1))"

fun getall_table :: "nvram_tuple list list \<Rightarrow> nvram_tuple list \<Rightarrow> nvram_handle \<Rightarrow> nvram_tuple list \<times> nvram_handle" where
  "getall_table [] l h = (l, h)"
| "getall_table (ts # tss) l h = (let (l1, h1) = getall_bucket ts l h in getall_table tss l1 h1)"

definition nvram_getall :: "nvram_handle \<Rightarrow> nvram_tuple list \<times> nvram_handle" where
  "nvram_getall h = getall_table (h_hash h) [] h"


section \<open>The interface\<close>

text \<open>
  What a client relies on: a table is a map from names to values. \<open>room\<close> says that a value fits and
  that memory can be allocated.
\<close>

locale var_table =
  fixes inv :: "'h \<Rightarrow> bool" and room :: "'h \<Rightarrow> 'v \<Rightarrow> bool" and get :: "'h \<Rightarrow> 'n \<Rightarrow> 'v option"
    and put :: "'h \<Rightarrow> 'n \<Rightarrow> 'v \<Rightarrow> 'h" and del :: "'h \<Rightarrow> 'n \<Rightarrow> 'h" and all :: "'h \<Rightarrow> ('n \<times> 'v) list"
  assumes put: "inv h \<Longrightarrow> room h v \<Longrightarrow> inv (put h n v) \<and> get (put h n v) = (get h)(n \<mapsto> v) \<and> room (put h n v) = room h"
    and del: "inv h \<Longrightarrow> inv (del h n) \<and> get (del h n) = (get h)(n := None) \<and> room (del h n) = room h"
    and all: "inv h \<Longrightarrow> room h v \<Longrightarrow> distinct (map fst (all h)) \<and> map_of (all h) = get h"
begin

text \<open>Setting the variables of a list, in its order: the last value of a name stays.\<close>

lemma puts:
  assumes "inv h" and "\<And>n v. (n, v) \<in> set ps \<Longrightarrow> room h v"
  shows "inv (foldl (\<lambda>h (n, v). put h n v) h ps) \<and> get (foldl (\<lambda>h (n, v). put h n v) h ps) = get h ++ map_of (rev ps) \<and>
    room (foldl (\<lambda>h (n, v). put h n v) h ps) = room h"
  using assms
proof (induction ps arbitrary: h)
  case (Cons p ps)
  obtain n v where p: "p = (n, v)" by fastforce
  have r: "room h v" using Cons.prems(2) [of n v] by (simp add: p)
  note h1 = put [OF Cons.prems(1) r, of n]
  have "\<And>n' v'. (n', v') \<in> set ps \<Longrightarrow> room (put h n v) v'" using h1 Cons.prems(2) by auto
  from Cons.IH [OF _ this] h1 show ?case by (simp add: p map_add_upd_left) (simp add: map_add_def fun_eq_iff split: option.splits)
qed simp

lemma put_other_order:
  assumes "inv h" and "room h v" and "room h v'" and "n \<noteq> n'"
  shows "get (put (put h n v) n' v') = get (put (put h n' v') n v)"
proof -
  have "get (put (put h n v) n' v') = (get h)(n \<mapsto> v, n' \<mapsto> v')" if "room h v" "room h v'" for n n' v v'
    using put [OF assms(1) that(1), of n] put [of "put h n v" v' n'] that by simp
  from this [OF assms(2,3)] this [OF assms(3,2)] show ?thesis using assms(4) by (simp add: fun_upd_twist)
qed

end

section \<open>The hash table implements it\<close>

definition bucket_ok :: "nvram_handle \<Rightarrow> nat \<Rightarrow> nvram_tuple list \<Rightarrow> bool" where
  "bucket_ok h i ts \<longleftrightarrow> distinct (map t_name ts) \<and> (\<forall>t\<in>set ts. bucket_of h (t_name t) = i \<and> t_value t \<noteq> None)"

definition nv_inv :: "nvram_handle \<Rightarrow> bool" where
  "nv_inv h \<longleftrightarrow> length (h_hash h) = 257 \<and> (\<forall>i<257. bucket_ok h i (h_hash h ! i))"

definition nv_room :: "nvram_handle \<Rightarrow> byte list \<Rightarrow> bool" where
  "nv_room h v \<longleftrightarrow> length v + 1 \<le> sub32 (h_length h) (h_offset h) \<and> h_alloc h = []"

definition nv_pairs :: "nvram_tuple list \<Rightarrow> (byte list \<times> byte list) list" where
  "nv_pairs ts = map (\<lambda>t. (t_name t, the (t_value t))) ts"

lemma bucket_less [simp]: "bucket_of h name < 257"
  by (simp add: bucket_of_def)

lemma bucket_of_upd [simp]: "bucket_of (h\<lparr>h_hash := x\<rparr>) = bucket_of h" "bucket_of (h\<lparr>h_dead := y\<rparr>) = bucket_of h"
  by (simp_all add: bucket_of_def fun_eq_iff)

lemma alloc_ok [simp]: "h_alloc h = [] \<Longrightarrow> alloc h = (True, h)"
  by (simp add: alloc_def)

definition put_value :: "byte list \<Rightarrow> byte list \<Rightarrow> nvram_tuple list \<Rightarrow> nvram_tuple list" where
  "put_value name v ts =
     (if find_tuple name ts = None then \<lparr>t_name = name, t_value = Some v\<rparr> # ts
      else put_tuple name \<lparr>t_name = name, t_value = Some v\<rparr> ts)"

lemma find_tuple_Some: "find_tuple name ts = Some t \<Longrightarrow> t_name t = name \<and> t \<in> set ts"
  by (auto simp: find_tuple_def find_Some_iff in_set_conv_nth)

lemma find_tuple_unique: "distinct (map t_name ts) \<Longrightarrow> t \<in> set ts \<Longrightarrow> find_tuple (t_name t) ts = Some t"
  by (induction ts) (auto simp: find_tuple_def)

lemma distinct_concat_nth:
  assumes "\<And>i. i < length xss \<Longrightarrow> distinct (xss ! i)"
    and "\<And>i j. i < length xss \<Longrightarrow> j < length xss \<Longrightarrow> i \<noteq> j \<Longrightarrow> set (xss ! i) \<inter> set (xss ! j) = {}"
  shows "distinct (concat xss)"
  using assms
proof (induction xss)
  case (Cons xs xss)
  have "distinct (concat xss)"
  proof (rule Cons.IH)
    show "distinct (xss ! i)" if "i < length xss" for i using Cons.prems(1) [of "Suc i"] that by simp
    show "set (xss ! i) \<inter> set (xss ! j) = {}" if "i < length xss" "j < length xss" "i \<noteq> j" for i j
      using Cons.prems(2) [of "Suc i" "Suc j"] that by simp
  qed
  moreover have "set xs \<inter> set (xss ! j) = {}" if "j < length xss" for j using Cons.prems(2) [of 0 "Suc j"] that by simp
  then have "set xs \<inter> set (concat xss) = {}" by (auto simp: in_set_conv_nth) (metis disjoint_iff nth_mem)
  ultimately show ?case using Cons.prems(1) [of 0] by simp
qed simp

lemma in_concat_nth: "x \<in> set (concat xss) \<Longrightarrow> \<exists>i<length xss. x \<in> set (xss ! i)"
  by (metis UN_E in_set_conv_nth set_concat)

lemma map_of_rev_distinct: "distinct (map fst ps) \<Longrightarrow> map_of (rev ps) = map_of ps"
  by (metis map_of_inject_set distinct_rev rev_map set_rev)

lemma nvram_set_room:
  assumes "nv_room h v"
  shows "nvram_set h n v =
    (0, h\<lparr>h_hash := (h_hash h)[bucket_of h n := put_value n v (arr_get [] (h_hash h) (bucket_of h n))]\<rparr>)"
proof (cases "find_tuple n (arr_get [] (h_hash h) (bucket_of h n))")
  case None
  then show ?thesis using assms by (simp add: nvram_set_def nvram_realloc_def nv_room_def put_value_def Let_def)
next
  case (Some t)
  then have "t_name t = n" using find_tuple_Some by blast
  then have "t\<lparr>t_value := Some v\<rparr> = \<lparr>t_name = n, t_value = Some v\<rparr>"
    and "t_value t = Some v \<Longrightarrow> t = \<lparr>t_name = n, t_value = Some v\<rparr>" by simp_all
  then show ?thesis using assms Some
    by (cases "t_value t = Some v") (simp_all add: nvram_set_def nvram_realloc_def nv_room_def put_value_def Let_def)
qed

lemma find_put_tuple: "find_tuple m (put_tuple n x ts) =
  (if m = n \<and> find_tuple n ts \<noteq> None then Some x else find_tuple m ts)" if "t_name x = n"
  using that by (induction ts) (auto simp: find_tuple_def)

lemma find_put_value: "find_tuple m (put_value n v ts) =
  (if m = n then Some \<lparr>t_name = n, t_value = Some v\<rparr> else find_tuple m ts)"
  by (auto simp: put_value_def find_put_tuple) (auto simp: find_tuple_def)

lemma find_drop_tuple: "distinct (map t_name ts) \<Longrightarrow> find_tuple m (drop_tuple n ts) = (if m = n then None else find_tuple m ts)"
  by (induction ts) (auto simp: find_tuple_def find_None_iff image_iff)

lemma names_put: "map t_name (put_tuple n x ts) = map t_name ts" if "t_name x = n"
  using that by (induction ts) auto

lemma find_tuple_None: "find_tuple n ts = None \<longleftrightarrow> n \<notin> t_name ` set ts"
  by (auto simp: find_tuple_def find_None_iff)

lemma set_put_tuple: "set (put_tuple n x ts) \<subseteq> insert x (set ts)"
  by (induction ts) auto

lemma set_drop_tuple: "set (drop_tuple n ts) \<subseteq> set ts"
  by (induction ts) auto

lemma distinct_drop_tuple: "distinct (map t_name ts) \<Longrightarrow> distinct (map t_name (drop_tuple n ts))"
  by (induction ts) (use set_drop_tuple in force)+

lemma distinct_put_value: "distinct (map t_name ts) \<Longrightarrow> distinct (map t_name (put_value n v ts))"
  by (auto simp: put_value_def names_put find_tuple_None)

lemma set_put_value: "set (put_value n v ts) \<subseteq> insert \<lparr>t_name = n, t_value = Some v\<rparr> (set ts)"
  using set_put_tuple by (auto simp: put_value_def)

lemma bucket_ok_put: "bucket_ok h i ts \<Longrightarrow> bucket_of h n = i \<Longrightarrow> bucket_ok h i (put_value n v ts)"
  using set_put_value [of n v ts] by (auto simp: bucket_ok_def distinct_put_value)

lemma bucket_ok_drop: "bucket_ok h i ts \<Longrightarrow> bucket_ok h i (drop_tuple n ts)"
  using set_drop_tuple [of n ts] by (auto simp: bucket_ok_def distinct_drop_tuple)

lemma bucket_ok_upd [simp]: "bucket_ok (h\<lparr>h_hash := x\<rparr>) = bucket_ok h" "bucket_ok (h\<lparr>h_dead := y\<rparr>) = bucket_ok h"
  by (simp_all add: bucket_ok_def fun_eq_iff)

lemma nv_inv_update: "nv_inv h \<Longrightarrow> bucket_ok h i ts \<Longrightarrow> nv_inv (h\<lparr>h_hash := (h_hash h)[i := ts]\<rparr>)"
  unfolding nv_inv_def by (auto, metis nth_list_update_eq nth_list_update_neq)

lemma nv_inv_dead [simp]: "nv_inv (h\<lparr>h_dead := y\<rparr>) = nv_inv h"
  by (simp add: nv_inv_def)

lemma nv_inv_bucket: "nv_inv h \<Longrightarrow> i < 257 \<Longrightarrow> bucket_ok h i (h_hash h ! i)"
  by (simp add: nv_inv_def)

lemma nvram_get_update: "length (h_hash h) = 257 \<Longrightarrow> i < 257 \<Longrightarrow> nvram_get (h\<lparr>h_hash := (h_hash h)[i := ts]\<rparr>) m =
  (if bucket_of h m = i then case find_tuple m ts of None \<Rightarrow> None | Some t \<Rightarrow> t_value t else nvram_get h m)"
  by (auto simp: nvram_get_def nth_list_update)

lemma nvram_get_dead [simp]: "nvram_get (h\<lparr>h_dead := y\<rparr>) = nvram_get h"
  by (simp add: nvram_get_def fun_eq_iff)

lemma nvram_set_law:
  assumes "nv_inv h" and "nv_room h v"
  shows "nv_inv (snd (nvram_set h n v)) \<and> nvram_get (snd (nvram_set h n v)) = (nvram_get h)(n \<mapsto> v) \<and>
    nv_room (snd (nvram_set h n v)) = nv_room h"
proof -
  let ?i = "bucket_of h n" and ?h = "snd (nvram_set h n v)"
  let ?ts = "put_value n v (h_hash h ! bucket_of h n)"
  have l: "length (h_hash h) = 257" using assms(1) by (simp add: nv_inv_def)
  have h': "?h = h\<lparr>h_hash := (h_hash h)[?i := ?ts]\<rparr>"
    unfolding nvram_set_room [OF assms(2)] using l by simp
  have "nv_inv ?h" unfolding h' by (intro nv_inv_update bucket_ok_put nv_inv_bucket assms) simp_all
  moreover have "nvram_get ?h = (nvram_get h)(n \<mapsto> v)"
    by (rule ext) (simp add: h' nvram_get_update l find_put_value, simp add: nvram_get_def l)
  ultimately show ?thesis by (simp add: h' nv_room_def fun_eq_iff)
qed

lemma nvram_unset_law:
  assumes "nv_inv h"
  shows "nv_inv (snd (nvram_unset h n)) \<and> nvram_get (snd (nvram_unset h n)) = (nvram_get h)(n := None) \<and>
    nv_room (snd (nvram_unset h n)) = nv_room h"
proof (cases "find_tuple n (h_hash h ! bucket_of h n)")
  case None
  have l: "length (h_hash h) = 257" using assms by (simp add: nv_inv_def)
  have "snd (nvram_unset h n) = h" "nvram_get h n = None" using None l by (simp_all add: nvram_unset_def nvram_get_def)
  then show ?thesis using assms by auto
next
  case (Some t)
  let ?i = "bucket_of h n" and ?h = "snd (nvram_unset h n)"
  let ?ts = "drop_tuple n (h_hash h ! bucket_of h n)"
  have l: "length (h_hash h) = 257" using assms by (simp add: nv_inv_def)
  have h': "?h = h\<lparr>h_hash := (h_hash h)[?i := ?ts], h_dead := t # h_dead h\<rparr>"
    using Some l by (simp add: nvram_unset_def Let_def)
  have d: "distinct (map t_name (h_hash h ! ?i))" using nv_inv_bucket [OF assms, of ?i] by (simp add: bucket_ok_def)
  have "nv_inv (h\<lparr>h_hash := (h_hash h)[?i := ?ts]\<rparr>)" by (intro nv_inv_update bucket_ok_drop nv_inv_bucket assms) simp
  then have "nv_inv ?h" unfolding h' nv_inv_dead .
  moreover have "nvram_get ?h = (nvram_get h)(n := None)"
    by (rule ext) (simp add: h' nvram_get_update l find_drop_tuple [OF d], simp add: nvram_get_def l)
  ultimately show ?thesis by (simp add: h' nv_room_def fun_eq_iff)
qed


lemma getall_bucket_ok: "h_alloc h = [] \<Longrightarrow> getall_bucket ts l h = (rev ts @ l, h)"
  by (induction ts l h rule: getall_bucket.induct) simp_all

lemma getall_table_ok: "h_alloc h = [] \<Longrightarrow> getall_table tss l h = (rev (concat tss) @ l, h)"
  by (induction tss arbitrary: l) (simp_all add: getall_bucket_ok)

lemma nvram_getall_ok: "h_alloc h = [] \<Longrightarrow> nvram_getall h = (rev (concat (h_hash h)), h)"
  by (simp add: nvram_getall_def getall_table_ok)

text \<open>The tuples of the table, bucket by bucket: names are distinct since each is in its bucket.\<close>

lemma table_tuples:
  assumes "nv_inv h"
  shows "distinct (map t_name (concat (h_hash h)))" and "map_of (nv_pairs (concat (h_hash h))) = nvram_get h"
proof -
  let ?f = "\<lambda>ts. map t_name ts"
  have l: "length (h_hash h) = 257" using assms by (simp add: nv_inv_def)
  have ok: "bucket_ok h i (h_hash h ! i)" if "i < 257" for i using nv_inv_bucket [OF assms that] .
  have names: "bucket_of h (t_name t) = i" if "i < 257" "t \<in> set (h_hash h ! i)" for i t
    using ok [OF that(1)] that(2) by (simp add: bucket_ok_def)
  show d: "distinct (map t_name (concat (h_hash h)))"
    unfolding map_concat
  proof (rule distinct_concat_nth)
    fix i assume "i < length (map ?f (h_hash h))"
    then show "distinct (map ?f (h_hash h) ! i)" using ok l by (simp add: bucket_ok_def)
  next
    fix i j assume "i < length (map ?f (h_hash h))" "j < length (map ?f (h_hash h))" "i \<noteq> j"
    then show "set (map ?f (h_hash h) ! i) \<inter> set (map ?f (h_hash h) ! j) = {}"
      using names [of i] names [of j] l by fastforce
  qed
  have val: "nvram_get h (t_name t) = t_value t" if t: "t \<in> set (concat (h_hash h))" for t
  proof -
    from t obtain i where i: "i < 257" "t \<in> set (h_hash h ! i)" using in_concat_nth [of t "h_hash h"] l by auto
    have "distinct (map t_name (h_hash h ! i))" using ok [OF i(1)] by (simp add: bucket_ok_def)
    then have "find_tuple (t_name t) (h_hash h ! i) = Some t" using i(2) by (rule find_tuple_unique)
    then show ?thesis using i(1) l names [OF i] by (simp add: nvram_get_def)
  qed
  show "map_of (nv_pairs (concat (h_hash h))) = nvram_get h"
  proof
    fix n
    show "map_of (nv_pairs (concat (h_hash h))) n = nvram_get h n"
    proof (cases "n \<in> t_name ` set (concat (h_hash h))")
      case True
      then obtain t where t: "t \<in> set (concat (h_hash h))" "n = t_name t" by blast
      then obtain i where "i < 257" "t \<in> set (h_hash h ! i)" using in_concat_nth [of t "h_hash h"] l by auto
      then have "t_value t \<noteq> None" using ok by (simp add: bucket_ok_def)
      moreover have "map_of (nv_pairs (concat (h_hash h))) n = Some (the (t_value t))"
        using t d by (intro map_of_is_SomeI) (auto simp: nv_pairs_def comp_def)
      ultimately show ?thesis using val [OF t(1)] t(2) by simp
    next
      case False
      moreover have "set (h_hash h ! bucket_of h n) \<subseteq> set (concat (h_hash h))"
      proof -
        have "h_hash h ! bucket_of h n \<in> set (h_hash h)" by (rule nth_mem) (simp add: l)
        then show ?thesis by auto
      qed
      ultimately have "find_tuple n (h_hash h ! bucket_of h n) = None"
        unfolding find_tuple_None by blast
      moreover have "map_of (nv_pairs (concat (h_hash h))) n = None"
        using False by (auto simp: map_of_eq_None_iff nv_pairs_def)
      ultimately show ?thesis using l by (simp add: nvram_get_def)
    qed
  qed
qed

interpretation nv: var_table nv_inv nv_room nvram_get "\<lambda>h n v. snd (nvram_set h n v)" "\<lambda>h n. snd (nvram_unset h n)"
    "\<lambda>h. nv_pairs (fst (nvram_getall h))"
proof
  fix h v
  assume "nv_inv h" and "nv_room h v"
  then have "nv_pairs (fst (nvram_getall h)) = rev (nv_pairs (concat (h_hash h)))"
    by (simp add: nvram_getall_ok nv_room_def nv_pairs_def rev_map)
  moreover have "distinct (map fst (nv_pairs (concat (h_hash h))))"
    using table_tuples(1) [OF \<open>nv_inv h\<close>] by (simp add: nv_pairs_def comp_def)
  ultimately show "distinct (map fst (nv_pairs (fst (nvram_getall h)))) \<and> map_of (nv_pairs (fst (nvram_getall h))) = nvram_get h"
    using table_tuples(2) [OF \<open>nv_inv h\<close>] by (simp add: rev_map [symmetric] map_of_rev_distinct)
qed (use nvram_set_law nvram_unset_law in blast)+


section \<open>Properties\<close>

text \<open>
  The checksum by table is the bit by bit remainder for the polynomial
  \<open>x^8 + x^7 + x^6 + x^4 + x^2 + 1\<close> that the comment names, for every start value and any data.
\<close>

theorem hndcrc8_is_crc8: "hndcrc8 pdata crc = crc8_spec pdata crc"
proof (induction pdata crc rule: hndcrc8.induct)
  case (2 b pdata crc)
  have "(0xff :: byte) = - 1" by simp
  then have "(crc XOR b) AND 0xff = crc XOR b" by (simp only: and.right_neutral)
  then show ?case using 2 by (simp only: hndcrc8.simps crc8_spec.simps crc8_table_nth)
qed simp

text \<open>
  C24. The hash table implements a map from names to values: with room for the value setting a
  variable succeeds and changes this variable only, deleting removes this one only, and the list
  of all variables is that map without a double name. The invariant of the table is kept.
\<close>

theorem nvram_table_refines_map:
  assumes "nv_inv h" and "nv_room h v"
  shows "fst (nvram_set h n v) = 0 \<and> nv_inv (snd (nvram_set h n v)) \<and>
    nvram_get (snd (nvram_set h n v)) = (nvram_get h)(n \<mapsto> v) \<and>
    nv_inv (snd (nvram_unset h n)) \<and> nvram_get (snd (nvram_unset h n)) = (nvram_get h)(n := None) \<and>
    distinct (map fst (nv_pairs (fst (nvram_getall h)))) \<and> map_of (nv_pairs (fst (nvram_getall h))) = nvram_get h"
  using nv.put [OF assms, of n] nv.del [OF assms(1), of n] nv.all [OF assms] nvram_set_room [OF assms(2), of n] by simp

definition ex_handle :: nvram_handle where
  "ex_handle = \<lparr>h_mmap = [], h_length = 0x10000, h_offset = 0, h_hash = replicate 257 [], h_dead = [], h_alloc = [],
     h_be = False, h_schar = True, h_high = False\<rparr>"

theorem nvram_table_refines_map_witness:
  "nvram_get (snd (nvram_set ex_handle [0x61] [0x62])) [0x61] = Some [0x62]"
proof -
  have "nv_inv ex_handle" by (simp add: nv_inv_def ex_handle_def bucket_ok_def)
  moreover have "nv_room ex_handle [0x62]" by (simp add: nv_room_def ex_handle_def)
  ultimately show ?thesis using nvram_table_refines_map [of ex_handle "[0x62]" "[0x61]"] by simp
qed

text \<open>A value that does not fit leaves the table as it is.\<close>

lemma nvram_set_too_long:
  assumes "nv_inv h" and "sub32 (h_length h) (h_offset h) < length v + 1"
  shows "nvram_set h n v = (- 12, h)"
proof -
  let ?i = "bucket_of h n"
  have l: "length (h_hash h) = 257" using assms(1) by (simp add: nv_inv_def)
  have "put_tuple n t ts = ts" if "find_tuple n ts = Some t" for t ts
    using that by (induction ts) (auto simp: find_tuple_def)
  then show ?thesis using assms(2) l
    by (simp add: nvram_set_def nvram_realloc_def Let_def split: option.splits)
qed

end
