(* ===== verification/Nvram_Store.thy ===== *)
theory Nvram_Store
  imports Nvram_Table
begin

text \<open>
  The NVRAM area of the flash (\<^verbatim>\<open>nvram.c\<close>): a header with the parameters of the memory controller
  and a checksum, and \<^verbatim>\<open>name=value\<close> strings behind it. Reading the area fills the hash table,
  committing writes the area from it. The machine has 32 bits; the byte order is a field of the
  handle, since the tool is built for little and for big endian targets.

  A read behind the mapped file, and the use of a NULL value, are \<^const>\<open>None\<close>: the tool crashes.
\<close>

section \<open>Numbers as text\<close>

text \<open>\<^verbatim>\<open>0x%04X\<close> and \<^verbatim>\<open>0x%08X\<close>, for numbers that have at most that many digits.\<close>

definition hex_digit :: "nat \<Rightarrow> byte" where
  "hex_digit d = (if d < 10 then of_nat (48 + d) else of_nat (55 + d))"

definition hex_str :: "nat \<Rightarrow> nat \<Rightarrow> byte list" where
  "hex_str w n = [0x30, 0x78] @ map (\<lambda>i. hex_digit (n div 16 ^ i mod 16)) (rev [0..<w])"

text \<open>\<^verbatim>\<open>strtoul(s, NULL, 0)\<close> of the C library, with an \<^verbatim>\<open>unsigned long\<close> of 32 bits.\<close>

definition digit_val :: "byte \<Rightarrow> nat" where
  "digit_val c =
     (let n = unat c
      in if 48 \<le> n \<and> n \<le> 57 then n - 48
         else if 97 \<le> n \<and> n \<le> 122 then n - 87
         else if 65 \<le> n \<and> n \<le> 90 then n - 55
         else 255)"

fun strtoul_digits :: "nat \<Rightarrow> byte list \<Rightarrow> nat \<Rightarrow> nat" where
  "strtoul_digits base [] acc = acc"
| "strtoul_digits base (c # cs) acc =
     (if digit_val c < base then strtoul_digits base cs (acc * base + digit_val c) else acc)"

definition is_space :: "byte \<Rightarrow> bool" where
  "is_space c \<longleftrightarrow> c = 32 \<or> 9 \<le> unat c \<and> unat c \<le> 13"

definition strtoul :: "byte list \<Rightarrow> nat" where
  "strtoul s =
     (let s1 = dropWhile is_space s;
          neg = (take 1 s1 = [0x2d]);
          s2 = (if take 1 s1 = [0x2d] \<or> take 1 s1 = [0x2b] then drop 1 s1 else s1);
          hex = ((take 2 s2 = [0x30, 0x78] \<or> take 2 s2 = [0x30, 0x58]) \<and> drop 2 s2 \<noteq> [] \<and> digit_val (hd (drop 2 s2)) < 16);
          n = (if hex then strtoul_digits 16 (drop 2 s2) 0
               else if take 1 s2 = [0x30] then strtoul_digits 8 s2 0
               else strtoul_digits 10 s2 0)
      in if n \<ge> 4294967296 then 4294967295
         else if neg then u32 (4294967296 - n) else n)"

section \<open>The header\<close>

record nvram_header =
  hd_magic :: nat
  hd_len :: nat
  hd_crc_ver_init :: nat
  hd_config_refresh :: nat
  hd_config_ncdl :: nat

definition native32 :: "bool \<Rightarrow> nat \<Rightarrow> byte list" where
  "native32 be n = (if be then rev (le32 n) else le32 n)"

definition native32_at :: "bool \<Rightarrow> byte list \<Rightarrow> nat \<Rightarrow> nat" where
  "native32_at be bs off = (if be then be32_at bs off else le32_at bs off)"

definition header_words :: "bool \<Rightarrow> nvram_header \<Rightarrow> byte list" where
  "header_words be hdr =
     native32 be (hd_magic hdr) @ native32 be (hd_len hdr) @ native32 be (hd_crc_ver_init hdr) @
     native32 be (hd_config_refresh hdr) @ native32 be (hd_config_ncdl hdr)"

definition header_at :: "bool \<Rightarrow> byte list \<Rightarrow> nat \<Rightarrow> nvram_header" where
  "header_at be bs off =
     \<lparr>hd_magic = native32_at be bs off, hd_len = native32_at be bs (off + 4), hd_crc_ver_init = native32_at be bs (off + 8),
      hd_config_refresh = native32_at be bs (off + 12), hd_config_ncdl = native32_at be bs (off + 16)\<rparr>"

definition get_header :: "nvram_handle \<Rightarrow> nvram_header" where
  "get_header h = header_at (h_be h) (h_mmap h) (h_offset h)"

section \<open>Reading the area\<close>

text \<open>The loop over \<^verbatim>\<open>name=value\<close> strings; the results of \<^verbatim>\<open>nvram_set\<close> are not looked at.\<close>

function rehash_loop :: "nvram_handle \<Rightarrow> byte list \<Rightarrow> nvram_handle option" where
  "rehash_loop h bs =
     (case bs of
        [] \<Rightarrow> None
      | b # _ \<Rightarrow>
          if b = 0 then Some h
          else if 0x3d \<notin> set (c_string bs) then (if 0 \<in> set bs then Some h else None)
          else
            let name = takeWhile (\<lambda>b. b \<noteq> 0x3d) bs;
                rest = drop (length name + 1) bs;
                value = c_string rest
            in if 0 \<notin> set rest then None
               else rehash_loop (snd (nvram_set h name value)) (drop (length value + 1) rest))"
  by pat_completeness auto
termination
  by (relation "measure (\<lambda>(_, bs). length bs)") auto

declare rehash_loop.simps [simp del]

definition set_missing :: "byte list \<Rightarrow> byte list \<Rightarrow> nvram_handle \<Rightarrow> nvram_handle" where
  "set_missing name value h = (if nvram_get h name = None then snd (nvram_set h name value) else h)"

definition sdram_vars :: "nvram_header \<Rightarrow> (byte list \<times> byte list) list" where
  "sdram_vars hdr =
     [(bytes_of ''sdram_init'', hex_str 4 (hd_crc_ver_init hdr div 65536)),
      (bytes_of ''sdram_config'', hex_str 4 (hd_config_refresh hdr mod 65536)),
      (bytes_of ''sdram_refresh'', hex_str 4 (hd_config_refresh hdr div 65536)),
      (bytes_of ''sdram_ncdl'', hex_str 8 (hd_config_ncdl hdr))]"

definition nvram_rehash :: "nvram_handle \<Rightarrow> nvram_handle option" where
  "nvram_rehash h =
     (case rehash_loop (nvram_free h) (drop (h_offset h + 20) (h_mmap h)) of
        None \<Rightarrow> None
      | Some h1 \<Rightarrow> Some (foldl (\<lambda>h (n, v). set_missing n v h) h1 (sdram_vars (get_header h))))"

section \<open>Committing\<close>

definition tuple_text :: "byte list \<Rightarrow> byte list \<Rightarrow> byte list" where
  "tuple_text name value = name @ [0x3d] @ value @ [0]"

text \<open>The tuples of one bucket, up to the first that does not fit; pointers are relative to the header.\<close>

fun write_bucket :: "nat \<Rightarrow> nat \<Rightarrow> nvram_tuple list \<Rightarrow> byte list \<times> nat \<Rightarrow> (byte list \<times> nat) option" where
  "write_bucket off e [] mp = Some mp"
| "write_bucket off e (t # ts) mp =
     (case t_value t of
        None \<Rightarrow> None
      | Some v \<Rightarrow>
          if snd mp + length (t_name t) + 1 + length v + 1 > e then Some mp
          else write_bucket off e ts
                 (poke (fst mp) (off + snd mp) (tuple_text (t_name t) v), snd mp + (length (t_name t) + 1 + length v) + 1))"

fun write_table :: "nat \<Rightarrow> nat \<Rightarrow> nvram_tuple list list \<Rightarrow> byte list \<times> nat \<Rightarrow> (byte list \<times> nat) option" where
  "write_table off e [] mp = Some mp"
| "write_table off e (ts # tss) mp =
     (case write_bucket off e ts mp of None \<Rightarrow> None | Some mp' \<Rightarrow> write_table off e tss mp')"

text \<open>The header words that commit takes from the variables, before length and checksum.\<close>

definition commit_header :: "nvram_handle \<Rightarrow> nvram_header" where
  "commit_header h =
     (case (nvram_get h (bytes_of ''sdram_init''), nvram_get h (bytes_of ''sdram_config''),
            nvram_get h (bytes_of ''sdram_refresh''), nvram_get h (bytes_of ''sdram_ncdl'')) of
        (Some init, Some config, Some refresh, Some ncdl) \<Rightarrow>
          \<lparr>hd_magic = 0x48534C46, hd_len = hd_len (get_header h), hd_crc_ver_init = 0x100 + 65536 * (strtoul init mod 65536),
           hd_config_refresh = strtoul config mod 65536 + 65536 * (strtoul refresh mod 65536), hd_config_ncdl = u32 (strtoul ncdl)\<rparr>
      | _ \<Rightarrow>
          \<lparr>hd_magic = 0x48534C46, hd_len = hd_len (get_header h), hd_crc_ver_init = 0x100 + 65536 * 0x419,
           hd_config_refresh = 0 + 65536 * 0x8040, hd_config_ncdl = 0\<rparr>)"

text \<open>
  How many zero bytes are written behind the end mark at \<open>p\<close>: the address is converted to \<^verbatim>\<open>int\<close>, so
  the remainder is negative when the file is mapped above 2 GiB. The mapping starts at a page.
\<close>

definition commit_pad :: "nvram_handle \<Rightarrow> nat \<Rightarrow> nat" where
  "commit_pad h p =
     (let r = (h_offset h + p) mod 4
      in if r = 0 then 0 else if h_high h then 8 - r else 4 - r)"

definition header_crc :: "bool \<Rightarrow> nvram_header \<Rightarrow> byte" where
  "header_crc be hdr = hndcrc8 (drop 9 (header_words be (hdr\<lparr>hd_magic := 0, hd_len := 0\<rparr>))) 0xff"

definition nvram_commit :: "nvram_handle \<Rightarrow> nvram_handle option" where
  "nvram_commit h =
     (let off = h_offset h; be = h_be h;
          sz = h_length h - h_offset h;
          hd1 = commit_header h;
          mem1 = poke (h_mmap h) off (header_words be hd1);
          mem2 = poke mem1 (off + 20) (replicate (sz - 20) 0xFF)
      in case write_table off (sz - 2) (h_hash h) (mem2, 20) of
           None \<Rightarrow> None
         | Some (mem3, ptr) \<Rightarrow>
             let mem4 = poke mem3 (off + ptr) [0];
                 mem5 = poke mem4 (off + (ptr + 1)) (replicate (commit_pad h (ptr + 1)) 0);
                 hd2 = hd1\<lparr>hd_len := round_up (ptr + 2) 4\<rparr>;
                 mem6 = poke mem5 off (header_words be hd2);
                 crc = hndcrc8 (field (off + 20) (hd_len hd2 - 20) mem6) (header_crc be hd2);
                 hd3 = hd2\<lparr>hd_crc_ver_init := hd_crc_ver_init hd2 + unat crc\<rparr>;
                 mem7 = poke mem6 off (header_words be hd3)
             in nvram_rehash (h\<lparr>h_mmap := mem7\<rparr>))"

section \<open>Opening\<close>

text \<open>
  The search for the magic number in the words of the file: \<open>Some None\<close> without one. A file of less
  than \<^verbatim>\<open>NVRAM_MIN_SPACE\<close> bytes makes the limit wrap around.
\<close>

function find_magic :: "bool \<Rightarrow> byte list \<Rightarrow> nat \<Rightarrow> nat \<Rightarrow> nat option option" where
  "find_magic be mem n i =
     (if i > n then Some None
      else if length mem < i * 4 + 4 then None
      else if native32_at be mem (i * 4) = 0x48534C46 then Some (Some (i * 4))
      else find_magic be mem n (i + 1))"
  by pat_completeness auto
termination
  by (relation "measure (\<lambda>(be, mem, n, i). n + 1 - i)") auto

declare find_magic.simps [simp del]

text \<open>
  Opening a mapped file \<open>mem\<close> of the size of the partition; \<open>m\<close> is a handle that describes the machine.
  The result is \<open>Some None\<close> when the code returns NULL.
\<close>

definition nvram_open :: "nvram_handle \<Rightarrow> byte list \<Rightarrow> bool \<Rightarrow> nvram_handle option option" where
  "nvram_open m mem rdonly =
     (case find_magic (h_be m) mem (sub32 (length mem) 0x8000 div 4) 0 of
        None \<Rightarrow> None
      | Some None \<Rightarrow> Some None
      | Some (Some offset) \<Rightarrow>
          let (ok, m1) = alloc m
          in if \<not> ok then Some None
             else
               let h = m1\<lparr>h_mmap := mem, h_length := length mem, h_offset := offset, h_hash := replicate 257 [], h_dead := []\<rparr>;
                   hdr = get_header h
               in if hd_magic hdr = 0x48534C46 \<and> (rdonly \<or> hd_len hdr < sub32 (h_length h) (h_offset h))
                  then map_option Some (nvram_rehash h)
                  else Some None)"

section \<open>What commit writes\<close>

definition pairs_text :: "(byte list \<times> byte list) list \<Rightarrow> byte list" where
  "pairs_text ps = concat (map (\<lambda>(n, v). tuple_text n v) ps)"

lemma pairs_text_simps [simp]: "pairs_text [] = []" "pairs_text ((n, v) # ps) = tuple_text n v @ pairs_text ps"
  "pairs_text (ps @ qs) = pairs_text ps @ pairs_text qs"
  by (simp_all add: pairs_text_def)

lemma nv_pairs_simps [simp]: "nv_pairs [] = []" "nv_pairs (t # ts) = (t_name t, the (t_value t)) # nv_pairs ts"
  "nv_pairs (ts @ us) = nv_pairs ts @ nv_pairs us"
  by (simp_all add: nv_pairs_def)

lemma length_tuple_text [simp]: "length (tuple_text n v) = length n + 1 + length v + 1"
  by (simp add: tuple_text_def)

lemma write_bucket_all:
  assumes "\<forall>t\<in>set ts. t_value t \<noteq> None" and "ptr + length (pairs_text (nv_pairs ts)) \<le> e" and "off + e \<le> length mem"
  shows "write_bucket off e ts (mem, ptr) =
    Some (poke mem (off + ptr) (pairs_text (nv_pairs ts)), ptr + length (pairs_text (nv_pairs ts)))"
  using assms
proof (induction ts arbitrary: mem ptr)
  case (Cons t ts)
  then obtain v where v: "t_value t = Some v" by auto
  let ?x = "tuple_text (t_name t) v"
  have "write_bucket off e ts (poke mem (off + ptr) ?x, ptr + length ?x) =
    Some (poke (poke mem (off + ptr) ?x) (off + (ptr + length ?x)) (pairs_text (nv_pairs ts)), ptr + length ?x + length (pairs_text (nv_pairs ts)))"
    using Cons.prems v by (intro Cons.IH) (auto simp del: length_tuple_text)
  moreover have "poke (poke mem (off + ptr) ?x) (off + (ptr + length ?x)) (pairs_text (nv_pairs ts)) =
    poke mem (off + ptr) (?x @ pairs_text (nv_pairs ts))"
    using poke_poke [of "off + ptr" ?x "pairs_text (nv_pairs ts)" mem] Cons.prems v by (simp add: add.assoc)
  ultimately show ?case using Cons.prems v by (simp add: add.assoc)
qed simp

lemma write_table_all:
  assumes "\<forall>ts\<in>set tss. \<forall>t\<in>set ts. t_value t \<noteq> None" and "ptr + length (pairs_text (nv_pairs (concat tss))) \<le> e"
    and "off + e \<le> length mem"
  shows "write_table off e tss (mem, ptr) =
    Some (poke mem (off + ptr) (pairs_text (nv_pairs (concat tss))), ptr + length (pairs_text (nv_pairs (concat tss))))"
  using assms
proof (induction tss arbitrary: mem ptr)
  case (Cons ts tss)
  let ?x = "pairs_text (nv_pairs ts)" and ?y = "pairs_text (nv_pairs (concat tss))"
  have "write_bucket off e ts (mem, ptr) = Some (poke mem (off + ptr) ?x, ptr + length ?x)"
    using Cons.prems by (intro write_bucket_all) auto
  moreover have "write_table off e tss (poke mem (off + ptr) ?x, ptr + length ?x) =
    Some (poke (poke mem (off + ptr) ?x) (off + (ptr + length ?x)) ?y, ptr + length ?x + length ?y)"
    using Cons.prems by (intro Cons.IH) auto
  moreover have "poke (poke mem (off + ptr) ?x) (off + (ptr + length ?x)) ?y = poke mem (off + ptr) (?x @ ?y)"
    using poke_poke [of "off + ptr" ?x ?y mem] Cons.prems by (simp add: add.assoc)
  ultimately show ?case by (simp add: add.assoc)
qed simp

lemma length_header_words [simp]: "length (header_words be hdr) = 20"
  by (simp add: header_words_def native32_def)

text \<open>The whole image: the part before the header is kept, the variables end with a zero byte.\<close>

definition commit_text :: "nvram_handle \<Rightarrow> byte list" where
  "commit_text h = pairs_text (nv_pairs (concat (h_hash h)))"

definition fits :: "nvram_handle \<Rightarrow> bool" where
  "fits h \<longleftrightarrow> length (h_mmap h) = h_length h \<and> h_offset h + 22 + length (commit_text h) \<le> h_length h"

definition committed_header :: "nvram_handle \<Rightarrow> byte list \<Rightarrow> nvram_header" where
  "committed_header h data =
     (let hdr = (commit_header h)\<lparr>hd_len := round_up (22 + length (commit_text h)) 4\<rparr>
      in hdr\<lparr>hd_crc_ver_init := hd_crc_ver_init hdr + unat (hndcrc8 (take (hd_len hdr - 20) data) (header_crc (h_be h) hdr))\<rparr>)"

lemma nvram_commit_layout:
  assumes "fits h" and "nv_inv h"
  obtains rest where
    "nvram_commit h = nvram_rehash (h\<lparr>h_mmap := take (h_offset h) (h_mmap h) @
       header_words (h_be h) (committed_header h (commit_text h @ 0 # rest)) @ commit_text h @ 0 # rest\<rparr>)"
    and "h_offset h + 21 + length (commit_text h) + length rest = h_length h"
proof -
  let ?off = "h_offset h" and ?T = "commit_text h" and ?be = "h_be h" and ?A = "take (h_offset h) (h_mmap h)"
  let ?hd1 = "commit_header h" and ?n = "h_length h - h_offset h - 20"
  let ?p = "20 + length (commit_text h)"
  have l: "length (h_mmap h) = h_length h" and f: "?off + 22 + length ?T \<le> h_length h" using assms(1) by (simp_all add: fits_def)
  have A: "length ?A = ?off" using l f by simp
  have ok: "\<forall>ts\<in>set (h_hash h). \<forall>t\<in>set ts. t_value t \<noteq> None"
    using assms(2) by (fastforce simp: nv_inv_def bucket_ok_def in_set_conv_nth)
  define mem2 where "mem2 = poke (poke (h_mmap h) ?off (header_words ?be ?hd1)) (?off + 20) (replicate ?n 0xFF)"
  have mem2: "mem2 = ?A @ header_words ?be ?hd1 @ replicate ?n 0xFF"
    unfolding mem2_def using poke_poke [of ?off "header_words ?be ?hd1" "replicate ?n 0xFF" "h_mmap h"] l f by (simp add: poke_in)
  have w: "write_table ?off (h_length h - ?off - 2) (h_hash h) (mem2, 20) = Some (poke mem2 (?off + 20) ?T, ?p)"
    unfolding commit_text_def by (rule write_table_all [OF ok]) (use f l in \<open>auto simp: mem2 commit_text_def\<close>)
  have mem4: "poke (poke mem2 (?off + 20) ?T) (?off + ?p) [0] = ?A @ header_words ?be ?hd1 @ ?T @ 0 # replicate (?n - (length ?T + 1)) 0xFF"
    using poke_poke [of "?off + 20" ?T "[0]" mem2] f l by (simp add: poke_in mem2 add.assoc)
  define rest where "rest = poke (replicate (?n - (length ?T + 1)) 0xFF) 0 (replicate (commit_pad h (?p + 1)) 0)"
  have poke_at: "poke (B @ C) (length B) X = B @ poke C 0 X" for B C X :: "byte list"
    by (simp add: poke_def)
  have mem5: "poke (?A @ header_words ?be ?hd1 @ ?T @ 0 # replicate (?n - (length ?T + 1)) 0xFF) (?off + (?p + 1)) (replicate (commit_pad h (?p + 1)) 0) =
    ?A @ header_words ?be ?hd1 @ ?T @ 0 # rest"
    using poke_at [of "?A @ header_words ?be ?hd1 @ ?T @ [0]" "replicate (?n - (length ?T + 1)) 0xFF" "replicate (commit_pad h (?p + 1)) 0"] A
    by (simp add: rest_def)
  define hdr2 where "hdr2 = ?hd1\<lparr>hd_len := round_up (?p + 2) 4\<rparr>"
  have hdr: "poke (?A @ header_words ?be x @ C) ?off (header_words ?be y) = ?A @ header_words ?be y @ C" for x y C
    using poke_mid [of "header_words ?be x" "header_words ?be y" ?A C] A by simp
  have fld: "field (?off + 20) k (?A @ header_words ?be x @ C) = take k C" for x C k
    using A by (simp add: field_def)
  have "nvram_commit h = nvram_rehash (h\<lparr>h_mmap := ?A @ header_words ?be (committed_header h (?T @ 0 # rest)) @ ?T @ 0 # rest\<rparr>)"
    unfolding nvram_commit_def Let_def mem2_def [symmetric] w option.case prod.case mem4 mem5 hdr fld
    by (simp add: committed_header_def Let_def add.commute)
  moreover have "?off + 21 + length ?T + length rest = h_length h" using f by (simp add: rest_def)
  ultimately show ?thesis using that by blast
qed

end
