(* ===== verification/Nvram_Commit.thy ===== *)
theory Nvram_Commit
  imports Nvram_Store
begin

text \<open>
  Properties of the NVRAM area: what is committed is read back, the checksum that the tool computes
  for an area it has written is the stored one, and when a full area cannot be opened again.
\<close>

section \<open>Reading back\<close>

definition pair_ok :: "byte list \<times> byte list \<Rightarrow> bool" where
  "pair_ok = (\<lambda>(n, v). 0 \<notin> set n \<and> 0x3d \<notin> set n \<and> 0 \<notin> set v)"

lemma takeWhile_stop: "x \<notin> set xs \<Longrightarrow> takeWhile (\<lambda>b. b \<noteq> x) (xs @ x # ys) = xs"
  by (subst takeWhile_append2) auto

lemma rehash_loop_end [simp]: "rehash_loop h (0 # r) = Some h"
  by (simp add: rehash_loop.simps)

lemma rehash_loop_tuple:
  assumes "pair_ok (n, v)"
  shows "rehash_loop h (tuple_text n v @ r) = rehash_loop (snd (nvram_set h n v)) r"
proof -
  let ?bs = "tuple_text n v @ r"
  have bs: "?bs = n @ 0x3d # v @ 0 # r" "?bs = (n @ 0x3d # v) @ 0 # r" by (simp_all add: tuple_text_def)
  have c: "c_string ?bs = n @ 0x3d # v" unfolding bs(2) c_string_def using assms by (intro takeWhile_stop) (auto simp: pair_ok_def)
  have n: "takeWhile (\<lambda>b. b \<noteq> 0x3d) ?bs = n" unfolding bs(1) using assms by (intro takeWhile_stop) (auto simp: pair_ok_def)
  have d: "drop (length n + 1) ?bs = v @ 0 # r" unfolding bs(1) by simp
  have v: "c_string (v @ 0 # r) = v" unfolding c_string_def using assms by (intro takeWhile_stop) (auto simp: pair_ok_def)
  obtain b r' where r': "?bs = b # r'" unfolding bs(1) by (cases n) auto
  have "b \<noteq> 0" using r' assms unfolding bs(1) by (cases n) (auto simp: pair_ok_def)
  then have "rehash_loop h ?bs = (let name = takeWhile (\<lambda>b. b \<noteq> 0x3d) ?bs; rest = drop (length name + 1) ?bs; value = c_string rest
    in if 0 \<notin> set rest then None else rehash_loop (snd (nvram_set h name value)) (drop (length value + 1) rest))"
    using c by (subst rehash_loop.simps) (simp add: r')
  then show ?thesis unfolding Let_def n d v by simp
qed

lemma rehash_loop_pairs:
  assumes "list_all pair_ok ps"
  shows "rehash_loop h (pairs_text ps @ 0 # r) = Some (foldl (\<lambda>h (n, v). snd (nvram_set h n v)) h ps)"
  using assms by (induction ps arbitrary: h) (auto simp: rehash_loop_tuple)

lemma nv_inv_mmap [simp]: "nv_inv (h\<lparr>h_mmap := x\<rparr>) = nv_inv h"
  by (simp add: nv_inv_def bucket_ok_def bucket_of_def)

lemma nvram_get_mmap [simp]: "nvram_get (h\<lparr>h_mmap := x\<rparr>) = nvram_get h"
  by (simp add: nvram_get_def fun_eq_iff bucket_of_def)

lemma nv_inv_free [simp]: "nv_inv (nvram_free h)"
  by (simp add: nv_inv_def nvram_free_def bucket_ok_def)

lemma nvram_get_free [simp]: "nvram_get (nvram_free h) = Map.empty"
  by (simp add: nvram_get_def nvram_free_def fun_eq_iff find_tuple_def)

lemma nv_room_upd [simp]: "nv_room (h\<lparr>h_mmap := x\<rparr>) = nv_room h" "nv_room (nvram_free h) = nv_room h"
  by (simp_all add: nv_room_def nvram_free_def fun_eq_iff)

lemma set_missing_law:
  assumes "nv_inv h" and "nv_room h v"
  shows "nv_inv (set_missing n v h) \<and> nvram_get (set_missing n v h) = [n \<mapsto> v] ++ nvram_get h \<and> nv_room (set_missing n v h) = nv_room h"
  using nv.put [OF assms, of n] assms(1) by (auto simp: set_missing_def fun_eq_iff map_add_def split: option.splits)

text \<open>The defaults for variables that are missing.\<close>

lemma set_missings:
  assumes "nv_inv h" and "\<And>n v. (n, v) \<in> set ps \<Longrightarrow> nv_room h v"
  shows "nv_inv (foldl (\<lambda>h (n, v). set_missing n v h) h ps) \<and>
    nvram_get (foldl (\<lambda>h (n, v). set_missing n v h) h ps) = map_of ps ++ nvram_get h \<and>
    nv_room (foldl (\<lambda>h (n, v). set_missing n v h) h ps) = nv_room h"
  using assms
proof (induction ps arbitrary: h)
  case (Cons p ps)
  obtain n v where p: "p = (n, v)" by fastforce
  note h1 = set_missing_law [OF Cons.prems(1), of v n]
  have r: "nv_room h v" using Cons.prems(2) [of n v] by (simp add: p)
  have "\<And>n' v'. (n', v') \<in> set ps \<Longrightarrow> nv_room (set_missing n v h) v'" using h1 [OF r] Cons.prems(2) by auto
  from Cons.IH [OF _ this] h1 [OF r] show ?case by (auto simp: p fun_eq_iff map_add_def split: option.splits)
qed simp

text \<open>The mapped file and the frame of the handle are the same after any operation on the table.\<close>

definition same_frame :: "nvram_handle \<Rightarrow> nvram_handle \<Rightarrow> bool" where
  "same_frame h h' \<longleftrightarrow> h_mmap h' = h_mmap h \<and> h_length h' = h_length h \<and> h_offset h' = h_offset h \<and> h_be h' = h_be h \<and>
     h_schar h' = h_schar h \<and> h_high h' = h_high h"

lemma same_frame_refl [simp]: "same_frame h h"
  and same_frame_trans: "same_frame h h' \<Longrightarrow> same_frame h' h'' \<Longrightarrow> same_frame h h''"
  and same_frame_free [simp]: "same_frame h (nvram_free h)"
  by (auto simp: same_frame_def nvram_free_def)

lemma same_frame_alloc: "alloc h = (ok, h') \<Longrightarrow> same_frame h h'"
  by (auto simp: alloc_def same_frame_def split: list.splits)

lemma same_frame_hash: "same_frame h h' \<Longrightarrow> same_frame h (h'\<lparr>h_hash := x\<rparr>)"
  by (auto simp: same_frame_def)

lemma same_frame_realloc: "nvram_realloc h t n v = (u, t', h') \<Longrightarrow> same_frame h h'"
  by (auto simp: nvram_realloc_def split: if_splits option.splits prod.splits intro: same_frame_trans dest!: same_frame_alloc)

lemma same_frame_set: "same_frame h (snd (nvram_set h n v))"
  by (auto simp: nvram_set_def Let_def split: option.splits prod.splits dest!: same_frame_realloc intro: same_frame_hash)

lemma same_frame_unset: "same_frame h (snd (nvram_unset h n))"
  by (auto simp: nvram_unset_def Let_def same_frame_def split: option.splits)

lemma same_frame_foldl:
  assumes "\<And>h p. same_frame h (f h p)"
  shows "same_frame h (foldl f h ps)"
  by (induction ps arbitrary: h) (auto intro: same_frame_trans assms)

text \<open>Each round of the loop sets one variable, with a name and a value that are C strings.\<close>

lemma name_before_end:
  assumes "x \<in> set (takeWhile (\<lambda>b. b \<noteq> z) bs)"
  shows "z \<notin> set (takeWhile (\<lambda>b. b \<noteq> x) bs)"
proof
  assume z: "z \<in> set (takeWhile (\<lambda>b. b \<noteq> x) bs)"
  have "x \<in> set bs" using assms set_takeWhileD by fast
  then obtain ys zs where bs: "bs = ys @ x # zs" "x \<notin> set ys" by (meson split_list_first)
  then have "takeWhile (\<lambda>b. b \<noteq> x) bs = ys" by (simp add: takeWhile_stop)
  then have "takeWhile (\<lambda>b. b \<noteq> z) bs = takeWhile (\<lambda>b. b \<noteq> z) ys"
    using z unfolding bs(1) by (intro takeWhile_append1) auto
  then have "x \<in> set ys" using assms set_takeWhileD by fastforce
  then show False using bs(2) by blast
qed

lemma rehash_loop_step:
  assumes "rehash_loop h bs = Some h'"
  shows "h' = h \<or> (\<exists>n v r. length r < length bs \<and> pair_ok (n, v) \<and> rehash_loop (snd (nvram_set h n v)) r = Some h')"
proof (cases bs)
  case Nil
  then show ?thesis using assms by (simp add: rehash_loop.simps)
next
  case (Cons b r)
  define n where "n = takeWhile (\<lambda>b. b \<noteq> 0x3d) bs"
  define rest where "rest = drop (length n + 1) bs"
  show ?thesis
  proof (cases "b = 0 \<or> 0x3d \<notin> set (c_string bs)")
    case True
    then show ?thesis using assms Cons by (subst (asm) rehash_loop.simps) (auto split: if_splits)
  next
    case False
    have "rehash_loop h bs = (if 0 \<notin> set rest then None
      else rehash_loop (snd (nvram_set h n (c_string rest))) (drop (length (c_string rest) + 1) rest))"
      using False by (subst rehash_loop.simps) (simp add: Cons, simp add: n_def rest_def Cons Let_def)
    moreover have "pair_ok (n, c_string rest)"
      using False name_before_end [of "0x3d" 0 bs] by (auto simp: pair_ok_def n_def c_string_def dest!: set_takeWhileD)
    moreover have "length (drop (length (c_string rest) + 1) rest) < length bs" by (simp add: rest_def Cons)
    ultimately show ?thesis using assms by (metis option.distinct(1))
  qed
qed

lemma rehash_loop_invariant:
  assumes "rehash_loop h bs = Some h'" and "P h" and "\<And>h n v. P h \<Longrightarrow> pair_ok (n, v) \<Longrightarrow> P (snd (nvram_set h n v))"
  shows "P h'"
  using assms(1,2)
proof (induction bs arbitrary: h rule: length_induct)
  case (1 bs)
  from rehash_loop_step [OF "1.prems"(1)] show ?case using 1 assms(3) by blast
qed

lemma same_frame_rehash_loop: "rehash_loop h bs = Some h' \<Longrightarrow> same_frame h h'"
  by (rule rehash_loop_invariant) (auto intro: same_frame_trans same_frame_set)

lemma same_frame_missing: "same_frame h (foldl (\<lambda>h (n, v). set_missing n v h) h ps)"
  by (rule same_frame_foldl) (auto simp: set_missing_def same_frame_set)

lemma same_frame_rehash: "nvram_rehash h = Some h' \<Longrightarrow> same_frame h h'"
  by (auto simp: nvram_rehash_def split: option.splits
    intro: same_frame_trans [OF same_frame_trans [OF same_frame_free same_frame_rehash_loop] same_frame_missing])

section \<open>The header\<close>

lemma length_native32 [simp]: "length (native32 be n) = 4"
  by (simp add: native32_def)

lemma native32_at_append: "n < 4294967296 \<Longrightarrow> length A = a \<Longrightarrow> native32_at be (A @ native32 be n @ B) a = n"
  by (auto simp: native32_at_def native32_def le32_at_def be32_at_def field_def be_val_def)

definition header_fits :: "nvram_header \<Rightarrow> bool" where
  "header_fits hdr \<longleftrightarrow> hd_magic hdr < 4294967296 \<and> hd_len hdr < 4294967296 \<and> hd_crc_ver_init hdr < 4294967296 \<and>
     hd_config_refresh hdr < 4294967296 \<and> hd_config_ncdl hdr < 4294967296"

lemma header_at_append:
  assumes "header_fits hdr" and "length A = a"
  shows "header_at be (A @ header_words be hdr @ B) a = hdr"
proof -
  let ?w = "native32 be"
  have "native32_at be (A @ header_words be hdr @ B) a = hd_magic hdr"
    using native32_at_append [of "hd_magic hdr" A a be] assms by (simp add: header_words_def header_fits_def)
  moreover have "native32_at be (A @ header_words be hdr @ B) (a + 4) = hd_len hdr"
    using native32_at_append [of "hd_len hdr" "A @ ?w (hd_magic hdr)" "a + 4" be] assms by (simp add: header_words_def header_fits_def)
  moreover have "native32_at be (A @ header_words be hdr @ B) (a + 8) = hd_crc_ver_init hdr"
    using native32_at_append [of "hd_crc_ver_init hdr" "A @ ?w (hd_magic hdr) @ ?w (hd_len hdr)" "a + 8" be] assms
    by (simp add: header_words_def header_fits_def)
  moreover have "native32_at be (A @ header_words be hdr @ B) (a + 12) = hd_config_refresh hdr"
    using native32_at_append [of "hd_config_refresh hdr" "A @ ?w (hd_magic hdr) @ ?w (hd_len hdr) @ ?w (hd_crc_ver_init hdr)" "a + 12" be] assms
    by (simp add: header_words_def header_fits_def)
  moreover have "native32_at be (A @ header_words be hdr @ B) (a + 16) = hd_config_ncdl hdr"
    using native32_at_append [of "hd_config_ncdl hdr" "A @ ?w (hd_magic hdr) @ ?w (hd_len hdr) @ ?w (hd_crc_ver_init hdr) @ ?w (hd_config_refresh hdr)"
      "a + 16" be] assms by (simp add: header_words_def header_fits_def)
  ultimately show ?thesis by (simp add: header_at_def)
qed

lemma pairs_text_length: "(n, v) \<in> set ps \<Longrightarrow> length v + 2 \<le> length (pairs_text ps)"
  by (induction ps) auto

lemma hex_str_length [simp]: "length (hex_str w n) = w + 2"
  by (simp add: hex_str_def)

lemma sdram_vars_length: "(n, v) \<in> set (sdram_vars hdr) \<Longrightarrow> length v \<le> 10"
  by (auto simp: sdram_vars_def)

definition nv_image :: "nvram_handle \<Rightarrow> nvram_header \<Rightarrow> (byte list \<times> byte list) list \<Rightarrow> bool" where
  "nv_image h hdr ps \<longleftrightarrow> header_fits hdr \<and> list_all pair_ok ps \<and> h_length h < 4294967296 \<and> length (h_mmap h) = h_length h \<and>
     (\<exists>A r. length A = h_offset h \<and> h_mmap h = A @ header_words (h_be h) hdr @ pairs_text ps @ 0 # r)"

lemma nv_image_header: "nv_image h hdr ps \<Longrightarrow> get_header h = hdr"
  by (auto simp: nv_image_def get_header_def header_at_append)

lemma nvram_rehash_image:
  assumes "nv_image h hdr ps" and "h_alloc h = []"
  shows "\<exists>h'. nvram_rehash h = Some h' \<and> nv_inv h' \<and> same_frame h h' \<and> h_alloc h' = [] \<and>
    nvram_get h' = map_of (sdram_vars hdr) ++ map_of (rev ps)"
proof -
  from assms(1) obtain A r where A: "length A = h_offset h" and m: "h_mmap h = A @ header_words (h_be h) hdr @ pairs_text ps @ 0 # r"
    and ok: "list_all pair_ok ps" and l: "length (h_mmap h) = h_length h" "h_length h < 4294967296" by (auto simp: nv_image_def)
  have len: "h_length h = h_offset h + 21 + length (pairs_text ps) + length r" using l(1) A by (simp add: m)
  then have sub: "sub32 (h_length h) (h_offset h) = 21 + length (pairs_text ps) + length r" using l(2) by simp
  have room: "nv_room h v" if "length v \<le> 10 \<or> (\<exists>n. (n, v) \<in> set ps)" for v
    using that pairs_text_length [of _ v ps] assms(2) sub by (fastforce simp: nv_room_def)
  let ?h1 = "foldl (\<lambda>h (n, v). snd (nvram_set h n v)) (nvram_free h) ps"
  have "nv_inv ?h1 \<and> nvram_get ?h1 = nvram_get (nvram_free h) ++ map_of (rev ps) \<and> nv_room ?h1 = nv_room (nvram_free h)"
    by (rule nv.puts) (auto intro: room)
  then have h1: "nv_inv ?h1" "nvram_get ?h1 = map_of (rev ps)" "nv_room ?h1 = nv_room h" by simp_all
  let ?h2 = "foldl (\<lambda>h (n, v). set_missing n v h) ?h1 (sdram_vars hdr)"
  have h2: "nv_inv ?h2 \<and> nvram_get ?h2 = map_of (sdram_vars hdr) ++ nvram_get ?h1 \<and> nv_room ?h2 = nv_room ?h1"
    by (rule set_missings [OF h1(1)]) (simp add: h1(3) room sdram_vars_length)
  have "drop (h_offset h + 20) (h_mmap h) = pairs_text ps @ 0 # r" using A by (simp add: m)
  then have "nvram_rehash h = Some ?h2"
    by (simp add: nvram_rehash_def rehash_loop_pairs [OF ok] nv_image_header [OF assms(1)])
  moreover have "nv_room ?h2 []" using h2 h1(3) room [of "[]"] by simp
  then have "h_alloc ?h2 = []" by (simp add: nv_room_def)
  ultimately show ?thesis using h1 h2 same_frame_rehash [of h ?h2] by metis
qed

section \<open>Committing keeps the variables\<close>

lemma strtoul_less: "strtoul s < 4294967296"
  by (simp add: strtoul_def Let_def u32_def)

text \<open>Version 1 and no checksum yet; the parameters of the memory controller fit into their fields.\<close>

lemma commit_header_form:
  obtains i c r n where "i < 65536" and "c < 65536" and "r < 65536" and "n < 4294967296"
    and "commit_header h = \<lparr>hd_magic = 0x48534C46, hd_len = hd_len (get_header h), hd_crc_ver_init = 256 + 65536 * i,
      hd_config_refresh = c + 65536 * r, hd_config_ncdl = n\<rparr>"
proof -
  note r = that
  show ?thesis
  proof (cases "nvram_get h (bytes_of ''sdram_init'') = None \<or> nvram_get h (bytes_of ''sdram_config'') = None \<or>
      nvram_get h (bytes_of ''sdram_refresh'') = None \<or> nvram_get h (bytes_of ''sdram_ncdl'') = None")
    case True
    then show ?thesis by (intro r [of "0x419" 0 "0x8040" 0]) (auto simp: commit_header_def split: option.splits)
  next
    case False
    then obtain i c f n where "nvram_get h (bytes_of ''sdram_init'') = Some i" "nvram_get h (bytes_of ''sdram_config'') = Some c"
      "nvram_get h (bytes_of ''sdram_refresh'') = Some f" "nvram_get h (bytes_of ''sdram_ncdl'') = Some n" by auto
    then show ?thesis
      by (intro r [of "strtoul i mod 65536" "strtoul c mod 65536" "strtoul f mod 65536" "u32 (strtoul n)"]) (simp_all add: commit_header_def)
  qed
qed

lemma round_up_4: "round_up n 4 < n + 4" "n \<le> round_up n 4"
  unfolding round_up_def by presburger+

lemma committed_header_fits:
  assumes "22 + length (commit_text h) < 4294967293"
  shows "header_fits (committed_header h data)" and "hd_magic (committed_header h data) = 0x48534C46"
    and "hd_len (committed_header h data) = round_up (22 + length (commit_text h)) 4"
proof -
  obtain i c r n where f: "i < 65536" "c < 65536" "r < 65536" "n < 4294967296"
    and h: "commit_header h = \<lparr>hd_magic = 0x48534C46, hd_len = hd_len (get_header h), hd_crc_ver_init = 256 + 65536 * i,
      hd_config_refresh = c + 65536 * r, hd_config_ncdl = n\<rparr>" by (rule commit_header_form)
  have u: "unat b < 256" for b :: byte using unsigned_less [of b, where 'a = nat] by simp
  have "256 + 65536 * i + unat b < 4294967296" for b :: byte using f(1) u [of b] by linarith
  moreover have "c + 65536 * r < 4294967296" using f by linarith
  ultimately show "header_fits (committed_header h data)" "hd_magic (committed_header h data) = 0x48534C46"
    "hd_len (committed_header h data) = round_up (22 + length (commit_text h)) 4"
    using f round_up_4(1) [of "22 + length (commit_text h)"] assms by (simp_all add: committed_header_def Let_def h header_fits_def)
qed

lemma nvram_commit_image:
  assumes "nv_inv h" and "fits h" and "h_alloc h = []" and "h_length h < 4294967293" and "list_all pair_ok (nv_pairs (concat (h_hash h)))"
  obtains h1 h' hdr where "nvram_commit h = Some h'" and "nv_inv h'" and "same_frame h1 h'" and "h_alloc h' = []"
    and "nv_image h1 hdr (nv_pairs (concat (h_hash h)))" and "h_length h1 = h_length h \<and> h_offset h1 = h_offset h \<and> h_be h1 = h_be h"
    and "take (h_offset h) (h_mmap h1) = take (h_offset h) (h_mmap h)"
    and "hd_magic hdr = 0x48534C46" and "hd_len hdr = round_up (22 + length (commit_text h)) 4"
    and "nvram_get h' = map_of (sdram_vars hdr) ++ nvram_get h"
proof -
  from nvram_commit_layout [OF assms(2,1)] obtain r where
    c: "nvram_commit h = nvram_rehash (h\<lparr>h_mmap := take (h_offset h) (h_mmap h) @
       header_words (h_be h) (committed_header h (commit_text h @ 0 # r)) @ commit_text h @ 0 # r\<rparr>)"
    and l: "h_offset h + 21 + length (commit_text h) + length r = h_length h" .
  let ?hdr = "committed_header h (commit_text h @ 0 # r)" and ?ps = "nv_pairs (concat (h_hash h))"
  define h1 where "h1 = h\<lparr>h_mmap := take (h_offset h) (h_mmap h) @ header_words (h_be h) ?hdr @ commit_text h @ 0 # r\<rparr>"
  have o: "h_offset h + 22 + length (commit_text h) \<le> h_length h" "length (h_mmap h) = h_length h" using assms(2) by (simp_all add: fits_def)
  then have hdr: "header_fits ?hdr" "hd_magic ?hdr = 0x48534C46" "hd_len ?hdr = round_up (22 + length (commit_text h)) 4"
    using assms(4) by (auto intro!: committed_header_fits)
  have A: "length (take (h_offset h) (h_mmap h)) = h_offset h" using o by simp
  have img: "nv_image h1 ?hdr ?ps"
    unfolding nv_image_def using hdr(1) assms(4,5) o l A
    by (intro conjI exI [of _ "take (h_offset h) (h_mmap h)"] exI [of _ r]) (simp_all add: h1_def commit_text_def [symmetric])
  have d: "distinct (map fst ?ps)" using table_tuples(1) [OF assms(1)] by (simp add: nv_pairs_def comp_def)
  have "h_alloc h1 = []" using assms(3) by (simp add: h1_def)
  from nvram_rehash_image [OF img this] obtain h' where h': "nvram_rehash h1 = Some h'" "nv_inv h'" "same_frame h1 h'" "h_alloc h' = []"
    "nvram_get h' = map_of (sdram_vars ?hdr) ++ map_of (rev ?ps)" by blast
  show ?thesis
    by (rule that [OF _ h'(2-4) img]) (use h' c hdr A in \<open>simp_all add: h1_def map_of_rev_distinct [OF d] table_tuples(2) [OF assms(1)]\<close>)
qed

section \<open>Opening\<close>

text \<open>What holds of every handle: the table is in order and its variables are C strings.\<close>

definition nv_good :: "nvram_handle \<Rightarrow> bool" where
  "nv_good h \<longleftrightarrow> nv_inv h \<and> h_alloc h = [] \<and> (\<forall>n v. nvram_get h n = Some v \<longrightarrow> pair_ok (n, v))"

lemma nv_good_pairs: "nv_good h \<Longrightarrow> list_all pair_ok (nv_pairs (concat (h_hash h)))"
proof -
  assume h: "nv_good h"
  let ?ps = "nv_pairs (concat (h_hash h))"
  have "distinct (map fst ?ps)" "map_of ?ps = nvram_get h" using h table_tuples [of h] by (simp_all add: nv_good_def nv_pairs_def comp_def)
  then have "nvram_get h n = Some v" if "(n, v) \<in> set ?ps" for n v using that map_of_is_SomeI by metis
  then show ?thesis using h by (auto simp: list_all_iff nv_good_def)
qed

lemma nv_good_set: "nv_good h \<Longrightarrow> pair_ok (n, v) \<Longrightarrow> nv_good (snd (nvram_set h n v))"
proof (cases "nv_room h v")
  case True
  assume "nv_good h" "pair_ok (n, v)"
  moreover have "h_alloc (snd (nvram_set h n v)) = h_alloc h" using True by (simp add: nvram_set_room)
  ultimately show ?thesis using nv.put [of h v n] True by (auto simp: nv_good_def)
next
  case False
  assume "nv_good h"
  then show ?thesis using False nvram_set_too_long [of h v n] by (auto simp: nv_good_def nv_room_def)
qed

lemma nv_good_unset: "nv_good h \<Longrightarrow> nv_good (snd (nvram_unset h n))"
  using nv.del [of h n] by (auto simp: nv_good_def nvram_unset_def Let_def split: option.splits)

lemma hex_digit_nonzero: "d < 16 \<Longrightarrow> hex_digit d \<noteq> 0"
  by (auto simp: hex_digit_def word_unat_eq_iff unat_of_nat simp del: of_nat_add)

lemma hex_str_ok: "0 \<notin> set (hex_str w n)"
proof
  assume "0 \<in> set (hex_str w n)"
  then have "\<exists>i. hex_digit (n div 16 ^ i mod 16) = 0" by (auto simp: hex_str_def)
  then show False using hex_digit_nonzero by fastforce
qed

lemma sdram_vars_ok: "(n, v) \<in> set (sdram_vars hdr) \<Longrightarrow> pair_ok (n, v)"
  by (auto simp: sdram_vars_def pair_ok_def hex_str_ok bytes_of_def)

lemma nv_good_missing:
  assumes "nv_good h" and "\<And>n v. (n, v) \<in> set ps \<Longrightarrow> pair_ok (n, v)"
  shows "nv_good (foldl (\<lambda>h (n, v). set_missing n v h) h ps)"
  using assms by (induction ps arbitrary: h) (auto simp: set_missing_def nv_good_set)

lemma nvram_rehash_good:
  assumes "nvram_rehash h = Some h'" and "h_alloc h = []"
  shows "nv_good h'"
proof -
  have "nv_good (nvram_free h)" using assms(2) by (simp add: nv_good_def) (simp add: nvram_free_def)
  then have "nv_good h1" if "rehash_loop (nvram_free h) bs = Some h1" for h1 bs
    using that by (rule_tac rehash_loop_invariant) (auto intro: nv_good_set)
  then show ?thesis using assms(1)
    by (auto simp: nvram_rehash_def split: option.splits intro!: nv_good_missing sdram_vars_ok)
qed

text \<open>The search reads nothing behind the header it finds.\<close>

lemma native32_at_take: "off + 4 \<le> n \<Longrightarrow> native32_at be (take n mem) off = native32_at be mem off"
  by (simp add: native32_at_def le32_at_def be32_at_def field_def drop_take min_def)

lemma find_magic_bounds:
  "find_magic be mem n i = Some (Some off) \<Longrightarrow> native32_at be mem off = 0x48534C46 \<and> off + 4 \<le> length mem \<and> off mod 4 = 0 \<and> i * 4 \<le> off \<and> off \<le> n * 4"
proof (induction be mem n i rule: find_magic.induct)
  case (1 be mem n i)
  from 1(2) show ?case
    by (subst (asm) find_magic.simps) (use 1(1) in \<open>auto split: if_splits\<close>)
qed

lemma find_magic_same:
  assumes "find_magic be mem n i = Some (Some off)" and "take off mem' = take off mem" and "length mem' = length mem"
    and "native32_at be mem' off = 0x48534C46"
  shows "find_magic be mem' n i = Some (Some off)"
  using assms
proof (induction be mem n i rule: find_magic.induct)
  case (1 be mem n i)
  show ?case
  proof (cases "i * 4 = off")
    case True
    then show ?thesis using find_magic_bounds [OF 1(2)] 1(3-) by (subst find_magic.simps) auto
  next
    case False
    with find_magic_bounds [OF 1(2)] have "i * 4 + 4 \<le> off" by presburger
    then have w: "native32_at be mem' (i * 4) = native32_at be mem (i * 4)"
      using native32_at_take [of "i * 4" off be mem] native32_at_take [of "i * 4" off be mem'] 1(3) by simp
    from 1(2) show ?thesis
      by (subst find_magic.simps, subst (asm) find_magic.simps) (use 1 False w in \<open>auto split: if_splits\<close>)
  qed
qed

definition opened :: "nvram_handle \<Rightarrow> byte list \<Rightarrow> nat \<Rightarrow> nvram_handle" where
  "opened m mem off = m\<lparr>h_mmap := mem, h_length := length mem, h_offset := off, h_hash := replicate 257 [], h_dead := []\<rparr>"

lemma nvram_open_eq:
  assumes "h_alloc m = []"
  shows "nvram_open m mem rdonly = Some (Some h) \<longleftrightarrow>
    (\<exists>off. find_magic (h_be m) mem (sub32 (length mem) 0x8000 div 4) 0 = Some (Some off) \<and>
       (rdonly \<or> hd_len (get_header (opened m mem off)) < sub32 (length mem) off) \<and> nvram_rehash (opened m mem off) = Some h)"
proof -
  have "hd_magic (get_header (opened m mem off)) = 0x48534C46"
    if "find_magic (h_be m) mem (sub32 (length mem) 0x8000 div 4) 0 = Some (Some off)" for off
    using find_magic_bounds [OF that] by (simp add: opened_def get_header_def header_at_def)
  then show ?thesis using assms
    by (auto simp: nvram_open_def Let_def opened_def split: option.splits)
qed

section \<open>Properties of the store\<close>

text \<open>The size of the text depends on the variables only, not on their places in the table.\<close>

lemma pairs_text_size: "length (pairs_text ps) = sum_list (map (\<lambda>(n, v). length n + length v + 2) ps)"
  by (induction ps) auto

lemma commit_text_size:
  assumes "nv_inv h"
  shows "length (commit_text h) = (\<Sum>(n, v)\<in>Map.graph (nvram_get h). length n + length v + 2)"
proof -
  let ?ps = "nv_pairs (concat (h_hash h))"
  have d: "distinct (map fst ?ps)" using table_tuples(1) [OF assms] by (simp add: nv_pairs_def comp_def)
  have "length (commit_text h) = (\<Sum>(n, v)\<in>set ?ps. length n + length v + 2)"
    unfolding commit_text_def pairs_text_size using d by (intro sum_list_distinct_conv_sum_set) (simp add: distinct_map)
  then show ?thesis using graph_map_of_if_distinct_dom [OF d] table_tuples(2) [OF assms] by simp
qed

text \<open>Setting (\<^const>\<open>Some\<close>) or deleting (\<^const>\<open>None\<close>) a variable.\<close>

definition nv_op :: "nvram_handle \<Rightarrow> byte list \<times> byte list option \<Rightarrow> nvram_handle" where
  "nv_op h = (\<lambda>(n, x). case x of None \<Rightarrow> snd (nvram_unset h n) | Some v \<Rightarrow> snd (nvram_set h n v))"

definition op_ok :: "nat \<Rightarrow> byte list \<times> byte list option \<Rightarrow> bool" where
  "op_ok sz = (\<lambda>(n, x). case x of None \<Rightarrow> True | Some v \<Rightarrow> pair_ok (n, v) \<and> length v < sz)"

lemma nv_op_law:
  assumes "nv_good h" and "op_ok (sub32 (h_length h) (h_offset h)) p"
  shows "nv_good (nv_op h p) \<and> same_frame h (nv_op h p) \<and> nvram_get (nv_op h p) = (nvram_get h)(fst p := snd p)"
proof (cases "snd p")
  case None
  then have "nv_op h p = snd (nvram_unset h (fst p))" by (cases p) (simp add: nv_op_def)
  then show ?thesis using assms(1) nv.del [of h "fst p"] None by (simp add: nv_good_unset same_frame_unset) (simp add: nv_good_def)
next
  case (Some v)
  then have "nv_op h p = snd (nvram_set h (fst p) v)" by (cases p) (simp add: nv_op_def)
  moreover have "pair_ok (fst p, v)" "nv_room h v" using Some assms by (auto simp: op_ok_def nv_room_def nv_good_def split: prod.splits)
  ultimately show ?thesis using assms(1) nv.put [of h v "fst p"] Some by (simp add: nv_good_set same_frame_set) (simp add: nv_good_def)
qed

lemma nv_ops_law:
  assumes "nv_good h" and "list_all (op_ok (sub32 (h_length h) (h_offset h))) ops"
  shows "nv_good (foldl nv_op h ops) \<and> same_frame h (foldl nv_op h ops) \<and>
    nvram_get (foldl nv_op h ops) = foldl (\<lambda>g p. g(fst p := snd p)) (nvram_get h) ops"
  using assms
proof (induction ops arbitrary: h)
  case (Cons p ops)
  note l = nv_op_law [OF Cons.prems(1), of p]
  moreover have "h_length (nv_op h p) = h_length h" "h_offset (nv_op h p) = h_offset h" using l Cons.prems by (auto simp: same_frame_def)
  ultimately show ?case using Cons.IH [of "nv_op h p"] Cons.prems by (auto intro: same_frame_trans)
qed simp

lemma nvram_open_frame:
  assumes "nvram_open m mem rdonly = Some (Some h)" and "h_alloc m = []"
  shows "nv_good h \<and> same_frame (opened m mem (h_offset h)) h \<and>
    find_magic (h_be m) mem (sub32 (length mem) 0x8000 div 4) 0 = Some (Some (h_offset h))"
proof -
  from assms(1) obtain off where o: "find_magic (h_be m) mem (sub32 (length mem) 0x8000 div 4) 0 = Some (Some off)"
    "nvram_rehash (opened m mem off) = Some h" unfolding nvram_open_eq [OF assms(2)] by blast
  moreover have "h_alloc (opened m mem off) = []" using assms(2) by (simp add: opened_def)
  ultimately have "nv_good h" "same_frame (opened m mem off) h" using nvram_rehash_good same_frame_rehash by blast+
  then show ?thesis using o by (auto simp: same_frame_def opened_def)
qed

text \<open>An image that keeps what is in front of the header is found at the same place.\<close>

lemma nvram_open_image:
  assumes "find_magic (h_be m) mem (sub32 (length mem) 0x8000 div 4) 0 = Some (Some off)" and "h_alloc m = []"
    and "nv_image (opened m mem' off) hdr ps" and "hd_magic hdr = 0x48534C46" and "length mem' = length mem" and "take off mem' = take off mem"
    and "rdonly \<or> hd_len hdr < sub32 (length mem) off"
  obtains h where "nvram_open m mem' rdonly = Some (Some h)" and "get_header h = hdr" and "h_offset h = off"
    and "nvram_get h = map_of (sdram_vars hdr) ++ map_of (rev ps)"
proof -
  let ?m = "opened m mem' off"
  have "native32_at (h_be m) mem' off = hd_magic hdr"
    using nv_image_header [OF assms(3)] by (auto simp: get_header_def header_at_def opened_def)
  then have "find_magic (h_be m) mem' (sub32 (length mem') 0x8000 div 4) 0 = Some (Some off)"
    using find_magic_same [OF assms(1,6,5)] assms(4,5) by simp
  moreover obtain h where h: "nvram_rehash ?m = Some h" "same_frame ?m h" "nvram_get h = map_of (sdram_vars hdr) ++ map_of (rev ps)"
    using nvram_rehash_image [OF assms(3)] assms(2) by (auto simp: opened_def)
  ultimately have "nvram_open m mem' rdonly = Some (Some h)"
    using nvram_open_eq [OF assms(2)] assms(5,7) nv_image_header [OF assms(3)] by auto
  moreover have "get_header h = hdr" using nv_image_header [OF assms(3)] h(2) by (simp add: get_header_def same_frame_def)
  moreover have "h_offset h = off" using h(2) by (simp add: same_frame_def opened_def)
  ultimately show ?thesis using that h(3) by blast
qed

text \<open>A session: an area is opened, variables are set and deleted, and the result is committed.\<close>

lemma nvram_session:
  assumes "nvram_open m mem rdonly = Some (Some h)" and "h_alloc m = []" and "length mem < 4294967293"
    and "list_all (op_ok (length mem - h_offset h)) ops"
    and "h_offset h + 22 + length (commit_text (foldl nv_op h ops)) \<le> length mem"
  obtains h1 hdr ps where "nvram_commit (foldl nv_op h ops) = Some h1" and "nv_image (opened m (h_mmap h1) (h_offset h)) hdr ps"
    and "take (h_offset h) (h_mmap h1) = take (h_offset h) mem" and "length (h_mmap h1) = length mem" and "h_alloc h1 = []"
    and "hd_magic hdr = 0x48534C46" and "hd_len hdr = round_up (22 + length (commit_text (foldl nv_op h ops))) 4"
    and "nvram_get h1 = map_of (sdram_vars hdr) ++ map_of (rev ps)"
    and "map_of (rev ps) = foldl (\<lambda>g p. g(fst p := snd p)) (nvram_get h) ops"
proof -
  let ?h = "foldl nv_op h ops" and ?ps = "nv_pairs (concat (h_hash (foldl nv_op h ops)))"
  note o = nvram_open_frame [OF assms(1,2)]
  have f: "h_mmap h = mem" "h_length h = length mem" "h_be h = h_be m" using o by (auto simp: same_frame_def opened_def)
  have "sub32 (h_length h) (h_offset h) = length mem - h_offset h" using f assms(3,5) by simp
  then have s: "nv_good ?h" "same_frame h ?h" "nvram_get ?h = foldl (\<lambda>g p. g(fst p := snd p)) (nvram_get h) ops"
    using nv_ops_law [of h ops] o assms(4) by auto
  have g: "nv_inv ?h" "h_alloc ?h = []" using s(1) by (simp_all add: nv_good_def)
  have l: "h_length ?h = length mem" "h_offset ?h = h_offset h" "h_mmap ?h = mem" "h_be ?h = h_be m" using s(2) f by (auto simp: same_frame_def)
  have lt: "h_length ?h < 4294967293" and "fits ?h" using assms(3,5) l by (simp_all add: fits_def)
  from nvram_commit_image [OF g(1) this(2) g(2) lt nv_good_pairs [OF s(1)]] obtain h1 h1' hdr where
    c: "nvram_commit ?h = Some h1" "same_frame h1' h1" "nv_image h1' hdr ?ps"
      "h_length h1' = h_length ?h \<and> h_offset h1' = h_offset ?h \<and> h_be h1' = h_be ?h"
      "take (h_offset ?h) (h_mmap h1') = take (h_offset ?h) (h_mmap ?h)" "hd_magic hdr = 0x48534C46"
      "nvram_get h1 = map_of (sdram_vars hdr) ++ nvram_get ?h" "hd_len hdr = round_up (22 + length (commit_text ?h)) 4" "h_alloc h1 = []" by blast
  have fr: "h_mmap h1' = h_mmap h1" "length (h_mmap h1) = length mem" using c(2,3,4) l by (simp_all add: same_frame_def nv_image_def)
  have img: "nv_image (opened m (h_mmap h1) (h_offset h)) hdr ?ps" using c(3,4) l fr unfolding nv_image_def opened_def by simp
  have ps: "map_of (rev ?ps) = nvram_get ?h" using table_tuples [OF g(1)] by (simp add: map_of_rev_distinct nv_pairs_def comp_def)
  show ?thesis by (rule that [OF c(1) img]) (use c(5-) l fr ps s(3) in simp_all)
qed

text \<open>
  C25. Committing writes what a later start reads: after any sets and deletes on an opened area that
  fit into it, the commit succeeds, the area can be opened again, for reading or with space left for
  writing, and the variables are those of the session, where a missing parameter of the memory controller is taken from the header.
  What is in front of the header is not touched.
\<close>

theorem nvram_store_roundtrip:
  assumes "nvram_open m mem rdonly = Some (Some h)" and "h_alloc m = []" and "length mem < 4294967293"
    and "list_all (op_ok (length mem - h_offset h)) ops"
    and "h_offset h + 22 + length (commit_text (foldl nv_op h ops)) \<le> length mem"
    and "rdonly' \<or> round_up (22 + length (commit_text (foldl nv_op h ops))) 4 < length mem - h_offset h"
  shows "\<exists>h1 h2. nvram_commit (foldl nv_op h ops) = Some h1 \<and> nvram_open m (h_mmap h1) rdonly' = Some (Some h2) \<and>
    nvram_get h1 = nvram_get h2 \<and> take (h_offset h) (h_mmap h1) = take (h_offset h) mem \<and>
    nvram_get h2 = map_of (sdram_vars (get_header h2)) ++ foldl (\<lambda>g p. g(fst p := snd p)) (nvram_get h) ops"
proof -
  note o = nvram_open_frame [OF assms(1,2)]
  obtain h1 hdr ps where c: "nvram_commit (foldl nv_op h ops) = Some h1" "nv_image (opened m (h_mmap h1) (h_offset h)) hdr ps"
    "take (h_offset h) (h_mmap h1) = take (h_offset h) mem" "length (h_mmap h1) = length mem" "hd_magic hdr = 0x48534C46"
    "hd_len hdr = round_up (22 + length (commit_text (foldl nv_op h ops))) 4"
    "nvram_get h1 = map_of (sdram_vars hdr) ++ map_of (rev ps)" "map_of (rev ps) = foldl (\<lambda>g p. g(fst p := snd p)) (nvram_get h) ops"
    by (rule nvram_session [OF assms(1-5)])
  have "rdonly' \<or> hd_len hdr < sub32 (length mem) (h_offset h)" using assms(3,5,6) c(6) by simp
  with nvram_open_image [OF _ assms(2) c(2,5,4,3)] o obtain h2 where "nvram_open m (h_mmap h1) rdonly' = Some (Some h2)"
    "get_header h2 = hdr" "nvram_get h2 = map_of (sdram_vars hdr) ++ map_of (rev ps)" by blast
  then show ?thesis using c by auto
qed

text \<open>
  An area that is filled up to its last word can be committed but is refused by the next start that
  wants to write: the length in the header is then the size of the area.
\<close>

lemma nvram_full_area_locked:
  assumes "nvram_open m mem rdonly = Some (Some h)" and "h_alloc m = []" and "length mem < 4294967293"
    and "list_all (op_ok (length mem - h_offset h)) ops"
    and "h_offset h + 22 + length (commit_text (foldl nv_op h ops)) \<le> length mem"
    and "round_up (22 + length (commit_text (foldl nv_op h ops))) 4 \<ge> length mem - h_offset h"
  shows "\<exists>h1. nvram_commit (foldl nv_op h ops) = Some h1 \<and> nvram_open m (h_mmap h1) False = Some None"
proof -
  note o = nvram_open_frame [OF assms(1,2)]
  obtain h1 hdr ps where c: "nvram_commit (foldl nv_op h ops) = Some h1" "nv_image (opened m (h_mmap h1) (h_offset h)) hdr ps"
    "take (h_offset h) (h_mmap h1) = take (h_offset h) mem" "length (h_mmap h1) = length mem" "hd_magic hdr = 0x48534C46"
    "hd_len hdr = round_up (22 + length (commit_text (foldl nv_op h ops))) 4"
    by (rule nvram_session [OF assms(1-5)])
  let ?m = "opened m (h_mmap h1) (h_offset h)"
  have g: "get_header ?m = hdr" using nv_image_header [OF c(2)] .
  then have "native32_at (h_be m) (h_mmap h1) (h_offset h) = 0x48534C46"
    using c(5) by (auto simp: get_header_def header_at_def opened_def)
  then have "find_magic (h_be m) (h_mmap h1) (sub32 (length (h_mmap h1)) 0x8000 div 4) 0 = Some (Some (h_offset h))"
    using o find_magic_same [of "h_be m" mem _ 0 "h_offset h" "h_mmap h1"] c(3,4) by simp
  moreover have "\<not> hd_len (get_header ?m) < sub32 (length mem) (h_offset h)" using g c(6) assms(3,5,6) by simp
  ultimately have "nvram_open m (h_mmap h1) False = Some None" using assms(2) c(4) by (simp add: nvram_open_def opened_def Let_def)
  then show ?thesis using c(1) by blast
qed

definition ex_area :: "byte list" where
  "ex_area = le32 0x48534C46 @ le32 20 @ le32 0x04190100 @ le32 0x80400000 @ le32 0 @ replicate 0x7fec 0"

lemma find_magic_first: "length mem \<ge> 4 \<Longrightarrow> native32_at be mem 0 = 0x48534C46 \<Longrightarrow> find_magic be mem n 0 = Some (Some 0)"
  by (subst find_magic.simps) simp

lemma ex_area_open: "\<exists>h. nvram_open ex_handle ex_area False = Some (Some h) \<and> h_offset h = 0 \<and> nvram_get h = map_of (sdram_vars (get_header h))"
proof -
  let ?hdr = "\<lparr>hd_magic = 0x48534C46, hd_len = 20, hd_crc_ver_init = 0x04190100, hd_config_refresh = 0x80400000, hd_config_ncdl = 0\<rparr>"
  have z: "replicate 0x7fec 0 = 0 # replicate 0x7feb (0 :: byte)" by (simp flip: replicate_Suc)
  have a: "ex_area = header_words False ?hdr @ pairs_text [] @ 0 # replicate 0x7feb 0"
    unfolding ex_area_def z by (simp add: header_words_def native32_def)
  have l: "length ex_area = 32768" by (simp add: ex_area_def)
  have f: "header_fits ?hdr" by (simp add: header_fits_def)
  have m: "native32_at False ex_area 0 = 0x48534C46"
    using header_at_append [OF f, of "[]" 0 False] by (simp add: a header_at_def)
  have i: "nv_image (opened ex_handle ex_area 0) ?hdr []"
    using f l by (auto simp: nv_image_def opened_def ex_handle_def a)
  have "find_magic (h_be ex_handle) ex_area (sub32 (length ex_area) 0x8000 div 4) 0 = Some (Some 0)"
    using find_magic_first [of ex_area False] l m by (simp add: ex_handle_def)
  from nvram_open_image [OF this _ i, of False] obtain h where
    h: "nvram_open ex_handle ex_area False = Some (Some h)" "get_header h = ?hdr" "nvram_get h = map_of (sdram_vars ?hdr) ++ map_of (rev [])"
    by (auto simp: ex_handle_def l)
  moreover have "h_offset h = 0"
    using nvram_open_frame [OF h(1)] find_magic_first [of ex_area False] l m by (simp add: ex_handle_def)
  ultimately show ?thesis by auto
qed

theorem nvram_store_roundtrip_witness:
  "\<exists>h h1 h2. nvram_open ex_handle ex_area False = Some (Some h) \<and> nvram_commit (nv_op h ([0x61], Some [0x62])) = Some h1 \<and>
    nvram_open ex_handle (h_mmap h1) False = Some (Some h2) \<and> nvram_get h2 [0x61] = Some [0x62]"
proof -
  obtain h where h: "nvram_open ex_handle ex_area False = Some (Some h)" "h_offset h = 0" "nvram_get h = map_of (sdram_vars (get_header h))"
    using ex_area_open by blast
  let ?op = "([0x61], Some [0x62]) :: byte list \<times> byte list option" and ?ps = "([0x61], [0x62]) # sdram_vars (get_header h)"
  have l: "length ex_area = 32768" by (simp add: ex_area_def)
  have a: "h_alloc ex_handle = []" by (simp add: ex_handle_def)
  note o = nvram_open_frame [OF h(1) a]
  have f: "h_length h = 32768" using o l by (auto simp: same_frame_def opened_def)
  have p: "op_ok 32768 ?op" by (simp add: op_ok_def pair_ok_def)
  have n: "nv_good (nv_op h ?op)" "nvram_get (nv_op h ?op) = map_of ?ps" using nv_op_law [of h ?op] o f h p by auto
  have d: "distinct (map fst ?ps)" by (simp add: sdram_vars_def bytes_of_def)
  have "Map.graph (map_of ?ps) = set ?ps" using d by (rule graph_map_of_if_distinct_dom)
  moreover have "nv_inv (nv_op h ?op)" using n(1) by (simp add: nv_good_def)
  ultimately have "length (commit_text (nv_op h ?op)) = (\<Sum>(n, v)\<in>set ?ps. length n + length v + 2)"
    using commit_text_size [of "nv_op h ?op"] n(2) by simp
  also have "\<dots> = sum_list (map (\<lambda>(n, v). length n + length v + 2) ?ps)"
    using d distinct_map by (blast intro: sum_list_distinct_conv_sum_set [symmetric])
  also have "\<dots> = 85" by (simp add: sdram_vars_def bytes_of_def)
  finally have c: "length (commit_text (nv_op h ?op)) = 85" .
  have "round_up 107 4 = 108" by (simp add: round_up_def)
  with nvram_store_roundtrip [OF h(1) a, of "[?op]" False] c l p h obtain h1 h2 where
    "nvram_commit (nv_op h ?op) = Some h1" "nvram_open ex_handle (h_mmap h1) False = Some (Some h2)"
    "nvram_get h2 = map_of (sdram_vars (get_header h2)) ++ (nvram_get h)([0x61] \<mapsto> [0x62])" by auto
  then show ?thesis using h(1) by auto
qed

section \<open>The checksum of a committed area\<close>

definition info_crc :: "nvram_handle \<Rightarrow> byte" where
  "info_crc h = hndcrc8 (field (h_offset h + 9) (sub32 (hd_len (get_header h)) 9) (h_mmap h)) 0xff"

lemma le32_low: "x mod 256 = 0 \<Longrightarrow> c < 256 \<Longrightarrow> drop 1 (le32 (x + c)) = drop 1 (le32 x) \<and> take 1 (le32 (x + c)) = [of_nat c]"
proof -
  assume a: "x mod 256 = 0" "c < 256"
  then obtain y where y: "x = 256 * y" by auto
  have "(256 * y + c) div 256 = y" "(256 * y + c) mod 256 = c" using a by simp_all
  moreover have "(256 * y + c) div 65536 = y div 256" "(256 * y + c) div 16777216 = y div 65536"
    using div_mult2_eq [of "256 * y + c" 256 256] div_mult2_eq [of "256 * y + c" 256 65536] a by simp_all
  moreover have "(256 * y) div 65536 = y div 256" "(256 * y) div 16777216 = y div 65536"
    using div_mult2_eq [of "256 * y" 256 256] div_mult2_eq [of "256 * y" 256 65536] by simp_all
  ultimately show ?thesis by (simp add: le32_def y)
qed

lemma nvram_commit_crc:
  assumes "fits h" and "nv_inv h" and "\<not> h_be h" and "h_length h < 4294967293" and "nvram_commit h = Some h'"
  shows "hd_crc_ver_init (get_header h') mod 256 = unat (info_crc h')" and "h_offset h' = h_offset h" and "h_length h' = h_length h"
    and "hd_len (get_header h') = round_up (22 + length (commit_text h)) 4"
proof -
  from nvram_commit_layout [OF assms(1,2)] obtain r where
    c: "nvram_commit h = nvram_rehash (h\<lparr>h_mmap := take (h_offset h) (h_mmap h) @
       header_words (h_be h) (committed_header h (commit_text h @ 0 # r)) @ commit_text h @ 0 # r\<rparr>)"
    and l: "h_offset h + 21 + length (commit_text h) + length r = h_length h" .
  define D where "D = commit_text h @ 0 # r"
  define hdr where "hdr = committed_header h D"
  have fit: "length (h_mmap h) = h_length h" "h_offset h + 22 + length (commit_text h) \<le> h_length h" using assms(1) by (simp_all add: fits_def)
  have hf: "header_fits hdr" "hd_len hdr = round_up (22 + length (commit_text h)) 4"
    using committed_header_fits [of h D] assms(4) fit by (simp_all add: hdr_def)
  have m: "h_mmap h' = take (h_offset h) (h_mmap h) @ header_words False hdr @ D" "h_offset h' = h_offset h" "h_length h' = h_length h" "h_be h' = False"
    using same_frame_rehash [of _ h'] c assms(3,5) by (auto simp: same_frame_def D_def hdr_def)
  have gh: "get_header h' = hdr" using header_at_append [OF hf(1), of "take (h_offset h) (h_mmap h)" "h_offset h" False D] fit
    by (simp add: get_header_def m)
  define crc where "crc = hndcrc8 (take (hd_len hdr - 20) D) (header_crc False (commit_header h))"
  have ver: "hd_crc_ver_init hdr = hd_crc_ver_init (commit_header h) + unat crc"
    using assms(3) hf(2) by (simp add: hdr_def committed_header_def Let_def crc_def header_crc_def)
  obtain i where "hd_crc_ver_init (commit_header h) = 256 + 65536 * i" by (rule commit_header_form [of h]) simp
  then have "hd_crc_ver_init (commit_header h) = 256 * (1 + 256 * i)" by simp
  then have v0: "hd_crc_ver_init (commit_header h) mod 256 = 0" by (simp only: mod_mult_self1_is_0)
  have u: "unat crc < 256" using unsigned_less [of crc, where 'a = nat] by simp
  have drop9: "drop 9 (header_words False x) = drop 1 (le32 (hd_crc_ver_init x)) @ le32 (hd_config_refresh x) @ le32 (hd_config_ncdl x)" for x
    by (simp add: header_words_def native32_def)
  have "drop 9 (header_words False hdr) = drop 9 (header_words False (commit_header h))"
    unfolding drop9 ver using le32_low [OF v0 u] by (simp add: hdr_def committed_header_def Let_def)
  moreover have "drop 9 (header_words False (x\<lparr>hd_magic := 0, hd_len := 0\<rparr>)) = drop 9 (header_words False x)" for x
    by (simp add: drop9)
  moreover have "20 \<le> hd_len hdr" "hd_len hdr < 4294967296" using hf round_up_4(2) [of "22 + length (commit_text h)"] by (simp_all add: header_fits_def)
  then have "field (h_offset h + 9) (sub32 (hd_len hdr) 9) (h_mmap h') = drop 9 (header_words False hdr) @ take (hd_len hdr - 20) D"
    using fit by (simp add: field_def m)
  ultimately have "info_crc h' = crc"
    by (simp add: info_crc_def gh m hndcrc8_append crc_def header_crc_def)
  moreover have "hd_crc_ver_init hdr mod 256 = unat crc" using v0 u by (simp add: ver mod_add_left_eq [symmetric])
  ultimately show "hd_crc_ver_init (get_header h') mod 256 = unat (info_crc h')" by (simp add: gh)
  show "h_offset h' = h_offset h" "h_length h' = h_length h" "hd_len (get_header h') = round_up (22 + length (commit_text h)) 4"
    using m hf(2) by (simp_all add: gh)
qed

section \<open>Handles stay well-formed\<close>

text \<open>The handles a program can have: it opens an area, changes variables and commits.\<close>

inductive nv_reachable :: "nvram_handle \<Rightarrow> nvram_handle \<Rightarrow> bool" for m where
  opens: "nvram_open m mem rdonly = Some (Some h) \<Longrightarrow> nv_reachable m h"
| sets: "nv_reachable m h \<Longrightarrow> pair_ok (n, v) \<Longrightarrow> nv_reachable m (snd (nvram_set h n v))"
| unsets: "nv_reachable m h \<Longrightarrow> nv_reachable m (snd (nvram_unset h n))"
| commits: "nv_reachable m h \<Longrightarrow> nvram_commit h = Some h' \<Longrightarrow> nv_reachable m h'"

lemma nvram_commit_frame:
  assumes "nvram_commit h = Some h'"
  obtains h1 where "nvram_rehash h1 = Some h'" and "h_alloc h1 = h_alloc h" and "length (h_mmap h1) = length (h_mmap h)"
    and "h_length h1 = h_length h"
proof -
  let ?mem = "poke (poke (h_mmap h) (h_offset h) (header_words (h_be h) (commit_header h))) (h_offset h + 20)
    (replicate (h_length h - h_offset h - 20) 0xFF)"
  have b: "length (fst mp') = length (fst mp)" if "write_bucket off e ts mp = Some mp'" for off e ts mp mp'
    using that by (induction off e ts mp rule: write_bucket.induct) (auto split: option.splits if_splits)
  have t: "length (fst mp') = length (fst mp)" if "write_table off e tss mp = Some mp'" for off e tss mp mp'
    using that by (induction off e tss mp rule: write_table.induct) (auto split: option.splits dest!: b)
  from assms obtain mem3 ptr where w: "write_table (h_offset h) (h_length h - h_offset h - 2) (h_hash h) (?mem, 20) = Some (mem3, ptr)"
    unfolding nvram_commit_def Let_def by (auto split: option.splits)
  then have l: "length mem3 = length (h_mmap h)" using t by fastforce
  from assms w obtain mem7 where "nvram_rehash (h\<lparr>h_mmap := mem7\<rparr>) = Some h'" "length mem7 = length mem3"
    unfolding nvram_commit_def Let_def by auto
  then show ?thesis using that [of "h\<lparr>h_mmap := mem7\<rparr>"] l by simp
qed

text \<open>
  The order of the table, which holds whatever allocations fail: a failing allocation can leave a variable without a value, but no variable in the wrong
  bucket or twice in it.
\<close>

definition tuple_ok :: "nvram_tuple \<Rightarrow> bool" where
  "tuple_ok t \<longleftrightarrow> pair_ok (t_name t, case t_value t of None \<Rightarrow> [] | Some v \<Rightarrow> v)"

definition bucket_shape :: "nvram_handle \<Rightarrow> nat \<Rightarrow> nvram_tuple list \<Rightarrow> bool" where
  "bucket_shape h i ts \<longleftrightarrow> distinct (map t_name ts) \<and> (\<forall>t \<in> set ts. bucket_of h (t_name t) = i \<and> tuple_ok t)"

definition nv_shape :: "nvram_handle \<Rightarrow> bool" where
  "nv_shape h \<longleftrightarrow> length (h_hash h) = 257 \<and> (\<forall>i < 257. bucket_shape h i (h_hash h ! i))"

lemma same_frame_bucket: "same_frame h h' \<Longrightarrow> bucket_of h' = bucket_of h"
  by (simp add: same_frame_def bucket_of_def fun_eq_iff)

lemma nv_shape_update:
  assumes "nv_shape h" and "same_frame h h'" and "h_hash h' = (h_hash h)[i := ts]" and "bucket_shape h i ts"
  shows "nv_shape h'"
proof -
  have "bucket_shape h' j us = bucket_shape h j us" for j us using same_frame_bucket [OF assms(2)] by (simp add: bucket_shape_def)
  moreover have "bucket_shape h j ((h_hash h)[i := ts] ! j)" if "j < 257" for j
    using assms(1,4) that by (cases "i = j") (simp_all add: nv_shape_def)
  ultimately show ?thesis using assms(1,3) by (simp add: nv_shape_def)
qed

lemma nv_shape_bucket: "nv_shape h \<Longrightarrow> bucket_shape h (bucket_of h n) (arr_get [] (h_hash h) (bucket_of h n))"
  by (simp add: nv_shape_def)

lemma bucket_shape_put:
  assumes "bucket_shape h i ts" and "t_name x = n" and "bucket_of h n = i" and "tuple_ok x"
  shows "bucket_shape h i (put_tuple n x ts)"
  using assms set_put_tuple [of n x ts] by (auto simp: bucket_shape_def names_put)

lemma bucket_shape_drop: "bucket_shape h i ts \<Longrightarrow> bucket_shape h i (drop_tuple n ts)"
  using set_drop_tuple [of n ts] by (auto simp: bucket_shape_def distinct_drop_tuple)

lemma nvram_realloc_result:
  assumes "nvram_realloc h t n v = (u, t', h1)" and "pair_ok (n, v)" and "\<And>x. t = Some x \<Longrightarrow> t_name x = n \<and> tuple_ok x"
  shows "(\<forall>x. u = Some x \<longrightarrow> t_name x = n \<and> tuple_ok x) \<and> (\<forall>x. t' = Some x \<longrightarrow> t_name x = n \<and> tuple_ok x) \<and> (t' = None \<longleftrightarrow> t = None) \<and> (t \<noteq> None \<longrightarrow> u \<noteq> None \<longrightarrow> u = t')"
  using assms by (auto simp: nvram_realloc_def Let_def tuple_ok_def pair_ok_def split: option.splits prod.splits if_splits)

lemma nv_shape_set:
  assumes "nv_shape h" and "pair_ok (n, v)"
  shows "nv_shape (snd (nvram_set h n v))"
proof -
  define i ts where "i = bucket_of h n" and "ts = arr_get [] (h_hash h) i"
  have b: "bucket_shape h i ts" unfolding i_def ts_def by (rule nv_shape_bucket [OF assms(1)])
  obtain u t' h1 where r: "nvram_realloc h (find_tuple n ts) n v = (u, t', h1)" by (metis prod_cases3)
  have "t_name x = n \<and> tuple_ok x" if "find_tuple n ts = Some x" for x using find_tuple_Some [OF that] b by (auto simp: bucket_shape_def)
  note k = nvram_realloc_result [OF r assms(2) this]
  have t': "bucket_shape h i (case t' of None \<Rightarrow> ts | Some x \<Rightarrow> put_tuple n x ts)"
    using b k by (auto simp: i_def bucket_shape_put split: option.split)
  have c: "bucket_shape h i (x # ts)" if "u = Some x" "find_tuple n ts = None" for x
  proof -
    have "n \<notin> t_name ` set ts" using that(2) by (simp add: find_tuple_None)
    moreover have "t_name x = n" "tuple_ok x" using k that(1) by blast+
    moreover have "bucket_of h n = i" by (simp add: i_def)
    ultimately show ?thesis using b by (simp add: bucket_shape_def)
  qed
  have "h_hash (snd (nvram_set h n v)) = (h_hash h)[i := (case u of None \<Rightarrow> (case t' of None \<Rightarrow> ts | Some x \<Rightarrow> put_tuple n x ts)
      | Some x \<Rightarrow> if find_tuple n ts = None then x # ts else (case t' of None \<Rightarrow> ts | Some x \<Rightarrow> put_tuple n x ts))]"
    unfolding nvram_set_def Let_def i_def [symmetric] ts_def [symmetric] r by (cases u) simp_all
  then show ?thesis by (rule nv_shape_update [OF assms(1) same_frame_set]) (use t' c in \<open>auto split: option.splits\<close>)
qed

lemma nv_shape_unset: "nv_shape h \<Longrightarrow> nv_shape (snd (nvram_unset h n))"
proof -
  assume h: "nv_shape h"
  let ?i = "bucket_of h n"
  have "h_hash (snd (nvram_unset h n)) = (h_hash h)[?i := (if find_tuple n (arr_get [] (h_hash h) ?i) = None then arr_get [] (h_hash h) ?i
      else drop_tuple n (arr_get [] (h_hash h) ?i))]"
    using h by (auto simp: nvram_unset_def Let_def nv_shape_def split: option.splits)
  then show ?thesis by (rule nv_shape_update [OF h same_frame_unset]) (simp add: nv_shape_bucket [OF h] bucket_shape_drop)
qed

lemma nv_shape_rehash: "nvram_rehash h = Some h' \<Longrightarrow> nv_shape h'"
proof -
  assume r: "nvram_rehash h = Some h'"
  have "nv_shape (nvram_free h)" by (simp add: nv_shape_def nvram_free_def bucket_shape_def)
  then have l: "nv_shape h1" if "rehash_loop (nvram_free h) bs = Some h1" for h1 bs
    using that by (rule_tac rehash_loop_invariant) (auto intro: nv_shape_set)
  have m: "nv_shape (foldl (\<lambda>h (n, v). set_missing n v h) h1 ps)" if "nv_shape h1" "\<And>n v. (n, v) \<in> set ps \<Longrightarrow> pair_ok (n, v)" for h1 ps
    using that by (induction ps arbitrary: h1) (auto simp: set_missing_def nv_shape_set)
  obtain h1 where h1: "rehash_loop (nvram_free h) (drop (h_offset h + 20) (h_mmap h)) = Some h1"
    "h' = foldl (\<lambda>h (n, v). set_missing n v h) h1 (sdram_vars (get_header h))"
    using r by (auto simp: nvram_rehash_def split: option.splits)
  show ?thesis unfolding h1(2) by (rule m [OF l [OF h1(1)] sdram_vars_ok])
qed

lemma nv_reachable_good:
  assumes "nv_reachable m h" and "h_alloc m = []"
  shows "nv_good h"
  using assms(1)
proof induction
  case (opens mem rdonly h)
  from nvram_open_frame [OF this assms(2)] show ?case by simp
next
  case (commits h h')
  from commits(2) obtain h1 where h1: "nvram_rehash h1 = Some h'" "h_alloc h1 = h_alloc h" by (rule nvram_commit_frame)
  then show ?case using commits.IH nvram_rehash_good [OF h1(1)] by (simp add: nv_good_def)
qed (simp_all add: nv_good_set nv_good_unset)

text \<open>
  C26. The handles of a program that opens an area, sets variables whose names and values are C strings, the names without an equal sign, unsets variables
  and commits are well-formed whatever allocations fail: 257 buckets, each variable in its bucket and only once, names and values C strings, and a mapped
  file of the length of the handle. If no allocation fails, every variable has a value.
\<close>

theorem nvram_handle_wellformed:
  assumes "nv_reachable m h"
  shows "nv_shape h \<and> length (h_mmap h) = h_length h \<and> (h_alloc m = [] \<longrightarrow> (\<forall>ts \<in> set (h_hash h). \<forall>t \<in> set ts. t_value t \<noteq> None))"
proof -
  have "nv_shape h \<and> length (h_mmap h) = h_length h" using assms
  proof induction
    case (opens mem rdonly h)
    then obtain h0 where h0: "nvram_rehash h0 = Some h" "h_mmap h0 = mem" "h_length h0 = length mem"
      by (auto simp: nvram_open_def Let_def split: option.splits prod.splits if_splits)
    then show ?case using nv_shape_rehash [OF h0(1)] same_frame_rehash [OF h0(1)] by (simp add: same_frame_def)
  next
    case (sets h n v)
    then show ?case using same_frame_set [of h n v] by (simp add: nv_shape_set same_frame_def)
  next
    case (unsets h n)
    then show ?case using same_frame_unset [of h n] by (simp add: nv_shape_unset same_frame_def)
  next
    case (commits h h')
    from commits(2) obtain h1 where h1: "nvram_rehash h1 = Some h'" "length (h_mmap h1) = length (h_mmap h)" "h_length h1 = h_length h" by (rule nvram_commit_frame)
    then show ?case using commits.IH nv_shape_rehash [OF h1(1)] same_frame_rehash [OF h1(1)] by (simp add: same_frame_def)
  qed
  moreover have "\<forall>ts \<in> set (h_hash h). \<forall>t \<in> set ts. t_value t \<noteq> None" if "h_alloc m = []"
  proof (intro ballI)
    fix ts t assume t: "ts \<in> set (h_hash h)" "t \<in> set ts"
    have "nv_inv h" using nv_reachable_good [OF assms that] by (simp add: nv_good_def)
    moreover obtain i where "i < length (h_hash h)" "ts = h_hash h ! i" using t(1) by (auto simp: in_set_conv_nth)
    ultimately show "t_value t \<noteq> None" using t(2) by (simp add: nv_inv_def bucket_ok_def)
  qed
  ultimately show ?thesis by blast
qed

text \<open>A machine on which the tenth allocation fails.\<close>

theorem nvram_handle_wellformed_witness:
  "\<exists>h. nvram_open ex_handle ex_area False = Some (Some h) \<and> nv_shape (snd (nvram_set h [0x61] [0x62])) \<and>
    (\<forall>ts \<in> set (h_hash (snd (nvram_set h [0x61] [0x62]))). \<forall>t \<in> set ts. t_value t \<noteq> None)"
proof -
  obtain h where h: "nvram_open ex_handle ex_area False = Some (Some h)" using ex_area_open by blast
  have "nv_reachable ex_handle (snd (nvram_set h [0x61] [0x62]))"
    by (rule nv_reachable.sets [OF nv_reachable.opens [OF h]]) (simp add: pair_ok_def)
  moreover have "h_alloc ex_handle = []" by (simp add: ex_handle_def)
  ultimately show ?thesis using nvram_handle_wellformed h by blast
qed

end
