(* ===== verification/Nvram_Cli.thy ===== *)
theory Nvram_Cli
  imports Nvram_Commit
begin

text \<open>
  The command line of the \<^verbatim>\<open>nvram\<close> tool (\<^verbatim>\<open>cli.c\<close>) and the staging file of \<^verbatim>\<open>nvram.c\<close>: changes are
  collected in \<^verbatim>\<open>/tmp/.nvram\<close>, a copy of the partition, and \<^verbatim>\<open>commit\<close> writes the copy to the flash.

  The world has the MTD devices that \<^verbatim>\<open>/proc/mtd\<close> lists, the staging file, the outcomes of the next
  system calls (all others succeed), the global \<^verbatim>\<open>nvram_part_size\<close> and the lines printed to the
  standard output. The length of a device is the size that \<^verbatim>\<open>/proc/mtd\<close> shows for it. A
  staging file that is shorter than the partition makes the tool crash (\<^const>\<open>None\<close>).
\<close>

section \<open>The world\<close>

record mtd_dev =
  md_name :: "byte list"
  md_blk :: bool
  md_data :: "byte list"

record nv_world =
  w_mtd :: "mtd_dev list"
  w_staging :: "byte list option"
  w_part_size :: nat
  w_sys :: "bool list"
  w_machine :: nvram_handle
  w_out :: "byte list list"

definition sys :: "nv_world \<Rightarrow> bool \<times> nv_world" where
  "sys w = (case w_sys w of [] \<Rightarrow> (True, w) | ok # rest \<Rightarrow> (ok, w\<lparr>w_sys := rest\<rparr>))"

definition w_alloc :: "nv_world \<Rightarrow> bool \<times> nv_world" where
  "w_alloc w = (let (ok, m) = alloc (w_machine w) in (ok, w\<lparr>w_machine := m\<rparr>))"

section \<open>Devices and the staging file\<close>

text \<open>The first device with a matching name and a block device node; its size is stored on the way.\<close>

fun find_mtd_from :: "nat \<Rightarrow> mtd_dev list \<Rightarrow> nv_world \<Rightarrow> nat option \<times> nv_world" where
  "find_mtd_from i [] w = (None, w)"
| "find_mtd_from i (d # ds) w =
     (if strstr (bytes_of ''nvram'') (md_name d)
      then let w1 = w\<lparr>w_part_size := length (md_data d)\<rparr>
           in if md_blk d
              then let (ok, w2) = w_alloc w1
                   in if ok then (Some i, w2) else find_mtd_from (i + 1) ds w2
              else find_mtd_from (i + 1) ds w1
      else find_mtd_from (i + 1) ds w)"

definition nvram_find_mtd :: "nv_world \<Rightarrow> nat option \<times> nv_world" where
  "nvram_find_mtd w =
     (let (ok, w1) = sys w in if ok then find_mtd_from 0 (w_mtd w1) w1 else (None, w1))"

definition nvram_find_staging :: "nv_world \<Rightarrow> bool" where
  "nvram_find_staging w \<longleftrightarrow> w_staging w \<noteq> None"

definition dev_data :: "nv_world \<Rightarrow> nat \<Rightarrow> byte list" where
  "dev_data w i = (if i < length (w_mtd w) then md_data (w_mtd w ! i) else [])"

definition set_dev_data :: "nat \<Rightarrow> byte list \<Rightarrow> nv_world \<Rightarrow> nv_world" where
  "set_dev_data i bs w = w\<lparr>w_mtd := (w_mtd w)[i := (w_mtd w ! i)\<lparr>md_data := bs\<rparr>]\<rparr>"

definition nvram_to_staging :: "nv_world \<Rightarrow> int \<times> nv_world" where
  "nvram_to_staging w =
     (case nvram_find_mtd w of
        (None, w1) \<Rightarrow> (- 1, w1)
      | (Some i, w1) \<Rightarrow>
          if w_part_size w1 = 0 then (- 1, w1)
          else
            let (ok, w2) = sys w1
            in if \<not> ok then (- 1, w2)
               else
                 let (ok2, w3) = sys w2;
                     buf = take (w_part_size w3) (dev_data w3 i)
                 in if \<not> ok2 \<or> length buf \<noteq> w_part_size w3 then (- 1, w3)
                    else
                      let (ok3, w4) = sys w3
                      in if \<not> ok3 then (- 1, w4)
                         else let (ok4, w5) = sys w4
                              in (0, w5\<lparr>w_staging := Some (if ok4 then buf else [])\<rparr>))"

definition staging_to_nvram :: "nv_world \<Rightarrow> int \<times> nv_world" where
  "staging_to_nvram w =
     (case nvram_find_mtd w of
        (None, w1) \<Rightarrow> (- 1, w1)
      | (Some i, w1) \<Rightarrow>
          if w_part_size w1 = 0 then (- 1, w1)
          else
            case w_staging w1 of
              None \<Rightarrow> (- 1, w1)
            | Some stg \<Rightarrow>
                let (ok, w2) = sys w1
                in if \<not> ok then (- 1, w2)
                   else
                     let (ok2, w3) = sys w2;
                         buf = take (w_part_size w3) stg
                     in if \<not> ok2 \<or> length buf \<noteq> w_part_size w3 then (- 1, w3)
                        else
                          let (ok3, w4) = sys w3
                          in if \<not> ok3 then (- 1, w4)
                             else
                               let (ok4, w5) = sys w4;
                                   w6 = (if ok4 then set_dev_data i (poke (dev_data w5 i) 0 buf) w5 else w5);
                                   (ok5, w7) = sys w6
                               in if ok5 then (0, w7\<lparr>w_staging := None\<rparr>) else (1, w7))"

section \<open>Opening\<close>

text \<open>
  \<^verbatim>\<open>nvram_open\<close> with the name of a file: \<^const>\<open>None\<close> stands for the staging file, \<open>Some i\<close> for the device.
\<close>

definition file_data :: "nv_world \<Rightarrow> nat option \<Rightarrow> byte list" where
  "file_data w file = (case file of None \<Rightarrow> (case w_staging w of None \<Rightarrow> [] | Some s \<Rightarrow> s) | Some i \<Rightarrow> dev_data w i)"

definition open_file :: "nv_world \<Rightarrow> nat option \<Rightarrow> bool \<Rightarrow> (nvram_handle option \<times> nv_world) option" where
  "open_file w file rdonly =
     (let (found, w1) = (if w_part_size w = 0
                         then let (mtd, w') = nvram_find_mtd w in (mtd \<noteq> None \<and> w_part_size w' \<noteq> 0, w')
                         else (True, w))
      in if \<not> found then Some (None, w1)
         else
           let (ok, w2) = sys w1
           in if \<not> ok then Some (None, w2)
              else
                let (ok2, w3) = sys w2
                in if \<not> ok2 then Some (None, w3)
                   else if length (file_data w3 file) < w_part_size w3 then None
                   else map_option (\<lambda>h. (h, w3)) (nvram_open (w_machine w3) (take (w_part_size w3) (file_data w3 file)) rdonly))"

definition nvram_open_rdonly :: "nv_world \<Rightarrow> (nvram_handle option \<times> nv_world) option" where
  "nvram_open_rdonly w =
     (if nvram_find_staging w then open_file w None True
      else case nvram_find_mtd w of
             (None, w1) \<Rightarrow> Some (None, w1)
           | (Some i, w1) \<Rightarrow> open_file w1 (Some i) True)"

definition nvram_open_staging :: "nv_world \<Rightarrow> (nvram_handle option \<times> nv_world) option" where
  "nvram_open_staging w =
     (if nvram_find_staging w then open_file w None False
      else case nvram_to_staging w of (st, w1) \<Rightarrow> if st = 0 then open_file w1 None False else Some (None, w1))"

section \<open>Commands\<close>

definition show_line :: "nvram_tuple \<Rightarrow> byte list" where
  "show_line t = t_name t @ [0x3d] @ (case t_value t of None \<Rightarrow> bytes_of ''(null)'' | Some v \<Rightarrow> v)"

text \<open>A command gives its status, what it prints and the handle.\<close>

definition do_show :: "nvram_handle \<Rightarrow> int \<times> byte list list \<times> nvram_handle" where
  "do_show h = (case nvram_getall h of ([], h1) \<Rightarrow> (1, [], h1) | (ts, h1) \<Rightarrow> (0, map show_line ts, h1))"

definition do_get :: "nvram_handle \<Rightarrow> byte list \<Rightarrow> int \<times> byte list list" where
  "do_get h var = (case nvram_get h var of None \<Rightarrow> (1, []) | Some v \<Rightarrow> (0, [v]))"

definition do_unset :: "nvram_handle \<Rightarrow> byte list \<Rightarrow> int \<times> nvram_handle" where
  "do_unset h var = nvram_unset h var"

definition do_set :: "nvram_handle \<Rightarrow> byte list \<Rightarrow> int \<times> nvram_handle" where
  "do_set h pair =
     (if 0x3d \<in> set pair
      then let var = takeWhile (\<lambda>b. b \<noteq> 0x3d) pair in nvram_set h var (drop (length var + 1) pair)
      else (1, h))"

text \<open>The numbers that \<^verbatim>\<open>info\<close> prints; a length behind the mapped file makes it crash.\<close>

definition do_info :: "nvram_handle \<Rightarrow> (string \<times> nat) list option" where
  "do_info h =
     (let hdr = get_header h
      in if h_length h < h_offset h + 9 + sub32 (hd_len hdr) 9 then None
         else Some [(''Magic'', hd_magic hdr), (''Length'', hd_len hdr), (''Offset'', h_offset h),
                (''CRC8'', hd_crc_ver_init hdr mod 256), (''calculated'', unat (info_crc h)),
                (''Version'', hd_crc_ver_init hdr div 256 mod 256), (''SDRAM init'', hd_crc_ver_init hdr div 65536 mod 65536),
                (''SDRAM config'', hd_config_refresh hdr mod 65536), (''SDRAM refresh'', hd_config_refresh hdr div 65536 mod 65536),
                (''NCDL values'', hd_config_ncdl hdr)])"

text \<open>
  The loop over the arguments: handle, status, number of commands done, whether \<^verbatim>\<open>commit\<close> was
  among them, and the output. The output of \<^verbatim>\<open>info\<close> is formatted from its numbers by \<open>fmt\<close>.
\<close>

record cli_state =
  c_nvram :: nvram_handle
  c_stat :: int
  c_done :: nat
  c_commit :: bool
  c_out :: "byte list list"

definition run_arg :: "byte list \<Rightarrow> byte list \<Rightarrow> cli_state \<Rightarrow> cli_state" where
  "run_arg cmd arg c =
     (if cmd = bytes_of ''get''
      then let (st, out) = do_get (c_nvram c) arg in c\<lparr>c_stat := st, c_out := c_out c @ out, c_done := c_done c + 1\<rparr>
      else if cmd = bytes_of ''unset''
      then let (st, h) = do_unset (c_nvram c) arg in c\<lparr>c_stat := st, c_nvram := h, c_done := c_done c + 1\<rparr>
      else let (st, h) = do_set (c_nvram c) arg in c\<lparr>c_stat := st, c_nvram := h, c_done := c_done c + 1\<rparr>)"

fun run_args :: "((string \<times> nat) list \<Rightarrow> byte list list) \<Rightarrow> byte list list \<Rightarrow> cli_state \<Rightarrow> cli_state option" where
  "run_args fmt [] c = Some c"
| "run_args fmt (a # args) c =
     (if a = bytes_of ''show''
      then let (st, out, h) = do_show (c_nvram c)
           in run_args fmt args (c\<lparr>c_stat := st, c_nvram := h, c_out := c_out c @ out, c_done := c_done c + 1\<rparr>)
      else if a = bytes_of ''info''
      then case do_info (c_nvram c) of
             None \<Rightarrow> None
           | Some l \<Rightarrow> run_args fmt args (c\<lparr>c_stat := 0, c_out := c_out c @ fmt l, c_done := c_done c + 1\<rparr>)
      else if a = bytes_of ''get'' \<or> a = bytes_of ''unset'' \<or> a = bytes_of ''set''
      then case args of
             [] \<Rightarrow> Some (c\<lparr>c_done := 0\<rparr>)
           | arg # args' \<Rightarrow> run_args fmt args' (run_arg a arg c)
      else if a = bytes_of ''commit'' then run_args fmt args (c\<lparr>c_commit := True, c_done := c_done c + 1\<rparr>)
      else Some (c\<lparr>c_done := 0\<rparr>))"

definition is_write :: "byte list list \<Rightarrow> bool" where
  "is_write args =
     (case args of
        [] \<Rightarrow> False
      | a # rest \<Rightarrow> (a = bytes_of ''set'' \<and> rest \<noteq> []) \<or> (a = bytes_of ''unset'' \<and> rest \<noteq> []) \<or> a = bytes_of ''commit'')"

text \<open>
  The shared mapping of the staging file is written back into it; a private mapping is dropped. The
  arguments are those behind the name of the program.
\<close>

definition nvram_main :: "((string \<times> nat) list \<Rightarrow> byte list list) \<Rightarrow> byte list list \<Rightarrow> nv_world \<Rightarrow> (int \<times> nv_world) option" where
  "nvram_main fmt args w =
     (if args = [] then Some (1, w)
      else
        case (if is_write args then nvram_open_staging (w\<lparr>w_part_size := 0\<rparr>) else nvram_open_rdonly (w\<lparr>w_part_size := 0\<rparr>)) of
          None \<Rightarrow> None
        | Some (None, w1) \<Rightarrow> Some (1, w1)
        | Some (Some h, w1) \<Rightarrow>
            (case run_args fmt args \<lparr>c_nvram = h, c_stat = 1, c_done = 0, c_commit = False, c_out = []\<rparr> of
               None \<Rightarrow> None
             | Some c \<Rightarrow>
                 let w2 = w1\<lparr>w_out := w_out w1 @ c_out c\<rparr>
                 in case (if is_write args then nvram_commit (c_nvram c) else Some (c_nvram c)) of
                      None \<Rightarrow> None
                    | Some h1 \<Rightarrow>
                        let stat1 = (if is_write args then 0 else c_stat c);
                            w3 = (if is_write args then w2\<lparr>w_staging := Some (poke (file_data w2 None) 0 (h_mmap h1))\<rparr> else w2);
                            w4 = w3\<lparr>w_machine := (w_machine w3)\<lparr>h_alloc := h_alloc h1\<rparr>\<rparr>;
                            (stat2, w5) = (if c_commit c then staging_to_nvram w4 else (stat1, w4))
                        in Some (if c_done c = 0 then 1 else stat2, w5)))"

section \<open>Areas\<close>

text \<open>An area that can be opened for writing, with the place of its header and its variables.\<close>

definition nv_area :: "nvram_handle \<Rightarrow> byte list \<Rightarrow> nat \<Rightarrow> (byte list \<rightharpoonup> byte list) \<Rightarrow> bool" where
  "nv_area m mem off g \<longleftrightarrow> (\<exists>h. nvram_open m mem False = Some (Some h) \<and> h_offset h = off \<and> nvram_get h = g)"

definition vars_size :: "(byte list \<rightharpoonup> byte list) \<Rightarrow> nat" where
  "vars_size g = (\<Sum>(n, v)\<in>Map.graph g. length n + length v + 2)"

definition sdram_names :: "byte list set" where
  "sdram_names = set (map bytes_of [''sdram_init'', ''sdram_config'', ''sdram_refresh'', ''sdram_ncdl''])"

lemma dom_sdram: "dom (map_of (sdram_vars hdr)) = sdram_names"
  by (auto simp: sdram_vars_def sdram_names_def)

lemma sdram_add: "sdram_names \<subseteq> dom g \<Longrightarrow> map_of (sdram_vars hdr) ++ g = g"
  by (rule ext) (metis dom_sdram domIff map_add_None map_add_find_right option.exhaust subsetD)

lemma nvram_open_rdonly_same: "h_alloc m = [] \<Longrightarrow> nvram_open m mem False = Some (Some h) \<Longrightarrow> nvram_open m mem rd = Some (Some h)"
  by (auto simp: nvram_open_eq)

lemma nv_area_sdram:
  assumes "nv_area m mem off g" and "h_alloc m = []" and "length mem < 4294967293" and "off + 22 \<le> length mem"
  shows "sdram_names \<subseteq> dom g"
proof -
  from assms(1) obtain h where h: "nvram_open m mem False = Some (Some h)" "h_offset h = off" "nvram_get h = g" by (auto simp: nv_area_def)
  let ?m = "opened m mem off"
  note o = nvram_open_frame [OF h(1) assms(2)]
  then have r: "nvram_rehash ?m = Some h" using h unfolding nvram_open_eq [OF assms(2)] by auto
  then obtain h1 bs where h1: "rehash_loop (nvram_free ?m) bs = Some h1" "h = foldl (\<lambda>h (n, v). set_missing n v h) h1 (sdram_vars (get_header ?m))"
    by (auto simp: nvram_rehash_def split: option.splits)
  have free: "nv_good (nvram_free ?m)" using assms(2) by (simp add: nv_good_def) (simp add: nvram_free_def opened_def)
  have g: "nv_good h1" using h1(1) free by (rule_tac rehash_loop_invariant) (auto intro: nv_good_set)
  have "same_frame ?m h1" using same_frame_trans [OF same_frame_free same_frame_rehash_loop [OF h1(1)]] .
  then have "sub32 (h_length h1) (h_offset h1) = length mem - off" using assms(3,4) by (simp add: same_frame_def opened_def)
  then have "nv_room h1 v" if "length v \<le> 10" for v using g that assms(4) by (simp add: nv_room_def nv_good_def)
  then have "nvram_get h = map_of (sdram_vars (get_header ?m)) ++ nvram_get h1"
    using set_missings [of h1 "sdram_vars (get_header ?m)"] g sdram_vars_length h1(2) by (auto simp: nv_good_def)
  then show ?thesis using h(3) dom_sdram [of "get_header ?m"] by auto
qed

text \<open>A session on an area gives an area with the new variables, when they fit.\<close>

lemma nv_area_session:
  assumes "nvram_open m mem False = Some (Some h)" and "h_alloc m = []" and "length mem < 4294967293"
    and "list_all (op_ok (length mem - h_offset h)) ops" and "g = foldl (\<lambda>g p. g(fst p := snd p)) (nvram_get h) ops"
    and "h_offset h + round_up (22 + vars_size g) 4 < length mem" and "sdram_names \<subseteq> dom g"
  obtains h1 where "nvram_commit (foldl nv_op h ops) = Some h1" and "nv_area m (h_mmap h1) (h_offset h) g"
    and "length (h_mmap h1) = length mem" and "h_alloc h1 = []"
proof -
  note o = nvram_open_frame [OF assms(1,2)]
  have f: "h_length h = length mem" using o by (auto simp: same_frame_def opened_def)
  have lt: "h_offset h + 22 + vars_size g < length mem" using assms(6) round_up_4(2) [of "22 + vars_size g"] by linarith
  have s: "nv_good (foldl nv_op h ops)" "nvram_get (foldl nv_op h ops) = g"
    using nv_ops_law [of h ops] o f lt assms(3,4,5) by auto
  then have l: "length (commit_text (foldl nv_op h ops)) = vars_size g"
    using commit_text_size [of "foldl nv_op h ops"] by (simp add: nv_good_def vars_size_def)
  have c: "h_offset h + 22 + length (commit_text (foldl nv_op h ops)) \<le> length mem" using l lt by simp
  obtain h1 hdr ps where h1: "nvram_commit (foldl nv_op h ops) = Some h1" "nv_image (opened m (h_mmap h1) (h_offset h)) hdr ps"
    "take (h_offset h) (h_mmap h1) = take (h_offset h) mem" "length (h_mmap h1) = length mem" "h_alloc h1 = []" "hd_magic hdr = 0x48534C46"
    "hd_len hdr = round_up (22 + length (commit_text (foldl nv_op h ops))) 4" "map_of (rev ps) = g"
    by (rule nvram_session [OF assms(1-4) c]) (use assms(5) in blast)
  have "False \<or> hd_len hdr < sub32 (length mem) (h_offset h)" using h1(7) l assms(3,6) by simp
  with nvram_open_image [OF _ assms(2) h1(2,6,4,3)] o have "nv_area m (h_mmap h1) (h_offset h) g"
    using h1(8) sdram_add [OF assms(7)] unfolding nv_area_def by metis
  then show ?thesis using that h1(1,4,5) by blast
qed

section \<open>Runs without failing calls\<close>

definition quiet :: "nv_world \<Rightarrow> bool" where
  "quiet w \<longleftrightarrow> w_sys w = [] \<and> h_alloc (w_machine w) = []"

text \<open>Independent updates are brought into one order.\<close>

lemma world_order [simp]:
  "w\<lparr>w_staging := s, w_part_size := p\<rparr> = w\<lparr>w_part_size := p, w_staging := s\<rparr>"
  "w\<lparr>w_out := l, w_part_size := p\<rparr> = w\<lparr>w_part_size := p, w_out := l\<rparr>"
  "w\<lparr>w_out := l, w_staging := s\<rparr> = w\<lparr>w_staging := s, w_out := l\<rparr>"
  by simp_all

lemma quiet_machine: "quiet w \<Longrightarrow> (w_machine w)\<lparr>h_alloc := []\<rparr> = w_machine w"
  by (simp add: quiet_def)

text \<open>The device that the tool finds.\<close>

definition nv_device :: "nv_world \<Rightarrow> nat \<Rightarrow> bool" where
  "nv_device w i \<longleftrightarrow> i < length (w_mtd w) \<and> strstr (bytes_of ''nvram'') (md_name (w_mtd w ! i)) \<and> md_blk (w_mtd w ! i) \<and>
     list_all (\<lambda>d. \<not> strstr (bytes_of ''nvram'') (md_name d)) (take i (w_mtd w))"

lemma sys_quiet [simp]: "w_sys w = [] \<Longrightarrow> sys w = (True, w)"
  by (simp add: sys_def)

lemma w_alloc_quiet [simp]: "h_alloc (w_machine w) = [] \<Longrightarrow> w_alloc w = (True, w)"
  by (simp add: w_alloc_def)

lemma find_mtd_from_quiet:
  assumes "h_alloc (w_machine w) = []" and "list_all (\<lambda>d. \<not> strstr (bytes_of ''nvram'') (md_name d)) ds"
    and "strstr (bytes_of ''nvram'') (md_name d)" and "md_blk d"
  shows "find_mtd_from j (ds @ d # ds') w = (Some (j + length ds), w\<lparr>w_part_size := length (md_data d)\<rparr>)"
  using assms(2) by (induction ds arbitrary: j) (simp_all add: assms)

lemma nvram_find_mtd_quiet:
  assumes "quiet w" and "nv_device w i"
  shows "nvram_find_mtd w = (Some i, w\<lparr>w_part_size := length (dev_data w i)\<rparr>)"
proof -
  have i: "i < length (w_mtd w)" using assms(2) by (simp add: nv_device_def)
  have "find_mtd_from 0 (take i (w_mtd w) @ w_mtd w ! i # drop (Suc i) (w_mtd w)) w = (Some i, w\<lparr>w_part_size := length (dev_data w i)\<rparr>)"
    using assms i by (subst find_mtd_from_quiet) (auto simp: quiet_def nv_device_def dev_data_def)
  then show ?thesis using assms(1) id_take_nth_drop [OF i] by (simp add: nvram_find_mtd_def quiet_def)
qed

text \<open>The copy of the variables that a run works on: the staging file, or else the device.\<close>

definition current :: "nv_world \<Rightarrow> nat \<Rightarrow> byte list" where
  "current w i = (case w_staging w of None \<Rightarrow> dev_data w i | Some s \<Rightarrow> s)"

definition nv_ready :: "nv_world \<Rightarrow> nat \<Rightarrow> bool" where
  "nv_ready w i \<longleftrightarrow> quiet w \<and> nv_device w i \<and> length (current w i) = length (dev_data w i) \<and> 0 < length (dev_data w i)"

lemma nv_ready_upd [simp]:
  "nv_ready (w\<lparr>w_part_size := p\<rparr>) = nv_ready w" "nv_ready (w\<lparr>w_out := l\<rparr>) = nv_ready w"
  by (simp_all add: nv_ready_def quiet_def nv_device_def current_def dev_data_def fun_eq_iff cong: option.case_cong)

lemma open_file_staging:
  assumes "nv_ready w i" and "w_staging w = Some s" and "w_part_size w = 0 \<or> w_part_size w = length s"
  shows "open_file w None rd = map_option (\<lambda>h. (h, w\<lparr>w_part_size := length s\<rparr>)) (nvram_open (w_machine w) s rd)"
proof -
  have q: "quiet w" "nv_device w i" "length (dev_data w i) = length s" "s \<noteq> []" using assms(1,2) by (auto simp: nv_ready_def current_def)
  show ?thesis
  proof (cases "w_part_size w = 0")
    case True
    then show ?thesis using assms(2) q nvram_find_mtd_quiet [OF q(1,2)] by (simp add: open_file_def quiet_def file_data_def)
  next
    case False
    then have "w_part_size w = length s" and u: "w\<lparr>w_part_size := length s\<rparr> = w" using assms(3) by simp_all
    then show ?thesis unfolding u using assms(2) q by (simp add: open_file_def quiet_def file_data_def)
  qed
qed

lemma nvram_open_staging_ready:
  assumes "nv_ready w i" and "w_part_size w = 0"
  shows "nvram_open_staging w = map_option (\<lambda>h. (h, w\<lparr>w_part_size := length (dev_data w i), w_staging := Some (current w i)\<rparr>))
    (nvram_open (w_machine w) (current w i) False)"
proof (cases "w_staging w")
  case None
  let ?w = "w\<lparr>w_part_size := length (dev_data w i), w_staging := Some (dev_data w i)\<rparr>"
  have q: "quiet w" "nv_device w i" "0 < length (dev_data w i)" using assms(1) by (auto simp: nv_ready_def)
  have d: "dev_data (w\<lparr>w_part_size := p\<rparr>) i = dev_data w i" for p by (simp add: dev_data_def)
  have "nvram_to_staging w = (0, ?w)"
    using q nvram_find_mtd_quiet [OF q(1,2)] by (simp add: nvram_to_staging_def quiet_def d)
  moreover have "nv_ready ?w i" using assms(1) None by (auto simp: nv_ready_def quiet_def nv_device_def current_def dev_data_def)
  ultimately show ?thesis using None open_file_staging [of ?w i "dev_data w i" False]
    by (simp add: nvram_open_staging_def nvram_find_staging_def current_def)
next
  case (Some s)
  then have l: "length (dev_data w i) = length s" using assms(1) by (simp add: nv_ready_def current_def)
  have u: "w\<lparr>w_part_size := length s, w_staging := Some s\<rparr> = w\<lparr>w_part_size := length s\<rparr>" using Some by simp
  show ?thesis using open_file_staging [OF assms(1) Some, of False] Some assms(2) l
    by (simp add: nvram_open_staging_def nvram_find_staging_def current_def u)
qed

lemma nvram_open_rdonly_ready:
  assumes "nv_ready w i" and "w_part_size w = 0"
  shows "nvram_open_rdonly w = map_option (\<lambda>h. (h, w\<lparr>w_part_size := length (dev_data w i)\<rparr>)) (nvram_open (w_machine w) (current w i) True)"
proof (cases "w_staging w")
  case None
  have q: "quiet w" "nv_device w i" "dev_data w i \<noteq> []" using assms(1) by (auto simp: nv_ready_def)
  have d: "dev_data (w\<lparr>w_part_size := p\<rparr>) i = dev_data w i" for p by (simp add: dev_data_def)
  show ?thesis
    using None q nvram_find_mtd_quiet [OF q(1,2)]
    by (simp add: nvram_open_rdonly_def nvram_find_staging_def current_def open_file_def quiet_def file_data_def d)
next
  case (Some s)
  then have "length (dev_data w i) = length s" using assms(1) by (simp add: nv_ready_def current_def)
  then show ?thesis using open_file_staging [OF assms(1) Some, of True] Some assms(2)
    by (simp add: nvram_open_rdonly_def nvram_find_staging_def current_def)
qed

lemma poke_all: "length bs = length mem \<Longrightarrow> poke mem 0 bs = bs"
  by (simp add: poke_def)

text \<open>A run that writes: the staging file gets the new image, with \<^verbatim>\<open>commit\<close> it goes on to the device.\<close>

lemma nvram_main_write:
  assumes "nv_ready w i" and "args \<noteq> []" and "is_write args" and "nvram_open (w_machine w) (current w i) False = Some (Some h)"
    and "run_args fmt args \<lparr>c_nvram = h, c_stat = 1, c_done = 0, c_commit = False, c_out = []\<rparr> = Some c"
    and "nvram_commit (c_nvram c) = Some h1" and "h_alloc h1 = []" and "length (h_mmap h1) = length (current w i)"
  shows "nvram_main fmt args w = Some (if c_done c = 0 then 1 else 0,
    (if c_commit c then (set_dev_data i (h_mmap h1) w)\<lparr>w_staging := None\<rparr> else w\<lparr>w_staging := Some (h_mmap h1)\<rparr>)
      \<lparr>w_part_size := length (dev_data w i), w_out := w_out w @ c_out c\<rparr>)"
proof -
  let ?w0 = "w\<lparr>w_part_size := 0\<rparr>" and ?n = "length (dev_data w i)"
  have r: "quiet w" "nv_device w i" "length (current w i) = ?n" "0 < ?n" using assms(1) by (simp_all add: nv_ready_def)
  have cur: "current ?w0 i = current w i" "dev_data ?w0 i = dev_data w i" by (simp_all add: current_def dev_data_def cong: option.case_cong)
  let ?w4 = "w\<lparr>w_part_size := ?n, w_staging := Some (h_mmap h1), w_out := w_out w @ c_out c\<rparr>"
  have o: "nvram_open_staging ?w0 = Some (Some h, w\<lparr>w_part_size := ?n, w_staging := Some (current w i)\<rparr>)"
    using nvram_open_staging_ready [of ?w0 i] assms(1,4) by (simp add: cur)
  have d: "quiet ?w4" "nv_device ?w4 i" "dev_data ?w4 i = dev_data w i" using r(1,2) by (simp_all add: quiet_def nv_device_def dev_data_def)
  have st: "staging_to_nvram ?w4 = (0, (set_dev_data i (h_mmap h1) w)\<lparr>w_staging := None, w_part_size := ?n, w_out := w_out w @ c_out c\<rparr>)"
    using nvram_find_mtd_quiet [OF d(1,2)] r assms(8) d(3)
    by (simp add: staging_to_nvram_def quiet_def poke_all set_dev_data_def dev_data_def)
  show ?thesis
    unfolding nvram_main_def using o assms(2-8) st r(3) by (simp add: file_data_def poke_all quiet_machine [OF r(1)])
qed

lemma nvram_main_read:
  assumes "nv_ready w i" and "args \<noteq> []" and "\<not> is_write args" and "nvram_open (w_machine w) (current w i) True = Some (Some h)"
    and "run_args fmt args \<lparr>c_nvram = h, c_stat = 1, c_done = 0, c_commit = False, c_out = []\<rparr> = Some c"
    and "h_alloc (c_nvram c) = []" and "\<not> c_commit c"
  shows "nvram_main fmt args w = Some (if c_done c = 0 then 1 else c_stat c, w\<lparr>w_part_size := length (dev_data w i), w_out := w_out w @ c_out c\<rparr>)"
proof -
  let ?w0 = "w\<lparr>w_part_size := 0\<rparr>"
  have cur: "current ?w0 i = current w i" "dev_data ?w0 i = dev_data w i" by (simp_all add: current_def dev_data_def cong: option.case_cong)
  have q: "quiet w" using assms(1) by (simp add: nv_ready_def)
  show ?thesis
    unfolding nvram_main_def using nvram_open_rdonly_ready [of ?w0 i] assms by (simp add: cur quiet_machine [OF q])
qed

section \<open>Setting, committing and reading a variable\<close>

lemma vars_size_mem:
  assumes "finite (dom g)" and "g n = Some v"
  shows "length v + 2 \<le> vars_size g"
proof -
  have "finite (Map.graph g)" using assms(1) by simp
  moreover have "(n, v) \<in> Map.graph g" using assms(2) by (simp add: in_graphI)
  ultimately have "(\<lambda>(n, v). length n + length v + 2) (n, v) \<le> vars_size g"
    unfolding vars_size_def by (intro member_le_sum) auto
  then show ?thesis by simp
qed

lemma nv_area_finite:
  assumes "nv_area m mem off g" and "h_alloc m = []"
  shows "finite (dom g)"
proof -
  from assms obtain h where "nv_inv h" "nvram_get h = g" using nvram_open_frame [OF _ assms(2)] by (auto simp: nv_area_def nv_good_def)
  then show ?thesis using table_tuples(2) [of h] by (metis finite_dom_map_of)
qed

text \<open>What a run of \<open>set\<close> and of \<open>commit\<close> does to the staging file and the device.\<close>

lemma run_set:
  assumes "0x3d \<notin> set n"
  shows "run_args fmt [bytes_of ''set'', n @ 0x3d # v] \<lparr>c_nvram = h, c_stat = s, c_done = 0, c_commit = False, c_out = []\<rparr> =
    Some \<lparr>c_nvram = nv_op h (n, Some v), c_stat = fst (nvram_set h n v), c_done = 1, c_commit = False, c_out = []\<rparr>"
proof -
  have "takeWhile (\<lambda>b. b \<noteq> 0x3d) (n @ 0x3d # v) = n" using assms by (rule takeWhile_stop)
  then have "do_set h (n @ 0x3d # v) = nvram_set h n v" by (simp add: do_set_def)
  then show ?thesis by (simp add: bytes_of_def run_arg_def nv_op_def split: prod.splits)
qed

lemma is_write_simps [simp]: "is_write [bytes_of ''set'', x]" "is_write [bytes_of ''commit'']" "\<not> is_write [bytes_of ''get'', x]"
  by (simp_all add: is_write_def bytes_of_def)

lemma run_commit: "run_args fmt [bytes_of ''commit''] \<lparr>c_nvram = h, c_stat = s, c_done = 0, c_commit = False, c_out = []\<rparr> =
    Some \<lparr>c_nvram = h, c_stat = s, c_done = 1, c_commit = True, c_out = []\<rparr>"
  by (simp add: bytes_of_def)

lemma run_get: "nvram_get h n = Some v \<Longrightarrow> run_args fmt [bytes_of ''get'', n] \<lparr>c_nvram = h, c_stat = s, c_done = 0, c_commit = False, c_out = []\<rparr> =
    Some \<lparr>c_nvram = h, c_stat = 0, c_done = 1, c_commit = False, c_out = [v]\<rparr>"
  by (simp add: bytes_of_def run_arg_def do_get_def)

definition staged :: "nv_world \<Rightarrow> nat \<Rightarrow> byte list \<Rightarrow> nv_world" where
  "staged w i mem = w\<lparr>w_part_size := length (dev_data w i), w_staging := Some mem\<rparr>"

definition flashed :: "nv_world \<Rightarrow> nat \<Rightarrow> byte list \<Rightarrow> nv_world" where
  "flashed w i mem = (set_dev_data i mem w)\<lparr>w_part_size := length (dev_data w i), w_staging := None\<rparr>"

lemma staged_ready:
  assumes "nv_ready w i" and "length mem = length (dev_data w i)"
  shows "nv_ready (staged w i mem) i" and "current (staged w i mem) i = mem" and "dev_data (staged w i mem) i = dev_data w i"
  using assms by (auto simp: nv_ready_def quiet_def nv_device_def staged_def current_def dev_data_def)

lemma flashed_ready:
  assumes "nv_ready w i" and "length mem = length (dev_data w i)"
  shows "nv_ready (flashed w i mem) i" and "current (flashed w i mem) i = mem" and "dev_data (flashed w i mem) i = mem"
proof -
  let ?p = "\<lambda>d. \<not> strstr (bytes_of ''nvram'') (md_name d)"
  have "list_all ?p (take i ((w_mtd w)[i := x])) = list_all ?p (take i (w_mtd w))" for x by simp
  then show "nv_ready (flashed w i mem) i" "current (flashed w i mem) i = mem" "dev_data (flashed w i mem) i = mem"
    using assms by (auto simp: nv_ready_def quiet_def nv_device_def flashed_def current_def dev_data_def set_dev_data_def)
qed

lemma main_set:
  assumes "nv_ready w i" and "nv_area (w_machine w) (current w i) off g" and "length (current w i) < 4294967293" and "pair_ok (n, v)"
    and "off + round_up (22 + vars_size (g(n \<mapsto> v))) 4 < length (current w i)"
  obtains mem where "nvram_main fmt [bytes_of ''set'', n @ 0x3d # v] w = Some (0, staged w i mem)"
    and "nv_area (w_machine w) mem off (g(n \<mapsto> v))" and "length mem = length (dev_data w i)"
proof -
  let ?m = "w_machine w" and ?g = "g(n \<mapsto> v)"
  have q: "h_alloc ?m = []" "length (current w i) = length (dev_data w i)" using assms(1) by (simp_all add: nv_ready_def quiet_def)
  from assms(2) obtain h where h: "nvram_open ?m (current w i) False = Some (Some h)" "h_offset h = off" "nvram_get h = g"
    by (auto simp: nv_area_def)
  have le: "off + 22 + vars_size ?g < length (current w i)" using assms(5) round_up_4(2) [of "22 + vars_size ?g"] by linarith
  have "length v + 2 \<le> vars_size ?g" using nv_area_finite [OF assms(2) q(1)] by (intro vars_size_mem) auto
  then have ops: "list_all (op_ok (length (current w i) - h_offset h)) [(n, Some v)]" using assms(4) le h(2) by (simp add: op_ok_def)
  have sd: "sdram_names \<subseteq> dom ?g" using nv_area_sdram [OF assms(2) q(1) assms(3)] le by auto
  obtain h1 where h1: "nvram_commit (nv_op h (n, Some v)) = Some h1" "nv_area ?m (h_mmap h1) off ?g"
    "length (h_mmap h1) = length (current w i)" "h_alloc h1 = []"
    using nv_area_session [OF h(1) q(1) assms(3) ops, of ?g] h assms(5) sd by auto
  have ne: "0x3d \<notin> set n" using assms(4) by (simp add: pair_ok_def)
  have "nvram_main fmt [bytes_of ''set'', n @ 0x3d # v] w = Some (0, staged w i (h_mmap h1))"
    using nvram_main_write [OF assms(1) _ _ h(1) run_set [OF ne]] h1 by (simp add: staged_def)
  then show ?thesis using that h1 q(2) by simp
qed

lemma main_commit:
  assumes "nv_ready w i" and "nv_area (w_machine w) (current w i) off g" and "length (current w i) < 4294967293"
    and "off + round_up (22 + vars_size g) 4 < length (current w i)"
  obtains mem where "nvram_main fmt [bytes_of ''commit''] w = Some (0, flashed w i mem)"
    and "nv_area (w_machine w) mem off g" and "length mem = length (dev_data w i)"
proof -
  let ?m = "w_machine w"
  have q: "h_alloc ?m = []" "length (current w i) = length (dev_data w i)" using assms(1) by (simp_all add: nv_ready_def quiet_def)
  from assms(2) obtain h where h: "nvram_open ?m (current w i) False = Some (Some h)" "h_offset h = off" "nvram_get h = g"
    by (auto simp: nv_area_def)
  have le: "off + 22 + vars_size g < length (current w i)" using assms(4) round_up_4(2) [of "22 + vars_size g"] by linarith
  have sd: "sdram_names \<subseteq> dom g" using nv_area_sdram [OF assms(2) q(1) assms(3)] le by auto
  obtain h1 where h1: "nvram_commit h = Some h1" "nv_area ?m (h_mmap h1) off g"
    "length (h_mmap h1) = length (current w i)" "h_alloc h1 = []"
    using nv_area_session [OF h(1) q(1) assms(3), of "[]" g] h assms(4) sd by auto
  have "nvram_main fmt [bytes_of ''commit''] w = Some (0, flashed w i (h_mmap h1))"
    using nvram_main_write [OF assms(1) _ _ h(1) run_commit] h1 by (simp add: flashed_def set_dev_data_def)
  then show ?thesis using that h1 q(2) by simp
qed

lemma main_get:
  assumes "nv_ready w i" and "nv_area (w_machine w) (current w i) off g" and "g n = Some v"
  shows "nvram_main fmt [bytes_of ''get'', n] w = Some (0, w\<lparr>w_part_size := length (dev_data w i), w_out := w_out w @ [v]\<rparr>)"
proof -
  have q: "h_alloc (w_machine w) = []" using assms(1) by (simp add: nv_ready_def quiet_def)
  from assms(2) obtain h where h: "nvram_open (w_machine w) (current w i) False = Some (Some h)" "nvram_get h = g" by (auto simp: nv_area_def)
  have "h_alloc h = []" using nvram_open_frame [OF h(1) q] by (simp add: nv_good_def)
  then show ?thesis
    using nvram_main_read [OF assms(1) _ _ nvram_open_rdonly_same [OF q h(1)] run_get] h(2) assms(3) by simp
qed

text \<open>
  C23. When no system call and no allocation fails and the variables, with the new one, fit into the area with a word to spare, what is set and committed
  stays: \<^verbatim>\<open>nvram set\<close> and \<^verbatim>\<open>nvram commit\<close> end with status 0, the variable is then in the area of the flash beside all the others, the staging file is
  gone, and \<^verbatim>\<open>nvram get\<close> prints the value. Before the commit the flash is not written.
\<close>

theorem nvram_set_commit_get:
  assumes "nv_ready w i" and "nv_area (w_machine w) (current w i) off g" and "length (current w i) < 4294967293" and "pair_ok (n, v)"
    and "off + round_up (22 + vars_size (g(n \<mapsto> v))) 4 < length (current w i)"
  shows "\<exists>w1 w2 w3. nvram_main fmt [bytes_of ''set'', n @ 0x3d # v] w = Some (0, w1) \<and> w_mtd w1 = w_mtd w \<and>
    nvram_main fmt [bytes_of ''commit''] w1 = Some (0, w2) \<and> w_staging w2 = None \<and>
    nv_area (w_machine w) (dev_data w2 i) off (g(n \<mapsto> v)) \<and>
    nvram_main fmt [bytes_of ''get'', n] w2 = Some (0, w3) \<and> w_out w3 = w_out w @ [v]"
proof -
  have len: "length (dev_data w i) = length (current w i)" using assms(1) by (simp add: nv_ready_def)
  obtain mem where s: "nvram_main fmt [bytes_of ''set'', n @ 0x3d # v] w = Some (0, staged w i mem)"
    "nv_area (w_machine w) mem off (g(n \<mapsto> v))" "length mem = length (dev_data w i)" by (rule main_set [OF assms])
  let ?w1 = "staged w i mem"
  note r1 = staged_ready [OF assms(1) s(3)]
  have "w_machine ?w1 = w_machine w" by (simp add: staged_def)
  then obtain mem2 where c: "nvram_main fmt [bytes_of ''commit''] ?w1 = Some (0, flashed ?w1 i mem2)"
    "nv_area (w_machine w) mem2 off (g(n \<mapsto> v))" "length mem2 = length (dev_data ?w1 i)"
    using main_commit [OF r1(1), of off "g(n \<mapsto> v)" fmt] r1 s(2,3) assms(3,5) len by auto
  note r2 = flashed_ready [OF r1(1) c(3)]
  have w2: "w_machine (flashed ?w1 i mem2) = w_machine w" "w_staging (flashed ?w1 i mem2) = None" "w_out (flashed ?w1 i mem2) = w_out w"
    "w_mtd ?w1 = w_mtd w"
    by (simp_all add: flashed_def staged_def set_dev_data_def)
  then have "nvram_main fmt [bytes_of ''get'', n] (flashed ?w1 i mem2) =
    Some (0, (flashed ?w1 i mem2)\<lparr>w_part_size := length (dev_data (flashed ?w1 i mem2) i), w_out := w_out w @ [v]\<rparr>)"
    using main_get [OF r2(1), of off "g(n \<mapsto> v)" n v fmt] c(2) r2(2) by simp
  then show ?thesis using s(1) c r2(3) w2 by fastforce
qed

text \<open>An example: the area of the other theory, on the second of two devices.\<close>

definition ex_world :: nv_world where
  "ex_world = \<lparr>w_mtd = [\<lparr>md_name = bytes_of ''boot'', md_blk = True, md_data = []\<rparr>, \<lparr>md_name = bytes_of ''nvram'', md_blk = True, md_data = ex_area\<rparr>],
     w_staging = None, w_part_size = 0, w_sys = [], w_machine = ex_handle, w_out = []\<rparr>"

lemma ex_world_ready: "nv_ready ex_world 1" "current ex_world 1 = ex_area" "w_machine ex_world = ex_handle" "length ex_area = 32768"
proof -
  show l: "length ex_area = 32768" by (simp add: ex_area_def)
  then have "ex_area \<noteq> []" by force
  then show "nv_ready ex_world 1"
    by (simp add: nv_ready_def quiet_def nv_device_def ex_world_def current_def dev_data_def ex_handle_def bytes_of_def)
qed (simp_all add: ex_world_def current_def dev_data_def)

lemma ex_world_area: "\<exists>g. nv_area ex_handle ex_area 0 g \<and> vars_size (g([0x61] \<mapsto> [0x62])) = 85 \<and> vars_size g = 81"
proof -
  obtain h where h: "nvram_open ex_handle ex_area False = Some (Some h)" "h_offset h = 0" "nvram_get h = map_of (sdram_vars (get_header h))"
    using ex_area_open by blast
  let ?g = "map_of (sdram_vars (get_header h))" and ?ps = "([0x61], [0x62]) # sdram_vars (get_header h)"
  have size: "vars_size (map_of ps) = length (pairs_text ps)" if "distinct (map fst ps)" for ps
    using that by (simp add: vars_size_def graph_map_of_if_distinct_dom pairs_text_size distinct_map sum_list_distinct_conv_sum_set)
  have d: "distinct (map fst ?ps)" by (simp add: sdram_vars_def bytes_of_def)
  then have "vars_size (?g([0x61] \<mapsto> [0x62])) = length (pairs_text ?ps)" "vars_size ?g = length (pairs_text (sdram_vars (get_header h)))"
    using size [of ?ps] size [of "sdram_vars (get_header h)"] by simp_all
  then have "vars_size (?g([0x61] \<mapsto> [0x62])) = 85" "vars_size ?g = 81" by (simp_all add: sdram_vars_def bytes_of_def)
  moreover have "nv_area ex_handle ex_area 0 ?g" using h by (auto simp: nv_area_def)
  ultimately show ?thesis by blast
qed

theorem nvram_set_commit_get_witness:
  "\<exists>w1 w2 w3. nvram_main (\<lambda>_. []) [bytes_of ''set'', bytes_of ''a=b''] ex_world = Some (0, w1) \<and>
    nvram_main (\<lambda>_. []) [bytes_of ''commit''] w1 = Some (0, w2) \<and>
    nvram_main (\<lambda>_. []) [bytes_of ''get'', bytes_of ''a''] w2 = Some (0, w3) \<and> w_out w3 = [bytes_of ''b'']"
proof -
  obtain g where g: "nv_area ex_handle ex_area 0 g" "vars_size (g([0x61] \<mapsto> [0x62])) = 85" using ex_world_area by blast
  have "bytes_of ''a=b'' = [0x61] @ 0x3d # [0x62]" "bytes_of ''a'' = [0x61]" "bytes_of ''b'' = [0x62]" "w_out ex_world = []"
    by (simp_all add: bytes_of_def ex_world_def)
  moreover have "pair_ok ([0x61], [0x62])" "round_up 107 4 = 108" by (simp_all add: pair_ok_def round_up_def)
  ultimately show ?thesis
    using nvram_set_commit_get [OF ex_world_ready(1), of 0 g "[0x61]" "[0x62]" "\<lambda>_. []"] g by (simp add: ex_world_ready [unfolded One_nat_def]) blast
qed

section \<open>What a run may change\<close>

lemma sys_frame [simp]: "w_mtd (snd (sys w)) = w_mtd w" "w_staging (snd (sys w)) = w_staging w"
  by (auto simp: sys_def split: list.splits)

lemma w_alloc_frame [simp]: "w_mtd (snd (w_alloc w)) = w_mtd w" "w_staging (snd (w_alloc w)) = w_staging w"
  by (simp_all add: w_alloc_def split: prod.splits)

lemma find_mtd_from_frame: "w_mtd (snd (find_mtd_from i ds w)) = w_mtd w \<and> w_staging (snd (find_mtd_from i ds w)) = w_staging w"
  by (induction ds arbitrary: i w) (simp_all add: Let_def split_beta)

lemma nvram_find_mtd_frame [simp]:
  "w_mtd (snd (nvram_find_mtd w)) = w_mtd w" "w_staging (snd (nvram_find_mtd w)) = w_staging w"
  by (simp_all add: nvram_find_mtd_def split_beta find_mtd_from_frame)

lemma open_file_frame: "open_file w file rd = Some (r, w') \<Longrightarrow> w_mtd w' = w_mtd w \<and> w_staging w' = w_staging w"
  by (auto simp: open_file_def Let_def split_beta split: if_splits)

lemma nvram_to_staging_frame: "w_mtd (snd (nvram_to_staging w)) = w_mtd w"
  by (simp add: nvram_to_staging_def Let_def split_beta split: option.split)

lemma open_frames:
  "nvram_open_staging w = Some (r, w') \<Longrightarrow> w_mtd w' = w_mtd w"
  "nvram_open_rdonly w = Some (r, w') \<Longrightarrow> w_mtd w' = w_mtd w \<and> w_staging w' = w_staging w"
  using nvram_to_staging_frame [of w]
  by (auto simp: nvram_open_staging_def nvram_open_rdonly_def split_beta dest!: open_file_frame split: if_splits option.splits)

lemma run_args_commit:
  "run_args fmt args c = Some c' \<Longrightarrow> bytes_of ''commit'' \<notin> set args \<Longrightarrow> c_commit c' = c_commit c"
proof (induction args arbitrary: c rule: length_induct)
  case (1 args)
  have arg: "c_commit (run_arg a x c) = c_commit c" for a x by (simp add: run_arg_def split_beta)
  have IH: "c_commit c' = c_commit c1" if "run_args fmt args' c1 = Some c'" "length args' < length args" "set args' \<subseteq> set args" for args' c1
    using 1 that by blast
  show ?case
  proof (cases args)
    case Nil
    then show ?thesis using "1.prems" by simp
  next
    case (Cons a rest)
    have rest: "length rest < length args" "set rest \<subseteq> set args" by (auto simp: Cons)
    consider "a = bytes_of ''show''" | "a = bytes_of ''info''" | "a \<noteq> bytes_of ''show''" "a \<noteq> bytes_of ''info''" by blast
    then show ?thesis
    proof cases
      case 1
      obtain st out h where "do_show (c_nvram c) = (st, out, h)" by (cases "do_show (c_nvram c)")
      then have "run_args fmt rest (c\<lparr>c_stat := st, c_nvram := h, c_out := c_out c @ out, c_done := c_done c + 1\<rparr>) = Some c'"
        using "1.prems"(1) 1 by (simp add: Cons)
      from IH [OF this rest] show ?thesis by simp
    next
      case 2
      then obtain l where "run_args fmt rest (c\<lparr>c_stat := 0, c_out := c_out c @ fmt l, c_done := c_done c + 1\<rparr>) = Some c'"
        using "1.prems"(1) by (auto simp: Cons bytes_of_def split: option.splits)
      from IH [OF this rest] show ?thesis by simp
    next
      case 3
      moreover have "a \<noteq> bytes_of ''commit''" using "1.prems"(2) by (auto simp: Cons)
      ultimately have "(\<exists>args' x. rest = x # args' \<and> run_args fmt args' (run_arg a x c) = Some c') \<or> c' = c\<lparr>c_done := 0\<rparr>"
        using "1.prems"(1) by (cases rest) (simp_all add: Cons split: if_splits)
      then show ?thesis using IH arg by (fastforce simp: Cons)
    qed
  qed
qed

text \<open>
  C27. A run without \<^verbatim>\<open>commit\<close> among its arguments writes to no MTD device, and if its first argument is neither \<^verbatim>\<open>set\<close> nor \<^verbatim>\<open>unset\<close> it does not touch the
  staging file either, for any arguments, any contents and any failing system calls.
\<close>

theorem nvram_main_safe:
  assumes "nvram_main fmt args w = Some (st, w')" and "bytes_of ''commit'' \<notin> set args"
  shows "w_mtd w' = w_mtd w \<and> (\<not> is_write args \<longrightarrow> w_staging w' = w_staging w)"
proof -
  let ?w = "w\<lparr>w_part_size := 0\<rparr>"
  show ?thesis
  proof (cases "args = []")
    case True
    then show ?thesis using assms(1) by (simp add: nvram_main_def)
  next
    case False
    then obtain r w1 where o: "(if is_write args then nvram_open_staging ?w else nvram_open_rdonly ?w) = Some (r, w1)"
      using assms(1) by (cases "if is_write args then nvram_open_staging ?w else nvram_open_rdonly ?w") (simp add: nvram_main_def, fastforce)
    then have w1: "w_mtd w1 = w_mtd w" "\<not> is_write args \<Longrightarrow> w_staging w1 = w_staging w"
      using open_frames(1) [of ?w r w1] open_frames(2) [of ?w r w1] by (cases "is_write args"; simp)+
    show ?thesis
    proof (cases r)
      case None
      then show ?thesis using assms(1) False o w1 by (simp add: nvram_main_def)
    next
      case (Some h)
      let ?c = "\<lparr>c_nvram = h, c_stat = 1, c_done = 0, c_commit = False, c_out = []\<rparr>"
      obtain c where c: "run_args fmt args ?c = Some c"
        using assms(1) False o Some by (simp add: nvram_main_def split: option.splits)
      have "\<not> c_commit c" using run_args_commit [OF c assms(2)] by simp
      then show ?thesis using assms(1) False o Some c w1
        by (cases "is_write args") (auto simp: nvram_main_def Let_def split: option.splits)
    qed
  qed
qed

theorem nvram_main_safe_witness:
  "\<exists>w'. nvram_main (\<lambda>_. []) [bytes_of ''set'', bytes_of ''a=b''] ex_world = Some (0, w') \<and> w_mtd w' = w_mtd ex_world"
proof -
  obtain g where g: "nv_area ex_handle ex_area 0 g" "vars_size (g([0x61] \<mapsto> [0x62])) = 85" using ex_world_area by blast
  have "bytes_of ''a=b'' = [0x61] @ 0x3d # [0x62]" "pair_ok ([0x61], [0x62])" "round_up 107 4 = 108"
    by (simp_all add: bytes_of_def pair_ok_def round_up_def)
  then obtain mem where m: "nvram_main (\<lambda>_. []) [bytes_of ''set'', bytes_of ''a=b''] ex_world = Some (0, staged ex_world 1 mem)"
    using main_set [OF ex_world_ready(1), of 0 g "[0x61]" "[0x62]" "\<lambda>_. []"] g by (simp add: ex_world_ready [unfolded One_nat_def]) metis
  moreover have "bytes_of ''commit'' \<notin> set [bytes_of ''set'', bytes_of ''a=b'']" by (simp add: bytes_of_def)
  ultimately show ?thesis using nvram_main_safe by blast
qed

text \<open>The exit status of a \<^verbatim>\<open>set\<close> that fails is lost: the commit to the staging file overwrites it.\<close>

lemma nvram_set_failure_lost:
  assumes "nv_ready w i" and "nv_area (w_machine w) (current w i) off g" and "length (current w i) < 4294967293"
    and "off + round_up (22 + vars_size g) 4 < length (current w i)" and "0x3d \<notin> set x"
  shows "\<exists>w1. nvram_main fmt [bytes_of ''set'', x] w = Some (0, w1) \<and> nv_area (w_machine w1) (current w1 i) off g"
proof -
  let ?m = "w_machine w"
  have q: "h_alloc ?m = []" "length (current w i) = length (dev_data w i)" using assms(1) by (simp_all add: nv_ready_def quiet_def)
  from assms(2) obtain h where h: "nvram_open ?m (current w i) False = Some (Some h)" "h_offset h = off" "nvram_get h = g"
    by (auto simp: nv_area_def)
  have le: "off + 22 + vars_size g < length (current w i)" using assms(4) round_up_4(2) [of "22 + vars_size g"] by linarith
  have sd: "sdram_names \<subseteq> dom g" using nv_area_sdram [OF assms(2) q(1) assms(3)] le by auto
  obtain h1 where h1: "nvram_commit h = Some h1" "nv_area ?m (h_mmap h1) off g"
    "length (h_mmap h1) = length (current w i)" "h_alloc h1 = []"
    using nv_area_session [OF h(1) q(1) assms(3), of "[]" g] h assms(4) sd by auto
  have "run_args fmt [bytes_of ''set'', x] \<lparr>c_nvram = h, c_stat = 1, c_done = 0, c_commit = False, c_out = []\<rparr> =
    Some \<lparr>c_nvram = h, c_stat = 1, c_done = 1, c_commit = False, c_out = []\<rparr>"
    using assms(5) by (simp add: bytes_of_def run_arg_def do_set_def)
  from nvram_main_write [OF assms(1) _ _ h(1) this] h1
  have "nvram_main fmt [bytes_of ''set'', x] w = Some (0, staged w i (h_mmap h1))" by (simp add: staged_def)
  moreover have "w_machine (staged w i (h_mmap h1)) = ?m" "current (staged w i (h_mmap h1)) i = h_mmap h1"
    by (simp_all add: staged_def current_def)
  ultimately show ?thesis using h1(2) by metis
qed

text \<open>A failing \<^verbatim>\<open>write\<close> to the flash is not noticed: the device keeps its content and the staging file is removed.\<close>

lemma staging_write_failure_lost:
  assumes "nv_ready w i" and "w_staging w = Some s"
  shows "\<exists>w1. staging_to_nvram (w\<lparr>w_sys := [True, True, True, True, False]\<rparr>) = (0, w1) \<and> w_staging w1 = None \<and> w_mtd w1 = w_mtd w"
proof -
  have r: "h_alloc (w_machine w) = []" "nv_device w i" "length s = length (dev_data w i)" "dev_data w i \<noteq> []"
    using assms by (auto simp: nv_ready_def quiet_def current_def)
  let ?w = "w\<lparr>w_sys := [True, True, True, False]\<rparr>"
  have i: "i < length (w_mtd w)" using r(2) by (simp add: nv_device_def)
  have "find_mtd_from 0 (take i (w_mtd w) @ w_mtd w ! i # drop (Suc i) (w_mtd w)) ?w = (Some i, ?w\<lparr>w_part_size := length (dev_data w i)\<rparr>)"
    using r(1,2) i by (subst find_mtd_from_quiet) (auto simp: nv_device_def dev_data_def)
  then have "nvram_find_mtd (w\<lparr>w_sys := [True, True, True, True, False]\<rparr>) = (Some i, ?w\<lparr>w_part_size := length (dev_data w i)\<rparr>)"
    using id_take_nth_drop [OF i] by (simp add: nvram_find_mtd_def sys_def)
  then show ?thesis using assms(2) r by (simp add: staging_to_nvram_def sys_def)
qed

lemma round_up_4_le: "n \<le> k \<Longrightarrow> k mod 4 = 0 \<Longrightarrow> round_up n 4 \<le> k"
  unfolding round_up_def by presburger

text \<open>
  On a little endian machine the checksum that \<^verbatim>\<open>nvram info\<close> computes for an area written by
  a commit is the one stored in the header, and \<^verbatim>\<open>info\<close> does not read behind the area.
\<close>

theorem nvram_commit_info_crc:
  assumes "nv_inv h" and "fits h" and "\<not> h_be h" and "h_length h < 4294967293" and "(h_length h - h_offset h) mod 4 = 0"
    and "nvram_commit h = Some h'"
  shows "\<exists>l. do_info h' = Some l \<and> map_of l ''CRC8'' = map_of l ''calculated'' \<and> map_of l ''CRC8'' \<noteq> None \<and>
    map_of l ''Length'' = Some (round_up (22 + length (commit_text h)) 4)"
proof -
  note c = nvram_commit_crc [OF assms(2,1,3,4,6)]
  let ?n = "22 + length (commit_text h)"
  have f: "h_offset h + ?n \<le> h_length h" using assms(2) by (simp add: fits_def)
  have "round_up ?n 4 \<le> h_length h - h_offset h" using f assms(5) round_up_4_le [of ?n "h_length h - h_offset h"] by linarith
  moreover have "9 \<le> round_up ?n 4" using round_up_4(2) [of ?n] by linarith
  ultimately have "\<not> h_length h < h_offset h + 9 + sub32 (round_up ?n 4) 9" using assms(4) f by simp
  then show ?thesis by (simp add: do_info_def c Let_def)
qed

theorem nvram_commit_info_crc_witness:
  "\<exists>h h' l. nvram_open ex_handle ex_area False = Some (Some h) \<and> nvram_commit h = Some h' \<and> do_info h' = Some l \<and>
    map_of l ''CRC8'' = map_of l ''calculated'' \<and> map_of l ''Length'' = Some 104"
proof -
  obtain g where g: "nv_area ex_handle ex_area 0 g" "vars_size g = 81" using ex_world_area by blast
  then obtain h where h: "nvram_open ex_handle ex_area False = Some (Some h)" "h_offset h = 0" "nvram_get h = g" by (auto simp: nv_area_def)
  have a: "h_alloc ex_handle = []" by (simp add: ex_handle_def)
  note o = nvram_open_frame [OF h(1) a]
  have f: "nv_inv h" "h_length h = 32768" "h_mmap h = ex_area" "\<not> h_be h"
    using o ex_world_ready(4) by (auto simp: same_frame_def opened_def nv_good_def ex_handle_def)
  have c: "length (commit_text h) = 81" using commit_text_size [OF f(1)] h(3) g(2) by (simp add: vars_size_def)
  have r: "round_up 103 4 = 104" by (simp add: round_up_def)
  have "sdram_names \<subseteq> dom g" using nv_area_sdram [OF g(1) a] ex_world_ready(4) by simp
  then obtain h' where h': "nvram_commit h = Some h'"
    using nv_area_session [OF h(1) a, of "[]" g] h g(2) r ex_world_ready(4) by auto
  have "fits h" using f c h(2) ex_world_ready(4) by (simp add: fits_def)
  then show ?thesis using nvram_commit_info_crc [OF f(1) _ f(4) _ _ h'] f(2) h(1,2) h' c r by auto
qed

end
