(* ===== verification/Mtd_Io.thy ===== *)
theory Mtd_Io
  imports Flash_Prelude
begin

text \<open>
  The \<^verbatim>\<open>mtd\<close> tool (\<^verbatim>\<open>package/system/mtd/src\<close>): opening, testing, erasing and dumping a device (\<^verbatim>\<open>mtd.c\<close>).

  The kernel is a parameter, a record of the system calls over an arbitrary state, so that every call may fail. A call
  of \<^verbatim>\<open>exit\<close> is the outcome \<open>Exit\<close>, and so is a crash, with status 139. The byte order and the width of \<^verbatim>\<open>size_t\<close> are
  those of the machine. The global variables are the fields of \<open>tool\<close>. Messages are left out, and with
  them the variable \<^verbatim>\<open>quiet\<close>; \<^verbatim>\<open>malloc\<close> succeeds. A loop whose end depends on the kernel takes fuel, one unit per round,
  and is \<^const>\<open>None\<close> without it.
\<close>

section \<open>The kernel\<close>

record mtd_info_user =
  mi_nand :: bool
  mi_size :: nat
  mi_erasesize :: nat
  mi_writesize :: nat

text \<open>\<open>DevNode block slash i\<close> is \<^verbatim>\<open>/dev/mtd/i\<close>, \<^verbatim>\<open>/dev/mtdi\<close>, \<^verbatim>\<open>/dev/mtdblock/i\<close> or \<^verbatim>\<open>/dev/mtdblocki\<close>.\<close>

datatype path = Path "byte list" | DevNode bool bool nat

text \<open>
  The system calls; a file descriptor is an \<open>int\<close>. \<open>os_proc\<close> gives the lines of \<^verbatim>\<open>/proc/mtd\<close> that begin with
  \<^verbatim>\<open>mtd\<close> and a number, with this number. \<open>os_read\<close> and \<open>os_pread\<close> return the error number or the bytes read.
  \<open>os_seek\<close> moves the file position, from the current one when the flag is set. \<open>os_mmap\<close> is the memory that is mapped and
  \<open>os_munmap\<close> writes it back.
\<close>

record 'd mtd_os =
  os_proc :: "'d \<Rightarrow> (nat \<times> byte list) list option"
  os_open :: "path \<Rightarrow> bool \<Rightarrow> 'd \<Rightarrow> int \<times> 'd"
  os_close :: "int \<Rightarrow> 'd \<Rightarrow> 'd"
  os_info :: "int \<Rightarrow> 'd \<Rightarrow> mtd_info_user option"
  os_read :: "int \<Rightarrow> nat \<Rightarrow> 'd \<Rightarrow> (int + byte list) \<times> 'd"
  os_write :: "int \<Rightarrow> byte list \<Rightarrow> 'd \<Rightarrow> int \<times> 'd"
  os_seek :: "int \<Rightarrow> int \<Rightarrow> bool \<Rightarrow> 'd \<Rightarrow> 'd"
  os_pread :: "int \<Rightarrow> nat \<Rightarrow> nat \<Rightarrow> 'd \<Rightarrow> (int + byte list) \<times> 'd"
  os_pwrite :: "int \<Rightarrow> byte list \<Rightarrow> nat \<Rightarrow> 'd \<Rightarrow> int \<times> 'd"
  os_isbad :: "int \<Rightarrow> int \<Rightarrow> 'd \<Rightarrow> int \<times> 'd"
  os_erase :: "int \<Rightarrow> nat \<Rightarrow> nat \<Rightarrow> 'd \<Rightarrow> int \<times> 'd"
  os_unlock :: "int \<Rightarrow> nat \<Rightarrow> nat \<Rightarrow> 'd \<Rightarrow> 'd"
  os_mmap :: "int \<Rightarrow> nat \<Rightarrow> 'd \<Rightarrow> byte list option"
  os_munmap :: "int \<Rightarrow> byte list \<Rightarrow> 'd \<Rightarrow> 'd"

abbreviation (input) EINTR :: int where "EINTR \<equiv> 4"
abbreviation (input) EAGAIN :: int where "EAGAIN \<equiv> 11"

datatype 'a outcome = Exit int | Ret 'a

record 'd tool =
  kern :: 'd
  mtdsize :: int
  erasesize :: int
  mtdtype_nand :: bool
  opt_trxmagic :: nat
  big_endian :: bool
  size_bits :: nat
  tbuf :: "byte list"
  tbuflen :: int

text \<open>Conversion of an integer to \<^verbatim>\<open>size_t\<close>.\<close>

definition to_size :: "'d tool \<Rightarrow> int \<Rightarrow> nat" where
  "to_size w i = nat (i mod 2 ^ size_bits w)"

text \<open>A 32-bit number of the machine at some place in memory.\<close>

definition host32_at :: "'d tool \<Rightarrow> byte list \<Rightarrow> nat \<Rightarrow> nat" where
  "host32_at w bs off = (if big_endian w then be32_at bs off else le32_at bs off)"

definition host32_bytes :: "'d tool \<Rightarrow> nat \<Rightarrow> byte list" where
  "host32_bytes w n = (if big_endian w then rev (le32 n) else le32 n)"

section \<open>Opening\<close>

definition dquote :: byte where
  "dquote = 34"

definition mtd_open :: "'d mtd_os \<Rightarrow> byte list \<Rightarrow> bool \<Rightarrow> bool \<Rightarrow> 'd tool \<Rightarrow> int \<times> 'd tool" where
  "mtd_open K mtd block write_mode w =
     (let match = (case os_proc K (kern w) of
                     None \<Rightarrow> None
                   | Some ls \<Rightarrow> List.find (\<lambda>(i, l). strstr (dquote # mtd @ [dquote]) l) ls)
      in case match of
           None \<Rightarrow> (let (fd, k) = os_open K (Path mtd) write_mode (kern w) in (fd, w\<lparr>kern := k\<rparr>))
         | Some (i, _) \<Rightarrow>
             let (fd, k) = os_open K (DevNode block True i) write_mode (kern w);
                 (fd', k') = (if fd < 0 then os_open K (DevNode block False i) write_mode k else (fd, k))
             in (fd', w\<lparr>kern := k'\<rparr>))"

definition close_fd :: "'d mtd_os \<Rightarrow> int \<Rightarrow> 'd tool \<Rightarrow> 'd tool" where
  "close_fd K fd w = w\<lparr>kern := os_close K fd (kern w)\<rparr>"

definition mtd_check_open :: "'d mtd_os \<Rightarrow> byte list \<Rightarrow> bool \<Rightarrow> 'd tool \<Rightarrow> int \<times> 'd tool" where
  "mtd_check_open K mtd write_mode w =
     (let (fd, w1) = mtd_open K mtd False write_mode w
      in if fd < 0 then (- 1, w1)
         else case os_info K fd (kern w1) of
                None \<Rightarrow> (- 1, close_fd K fd w1)
              | Some i \<Rightarrow> (fd, w1\<lparr>mtdsize := s32 (mi_size i), erasesize := s32 (mi_erasesize i), mtdtype_nand := mi_nand i\<rparr>))"

section \<open>Blocks\<close>

definition mtd_block_is_bad :: "'d mtd_os \<Rightarrow> int \<Rightarrow> int \<Rightarrow> 'd tool \<Rightarrow> int outcome \<times> 'd tool" where
  "mtd_block_is_bad K fd offset w =
     (if \<not> mtdtype_nand w then (Ret 0, w)
      else let (r, k) = os_isbad K fd offset (kern w)
           in (if r < 0 then Exit 1 else Ret r, w\<lparr>kern := k\<rparr>))"

definition mtd_erase_block :: "'d mtd_os \<Rightarrow> int \<Rightarrow> int \<Rightarrow> 'd tool \<Rightarrow> int \<times> 'd tool" where
  "mtd_erase_block K fd offset w =
     (let start = u32_of_int offset;
          len = u32_of_int (erasesize w);
          k1 = os_unlock K fd start len (kern w);
          (r, k2) = os_erase K fd start len k1
      in (if r < 0 then - 1 else 0, w\<lparr>kern := k2\<rparr>))"

definition mtd_write_buffer :: "'d mtd_os \<Rightarrow> int \<Rightarrow> byte list \<Rightarrow> int \<Rightarrow> 'd tool \<Rightarrow> int \<times> 'd tool" where
  "mtd_write_buffer K fd buf offset w =
     (let (_, k) = os_write K fd buf (os_seek K fd offset False (kern w)) in (0, w\<lparr>kern := k\<rparr>))"

section \<open>Unlocking and erasing\<close>

text \<open>The names of a list of devices separated by colons.\<close>

definition colon :: byte where
  "colon = 58"

fun device_names :: "byte list \<Rightarrow> byte list list" where
  "device_names [] = [[]]"
| "device_names (b # bs) = (if b = colon then [] # device_names bs else (b # hd (device_names bs)) # tl (device_names bs))"

fun unlock_devices :: "'d mtd_os \<Rightarrow> byte list list \<Rightarrow> 'd tool \<Rightarrow> int outcome \<times> 'd tool" where
  "unlock_devices K [] w = (Ret 0, w)"
| "unlock_devices K (m # ms) w =
     (let (fd, w1) = mtd_check_open K m True w
      in if fd < 0 then (Exit 1, w1)
         else unlock_devices K ms (close_fd K fd (w1\<lparr>kern := os_unlock K fd 0 (u32_of_int (mtdsize w1)) (kern w1)\<rparr>)))"

definition mtd_unlock :: "'d mtd_os \<Rightarrow> byte list \<Rightarrow> 'd tool \<Rightarrow> int outcome \<times> 'd tool" where
  "mtd_unlock K mtd w = unlock_devices K (device_names mtd) w"

text \<open>The buffer is allocated for the first device. The code does not depend on what it holds at first: 0 in the model.\<close>

fun check_devices :: "'d mtd_os \<Rightarrow> byte list list \<Rightarrow> 'd tool \<Rightarrow> int \<times> 'd tool" where
  "check_devices K [] w = (1, w)"
| "check_devices K (m # ms) w =
     (let (fd, w1) = mtd_check_open K m True w
      in if fd < 0 then (0, w1)
         else check_devices K ms (close_fd K fd (w1\<lparr>tbuf := (if tbuf w1 = [] then replicate (nat (erasesize w1)) 0 else tbuf w1)\<rparr>)))"

definition mtd_check :: "'d mtd_os \<Rightarrow> byte list \<Rightarrow> 'd tool \<Rightarrow> int \<times> 'd tool" where
  "mtd_check K mtd w = check_devices K (device_names mtd) w"

text \<open>The offset is a \<^verbatim>\<open>u32\<close> and wraps at the end of the largest devices.\<close>

fun erase_blocks :: "nat \<Rightarrow> 'd mtd_os \<Rightarrow> int \<Rightarrow> nat \<Rightarrow> 'd tool \<Rightarrow> (int outcome \<times> 'd tool) option" where
  "erase_blocks 0 K fd start w = None"
| "erase_blocks (Suc fuel) K fd start w =
     (if \<not> start < u32_of_int (mtdsize w) then Some (Ret 0, w)
      else
        case mtd_block_is_bad K fd (s32 start) w of
          (Exit e, w1) \<Rightarrow> Some (Exit e, w1)
        | (Ret bad, w1) \<Rightarrow>
            let len = u32_of_int (erasesize w1);
                w2 = (if bad \<noteq> 0 then w1 else w1\<lparr>kern := snd (os_erase K fd start len (os_unlock K fd start len (kern w1)))\<rparr>)
            in erase_blocks fuel K fd (u32 (start + len)) w2)"

definition mtd_erase :: "nat \<Rightarrow> 'd mtd_os \<Rightarrow> byte list \<Rightarrow> 'd tool \<Rightarrow> (int outcome \<times> 'd tool) option" where
  "mtd_erase fuel K mtd w =
     (let (fd, w1) = mtd_check_open K mtd True w
      in if fd < 0 then Some (Exit 1, w1)
         else case erase_blocks fuel K fd 0 w1 of
                None \<Rightarrow> None
              | Some (Exit e, w2) \<Rightarrow> Some (Exit e, w2)
              | Some (Ret r, w2) \<Rightarrow> Some (Ret 0, close_fd K fd w2))"

section \<open>Dumping and verifying\<close>

text \<open>Descriptor 1 is the standard output. The size that is left is an \<open>int\<close>.\<close>

fun dump_blocks :: "nat \<Rightarrow> 'd mtd_os \<Rightarrow> int \<Rightarrow> int \<Rightarrow> int \<Rightarrow> 'd tool \<Rightarrow> (int outcome \<times> 'd tool) option" where
  "dump_blocks 0 K fd offset sz w = None"
| "dump_blocks (Suc fuel) K fd offset sz w =
     (let len = (if sz > erasesize w then erasesize w else sz);
          (res, k) = os_read K fd (nat len) (kern w);
          w1 = w\<lparr>kern := k\<rparr>
      in case res of
           Inl e \<Rightarrow> (if e = EINTR then (if 0 < sz then dump_blocks fuel K fd offset sz w1 else Some (Ret 0, w1)) else Some (Ret (- 1), w1))
         | Inr bs \<Rightarrow>
             if bs = [] \<or> int (length bs) \<noteq> len then Some (Ret 0, w1)
             else case mtd_block_is_bad K fd offset w1 of
                    (Exit e, w2) \<Rightarrow> Some (Exit e, w2)
                  | (Ret bad, w2) \<Rightarrow>
                      let sz' = (if bad \<noteq> 0 then sz else sz - int (length bs));
                          w3 = (if bad \<noteq> 0 then w2 else w2\<lparr>kern := snd (os_write K 1 bs (kern w2))\<rparr>)
                      in if 0 < sz' then dump_blocks fuel K fd (offset + int (length bs)) sz' w3 else Some (Ret 0, w3))"

definition mtd_dump :: "nat \<Rightarrow> 'd mtd_os \<Rightarrow> byte list \<Rightarrow> int \<Rightarrow> int \<Rightarrow> 'd tool \<Rightarrow> (int outcome \<times> 'd tool) option" where
  "mtd_dump fuel K mtd part_offset sz w =
     (let (fd, w1) = mtd_check_open K mtd False w
      in if fd < 0 then Some (Ret (- 1), w1)
         else
           let sz' = (if sz = 0 then mtdsize w1 else sz);
               w2 = (if part_offset \<noteq> 0 then w1\<lparr>kern := os_seek K fd part_offset False (kern w1)\<rparr> else w1)
           in case dump_blocks fuel K fd 0 sz' w2 of
                None \<Rightarrow> None
              | Some (Exit e, w3) \<Rightarrow> Some (Exit e, w3)
              | Some (Ret r, w3) \<Rightarrow> Some (Ret r, close_fd K fd w3))"

text \<open>
  The hash functions are those of libubox: \<open>md5sum\<close> of a file, with its size, and \<open>md5\<close> of the bytes that were hashed.
\<close>

fun verify_read :: "nat \<Rightarrow> 'd mtd_os \<Rightarrow> int \<Rightarrow> nat \<Rightarrow> byte list \<Rightarrow> 'd tool \<Rightarrow> ((int + byte list) \<times> 'd tool) option" where
  "verify_read 0 K fd sz acc w = None"
| "verify_read (Suc fuel) K fd sz acc w =
     (let (res, k) = os_read K fd (min sz 256) (kern w); w1 = w\<lparr>kern := k\<rparr>
      in case res of
           Inl e \<Rightarrow> (if e = EINTR then (if 0 < sz then verify_read fuel K fd sz acc w1 else Some (Inr acc, w1)) else Some (Inl (- 1), w1))
         | Inr bs \<Rightarrow>
             if bs = [] then Some (Inr acc, w1)
             else if 0 < sz - length bs then verify_read fuel K fd (sz - length bs) (acc @ bs) w1
             else Some (Inr (acc @ bs), w1))"

definition mtd_verify ::
    "nat \<Rightarrow> 'd mtd_os \<Rightarrow> (byte list \<Rightarrow> byte list) \<Rightarrow> ('d \<Rightarrow> (nat \<times> byte list) option) \<Rightarrow> byte list \<Rightarrow> 'd tool \<Rightarrow> (int \<times> 'd tool) option" where
  "mtd_verify fuel K md5 md5sum mtd w =
     (case md5sum (kern w) of
        None \<Rightarrow> Some (- 1, w)
      | Some (sz, f_md5) \<Rightarrow>
          let (fd, w1) = mtd_check_open K mtd False w
          in if fd < 0 then Some (- 1, w1)
             else case verify_read fuel K fd sz [] w1 of
                    None \<Rightarrow> None
                  | Some (Inl e, w2) \<Rightarrow> Some (e, close_fd K fd w2)
                  | Some (Inr bs, w2) \<Rightarrow> Some (if md5 bs = f_md5 then 0 else 1, close_fd K fd w2))"

end
