(* ===== verification/Mtd_Flash.thy ===== *)
theory Mtd_Flash
  imports Mtd_Io
begin

text \<open>
  Flash devices behind the system calls of the \<^verbatim>\<open>mtd\<close> tool: what the MTD interface of the kernel documents, as the hypotheses
  \<open>mtd_flash\<close> (the effect of the calls that succeed) and \<open>mtd_works\<close> (calls succeed), the lemmas on the calls that rest on them, a device in memory
  that satisfies both, and the correctness of \<^verbatim>\<open>mtd erase\<close>.
\<close>

section \<open>Flash devices\<close>

text \<open>
  What the MTD interface of the kernel promises for a device: \<open>V\<close> is its contents. Reading returns the bytes that are there,
  erasing sets a range to \<open>0xff\<close>, and writing can only clear bits.
\<close>

definition flash_program :: "byte list \<Rightarrow> nat \<Rightarrow> byte list \<Rightarrow> byte list" where
  "flash_program d off bs = map (\<lambda>i. if off \<le> i \<and> i < off + length bs then d ! i AND bs ! (i - off) else d ! i) [0..<length d]"

definition flash_erase :: "byte list \<Rightarrow> nat \<Rightarrow> nat \<Rightarrow> byte list" where
  "flash_erase d start len = map (\<lambda>i. if start \<le> i \<and> i < start + len then 0xff else d ! i) [0..<length d]"

definition mtd_flash :: "'d mtd_os \<Rightarrow> int \<Rightarrow> ('d \<Rightarrow> byte list) \<Rightarrow> (nat \<Rightarrow> bool) \<Rightarrow> nat \<Rightarrow> bool" where
  "mtd_flash K fd V bad es \<longleftrightarrow>
     (\<forall>k n off res k'. os_pread K fd n off k = (res, k') \<longrightarrow> V k' = V k \<and> (\<forall>bs. res = Inr bs \<longrightarrow> bs = take (length bs) (field off n (V k)))) \<and>
     (\<forall>k off r k'. os_isbad K fd (int off) k = (r, k') \<longrightarrow> V k' = V k \<and> (0 \<le> r \<longrightarrow> (r \<noteq> 0 \<longleftrightarrow> bad (off div es)))) \<and>
     (\<forall>k start len. V (os_unlock K fd start len k) = V k) \<and>
     (\<forall>k start len r k'. os_erase K fd start len k = (r, k') \<longrightarrow> 0 \<le> r \<longrightarrow> V k' = flash_erase (V k) start len) \<and>
     (\<forall>k bs off r k'. os_pwrite K fd bs off k = (r, k') \<longrightarrow> r = int (length bs) \<longrightarrow> V k' = flash_program (V k) off bs) \<and>
     (\<forall>k. V (os_close K fd k) = V k)"

lemma flash_pread:
  assumes "mtd_flash K fd V bad es" and "os_pread K fd n off k = (res, k')"
  shows "V k' = V k" and "res = Inr bs \<Longrightarrow> length bs = n \<Longrightarrow> bs = field off n (V k)"
proof -
  have p: "V k' = V k \<and> (\<forall>bs. res = Inr bs \<longrightarrow> bs = take (length bs) (field off n (V k)))"
    using assms(1) [unfolded mtd_flash_def, THEN conjunct1, THEN spec, THEN spec, THEN spec, THEN spec, THEN spec, THEN mp, OF assms(2)] .
  then show "V k' = V k" ..
  assume "res = Inr bs" "length bs = n"
  moreover from this p have "bs = take (length bs) (field off n (V k))" by blast
  ultimately show "bs = field off n (V k)" by (simp add: field_def)
qed

lemma flash_keeps:
  assumes "mtd_flash K fd V bad es"
  shows "V (os_unlock K fd start len k) = V k" and "V (os_close K fd k) = V k"
    and "os_erase K fd start len k = (r, k') \<Longrightarrow> 0 \<le> r \<Longrightarrow> V k' = flash_erase (V k) start len"
    and "os_pwrite K fd bs off k = (int (length bs), k') \<Longrightarrow> V k' = flash_program (V k) off bs"
  using assms unfolding mtd_flash_def by blast+

lemma length_flash [simp]: "length (flash_program d off bs) = length d" "length (flash_erase d start n) = length d"
  by (simp_all add: flash_program_def flash_erase_def)

lemma rewrite_flash:
  assumes "start + length bs \<le> length d" 
  shows "flash_program (flash_erase d start (length bs)) start bs = poke d start bs"
proof (rule nth_equalityI)
  have "(0xff :: byte) = - 1" by simp
  then have f: "(0xff :: byte) AND x = x" for x by (simp only: and.left_neutral)
  fix i assume "i < length (flash_program (flash_erase d start (length bs)) start bs)"
  then show "flash_program (flash_erase d start (length bs)) start bs ! i = poke d start bs ! i"
    by (simp add: flash_program_def flash_erase_def nth_poke f)
qed simp

section \<open>Blocks of a power of two\<close>

lemma and_mask_mod: "int off AND (int (2 ^ e) - 1) = int (off mod 2 ^ e)"
proof -
  have "int (2 ^ e) - 1 = mask e" by (simp add: mask_eq_exp_minus_1)
  then show ?thesis by (simp add: take_bit_eq_mask [symmetric] take_bit_eq_mod zmod_int)
qed

lemma and_not_mask_sub: "int off AND NOT (int (2 ^ e) - 1) = int (off - off mod 2 ^ e)"
proof -
  have m: "int (2 ^ e) - 1 = mask e" by (simp add: mask_eq_exp_minus_1)
  have "int off AND NOT (mask e) = push_bit e (drop_bit e (int off))" by (rule bit_eqI) (auto simp: bit_simps)
  also have "\<dots> = int off div 2 ^ e * 2 ^ e" by (simp add: push_bit_eq_mult drop_bit_eq_div)
  also have "\<dots> = int (off div 2 ^ e * 2 ^ e)" by (simp add: zdiv_int)
  also have "off div 2 ^ e * 2 ^ e = off - off mod 2 ^ e" by (simp add: minus_mod_eq_div_mult)
  finally show ?thesis unfolding m .
qed

lemma to_size_id: "32 \<le> size_bits w \<Longrightarrow> 0 \<le> i \<Longrightarrow> i < 4294967296 \<Longrightarrow> to_size w i = nat i"
proof -
  assume a: "32 \<le> size_bits w" "0 \<le> i" "i < 4294967296"
  have "(4294967296 :: int) = 2 ^ 32" by simp
  also have "\<dots> \<le> 2 ^ size_bits w" using a(1) by (rule power_increasing) simp
  finally show ?thesis using a by (simp add: to_size_def)
qed

lemma to_size_nat: "32 \<le> size_bits w \<Longrightarrow> n < 4294967296 \<Longrightarrow> to_size w (int n) = n"
  by (simp add: to_size_id)

section \<open>Opened devices\<close>

definition only_kern :: "'d tool \<Rightarrow> 'd tool \<Rightarrow> bool" where
  "only_kern w w' \<longleftrightarrow> (\<exists>k. w' = w\<lparr>kern := k\<rparr>)"

lemma only_kern_refl [simp]: "only_kern w w"
  unfolding only_kern_def by (rule exI [of _ "kern w"]) simp

lemma only_kern_upd [simp]: "only_kern w (w'\<lparr>kern := k\<rparr>) \<longleftrightarrow> only_kern w w'"
proof
  assume "only_kern w (w'\<lparr>kern := k\<rparr>)"
  then obtain k' where "w'\<lparr>kern := k\<rparr> = w\<lparr>kern := k'\<rparr>" by (auto simp: only_kern_def)
  then have "w'\<lparr>kern := k, kern := kern w'\<rparr> = w\<lparr>kern := k', kern := kern w'\<rparr>" by (rule arg_cong)
  then have "w' = w\<lparr>kern := kern w'\<rparr>" by simp
  then show "only_kern w w'" unfolding only_kern_def ..
qed (auto simp: only_kern_def)

lemma only_kern_trans: "only_kern w w1 \<Longrightarrow> only_kern w1 w2 \<Longrightarrow> only_kern w w2"
  by (auto simp: only_kern_def)

lemma only_kernD: "only_kern w w' \<Longrightarrow> mtdsize w' = mtdsize w \<and> erasesize w' = erasesize w \<and> mtdtype_nand w' = mtdtype_nand w \<and>
    opt_trxmagic w' = opt_trxmagic w \<and> big_endian w' = big_endian w \<and> size_bits w' = size_bits w"
  by (auto simp: only_kern_def)

text \<open>Opening the device \<open>mtd\<close> gives the descriptor of a flash with contents \<open>V\<close> and blocks of a power of two.\<close>

definition opens_flash ::
    "'d mtd_os \<Rightarrow> byte list \<Rightarrow> 'd tool \<Rightarrow> int \<Rightarrow> 'd tool \<Rightarrow> ('d \<Rightarrow> byte list) \<Rightarrow> (nat \<Rightarrow> bool) \<Rightarrow> nat \<Rightarrow> bool" where
  "opens_flash K mtd w fd w1 V bad e \<longleftrightarrow>
     mtd_check_open K mtd True w = (fd, w1) \<and> 0 \<le> fd \<and> mtd_flash K fd V bad (2 ^ e) \<and> erasesize w1 = int (2 ^ e) \<and>
     mtdsize w1 = int (length (V (kern w1))) \<and> length (V (kern w1)) < 2147483648 \<and> 32 \<le> size_bits w1 \<and>
     2 ^ e \<le> length (V (kern w1)) \<and> (mtdtype_nand w1 \<or> (\<forall>b. \<not> bad b))"

lemma opens_flashD:
  assumes "opens_flash K mtd w fd w1 V bad e"
  shows "mtd_check_open K mtd True w = (fd, w1)" and "\<not> fd < 0" and "mtd_flash K fd V bad (2 ^ e)" and "erasesize w1 = int (2 ^ e)"
    and "mtdsize w1 = int (length (V (kern w1)))" and "length (V (kern w1)) < 2147483648" and "32 \<le> size_bits w1"
    and "2 ^ e \<le> length (V (kern w1))" and "\<not> mtdtype_nand w1 \<longrightarrow> (\<forall>b. \<not> bad b)"
  using assms by (auto simp: opens_flash_def)

text \<open>A device without faults: it can be read, and good blocks can be erased and written.\<close>

definition mtd_works :: "'d mtd_os \<Rightarrow> int \<Rightarrow> ('d \<Rightarrow> byte list) \<Rightarrow> (nat \<Rightarrow> bool) \<Rightarrow> nat \<Rightarrow> bool" where
  "mtd_works K fd V bad es \<longleftrightarrow>
     (\<forall>k n off. off + n \<le> length (V k) \<longrightarrow> (\<exists>bs k'. os_pread K fd n off k = (Inr bs, k') \<and> length bs = n)) \<and>
     (\<forall>k off. off < length (V k) \<longrightarrow> 0 \<le> fst (os_isbad K fd (int off) k)) \<and>
     (\<forall>k b. b * es + es \<le> length (V k) \<longrightarrow> \<not> bad b \<longrightarrow> 0 \<le> fst (os_erase K fd (b * es) es k)) \<and>
     (\<forall>k bs b. b * es + es \<le> length (V k) \<longrightarrow> \<not> bad b \<longrightarrow> length bs = es \<longrightarrow> fst (os_pwrite K fd bs (b * es) k) = int es)"

lemma mtd_block_is_bad_flash:
  assumes "mtd_flash K fd V bad es" and "mtd_block_is_bad K fd (int off) w = (Ret r, w')" and "\<not> mtdtype_nand w \<longrightarrow> (\<forall>b. \<not> bad b)"
  shows "(r \<noteq> 0 \<longleftrightarrow> bad (off div es)) \<and> V (kern w') = V (kern w) \<and> only_kern w w'"
proof (cases "mtdtype_nand w")
  case True
  obtain r1 k where "os_isbad K fd (int off) (kern w) = (r1, k)" by fastforce
  then show ?thesis using assms True by (auto simp: mtd_block_is_bad_def mtd_flash_def split: if_splits)
next
  case False
  then show ?thesis using assms by (auto simp: mtd_block_is_bad_def)
qed

lemma mtd_block_is_bad_works:
  assumes "mtd_works K fd V bad es" and "off < length (V (kern w))"
  shows "\<exists>r w'. mtd_block_is_bad K fd (int off) w = (Ret r, w')"
proof -
  have "0 \<le> fst (os_isbad K fd (int off) (kern w))" using assms by (simp add: mtd_works_def)
  then show ?thesis by (auto simp: mtd_block_is_bad_def split: prod.splits)
qed

section \<open>A device in memory\<close>

text \<open>A NOR flash with blocks of 32 bytes as the state of the kernel; it has one descriptor, 3.\<close>

definition ram_os :: "byte list mtd_os" where
  "ram_os =
     \<lparr>os_proc = (\<lambda>k. Some [(0, bytes_of ''mtd0: 00000040 00000020 \"firmware\"'')]),
      os_open = (\<lambda>p wr k. (3, k)), os_close = (\<lambda>fd k. k),
      os_info = (\<lambda>fd k. Some \<lparr>mi_nand = False, mi_size = length k, mi_erasesize = 32, mi_writesize = 1\<rparr>),
      os_read = (\<lambda>fd n k. (Inl 5, k)), os_write = (\<lambda>fd bs k. (int (length bs), k)), os_seek = (\<lambda>fd p cur k. k),
      os_pread = (\<lambda>fd n off k. (Inr (field off n k), k)),
      os_pwrite = (\<lambda>fd bs off k. (int (length bs), flash_program k off bs)),
      os_isbad = (\<lambda>fd off k. (0, k)), os_erase = (\<lambda>fd start len k. (0, flash_erase k start len)),
      os_unlock = (\<lambda>fd start len k. k), os_mmap = (\<lambda>fd n k. None), os_munmap = (\<lambda>fd bs k. k)\<rparr>"

definition ram_tool :: "byte list \<Rightarrow> byte list tool" where
  "ram_tool d = \<lparr>kern = d, mtdsize = 0, erasesize = 0, mtdtype_nand = False, opt_trxmagic = 0x48445230, big_endian = False, size_bits = 32,
     tbuf = [], tbuflen = 0\<rparr>"

lemma ram_flash: "mtd_flash ram_os 3 (\<lambda>k. k) (\<lambda>b. False) es"
  by (auto simp: mtd_flash_def ram_os_def field_def min_def)

lemma ram_works: "mtd_works ram_os 3 (\<lambda>k. k) (\<lambda>b. False) es"
  by (auto simp: mtd_works_def ram_os_def field_def)

lemma ram_open:
  "mtd_check_open ram_os mtd True (ram_tool d) =
     (3, (ram_tool d)\<lparr>mtdsize := s32 (length d), erasesize := 32, mtdtype_nand := False\<rparr>)"
  by (auto simp: mtd_check_open_def mtd_open_def ram_os_def ram_tool_def split: option.splits)

lemma ram_opens_flash:
  assumes "length d < 2147483648" and "32 \<le> length d"
  shows "opens_flash ram_os mtd (ram_tool d) 3 ((ram_tool d)\<lparr>mtdsize := s32 (length d), erasesize := 32, mtdtype_nand := False\<rparr>) (\<lambda>k. k) (\<lambda>b. False) 5"
  unfolding opens_flash_def ram_open using assms ram_flash by (simp add: ram_tool_def)

definition ram_trx :: "byte list" where
  "ram_trx = bytes_of ''HDR0'' @ replicate 60 7"

section \<open>Erasing a device\<close>

text \<open>The contents with every good block from \<open>b\<close> on erased.\<close>

definition erased_from :: "(nat \<Rightarrow> bool) \<Rightarrow> nat \<Rightarrow> nat \<Rightarrow> byte list \<Rightarrow> byte list" where
  "erased_from bad es b d = map (\<lambda>i. if b \<le> i div es \<and> \<not> bad (i div es) then 0xff else d ! i) [0..<length d]"

lemma erased_from_Suc:
  assumes "0 < es"
  shows "erased_from bad es (Suc b) (if bad b then d else flash_erase d (b * es) es) = erased_from bad es b d"
proof (rule nth_equalityI)
  fix i assume "i < length (erased_from bad es (Suc b) (if bad b then d else flash_erase d (b * es) es))"
  then have i: "i < length d" by (simp add: erased_from_def split: if_splits)
  have "b * es \<le> i \<and> i < b * es + es \<longleftrightarrow> i div es = b"
    using assms less_eq_div_iff_mult_less_eq [of es b i] div_less_iff_less_mult [of es i "Suc b"] by auto
  then show "erased_from bad es (Suc b) (if bad b then d else flash_erase d (b * es) es) ! i = erased_from bad es b d ! i"
    using i by (auto simp: erased_from_def flash_erase_def)
qed (simp add: erased_from_def)

lemma erased_from_end: "length d \<le> b * es \<Longrightarrow> 0 < es \<Longrightarrow> erased_from bad es b d = d"
  by (rule nth_equalityI) (auto simp: erased_from_def less_eq_div_iff_mult_less_eq)

lemma erase_blocks_works:
  assumes "mtd_flash K fd V bad (2 ^ e)" and "mtd_works K fd V bad (2 ^ e)" and "m < b + fuel" and "b \<le> m"
    and "\<not> mtdtype_nand w \<longrightarrow> (\<forall>b. \<not> bad b)" and "erasesize w = int (2 ^ e)" and "length (V (kern w)) = m * 2 ^ e"
    and "mtdsize w = int (length (V (kern w)))" and "length (V (kern w)) < 2147483648"
  shows "\<exists>w'. erase_blocks fuel K fd (b * 2 ^ e) w = Some (Ret 0, w') \<and> V (kern w') = erased_from bad (2 ^ e) b (V (kern w))"
  using assms(3-)
proof (induction fuel arbitrary: b w)
  case (Suc fuel)
  let ?es = "2 ^ e :: nat"
  have sz: "u32_of_int (mtdsize w) = m * ?es" unfolding Suc.prems(6) using Suc.prems(5,7) by (simp only: u32_of_int_nat)
  show ?case
  proof (cases "b < m")
    case False
    then show ?thesis using Suc.prems(2,5) sz by (simp add: erased_from_end)
  next
    case True
    then have "Suc b * ?es \<le> m * ?es" by (intro mult_right_mono) simp_all
    then have fits: "b * ?es + ?es \<le> length (V (kern w))" using Suc.prems(5) by simp
    have b1: "b * ?es < m * ?es" using True by simp
    have n: "u32_of_int (erasesize w) = ?es" "u32 (b * ?es + ?es) = Suc b * ?es"
      using fits Suc.prems(4,7) u32_of_int_nat [of ?es] by simp_all
    have s: "s32 (b * ?es) = int (b * ?es)" using fits Suc.prems(7) by (intro s32_id) simp
    obtain r w1 where bad: "mtd_block_is_bad K fd (int (b * ?es)) w = (Ret r, w1)"
      using mtd_block_is_bad_works [OF assms(2), of "b * ?es" w] b1 Suc.prems(5) by auto
    have w1: "r \<noteq> 0 \<longleftrightarrow> bad b" "V (kern w1) = V (kern w)" "only_kern w w1"
      using mtd_block_is_bad_flash [OF assms(1) bad Suc.prems(3)] by simp_all
    obtain r2 k2 where er: "os_erase K fd (b * ?es) ?es (os_unlock K fd (b * ?es) ?es (kern w1)) = (r2, k2)" by fastforce
    define w2 where "w2 = (if bad b then w1 else w1\<lparr>kern := k2\<rparr>)"
    have v2: "V (kern w2) = (if bad b then V (kern w) else flash_erase (V (kern w)) (b * ?es) ?es)"
    proof (cases "bad b")
      case False
      have u: "V (os_unlock K fd (b * ?es) ?es (kern w1)) = V (kern w)" using flash_keeps(1) [OF assms(1)] w1(2) by simp
      then have "0 \<le> fst (os_erase K fd (b * ?es) ?es (os_unlock K fd (b * ?es) ?es (kern w1)))"
        using assms(2) False fits unfolding mtd_works_def by metis
      then show ?thesis using flash_keeps(3) [OF assms(1) er] er u False by (simp add: w2_def)
    qed (simp add: w2_def w1)
    have k2: "only_kern w w2" using w1(3) by (simp add: w2_def)
    have "erase_blocks (Suc fuel) K fd (b * ?es) w = erase_blocks fuel K fd (Suc b * ?es) w2"
      using b1 sz s bad w1 er n only_kernD [OF w1(3)] by (simp add: Let_def w2_def)
    moreover have "\<exists>w'. erase_blocks fuel K fd (Suc b * ?es) w2 = Some (Ret 0, w') \<and> V (kern w') = erased_from bad ?es (Suc b) (V (kern w2))"
      using Suc.prems True v2 only_kernD [OF k2] by (intro Suc.IH) simp_all
    ultimately show ?thesis using v2 erased_from_Suc [of ?es bad b "V (kern w)"] by simp
  qed
qed simp

text \<open>
  C16. \<^verbatim>\<open>mtd erase\<close> ends and, on a device without faults, erases exactly the good blocks: every byte of a good block is \<open>0xff\<close>
  afterwards, and the bad blocks are as before.
\<close>

theorem mtd_erase_good_blocks:
  assumes "opens_flash K mtd w fd w1 V bad e" and "mtd_works K fd V bad (2 ^ e)" and "2 ^ e dvd length (V (kern w1))"
    and "length (V (kern w1)) div 2 ^ e < fuel"
  shows "\<exists>w'. mtd_erase fuel K mtd w = Some (Ret 0, w') \<and>
    V (kern w') = map (\<lambda>i. if bad (i div 2 ^ e) then V (kern w1) ! i else 0xff) [0..<length (V (kern w1))]"
proof -
  note o = opens_flashD [OF assms(1)]
  let ?m = "length (V (kern w1)) div 2 ^ e"
  have m: "length (V (kern w1)) = ?m * 2 ^ e" using assms(3) by simp
  obtain w2 where w2: "erase_blocks fuel K fd 0 w1 = Some (Ret 0, w2)" "V (kern w2) = erased_from bad (2 ^ e) 0 (V (kern w1))"
    using erase_blocks_works [OF o(3) assms(2), of ?m 0 fuel w1] assms(4) o m by auto
  then have "mtd_erase fuel K mtd w = Some (Ret 0, close_fd K fd w2)" using o(1,2) by (simp add: mtd_erase_def)
  then show ?thesis using w2(2) flash_keeps(2) [OF o(3)] by (auto simp: close_fd_def erased_from_def)
qed

theorem mtd_erase_good_blocks_witness:
  "\<exists>w'. mtd_erase 3 ram_os (bytes_of ''rootfs'') (ram_tool ram_trx) = Some (Ret 0, w') \<and> kern w' = replicate 64 0xff"
proof -
  have l: "length ram_trx = 64" by (simp add: ram_trx_def bytes_of_def)
  have "map (\<lambda>i. 0xff) [0..<64] = replicate 64 (0xff :: byte)" by (simp add: map_replicate_const)
  then show ?thesis using mtd_erase_good_blocks [OF ram_opens_flash ram_works, of ram_trx 3] l by (simp add: ram_tool_def)
qed

end
