(* ===== verification/Mtd_Fix.thy ===== *)
theory Mtd_Fix
  imports Mtd_Flash Mtd_Crc
begin

text \<open>
  The image headers the \<^verbatim>\<open>mtd\<close> tool knows, first TRX (\<^verbatim>\<open>trx.c\<close>). After the overlay file system has changed the flash, the size and
  the checksum in the header are made right again.

  What the code reads behind the end of a block is 0 in the model, and what it writes there is lost.
\<close>

definition block_of :: "'d tool \<Rightarrow> nat \<Rightarrow> nat" where
  "block_of w off = to_size w (int off AND NOT (erasesize w - 1))"

section \<open>TRX\<close>

definition firmware :: "byte list" where
  "firmware = bytes_of ''firmware''"

definition trx_check :: "'d mtd_os \<Rightarrow> int \<Rightarrow> byte list \<Rightarrow> 'd tool \<Rightarrow> int outcome \<times> 'd tool" where
  "trx_check K imagefd mtd w =
     (if mtd \<noteq> firmware then (Ret 1, w)
      else
        let w1 = (if tbuflen w < 32
                  then case os_read K imagefd (nat (32 - tbuflen w)) (kern w) of
                         (Inl _, k) \<Rightarrow> w\<lparr>kern := k, tbuflen := tbuflen w - 1\<rparr>
                       | (Inr bs, k) \<Rightarrow> w\<lparr>kern := k, tbuf := poke (tbuf w) (nat (tbuflen w)) bs, tbuflen := tbuflen w + int (length bs)\<rparr>
                  else w)
        in if tbuflen w1 < 32 then (Ret 0, w1)
           else if be32_at (tbuf w1) 0 \<noteq> opt_trxmagic w1 \<or> host32_at w1 (tbuf w1) 4 < 28 then (Ret 0, w1)
           else
             let (fd, w2) = mtd_check_open K mtd True w1
             in if fd < 0 then (Exit 1, w2)
                else (Ret (if u32_of_int (mtdsize w2) < host32_at w2 (tbuf w2) 4 then 0 else 1), close_fd K fd w2))"

text \<open>The length of the data is converted to \<open>int\<close>; nothing is read when it is negative.\<close>

definition trx_fixup :: "'d mtd_os \<Rightarrow> int \<Rightarrow> byte list \<Rightarrow> 'd tool \<Rightarrow> int outcome \<times> 'd tool" where
  "trx_fixup K fd name w =
     (case os_info K fd (kern w) of
        None \<Rightarrow> (Ret (- 1), w)
      | Some i \<Rightarrow>
          if mi_size i = 0 then (Ret (- 1), w)
          else
            let (bfd, w1) = mtd_open K name True True w
            in case os_mmap K bfd (mi_size i) (kern w1) of
                 None \<Rightarrow> (Ret (- 1), close_fd K bfd w1)
               | Some mem \<Rightarrow>
                   if be32_at mem 0 \<noteq> opt_trxmagic w1 then (Ret (- 1), w1)
                   else
                     let n = s32 (sub32 (host32_at w1 mem 4) 12)
                     in if int (length mem) < n + 12 then (Exit 139, w1)
                        else
                          let mem' = poke mem 8 (host32_bytes w1 (unat (crc32buf (take (nat n) (drop 12 mem)))))
                          in (Ret 0, close_fd K bfd (w1\<lparr>kern := os_munmap K bfd mem' (kern w1)\<rparr>)))"

fun trx_data :: "nat \<Rightarrow> 'd mtd_os \<Rightarrow> int \<Rightarrow> nat \<Rightarrow> nat \<Rightarrow> byte list \<Rightarrow> 'd tool \<Rightarrow> (byte list outcome \<times> 'd tool) option" where
  "trx_data 0 K fd data_offset data_size buf w = None"
| "trx_data (Suc fuel) K fd data_offset data_size buf w =
     (if data_size = 0 then Some (Ret buf, w)
      else
        let read_block_offset = block_of w data_offset;
            read_chunk = min (to_size w (erasesize w - (int data_offset AND (erasesize w - 1)))) data_size
        in case mtd_block_is_bad K fd (s32 (u32 read_block_offset)) w of
             (Exit e, w1) \<Rightarrow> Some (Exit e, w1)
           | (Ret bad, w1) \<Rightarrow>
               if bad \<noteq> 0 then trx_data fuel K fd (data_offset + read_chunk) (data_size - read_chunk) buf w1
               else
                 case os_pread K fd read_chunk data_offset (kern w1) of
                   (Inl _, k) \<Rightarrow> Some (Exit 1, w1\<lparr>kern := k\<rparr>)
                 | (Inr bs, k) \<Rightarrow>
                     if length bs \<noteq> read_chunk then Some (Exit 1, w1\<lparr>kern := k\<rparr>)
                     else trx_data fuel K fd (data_offset + read_chunk) (data_size - read_chunk) (buf @ bs) (w1\<lparr>kern := k\<rparr>))"

text \<open>Erasing the block of a header and writing it again.\<close>

definition rewrite_block :: "'d mtd_os \<Rightarrow> int \<Rightarrow> nat \<Rightarrow> byte list \<Rightarrow> 'd tool \<Rightarrow> int outcome \<times> 'd tool" where
  "rewrite_block K fd block_offset block w =
     (let (r, w1) = mtd_erase_block K fd (s32 (u32 block_offset)) w
      in if r \<noteq> 0 then (Exit 1, w1)
         else
           let (n, k) = os_pwrite K fd block block_offset (kern w1)
           in if n \<noteq> erasesize w1 then (Exit 1, w1\<lparr>kern := k\<rparr>) else (Ret 0, close_fd K fd (w1\<lparr>kern := k\<rparr>)))"

text \<open>Reading the block of a header, \<^const>\<open>None\<close> when not all of it was read.\<close>

definition read_block :: "'d mtd_os \<Rightarrow> int \<Rightarrow> nat \<Rightarrow> 'd tool \<Rightarrow> byte list option \<times> 'd tool" where
  "read_block K fd block_offset w =
     (case os_pread K fd (nat (erasesize w)) block_offset (kern w) of
        (Inl _, k) \<Rightarrow> (None, w\<lparr>kern := k\<rparr>)
      | (Inr bs, k) \<Rightarrow> (if int (length bs) = erasesize w then Some bs else None, w\<lparr>kern := k\<rparr>))"

definition mtd_fixtrx :: "nat \<Rightarrow> 'd mtd_os \<Rightarrow> byte list \<Rightarrow> nat \<Rightarrow> nat \<Rightarrow> 'd tool \<Rightarrow> (int outcome \<times> 'd tool) option" where
  "mtd_fixtrx fuel K mtd offset data_size w =
     (let (fd, w1) = mtd_check_open K mtd True w
      in if fd < 0 then Some (Exit 1, w1)
         else
           let data_offset = to_size w1 (int offset + 12);
               data_size' = (if data_size \<noteq> 0 then to_size w1 (int data_size + 16) else to_size w1 (erasesize w1 - 12));
               block_offset = block_of w1 offset;
               off = offset - block_offset
           in if to_size w1 (int data_offset + int data_size') > to_size w1 (mtdsize w1) then Some (Exit 1, w1)
              else case read_block K fd block_offset w1 of
                     (None, w2) \<Rightarrow> Some (Exit 1, w2)
                   | (Some block, w2) \<Rightarrow>
                       if be32_at block off \<noteq> opt_trxmagic w2 then Some (Exit 1, w2)
                       else case trx_data fuel K fd data_offset data_size' [] w2 of
                              None \<Rightarrow> None
                            | Some (Exit e, w3) \<Rightarrow> Some (Exit e, w3)
                            | Some (Ret buf, w3) \<Rightarrow>
                                let n = length buf + 12; crc = unat (crc32buf buf)
                                in if le32_at block (off + 4) = n \<and> le32_at block (off + 8) = crc then Some (Ret 0, close_fd K fd w3)
                                   else Some (rewrite_block K fd block_offset (poke (poke block (off + 4) (le32 n)) (off + 8) (le32 crc)) w3))"

section \<open>Blocks of a flash device\<close>

lemma block_of_pow2:
  assumes "erasesize w = int (2 ^ e)" and "32 \<le> size_bits w" and "off < 4294967296"
  shows "block_of w off = off - off mod 2 ^ e"
proof -
  have "off - off mod 2 ^ e < 4294967296" using assms(3) by linarith
  then show ?thesis using assms(2) unfolding block_of_def assms(1) and_not_mask_sub by (intro to_size_nat)
qed

lemma block_of_0 [simp]: "block_of w 0 = 0"
  by (simp add: block_of_def to_size_def)

lemma read_block_flash:
  assumes "mtd_flash K fd V bad es" and "read_block K fd off w = (Some b, w')" and "0 < erasesize w"
  shows "b = field off (nat (erasesize w)) (V (kern w)) \<and> length b = nat (erasesize w) \<and> V (kern w') = V (kern w) \<and> only_kern w w'"
proof -
  obtain res k where p: "os_pread K fd (nat (erasesize w)) off (kern w) = (res, k)" by fastforce
  then show ?thesis using assms flash_pread(1) [OF assms(1) p] flash_pread(2) [OF assms(1) p, of b]
    by (cases res) (auto simp: read_block_def split: if_splits)
qed

lemma rewrite_block_flash:
  assumes "mtd_flash K fd V bad es" and "rewrite_block K fd off b w = (Ret r, w')" and "int (length b) = erasesize w"
    and "off + length b \<le> length (V (kern w))" and "length (V (kern w)) < 2147483648" and "0 < erasesize w"
  shows "r = 0 \<and> V (kern w') = poke (V (kern w)) off b \<and> only_kern w w'"
proof -
  have o: "u32_of_int (s32 (u32 off)) = off" and l: "u32_of_int (erasesize w) = length b"
    using assms(3-6) by (simp_all add: u32_of_int_def flip: assms(3))
  obtain r1 k1 where er: "os_erase K fd off (length b) (os_unlock K fd off (length b) (kern w)) = (r1, k1)" by fastforce
  obtain n k2 where pw: "os_pwrite K fd b off k1 = (n, k2)" by fastforce
  have e: "0 \<le> r1" "n = int (length b)" "r = 0" "w' = close_fd K fd (w\<lparr>kern := k2\<rparr>)"
    using assms(2,3) er pw o l by (auto simp: rewrite_block_def mtd_erase_block_def split: if_splits)
  have "V k2 = poke (V (kern w)) off b"
    using flash_keeps(3) [OF assms(1) er e(1)] flash_keeps(4) [OF assms(1) pw [unfolded e(2)]] flash_keeps(1) [OF assms(1)]
    by (simp add: rewrite_flash assms(4))
  then show ?thesis using e flash_keeps(2) [OF assms(1)] by (simp add: close_fd_def)
qed

lemma read_block_works:
  assumes "mtd_flash K fd V bad es" and "mtd_works K fd V bad es" and "erasesize w = int (2 ^ e)" and "off + 2 ^ e \<le> length (V (kern w))"
  shows "\<exists>k. read_block K fd off w = (Some (field off (2 ^ e) (V (kern w))), w\<lparr>kern := k\<rparr>) \<and> V k = V (kern w)"
proof -
  obtain block k where p: "os_pread K fd (2 ^ e) off (kern w) = (Inr block, k)" "length block = 2 ^ e"
    using assms(2,4) unfolding mtd_works_def by blast
  then have "block = field off (2 ^ e) (V (kern w))" "V k = V (kern w)"
    using flash_pread(1) [OF assms(1) p(1)] flash_pread(2) [OF assms(1) p(1), of block] by simp_all
  then show ?thesis using p assms(3) by (intro exI [of _ k]) (simp add: read_block_def nat_power_eq)
qed

lemma rewrite_block_works:
  assumes "mtd_flash K fd V bad es" and "mtd_works K fd V bad es" and "int es = erasesize w" and "length bs = es" and "\<not> bad b"
    and "b * es + es \<le> length (V (kern w))" and "length (V (kern w)) < 2147483648" and "0 < erasesize w"
  shows "\<exists>w'. rewrite_block K fd (b * es) bs w = (Ret 0, w')"
proof -
  have o: "u32_of_int (s32 (u32 (b * es))) = b * es" and l: "u32_of_int (erasesize w) = es"
    using assms(6,7) by (simp_all add: u32_of_int_nat [of "b * es", unfolded of_nat_mult] flip: assms(3))
  obtain r1 k1 where er: "os_erase K fd (b * es) es (os_unlock K fd (b * es) es (kern w)) = (r1, k1)" by fastforce
  have v: "length (V (os_unlock K fd (b * es) es (kern w))) = length (V (kern w))" using flash_keeps(1) [OF assms(1)] by simp
  have r1: "0 \<le> r1" using assms(2,5,6) v er unfolding mtd_works_def by (metis fst_conv)
  have "length (V k1) = length (V (kern w))" using flash_keeps(3) [OF assms(1) er r1] v by simp
  then have "fst (os_pwrite K fd bs (b * es) k1) = int es" using assms(2,4-6) by (simp add: mtd_works_def)
  then show ?thesis using er r1 assms(3) by (auto simp: rewrite_block_def mtd_erase_block_def o l split: prod.splits)
qed

section \<open>The checksum of a TRX image\<close>

text \<open>The bytes of a range that are in good blocks.\<close>

definition good_data :: "(nat \<Rightarrow> bool) \<Rightarrow> nat \<Rightarrow> byte list \<Rightarrow> nat \<Rightarrow> nat \<Rightarrow> byte list" where
  "good_data bad es d off n = map ((!) d) (filter (\<lambda>i. \<not> bad (i div es)) [off..<off + n])"

lemma good_data_split:
  assumes "k \<le> n"
  shows "good_data bad es d off n = good_data bad es d off k @ good_data bad es d (off + k) (n - k)"
proof -
  have "[off..<off + n] = [off..<off + k] @ [off + k..<off + n]" using upt_add_eq_append [of off "off + k" "n - k"] assms by simp
  then show ?thesis using assms by (simp add: good_data_def)
qed

lemma good_data_block:
  assumes "off mod es + k \<le> es" and "0 < es" and "off + k \<le> length d"
  shows "good_data bad es d off k = (if bad (off div es) then [] else field off k d)"
proof -
  have dv: "i div es = off div es" if "off \<le> i" "i < off + k" for i
  proof -
    have "off div es * es \<le> i" using that(1) div_times_less_eq_dividend [of off es] by linarith
    moreover have "i < Suc (off div es) * es" using that(2) assms(1) div_mult_mod_eq [of off es] by (simp only: mult_Suc)
    ultimately show ?thesis by (simp add: div_nat_eqI mult.commute)
  qed
  have "filter (\<lambda>i. \<not> bad (i div es)) [off..<off + k] = filter (\<lambda>i. \<not> bad (off div es)) [off..<off + k]"
  proof (rule filter_cong)
    fix i assume "i \<in> set [off..<off + k]"
    then have "i div es = off div es" by (intro dv) simp_all
    then show "(\<not> bad (i div es)) = (\<not> bad (off div es))" by (simp only:)
  qed (rule refl)
  then have "filter (\<lambda>i. \<not> bad (i div es)) [off..<off + k] = (if bad (off div es) then [] else [off..<off + k])" by simp
  moreover have "map ((!) d) [off..<off + k] = field off k d"
    by (rule nth_equalityI) (use assms(3) in \<open>auto simp: field_def\<close>)
  ultimately show ?thesis by (simp add: good_data_def)
qed

lemma good_data_cong:
  assumes "\<And>i. off \<le> i \<Longrightarrow> i < off + n \<Longrightarrow> d ! i = d' ! i"
  shows "good_data bad es d off n = good_data bad es d' off n"
  using assms by (simp add: good_data_def)

lemma trx_data_flash:
  assumes "mtd_flash K fd V bad (2 ^ e)" and "trx_data fuel K fd off n buf w = Some (Ret r, w')"
    and "\<not> mtdtype_nand w \<longrightarrow> (\<forall>b. \<not> bad b)" and "erasesize w = int (2 ^ e)" and "32 \<le> size_bits w"
    and "off + n \<le> length (V (kern w))" and "length (V (kern w)) < 2147483648" and "2 ^ e < (2147483648 :: nat)"
  shows "r = buf @ good_data bad (2 ^ e) (V (kern w)) off n \<and> V (kern w') = V (kern w) \<and> only_kern w w'"
  using assms(2-)
proof (induction fuel arbitrary: off n buf w)
  case (Suc fuel)
  let ?es = "2 ^ e :: nat"
  show ?case
  proof (cases "n = 0")
    case True
    then show ?thesis using Suc.prems(1) by (auto simp: good_data_def)
  next
    case False
    define m where "m = off mod ?es"
    have m: "m < ?es" "m \<le> off" by (simp_all add: m_def)
    let ?chunk = "min (?es - m) n"
    have c: "min (to_size w (erasesize w - (int off AND (erasesize w - 1)))) n = ?chunk"
    proof -
      have "erasesize w - (int off AND (erasesize w - 1)) = int (?es - m)"
        using m(1) unfolding Suc.prems(3) and_mask_mod m_def [symmetric] by (simp add: of_nat_diff)
      then show ?thesis using Suc.prems(4,7) to_size_nat [of w "?es - m"] by simp
    qed
    have b: "block_of w off = off - m"
      using Suc.prems unfolding block_of_def Suc.prems(3) and_not_mask_sub m_def [symmetric] by (simp add: to_size_id)
    have s: "s32 (u32 (block_of w off)) = int (off - m)" using Suc.prems b by simp
    obtain o1 w1 where bad: "mtd_block_is_bad K fd (int (off - m)) w = (o1, w1)" by fastforce
    with Suc.prems(1) False obtain r1 where o1: "o1 = Ret r1"
      by (cases o1) (auto simp: s Let_def)
    have "(off - m) div ?es = off div ?es" using minus_mod_eq_mult_div [of off ?es] by (simp add: m_def)
    then have w1: "r1 \<noteq> 0 \<longleftrightarrow> bad (off div ?es)" "V (kern w1) = V (kern w)" "only_kern w w1"
      using mtd_block_is_bad_flash [OF assms(1) bad [unfolded o1] Suc.prems(2)] by simp_all
    have g: "good_data bad ?es (V (kern w)) off n = (if bad (off div ?es) then [] else field off ?chunk (V (kern w))) @ good_data bad ?es (V (kern w)) (off + ?chunk) (n - ?chunk)"
    proof -
      have "off mod ?es + ?chunk \<le> ?es" using m(1) unfolding m_def [symmetric] by simp
      moreover have "off + ?chunk \<le> length (V (kern w))" using Suc.prems(5) by simp
      ultimately have "good_data bad ?es (V (kern w)) off ?chunk = (if bad (off div ?es) then [] else field off ?chunk (V (kern w)))"
        by (intro good_data_block) simp_all
      then show ?thesis using good_data_split [of ?chunk n bad ?es "V (kern w)" off] by simp
    qed
    show ?thesis
    proof (cases "r1 = 0")
      case False
      then have "trx_data fuel K fd (off + ?chunk) (n - ?chunk) buf w1 = Some (Ret r, w')"
        using Suc.prems(1) \<open>n \<noteq> 0\<close> bad o1 c s by (simp add: Let_def)
      then show ?thesis using Suc.IH [of "off + ?chunk" "n - ?chunk" buf w1] Suc.prems w1 only_kernD [OF w1(3)] g False
        by (auto intro: only_kern_trans)
    next
      case True
      obtain res k where p: "os_pread K fd ?chunk off (kern w1) = (res, k)" by fastforce
      then obtain bs where bs: "res = Inr bs" "length bs = ?chunk"
        and t: "trx_data fuel K fd (off + ?chunk) (n - ?chunk) (buf @ bs) (w1\<lparr>kern := k\<rparr>) = Some (Ret r, w')"
        using Suc.prems(1) \<open>n \<noteq> 0\<close> bad o1 c s True by (cases res) (auto simp: Let_def split: if_splits)
      have v: "V k = V (kern w1)" "bs = field off ?chunk (V (kern w1))"
        using flash_pread [OF assms(1) p] bs by simp_all
      have ok: "only_kern w (w1\<lparr>kern := k\<rparr>)" using w1(3) by simp
      show ?thesis using Suc.IH [OF t] Suc.prems w1 only_kernD [OF ok] g True v by (auto intro: only_kern_trans [OF ok])
    qed
  qed
qed simp

lemma trx_chunk:
  assumes "erasesize w = int (2 ^ e)" and "32 \<le> size_bits w" and "2 ^ e < (4294967296 :: nat)"
  shows "to_size w (erasesize w - (int off AND (erasesize w - 1))) = 2 ^ e - off mod 2 ^ e"
proof -
  have "off mod 2 ^ e < 2 ^ e" by simp
  then have "erasesize w - (int off AND (erasesize w - 1)) = int (2 ^ e - off mod 2 ^ e)"
    unfolding assms(1) and_mask_mod by (simp add: of_nat_diff)
  then show ?thesis using assms(2,3) to_size_nat [of w "2 ^ e - off mod 2 ^ e"] by simp
qed

lemma trx_data_works:
  assumes "mtd_flash K fd V bad (2 ^ e)" and "mtd_works K fd V bad (2 ^ e)" and "n < fuel"
    and "\<not> mtdtype_nand w \<longrightarrow> (\<forall>b. \<not> bad b)" and "erasesize w = int (2 ^ e)" and "32 \<le> size_bits w"
    and "off + n \<le> length (V (kern w))" and "length (V (kern w)) < 2147483648" and "2 ^ e < (2147483648 :: nat)"
  shows "\<exists>r w'. trx_data fuel K fd off n buf w = Some (Ret r, w')"
  using assms(3-)
proof (induction fuel arbitrary: off n buf w)
  case (Suc fuel)
  show ?case
  proof (cases "n = 0")
    case False
    let ?m = "off mod 2 ^ e"
    let ?c = "min (2 ^ e - ?m) n"
    have c: "min (to_size w (erasesize w - (int off AND (erasesize w - 1)))) n = ?c"
      using trx_chunk [OF Suc.prems(3,4)] Suc.prems(7) by simp
    have "?m < 2 ^ e" by simp
    then have "0 < 2 ^ e - ?m" by linarith
    then have c0: "0 < ?c" "?c \<le> n" using False by simp_all
    have b: "s32 (u32 (block_of w off)) = int (off - ?m)"
      using block_of_pow2 [OF Suc.prems(3,4), of off] Suc.prems(5,6) by simp
    obtain r1 w1 where bad: "mtd_block_is_bad K fd (int (off - ?m)) w = (Ret r1, w1)"
      using mtd_block_is_bad_works [OF assms(2), of "off - ?m" w] Suc.prems(5) False by fastforce
    have w1: "V (kern w1) = V (kern w)" "only_kern w w1"
      using mtd_block_is_bad_flash [OF assms(1) bad Suc.prems(2)] by simp_all
    have "off + ?c \<le> length (V (kern w1))" using Suc.prems(5) w1(1) by simp
    then obtain bs k where p: "os_pread K fd ?c off (kern w1) = (Inr bs, k)" "length bs = ?c"
      using assms(2) unfolding mtd_works_def by blast
    have vk: "V k = V (kern w1)" using flash_pread(1) [OF assms(1) p(1)] .
    have step: "trx_data (Suc fuel) K fd off n buf w =
        (if r1 \<noteq> 0 then trx_data fuel K fd (off + ?c) (n - ?c) buf w1
         else trx_data fuel K fd (off + ?c) (n - ?c) (buf @ bs) (w1\<lparr>kern := k\<rparr>))"
      using False bad p by (simp add: c b Let_def)
    have "n - ?c < fuel" using c0 Suc.prems(1) by linarith
    then have "\<exists>r w'. trx_data fuel K fd (off + ?c) (n - ?c) buf' w2 = Some (Ret r, w')"
      if "only_kern w w2" "V (kern w2) = V (kern w)" for buf' w2
      using Suc.IH [of "n - ?c" w2 "off + ?c" buf'] Suc.prems c0 that(2) only_kernD [OF that(1)] by simp
    then show ?thesis using w1 vk by (simp only: step split: if_split) simp
  qed simp
qed simp

text \<open>A TRX header at \<open>off\<close> that is right for \<open>n\<close> bytes of data on the flash, bad blocks left out.\<close>

definition trx_ok :: "(nat \<Rightarrow> bool) \<Rightarrow> nat \<Rightarrow> nat \<Rightarrow> byte list \<Rightarrow> nat \<Rightarrow> nat \<Rightarrow> bool" where
  "trx_ok bad es magic d off n \<longleftrightarrow>
     (let data = good_data bad es d (off + 12) n
      in be32_at d off = magic \<and> le32_at d (off + 4) = length data + 12 \<and> le32_at d (off + 8) = unat (crc32buf data))"

lemma trx_ok_poke:
  assumes "be32_at d off = magic" and "off + 12 + n \<le> length d" and "length d < 2147483648" and "data = good_data bad es d (off + 12) n"
  shows "trx_ok bad es magic (poke d (off + 4) (le32 (length data + 12) @ le32 (unat (crc32buf data)))) off n"
    (is "trx_ok bad es magic ?d off n")
proof -
  have g: "good_data bad es ?d (off + 12) n = data"
    unfolding assms(4) by (rule good_data_cong) (use assms(2) in \<open>simp add: nth_poke\<close>)
  have "be32_at ?d off = magic" using assms(1) by (simp add: be32_at_def field_poke_other)
  moreover have "length data \<le> n" unfolding assms(4) good_data_def by (simp add: le_trans [OF length_filter_le])
  then have "le32_at ?d (off + 4) = length data + 12"
    using field_poke_in [of "off + 4" "le32 (length data + 12) @ le32 (unat (crc32buf data))" d 0 4] assms(2,3)
    by (simp add: le32_at_def field_def)
  moreover have "unat (crc32buf data) < 4294967296" using unsigned_less [of "crc32buf data", where 'a = nat] by simp
  then have "le32_at ?d (off + 8) = unat (crc32buf data)"
    using field_poke_in [of "off + 4" "le32 (length data + 12) @ le32 (unat (crc32buf data))" d 4 4] assms(2,3)
    by (simp add: le32_at_def field_def add.commute [of 8 off])
  ultimately show ?thesis by (simp add: trx_ok_def g)
qed

lemma trx_fix_block:
  assumes "block = field (off - off mod es) es d" and "length block = es" and "off mod es + 12 \<le> es" and "0 < es"
  shows "be32_at block (off - (off - off mod es)) = be32_at d off"
    and "le32_at block (off - (off - off mod es) + 4) = le32_at d (off + 4)"
    and "le32_at block (off - (off - off mod es) + 8) = le32_at d (off + 8)"
    and "poke d (off - off mod es) (poke (poke block (off - (off - off mod es) + 4) (le32 n)) (off - (off - off mod es) + 8) (le32 c)) =
         poke d (off + 4) (le32 n @ le32 c)"
proof -
  have o: "off - (off - off mod es) = off mod es" "off - off mod es + off mod es = off" by simp_all
  have f: "field (off mod es + k) 4 block = field (off + k) 4 d" if "k \<le> 8" for k
    using field_field [of "off mod es + k" 4 es "off - off mod es" d] that assms(3) unfolding assms(1) by (simp add: add.assoc [symmetric] o)
  show "be32_at block (off - (off - off mod es)) = be32_at d off" using f [of 0] by (simp add: be32_at_def o)
  show "le32_at block (off - (off - off mod es) + 4) = le32_at d (off + 4)" using f [of 4] by (simp add: le32_at_def o)
  show "le32_at block (off - (off - off mod es) + 8) = le32_at d (off + 8)" using f [of 8] by (simp add: le32_at_def o)
  have "poke (poke block (off mod es + 4) (le32 n)) (off mod es + 8) (le32 c) = poke block (off mod es + 4) (le32 n @ le32 c)"
    using poke_poke [of "off mod es + 4" "le32 n" "le32 c" block] assms(2,3) by (simp add: add.assoc)
  moreover have "off - off mod es + es \<le> length d" using field_full [of "off - off mod es" es d] assms(1,2,4) by simp
  then have "poke d (off - off mod es) (poke block (off mod es + 4) (le32 n @ le32 c)) = poke d (off + 4) (le32 n @ le32 c)"
    using poke_field [of "off - off mod es" es d "off mod es + 4" "le32 n @ le32 c"] assms(3) unfolding assms(1) by (simp add: add.assoc [symmetric] o)
  ultimately show "poke d (off - off mod es) (poke (poke block (off - (off - off mod es) + 4) (le32 n)) (off - (off - off mod es) + 8) (le32 c)) =
         poke d (off + 4) (le32 n @ le32 c)" by (simp add: o)
qed

definition trx_size :: "nat \<Rightarrow> nat \<Rightarrow> nat" where
  "trx_size e data_size = (if data_size \<noteq> 0 then data_size + 16 else 2 ^ e - 12)"

lemma mtd_fixtrx_opened:
  assumes "opens_flash K mtd w fd w1 V bad e" and "offset mod 2 ^ e + 12 \<le> 2 ^ e" and "offset < 2147483648" and "data_size < 1073741824"
  shows "mtd_fixtrx fuel K mtd offset data_size w =
    (if offset + 12 + trx_size e data_size > length (V (kern w1)) then Some (Exit 1, w1)
     else case read_block K fd (offset - offset mod 2 ^ e) w1 of
            (None, w2) \<Rightarrow> Some (Exit 1, w2)
          | (Some block, w2) \<Rightarrow>
              if be32_at block (offset - (offset - offset mod 2 ^ e)) \<noteq> opt_trxmagic w2 then Some (Exit 1, w2)
              else case trx_data fuel K fd (offset + 12) (trx_size e data_size) [] w2 of
                     None \<Rightarrow> None
                   | Some (Exit e, w3) \<Rightarrow> Some (Exit e, w3)
                   | Some (Ret buf, w3) \<Rightarrow>
                       if le32_at block (offset - (offset - offset mod 2 ^ e) + 4) = length buf + 12 \<and>
                          le32_at block (offset - (offset - offset mod 2 ^ e) + 8) = unat (crc32buf buf)
                       then Some (Ret 0, close_fd K fd w3)
                       else Some (rewrite_block K fd (offset - offset mod 2 ^ e)
                                    (poke (poke block (offset - (offset - offset mod 2 ^ e) + 4) (le32 (length buf + 12)))
                                          (offset - (offset - offset mod 2 ^ e) + 8) (le32 (unat (crc32buf buf)))) w3))"
proof -
  let ?es = "2 ^ e :: nat" and ?d = "V (kern w1)" and ?n = "trx_size e data_size"
  note o = opens_flashD [OF assms(1)]
  have b: "block_of w1 offset = offset - offset mod ?es" using block_of_pow2 [OF o(4,7)] assms(3) by simp
  have do: "to_size w1 (int offset + 12) = offset + 12" using o(7) assms(3) by (simp add: to_size_id nat_add_distrib)
  have es: "?es - 12 < 2147483636" using o(6,8) by linarith
  have ds: "(if data_size \<noteq> 0 then to_size w1 (int data_size + 16) else to_size w1 (erasesize w1 - 12)) = ?n"
  proof -
    have "erasesize w1 - 12 = int (?es - 12)" "int data_size + 16 = int (data_size + 16)" using o(4) assms(2) by (simp_all add: of_nat_diff)
    then show ?thesis using o(7) assms(4) es to_size_nat [of w1 "?es - 12"] to_size_nat [of w1 "data_size + 16"] by (simp add: trx_size_def)
  qed
  have n: "?n < 2147483636" using es assms(4) by (simp add: trx_size_def)
  have sum: "to_size w1 (int (offset + 12) + int ?n) = offset + 12 + ?n"
    using to_size_nat [of w1 "offset + 12 + ?n"] o(7) assms(3) n by simp
  have m: "to_size w1 (mtdsize w1) = length ?d" using o by (simp add: to_size_nat)
  show ?thesis unfolding mtd_fixtrx_def Let_def o(1) prod.case if_not_P [OF o(2)] b do ds sum m ..
qed

text \<open>Whatever calls fail: when \<^verbatim>\<open>mtd_fixtrx\<close> returns, the header is right.\<close>

lemma mtd_fixtrx_sound:
  assumes "opens_flash K mtd w fd w1 V bad e" and "offset mod 2 ^ e + 12 \<le> 2 ^ e"
    and "offset < 2147483648" and "data_size < 1073741824" and "mtd_fixtrx fuel K mtd offset data_size w = Some (Ret r, w')"
    and "i < length (V (kern w1))" and "i < offset + 4 \<or> offset + 12 \<le> i"
  shows "r = 0 \<and> trx_ok bad (2 ^ e) (opt_trxmagic w1) (V (kern w')) offset (trx_size e data_size) \<and>
    length (V (kern w')) = length (V (kern w1)) \<and> V (kern w') ! i = V (kern w1) ! i"
proof -
  let ?es = "2 ^ e :: nat" and ?d = "V (kern w1)" and ?n = "trx_size e data_size"
  note o = opens_flashD [OF assms(1)]
  define b where "b = offset - offset mod ?es"
  note step = assms(5) [unfolded mtd_fixtrx_opened [OF assms(1-4)], folded b_def]
  have fits: "offset + 12 + ?n \<le> length ?d" using step by (auto split: if_splits)
  obtain bo w2 where rb0: "read_block K fd b w1 = (bo, w2)" by fastforce
  with step fits obtain block where rb: "read_block K fd b w1 = (Some block, w2)" by (cases bo) (auto split: if_splits)
  have bl: "block = field b ?es ?d" "length block = ?es" "V (kern w2) = ?d" "only_kern w1 w2"
    using read_block_flash [OF o(3) rb] o(4) by (auto simp: nat_power_eq)
  note blk = trx_fix_block [OF bl(1) [unfolded b_def] bl(2) assms(2), folded b_def]
  have mg: "be32_at ?d offset = opt_trxmagic w1" using step fits rb blk(1) only_kernD [OF bl(4)] by (auto split: if_splits)
  obtain buf w3 where td: "trx_data fuel K fd (offset + 12) ?n [] w2 = Some (Ret buf, w3)"
    using step fits rb by (auto split: if_splits option.splits outcome.splits)
  have buf: "buf = good_data bad ?es ?d (offset + 12) ?n" "V (kern w3) = ?d" "only_kern w1 w3"
    using trx_data_flash [OF o(3) td] o bl(3) only_kernD [OF bl(4)] fits by (auto intro: only_kern_trans [OF bl(4)])
  let ?len = "length buf + 12" and ?c = "unat (crc32buf buf)"
  show ?thesis
  proof (cases "le32_at ?d (offset + 4) = ?len \<and> le32_at ?d (offset + 8) = ?c")
    case True
    then have "r = 0" "w' = close_fd K fd w3" using step fits rb mg blk td only_kernD [OF bl(4)] by (auto split: if_splits)
    then show ?thesis using True mg buf flash_keeps(2) [OF o(3)] by (simp add: close_fd_def trx_ok_def Let_def)
  next
    case False
    let ?b = "poke (poke block (offset - b + 4) (le32 ?len)) (offset - b + 8) (le32 ?c)"
    have rw: "rewrite_block K fd b ?b w3 = (Ret r, w')" using step fits rb mg blk(1-3) td only_kernD [OF bl(4)] False by (auto split: if_splits)
    have "b + ?es \<le> length ?d" using field_full [of b ?es ?d] bl(1,2) by simp
    then have v: "r = 0" "V (kern w') = poke ?d (offset + 4) (le32 ?len @ le32 ?c)"
      using rewrite_block_flash [OF o(3) rw] bl(2) o buf(2) only_kernD [OF buf(3)] blk(4) by simp_all
    show ?thesis using v trx_ok_poke [OF mg fits o(6) buf(1)] assms(6,7) by (auto simp: nth_poke)
  qed
qed

lemma mtd_fixtrx_total:
  assumes "opens_flash K mtd w fd w1 V bad e" and "mtd_works K fd V bad (2 ^ e)" and "offset mod 2 ^ e + 12 \<le> 2 ^ e" and "data_size < 1073741824"
    and "be32_at (V (kern w1)) offset = opt_trxmagic w1" and "2 ^ e dvd length (V (kern w1))"
    and "offset + 12 + trx_size e data_size \<le> length (V (kern w1))" and "trx_size e data_size < fuel" and "\<not> bad (offset div 2 ^ e)"
  shows "\<exists>w'. mtd_fixtrx fuel K mtd offset data_size w = Some (Ret 0, w')"
proof -
  let ?es = "2 ^ e :: nat" and ?d = "V (kern w1)" and ?n = "trx_size e data_size"
  note o = opens_flashD [OF assms(1)]
  define b where "b = offset - offset mod ?es"
  obtain m where m: "length ?d = ?es * m" using assms(6) ..
  have "offset < m * ?es" using assms(7) m by (simp add: mult.commute)
  then have "offset div ?es < length ?d div ?es" using m by (simp add: less_mult_imp_div_less)
  then have "Suc (offset div ?es) * ?es \<le> length ?d div ?es * ?es" by (intro mult_right_mono) simp_all
  then have inb: "b + ?es \<le> length ?d" using assms(6) by (simp add: b_def minus_mod_eq_div_mult)
  then obtain block k where "os_pread K fd ?es b (kern w1) = (Inr block, k)" "length block = ?es"
    using assms(2) unfolding mtd_works_def by blast
  then have rb: "read_block K fd b w1 = (Some block, w1\<lparr>kern := k\<rparr>)" using o(4) by (simp add: read_block_def nat_power_eq)
  have bl: "block = field b ?es ?d" "length block = ?es" "V k = ?d" using read_block_flash [OF o(3) rb] o(4) by (auto simp: nat_power_eq)
  note blk = trx_fix_block [OF bl(1) [unfolded b_def] bl(2) assms(3), folded b_def]
  obtain buf w3 where td: "trx_data fuel K fd (offset + 12) ?n [] (w1\<lparr>kern := k\<rparr>) = Some (Ret buf, w3)"
    using trx_data_works [OF o(3) assms(2,8), of "w1\<lparr>kern := k\<rparr>" "offset + 12" "[]"] o assms(7) bl(3) by auto
  have buf: "V (kern w3) = ?d" "only_kern (w1\<lparr>kern := k\<rparr>) w3"
    using trx_data_flash [OF o(3) td] o bl(3) assms(7) by auto
  let ?b = "poke (poke block (offset - b + 4) (le32 (length buf + 12))) (offset - b + 8) (le32 (unat (crc32buf buf)))"
  obtain w4 where rw: "rewrite_block K fd b ?b w3 = (Ret 0, w4)"
    using rewrite_block_works [OF o(3) assms(2), of w3 ?b "offset div ?es"] bl(2) inb o buf(1) only_kernD [OF buf(2)] assms(9)
    by (auto simp: b_def minus_mod_eq_div_mult)
  have "offset < 2147483648" using assms(7) o(6) by simp
  then show ?thesis using rb td rw assms(5,7) blk(1)
    unfolding mtd_fixtrx_opened [OF assms(1,3) \<open>offset < 2147483648\<close> assms(4)] b_def [symmetric] by simp
qed

text \<open>
  C13. \<^verbatim>\<open>mtd_fixtrx\<close> repairs a TRX image on a device without faults: with a TRX header at the offset and the data inside the device
  it returns 0, whatever other blocks are bad than that of the header. On the flash, the length in the header is then that of the data on the good
  blocks and the checksum is the CRC-32 of these data; the contents are otherwise as before, but for the eight bytes of the length and the
  checksum.
\<close>

theorem mtd_fixtrx_repairs:
  assumes "opens_flash K mtd w fd w1 V bad e" and "mtd_works K fd V bad (2 ^ e)" and "offset mod 2 ^ e + 12 \<le> 2 ^ e" and "data_size < 1073741824"
    and "be32_at (V (kern w1)) offset = opt_trxmagic w1" and "2 ^ e dvd length (V (kern w1))"
    and "offset + 12 + trx_size e data_size \<le> length (V (kern w1))" and "trx_size e data_size < fuel" and "\<not> bad (offset div 2 ^ e)"
  shows "\<exists>w'. mtd_fixtrx fuel K mtd offset data_size w = Some (Ret 0, w') \<and>
    trx_ok bad (2 ^ e) (opt_trxmagic w1) (V (kern w')) offset (trx_size e data_size) \<and>
    take (offset + 4) (V (kern w')) = take (offset + 4) (V (kern w1)) \<and> drop (offset + 12) (V (kern w')) = drop (offset + 12) (V (kern w1))"
proof -
  have o: "offset < 2147483648" using assms(7) opens_flashD(6) [OF assms(1)] by simp
  obtain w' where w': "mtd_fixtrx fuel K mtd offset data_size w = Some (Ret 0, w')" using mtd_fixtrx_total [OF assms] ..
  note s = mtd_fixtrx_sound [OF assms(1,3) o assms(4) w']
  have l: "trx_ok bad (2 ^ e) (opt_trxmagic w1) (V (kern w')) offset (trx_size e data_size)" "length (V (kern w')) = length (V (kern w1))"
    using s [of offset] assms(7) by simp_all
  moreover have "take (offset + 4) (V (kern w')) = take (offset + 4) (V (kern w1))" by (rule nth_equalityI) (use s l(2) in auto)
  moreover have "drop (offset + 12) (V (kern w')) = drop (offset + 12) (V (kern w1))" by (rule nth_equalityI) (use s l(2) in auto)
  ultimately show ?thesis using w' by blast
qed

theorem mtd_fixtrx_repairs_witness:
  "\<exists>w'. mtd_fixtrx 100 ram_os firmware 0 0 (ram_tool ram_trx) = Some (Ret 0, w') \<and> trx_ok (\<lambda>b. False) 32 0x48445230 (kern w') 0 20 \<and>
     take 4 (kern w') = bytes_of ''HDR0'' \<and> drop 12 (kern w') = replicate 52 7"
proof -
  have l: "length ram_trx = 64" by (simp add: ram_trx_def bytes_of_def)
  have m: "be32_at ram_trx 0 = 0x48445230"
    by (simp add: ram_trx_def bytes_of_def be32_at_def be_val_def field_def)
  show ?thesis
    using mtd_fixtrx_repairs [OF ram_opens_flash ram_works, of ram_trx 0 0 100] m l
    by (simp add: trx_size_def ram_tool_def) (simp add: ram_trx_def bytes_of_def)
qed

end
