(* ===== verification/Mtd_Count.thy ===== *)
theory Mtd_Count
  imports Mtd_Fix
begin

text \<open>
  Flags for the boot loader that the \<^verbatim>\<open>mtd\<close> tool keeps on the flash: the boot counter of Linksys devices
  (\<^verbatim>\<open>linksys_bootcount.c\<close>), a log whose last entry counts, and the recovery flag of TP-Link devices
  (\<^verbatim>\<open>tpl_ramips_recoveryflag.c\<close>). Numbers are in the byte order of the machine.
\<close>

section \<open>The boot counter\<close>

definition BOOTCOUNT_MAGIC :: nat where
  "BOOTCOUNT_MAGIC = 0x20110811"

definition BC_OFFSET_INCREMENT_MIN :: nat where
  "BC_OFFSET_INCREMENT_MIN = 16"

text \<open>
  The loop over the entries, \<open>left\<close> of them from entry \<open>i\<close> on: the value to return on an error, or the first free entry
  and the last count.
\<close>

fun bc_scan :: "'d mtd_os \<Rightarrow> int \<Rightarrow> nat \<Rightarrow> nat \<Rightarrow> nat \<Rightarrow> int \<Rightarrow> 'd tool \<Rightarrow> (int + nat \<times> int) \<times> 'd tool" where
  "bc_scan K fd inc 0 i last_count w = (Inr (i, last_count), w)"
| "bc_scan K fd inc (Suc left) i last_count w =
     (case os_pread K fd 12 (u32 (i * inc)) (kern w) of
        (Inl _, k) \<Rightarrow> (Inl (- 5), w\<lparr>kern := k\<rparr>)
      | (Inr cur, k) \<Rightarrow>
          let w1 = w\<lparr>kern := k\<rparr>; magic = host32_at w cur 0; count = host32_at w cur 4; checksum = host32_at w cur 8
          in if length cur \<noteq> 12 then (Inl (- 5), w1)
             else if magic = 0xffffffff then (Inr (i, last_count), w1)
             else if magic \<noteq> BOOTCOUNT_MAGIC \<or> checksum \<noteq> u32 (magic + count) then (Inl (- 2), w1)
             else bc_scan K fd inc left (i + 1) (s32 count) w1)"

definition bc_entry :: "'d tool \<Rightarrow> nat \<Rightarrow> byte list" where
  "bc_entry w inc = host32_bytes w BOOTCOUNT_MAGIC @ host32_bytes w 0 @ host32_bytes w BOOTCOUNT_MAGIC @ replicate (inc - 12) 0xff"

definition bc_increment :: "mtd_info_user \<Rightarrow> nat" where
  "bc_increment info = (if mi_writesize info < BC_OFFSET_INCREMENT_MIN then BC_OFFSET_INCREMENT_MIN else mi_writesize info)"

definition mtd_resetbc :: "'d mtd_os \<Rightarrow> byte list \<Rightarrow> 'd tool \<Rightarrow> int \<times> 'd tool" where
  "mtd_resetbc K mtd w =
     (let (fd, w1) = mtd_check_open K mtd True w
      in case os_info K fd (kern w1) of
           None \<Rightarrow> (- 1, close_fd K fd w1)
         | Some info \<Rightarrow>
             let inc = bc_increment info; num_bc = mi_size info div inc
             in (case bc_scan K fd inc num_bc 0 0 w1 of
                  (Inl e, w2) \<Rightarrow> (e, close_fd K fd w2)
                | (Inr (i, last_count), w2) \<Rightarrow>
                    if last_count = 0 then (0, close_fd K fd w2)
                    else
                      let (r, k) = (if i = num_bc then os_erase K fd 0 (mi_size info) (kern w2) else (0, kern w2));
                          i' = (if i = num_bc then 0 else i)
                      in if r < 0 then (- 3, close_fd K fd (w2\<lparr>kern := k\<rparr>))
                         else
                           let (n, k') = os_pwrite K fd (bc_entry w2 inc) (u32 (i' * inc)) k
                           in (if n < 0 then - 4 else 0, close_fd K fd (w2\<lparr>kern := k'\<rparr>))))"

section \<open>The recovery flag\<close>

definition TPL_RECOVER_MAGIC :: nat where
  "TPL_RECOVER_MAGIC = 0x89abcdef"

definition TPL_NO_RECOVER_MAGIC :: nat where
  "TPL_NO_RECOVER_MAGIC = 0"

text \<open>
  The buffer is allocated with the erase size of the device that was opened before; \<open>heap\<close> is what it holds at first. When the
  blocks of this device are larger, the read writes behind the buffer: a memory error.
\<close>

definition mtd_tpl_recoverflag_write :: "'d mtd_os \<Rightarrow> byte list \<Rightarrow> byte list \<Rightarrow> bool \<Rightarrow> 'd tool \<Rightarrow> int outcome \<times> 'd tool" where
  "mtd_tpl_recoverflag_write K heap mtd recovery_active w =
     (let n = nat (erasesize w); (fd, w1) = mtd_check_open K mtd True w
      in if fd < 0 then (Ret (- 1), close_fd K fd w1)
         else
           let (res, k) = os_pread K fd (nat (erasesize w1)) 0 (kern w1);
               args = (case res of Inl _ \<Rightarrow> take n heap | Inr bs \<Rightarrow> poke (take n heap) 0 bs);
               magic = (if recovery_active then TPL_RECOVER_MAGIC else TPL_NO_RECOVER_MAGIC)
           in if n < nat (erasesize w1) then (Exit 139, w1\<lparr>kern := k\<rparr>)
              else if magic = host32_at w1 args 0 then (Ret 0, close_fd K fd (w1\<lparr>kern := k\<rparr>))
              else
                let (r, k1) = os_erase K fd 0 (nat (erasesize w1)) k
                in if r < 0 then (Ret r, close_fd K fd (w1\<lparr>kern := k1\<rparr>))
                   else
                     let (m, k2) = os_pwrite K fd (take (nat (erasesize w1)) (poke args 0 (host32_bytes w1 magic))) 0 k1
                     in (Ret m, close_fd K fd (w1\<lparr>kern := k2\<rparr>)))"

section \<open>The log\<close>

text \<open>The log on the flash \<open>d\<close> has the counts \<open>cs\<close>: entries of \<open>inc\<close> bytes, and erased flash behind them.\<close>

definition bc_log :: "'d tool \<Rightarrow> nat \<Rightarrow> byte list \<Rightarrow> nat list \<Rightarrow> bool" where
  "bc_log w inc d cs \<longleftrightarrow> length cs * inc \<le> length d \<and>
     (\<forall>j < length cs. host32_at w d (j * inc) = BOOTCOUNT_MAGIC \<and> host32_at w d (j * inc + 4) = cs ! j \<and>
        host32_at w d (j * inc + 8) = u32 (BOOTCOUNT_MAGIC + cs ! j)) \<and>
     (\<forall>i. length cs * inc \<le> i \<longrightarrow> i < length d \<longrightarrow> d ! i = 0xff)"

definition bc_count :: "nat list \<Rightarrow> nat" where
  "bc_count cs = (if cs = [] then 0 else last cs)"

lemma length_host32_bytes [simp]: "length (host32_bytes w n) = 4"
  by (simp add: host32_bytes_def)

lemma host32_at_cong: "field a 4 x = field b 4 y \<Longrightarrow> host32_at w x a = host32_at w y b"
  by (simp add: host32_at_def le32_at_def be32_at_def)

lemma host32_at_bytes: "n < 4294967296 \<Longrightarrow> field off 4 d = host32_bytes w n \<Longrightarrow> host32_at w d off = n"
  by (simp add: host32_at_def host32_bytes_def le32_at_def be32_at_def be_val_def)

lemma host32_at_less [simp]: "host32_at w d off < 4294967296"
  by (simp add: host32_at_def)

lemma host32_at_erased:
  assumes "off + 4 \<le> length d" and "\<And>i. off \<le> i \<Longrightarrow> i < off + 4 \<Longrightarrow> d ! i = 0xff"
  shows "host32_at w d off = 0xffffffff"
proof -
  have "field off 4 d = replicate 4 0xff" by (rule nth_equalityI) (use assms in \<open>auto simp: field_def\<close>)
  also have "\<dots> = [0xff, 0xff, 0xff, 0xff]" by (simp add: eval_nat_numeral)
  finally show ?thesis by (simp add: host32_at_def le32_at_def be32_at_def be_val_def)
qed

lemma host32_at_only_kern: "only_kern w w' \<Longrightarrow> host32_at w' = host32_at w" "only_kern w w' \<Longrightarrow> host32_bytes w' = host32_bytes w"
  by (auto simp: only_kern_def host32_at_def host32_bytes_def fun_eq_iff)

text \<open>A device for the log without faults: it can be read, erased as a whole, and entries can be written.\<close>

definition log_works :: "'d mtd_os \<Rightarrow> int \<Rightarrow> ('d \<Rightarrow> byte list) \<Rightarrow> nat \<Rightarrow> bool" where
  "log_works K fd V inc \<longleftrightarrow>
     (\<forall>k n off. off + n \<le> length (V k) \<longrightarrow> (\<exists>bs k'. os_pread K fd n off k = (Inr bs, k') \<and> length bs = n)) \<and>
     (\<forall>k. 0 \<le> fst (os_erase K fd 0 (length (V k)) k)) \<and>
     (\<forall>k bs i. length bs = inc \<longrightarrow> i * inc + inc \<le> length (V k) \<longrightarrow> fst (os_pwrite K fd bs (i * inc) k) = int inc)"

lemma bc_scan_log:
  assumes "mtd_flash K fd V bad es" and "log_works K fd V inc"
    and "bc_log w inc (V (kern w)) cs" and "i \<le> length cs" and "left = length (V (kern w)) div inc - i"
    and "12 \<le> inc" and "length (V (kern w)) < 4294967296" and "last_count = (if i = 0 then 0 else s32 (cs ! (i - 1)))"
  shows "\<exists>w'. bc_scan K fd inc left i last_count w = (Inr (length cs, s32 (bc_count cs)), w') \<and> only_kern w w' \<and> V (kern w') = V (kern w)"
  using assms(3-)
proof (induction left arbitrary: i last_count w)
  case 0
  have "length cs \<le> length (V (kern w)) div inc" using "0.prems"(1,4) by (simp add: bc_log_def less_eq_div_iff_mult_less_eq)
  then have "i = length cs" using "0.prems"(2,3) by simp
  then show ?case using "0.prems"(6) by (auto simp: bc_count_def last_conv_nth s32_id)
next
  case (Suc left)
  let ?d = "V (kern w)"
  have "i < length ?d div inc" using Suc.prems(3) by simp
  then have "Suc i * inc \<le> length ?d" using Suc.prems(4) by (simp add: less_eq_div_iff_mult_less_eq Suc_le_eq [symmetric] del: mult_Suc)
  then have fits: "i * inc + inc \<le> length ?d" by simp
  then obtain bs k where p: "os_pread K fd 12 (i * inc) (kern w) = (Inr bs, k)" "length bs = 12"
    using assms(2) [unfolded log_works_def, THEN conjunct1, THEN spec [of _ "kern w"], THEN spec [of _ 12], THEN spec [of _ "i * inc"]] Suc.prems(4) by auto
  have v: "V k = ?d" "bs = field (i * inc) 12 ?d"
    using flash_pread(1) [OF assms(1) p(1)] flash_pread(2) [OF assms(1) p(1), of bs] p(2) by simp_all
  have f: "host32_at w bs j = host32_at w ?d (i * inc + j)" if "j \<le> 8" for j
    unfolding v(2) using that field_field [of j 4 12 "i * inc" ?d] by (intro host32_at_cong) simp
  have u: "u32 (i * inc) = i * inc" using fits Suc.prems(5) by simp
  show ?case
  proof (cases "i < length cs")
    case True
    then have e: "host32_at w bs 0 = BOOTCOUNT_MAGIC" "host32_at w bs 4 = cs ! i" "host32_at w bs 8 = u32 (BOOTCOUNT_MAGIC + cs ! i)"
      using Suc.prems(1) f [of 0] f [of 4] f [of 8] by (simp_all add: bc_log_def)
    have "bc_scan K fd inc (Suc left) i last_count w = bc_scan K fd inc left (i + 1) (s32 (cs ! i)) (w\<lparr>kern := k\<rparr>)"
      using p e u by (simp add: Let_def BOOTCOUNT_MAGIC_def)
    moreover have "\<exists>w'. bc_scan K fd inc left (i + 1) (s32 (cs ! i)) (w\<lparr>kern := k\<rparr>) = (Inr (length cs, s32 (bc_count cs)), w') \<and>
        only_kern (w\<lparr>kern := k\<rparr>) w' \<and> V (kern w') = V (kern (w\<lparr>kern := k\<rparr>))"
      using Suc.prems True v(1) host32_at_only_kern(1) [of w "w\<lparr>kern := k\<rparr>"] by (intro Suc.IH) (simp_all add: bc_log_def)
    ultimately show ?thesis using v(1) only_kern_trans [of w "w\<lparr>kern := k\<rparr>"] by fastforce
  next
    case False
    then have i: "i = length cs" using Suc.prems(2) by simp
    have "host32_at w ?d (i * inc) = 0xffffffff"
      using fits Suc.prems(1,4) by (intro host32_at_erased) (auto simp: bc_log_def i)
    then have "bc_scan K fd inc (Suc left) i last_count w = (Inr (i, last_count), w\<lparr>kern := k\<rparr>)"
      using p f [of 0] u by (simp add: Let_def)
    then show ?thesis using i v(1) Suc.prems(6) by (auto simp: bc_count_def last_conv_nth)
  qed
qed

lemma flash_program_erased:
  assumes "\<And>i. off \<le> i \<Longrightarrow> i < off + length bs \<Longrightarrow> i < length d \<Longrightarrow> d ! i = 0xff"
  shows "flash_program d off bs = poke d off bs"
proof (rule nth_equalityI)
  have "(0xff :: byte) = - 1" by simp
  then have f: "(0xff :: byte) AND x = x" for x by (simp only: and.left_neutral)
  fix i assume "i < length (flash_program d off bs)"
  then show "flash_program d off bs ! i = poke d off bs ! i" using assms [of i] by (auto simp: flash_program_def nth_poke f)
qed simp

lemma length_bc_entry: "12 \<le> inc \<Longrightarrow> length (bc_entry w inc) = inc"
  by (simp add: bc_entry_def)

lemma bc_entry_fields:
  "field 0 4 (bc_entry w inc) = host32_bytes w BOOTCOUNT_MAGIC" "field 4 4 (bc_entry w inc) = host32_bytes w 0"
  "field 8 4 (bc_entry w inc) = host32_bytes w BOOTCOUNT_MAGIC"
  by (simp_all add: bc_entry_def field_def)

lemma bc_log_append:
  assumes "bc_log w inc d cs" and "length cs * inc + inc \<le> length d" and "12 \<le> inc"
  shows "bc_log w inc (flash_program d (length cs * inc) (bc_entry w inc)) (cs @ [0])"
proof -
  let ?o = "length cs * inc" and ?e = "bc_entry w inc"
  have ff: "\<And>i. ?o \<le> i \<Longrightarrow> i < length d \<Longrightarrow> d ! i = 0xff" using assms(1) by (simp add: bc_log_def)
  have p: "flash_program d ?o ?e = poke d ?o ?e" using ff by (intro flash_program_erased)
  have l: "length ?e = inc" using assms(3) by (rule length_bc_entry)
  have new: "host32_at w (poke d ?o ?e) (?o + j) = n" if "field j 4 ?e = host32_bytes w n" "n < 4294967296" "j \<le> 8" for j n
    using that field_poke_in [of ?o ?e d j 4] assms(2,3) l by (intro host32_at_bytes) simp_all
  have old: "host32_at w (poke d ?o ?e) (j * inc + k) = host32_at w d (j * inc + k)" if "j < length cs" "k \<le> 8" for j k
  proof -
    have "Suc j * inc \<le> ?o" using that(1) by (intro mult_right_mono) simp_all
    then have "j * inc + k + 4 \<le> ?o" using that(2) assms(3) by simp
    then show ?thesis by (intro host32_at_cong field_poke_other) simp
  qed
  have "host32_at w (poke d ?o ?e) (j * inc) = BOOTCOUNT_MAGIC \<and> host32_at w (poke d ?o ?e) (j * inc + 4) = (cs @ [0]) ! j \<and>
      host32_at w (poke d ?o ?e) (j * inc + 8) = u32 (BOOTCOUNT_MAGIC + (cs @ [0]) ! j)" if "j < Suc (length cs)" for j
  proof (cases "j < length cs")
    case True
    then show ?thesis using assms(1) old [of j 0] old [of j 4] old [of j 8] by (simp add: bc_log_def nth_append)
  next
    case False
    then have j: "j = length cs" using that by simp
    show ?thesis unfolding j using new [OF bc_entry_fields(1)] new [OF bc_entry_fields(2)] new [OF bc_entry_fields(3)]
      by (simp add: BOOTCOUNT_MAGIC_def)
  qed
  moreover have "poke d ?o ?e ! i = 0xff" if "?o + inc \<le> i" "i < length d" for i using that ff [of i] l by (simp add: nth_poke)
  ultimately show ?thesis using assms(2) unfolding p bc_log_def by (simp add: add.commute)
qed

text \<open>
  C17. \<^verbatim>\<open>mtd_resetbc\<close> resets the boot counter: on a device without faults whose log is well formed it returns 0, and the log is well formed
  again with 0 as its last count. A log whose count is 0 is left alone; otherwise an entry is added, to an erased log when there is no room.
\<close>

theorem mtd_resetbc_resets:
  assumes "opens_flash K mtd w fd w1 V bad e" and "os_info K fd (kern w1) = Some info" and "mi_size info = length (V (kern w1))"
    and "log_works K fd V (bc_increment info)"
    and "bc_log w1 (bc_increment info) (V (kern w1)) cs" and "bc_increment info \<le> length (V (kern w1))" and "list_all (\<lambda>c. c < 4294967296) cs"
  defines "cs' \<equiv> (if bc_count cs = 0 then cs else if length cs = length (V (kern w1)) div bc_increment info then [0] else cs @ [0])"
  shows "\<exists>w'. mtd_resetbc K mtd w = (0, w') \<and> bc_log w1 (bc_increment info) (V (kern w')) cs' \<and> bc_count cs' = 0"
proof -
  let ?d = "V (kern w1)" and ?inc = "bc_increment info"
  note o = opens_flashD [OF assms(1)]
  have inc: "12 \<le> ?inc" by (simp add: bc_increment_def BC_OFFSET_INCREMENT_MIN_def)
  obtain w2 where sc: "bc_scan K fd ?inc (length ?d div ?inc) 0 0 w1 = (Inr (length cs, s32 (bc_count cs)), w2)" "only_kern w1 w2" "V (kern w2) = ?d"
    using bc_scan_log [OF o(3) assms(4,5), of 0 "length ?d div ?inc" 0] inc o(6) by auto
  have z: "s32 (bc_count cs) = 0 \<longleftrightarrow> bc_count cs = 0"
  proof -
    have "bc_count cs < 4294967296" using assms(7) by (auto simp: bc_count_def list_all_iff)
    then show ?thesis by (simp add: s32_def)
  qed
  show ?thesis
  proof (cases "bc_count cs = 0")
    case True
    then have "mtd_resetbc K mtd w = (0, close_fd K fd w2)" using o(1,2) assms(2,3) sc z by (simp add: mtd_resetbc_def Let_def)
    then show ?thesis using True assms(5) sc(3) flash_keeps(2) [OF o(3)] by (simp add: cs'_def close_fd_def)
  next
    case False
    let ?full = "length cs = length ?d div ?inc"
    obtain r k where er: "(if ?full then os_erase K fd 0 (length ?d) (kern w2) else (0, kern w2)) = (r, k)" by fastforce
    have r: "0 \<le> r" using er assms(4) sc(3) unfolding log_works_def by (metis fst_conv order_refl)
    define cs0 where "cs0 = (if ?full then [] else cs)"
    have lk: "length (V k) = length ?d" and log: "bc_log w1 ?inc (V k) cs0"
      using er r flash_keeps(3) [OF o(3), of 0 "length ?d" "kern w2" r k] sc(3) assms(5)
      by (auto simp: cs0_def bc_log_def flash_erase_def split: if_splits)
    have "length cs \<le> length ?d div ?inc" using assms(5) inc by (simp add: bc_log_def less_eq_div_iff_mult_less_eq)
    moreover have "1 \<le> length ?d div ?inc" using assms(6) inc by (simp add: less_eq_div_iff_mult_less_eq)
    ultimately have "Suc (length cs0) \<le> length ?d div ?inc" by (auto simp: cs0_def)
    then have "Suc (length cs0) * ?inc \<le> length ?d" using inc by (simp add: less_eq_div_iff_mult_less_eq del: mult_Suc)
    then have room: "length cs0 * ?inc + ?inc \<le> length (V k)" using lk by simp
    let ?e = "bc_entry w2 ?inc"
    have e: "?e = bc_entry w1 ?inc" using host32_at_only_kern(2) [OF sc(2)] by (simp add: bc_entry_def)
    have le: "length ?e = ?inc" using inc by (rule length_bc_entry)
    obtain n k' where pw: "os_pwrite K fd ?e (length cs0 * ?inc) k = (n, k')" by fastforce
    have n: "n = int (length ?e)" using assms(4) le room pw unfolding log_works_def by (metis fst_conv)
    have "u32 (length cs0 * ?inc) = length cs0 * ?inc" using room lk o(6) by simp
    then have "mtd_resetbc K mtd w = (0, close_fd K fd (w2\<lparr>kern := k'\<rparr>))"
      using o(1,2) assms(2,3) sc z False er r pw n by (auto simp: mtd_resetbc_def Let_def cs0_def split: if_splits)
    moreover have "V (os_close K fd k') = flash_program (V k) (length cs0 * ?inc) (bc_entry w1 ?inc)"
      using flash_keeps(4) [OF o(3) pw [unfolded n]] flash_keeps(2) [OF o(3)] e by simp
    moreover have "cs' = cs0 @ [0]" using False by (simp add: cs'_def cs0_def)
    ultimately show ?thesis using bc_log_append [OF log room inc] by (simp add: close_fd_def bc_count_def)
  qed
qed

definition ram_log :: "byte list" where
  "ram_log = le32 BOOTCOUNT_MAGIC @ le32 3 @ le32 (BOOTCOUNT_MAGIC + 3) @ replicate 52 0xff"

lemma ram_log_works: "log_works ram_os 3 (\<lambda>k. k) inc"
  by (auto simp: log_works_def ram_os_def field_def)

theorem mtd_resetbc_resets_witness:
  "\<exists>w'. mtd_resetbc ram_os (bytes_of ''s_env'') (ram_tool ram_log) = (0, w') \<and> bc_log (ram_tool []) 16 (kern w') [3, 0]"
proof -
  define w1 where "w1 = (ram_tool ram_log)\<lparr>mtdsize := s32 (length ram_log), erasesize := 32, mtdtype_nand := False\<rparr>"
  define info where "info = \<lparr>mi_nand = False, mi_size = 64, mi_erasesize = 32, mi_writesize = 1\<rparr>"
  have l: "length ram_log = 64" by (simp add: ram_log_def)
  have op: "opens_flash ram_os (bytes_of ''s_env'') (ram_tool ram_log) 3 w1 (\<lambda>k. k) (\<lambda>b. False) 5"
    unfolding w1_def using l by (intro ram_opens_flash) simp_all
  have k: "kern w1 = ram_log" and i: "os_info ram_os 3 (kern w1) = Some info" "bc_increment info = 16"
    using l by (simp_all add: w1_def info_def ram_tool_def ram_os_def bc_increment_def BC_OFFSET_INCREMENT_MIN_def)
  have f: "field 0 4 ram_log = le32 BOOTCOUNT_MAGIC" "field 4 4 ram_log = le32 3" "field 8 4 ram_log = le32 (BOOTCOUNT_MAGIC + 3)"
    by (simp_all add: ram_log_def field_def)
  have "bc_log w1 16 ram_log [3]"
    using f by (auto simp: bc_log_def l host32_at_def le32_at_def w1_def ram_tool_def BOOTCOUNT_MAGIC_def ram_log_def nth_append)
  then have "\<exists>w'. mtd_resetbc ram_os (bytes_of ''s_env'') (ram_tool ram_log) = (0, w') \<and> bc_log w1 16 (kern w') [3, 0]"
    using mtd_resetbc_resets [OF op i(1), of "[3]"] i(2) k l ram_log_works by (simp add: info_def bc_count_def)
  then show ?thesis by (simp add: bc_log_def host32_at_def w1_def ram_tool_def)
qed

lemma take_poke_0: "take n (poke mem 0 bs) = poke (take n mem) 0 bs"
  by (rule nth_equalityI) (auto simp: nth_poke)

text \<open>
  \<^verbatim>\<open>mtd_tpl_recoverflag_write\<close> sets or clears the recovery flag: on a device without faults whose blocks are not larger than those of
  the device that was open before, it returns no error, the number at the start of the flash is the one for the flag, and the rest is as before.
\<close>

theorem mtd_tpl_recoverflag_sets:
  assumes "opens_flash K mtd w fd w1 V bad e" and "mtd_works K fd V bad (2 ^ e)" and "\<not> bad 0" and "erasesize w1 \<le> erasesize w"
    and "nat (erasesize w) \<le> length heap" and "4 \<le> (2 ^ e :: nat)"
  shows "\<exists>r w'. mtd_tpl_recoverflag_write K heap mtd active w = (Ret r, w') \<and> 0 \<le> r \<and>
    host32_at w1 (V (kern w')) 0 = (if active then TPL_RECOVER_MAGIC else TPL_NO_RECOVER_MAGIC) \<and> drop 4 (V (kern w')) = drop 4 (V (kern w1))"
proof -
  let ?es = "2 ^ e :: nat" and ?d = "V (kern w1)" and ?n = "nat (erasesize w)"
  define magic where "magic = (if active then TPL_RECOVER_MAGIC else TPL_NO_RECOVER_MAGIC)"
  note o = opens_flashD [OF assms(1)]
  have es: "nat (erasesize w1) = ?es" using o(4) by (simp add: nat_power_eq)
  have n: "?es \<le> ?n" using assms(4) o(4) es by simp
  obtain bs k where p: "os_pread K fd ?es 0 (kern w1) = (Inr bs, k)" "length bs = ?es"
    using assms(2) o(8) unfolding mtd_works_def by (metis add_0)
  have v: "V k = ?d" "bs = field 0 ?es ?d" using flash_pread(1) [OF o(3) p(1)] flash_pread(2) [OF o(3) p(1), of bs] p(2) by simp_all
  let ?args = "poke (take ?n heap) 0 bs"
  have ta: "take ?es ?args = take ?es ?d" using n p(2) v(2) assms(5) by (simp add: poke_def field_def)
  have a0: "host32_at w1 ?args 0 = host32_at w1 ?d 0"
    using arg_cong [OF ta, of "take 4"] assms(6) by (intro host32_at_cong) (simp add: field_def min_def)
  show ?thesis
  proof (cases "magic = host32_at w1 ?d 0")
    case True
    then have "mtd_tpl_recoverflag_write K heap mtd active w = (Ret 0, close_fd K fd (w1\<lparr>kern := k\<rparr>))"
      using o(1,2) es n p a0 by (simp add: mtd_tpl_recoverflag_write_def Let_def magic_def nat_power_eq)
    then show ?thesis using True v(1) flash_keeps(2) [OF o(3)] by (simp add: close_fd_def magic_def)
  next
    case False
    let ?b = "take ?es (poke ?args 0 (host32_bytes w1 magic))"
    have b: "?b = poke (take ?es ?d) 0 (host32_bytes w1 magic)" "length ?b = ?es"
      using ta o(8) by (simp_all add: take_poke_0)
    obtain r k1 where er: "os_erase K fd 0 ?es k = (r, k1)" by fastforce
    have r: "0 \<le> r" using assms(2,3) er o(8) v(1) unfolding mtd_works_def by (metis add_0 fst_conv mult_0)
    have v1: "V k1 = flash_erase ?d 0 ?es" using flash_keeps(3) [OF o(3) er r] v(1) by simp
    obtain m k2 where pw: "os_pwrite K fd ?b 0 k1 = (m, k2)" by fastforce
    have m: "m = int (length ?b)" using assms(2,3) pw o(8) v1 b(2) unfolding mtd_works_def by (metis add_0 fst_conv length_flash(2) mult_0)
    have v2: "V k2 = poke ?d 0 ?b" using flash_keeps(4) [OF o(3) pw [unfolded m]] v1 b(2) rewrite_flash [of 0 ?b ?d] o(8) by simp
    have "V k2 = poke ?d 0 (host32_bytes w1 magic)"
      unfolding v2 b(1) using poke_field [of 0 ?es ?d 0 "host32_bytes w1 magic"] o(8) assms(6) by (simp add: field_def)
    moreover have "mtd_tpl_recoverflag_write K heap mtd active w = (Ret m, close_fd K fd (w1\<lparr>kern := k2\<rparr>))"
      using o(1,2) es n p a0 False er r pw by (simp add: mtd_tpl_recoverflag_write_def Let_def magic_def nat_power_eq)
    moreover have "magic < 4294967296" by (simp add: magic_def TPL_RECOVER_MAGIC_def TPL_NO_RECOVER_MAGIC_def)
    then have "host32_at w1 (poke ?d 0 (host32_bytes w1 magic)) 0 = magic"
      using field_poke_in [of 0 "host32_bytes w1 magic" ?d 0 4] o(8) assms(6) by (intro host32_at_bytes) (simp_all add: field_def)
    moreover have "drop 4 (poke ?d 0 (host32_bytes w1 magic)) = drop 4 ?d" using o(8) assms(6) by (simp add: poke_in)
    moreover have "0 \<le> m" using m by simp
    ultimately show ?thesis using flash_keeps(2) [OF o(3)] by (auto simp: close_fd_def magic_def)
  qed
qed

theorem mtd_tpl_recoverflag_sets_witness:
  "\<exists>r w'. mtd_tpl_recoverflag_write ram_os (replicate 32 7) (bytes_of ''uboot-args'') True ((ram_tool ram_trx)\<lparr>erasesize := 32\<rparr>) = (Ret r, w') \<and> 0 \<le> r \<and>
     le32_at (kern w') 0 = TPL_RECOVER_MAGIC \<and> drop 4 (kern w') = replicate 60 7"
proof -
  let ?w = "(ram_tool ram_trx)\<lparr>erasesize := 32\<rparr>" and ?w1 = "(ram_tool ram_trx)\<lparr>mtdsize := 64, erasesize := 32\<rparr>"
  have l: "length ram_trx = 64" by (simp add: ram_trx_def bytes_of_def)
  have "mtd_check_open ram_os mtd True ?w = (3, ?w1)" for mtd
    using l by (auto simp: mtd_check_open_def mtd_open_def ram_os_def ram_tool_def split: option.splits)
  then have "opens_flash ram_os mtd ?w 3 ?w1 (\<lambda>k. k) (\<lambda>b. False) 5" for mtd
    unfolding opens_flash_def using ram_flash l by (simp add: ram_tool_def)
  from mtd_tpl_recoverflag_sets [OF this ram_works, of "replicate 32 7" "bytes_of ''uboot-args''" True] show ?thesis
    using l by (simp add: host32_at_def ram_tool_def) (simp add: ram_trx_def bytes_of_def)
qed

end
