(* ===== verification/Mtd_Md5.thy ===== *)
theory Mtd_Md5
  imports Flash_Prelude
begin

text \<open>
  The MD5 routines of the \<^verbatim>\<open>mtd\<close> tool (\<^verbatim>\<open>package/system/mtd/src/md5.c\<close>). The four registers are a tuple; a step of
  \<^verbatim>\<open>Transform\<close> takes it to the tuple the next step names its registers by, so after four steps they are in place again.
  The result of hashing in pieces is shown to be the digest of the padded message, block by block.
\<close>

type_synonym uint4 = "32 word"
type_synonym regs = "uint4 \<times> uint4 \<times> uint4 \<times> uint4"

record md5_ctx =
  md_i0 :: uint4
  md_i1 :: uint4
  md_buf :: regs
  md_in :: "byte list"

definition md5_F :: "uint4 \<Rightarrow> uint4 \<Rightarrow> uint4 \<Rightarrow> uint4" where
  "md5_F x y z = (x AND y) OR (NOT x AND z)"

definition md5_G :: "uint4 \<Rightarrow> uint4 \<Rightarrow> uint4 \<Rightarrow> uint4" where
  "md5_G x y z = (x AND z) OR (y AND NOT z)"

definition md5_H :: "uint4 \<Rightarrow> uint4 \<Rightarrow> uint4 \<Rightarrow> uint4" where
  "md5_H x y z = x XOR y XOR z"

definition md5_I :: "uint4 \<Rightarrow> uint4 \<Rightarrow> uint4 \<Rightarrow> uint4" where
  "md5_I x y z = y XOR (x OR NOT z)"

definition ROTATE_LEFT :: "uint4 \<Rightarrow> nat \<Rightarrow> uint4" where
  "ROTATE_LEFT x n = push_bit n x OR drop_bit (32 - n) x"

definition md5_step :: "(uint4 \<Rightarrow> uint4 \<Rightarrow> uint4 \<Rightarrow> uint4) \<Rightarrow> uint4 list \<Rightarrow> nat \<times> nat \<times> uint4 \<Rightarrow> regs \<Rightarrow> regs" where
  "md5_step f inw p r = (case (p, r) of ((k, s, ac), (a, b, c, d)) \<Rightarrow> (d, ROTATE_LEFT (a + (f b c d + inw ! k + ac)) s + b, b, c))"

text \<open>The arguments of the steps: the word of the block, the rotation and the constant.\<close>

definition round1 :: "(nat \<times> nat \<times> uint4) list" where
  "round1 = [(0, 7, 3614090360), (1, 12, 3905402710), (2, 17, 606105819), (3, 22, 3250441966),
     (4, 7, 4118548399), (5, 12, 1200080426), (6, 17, 2821735955), (7, 22, 4249261313),
     (8, 7, 1770035416), (9, 12, 2336552879), (10, 17, 4294925233), (11, 22, 2304563134),
     (12, 7, 1804603682), (13, 12, 4254626195), (14, 17, 2792965006), (15, 22, 1236535329)]"

definition round2 :: "(nat \<times> nat \<times> uint4) list" where
  "round2 = [(1, 5, 4129170786), (6, 9, 3225465664), (11, 14, 643717713), (0, 20, 3921069994),
     (5, 5, 3593408605), (10, 9, 38016083), (15, 14, 3634488961), (4, 20, 3889429448),
     (9, 5, 568446438), (14, 9, 3275163606), (3, 14, 4107603335), (8, 20, 1163531501),
     (13, 5, 2850285829), (2, 9, 4243563512), (7, 14, 1735328473), (12, 20, 2368359562)]"

definition round3 :: "(nat \<times> nat \<times> uint4) list" where
  "round3 = [(5, 4, 4294588738), (8, 11, 2272392833), (11, 16, 1839030562), (14, 23, 4259657740),
     (1, 4, 2763975236), (4, 11, 1272893353), (7, 16, 4139469664), (10, 23, 3200236656),
     (13, 4, 681279174), (0, 11, 3936430074), (3, 16, 3572445317), (6, 23, 76029189),
     (9, 4, 3654602809), (12, 11, 3873151461), (15, 16, 530742520), (2, 23, 3299628645)]"

definition round4 :: "(nat \<times> nat \<times> uint4) list" where
  "round4 = [(0, 6, 4096336452), (7, 10, 1126891415), (14, 15, 2878612391), (5, 21, 4237533241),
     (12, 6, 1700485571), (3, 10, 2399980690), (10, 15, 4293915773), (1, 21, 2240044497),
     (8, 6, 1873313359), (15, 10, 4264355552), (6, 15, 2734768916), (13, 21, 1309151649),
     (4, 6, 4149444226), (11, 10, 3174756917), (2, 15, 718787259), (9, 21, 3951481745)]"

definition Transform :: "regs \<Rightarrow> uint4 list \<Rightarrow> regs" where
  "Transform buf inw =
     (let (a, b, c, d) =
            fold (md5_step md5_I inw) round4 (fold (md5_step md5_H inw) round3 (fold (md5_step md5_G inw) round2 (fold (md5_step md5_F inw) round1 buf)))
      in case buf of (a0, b0, c0, d0) \<Rightarrow> (a0 + a, b0 + b, c0 + c, d0 + d))"

definition MD5_Init :: "byte list \<Rightarrow> md5_ctx" where
  "MD5_Init stack = \<lparr>md_i0 = 0, md_i1 = 0, md_buf = (0x67452301, 0xefcdab89, 0x98badcfe, 0x10325476), md_in = stack\<rparr>"

text \<open>Word \<open>i\<close> of a block.\<close>

definition in_word :: "byte list \<Rightarrow> nat \<Rightarrow> uint4" where
  "in_word bs i = push_bit 24 (ucast (bs ! (4 * i + 3))) OR push_bit 16 (ucast (bs ! (4 * i + 2))) OR push_bit 8 (ucast (bs ! (4 * i + 1))) OR ucast (bs ! (4 * i))"

definition in_words :: "nat \<Rightarrow> byte list \<Rightarrow> uint4 list" where
  "in_words n bs = map (in_word bs) [0..<n]"

fun update_loop :: "byte list \<Rightarrow> nat \<Rightarrow> md5_ctx \<Rightarrow> md5_ctx" where
  "update_loop [] mdi c = c"
| "update_loop (b # bs) mdi c =
     (let c1 = c\<lparr>md_in := (md_in c)[mdi := b]\<rparr>
      in if mdi + 1 = 64 then update_loop bs 0 (c1\<lparr>md_buf := Transform (md_buf c1) (in_words 16 (md_in c1))\<rparr>)
         else update_loop bs (mdi + 1) c1)"

definition md5_mdi :: "md5_ctx \<Rightarrow> nat" where
  "md5_mdi c = unat (drop_bit 3 (md_i0 c) AND 0x3f)"

definition MD5_Update :: "md5_ctx \<Rightarrow> byte list \<Rightarrow> md5_ctx" where
  "MD5_Update c inBuf =
     (let inLen = (of_nat (length inBuf) :: uint4);
          i1 = (if md_i0 c + push_bit 3 inLen < md_i0 c then md_i1 c + 1 else md_i1 c)
      in update_loop inBuf (md5_mdi c) (c\<lparr>md_i0 := md_i0 c + push_bit 3 inLen, md_i1 := i1 + drop_bit 29 inLen\<rparr>))"

definition md5_PADDING :: "byte list" where
  "md5_PADDING = 0x80 # replicate 63 0"

definition reg_bytes :: "uint4 \<Rightarrow> byte list" where
  "reg_bytes x = [ucast (x AND 0xff), ucast (drop_bit 8 x AND 0xff), ucast (drop_bit 16 x AND 0xff), ucast (drop_bit 24 x AND 0xff)]"

definition digest_bytes :: "regs \<Rightarrow> byte list" where
  "digest_bytes r = (case r of (a, b, c, d) \<Rightarrow> reg_bytes a @ reg_bytes b @ reg_bytes c @ reg_bytes d)"

definition MD5_Final :: "md5_ctx \<Rightarrow> byte list" where
  "MD5_Final c =
     (let mdi = md5_mdi c;
          padLen = (if mdi < 56 then 56 - mdi else 120 - mdi);
          c1 = MD5_Update c (take padLen md5_PADDING)
      in digest_bytes (Transform (md_buf c1) (in_words 14 (md_in c1) @ [md_i0 c, md_i1 c])))"

text \<open>The digest of some pieces; \<open>stack\<close> is what the memory of the context held before.\<close>

definition md5_of :: "byte list \<Rightarrow> byte list list \<Rightarrow> byte list" where
  "md5_of stack pieces = MD5_Final (fold (\<lambda>p c. MD5_Update c p) pieces (MD5_Init stack))"

section \<open>The digest block by block\<close>

function md5_blocks :: "regs \<Rightarrow> byte list \<Rightarrow> regs" where
  "md5_blocks r bs = (if length bs < 64 then r else md5_blocks (Transform r (in_words 16 bs)) (drop 64 bs))"
  by auto
termination
  by (relation "measure (\<lambda>(r, bs). length bs)") auto

declare md5_blocks.simps [simp del]

text \<open>The padding: a one bit, zeros up to 56 bytes of a block, and the number of bits.\<close>

definition md5_pad :: "nat \<Rightarrow> byte list" where
  "md5_pad n = 0x80 # replicate ((119 - n mod 64) mod 64) 0 @ le32 (8 * n mod 2 ^ 32) @ le32 (8 * n div 2 ^ 32)"

definition md5_spec :: "byte list \<Rightarrow> byte list" where
  "md5_spec msg = digest_bytes (md5_blocks (0x67452301, 0xefcdab89, 0x98badcfe, 0x10325476) (msg @ md5_pad (length msg)))"

definition rest64 :: "byte list \<Rightarrow> byte list" where
  "rest64 bs = drop (64 * (length bs div 64)) bs"

lemma length_rest64 [simp]: "length (rest64 bs) = length bs mod 64"
  by (simp add: rest64_def) (metis minus_mult_div_eq_mod)

lemma rest64_short [simp]: "length bs < 64 \<Longrightarrow> rest64 bs = bs"
  by (simp add: rest64_def)

lemma rest64_drop: "64 \<le> length bs \<Longrightarrow> rest64 (drop 64 bs) = rest64 bs"
  by (simp add: rest64_def le_div_geq [of 64 "length bs"] ac_simps)

lemma in_words_append: "4 * n \<le> length xs \<Longrightarrow> in_words n (xs @ ys) = in_words n xs"
  by (auto simp: in_words_def in_word_def nth_append)

lemma md5_blocks_append: "md5_blocks r (xs @ ys) = md5_blocks (md5_blocks r xs) (rest64 xs @ ys)"
proof (induction r xs rule: md5_blocks.induct)
  case (1 r xs)
  show ?case
  proof (cases "length xs < 64")
    case True
    then show ?thesis by (simp add: md5_blocks.simps [of r xs])
  next
    case False
    then have "md5_blocks r (xs @ ys) = md5_blocks (Transform r (in_words 16 xs)) (drop 64 xs @ ys)"
      by (simp add: md5_blocks.simps [of r "xs @ ys"] in_words_append)
    also have "\<dots> = md5_blocks (md5_blocks (Transform r (in_words 16 xs)) (drop 64 xs)) (rest64 xs @ ys)"
      using 1 False by (simp add: rest64_drop)
    finally show ?thesis using False by (simp add: md5_blocks.simps [of r xs])
  qed
qed

lemma rest64_append: "rest64 (rest64 xs @ ys) = rest64 (xs @ ys)"
proof -
  have dm: "(n + m) div 64 = n div 64 + (n mod 64 + m) div 64" for n m :: nat
  proof -
    have "n + m = (n mod 64 + m) + 64 * (n div 64)" by simp
    then show ?thesis using div_mult_self2 [of 64 "n mod 64 + m" "n div 64"] by simp
  qed
  have "length (xs @ ys) div 64 = length xs div 64 + length (rest64 xs @ ys) div 64" (is "_ = ?a + ?b") using dm [of "length xs" "length ys"] by simp
  then have "rest64 (xs @ ys) = drop (64 * ?a + 64 * ?b) (xs @ ys)" by (simp only: rest64_def add_mult_distrib2)
  also have "\<dots> = drop (64 * ?b) (drop (64 * ?a) (xs @ ys))" by (simp add: add.commute)
  also have "drop (64 * ?a) (xs @ ys) = rest64 xs @ ys" by (simp add: rest64_def)
  finally show ?thesis by (simp add: rest64_def)
qed

lemma update_loop_spec:
  assumes "length (md_in c) = 64" and "mdi < 64" and "p = take mdi (md_in c)"
  shows "md_buf (update_loop bs mdi c) = md5_blocks (md_buf c) (p @ bs) \<and> length (md_in (update_loop bs mdi c)) = 64 \<and>
    take ((mdi + length bs) mod 64) (md_in (update_loop bs mdi c)) = rest64 (p @ bs) \<and>
    md_i0 (update_loop bs mdi c) = md_i0 c \<and> md_i1 (update_loop bs mdi c) = md_i1 c"
  using assms
proof (induction bs mdi c arbitrary: p rule: update_loop.induct)
  case (1 mdi c)
  then show ?case by (simp add: md5_blocks.simps)
next
  case (2 b bs mdi c)
  let ?c1 = "c\<lparr>md_in := (md_in c)[mdi := b]\<rparr>"
  have p': "take (mdi + 1) (md_in ?c1) = p @ [b]" using 2(3-5) by (simp add: take_Suc_conv_app_nth)
  show ?case
  proof (cases "mdi + 1 = 64")
    case True
    let ?c2 = "?c1\<lparr>md_buf := Transform (md_buf ?c1) (in_words 16 (md_in ?c1))\<rparr>"
    have full: "md_in ?c1 = p @ [b]" using p' True 2(3) by (simp add: take_all)
    have "md5_blocks (md_buf c) (p @ b # bs) = md5_blocks (Transform (md_buf c) (in_words 16 (p @ [b]))) bs"
    proof -
      have l: "length p = 63" using 2(3,5) True by simp
      then have "drop 64 (p @ b # bs) = bs" by simp
      then show ?thesis using l in_words_append [of 16 "p @ [b]" bs] by (simp add: md5_blocks.simps [of _ "p @ b # bs"])
    qed
    moreover have "rest64 (p @ b # bs) = rest64 bs" using 2(3,5) True rest64_drop [of "p @ b # bs"] by simp
    moreover have "(mdi + length (b # bs)) mod 64 = (0 + length bs) mod 64" using True by simp
    ultimately show ?thesis using 2(1) [OF refl True, of "[]"] True full 2(3) by simp
  next
    case False
    have "(mdi + length (b # bs)) mod 64 = (mdi + 1 + length bs) mod 64" by simp
    then show ?thesis using 2(2) [OF refl False, of "p @ [b]"] False p' 2(3,4) by simp
  qed
qed

section \<open>The count of bits\<close>

definition md5_bits :: "md5_ctx \<Rightarrow> nat" where
  "md5_bits c = unat (md_i0 c) + 4294967296 * unat (md_i1 c)"

lemma add64:
  fixes i0 i1 n :: nat
  assumes "i0 < 4294967296" and "a = 8 * n mod 4294967296" and "x = (i0 + a) mod 4294967296"
    and "y = (i1 + (if x < i0 then 1 else 0) + n div 536870912) mod 4294967296"
  shows "(x + 4294967296 * y) mod 18446744073709551616 = (i0 + 4294967296 * i1 + 8 * n) mod 18446744073709551616"
proof -
  let ?c = "if x < i0 then 1 else 0 :: nat"
  have "a < 4294967296" using assms(2) by simp
  then have x: "i0 + a = x + 4294967296 * ?c" using assms(1,3) by (simp add: mod_if split: if_splits)
  have "8 * n div (8 * 536870912) = n div 536870912" by (rule div_mult_mult1) simp
  then have n: "8 * n = a + 4294967296 * (n div 536870912)" using assms(2) mod_mult_div_eq [of "8 * n" 4294967296] by simp
  obtain z where z: "z = i1 + ?c + n div 536870912" by simp
  obtain q where "z = y + 4294967296 * q" using assms(4) mod_mult_div_eq [of z 4294967296] z by metis
  then have "x + 4294967296 * z = (x + 4294967296 * y) + 18446744073709551616 * q" by simp
  moreover have "i0 + 4294967296 * i1 + 8 * n = x + 4294967296 * z" using x n z by (simp only: add_mult_distrib2)
  ultimately show ?thesis by (simp only: mod_mult_self2)
qed

lemma unat_shift3: "unat (push_bit 3 (of_nat n :: uint4)) = 8 * n mod 4294967296"
  by (simp add: push_bit_eq_mult unat_word_ariths unat_of_nat mod_mult_right_eq mult.commute)

lemma unat_shift29: "n < 4294967296 \<Longrightarrow> unat (drop_bit 29 (of_nat n :: uint4)) = n div 536870912"
  unfolding unsigned_drop_bit_eq by (simp add: drop_bit_eq_div unat_of_nat take_bit_nat_eq_self)

lemma MD5_Update_bits:
  assumes "length bs < 4294967296"
  shows "md5_bits (MD5_Update c bs) mod 18446744073709551616 = (md5_bits c + 8 * length bs) mod 18446744073709551616"
proof -
  let ?p = "push_bit 3 (of_nat (length bs) :: uint4)"
  let ?x = "(unat (md_i0 c) + 8 * length bs mod 4294967296) mod 4294967296"
  have x: "unat (md_i0 c + ?p) = ?x" by (simp add: unat_word_ariths unat_shift3)
  have i: "md_i0 (update_loop bs m d) = md_i0 d" "md_i1 (update_loop bs m d) = md_i1 d" for m d
    by (induction bs m d rule: update_loop.induct) (simp_all add: Let_def)
  have carry: "md_i0 c + ?p < md_i0 c \<longleftrightarrow> ?x < unat (md_i0 c)" by (simp only: word_less_nat_alt x)
  have y: "unat (md_i1 (MD5_Update c bs)) = (unat (md_i1 c) + (if ?x < unat (md_i0 c) then 1 else 0) + length bs div 536870912) mod 4294967296"
    using assms by (simp add: MD5_Update_def Let_def i carry) (simp add: unat_word_ariths unat_shift29 mod_add_left_eq)
  have b: "md5_bits (MD5_Update c bs) = ?x + 4294967296 * unat (md_i1 (MD5_Update c bs))"
    unfolding md5_bits_def by (simp add: MD5_Update_def Let_def i x)
  show ?thesis unfolding b unfolding md5_bits_def by (rule add64 [OF _ refl refl y]) (use unsigned_less [of "md_i0 c", where 'a = nat] in simp)
qed

lemma md5_mdi_bits: "md5_mdi c = md5_bits c div 8 mod 64"
proof -
  have m: "(0x3f :: uint4) = mask 6" by (simp add: mask_eq_exp_minus_1)
  have "md5_mdi c = unat (md_i0 c) div 8 mod 64"
    unfolding md5_mdi_def m take_bit_eq_mask [symmetric] unsigned_take_bit_eq unsigned_drop_bit_eq using unsigned_less [of "md_i0 c", where 'a = nat] by (simp add: drop_bit_eq_div take_bit_eq_mod)
  moreover have "(a + 4294967296 * b) div 8 = a div 8 + 64 * (8388608 * b)" for a b :: nat
    using div_mult_self2 [of 8 a "536870912 * b"] by simp
  ultimately show ?thesis by (simp only: md5_bits_def mod_mult_self2)
qed

section \<open>Hashing in pieces\<close>

definition md5_inv :: "byte list \<Rightarrow> md5_ctx \<Rightarrow> bool" where
  "md5_inv msg c \<longleftrightarrow> length (md_in c) = 64 \<and> md_buf c = md5_blocks (md_buf (MD5_Init [])) msg \<and>
     take (length msg mod 64) (md_in c) = rest64 msg \<and> md5_bits c mod 18446744073709551616 = 8 * length msg mod 18446744073709551616"

lemma md5_inv_mdi: "md5_inv msg c \<Longrightarrow> md5_mdi c = length msg mod 64"
proof -
  assume "md5_inv msg c"
  then have "md5_bits c mod 18446744073709551616 div 8 mod 64 = 8 * length msg mod 18446744073709551616 div 8 mod 64" by (simp add: md5_inv_def)
  moreover have "n mod 18446744073709551616 div 8 mod 64 = n div 8 mod 64" for n :: nat
  proof -
    have "(x + 18446744073709551616 * y) div 8 = x div 8 + 64 * (36028797018963968 * y)" for x y :: nat
      using div_mult_self2 [of 8 x "2305843009213693952 * y"] by simp
    then have "(n mod 18446744073709551616 + 18446744073709551616 * (n div 18446744073709551616)) div 8 mod 64 = n mod 18446744073709551616 div 8 mod 64"
      by (simp only: mod_mult_self2)
    then show ?thesis by (simp only: mod_mult_div_eq)
  qed
  ultimately show ?thesis by (simp add: md5_mdi_bits)
qed

lemma md5_inv_init: "length stack = 64 \<Longrightarrow> md5_inv [] (MD5_Init stack)"
  by (simp add: md5_inv_def MD5_Init_def md5_bits_def md5_blocks.simps)

lemma md5_inv_update:
  assumes "md5_inv msg c" and "length bs < 4294967296"
  shows "md5_inv (msg @ bs) (MD5_Update c bs)"
proof -
  define i1 where "i1 = (if md_i0 c + push_bit 3 (of_nat (length bs)) < md_i0 c then md_i1 c + 1 else md_i1 c)"
  let ?c = "c\<lparr>md_i0 := md_i0 c + push_bit 3 (of_nat (length bs)), md_i1 := i1 + drop_bit 29 (of_nat (length bs))\<rparr>"
  have u: "MD5_Update c bs = update_loop bs (length msg mod 64) ?c"
    using md5_inv_mdi [OF assms(1)] by (simp add: MD5_Update_def Let_def i1_def)
  have c: "length (md_in ?c) = 64" "rest64 msg = take (length msg mod 64) (md_in ?c)" "md_buf ?c = md5_blocks (md_buf (MD5_Init [])) msg"
    using assms(1) by (simp_all add: md5_inv_def)
  have bits: "md5_bits (MD5_Update c bs) mod 18446744073709551616 = 8 * length (msg @ bs) mod 18446744073709551616"
    using MD5_Update_bits [OF assms(2), of c] assms(1) mod_add_left_eq [of "md5_bits c" 18446744073709551616 "8 * length bs"]
      mod_add_left_eq [of "8 * length msg" 18446744073709551616 "8 * length bs"]
    by (simp add: md5_inv_def)
  have m: "(length msg mod 64 + length bs) mod 64 = length (msg @ bs) mod 64" by (simp add: mod_add_left_eq)
  from update_loop_spec [OF c(1) _ c(2), of bs, folded u] have "md_buf (MD5_Update c bs) = md5_blocks (md_buf (MD5_Init [])) (msg @ bs)"
      "length (md_in (MD5_Update c bs)) = 64" "take (length (msg @ bs) mod 64) (md_in (MD5_Update c bs)) = rest64 (msg @ bs)"
    unfolding m c(3) md5_blocks_append [of _ msg] rest64_append by simp_all
  then show ?thesis unfolding md5_inv_def using bits by blast
qed

lemma md5_inv_pieces:
  "md5_inv msg c \<Longrightarrow> list_all (\<lambda>p. length p < 4294967296) ps \<Longrightarrow> md5_inv (msg @ concat ps) (fold (\<lambda>p c. MD5_Update c p) ps c)"
proof (induction ps arbitrary: msg c)
  case (Cons p ps)
  then have "md5_inv (msg @ p) (MD5_Update c p)" by (simp add: md5_inv_update)
  from Cons.IH [OF this] Cons.prems show ?case by simp
qed simp

lemma in_word_le32:
  assumes "length xs = 4 * k"
  shows "in_word (xs @ le32 n @ ys) k = of_nat n"
proof -
  have d: "n div 256 mod 256 = take_bit 8 (drop_bit 8 n)" "n div 65536 mod 256 = take_bit 8 (drop_bit 16 n)"
      "n div 16777216 mod 256 = take_bit 8 (drop_bit 24 n)" "n mod 256 = take_bit 8 n"
    by (simp_all add: drop_bit_eq_div take_bit_eq_mod)
  have b: "in_word (xs @ le32 n @ ys) k = push_bit 24 (ucast (of_nat (take_bit 8 (drop_bit 24 n)) :: byte)) OR
      push_bit 16 (ucast (of_nat (take_bit 8 (drop_bit 16 n)) :: byte)) OR push_bit 8 (ucast (of_nat (take_bit 8 (drop_bit 8 n)) :: byte)) OR
      ucast (of_nat (take_bit 8 n) :: byte)"
    using assms by (simp add: in_word_def le32_def nth_append d)
  show ?thesis unfolding b
  proof (rule bit_eqI)
    fix i assume "possible_bit TYPE(uint4) i"
    then have i: "i < 32" by simp
    consider "i < 8" | "8 \<le> i" "i < 16" | "16 \<le> i" "i < 24" | "24 \<le> i" by linarith
    then show "bit (push_bit 24 (ucast (of_nat (take_bit 8 (drop_bit 24 n)) :: byte)) OR
      push_bit 16 (ucast (of_nat (take_bit 8 (drop_bit 16 n)) :: byte)) OR push_bit 8 (ucast (of_nat (take_bit 8 (drop_bit 8 n)) :: byte)) OR
      ucast (of_nat (take_bit 8 n) :: byte) :: uint4) i = bit (of_nat n :: uint4) i"
      using i by cases (auto simp: bit_simps bit_of_nat_iff)
  qed
qed

lemma md5_pad_len:
  fixes m :: nat
  assumes "m < 64" and "p = (if m < 56 then 56 - m else 120 - m)"
  shows "(119 - m) mod 64 = p - 1" and "(m + p) mod 64 = 56" and "0 < p" and "p \<le> 64"
proof -
  show "(119 - m) mod 64 = p - 1"
  proof (cases "m < 56")
    case True
    then have "119 - m = 64 + (55 - m)" by simp
    then have "(119 - m) mod 64 = (55 - m) mod 64" by (simp only: mod_add_self1)
    then show ?thesis using True assms by simp
  qed (use assms in simp)
  have "m + p = (if m < 56 then 56 else 120)" using assms by simp
  then show "(m + p) mod 64 = 56" by simp
qed (use assms in auto)

lemma md5_bits_words:
  assumes "md5_bits c mod 18446744073709551616 = n" 
  shows "md_i0 c = of_nat (n mod 4294967296)" and "md_i1 c = of_nat (n div 4294967296)"
proof -
  have b: "unat (md_i0 c) < 4294967296" "unat (md_i1 c) < 4294967296"
    using unsigned_less [of "md_i0 c", where 'a = nat] unsigned_less [of "md_i1 c", where 'a = nat] by simp_all
  then have "md5_bits c < 18446744073709551616" by (simp add: md5_bits_def)
  then have n: "n = unat (md_i0 c) + 4294967296 * unat (md_i1 c)" using assms by (simp add: md5_bits_def)
  have "n mod 4294967296 = unat (md_i0 c)" "n div 4294967296 = unat (md_i1 c)" using b(1) unfolding n by simp_all
  then show "md_i0 c = of_nat (n mod 4294967296)" "md_i1 c = of_nat (n div 4294967296)" by simp_all
qed

lemma in_words_last:
  assumes "length xs = 56"
  shows "in_words 16 (xs @ le32 a @ le32 b) = in_words 14 xs @ [of_nat a, of_nat b]"
proof -
  have "[0..<16 :: nat] = [0..<14] @ [14, 15]" by (simp add: upt_rec)
  then have "in_words 16 (xs @ le32 a @ le32 b) = in_words 14 (xs @ le32 a @ le32 b) @ [in_word (xs @ le32 a @ le32 b) 14, in_word (xs @ le32 a @ le32 b) 15]"
    by (simp only: in_words_def map_append list.map)
  moreover have "in_word (xs @ le32 a @ le32 b) 14 = of_nat a" using assms by (intro in_word_le32) simp
  moreover have "in_word ((xs @ le32 a) @ le32 b @ []) 15 = of_nat b" using assms by (intro in_word_le32) simp
  ultimately show ?thesis using assms by (simp add: in_words_append)
qed

lemma md5_Final_spec:
  assumes "md5_inv msg c" and "8 * length msg < 18446744073709551616"
  shows "MD5_Final c = md5_spec msg"
proof -
  let ?n = "length msg" and ?m = "length msg mod 64"
  define padLen where "padLen = (if ?m < 56 then 56 - ?m else 120 - ?m)"
  define P where "P = take padLen md5_PADDING"
  define L where "L = le32 (8 * ?n mod 2 ^ 32) @ le32 (8 * ?n div 2 ^ 32)"
  note p = md5_pad_len [OF _ padLen_def, simplified]
  have "P = 0x80 # replicate (padLen - 1) 0" using p(3,4) by (cases padLen) (simp_all add: P_def md5_PADDING_def min_def)
  then have pad: "md5_pad ?n = P @ L" using p(1) by (simp add: md5_pad_def L_def)
  have lP: "length P = padLen" using p(4) by (simp add: P_def md5_PADDING_def)
  have "length P < 4294967296" using p(4) unfolding lP by simp
  note inv = md5_inv_update [OF assms(1) this]
  let ?c1 = "MD5_Update c P"
  have l56: "length (msg @ P) mod 64 = 56" using p(2) mod_add_left_eq [of ?n 64 padLen] by (simp add: lP)
  have t: "take 56 (md_in ?c1) = rest64 (msg @ P)" "length (md_in ?c1) = 64" "md_buf ?c1 = md5_blocks (md_buf (MD5_Init [])) (msg @ P)"
    using inv l56 by (simp_all add: md5_inv_def)
  have w: "md_i0 c = of_nat (8 * ?n mod 2 ^ 32)" "md_i1 c = of_nat (8 * ?n div 2 ^ 32)"
    using md5_bits_words [of c "8 * ?n"] assms by (simp_all add: md5_inv_def)
  have r: "length (rest64 (msg @ P)) = 56" using l56 by simp
  have "in_words 14 (take 56 (md_in ?c1) @ drop 56 (md_in ?c1)) = in_words 14 (take 56 (md_in ?c1))" using t(2) by (intro in_words_append) simp
  then have "in_words 14 (md_in ?c1) = in_words 14 (rest64 (msg @ P))" unfolding append_take_drop_id unfolding t(1) .
  then have f: "MD5_Final c = digest_bytes (Transform (md5_blocks (md_buf (MD5_Init [])) (msg @ P)) (in_words 16 (rest64 (msg @ P) @ L)))"
    using md5_inv_mdi [OF assms(1)] t(3) w in_words_last [OF r]
    by (simp add: MD5_Final_def Let_def padLen_def [symmetric] P_def [symmetric] L_def)
  have "length (rest64 (msg @ P) @ L) = 64" using r by (simp add: L_def)
  then have "md5_blocks x (rest64 (msg @ P) @ L) = Transform x (in_words 16 (rest64 (msg @ P) @ L))" for x
    by (simp add: md5_blocks.simps [of x "rest64 (msg @ P) @ L"] md5_blocks.simps [of _ "[]"])
  then show ?thesis unfolding f by (simp add: md5_spec_def pad md5_blocks_append [of _ "msg @ P" L, simplified] MD5_Init_def)
qed

lemma md5_of_spec:
  assumes "length stack = 64" and "list_all (\<lambda>p. length p < 2 ^ 32) pieces" and "length (concat pieces) < 2 ^ 61"
  shows "md5_of stack pieces = md5_spec (concat pieces)"
proof -
  have "md5_inv ([] @ concat pieces) (fold (\<lambda>p c. MD5_Update c p) pieces (MD5_Init stack))"
    using md5_inv_pieces [OF md5_inv_init [OF assms(1)]] assms(2) by simp
  then show ?thesis unfolding md5_of_def using md5_Final_spec assms(3) by simp
qed

lemma length_md5_of [simp]: "length (md5_of stack pieces) = 16"
  by (simp add: md5_of_def MD5_Final_def digest_bytes_def reg_bytes_def Let_def split: prod.splits)

text \<open>
  C18. Hashing a message in pieces gives its MD5 digest: whatever the pieces and the old contents of the
  context, the result is that of the padded message, block by block, for every message of less than 2^61 bytes.
\<close>

theorem md5_of_pieces:
  assumes "length stack = 64" and "list_all (\<lambda>p. length p < 2 ^ 32) pieces" and "length (concat pieces) < 2 ^ 61"
  shows "md5_of stack pieces = md5_spec (concat pieces)"
  using assms by (rule md5_of_spec)

theorem md5_of_pieces_witness:
  "md5_of (replicate 64 0x5a) [[97], [98, 99]] = md5_spec [97, 98, 99] \<and>
   md5_of (replicate 64 0x5a) [[97], [98, 99]] = [0x90, 0x01, 0x50, 0x98, 0x3c, 0xd2, 0x4f, 0xb0, 0xd6, 0x96, 0x3f, 0x7d, 0x28, 0xe1, 0x7f, 0x72]"
proof -
  have "md5_of (replicate 64 0x5a) [[97], [98, 99]] = md5_spec (concat [[97], [98, 99]])" by (rule md5_of_pieces) simp_all
  moreover have "md5_of (replicate 64 0x5a) [[97], [98, 99]] = [0x90, 0x01, 0x50, 0x98, 0x3c, 0xd2, 0x4f, 0xb0, 0xd6, 0x96, 0x3f, 0x7d, 0x28, 0xe1, 0x7f, 0x72]"
    by code_simp
  ultimately show ?thesis by simp
qed

end
