(* ===== verification/Mtd_Digest.thy ===== *)
theory Mtd_Digest
  imports Mtd_Fix Mtd_Md5
begin

text \<open>
  The image headers of the \<^verbatim>\<open>mtd\<close> tool with an MD5 digest: SEAMA, WRG and WRGG03 (\<^verbatim>\<open>seama.c\<close>, \<^verbatim>\<open>wrg.c\<close>, \<^verbatim>\<open>wrgg.c\<close>). The three
  functions differ in their header only: what they have in common is \<open>fix_header\<close>, over a record that describes the header. The locale
  \<open>digest_header\<close> states what is needed of such a record, and is interpreted for the three formats.
\<close>

section \<open>SEAMA, WRG and WRGG03\<close>

text \<open>
  A header: its length, the test of its magic number, the size of the metadata behind it, where its size field is with the
  functions to read and write it, the parts of the header that are hashed in front of the data, and where the digest is.
\<close>

record header_format =
  hf_len :: nat
  hf_magic_ok :: "byte list \<Rightarrow> bool"
  hf_meta :: "byte list \<Rightarrow> nat"
  hf_size_at :: nat
  hf_get_size :: "byte list \<Rightarrow> nat"
  hf_put_size :: "nat \<Rightarrow> byte list"
  hf_hashed :: "byte list \<Rightarrow> byte list list"
  hf_digest_at :: nat

definition seama_format :: header_format where
  "seama_format =
     \<lparr>hf_len = 28, hf_magic_ok = (\<lambda>h. be32_at h 0 = 0x5ea3a417), hf_meta = (\<lambda>h. be16_at h 6), hf_size_at = 8,
      hf_get_size = (\<lambda>h. be32_at h 8), hf_put_size = (\<lambda>n. rev (le32 (u32 n))), hf_hashed = (\<lambda>h. []), hf_digest_at = 12\<rparr>"

definition wrg_format :: header_format where
  "wrg_format =
     \<lparr>hf_len = 96, hf_magic_ok = (\<lambda>h. le32_at h 32 = 0x20040220), hf_meta = (\<lambda>h. 0), hf_size_at = 40,
      hf_get_size = (\<lambda>h. le32_at h 40), hf_put_size = (\<lambda>n. le32 (u32 n)), hf_hashed = (\<lambda>h. [field 44 4 h, field 48 32 h]), hf_digest_at = 80\<rparr>"

text \<open>The size field of WRGG03 is in the byte order of the machine.\<close>

definition wrgg_format :: "'d tool \<Rightarrow> header_format" where
  "wrgg_format w =
     \<lparr>hf_len = 160, hf_magic_ok = (\<lambda>h. le32_at h 32 = 0x20080321), hf_meta = (\<lambda>h. 0), hf_size_at = 104,
      hf_get_size = (\<lambda>h. host32_at w h 104), hf_put_size = (\<lambda>n. host32_bytes w (u32 n)),
      hf_hashed = (\<lambda>h. [field 108 4 h, field 112 32 h]), hf_digest_at = 144\<rparr>"

text \<open>The new block, or \<^const>\<open>None\<close> when nothing is to be written: the data could not be read or the digest is right already.\<close>

definition fix_md5 :: "header_format \<Rightarrow> 'd mtd_os \<Rightarrow> byte list \<Rightarrow> int \<Rightarrow> nat \<Rightarrow> byte list \<Rightarrow> nat \<Rightarrow> nat \<Rightarrow> 'd tool \<Rightarrow> byte list option \<times> 'd tool" where
  "fix_md5 F K stack fd off block data_offset data_size w =
     (case os_pread K fd data_size data_offset (kern w) of
        (Inl _, k) \<Rightarrow> (None, w\<lparr>kern := k\<rparr>)
      | (Inr buf, k) \<Rightarrow>
          let shdr = drop off block;
              digest = md5_of stack (hf_hashed F shdr @ [buf])
          in if length buf \<noteq> data_size then (None, w\<lparr>kern := k\<rparr>)
             else if field (hf_digest_at F) 16 shdr = digest then (None, w\<lparr>kern := k\<rparr>)
             else (Some (poke (poke block (off + hf_size_at F) (hf_put_size F data_size)) (off + hf_digest_at F) digest), w\<lparr>kern := k\<rparr>))"

text \<open>The block is computed with the erase size that is set before the device is opened.\<close>

definition fix_header ::
    "('d tool \<Rightarrow> header_format) \<Rightarrow> 'd mtd_os \<Rightarrow> byte list \<Rightarrow> byte list \<Rightarrow> nat \<Rightarrow> nat \<Rightarrow> 'd tool \<Rightarrow> int outcome \<times> 'd tool" where
  "fix_header G K stack mtd offset data_size w =
     (let block_offset = block_of w offset;
          off = offset - block_offset;
          (fd, w1) = mtd_check_open K mtd True w;
          F = G w1
      in if fd < 0 then (Exit 1, w1)
         else if to_size w1 (int block_offset + erasesize w1) > to_size w1 (mtdsize w1) then (Exit 1, w1)
         else case read_block K fd block_offset w1 of
                (None, w2) \<Rightarrow> (Exit 1, w2)
              | (Some block, w2) \<Rightarrow>
                  let shdr = drop off block
                  in if \<not> hf_magic_ok F shdr then (Exit 1, w2)
                     else if hf_get_size F shdr = 0 then (Exit 1, w2)
                     else
                       let data_offset = off + hf_len F + hf_meta F shdr;
                           n = (if data_size = 0 then to_size w2 (mtdsize w2 - int data_offset) else data_size);
                           n' = min n (hf_get_size F shdr)
                       in case fix_md5 F K stack fd off block data_offset n' w2 of
                            (None, w3) \<Rightarrow> (Ret 0, close_fd K fd w3)
                          | (Some block', w3) \<Rightarrow> rewrite_block K fd block_offset block' w3)"

definition mtd_fixseama :: "'d mtd_os \<Rightarrow> byte list \<Rightarrow> byte list \<Rightarrow> nat \<Rightarrow> nat \<Rightarrow> 'd tool \<Rightarrow> int outcome \<times> 'd tool" where
  "mtd_fixseama = fix_header (\<lambda>w. seama_format)"

definition mtd_fixwrg :: "'d mtd_os \<Rightarrow> byte list \<Rightarrow> byte list \<Rightarrow> nat \<Rightarrow> nat \<Rightarrow> 'd tool \<Rightarrow> int outcome \<times> 'd tool" where
  "mtd_fixwrg = fix_header (\<lambda>w. wrg_format)"

definition mtd_fixwrgg :: "'d mtd_os \<Rightarrow> byte list \<Rightarrow> byte list \<Rightarrow> nat \<Rightarrow> nat \<Rightarrow> 'd tool \<Rightarrow> int outcome \<times> 'd tool" where
  "mtd_fixwrgg = fix_header wrgg_format"

section \<open>Headers with a digest\<close>

text \<open>The digest in a header at the start of the flash is that of the hashed fields and of \<open>n\<close> bytes behind the header.\<close>

definition digest_ok :: "header_format \<Rightarrow> byte list \<Rightarrow> nat \<Rightarrow> bool" where
  "digest_ok F d n \<longleftrightarrow> hf_magic_ok F d \<and>
     field (hf_digest_at F) 16 d = md5_spec (concat (hf_hashed F d) @ field (hf_len F + hf_meta F d) n d)"

definition digest_size :: "header_format \<Rightarrow> nat \<Rightarrow> byte list \<Rightarrow> nat" where
  "digest_size F data_size d =
     min (if data_size = 0 then length d - (hf_len F + hf_meta F d) else data_size) (hf_get_size F d)"

text \<open>What a header has to satisfy: where its fields are, and which bytes each of them depends on.\<close>

locale digest_header =
  fixes F :: header_format
  assumes put_length: "length (hf_put_size F n) = 4"
    and fields: "hf_size_at F + 4 \<le> hf_digest_at F" "hf_digest_at F + 16 \<le> hf_len F"
    and magic_cong: "field 0 (hf_size_at F) h = field 0 (hf_size_at F) h' \<Longrightarrow> hf_magic_ok F h = hf_magic_ok F h'"
    and meta_cong: "field 0 (hf_size_at F) h = field 0 (hf_size_at F) h' \<Longrightarrow> hf_meta F h = hf_meta F h'"
    and size_cong: "field (hf_size_at F) 4 h = field (hf_size_at F) 4 h' \<Longrightarrow> hf_get_size F h = hf_get_size F h'"
    and get_put: "n < 4294967296 \<Longrightarrow> field (hf_size_at F) 4 h = hf_put_size F n \<Longrightarrow> hf_get_size F h = n"
    and size_less: "hf_get_size F h < 4294967296"
    and hashed_cong: "field (hf_size_at F + 4) (hf_digest_at F - hf_size_at F - 4) h = field (hf_size_at F + 4) (hf_digest_at F - hf_size_at F - 4) h' \<Longrightarrow>
      hf_hashed F h = hf_hashed F h'"
    and hashed_short: "length (concat (hf_hashed F h)) \<le> 100"
begin

lemma header_cong:
  assumes "field 0 (hf_len F) h = field 0 (hf_len F) h'"
  shows "hf_magic_ok F h = hf_magic_ok F h'" "hf_meta F h = hf_meta F h'" "hf_get_size F h = hf_get_size F h'" "hf_hashed F h = hf_hashed F h'"
    "field (hf_digest_at F) 16 h = field (hf_digest_at F) 16 h'"
proof -
  have f: "field k n h = field k n h'" if "k + n \<le> hf_len F" for k n
    using field_sub [OF assms] that by simp
  show "hf_magic_ok F h = hf_magic_ok F h'" "hf_meta F h = hf_meta F h'" using fields by (intro magic_cong meta_cong f; simp)+
  show "hf_get_size F h = hf_get_size F h'" using f fields by (auto intro: size_cong)
  show "hf_hashed F h = hf_hashed F h'" using f fields by (auto intro: hashed_cong)
  show "field (hf_digest_at F) 16 h = field (hf_digest_at F) 16 h'" using f fields by simp
qed

lemma digest_spec:
  assumes "length stack = 64" and "length buf < 2 ^ 32"
  shows "md5_of stack (hf_hashed F h @ [buf]) = md5_spec (concat (hf_hashed F h) @ buf)"
proof -
  have "length p \<le> 100" if "p \<in> set (hf_hashed F h)" for p
    using that hashed_short [of h] member_le_sum_list [of "length p" "map length (hf_hashed F h)"] by (simp add: length_concat)
  then have "list_all (\<lambda>p. length p < 2 ^ 32) (hf_hashed F h @ [buf])" using assms(2) by (force simp: list_all_iff)
  moreover have "length (concat (hf_hashed F h @ [buf])) < 2 ^ 61" using hashed_short [of h] assms(2) by simp
  ultimately show ?thesis using md5_of_spec [OF assms(1)] by simp
qed

lemma digest_ok_poke:
  assumes "hf_magic_ok F d" and "hf_len F \<le> length d" and "n < 4294967296" and "length stack = 64"
    and "buf = field (hf_len F + hf_meta F d) n d"
  defines "d' \<equiv> poke (poke d (hf_size_at F) (hf_put_size F n)) (hf_digest_at F) (md5_of stack (hf_hashed F d @ [buf]))"
  shows "digest_ok F d' n" and "hf_get_size F d' = n" and "take (hf_size_at F) d' = take (hf_size_at F) d" and "drop (hf_len F) d' = drop (hf_len F) d"
proof -
  have o: "field k m d' = field k m d" if "k + m \<le> hf_size_at F \<or> hf_size_at F + 4 \<le> k \<and> k + m \<le> hf_digest_at F \<or> hf_len F \<le> k" for k m
  proof -
    have "k + m \<le> hf_size_at F \<or> hf_size_at F + 4 \<le> k" "k + m \<le> hf_digest_at F \<or> hf_digest_at F + 16 \<le> k" using that fields by auto
    then show ?thesis unfolding d'_def using put_length [of n] by (simp add: field_poke_other)
  qed
  have z: "field 0 (hf_size_at F) d' = field 0 (hf_size_at F) d" by (rule o) simp
  have mg: "hf_magic_ok F d'" "hf_meta F d' = hf_meta F d" using magic_cong [OF z] meta_cong [OF z] assms(1) by simp_all
  have h: "hf_hashed F d' = hf_hashed F d" using fields by (intro hashed_cong o) simp
  have "field (hf_size_at F) 4 d' = field (hf_size_at F) 4 (poke d (hf_size_at F) (hf_put_size F n))"
    unfolding d'_def using fields by (intro field_poke_other) simp
  also have "\<dots> = hf_put_size F n"
    using field_poke_in [of "hf_size_at F" "hf_put_size F n" d 0 4] fields assms(2) put_length [of n] by (simp add: field_def)
  finally show "hf_get_size F d' = n" using get_put assms(3) by simp
  have "field (hf_digest_at F) 16 d' = md5_of stack (hf_hashed F d @ [buf])"
    unfolding d'_def using field_poke_in [of "hf_digest_at F" "md5_of stack (hf_hashed F d @ [buf])" _ 0 16] fields assms(2)
    by (simp add: field_def)
  moreover have "length buf \<le> n" by (simp add: assms(5) field_def)
  then have "md5_of stack (hf_hashed F d @ [buf]) = md5_spec (concat (hf_hashed F d) @ buf)" using digest_spec assms(3,4) by simp
  ultimately show "digest_ok F d' n" using mg h o [of "hf_len F + hf_meta F d" n] assms(5) by (simp add: digest_ok_def)
  show "take (hf_size_at F) d' = take (hf_size_at F) d" using z by (simp add: field_def)
  show "drop (hf_len F) d' = drop (hf_len F) d" using o [of "hf_len F" "length d"] by (simp add: field_def d'_def)
qed

end

lemmas format_defs = seama_format_def wrg_format_def wrgg_format_def host32_at_def host32_bytes_def be32_at_def le32_at_def be16_at_def be_val_def

lemma field4_less: "le_val (field k 4 h) < 4294967296" "le_val (rev (field k 4 h)) < 4294967296"
  using u32_fields [of h k] by (simp_all add: le32_at_def be32_at_def be_val_def)

interpretation seama: digest_header seama_format
proof (unfold_locales, goal_cases)
  case (4 h h')
  then show ?case using field_sub [of 0 8 h h' 0 4] by (simp add: format_defs)
next
  case (5 h h')
  then show ?case using field_sub [of 0 8 h h' 6 2] by (simp add: format_defs)
qed (simp_all add: format_defs field4_less)

interpretation wrg: digest_header wrg_format
proof (unfold_locales, goal_cases)
  case (4 h h')
  then show ?case using field_sub [of 0 40 h h' 32 4] by (simp add: format_defs)
next
  case (9 h h')
  then show ?case using field_sub [of 44 36 h h' 44 4] field_sub [of 44 36 h h' 48 32] by (simp add: format_defs)
next
  case (10 h)
  show ?case using length_field_le [of 44 4 h] length_field_le [of 48 32 h] by (simp add: format_defs)
qed (simp_all add: format_defs field4_less)

interpretation wrgg: digest_header "wrgg_format w" for w
proof (unfold_locales, goal_cases)
  case (4 h h')
  then show ?case using field_sub [of 0 104 h h' 32 4] by (simp add: format_defs)
next
  case (9 h h')
  then show ?case using field_sub [of 108 36 h h' 108 4] field_sub [of 108 36 h h' 112 32] by (simp add: format_defs)
next
  case (10 h)
  show ?case using length_field_le [of 108 4 h] length_field_le [of 112 32 h] by (simp add: format_defs)
qed (auto simp: format_defs field4_less split: if_splits)

context digest_header
begin

lemma fix_md5_works:
  assumes "mtd_flash K fd V bad es" and "mtd_works K fd V bad es" and "length stack = 64" and "n < 4294967296"
    and "block = field 0 (2 ^ e) (V (kern w))" and "hf_len F \<le> 2 ^ e" and "2 ^ e \<le> length (V (kern w))"
    and "hf_magic_ok F (V (kern w))" and "hf_len F + hf_meta F (V (kern w)) + n \<le> length (V (kern w))"
  shows "\<exists>k. V k = V (kern w) \<and>
    ((fix_md5 F K stack fd 0 block (hf_len F + hf_meta F (V (kern w))) n w = (None, w\<lparr>kern := k\<rparr>) \<and> digest_ok F (V (kern w)) n) \<or>
     (\<exists>block'. fix_md5 F K stack fd 0 block (hf_len F + hf_meta F (V (kern w))) n w = (Some block', w\<lparr>kern := k\<rparr>) \<and> length block' = 2 ^ e \<and>
        digest_ok F (poke (V (kern w)) 0 block') n \<and> hf_get_size F (poke (V (kern w)) 0 block') = n \<and>
        take (hf_size_at F) (poke (V (kern w)) 0 block') = take (hf_size_at F) (V (kern w)) \<and>
        drop (hf_len F) (poke (V (kern w)) 0 block') = drop (hf_len F) (V (kern w))))"
proof -
  let ?d = "V (kern w)" and ?o = "hf_len F + hf_meta F (V (kern w))"
  obtain buf k where p: "os_pread K fd n ?o (kern w) = (Inr buf, k)" "length buf = n"
    using assms(2,9) unfolding mtd_works_def by blast
  have v: "V k = ?d" "buf = field ?o n ?d" using flash_pread(1) [OF assms(1) p(1)] flash_pread(2) [OF assms(1) p(1), of buf] p(2) by simp_all
  have "field 0 (hf_len F) block = field 0 (hf_len F) ?d" using field_field [of 0 "hf_len F" "2 ^ e" 0 ?d] assms(5,6) by simp
  note c = header_cong [OF this]
  let ?dg = "md5_of stack (hf_hashed F ?d @ [buf])"
  have ds: "?dg = md5_spec (concat (hf_hashed F ?d) @ buf)" using digest_spec assms(3,4) p(2) by simp
  show ?thesis
  proof (cases "field (hf_digest_at F) 16 ?d = ?dg")
    case True
    then have "digest_ok F ?d n" using ds assms(8) v(2) by (simp add: digest_ok_def)
    moreover have "fix_md5 F K stack fd 0 block ?o n w = (None, w\<lparr>kern := k\<rparr>)" using p True c by (simp add: fix_md5_def Let_def)
    ultimately show ?thesis using v(1) by blast
  next
    case False
    let ?b = "poke (poke block (hf_size_at F) (hf_put_size F n)) (hf_digest_at F) ?dg"
    have len: "length block = 2 ^ e" using assms(5,7) by (simp add: field_def)
    have pk: "poke ?d 0 ?b = poke (poke ?d (hf_size_at F) (hf_put_size F n)) (hf_digest_at F) ?dg"
      unfolding assms(5) using fields put_length [of n] assms(6,7) by (intro poke_block) simp_all
    have l: "hf_len F \<le> length ?d" using assms(6,7) by simp
    have "fix_md5 F K stack fd 0 block ?o n w = (Some ?b, w\<lparr>kern := k\<rparr>)" using p False c by (simp add: fix_md5_def Let_def)
    then show ?thesis using v(1) len pk digest_ok_poke [OF assms(8) l assms(4,3) v(2)] by (intro exI [of _ k] conjI disjI2 exI [of _ ?b]) simp_all
  qed
qed

text \<open>The size field is left alone when the digest is right already.\<close>

lemma fix_header_repairs:
  assumes "opens_flash K mtd w fd w1 V bad e" and "mtd_works K fd V bad (2 ^ e)" and "\<not> bad 0" and "G w1 = F" and "length stack = 64"
    and "hf_len F \<le> 2 ^ e" and "hf_magic_ok F (V (kern w1))" and "hf_get_size F (V (kern w1)) \<noteq> 0"
    and "hf_len F + hf_meta F (V (kern w1)) + digest_size F data_size (V (kern w1)) \<le> length (V (kern w1))"
  shows "\<exists>w'. fix_header G K stack mtd 0 data_size w = (Ret 0, w') \<and>
    digest_ok F (V (kern w')) (digest_size F data_size (V (kern w1))) \<and>
    (V (kern w') = V (kern w1) \<or> hf_get_size F (V (kern w')) = digest_size F data_size (V (kern w1))) \<and>
    take (hf_size_at F) (V (kern w')) = take (hf_size_at F) (V (kern w1)) \<and> drop (hf_len F) (V (kern w')) = drop (hf_len F) (V (kern w1))"
proof -
  let ?d = "V (kern w1)" and ?o = "hf_len F + hf_meta F (V (kern w1))" and ?n = "digest_size F data_size (V (kern w1))"
  note o = opens_flashD [OF assms(1)]
  obtain k where rb: "read_block K fd 0 w1 = (Some (field 0 (2 ^ e) ?d), w1\<lparr>kern := k\<rparr>)" and vk: "V k = ?d"
    using read_block_works [OF o(3) assms(2) o(4), of 0] o(8) by auto
  have "field 0 (hf_len F) (field 0 (2 ^ e) ?d) = field 0 (hf_len F) ?d" using field_field [of 0 "hf_len F" "2 ^ e" 0 ?d] assms(6) by simp
  note c = header_cong [OF this]
  have es: "\<not> to_size w1 (int 0 + erasesize w1) > to_size w1 (mtdsize w1)"
    using o(4-8) to_size_nat [of w1 "2 ^ e"] to_size_nat [of w1 "length ?d"] by simp
  have n: "min (if data_size = 0 then to_size (w1\<lparr>kern := k\<rparr>) (mtdsize (w1\<lparr>kern := k\<rparr>) - int ?o) else data_size) (hf_get_size F ?d) = ?n"
  proof -
    have "mtdsize w1 - int ?o = int (length ?d - ?o)" using o(5) assms(9) by (simp add: of_nat_diff)
    then show ?thesis using o(6,7) to_size_nat [of "w1\<lparr>kern := k\<rparr>" "length ?d - ?o"] by (simp add: digest_size_def)
  qed
  have n32: "?n < 4294967296" using size_less [of ?d] by (simp add: digest_size_def min_less_iff_disj)
  have fh: "fix_header G K stack mtd 0 data_size w =
      (case fix_md5 F K stack fd 0 (field 0 (2 ^ e) ?d) ?o ?n (w1\<lparr>kern := k\<rparr>) of
         (None, w3) \<Rightarrow> (Ret 0, close_fd K fd w3) | (Some block', w3) \<Rightarrow> rewrite_block K fd 0 block' w3)"
    using es assms(4,7,8) o(1,2) rb c n by (simp add: fix_header_def Let_def)
  obtain k' where k': "V k' = ?d" and alt:
    "(fix_md5 F K stack fd 0 (field 0 (2 ^ e) ?d) ?o ?n (w1\<lparr>kern := k\<rparr>) = (None, w1\<lparr>kern := k'\<rparr>) \<and> digest_ok F ?d ?n) \<or>
     (\<exists>b. fix_md5 F K stack fd 0 (field 0 (2 ^ e) ?d) ?o ?n (w1\<lparr>kern := k\<rparr>) = (Some b, w1\<lparr>kern := k'\<rparr>) \<and> length b = 2 ^ e \<and>
        digest_ok F (poke ?d 0 b) ?n \<and> hf_get_size F (poke ?d 0 b) = ?n \<and>
        take (hf_size_at F) (poke ?d 0 b) = take (hf_size_at F) ?d \<and> drop (hf_len F) (poke ?d 0 b) = drop (hf_len F) ?d)"
    using fix_md5_works [OF o(3) assms(2,5) n32, of "field 0 (2 ^ e) ?d" e "w1\<lparr>kern := k\<rparr>"] vk assms(6,7,9) o(8) by auto
  show ?thesis using alt
  proof (elim disjE exE conjE)
    assume "fix_md5 F K stack fd 0 (field 0 (2 ^ e) ?d) ?o ?n (w1\<lparr>kern := k\<rparr>) = (None, w1\<lparr>kern := k'\<rparr>)" "digest_ok F ?d ?n"
    then show ?thesis using fh k' flash_keeps(2) [OF o(3)] by (simp add: close_fd_def)
  next
    fix b assume b: "fix_md5 F K stack fd 0 (field 0 (2 ^ e) ?d) ?o ?n (w1\<lparr>kern := k\<rparr>) = (Some b, w1\<lparr>kern := k'\<rparr>)" "length b = 2 ^ e"
      "digest_ok F (poke ?d 0 b) ?n" "hf_get_size F (poke ?d 0 b) = ?n"
      "take (hf_size_at F) (poke ?d 0 b) = take (hf_size_at F) ?d" "drop (hf_len F) (poke ?d 0 b) = drop (hf_len F) ?d"
    obtain w' where rw: "rewrite_block K fd 0 b (w1\<lparr>kern := k'\<rparr>) = (Ret 0, w')"
      using rewrite_block_works [OF o(3) assms(2), of "w1\<lparr>kern := k'\<rparr>" b 0] b(2) o k' assms(3) by auto
    then have "V (kern w') = poke ?d 0 b" using rewrite_block_flash [OF o(3) rw] b(2) o k' by simp
    then show ?thesis using fh b rw by simp
  qed
qed

end

text \<open>
  C14. \<^verbatim>\<open>mtd_fixseama\<close>, \<^verbatim>\<open>mtd_fixwrg\<close> and \<^verbatim>\<open>mtd_fixwrgg\<close> repair their headers: on a device without faults whose first block is good and starts with a header of
  the format, with the data inside the device, they return 0, and the digest on the flash is the MD5 digest of the hashed fields and of the
  data, for as many bytes as asked for and at most the old size. Either nothing has changed or the size in the header is this number of
  bytes; the bytes in front of the size field and those behind the header are as before.
\<close>

theorem mtd_fix_digest_repairs:
  assumes "(tool_fix, F) \<in> {(mtd_fixseama, seama_format), (mtd_fixwrg, wrg_format), (mtd_fixwrgg, wrgg_format w1)}"
    and "opens_flash K mtd w fd w1 V bad e" and "mtd_works K fd V bad (2 ^ e)" and "\<not> bad 0" and "length stack = 64"
    and "hf_len F \<le> 2 ^ e" and "hf_magic_ok F (V (kern w1))" and "hf_get_size F (V (kern w1)) \<noteq> 0"
    and "hf_len F + hf_meta F (V (kern w1)) + digest_size F data_size (V (kern w1)) \<le> length (V (kern w1))"
  shows "\<exists>w'. tool_fix K stack mtd 0 data_size w = (Ret 0, w') \<and>
    digest_ok F (V (kern w')) (digest_size F data_size (V (kern w1))) \<and>
    (V (kern w') = V (kern w1) \<or> hf_get_size F (V (kern w')) = digest_size F data_size (V (kern w1))) \<and>
    take (hf_size_at F) (V (kern w')) = take (hf_size_at F) (V (kern w1)) \<and> drop (hf_len F) (V (kern w')) = drop (hf_len F) (V (kern w1))"
  using assms(1)
proof (elim insertE emptyE)
  assume "(tool_fix, F) = (mtd_fixseama, seama_format)"
  then show ?thesis using seama.fix_header_repairs [OF assms(2-4), of "\<lambda>w. seama_format"] assms(5-) by (simp add: mtd_fixseama_def)
next
  assume "(tool_fix, F) = (mtd_fixwrg, wrg_format)"
  then show ?thesis using wrg.fix_header_repairs [OF assms(2-4), of "\<lambda>w. wrg_format"] assms(5-) by (simp add: mtd_fixwrg_def)
next
  assume "(tool_fix, F) = (mtd_fixwrgg, wrgg_format w1)"
  then show ?thesis using wrgg.fix_header_repairs [OF assms(2-4), of wrgg_format w1] assms(5-) by (simp add: mtd_fixwrgg_def)
qed

definition ram_seama :: "byte list" where
  "ram_seama = [0x5e, 0xa3, 0xa4, 0x17, 0, 0, 0, 0, 0, 0, 0, 3] @ replicate 16 0 @ [97, 98, 99] @ replicate 33 7"

theorem mtd_fix_digest_repairs_witness:
  "\<exists>w'. mtd_fixseama ram_os (replicate 64 0) firmware 0 0 (ram_tool ram_seama) = (Ret 0, w') \<and> digest_ok seama_format (kern w') 3 \<and>
     take 8 (kern w') = take 8 ram_seama \<and> drop 28 (kern w') = drop 28 ram_seama"
proof -
  have l: "length ram_seama = 64" by (simp add: ram_seama_def)
  have h: "hf_magic_ok seama_format ram_seama" "hf_meta seama_format ram_seama = 0" "hf_get_size seama_format ram_seama = 3"
    by (simp_all add: ram_seama_def format_defs field_def)
  then have n: "digest_size seama_format 0 ram_seama = 3" using l by (simp add: digest_size_def seama_format_def)
  show ?thesis
    using mtd_fix_digest_repairs [OF _ ram_opens_flash ram_works, of mtd_fixseama seama_format ram_seama "replicate 64 0" 0] l h n
    by (auto simp: ram_tool_def) (auto simp: seama_format_def)
qed

end
