(* ===== verification/Mtd_Write.thy ===== *)
theory Mtd_Write
  imports Mtd_Count Mtd_Digest
begin

text \<open>
  Writing an image with the \<^verbatim>\<open>mtd\<close> tool (\<^verbatim>\<open>mtd.c\<close>): the check of the image and the loop that erases and writes block by block,
  skips bad blocks and goes on with the next device of the list when a block cannot be erased.

  The tool is built without \<^verbatim>\<open>FIS_SUPPORT\<close>. The functions of \<^verbatim>\<open>jffs2.c\<close>, with the variables of that file, are parameters; they may do anything. An access behind the end of the buffer is a memory error, \<open>Exit 139\<close>.
\<close>

section \<open>Options\<close>

datatype mtd_image_format = FORMAT_UNKNOWN | FORMAT_TRX | FORMAT_SEAMA | FORMAT_WRG | FORMAT_WRGG03

text \<open>
  The options of the command line, the functions that are linked for the target, and what the memory of the stack and of the
  heap holds.
\<close>

record mtd_opts =
  no_erase :: bool
  jffs2file :: "byte list option"
  jffs2dir :: "byte list"
  jffs2_skip_bytes :: int
  tpl_uboot_args_part :: "byte list option"
  has_trx :: bool
  has_seama :: bool
  has_wrg :: bool
  has_wrgg :: bool
  has_tpl :: bool
  target_brcm :: bool
  o_stack :: "byte list"
  o_heap :: "byte list"

record 'd jffs2_ops =
  jf_replace :: "byte list \<Rightarrow> int \<Rightarrow> int \<Rightarrow> byte list \<Rightarrow> 'd tool \<Rightarrow> int outcome \<times> 'd tool"
  jf_parse :: "byte list \<Rightarrow> byte list \<Rightarrow> 'd tool \<Rightarrow> 'd tool"
  jf_write :: "byte list \<Rightarrow> byte list \<Rightarrow> byte list \<Rightarrow> 'd tool \<Rightarrow> int outcome \<times> 'd tool"

section \<open>Checking the image\<close>

text \<open>The loop that reads the magic number ends with the first read that gives nothing, so 4 rounds are enough.\<close>

fun magic_read :: "nat \<Rightarrow> 'd mtd_os \<Rightarrow> int \<Rightarrow> 'd tool \<Rightarrow> 'd tool" where
  "magic_read 0 K imagefd w = w"
| "magic_read (Suc n) K imagefd w =
     (if \<not> tbuflen w < 4 then w
      else case os_read K imagefd (nat (4 - tbuflen w)) (kern w) of
             (Inl _, k) \<Rightarrow> w\<lparr>kern := k\<rparr>
           | (Inr bs, k) \<Rightarrow>
               if bs = [] then w\<lparr>kern := k\<rparr>
               else magic_read n K imagefd (w\<lparr>kern := k, tbuf := poke (tbuf w) (nat (tbuflen w)) bs, tbuflen := tbuflen w + int (length bs)\<rparr>))"

definition image_format :: "'d tool \<Rightarrow> mtd_image_format" where
  "image_format w =
     (if be32_at (tbuf w) 0 = opt_trxmagic w then FORMAT_TRX
      else if be32_at (tbuf w) 0 = 0x5ea3a417 then FORMAT_SEAMA
      else if le32_at (tbuf w) 0 = 0x20040220 then FORMAT_WRG
      else if le32_at (tbuf w) 0 = 0x20080321 then FORMAT_WRGG03
      else FORMAT_UNKNOWN)"

definition image_check :: "mtd_opts \<Rightarrow> 'd mtd_os \<Rightarrow> int \<Rightarrow> byte list \<Rightarrow> 'd tool \<Rightarrow> (int \<times> mtd_image_format) outcome \<times> 'd tool" where
  "image_check cfg K imagefd mtd w =
     (let w1 = magic_read 4 K imagefd w
      in if tbuflen w1 < 4 then (Ret (0, FORMAT_UNKNOWN), w1)
         else
           let format = image_format w1
           in if format = FORMAT_TRX \<and> has_trx cfg
              then (case trx_check K imagefd mtd w1 of
                      (Exit e, w2) \<Rightarrow> (Exit e, w2)
                    | (Ret r, w2) \<Rightarrow> (Ret (r, format), w2))
              else if format = FORMAT_UNKNOWN \<and> target_brcm cfg \<and> mtd = firmware then (Ret (0, format), w1)
              else (Ret (1, format), w1))"

section \<open>The loop\<close>

text \<open>The local variables; \<open>l_next\<close> are the names of the devices that follow.\<close>

record wlocals =
  l_mtd :: "byte list"
  l_next :: "byte list list"
  l_fd :: int
  l_w :: int
  l_e :: int
  l_skip :: int
  l_offset :: nat
  l_jffs2file :: "byte list option"
  l_replaced :: bool
  l_skip_bad :: int

fun fill_buffer :: "nat \<Rightarrow> 'd mtd_os \<Rightarrow> int \<Rightarrow> 'd tool \<Rightarrow> 'd tool option" where
  "fill_buffer 0 K imagefd w = None"
| "fill_buffer (Suc fuel) K imagefd w =
     (if \<not> tbuflen w < erasesize w then Some w
      else case os_read K imagefd (nat (erasesize w - tbuflen w)) (kern w) of
             (Inl err, k) \<Rightarrow> if err = EINTR \<or> err = EAGAIN then fill_buffer fuel K imagefd (w\<lparr>kern := k\<rparr>) else Some (w\<lparr>kern := k\<rparr>)
           | (Inr bs, k) \<Rightarrow>
               if bs = [] then Some (w\<lparr>kern := k\<rparr>)
               else fill_buffer fuel K imagefd (w\<lparr>kern := k, tbuf := poke (tbuf w) (nat (tbuflen w)) bs, tbuflen := tbuflen w + int (length bs)\<rparr>))"

definition pad_buffer :: "'d tool \<Rightarrow> 'd tool" where
  "pad_buffer w =
     (if tbuflen w < erasesize w
      then w\<lparr>tbuf := poke (tbuf w) (nat (tbuflen w)) (replicate (nat (erasesize w - tbuflen w)) 0xff), tbuflen := erasesize w\<rparr>
      else w)"

text \<open>Erasing ahead: whether the blocks could be erased.\<close>

fun erase_ahead :: "nat \<Rightarrow> 'd mtd_os \<Rightarrow> nat \<Rightarrow> wlocals \<Rightarrow> 'd tool \<Rightarrow> (bool outcome \<times> wlocals \<times> 'd tool) option" where
  "erase_ahead 0 K part_offset l w = None"
| "erase_ahead (Suc fuel) K part_offset l w =
     (if \<not> l_w l + tbuflen w > l_e l - l_skip_bad l then Some (Ret True, l, w)
      else
        case mtd_block_is_bad K (l_fd l) (s32 (u32_of_int (l_e l))) w of
          (Exit x, w1) \<Rightarrow> Some (Exit x, l, w1)
        | (Ret bad, w1) \<Rightarrow>
            if bad \<noteq> 0
            then erase_ahead fuel K part_offset (l\<lparr>l_skip_bad := l_skip_bad l + erasesize w1, l_e := l_e l + erasesize w1\<rparr>)
                   (w1\<lparr>kern := os_seek K (l_fd l) (erasesize w1) True (kern w1)\<rparr>)
            else
              let (r, w2) = mtd_erase_block K (l_fd l) (s32 (u32_of_int (l_e l + int part_offset))) w1
              in if r < 0 then Some (Ret False, l, w2)
                 else erase_ahead fuel K part_offset (l\<lparr>l_e := l_e l + erasesize w2\<rparr>) w2)"

text \<open>The start of a device, at the label \<^verbatim>\<open>resume\<close>.\<close>

definition start_device :: "mtd_opts \<Rightarrow> 'd mtd_os \<Rightarrow> nat \<Rightarrow> wlocals \<Rightarrow> 'd tool \<Rightarrow> wlocals outcome \<times> 'd tool" where
  "start_device cfg K part_offset l w =
     (let (fd, w1) = mtd_check_open K (l_mtd l) True w;
          l1 = l\<lparr>l_fd := fd, l_w := 0, l_e := 0\<rparr>
      in if fd < 0 then (Exit 1, w1)
         else
           let w2 = (if 0 < part_offset then w1\<lparr>kern := os_seek K fd (int part_offset) False (kern w1)\<rparr> else w1)
           in case tpl_uboot_args_part cfg of
                Some part \<Rightarrow>
                  if has_tpl cfg
                  then (case mtd_tpl_recoverflag_write K (o_heap cfg) part True w2 of
                          (Exit x, w3) \<Rightarrow> (Exit x, w3)
                        | (Ret r, w3) \<Rightarrow> if r < 0 then (Exit 1, w3) else (Ret l1, w3))
                  else (Ret l1, w2)
              | None \<Rightarrow> (Ret l1, w2))"

text \<open>What one round of the loop ends with: another round, the end of the loop, or the next device.\<close>

datatype write_flow = Again | Finished | Resume

definition write_block :: "'d mtd_os \<Rightarrow> wlocals \<Rightarrow> 'd tool \<Rightarrow> write_flow outcome \<times> wlocals \<times> 'd tool" where
  "write_block K l w =
     (if int (length (tbuf w)) < int (l_offset l) + tbuflen w then (Exit 139, l, w)
      else
        let (result, k) = os_write K (l_fd l) (field (l_offset l) (nat (tbuflen w)) (tbuf w)) (kern w)
        in if result < tbuflen w then (Exit 1, l, w\<lparr>kern := k\<rparr>)
           else (Ret Again, l\<lparr>l_w := l_w l + tbuflen w, l_offset := 0\<rparr>, w\<lparr>kern := k, tbuflen := 0\<rparr>))"

definition erase_failed :: "'d mtd_os \<Rightarrow> wlocals \<Rightarrow> 'd tool \<Rightarrow> write_flow outcome \<times> wlocals \<times> 'd tool" where
  "erase_failed K l w =
     (case l_next l of
        [] \<Rightarrow> (Exit 1, l, w)
      | m # ms \<Rightarrow>
          if l_w l < l_e l \<and> int (length (tbuf w)) < int (l_offset l) + (l_e l - l_w l) then (Exit 139, l, w)
          else
            let n = nat (l_e l - l_w l);
                k = (if l_w l < l_e l then snd (os_write K (l_fd l) (field (l_offset l) n (tbuf w)) (kern w)) else kern w);
                off = (if l_w l < l_e l then u32 n else l_offset l)
            in (Ret Resume, l\<lparr>l_offset := off, l_mtd := m, l_next := ms\<rparr>, close_fd K (l_fd l) (w\<lparr>kern := k\<rparr>)))"

definition jffs2_eof :: "byte list" where
  "jffs2_eof = [0xde, 0xad, 0xc0, 0xde]"

definition append_jffs2 :: "'d jffs2_ops \<Rightarrow> byte list \<Rightarrow> wlocals \<Rightarrow> 'd tool \<Rightarrow> write_flow outcome \<times> wlocals \<times> 'd tool" where
  "append_jffs2 J file l w =
     (case jf_replace J (l_mtd l) (l_fd l) (s32 (u32_of_int (l_e l))) file w of
        (Exit x, w1) \<Rightarrow> (Exit x, l, w1)
      | (Ret skip, w1) \<Rightarrow>
          (Ret Again,
           l\<lparr>l_replaced := True, l_jffs2file := None, l_w := l_w l + skip, l_e := l_e l + skip, l_skip := skip - tbuflen w1, l_offset := 0\<rparr>,
           w1\<lparr>tbuflen := 0\<rparr>))"

definition write_round :: "nat \<Rightarrow> mtd_opts \<Rightarrow> 'd jffs2_ops \<Rightarrow> 'd mtd_os \<Rightarrow> int \<Rightarrow> nat \<Rightarrow> wlocals \<Rightarrow> 'd tool \<Rightarrow>
    (write_flow outcome \<times> wlocals \<times> 'd tool) option" where
  "write_round fuel cfg J K imagefd part_offset l w =
     (case fill_buffer fuel K imagefd w of
          None \<Rightarrow> None
        | Some w1 \<Rightarrow>
            if tbuflen w1 = 0 then Some (Ret Finished, l, w1)
            else if int (length (tbuf w1)) < erasesize w1 then Some (Exit 139, l, w1)
            else
              let w2 = pad_buffer w1
              in if 0 < l_skip l then Some (Ret Again, l\<lparr>l_skip := l_skip l - tbuflen w2\<rparr>, w2\<lparr>tbuflen := 0\<rparr>)
                 else
                   let jffs2 = (l_jffs2file l \<noteq> None \<and> l_w l \<ge> jffs2_skip_bytes cfg)
                   in if jffs2 \<and> take 4 (tbuf w2) = jffs2_eof then Some (append_jffs2 J (the (l_jffs2file l)) l w2)
                      else
                        let w3 = (if jffs2 then jf_parse J (tbuf w2) (jffs2dir cfg) w2 else w2)
                        in if no_erase cfg then Some (write_block K l w3)
                           else case erase_ahead fuel K part_offset l w3 of
                                  None \<Rightarrow> None
                                | Some (Exit x, l', w4) \<Rightarrow> Some (Exit x, l', w4)
                                | Some (Ret ok, l', w4) \<Rightarrow> Some (if ok then write_block K l' w4 else erase_failed K l' w4))"

fun write_loop :: "nat \<Rightarrow> mtd_opts \<Rightarrow> 'd jffs2_ops \<Rightarrow> 'd mtd_os \<Rightarrow> int \<Rightarrow> nat \<Rightarrow> wlocals \<Rightarrow> 'd tool \<Rightarrow>
    (wlocals outcome \<times> 'd tool) option" where
  "write_loop 0 cfg J K imagefd part_offset l w = None"
| "write_loop (Suc fuel) cfg J K imagefd part_offset l w =
     (case write_round fuel cfg J K imagefd part_offset l w of
        None \<Rightarrow> None
      | Some (Exit x, l1, w1) \<Rightarrow> Some (Exit x, w1)
      | Some (Ret Finished, l1, w1) \<Rightarrow> Some (Ret l1, w1)
      | Some (Ret Again, l1, w1) \<Rightarrow> write_loop fuel cfg J K imagefd part_offset l1 w1
      | Some (Ret Resume, l1, w1) \<Rightarrow>
          (case start_device cfg K part_offset l1 w1 of
             (Exit x, w2) \<Rightarrow> Some (Exit x, w2)
           | (Ret l2, w2) \<Rightarrow> write_loop fuel cfg J K imagefd part_offset l2 w2))"

definition fix_replaced :: "mtd_opts \<Rightarrow> 'd mtd_os \<Rightarrow> mtd_image_format \<Rightarrow> wlocals \<Rightarrow> 'd tool \<Rightarrow> int outcome \<times> 'd tool" where
  "fix_replaced cfg K format l w =
     (if \<not> l_replaced l then (Ret 0, w)
      else case format of
             FORMAT_TRX \<Rightarrow> if has_trx cfg then trx_fixup K (l_fd l) (l_mtd l) w else (Ret 0, w)
           | FORMAT_SEAMA \<Rightarrow> if has_seama cfg then mtd_fixseama K (o_stack cfg) (l_mtd l) 0 0 w else (Ret 0, w)
           | FORMAT_WRG \<Rightarrow> if has_wrg cfg then mtd_fixwrg K (o_stack cfg) (l_mtd l) 0 0 w else (Ret 0, w)
           | FORMAT_WRGG03 \<Rightarrow> if has_wrgg cfg then mtd_fixwrgg K (o_stack cfg) (l_mtd l) 0 0 w else (Ret 0, w)
           | FORMAT_UNKNOWN \<Rightarrow> (Ret 0, w))"

definition finish_write :: "mtd_opts \<Rightarrow> 'd mtd_os \<Rightarrow> mtd_image_format \<Rightarrow> wlocals \<Rightarrow> 'd tool \<Rightarrow> int outcome \<times> 'd tool" where
  "finish_write cfg K format l w =
     (case fix_replaced cfg K format l w of
        (Exit x, w1) \<Rightarrow> (Exit x, w1)
      | (Ret _, w1) \<Rightarrow>
          let w2 = close_fd K (l_fd l) w1
          in case tpl_uboot_args_part cfg of
               Some part \<Rightarrow>
                 if has_tpl cfg
                 then (case mtd_tpl_recoverflag_write K (o_heap cfg) part False w2 of
                         (Exit x, w3) \<Rightarrow> (Exit x, w3)
                       | (Ret r, w3) \<Rightarrow> (if r < 0 then Exit 1 else Ret 0, w3))
                 else (Ret 0, w2)
             | None \<Rightarrow> (Ret 0, w2))"

definition mtd_write :: "nat \<Rightarrow> mtd_opts \<Rightarrow> 'd jffs2_ops \<Rightarrow> 'd mtd_os \<Rightarrow> mtd_image_format \<Rightarrow> int \<Rightarrow> byte list \<Rightarrow> nat \<Rightarrow> 'd tool \<Rightarrow>
    (int outcome \<times> 'd tool) option" where
  "mtd_write fuel cfg J K format imagefd mtd part_offset w =
     (let names = device_names mtd;
          l = \<lparr>l_mtd = hd names, l_next = tl names, l_fd = 0, l_w = 0, l_e = 0, l_skip = 0, l_offset = 0, l_jffs2file = jffs2file cfg, l_replaced = False, l_skip_bad = 0\<rparr>
      in case start_device cfg K part_offset l w of
           (Exit x, w1) \<Rightarrow> Some (Exit x, w1)
         | (Ret l1, w1) \<Rightarrow>
             (case write_loop fuel cfg J K imagefd part_offset l1 w1 of
                None \<Rightarrow> None
              | Some (Exit x, w2) \<Rightarrow> Some (Exit x, w2)
              | Some (Ret l2, w2) \<Rightarrow> Some (finish_write cfg K format l2 w2)))"

section \<open>A device and an image file\<close>

text \<open>
  What the calls on the image file and on the file position of the device do: \<open>R\<close> is what is still to be read of the image, \<open>P\<close> the
  position of the device. A read gives some of the bytes, and none only at the end of the file; a block can be written to a good block.
\<close>

definition image_stream ::
    "'d mtd_os \<Rightarrow> int \<Rightarrow> int \<Rightarrow> ('d \<Rightarrow> byte list) \<Rightarrow> ('d \<Rightarrow> nat) \<Rightarrow> ('d \<Rightarrow> byte list) \<Rightarrow> (nat \<Rightarrow> bool) \<Rightarrow> nat \<Rightarrow> bool" where
  "image_stream K fd imagefd V P R bad es \<longleftrightarrow>
     (\<forall>k n. \<exists>bs k'. os_read K imagefd n k = (Inr bs, k') \<and> length bs \<le> n \<and> bs = take (length bs) (R k) \<and> (0 < n \<longrightarrow> R k \<noteq> [] \<longrightarrow> bs \<noteq> []) \<and>
        R k' = drop (length bs) (R k) \<and> V k' = V k \<and> P k' = P k) \<and>
     (\<forall>k bs b. P k = b * es \<longrightarrow> b * es + es \<le> length (V k) \<longrightarrow> \<not> bad b \<longrightarrow> length bs = es \<longrightarrow>
        (\<exists>k'. os_write K fd bs k = (int es, k') \<and> V k' = flash_program (V k) (P k) bs \<and> P k' = P k + es \<and> R k' = R k)) \<and>
     (\<forall>k n. V (os_seek K fd (int n) True k) = V k \<and> P (os_seek K fd (int n) True k) = P k + n \<and> R (os_seek K fd (int n) True k) = R k) \<and>
     (\<forall>k i r k'. os_isbad K fd i k = (r, k') \<longrightarrow> P k' = P k \<and> R k' = R k) \<and>
     (\<forall>k s n. P (os_unlock K fd s n k) = P k \<and> R (os_unlock K fd s n k) = R k) \<and>
     (\<forall>k s n r k'. os_erase K fd s n k = (r, k') \<longrightarrow> P k' = P k \<and> R k' = R k)"

lemma image_streamD:
  assumes "image_stream K fd imagefd V P R bad es"
  shows "\<exists>bs k'. os_read K imagefd n k = (Inr bs, k') \<and> length bs \<le> n \<and> bs = take (length bs) (R k) \<and> (0 < n \<longrightarrow> R k \<noteq> [] \<longrightarrow> bs \<noteq> []) \<and>
        R k' = drop (length bs) (R k) \<and> V k' = V k \<and> P k' = P k"
    and "P k = b * es \<Longrightarrow> b * es + es \<le> length (V k) \<Longrightarrow> \<not> bad b \<Longrightarrow> length bs = es \<Longrightarrow>
        \<exists>k'. os_write K fd bs k = (int es, k') \<and> V k' = flash_program (V k) (P k) bs \<and> P k' = P k + es \<and> R k' = R k"
    and "V (os_seek K fd (int n) True k) = V k \<and> P (os_seek K fd (int n) True k) = P k + n \<and> R (os_seek K fd (int n) True k) = R k"
    and "os_isbad K fd i k = (r, k') \<Longrightarrow> P k' = P k \<and> R k' = R k"
    and "P (os_unlock K fd s n k) = P k \<and> R (os_unlock K fd s n k) = R k"
    and "os_erase K fd s n k = (r, k') \<Longrightarrow> P k' = P k \<and> R k' = R k"
  using assms unfolding image_stream_def by blast+

text \<open>The device that is open is the same.\<close>

definition same_dev :: "'d tool \<Rightarrow> 'd tool \<Rightarrow> bool" where
  "same_dev w w' \<longleftrightarrow> mtdsize w' = mtdsize w \<and> erasesize w' = erasesize w \<and> mtdtype_nand w' = mtdtype_nand w \<and> size_bits w' = size_bits w"

lemma same_dev_trans: "same_dev w w1 \<Longrightarrow> same_dev w1 w2 \<Longrightarrow> same_dev w w2"
  by (simp add: same_dev_def)

lemma same_dev_only_kern: "only_kern w w' \<Longrightarrow> same_dev w w' \<and> tbuf w' = tbuf w \<and> tbuflen w' = tbuflen w"
  by (auto simp: only_kern_def same_dev_def)

text \<open>The bytes of the image that are not on the device yet.\<close>

definition pending :: "('d \<Rightarrow> byte list) \<Rightarrow> 'd tool \<Rightarrow> byte list" where
  "pending R w = take (nat (tbuflen w)) (tbuf w) @ R (kern w)"

lemma stream_read:
  assumes "image_stream K fd imagefd V P R bad es" and "tbuflen w = int m" and "0 < n" and "m + n \<le> length (tbuf w)"
  obtains bs k where "os_read K imagefd n (kern w) = (Inr bs, k)" "length bs \<le> n" "bs = [] \<Longrightarrow> R (kern w) = [] \<and> R k = []" "V k = V (kern w)" "P k = P (kern w)"
    "pending R (w\<lparr>kern := k, tbuf := poke (tbuf w) m bs, tbuflen := tbuflen w + int (length bs)\<rparr>) = pending R w"
proof -
  obtain bs k where rd: "os_read K imagefd n (kern w) = (Inr bs, k)" "length bs \<le> n" "bs = take (length bs) (R (kern w))"
    "R (kern w) \<noteq> [] \<longrightarrow> bs \<noteq> []" "R k = drop (length bs) (R (kern w))" "V k = V (kern w)" "P k = P (kern w)"
    using image_streamD(1) [OF assms(1), of n "kern w"] assms(3) by auto
  have "take (m + length bs) (poke (tbuf w) m bs) = take m (tbuf w) @ bs" using rd(2) assms(4) by (simp add: poke_in)
  moreover have "nat (int m + int (length bs)) = m + length bs" by simp
  moreover have "bs @ drop (length bs) (R (kern w)) = R (kern w)" using rd(3) by (metis append_take_drop_id)
  ultimately have "pending R (w\<lparr>kern := k, tbuf := poke (tbuf w) m bs, tbuflen := tbuflen w + int (length bs)\<rparr>) = pending R w"
    by (simp add: pending_def assms(2) rd(5))
  then show ?thesis using that rd by auto
qed

lemma fill_buffer_stream:
  assumes "image_stream K fd imagefd V P R bad es" and "erasesize w = int es" and "0 \<le> tbuflen w" and "tbuflen w \<le> int es"
    and "es \<le> length (tbuf w)" and "es - nat (tbuflen w) < fuel"
  shows "\<exists>w'. fill_buffer fuel K imagefd w = Some w' \<and> same_dev w w' \<and> pending R w' = pending R w \<and>
    tbuflen w' = int (min es (length (pending R w))) \<and> length (tbuf w') = length (tbuf w) \<and> V (kern w') = V (kern w) \<and> P (kern w') = P (kern w)"
  using assms(2-)
proof (induction fuel arbitrary: w)
  case (Suc fuel)
  show ?case
  proof (cases "tbuflen w < int es")
    case False
    then show ?thesis using Suc.prems by (auto simp: pending_def same_dev_def)
  next
    case True
    obtain m where m: "tbuflen w = int m" using Suc.prems(2) by (rule nonneg_int_cases)
    have n: "tbuflen w = int m" "m < es" using m True by simp_all
    have sub: "nat (erasesize w - tbuflen w) = es - m" unfolding Suc.prems(1) n(1) using n(2) by simp
    obtain bs k where rd: "os_read K imagefd (es - m) (kern w) = (Inr bs, k)" "length bs \<le> es - m" "bs = [] \<Longrightarrow> R (kern w) = [] \<and> R k = []"
      "V k = V (kern w)" "P k = P (kern w)"
      and p: "pending R (w\<lparr>kern := k, tbuf := poke (tbuf w) m bs, tbuflen := tbuflen w + int (length bs)\<rparr>) = pending R w"
      by (rule stream_read [OF assms(1) m, of "es - m"]) (use n Suc.prems(4) in auto)
    let ?w = "w\<lparr>kern := k, tbuf := poke (tbuf w) m bs, tbuflen := tbuflen w + int (length bs)\<rparr>"
    have step: "fill_buffer (Suc fuel) K imagefd w = (if bs = [] then Some (w\<lparr>kern := k\<rparr>) else fill_buffer fuel K imagefd ?w)"
      using True Suc.prems(1) sub rd(1) m by simp
    show ?thesis
    proof (cases "bs = []")
      case True
      then show ?thesis using step rd n Suc.prems by (auto simp: pending_def same_dev_def)
    next
      case False
      have nn: "nat (tbuflen w + int (length bs)) = m + length bs" using m by simp
      have "0 < length bs" "es - m < Suc fuel" using False Suc.prems(5) m by simp_all
      then have "es - (m + length bs) < fuel" using n(2) by linarith
      then have "\<exists>w'. fill_buffer fuel K imagefd ?w = Some w' \<and> same_dev ?w w' \<and> pending R w' = pending R ?w \<and>
          tbuflen w' = int (min es (length (pending R ?w))) \<and> length (tbuf w') = length (tbuf ?w) \<and> V (kern w') = V (kern ?w) \<and> P (kern w') = P (kern ?w)"
        using Suc.prems n rd(2) by (intro Suc.IH) (simp_all add: nn)
      then show ?thesis using step False p rd(4,5) by (auto simp: same_dev_def)
    qed
  qed
qed simp

lemma mtd_block_is_bad_stream:
  assumes "image_stream K fd imagefd V P R bad es" and "mtd_block_is_bad K fd i w = (x, w')"
  shows "P (kern w') = P (kern w) \<and> R (kern w') = R (kern w)"
  using assms image_streamD(4) [OF assms(1)] by (auto simp: mtd_block_is_bad_def split: if_splits prod.splits)

lemma mtd_erase_block_works:
  assumes "mtd_flash K fd V bad (2 ^ e)" and "mtd_works K fd V bad (2 ^ e)" and "image_stream K fd imagefd V P R bad (2 ^ e)"
    and "erasesize w = int (2 ^ e)" and "b * 2 ^ e + 2 ^ e \<le> length (V (kern w))" and "length (V (kern w)) < 2147483648" and "\<not> bad b"
  shows "\<exists>k. mtd_erase_block K fd (int (b * 2 ^ e)) w = (0, w\<lparr>kern := k\<rparr>) \<and> V k = flash_erase (V (kern w)) (b * 2 ^ e) (2 ^ e) \<and>
    P k = P (kern w) \<and> R k = R (kern w)"
proof -
  let ?es = "2 ^ e :: nat"
  have u: "u32_of_int (int (b * ?es)) = b * ?es" "u32_of_int (erasesize w) = ?es"
    using assms(4-6) u32_of_int_nat [of "b * ?es"] u32_of_int_nat [of ?es] by (simp_all only:)
  let ?u = "os_unlock K fd (b * ?es) ?es (kern w)"
  have vu: "V ?u = V (kern w)" "P ?u = P (kern w)" "R ?u = R (kern w)" using flash_keeps(1) [OF assms(1)] image_streamD(5) [OF assms(3)] by simp_all
  obtain r k where er: "os_erase K fd (b * ?es) ?es ?u = (r, k)" by fastforce
  have r: "0 \<le> r" using assms(2,5,7) er vu(1) unfolding mtd_works_def by (metis fst_conv)
  show ?thesis using er r u vu flash_keeps(3) [OF assms(1) er r] image_streamD(6) [OF assms(3) er]
    by (intro exI [of _ k]) (simp add: mtd_erase_block_def Let_def)
qed

lemma bad_block_test:
  assumes "mtd_flash K fd V bad (2 ^ e)" and "mtd_works K fd V bad (2 ^ e)" and "image_stream K fd imagefd V P R bad (2 ^ e)"
    and "\<not> mtdtype_nand w \<longrightarrow> (\<forall>b. \<not> bad b)" and "b * 2 ^ e + 2 ^ e \<le> length (V (kern w))"
  obtains r w1 where "mtd_block_is_bad K fd (int (b * 2 ^ e)) w = (Ret r, w1)" "r \<noteq> 0 \<longleftrightarrow> bad b" "only_kern w w1" "V (kern w1) = V (kern w)"
    "P (kern w1) = P (kern w)" "R (kern w1) = R (kern w)"
proof -
  have "0 < (2 ^ e :: nat)" by simp
  then have "b * 2 ^ e < length (V (kern w))" using assms(5) by linarith
  then obtain r w1 where bad: "mtd_block_is_bad K fd (int (b * 2 ^ e)) w = (Ret r, w1)" using mtd_block_is_bad_works [OF assms(2)] by blast
  then show ?thesis using that [OF bad] mtd_block_is_bad_flash [OF assms(1) bad assms(4)] mtd_block_is_bad_stream [OF assms(3) bad] by simp
qed

lemma erase_ahead_works:
  assumes "mtd_flash K fd V bad (2 ^ e)" and "mtd_works K fd V bad (2 ^ e)" and "image_stream K fd imagefd V P R bad (2 ^ e)"
    and "\<not> mtdtype_nand w \<longrightarrow> (\<forall>b. \<not> bad b)" and "erasesize w = int (2 ^ e)" and "tbuflen w = int (2 ^ e)"
    and "length (V (kern w)) < 2147483648" and "(b + n) * 2 ^ e + 2 ^ e \<le> length (V (kern w))"
    and "\<And>j. b \<le> j \<Longrightarrow> j < b + n \<Longrightarrow> bad j" and "\<not> bad (b + n)" and "n + 1 < fuel"
    and "l_fd l = fd" and "l_e l = int (b * 2 ^ e)" and "l_e l - l_skip_bad l = l_w l" and "P (kern w) = b * 2 ^ e"
  shows "\<exists>w'. erase_ahead fuel K 0 l w =
      Some (Ret True, l\<lparr>l_skip_bad := l_skip_bad l + int (n * 2 ^ e), l_e := int ((b + n + 1) * 2 ^ e)\<rparr>, w') \<and>
    only_kern w w' \<and> V (kern w') = flash_erase (V (kern w)) ((b + n) * 2 ^ e) (2 ^ e) \<and> P (kern w') = (b + n) * 2 ^ e \<and> R (kern w') = R (kern w)"
  using assms(4-)
proof (induction n arbitrary: b fuel l w)
  case 0
  let ?es = "2 ^ e :: nat"
  define f where "f = fuel - 2"
  have f: "fuel = Suc (Suc f)" using "0.prems"(8) by (simp add: f_def)
  have s: "s32 (u32_of_int (l_e l)) = int (b * ?es)" unfolding "0.prems"(10) using "0.prems"(4,5) u32_of_int_nat [of "b * ?es"] s32_id [of "b * ?es"] by simp
  obtain r w1 where bad: "mtd_block_is_bad K fd (int (b * ?es)) w = (Ret r, w1)" and r: "r = 0"
    and w1: "only_kern w w1" "V (kern w1) = V (kern w)" "P (kern w1) = P (kern w)" "R (kern w1) = R (kern w)"
    using bad_block_test [OF assms(1-3) "0.prems"(1), of b] "0.prems"(5,7) by (metis add_0_right)
  obtain k where er: "mtd_erase_block K fd (int (b * ?es)) w1 = (0, w1\<lparr>kern := k\<rparr>)" "V k = flash_erase (V (kern w)) (b * ?es) ?es"
    "P k = P (kern w1)" "R k = R (kern w1)"
    using mtd_erase_block_works [OF assms(1-3), of w1 b] "0.prems" w1 only_kernD [OF w1(1)] by auto
  have t: "tbuflen w1 = int ?es" "erasesize w1 = int ?es" using "0.prems"(2,3) w1(1) by (auto simp: only_kern_def)
  have "erase_ahead fuel K 0 l w = Some (Ret True, l\<lparr>l_e := l_e l + int ?es\<rparr>, w1\<lparr>kern := k\<rparr>)"
    using s bad er(1) r t "0.prems"(3,9,11) by (simp add: f)
  then show ?case using er w1 "0.prems"(10,12) by (auto simp: algebra_simps)
next
  case (Suc n)
  let ?es = "2 ^ e :: nat"
  obtain f where f: "fuel = Suc f" "n + 1 < f" using Suc.prems(8) by (cases fuel) auto
  have fits: "b * ?es + ?es \<le> length (V (kern w))" using Suc.prems(5) by (simp add: algebra_simps)
  have s: "s32 (u32_of_int (l_e l)) = int (b * ?es)" unfolding Suc.prems(10) using Suc.prems(4) fits u32_of_int_nat [of "b * ?es"] s32_id [of "b * ?es"] by simp
  obtain r w1 where bad: "mtd_block_is_bad K fd (int (b * ?es)) w = (Ret r, w1)" and r: "r \<noteq> 0"
    and w1: "only_kern w w1" "V (kern w1) = V (kern w)" "P (kern w1) = P (kern w)" "R (kern w1) = R (kern w)"
    using bad_block_test [OF assms(1-3) Suc.prems(1) fits] Suc.prems(6) [of b] by auto
  have t: "tbuflen w1 = int ?es" "erasesize w1 = int ?es" using Suc.prems(2,3) w1(1) by (auto simp: only_kern_def)
  let ?l = "l\<lparr>l_skip_bad := l_skip_bad l + int ?es, l_e := l_e l + int ?es\<rparr>" and ?w = "w1\<lparr>kern := os_seek K fd (int ?es) True (kern w1)\<rparr>"
  have step: "erase_ahead fuel K 0 l w = erase_ahead f K 0 ?l ?w"
    using s bad r t Suc.prems(3,9,11) by (simp add: f(1))
  have sk: "V (kern ?w) = V (kern w)" "P (kern ?w) = Suc b * ?es" "R (kern ?w) = R (kern w)"
    using image_streamD(3) [OF assms(3), of ?es "kern w1"] w1 Suc.prems(12) by simp_all
  have "\<exists>w'. erase_ahead f K 0 ?l ?w =
      Some (Ret True, ?l\<lparr>l_skip_bad := l_skip_bad ?l + int (n * ?es), l_e := int ((Suc b + n + 1) * ?es)\<rparr>, w') \<and>
    only_kern ?w w' \<and> V (kern w') = flash_erase (V (kern ?w)) ((Suc b + n) * ?es) ?es \<and> P (kern w') = (Suc b + n) * ?es \<and> R (kern w') = R (kern ?w)"
    using Suc.prems w1(1) sk t f(2) only_kernD [OF w1(1)] by (intro Suc.IH) simp_all
  then show ?case unfolding step using sk w1(1) only_kern_trans [of w ?w] by (fastforce simp: algebra_simps)
qed

definition pad_image :: "nat \<Rightarrow> byte list \<Rightarrow> byte list" where
  "pad_image es bs = bs @ replicate ((es - length bs mod es) mod es) 0xff"

lemma pad_image_block:
  assumes "0 < es" and "bs \<noteq> []"
  shows "pad_image es bs = (take es bs @ replicate (es - length bs) 0xff) @ pad_image es (drop es bs)"
proof (cases "es \<le> length bs")
  case True
  then have "length (drop es bs) mod es = length bs mod es" by (simp add: le_mod_geq)
  then show ?thesis using True by (simp add: pad_image_def)
next
  case False
  then show ?thesis using assms by (simp add: pad_image_def)
qed

lemma pad_image_Nil [simp]: "pad_image es [] = []"
  by (simp add: pad_image_def)

lemma pad_buffer_pending:
  assumes "erasesize w = int es" and "tbuflen w = int (min es (length (pending R w)))" and "es \<le> length (tbuf w)"
  shows "tbuflen (pad_buffer w) = int es" and "field 0 es (tbuf (pad_buffer w)) = take es (pending R w) @ replicate (es - length (pending R w)) 0xff"
    and "R (kern (pad_buffer w)) = drop es (pending R w)" and "kern (pad_buffer w) = kern w" and "length (tbuf (pad_buffer w)) = length (tbuf w)"
    and "same_dev w (pad_buffer w)"
proof -
  let ?I = "pending R w"
  show k: "kern (pad_buffer w) = kern w" and "length (tbuf (pad_buffer w)) = length (tbuf w)" and "same_dev w (pad_buffer w)"
    by (simp_all add: pad_buffer_def same_dev_def)
  show "tbuflen (pad_buffer w) = int es" using assms by (auto simp: pad_buffer_def)
  have n: "nat (tbuflen w) = min es (length ?I)" unfolding assms(2) by (rule nat_int)
  have p: "?I = take (min es (length ?I)) (tbuf w) @ R (kern w)" by (subst pending_def) (simp only: n)
  have l: "length (take (min es (length ?I)) (tbuf w)) = min es (length ?I)" using assms(3) by simp
  show "R (kern (pad_buffer w)) = drop es ?I"
  proof (cases "es \<le> length ?I")
    case True
    then show ?thesis using arg_cong [OF p, of "drop es"] assms(3) k by simp
  next
    case False
    then have "R (kern w) = []" using arg_cong [OF p, of length] l by simp
    then show ?thesis using False k by simp
  qed
  show "field 0 es (tbuf (pad_buffer w)) = take es ?I @ replicate (es - length ?I) 0xff"
  proof (cases "es \<le> length ?I")
    case True
    then show ?thesis using arg_cong [OF p, of "take es"] assms by (simp add: pad_buffer_def field_def)
  next
    case False
    then have "R (kern w) = []" using arg_cong [OF p, of length] l by simp
    then have "?I = take (length ?I) (tbuf w)" using p False by simp
    then show ?thesis using False assms by (simp add: pad_buffer_def field_def poke_in nat_diff_distrib')
  qed
qed

lemma write_round_works:
  assumes "mtd_flash K fd V bad (2 ^ e)" and "mtd_works K fd V bad (2 ^ e)" and "image_stream K fd imagefd V P R bad (2 ^ e)"
    and "\<not> no_erase cfg" and "l_fd l = fd" and "l_skip l = 0" and "l_offset l = 0" and "l_jffs2file l = None"
    and "l_e l = int (b * 2 ^ e)" and "l_e l - l_skip_bad l = l_w l"
    and "\<not> mtdtype_nand w \<longrightarrow> (\<forall>b. \<not> bad b)" and "erasesize w = int (2 ^ e)" and "length (V (kern w)) < 2147483648"
    and "0 \<le> tbuflen w" and "tbuflen w \<le> int (2 ^ e)" and "2 ^ e \<le> length (tbuf w)" and "P (kern w) = b * 2 ^ e"
    and "pending R w \<noteq> []" and "(b + n) * 2 ^ e + 2 ^ e \<le> length (V (kern w))" and "\<And>j. b \<le> j \<Longrightarrow> j < b + n \<Longrightarrow> bad j" and "\<not> bad (b + n)"
    and "n + 1 < fuel" and "2 ^ e < fuel"
  shows "\<exists>w'. write_round fuel cfg J K imagefd 0 l w =
      Some (Ret Again, l\<lparr>l_skip_bad := l_skip_bad l + int (n * 2 ^ e), l_e := int ((b + n + 1) * 2 ^ e), l_w := l_w l + int (2 ^ e)\<rparr>, w') \<and>
    same_dev w w' \<and> tbuflen w' = 0 \<and> length (tbuf w') = length (tbuf w) \<and> P (kern w') = (b + n + 1) * 2 ^ e \<and>
    V (kern w') = poke (V (kern w)) ((b + n) * 2 ^ e) (take (2 ^ e) (pending R w) @ replicate (2 ^ e - length (pending R w)) 0xff) \<and>
    R (kern w') = drop (2 ^ e) (pending R w)"
proof -
  let ?es = "2 ^ e :: nat" and ?I = "pending R w"
  obtain w1 where w1: "fill_buffer fuel K imagefd w = Some w1" "same_dev w w1" "pending R w1 = ?I" "tbuflen w1 = int (min ?es (length ?I))"
    "length (tbuf w1) = length (tbuf w)" "V (kern w1) = V (kern w)" "P (kern w1) = P (kern w)"
    using fill_buffer_stream [OF assms(3,12,14,15,16) le_less_trans [OF diff_le_self assms(23)]] by auto
  define w2 where "w2 = pad_buffer w1"
  have w2: "tbuflen w2 = int ?es" "field 0 ?es (tbuf w2) = take ?es ?I @ replicate (?es - length ?I) 0xff" "R (kern w2) = drop ?es ?I"
    "kern w2 = kern w1" "length (tbuf w2) = length (tbuf w)" "same_dev w w2"
    using pad_buffer_pending [of w1 ?es R] w1 assms(12,16) same_dev_trans [OF w1(2)] by (simp_all add: w2_def same_dev_def)
  obtain w3 where w3: "erase_ahead fuel K 0 l w2 =
      Some (Ret True, l\<lparr>l_skip_bad := l_skip_bad l + int (n * ?es), l_e := int ((b + n + 1) * ?es)\<rparr>, w3)" "only_kern w2 w3"
    "V (kern w3) = flash_erase (V (kern w)) ((b + n) * ?es) ?es" "P (kern w3) = (b + n) * ?es" "R (kern w3) = drop ?es ?I"
    using erase_ahead_works [OF assms(1-3), of w2 b n fuel l] assms w1 w2 by (auto simp: same_dev_def)
  have t3: "tbuf w3 = tbuf w2" "tbuflen w3 = int ?es" using same_dev_only_kern [OF w3(2)] w2(1) by simp_all
  let ?blk = "field 0 ?es (tbuf w2)"
  have lb: "length ?blk = ?es" using w2(5) assms(16) by (simp add: field_def)
  obtain k where wr: "os_write K fd ?blk (kern w3) = (int ?es, k)" "V k = flash_program (V (kern w3)) (P (kern w3)) ?blk" "P k = P (kern w3) + ?es" "R k = R (kern w3)"
    using image_streamD(2) [OF assms(3) w3(4) _ assms(21) lb] w3(3) assms(19) by auto
  have v: "V k = poke (V (kern w)) ((b + n) * ?es) ?blk"
    unfolding wr(2) w3(3,4) using rewrite_flash [of "(b + n) * ?es" ?blk "V (kern w)"] lb assms(19) by simp
  have nz: "tbuflen w1 \<noteq> 0" using w1(4) assms(18) by simp
  have le: "\<not> int (length (tbuf w1)) < erasesize w1" using w1(2,5) assms(12,16) by (simp add: same_dev_def)
  have blk: "write_block K (l\<lparr>l_skip_bad := l_skip_bad l + int (n * ?es), l_e := int ((b + n + 1) * ?es)\<rparr>) w3 =
      (Ret Again, l\<lparr>l_skip_bad := l_skip_bad l + int (n * ?es), l_e := int ((b + n + 1) * ?es), l_w := l_w l + int ?es, l_offset := 0\<rparr>, w3\<lparr>kern := k, tbuflen := 0\<rparr>)"
    using wr(1) t3 w2(5) assms(5,7,16) by (simp add: write_block_def nat_power_eq)
  have "write_round fuel cfg J K imagefd 0 l w = Some (write_block K (l\<lparr>l_skip_bad := l_skip_bad l + int (n * ?es), l_e := int ((b + n + 1) * ?es)\<rparr>) w3)"
    using w1(1) nz le w3(1) assms(4,6,8) by (simp add: write_round_def Let_def w2_def)
  moreover have "same_dev w w3" using same_dev_trans [OF w2(6)] same_dev_only_kern [OF w3(2)] by simp
  ultimately show ?thesis using blk v wr w3 w2 t3 assms(7) by (auto simp: same_dev_def algebra_simps)
qed

text \<open>The good blocks from block \<open>b\<close> up to block \<open>m\<close>, one after the other.\<close>

definition good_block_data :: "(nat \<Rightarrow> bool) \<Rightarrow> nat \<Rightarrow> byte list \<Rightarrow> nat \<Rightarrow> nat \<Rightarrow> byte list" where
  "good_block_data bad es d b m = concat (map (\<lambda>j. field (j * es) es d) (filter (\<lambda>j. \<not> bad j) [b..<m]))"

lemma good_data_block_data:
  assumes "m * es \<le> length d" and "0 < es" and "b \<le> m"
  shows "good_data bad es d (b * es) (m * es - b * es) = good_block_data bad es d b m"
  using assms(3)
proof (induction rule: inc_induct)
  case base
  then show ?case by (simp add: good_data_def good_block_data_def)
next
  case (step n)
  then have l: "Suc n * es \<le> m * es" by (intro mult_right_mono) simp_all
  have "good_data bad es d (n * es) (m * es - n * es) = good_data bad es d (n * es) es @ good_data bad es d (n * es + es) (m * es - n * es - es)"
    using l by (intro good_data_split) simp
  also have "good_data bad es d (n * es) es = (if bad n then [] else field (n * es) es d)"
    using good_data_block [of "n * es" es es d bad] assms(1,2) l by simp
  also have "good_data bad es d (n * es + es) (m * es - n * es - es) = good_data bad es d (Suc n * es) (m * es - Suc n * es)"
    by (simp add: add.commute)
  finally show ?case using step by (simp add: good_block_data_def upt_conv_Cons)
qed

lemma good_block_data_first:
  assumes "good_block_data bad es d b m \<noteq> []"
  obtains n where "b + n < m" "\<And>j. b \<le> j \<Longrightarrow> j < b + n \<Longrightarrow> bad j" "\<not> bad (b + n)"
    "\<And>d. good_block_data bad es d b m = field ((b + n) * es) es d @ good_block_data bad es d (b + n + 1) m"
proof -
  have "filter (\<lambda>j. \<not> bad j) [b..<m] \<noteq> []" using assms unfolding good_block_data_def by (metis concat.simps(1) list.map_disc_iff)
  then obtain x xs where x: "filter (\<lambda>j. \<not> bad j) [b..<m] = x # xs" by (cases "filter (\<lambda>j. \<not> bad j) [b..<m]") auto
  then obtain us vs where uv: "[b..<m] = us @ x # vs" "\<forall>u\<in>set us. bad u" "\<not> bad x" "xs = filter (\<lambda>j. \<not> bad j) vs"
    by (auto simp: filter_eq_Cons_iff)
  let ?n = "length us"
  have len: "?n < m - b" using arg_cong [OF uv(1), of length] by simp
  have xn: "x = b + ?n" using arg_cong [OF uv(1), of "\<lambda>l. l ! ?n"] len by simp
  have vs: "vs = [b + ?n + 1..<m]" using arg_cong [OF uv(1), of "drop (Suc ?n)"] by simp
  have us: "us = [b..<b + ?n]" using arg_cong [OF uv(1), of "take ?n"] len by simp
  show ?thesis
  proof (rule that [of ?n])
    show "b + ?n < m" using len by simp
    show "bad j" if "b \<le> j" "j < b + ?n" for j using that uv(2) us by (metis atLeastLessThan_iff set_upt)
    show "\<not> bad (b + ?n)" using uv(3) xn by simp
    show "good_block_data bad es d b m = field ((b + ?n) * es) es d @ good_block_data bad es d (b + ?n + 1) m" for d
      using x xn uv(4) vs by (simp add: good_block_data_def)
  qed
qed

lemma good_block_data_cong:
  assumes "length d = length d'" and "\<And>i. b * es \<le> i \<Longrightarrow> i < length d \<Longrightarrow> d ! i = d' ! i"
  shows "good_block_data bad es d b m = good_block_data bad es d' b m"
proof -
  have "field (j * es) es d = field (j * es) es d'" if "b \<le> j" for j
  proof (rule field_nth_eqI [OF assms(1)])
    fix i assume "j * es \<le> i" "i < length d"
    then show "d ! i = d' ! i" using assms(2) mult_le_mono1 [OF that, of es] by (meson order_trans)
  qed
  then show ?thesis unfolding good_block_data_def by (intro arg_cong [of _ _ concat] map_cong refl) simp
qed

text \<open>What the loop does to the flash from block \<open>b\<close> on.\<close>

definition written :: "(nat \<Rightarrow> bool) \<Rightarrow> nat \<Rightarrow> nat \<Rightarrow> nat \<Rightarrow> byte list \<Rightarrow> byte list \<Rightarrow> byte list \<Rightarrow> bool" where
  "written bad es m b img d d' \<longleftrightarrow> length d' = length d \<and> take (b * es) d' = take (b * es) d \<and>
     good_block_data bad es d' b m = pad_image es img @ drop (length (pad_image es img)) (good_block_data bad es d b m) \<and>
     (\<forall>i < length d. bad (i div es) \<longrightarrow> d' ! i = d ! i)"

lemma written_Nil: "written bad es m b [] d d"
  by (simp add: written_def)

lemma written_step:
  assumes "written bad es m (b + n + 1) (drop es img) (poke d ((b + n) * es) X) d'" and "X = take es img @ replicate (es - length img) 0xff"
    and "img \<noteq> []" and "0 < es" and "(b + n) * es + es \<le> length d" and "\<not> bad (b + n)"
    and "\<And>d. good_block_data bad es d b m = field ((b + n) * es) es d @ good_block_data bad es d (b + n + 1) m"
  shows "written bad es m b img d d'"
proof -
  let ?d = "poke d ((b + n) * es) X" and ?s = "(b + n) * es"
  have lx: "length X = es" by (simp add: assms(2))
  have w: "length d' = length d" "take (?s + es) d' = take (?s + es) ?d"
    "good_block_data bad es d' (b + n + 1) m = pad_image es (drop es img) @ drop (length (pad_image es (drop es img))) (good_block_data bad es ?d (b + n + 1) m)"
    "\<And>i. i < length d \<Longrightarrow> bad (i div es) \<Longrightarrow> d' ! i = ?d ! i"
    using assms(1) by (simp_all add: written_def algebra_simps)
  have f: "field ?s es d' = X"
    using arg_cong [OF w(2), of "drop ?s"] assms(5) lx by (simp add: field_def drop_take poke_in)
  have g: "good_block_data bad es ?d (b + n + 1) m = good_block_data bad es d (b + n + 1) m"
    by (rule good_block_data_cong) (auto simp: nth_poke lx algebra_simps)
  have p: "pad_image es img = X @ pad_image es (drop es img)" using pad_image_block [OF assms(4,3)] assms(2) by simp
  have lf: "length (field ?s es d) = es" using assms(5) by (simp add: field_def)
  have "good_block_data bad es d' b m = pad_image es img @ drop (length (pad_image es img)) (good_block_data bad es d b m)"
    unfolding assms(7) [of d'] assms(7) [of d] f w(3) g p using lx lf by simp
  moreover have "take (b * es) d' = take (b * es) d"
    using arg_cong [OF w(2), of "take (b * es)"] take_poke [of "b * es" ?s d X] by (simp add: min_def algebra_simps)
  moreover have "d' ! i = d ! i" if "i < length d" "bad (i div es)" for i
  proof -
    have "\<not> (?s \<le> i \<and> i < ?s + es)"
    proof
      assume "?s \<le> i \<and> i < ?s + es"
      then have "i div es = b + n" by (intro div_nat_eqI) (simp_all add: algebra_simps)
      then show False using that(2) assms(6) by simp
    qed
    then show ?thesis using that w(4) [of i] lx by (auto simp: nth_poke)
  qed
  ultimately show ?thesis using w(1) by (simp add: written_def)
qed

lemma write_loop_works:
  assumes "mtd_flash K fd V bad (2 ^ e)" and "mtd_works K fd V bad (2 ^ e)" and "image_stream K fd imagefd V P R bad (2 ^ e)"
    and "\<not> no_erase cfg" and "l_fd l = fd" and "l_skip l = 0" and "l_offset l = 0" and "l_jffs2file l = None"
    and "l_e l = int (b * 2 ^ e)" and "l_e l - l_skip_bad l = l_w l"
    and "\<not> mtdtype_nand w \<longrightarrow> (\<forall>b. \<not> bad b)" and "erasesize w = int (2 ^ e)" and "length (V (kern w)) < 2147483648"
    and "0 \<le> tbuflen w" and "tbuflen w \<le> int (2 ^ e)" and "2 ^ e \<le> length (tbuf w)" and "P (kern w) = b * 2 ^ e"
    and "length (V (kern w)) = m * 2 ^ e" and "length (pad_image (2 ^ e) (pending R w)) \<le> length (good_block_data bad (2 ^ e) (V (kern w)) b m)"
    and "m - b + 2 ^ e + 2 \<le> fuel"
  shows "\<exists>l' w'. write_loop fuel cfg J K imagefd 0 l w = Some (Ret l', w') \<and> l_fd l' = fd \<and> l_replaced l' = l_replaced l \<and>
    written bad (2 ^ e) m b (pending R w) (V (kern w)) (V (kern w'))"
  using assms(5-)
proof (induction fuel arbitrary: b l w)
  case (Suc fuel)
  let ?es = "2 ^ e :: nat" and ?I = "pending R w" and ?d = "V (kern w)"
  have es: "0 < ?es" by simp
  show ?case
  proof (cases "?I = []")
    case True
    have "?es - nat (tbuflen w) < fuel" using Suc.prems(16) by linarith
    then obtain w1 where "fill_buffer fuel K imagefd w = Some w1" "tbuflen w1 = 0" "V (kern w1) = ?d"
      using fill_buffer_stream [OF assms(3) Suc.prems(8,10,11,12)] True by auto
    then have "write_loop (Suc fuel) cfg J K imagefd 0 l w = Some (Ret l, w1)" by (simp add: write_round_def)
    then show ?thesis using True \<open>V (kern w1) = ?d\<close> Suc.prems(1) written_Nil by auto
  next
    case False
    have "pad_image ?es ?I \<noteq> []" using False by (simp add: pad_image_def)
    then have "good_block_data bad ?es ?d b m \<noteq> []" using Suc.prems(15) by auto
    then obtain n where n: "b + n < m" "\<And>j. b \<le> j \<Longrightarrow> j < b + n \<Longrightarrow> bad j" "\<not> bad (b + n)"
      and g: "\<And>d. good_block_data bad ?es d b m = field ((b + n) * ?es) ?es d @ good_block_data bad ?es d (b + n + 1) m"
      using good_block_data_first by blast
    have "Suc (b + n) * ?es \<le> m * ?es" using n(1) by (intro mult_right_mono) simp_all
    then have fits: "(b + n) * ?es + ?es \<le> length ?d" using Suc.prems(14) by simp
    have fu: "n + 1 < fuel" "?es < fuel" "m - (b + n + 1) + ?es + 2 \<le> fuel" using Suc.prems(16) n(1) es by linarith+
    define X where "X = take ?es ?I @ replicate (?es - length ?I) 0xff"
    define l' where "l' = l\<lparr>l_skip_bad := l_skip_bad l + int (n * ?es), l_e := int ((b + n + 1) * ?es), l_w := l_w l + int ?es\<rparr>"
    obtain w' where w': "write_round fuel cfg J K imagefd 0 l w = Some (Ret Again, l', w')" "same_dev w w'" "tbuflen w' = 0"
      "length (tbuf w') = length (tbuf w)" "P (kern w') = (b + n + 1) * ?es" "V (kern w') = poke ?d ((b + n) * ?es) X" "R (kern w') = drop ?es ?I"
      using write_round_works [OF assms(1-4) Suc.prems(1-13) False fits n(2,3) fu(1,2)] unfolding X_def l'_def by blast
    have pen: "pending R w' = drop ?es ?I" using w'(3,7) by (simp add: pending_def)
    have lx: "length X = ?es" by (simp add: X_def)
    have gb: "good_block_data bad ?es (V (kern w')) (b + n + 1) m = good_block_data bad ?es ?d (b + n + 1) m"
      unfolding w'(6) by (rule good_block_data_cong) (auto simp: nth_poke lx algebra_simps)
    have "length (pad_image ?es ?I) = ?es + length (pad_image ?es (drop ?es ?I))"
      using arg_cong [OF pad_image_block [OF es False], of length] by simp
    moreover have "length (good_block_data bad ?es ?d b m) = ?es + length (good_block_data bad ?es ?d (b + n + 1) m)"
      using arg_cong [OF g [of ?d], of length] fits by (simp add: field_def)
    ultimately have room: "length (pad_image ?es (pending R w')) \<le> length (good_block_data bad ?es (V (kern w')) (b + n + 1) m)"
      using Suc.prems(15) gb pen by simp
    have "\<exists>l2 w2. write_loop fuel cfg J K imagefd 0 l' w' = Some (Ret l2, w2) \<and> l_fd l2 = fd \<and> l_replaced l2 = l_replaced l' \<and>
        written bad ?es m (b + n + 1) (pending R w') (V (kern w')) (V (kern w2))"
    proof (rule Suc.IH)
      show "l_e l' - l_skip_bad l' = l_w l'" using Suc.prems(5,6) by (simp add: l'_def algebra_simps)
    qed (use Suc.prems w' room fu(3) in \<open>simp_all add: l'_def same_dev_def\<close>)
    then obtain l2 w2 where r: "write_loop fuel cfg J K imagefd 0 l' w' = Some (Ret l2, w2)" "l_fd l2 = fd" "l_replaced l2 = l_replaced l"
      "written bad ?es m (b + n + 1) (drop ?es ?I) (poke ?d ((b + n) * ?es) X) (V (kern w2))" by (auto simp: pen w'(6) l'_def)
    then show ?thesis using w'(1) written_step [OF r(4) X_def False es fits n(3) g] by auto
  qed
qed simp

lemma device_names_single: "colon \<notin> set mtd \<Longrightarrow> device_names mtd = [mtd]"
  by (induction mtd) auto

lemma mtd_write_works:
  assumes "opens_flash K mtd w fd w1 V bad e" and "mtd_works K fd V bad (2 ^ e)" and "image_stream K fd imagefd V P R bad (2 ^ e)"
    and "colon \<notin> set mtd" and "\<not> no_erase cfg" and "jffs2file cfg = None" and "tpl_uboot_args_part cfg = None"
    and "0 \<le> tbuflen w1" and "tbuflen w1 \<le> int (2 ^ e)" and "2 ^ e \<le> length (tbuf w1)" and "P (kern w1) = 0"
    and "2 ^ e dvd length (V (kern w1))" and "2 * length (V (kern w1)) + 2 \<le> fuel"
    and "length (pad_image (2 ^ e) (pending R w1)) \<le> length (good_data bad (2 ^ e) (V (kern w1)) 0 (length (V (kern w1))))"
  shows "\<exists>w'. mtd_write fuel cfg J K format imagefd mtd 0 w = Some (Ret 0, w') \<and> length (V (kern w')) = length (V (kern w1)) \<and>
    good_data bad (2 ^ e) (V (kern w')) 0 (length (V (kern w1))) = pad_image (2 ^ e) (pending R w1) @
      drop (length (pad_image (2 ^ e) (pending R w1))) (good_data bad (2 ^ e) (V (kern w1)) 0 (length (V (kern w1)))) \<and>
    (\<forall>i < length (V (kern w1)). bad (i div 2 ^ e) \<longrightarrow> V (kern w') ! i = V (kern w1) ! i)"
proof -
  let ?es = "2 ^ e :: nat" and ?d = "V (kern w1)" and ?I = "pending R w1"
  note o = opens_flashD [OF assms(1)]
  obtain m where m: "length ?d = m * ?es" using assms(12) by (metis dvd_def mult.commute)
  have gd: "good_data bad ?es d 0 (length ?d) = good_block_data bad ?es d 0 m" if "length d = length ?d" for d
    using good_data_block_data [of m ?es d 0 bad] m that by simp
  have "m \<le> length ?d" using m by simp
  then have fuel: "m - 0 + ?es + 2 \<le> fuel" using assms(13) o(8) by linarith
  define l where "l = \<lparr>l_mtd = mtd, l_next = [], l_fd = fd, l_w = 0, l_e = 0, l_skip = 0, l_offset = 0, l_jffs2file = None, l_replaced = False, l_skip_bad = 0\<rparr>"
  have "\<exists>l' w'. write_loop fuel cfg J K imagefd 0 l w1 = Some (Ret l', w') \<and> l_fd l' = fd \<and> l_replaced l' = l_replaced l \<and>
      written bad ?es m 0 ?I ?d (V (kern w'))"
    using o assms(8-11,14) m gd [of ?d] fuel by (intro write_loop_works [OF o(3) assms(2,3,5)]) (simp_all add: l_def)
  then obtain l2 w2 where w2: "write_loop fuel cfg J K imagefd 0 l w1 = Some (Ret l2, w2)" "l_fd l2 = fd" "\<not> l_replaced l2" "written bad ?es m 0 ?I ?d (V (kern w2))"
    by (auto simp: l_def)
  have "mtd_write fuel cfg J K format imagefd mtd 0 w = Some (Ret 0, close_fd K fd w2)"
    using w2 o(1,2) assms(6,7) unfolding l_def
    by (simp add: mtd_write_def start_device_def device_names_single [OF assms(4)] finish_write_def fix_replaced_def Let_def)
  then show ?thesis using w2(4) flash_keeps(2) [OF o(3)] gd by (simp add: written_def close_fd_def)
qed

section \<open>A NAND device in memory\<close>

text \<open>The flash has three blocks of 32 bytes, of which the second is bad; the state has the position and the rest of the image, of which a read gives at most 7 bytes.\<close>

definition nand_os :: "(byte list \<times> nat \<times> byte list) mtd_os" where
  "nand_os =
     \<lparr>os_proc = (\<lambda>k. None), os_open = (\<lambda>path wr (d, p, r). (3, d, 0, r)), os_close = (\<lambda>fd k. k),
      os_info = (\<lambda>fd (d, p, r). Some \<lparr>mi_nand = True, mi_size = length d, mi_erasesize = 32, mi_writesize = 1\<rparr>),
      os_read = (\<lambda>fd n (d, p, r). (Inr (take (min n 7) r), d, p, drop (min n 7) r)),
      os_write = (\<lambda>fd bs (d, p, r). (int (length bs), flash_program d p bs, p + length bs, r)),
      os_seek = (\<lambda>fd i cur (d, p, r). (d, if cur then p + nat i else nat i, r)),
      os_pread = (\<lambda>fd n off (d, p, r). (Inr (field off n d), d, p, r)),
      os_pwrite = (\<lambda>fd bs off (d, p, r). (int (length bs), flash_program d off bs, p, r)),
      os_isbad = (\<lambda>fd i k. (if i div 32 = 1 then 1 else 0, k)), os_erase = (\<lambda>fd start len (d, p, r). (0, flash_erase d start len, p, r)),
      os_unlock = (\<lambda>fd start len k. k), os_mmap = (\<lambda>fd n k. None), os_munmap = (\<lambda>fd bs k. k)\<rparr>"

definition nand_tool :: "byte list \<Rightarrow> byte list \<Rightarrow> (byte list \<times> nat \<times> byte list) tool" where
  "nand_tool d img = \<lparr>kern = (d, 0, img), mtdsize = 0, erasesize = 0, mtdtype_nand = False, opt_trxmagic = 0x48445230, big_endian = False, size_bits = 32,
     tbuf = replicate 32 0, tbuflen = 0\<rparr>"

lemma nand_flash: "mtd_flash nand_os 3 fst (\<lambda>b. b = 1) 32"
proof -
  have "int off div 32 = 1 \<longleftrightarrow> off div 32 = 1" for off by linarith
  then show ?thesis by (auto simp: mtd_flash_def nand_os_def field_def min_def)
qed

lemma nand_works: "mtd_works nand_os 3 fst (\<lambda>b. b = 1) 32"
  by (auto simp: mtd_works_def nand_os_def field_def)

lemma nand_stream: "image_stream nand_os 3 0 fst (fst \<circ> snd) (snd \<circ> snd) (\<lambda>b. b = 1) 32"
  by (auto simp: image_stream_def nand_os_def min_def)

definition nand_cfg :: mtd_opts where
  "nand_cfg = \<lparr>no_erase = False, jffs2file = None, jffs2dir = [], jffs2_skip_bytes = 0, tpl_uboot_args_part = None, has_trx = True, has_seama = False, has_wrg = False,
     has_wrgg = False, has_tpl = False, target_brcm = False, o_stack = [], o_heap = []\<rparr>"

definition no_jffs2 :: "'d jffs2_ops" where
  "no_jffs2 = \<lparr>jf_replace = (\<lambda>mtd fd e file w. (Ret 0, w)), jf_parse = (\<lambda>buf dir w. w), jf_write = (\<lambda>mtd file dir w. (Ret 0, w))\<rparr>"

end
