(* ===== verification/Mtd_Main.thy ===== *)
theory Mtd_Main
  imports Mtd_Write
begin

text \<open>
  The command line of the \<^verbatim>\<open>mtd\<close> tool (\<^verbatim>\<open>main\<close> in \<^verbatim>\<open>mtd.c\<close>). The options are those that \<^verbatim>\<open>getopt\<close> returns, with the number that
  \<^verbatim>\<open>strtoul\<close> makes of an argument, or \<^const>\<open>None\<close> when it sets \<^verbatim>\<open>errno\<close>.
\<close>

section \<open>Options\<close>

datatype mtd_option =
    Opt_f | Opt_r | Opt_n | Opt_q
  | Opt_j "byte list" | Opt_e "byte list" | Opt_d "byte list" | Opt_t "byte list"
  | Opt_s "nat option" | Opt_p "nat option" | Opt_l "nat option" | Opt_M "nat option" | Opt_o "nat option" | Opt_c "nat option"
  | Opt_unknown

record mtd_args =
  a_cfg :: mtd_opts
  a_force :: bool
  a_boot :: bool
  a_erase :: "byte list list"
  a_offset :: nat
  a_data_size :: nat
  a_part_offset :: nat
  a_dump_len :: nat
  a_trxmagic :: nat

text \<open>
  \<^verbatim>\<open>usage\<close> ends the program with status 1. The array \<^verbatim>\<open>erase\<close> has eight elements and a null pointer at its end: the eighth \<^verbatim>\<open>-e\<close>
  writes behind it.
\<close>

definition MAX_ARGS :: nat where
  "MAX_ARGS = 8"

fun number :: "nat option \<Rightarrow> (nat \<Rightarrow> 'b) \<Rightarrow> 'b outcome" where
  "number None f = Exit 1"
| "number (Some n) f = Ret (f n)"

fun parse_option :: "mtd_option \<Rightarrow> mtd_args \<Rightarrow> mtd_args outcome" where
  "parse_option Opt_f a = Ret (a\<lparr>a_force := True\<rparr>)"
| "parse_option Opt_r a = Ret (a\<lparr>a_boot := True\<rparr>)"
| "parse_option Opt_n a = Ret (a\<lparr>a_cfg := (a_cfg a)\<lparr>no_erase := True\<rparr>\<rparr>)"
| "parse_option Opt_q a = Ret a"
| "parse_option (Opt_j x) a = Ret (a\<lparr>a_cfg := (a_cfg a)\<lparr>jffs2file := Some x\<rparr>\<rparr>)"
| "parse_option (Opt_e x) a = (if length (a_erase a) + 1 < MAX_ARGS then Ret (a\<lparr>a_erase := a_erase a @ [x]\<rparr>) else Exit 139)"
| "parse_option (Opt_d x) a = Ret (a\<lparr>a_cfg := (a_cfg a)\<lparr>jffs2dir := x\<rparr>\<rparr>)"
| "parse_option (Opt_t x) a = Ret (a\<lparr>a_cfg := (a_cfg a)\<lparr>tpl_uboot_args_part := Some x\<rparr>\<rparr>)"
| "parse_option (Opt_s v) a = number v (\<lambda>n. a\<lparr>a_cfg := (a_cfg a)\<lparr>jffs2_skip_bytes := s32 (u32 n)\<rparr>\<rparr>)"
| "parse_option (Opt_p v) a = number v (\<lambda>n. a\<lparr>a_part_offset := n\<rparr>)"
| "parse_option (Opt_l v) a = number v (\<lambda>n. a\<lparr>a_dump_len := n\<rparr>)"
| "parse_option (Opt_M v) a = number v (\<lambda>n. a\<lparr>a_trxmagic := u32 n\<rparr>)"
| "parse_option (Opt_o v) a = number v (\<lambda>n. a\<lparr>a_offset := n\<rparr>)"
| "parse_option (Opt_c v) a = number v (\<lambda>n. a\<lparr>a_data_size := n\<rparr>)"
| "parse_option Opt_unknown a = Exit 1"

fun parse_options :: "mtd_option list \<Rightarrow> mtd_args \<Rightarrow> mtd_args outcome" where
  "parse_options [] a = Ret a"
| "parse_options (x # xs) a = (case parse_option x a of Exit e \<Rightarrow> Exit e | Ret a' \<Rightarrow> parse_options xs a')"

section \<open>Commands\<close>

datatype mtd_cmd = CMD_ERASE | CMD_WRITE | CMD_UNLOCK | CMD_JFFS2WRITE | CMD_FIXTRX | CMD_FIXSEAMA | CMD_FIXWRG | CMD_FIXWRGG | CMD_VERIFY | CMD_DUMP | CMD_RESETBC

record links =
  has_resetbc :: bool
  l_md5 :: "byte list \<Rightarrow> byte list"

text \<open>The command with the device and the image file; \<^const>\<open>None\<close> is \<^verbatim>\<open>usage\<close>.\<close>

definition parse_command :: "bool \<Rightarrow> mtd_opts \<Rightarrow> byte list list \<Rightarrow> (mtd_cmd \<times> byte list \<times> byte list) option" where
  "parse_command resetbc cfg argv =
     (case argv of
        [c, dev] \<Rightarrow>
          if c = bytes_of ''unlock'' then Some (CMD_UNLOCK, dev, [])
          else if c = bytes_of ''erase'' then Some (CMD_ERASE, dev, [])
          else if c = bytes_of ''resetbc'' \<and> resetbc then Some (CMD_RESETBC, dev, [])
          else if c = bytes_of ''fixtrx'' \<and> has_trx cfg then Some (CMD_FIXTRX, dev, [])
          else if c = bytes_of ''fixseama'' \<and> has_seama cfg then Some (CMD_FIXSEAMA, dev, [])
          else if c = bytes_of ''fixwrg'' \<and> has_wrg cfg then Some (CMD_FIXWRG, dev, [])
          else if c = bytes_of ''fixwrgg'' \<and> has_wrgg cfg then Some (CMD_FIXWRGG, dev, [])
          else if c = bytes_of ''dump'' then Some (CMD_DUMP, dev, [])
          else None
      | [c, file, dev] \<Rightarrow>
          if c = bytes_of ''verify'' then Some (CMD_VERIFY, dev, file)
          else if c = bytes_of ''write'' then Some (CMD_WRITE, dev, file)
          else if c = bytes_of ''jffs2write'' then Some (CMD_JFFS2WRITE, dev, file)
          else None
      | _ \<Rightarrow> None)"

text \<open>What is done before anything is erased or written: the descriptor of the image and its format.\<close>

definition prepare :: "'d mtd_os \<Rightarrow> mtd_args \<Rightarrow> mtd_cmd \<Rightarrow> byte list \<Rightarrow> byte list \<Rightarrow> 'd tool \<Rightarrow> (int \<times> mtd_image_format) outcome \<times> 'd tool" where
  "prepare K a cmd device file w =
     (if cmd = CMD_WRITE then
        (let (imagefd, k) = (if file = bytes_of ''-'' then (0, kern w) else os_open K (Path file) False (kern w));
             w1 = w\<lparr>kern := k\<rparr>
         in if imagefd < 0 then (Exit 1, w1)
            else
              let (ok, w2) = mtd_check K device w1
              in if ok = 0 then (Exit 1, w2)
                 else case image_check (a_cfg a) K imagefd device w2 of
                        (Exit e, w3) \<Rightarrow> (Exit e, w3)
                      | (Ret (r, format), w3) \<Rightarrow> if r = 0 \<and> \<not> a_force a then (Exit 1, w3) else (Ret (imagefd, format), w3))
      else if cmd = CMD_JFFS2WRITE then
        (let (ok, w2) = mtd_check K device w in if ok = 0 then (Exit 1, w2) else (Ret (0, FORMAT_UNKNOWN), w2))
      else (Ret (0, FORMAT_UNKNOWN), w))"

text \<open>The devices to be erased first; whether the device of the command is among them.\<close>

fun erase_first :: "nat \<Rightarrow> 'd mtd_os \<Rightarrow> byte list list \<Rightarrow> 'd tool \<Rightarrow> (int outcome \<times> 'd tool) option" where
  "erase_first fuel K [] w = Some (Ret 0, w)"
| "erase_first fuel K (d # ds) w =
     (case mtd_unlock K d w of
        (Exit e, w1) \<Rightarrow> Some (Exit e, w1)
      | (Ret _, w1) \<Rightarrow>
          (case mtd_erase fuel K d w1 of
             None \<Rightarrow> None
           | Some (Exit e, w2) \<Rightarrow> Some (Exit e, w2)
           | Some (Ret _, w2) \<Rightarrow> erase_first fuel K ds w2))"

definition unlock_then :: "'d mtd_os \<Rightarrow> bool \<Rightarrow> byte list \<Rightarrow> 'd tool \<Rightarrow> ('d tool \<Rightarrow> (int outcome \<times> 'd tool) option) \<Rightarrow> (int outcome \<times> 'd tool) option" where
  "unlock_then K unlocked device w f =
     (if unlocked then f w else case mtd_unlock K device w of (Exit e, w1) \<Rightarrow> Some (Exit e, w1) | (Ret _, w1) \<Rightarrow> f w1)"

definition run_command ::
    "nat \<Rightarrow> links \<Rightarrow> 'd jffs2_ops \<Rightarrow> (byte list \<Rightarrow> 'd \<Rightarrow> (nat \<times> byte list) option) \<Rightarrow> 'd mtd_os \<Rightarrow> mtd_args \<Rightarrow> mtd_cmd \<Rightarrow> byte list \<Rightarrow> byte list \<Rightarrow>
      int \<Rightarrow> mtd_image_format \<Rightarrow> bool \<Rightarrow> 'd tool \<Rightarrow> (int outcome \<times> 'd tool) option" where
  "run_command fuel L J md5sum K a cmd device file imagefd format unlocked w =
     (let stack = o_stack (a_cfg a); plain = (\<lambda>(r, w'). (Ret r, w'))
      in case cmd of
           CMD_UNLOCK \<Rightarrow> unlock_then K unlocked device w (\<lambda>w1. Some (Ret 0, w1))
         | CMD_VERIFY \<Rightarrow> map_option plain (mtd_verify fuel K (l_md5 L) (md5sum file) device w)
         | CMD_DUMP \<Rightarrow> mtd_dump fuel K device (s32 (u32 (a_offset a))) (s32 (u32 (a_dump_len a))) w
         | CMD_ERASE \<Rightarrow> unlock_then K unlocked device w (mtd_erase fuel K device)
         | CMD_WRITE \<Rightarrow> unlock_then K unlocked device w (mtd_write fuel (a_cfg a) J K format imagefd device (a_part_offset a))
         | CMD_JFFS2WRITE \<Rightarrow> unlock_then K unlocked device w (\<lambda>w1. Some (jf_write J device file (jffs2dir (a_cfg a)) w1))
         | CMD_FIXTRX \<Rightarrow> mtd_fixtrx fuel K device (a_offset a) (a_data_size a) w
         | CMD_RESETBC \<Rightarrow> Some (plain (mtd_resetbc K device w))
         | CMD_FIXSEAMA \<Rightarrow> Some (mtd_fixseama K stack device 0 (a_data_size a) w)
         | CMD_FIXWRG \<Rightarrow> Some (mtd_fixwrg K stack device 0 (a_data_size a) w)
         | CMD_FIXWRGG \<Rightarrow> Some (mtd_fixwrgg K stack device 0 (a_data_size a) w))"

text \<open>The exit status: a result that a command returns is not used.\<close>

definition exit_status :: "int outcome \<Rightarrow> int" where
  "exit_status r = (case r of Exit e \<Rightarrow> e | Ret _ \<Rightarrow> 0)"

definition mtd_main ::
    "nat \<Rightarrow> links \<Rightarrow> 'd jffs2_ops \<Rightarrow> (byte list \<Rightarrow> 'd \<Rightarrow> (nat \<times> byte list) option) \<Rightarrow> 'd mtd_os \<Rightarrow> mtd_args \<Rightarrow> mtd_option list \<Rightarrow> byte list list \<Rightarrow> 'd tool \<Rightarrow>
      (int \<times> 'd tool) option" where
  "mtd_main fuel L J md5sum K a0 opts argv w =
     (case parse_options opts a0 of
        Exit e \<Rightarrow> Some (e, w)
      | Ret a \<Rightarrow>
          (case parse_command (has_resetbc L) (a_cfg a) argv of
             None \<Rightarrow> Some (1, w)
           | Some (cmd, device, file) \<Rightarrow>
               (case prepare K a cmd device file (w\<lparr>opt_trxmagic := a_trxmagic a\<rparr>) of
                  (Exit e, w1) \<Rightarrow> Some (e, w1)
                | (Ret (imagefd, format), w1) \<Rightarrow>
                    (case erase_first fuel K (a_erase a) w1 of
                       None \<Rightarrow> None
                     | Some (Exit e, w2) \<Rightarrow> Some (e, w2)
                     | Some (Ret _, w2) \<Rightarrow>
                         map_option (\<lambda>(r, w3). (exit_status r, w3))
                           (run_command fuel L J md5sum K a cmd device file imagefd format (device \<in> set (a_erase a)) w2)))))"

section \<open>Nothing is written before the image is checked\<close>

text \<open>A view \<open>V\<close> of the kernel that opening, closing and reading do not change.\<close>

definition reads_only :: "'d mtd_os \<Rightarrow> ('d \<Rightarrow> 'v) \<Rightarrow> bool" where
  "reads_only K V \<longleftrightarrow> (\<forall>p b k. V (snd (os_open K p b k)) = V k) \<and> (\<forall>fd k. V (os_close K fd k) = V k) \<and> (\<forall>fd n k. V (snd (os_read K fd n k)) = V k)"

lemma reads_onlyD:
  assumes "reads_only K V"
  shows "os_open K p b k = (fd, k') \<Longrightarrow> V k' = V k" and "V (os_close K fd k) = V k" and "os_read K fd n k = (res, k') \<Longrightarrow> V k' = V k"
  using assms unfolding reads_only_def by (metis snd_conv)+

lemma mtd_open_frame: "reads_only K V \<Longrightarrow> mtd_open K mtd block wm w = (fd, w') \<Longrightarrow> V (kern w') = V (kern w)"
  by (auto simp: mtd_open_def Let_def split: option.splits prod.splits if_splits) (metis reads_onlyD(1))+

lemma mtd_check_open_frame:
  assumes "reads_only K V" and "mtd_check_open K mtd wm w = (fd, w')"
  shows "V (kern w') = V (kern w)"
proof -
  obtain fd1 w1 where o: "mtd_open K mtd False wm w = (fd1, w1)" by fastforce
  then show ?thesis using assms mtd_open_frame [OF assms(1) o] reads_onlyD(2) [OF assms(1)]
    by (auto simp: mtd_check_open_def close_fd_def split: if_splits option.splits)
qed

lemma check_devices_frame: "reads_only K V \<Longrightarrow> check_devices K ms w = (r, w') \<Longrightarrow> V (kern w') = V (kern w)"
proof (induction ms arbitrary: w)
  case (Cons m ms)
  obtain fd w1 where o: "mtd_check_open K m True w = (fd, w1)" by fastforce
  then show ?case using Cons mtd_check_open_frame [OF Cons.prems(1) o] reads_onlyD(2) [OF Cons.prems(1)]
    by (fastforce simp: close_fd_def split: if_splits)
qed simp

lemma magic_read_frame: "reads_only K V \<Longrightarrow> V (kern (magic_read n K fd w)) = V (kern w)"
  by (induction n arbitrary: w) (auto dest: reads_onlyD(3) split: sum.splits prod.splits)

lemma trx_check_frame:
  assumes "reads_only K V" and "trx_check K fd mtd w = (r, w')"
  shows "V (kern w') = V (kern w)"
proof -
  obtain res k where rd: "os_read K fd (nat (32 - tbuflen w)) (kern w) = (res, k)" by fastforce
  define w1 where "w1 = (if tbuflen w < 32 then case (res, k) of (Inl _, k) \<Rightarrow> w\<lparr>kern := k, tbuflen := tbuflen w - 1\<rparr>
      | (Inr bs, k) \<Rightarrow> w\<lparr>kern := k, tbuf := poke (tbuf w) (nat (tbuflen w)) bs, tbuflen := tbuflen w + int (length bs)\<rparr> else w)"
  have v1: "V (kern w1) = V (kern w)" using reads_onlyD(3) [OF assms(1) rd] by (cases res) (auto simp: w1_def)
  obtain fd2 w2 where o: "mtd_check_open K mtd True w1 = (fd2, w2)" by fastforce
  have v2: "V (kern w2) = V (kern w)" using mtd_check_open_frame [OF assms(1) o] v1 by simp
  have "w' = w \<or> w' = w1 \<or> w' = w2 \<or> w' = close_fd K fd2 w2"
    using assms(2) o unfolding trx_check_def rd w1_def [symmetric] by (auto simp: Let_def split: if_splits)
  then show ?thesis using v1 v2 reads_onlyD(2) [OF assms(1)] by (auto simp: close_fd_def)
qed

lemma image_check_frame:
  assumes "reads_only K V" and "image_check cfg K fd mtd w = (r, w')"
  shows "V (kern w') = V (kern w)"
proof -
  define w1 where "w1 = magic_read 4 K fd w"
  have v1: "V (kern w1) = V (kern w)" unfolding w1_def by (rule magic_read_frame [OF assms(1)])
  obtain x w2 where t: "trx_check K fd mtd w1 = (x, w2)" by fastforce
  have v2: "V (kern w2) = V (kern w)" using trx_check_frame [OF assms(1) t] v1 by simp
  have "w' = w1 \<or> w' = w2" using assms(2) t unfolding image_check_def w1_def [symmetric] Let_def
    by (cases x) (auto split: if_splits)
  then show ?thesis using v1 v2 by auto
qed

lemma prepare_frame:
  assumes "reads_only K V" and "prepare K a cmd device file w = (r, w')"
  shows "V (kern w') = V (kern w)"
proof (cases "cmd = CMD_WRITE")
  case True
  obtain fd k where o: "(if file = bytes_of ''-'' then (0, kern w) else os_open K (Path file) False (kern w)) = (fd, k)" by fastforce
  have vk: "V k = V (kern w)" using o reads_onlyD(1) [OF assms(1)] by (auto split: if_splits)
  obtain ok w2 where c: "mtd_check K device (w\<lparr>kern := k\<rparr>) = (ok, w2)" by fastforce
  have v2: "V (kern w2) = V (kern w)" using check_devices_frame [OF assms(1) c [unfolded mtd_check_def]] vk by simp
  obtain x w3 where i: "image_check (a_cfg a) K fd device w2 = (x, w3)" by fastforce
  have v3: "V (kern w3) = V (kern w)" using image_check_frame [OF assms(1) i] v2 by simp
  have "w' = w\<lparr>kern := k\<rparr> \<or> w' = w2 \<or> w' = w3"
    using assms(2) True c i unfolding prepare_def o Let_def by (cases x) (auto split: if_splits)
  then show ?thesis using vk v2 v3 by auto
next
  case False
  obtain ok w2 where c: "mtd_check K device w = (ok, w2)" by fastforce
  have "V (kern w2) = V (kern w)" using check_devices_frame [OF assms(1) c [unfolded mtd_check_def]] .
  moreover have "w' = w \<or> w' = w2" using assms(2) False c unfolding prepare_def Let_def by (auto split: if_splits)
  ultimately show ?thesis by auto
qed

lemma mtd_check_open_keeps:
  assumes "mtd_check_open K mtd wm w = (fd, w')"
  shows "tbuf w' = tbuf w" "tbuflen w' = tbuflen w" "big_endian w' = big_endian w" "opt_trxmagic w' = opt_trxmagic w" "size_bits w' = size_bits w"
  using assms by (auto simp: mtd_check_open_def mtd_open_def close_fd_def Let_def split: if_splits option.splits prod.splits)

lemma trx_check_fits:
  assumes "trx_check K fd firmware w = (Ret r, w')" and "r \<noteq> 0"
  shows "28 \<le> host32_at w' (tbuf w') 4 \<and> host32_at w' (tbuf w') 4 \<le> u32_of_int (mtdsize w')"
proof -
  obtain w1 where w1: "trx_check K fd firmware w =
      (if tbuflen w1 < 32 then (Ret 0, w1)
       else if be32_at (tbuf w1) 0 \<noteq> opt_trxmagic w1 \<or> host32_at w1 (tbuf w1) 4 < 28 then (Ret 0, w1)
       else let (fd, w2) = mtd_check_open K firmware True w1
            in if fd < 0 then (Exit 1, w2)
               else (Ret (if u32_of_int (mtdsize w2) < host32_at w2 (tbuf w2) 4 then 0 else 1), close_fd K fd w2))"
    unfolding trx_check_def by (simp add: Let_def)
  obtain fd2 w2 where o: "mtd_check_open K firmware True w1 = (fd2, w2)" by fastforce
  have "host32_at w2 (tbuf w2) 4 = host32_at w1 (tbuf w1) 4" using mtd_check_open_keeps [OF o] by (simp add: host32_at_def)
  then show ?thesis using assms o unfolding w1 by (auto simp: close_fd_def host32_at_def split: if_splits)
qed

lemma prepare_trx:
  assumes "prepare K a CMD_WRITE firmware file w = (Ret (imagefd, FORMAT_TRX), w1)" and "\<not> a_force a" and "has_trx (a_cfg a)"
  shows "28 \<le> host32_at w1 (tbuf w1) 4 \<and> host32_at w1 (tbuf w1) 4 \<le> u32_of_int (mtdsize w1)"
proof -
  obtain fd k where o: "(if file = bytes_of ''-'' then (0, kern w) else os_open K (Path file) False (kern w)) = (fd, k)" by fastforce
  obtain ok w2 where c: "mtd_check K firmware (w\<lparr>kern := k\<rparr>) = (ok, w2)" by fastforce
  obtain x w3 where i: "image_check (a_cfg a) K fd firmware w2 = (x, w3)" by fastforce
  have "\<exists>r. x = Ret (r, FORMAT_TRX) \<and> r \<noteq> 0 \<and> w3 = w1"
    using assms(1,2) c i unfolding prepare_def o Let_def by (cases x) (auto split: if_splits)
  then obtain r where "image_check (a_cfg a) K fd firmware w2 = (Ret (r, FORMAT_TRX), w1)" "r \<noteq> 0" using i by auto
  then have "trx_check K fd firmware (magic_read 4 K fd w2) = (Ret r, w1)"
    using assms(3) unfolding image_check_def Let_def by (auto split: if_splits prod.splits outcome.splits)
  then show ?thesis using trx_check_fits \<open>r \<noteq> 0\<close> by blast
qed

text \<open>
  C15. \<^verbatim>\<open>mtd write\<close> checks before it writes: when the image cannot be opened, a device cannot be opened, or the check of the image fails and \<^verbatim>\<open>-f\<close> is not given,
  the tool ends with the status of this failure, and everything that opening, closing and reading leave alone, such as the contents of the flash, is as before. The
  check lets a TRX image for the partition \<^verbatim>\<open>firmware\<close> pass only when its length fits the device.
\<close>

theorem mtd_main_checks_first:
  assumes "reads_only K V" and "parse_options opts a0 = Ret a" and "prepare K a CMD_WRITE device file (w\<lparr>opt_trxmagic := a_trxmagic a\<rparr>) = (r, w1)"
  shows "V (kern w1) = V (kern w) \<and>
    (r = Exit e \<longrightarrow> mtd_main fuel L J md5sum K a0 opts [bytes_of ''write'', file, device] w = Some (e, w1)) \<and>
    (r = Ret (imagefd, FORMAT_TRX) \<longrightarrow> \<not> a_force a \<longrightarrow> has_trx (a_cfg a) \<longrightarrow> device = firmware \<longrightarrow>
      28 \<le> host32_at w1 (tbuf w1) 4 \<and> host32_at w1 (tbuf w1) 4 \<le> u32_of_int (mtdsize w1))"
proof -
  have "V (kern w1) = V (kern w)" using prepare_frame [OF assms(1,3)] by simp
  moreover have "mtd_main fuel L J md5sum K a0 opts [bytes_of ''write'', file, device] w = Some (e, w1)" if "r = Exit e"
  proof -
    have "parse_command (has_resetbc L) (a_cfg a) [bytes_of ''write'', file, device] = Some (CMD_WRITE, device, file)"
      by (simp add: parse_command_def bytes_of_def)
    then show ?thesis using assms(2,3) that by (simp add: mtd_main_def)
  qed
  moreover have "28 \<le> host32_at w1 (tbuf w1) 4 \<and> host32_at w1 (tbuf w1) 4 \<le> u32_of_int (mtdsize w1)"
    if "r = Ret (imagefd, FORMAT_TRX)" "\<not> a_force a" "has_trx (a_cfg a)" "device = firmware"
    using prepare_trx [of K a "file" "w\<lparr>opt_trxmagic := a_trxmagic a\<rparr>" imagefd w1] assms(3) that by simp
  ultimately show ?thesis by blast
qed

definition nand_args :: mtd_args where
  "nand_args = \<lparr>a_cfg = nand_cfg, a_force = False, a_boot = False, a_erase = [], a_offset = 0, a_data_size = 0, a_part_offset = 0, a_dump_len = 0, a_trxmagic = 0x48445230\<rparr>"

definition nand_links :: links where
  "nand_links = \<lparr>has_resetbc = True, l_md5 = (\<lambda>bs. bs)\<rparr>"

lemma nand_reads_only: "reads_only nand_os fst"
  by (auto simp: reads_only_def nand_os_def)

lemma nand_check_open:
  "mtd_check_open nand_os mtd wm w = (3, w\<lparr>kern := (fst (kern w), 0, snd (snd (kern w))), mtdsize := s32 (length (fst (kern w))), erasesize := 32, mtdtype_nand := True\<rparr>)"
  by (cases "kern w") (simp add: mtd_check_open_def mtd_open_def nand_os_def Let_def)

lemma nand_os_close: "os_close nand_os fd k = k"
  by (simp add: nand_os_def)

lemma nand_magic_short:
  assumes "kern w = (d, p, [x, y])" and "tbuflen w = 0"
  shows "tbuflen (magic_read 4 nand_os fd w) = 2"
proof -
  have "magic_read 4 nand_os fd w = magic_read (Suc (Suc (Suc (Suc 0)))) nand_os fd w" by (simp only: eval_nat_numeral numeral_One One_nat_def BitM.simps numeral.simps)
  then show ?thesis using assms by (simp add: nand_os_def)
qed

theorem mtd_main_checks_first_witness:
  "\<exists>w1. mtd_main 9 nand_links no_jffs2 (\<lambda>file k. None) nand_os nand_args [] [bytes_of ''write'', bytes_of ''-'', [109]]
       ((nand_tool (replicate 64 9) [1, 2])\<lparr>tbuf := []\<rparr>) = Some (1, w1) \<and> fst (kern w1) = replicate 64 9"
proof -
  let ?w = "(nand_tool (replicate 64 9) [1, 2])\<lparr>tbuf := []\<rparr>"
  have p: "\<exists>w1. prepare nand_os nand_args CMD_WRITE [109] (bytes_of ''-'') (?w\<lparr>opt_trxmagic := a_trxmagic nand_args\<rparr>) = (Exit 1, w1)"
    by (simp add: prepare_def mtd_check_def colon_def nand_check_open close_fd_def image_check_def Let_def nand_tool_def nand_os_close nand_magic_short)
       (simp add: nand_args_def)
  then obtain w1 where w1: "prepare nand_os nand_args CMD_WRITE [109] (bytes_of ''-'') (?w\<lparr>opt_trxmagic := a_trxmagic nand_args\<rparr>) = (Exit 1, w1)" ..
  show ?thesis using mtd_main_checks_first [OF nand_reads_only _ w1, of "[]" nand_args 1 9 nand_links no_jffs2 "\<lambda>file k. None"] by (simp add: nand_tool_def)
qed

section \<open>Writing an image from the standard input\<close>

text \<open>The name \<open>mtd\<close> is that of a device with contents \<open>V\<close>: opening it starts at position 0, and opening and closing leave the contents and the image file alone.\<close>

definition serves_device ::
    "'d mtd_os \<Rightarrow> byte list \<Rightarrow> int \<Rightarrow> ('d \<Rightarrow> byte list) \<Rightarrow> ('d \<Rightarrow> nat) \<Rightarrow> ('d \<Rightarrow> byte list) \<Rightarrow> bool \<Rightarrow> nat \<Rightarrow> bool" where
  "serves_device K mtd fd V P R nand e \<longleftrightarrow> 0 \<le> fd \<and>
     (\<forall>w. \<exists>k. mtd_open K mtd False True w = (fd, w\<lparr>kern := k\<rparr>) \<and> V k = V (kern w) \<and> R k = R (kern w) \<and> P k = 0) \<and>
     (\<forall>k. \<exists>i. os_info K fd k = Some i \<and> mi_size i = length (V k) \<and> mi_erasesize i = 2 ^ e \<and> mi_nand i = nand) \<and>
     (\<forall>k. R (os_close K fd k) = R k)"

lemma serves_check_open:
  assumes "serves_device K mtd fd V P R nand e" and "length (V (kern w)) < 2147483648" and "2 ^ e \<le> length (V (kern w))"
  shows "\<exists>k. mtd_check_open K mtd True w = (fd, w\<lparr>kern := k, mtdsize := int (length (V (kern w))), erasesize := int (2 ^ e), mtdtype_nand := nand\<rparr>) \<and>
    V k = V (kern w) \<and> R k = R (kern w) \<and> P k = 0"
proof -
  obtain k where k: "mtd_open K mtd False True w = (fd, w\<lparr>kern := k\<rparr>)" "V k = V (kern w)" "R k = R (kern w)" "P k = 0"
    using assms(1) unfolding serves_device_def by blast
  obtain i where i: "os_info K fd k = Some i" "mi_size i = length (V k)" "mi_erasesize i = 2 ^ e" "mi_nand i = nand"
    using assms(1) unfolding serves_device_def by blast
  have "\<not> fd < 0" using assms(1) by (simp add: serves_device_def)
  moreover have "s32 (2 ^ e) = int (2 ^ e)" using assms(2,3) by (intro s32_id) linarith
  ultimately show ?thesis using k i assms(2) by (intro exI [of _ k]) (simp add: mtd_check_open_def)
qed

lemma magic_read_stream:
  assumes "image_stream K fd imagefd V P R bad es" and "0 \<le> tbuflen w" and "tbuflen w \<le> 4" and "4 \<le> length (tbuf w)" and "4 - nat (tbuflen w) \<le> n"
  shows "\<exists>k t m. magic_read n K imagefd w = w\<lparr>kern := k, tbuf := t, tbuflen := m\<rparr> \<and> m = int (min 4 (length (pending R w))) \<and>
    pending R (w\<lparr>kern := k, tbuf := t, tbuflen := m\<rparr>) = pending R w \<and> length t = length (tbuf w) \<and> V k = V (kern w)"
  using assms(2-)
proof (induction n arbitrary: w)
  case 0
  then have "tbuflen w = 4" by simp
  then show ?case using "0.prems" by (intro exI [of _ "kern w"] exI [of _ "tbuf w"] exI [of _ 4]) (simp add: pending_def)
next
  case (Suc n)
  show ?case
  proof (cases "tbuflen w < 4")
    case False
    then have "tbuflen w = 4" using Suc.prems(2) by simp
    then show ?thesis using Suc.prems by (intro exI [of _ "kern w"] exI [of _ "tbuf w"] exI [of _ 4]) (simp add: pending_def)
  next
    case True
    obtain m where m: "tbuflen w = int m" using Suc.prems(1) by (rule nonneg_int_cases)
    have n: "m < 4" "nat (4 - tbuflen w) = 4 - m" using m True by simp_all
    obtain bs k where rd: "os_read K imagefd (4 - m) (kern w) = (Inr bs, k)" "length bs \<le> 4 - m" "bs = [] \<Longrightarrow> R (kern w) = [] \<and> R k = []"
      "V k = V (kern w)" and p: "pending R (w\<lparr>kern := k, tbuf := poke (tbuf w) m bs, tbuflen := tbuflen w + int (length bs)\<rparr>) = pending R w"
      by (rule stream_read [OF assms(1) m, of "4 - m"]) (use n Suc.prems(3) in auto)
    let ?w = "w\<lparr>kern := k, tbuf := poke (tbuf w) m bs, tbuflen := tbuflen w + int (length bs)\<rparr>"
    have step: "magic_read (Suc n) K imagefd w = (if bs = [] then w\<lparr>kern := k\<rparr> else magic_read n K imagefd ?w)"
      using True n(2) rd(1) m by simp
    show ?thesis
    proof (cases "bs = []")
      case True
      then show ?thesis using step rd m n(1) Suc.prems by (intro exI [of _ k] exI [of _ "tbuf w"] exI [of _ "tbuflen w"]) (auto simp: pending_def)
    next
      case False
      have nn: "nat (tbuflen w + int (length bs)) = m + length bs" using m by simp
      have "0 < length bs" "4 - m \<le> Suc n" using False Suc.prems(4) m by simp_all
      then have "4 - (m + length bs) \<le> n" by linarith
      then have "\<exists>k t i. magic_read n K imagefd ?w = ?w\<lparr>kern := k, tbuf := t, tbuflen := i\<rparr> \<and> i = int (min 4 (length (pending R ?w))) \<and>
          pending R (?w\<lparr>kern := k, tbuf := t, tbuflen := i\<rparr>) = pending R ?w \<and> length t = length (tbuf ?w) \<and> V k = V (kern ?w)"
        using Suc.prems n rd(2) m by (intro Suc.IH) (simp_all add: nn)
      then show ?thesis using step False p rd(4) by auto
    qed
  qed
qed

lemma mtd_check_serves:
  assumes "serves_device K mtd fd V P R nand e" and "mtd_flash K fd V bad es" and "length (V (kern w)) < 2147483648" and "2 ^ e \<le> length (V (kern w))"
    and "colon \<notin> set mtd" and "tbuf w = []"
  shows "\<exists>k n s. mtd_check K mtd w = (1, w\<lparr>kern := k, mtdsize := n, erasesize := s, mtdtype_nand := nand, tbuf := replicate (2 ^ e) 0\<rparr>) \<and> V k = V (kern w) \<and> R k = R (kern w)"
proof -
  obtain k where k: "mtd_check_open K mtd True w = (fd, w\<lparr>kern := k, mtdsize := int (length (V (kern w))), erasesize := int (2 ^ e), mtdtype_nand := nand\<rparr>)"
    "V k = V (kern w)" "R k = R (kern w)" using serves_check_open [OF assms(1,3,4)] by blast
  have f: "\<not> fd < 0" "R (os_close K fd k) = R k" using assms(1) by (simp_all add: serves_device_def)
  then show ?thesis using k assms(6) flash_keeps(2) [OF assms(2), of k]
    by (intro exI [of _ "os_close K fd k"] exI [of _ "int (length (V (kern w)))"] exI [of _ "int (2 ^ e)"])
      (simp add: mtd_check_def device_names_single [OF assms(5)] close_fd_def nat_power_eq)
qed

lemma image_check_stream:
  assumes "image_stream K fd imagefd V P R bad es" and "tbuflen w = 0" and "4 \<le> length (tbuf w)" and "4 \<le> length (R (kern w))"
    and "be32_at (R (kern w)) 0 \<noteq> opt_trxmagic w" and "\<not> target_brcm cfg"
  shows "\<exists>k t format. image_check cfg K imagefd mtd w = (Ret (1, format), w\<lparr>kern := k, tbuf := t, tbuflen := 4\<rparr>) \<and> V k = V (kern w) \<and> length t = length (tbuf w) \<and>
    take 4 t @ R k = R (kern w)"
proof -
  have pw: "pending R w = R (kern w)" by (simp add: pending_def assms(2))
  obtain k t where mr: "magic_read 4 K imagefd w = w\<lparr>kern := k, tbuf := t, tbuflen := 4\<rparr>" "pending R (w\<lparr>kern := k, tbuf := t, tbuflen := 4\<rparr>) = R (kern w)"
    "length t = length (tbuf w)" "V k = V (kern w)"
    using magic_read_stream [OF assms(1), of w 4] assms(2-4) pw by auto
  have tk: "take 4 t @ R k = R (kern w)" using mr(2) by (simp add: pending_def)
  have "field 0 4 t = field 0 4 (R (kern w))" using tk [symmetric] mr(3) assms(3) by (simp add: field_def)
  then have "be32_at t 0 \<noteq> opt_trxmagic w" using assms(5) by (simp add: be32_at_def)
  then show ?thesis using mr tk assms(6) by (intro exI [of _ k] exI [of _ t]) (simp add: image_check_def image_format_def Let_def)
qed

lemma mtd_unlock_serves:
  assumes "serves_device K mtd fd V P R nand e" and "mtd_flash K fd V bad es" and "image_stream K fd imagefd V P R bad es"
    and "length (V (kern w)) < 2147483648" and "2 ^ e \<le> length (V (kern w))" and "colon \<notin> set mtd"
  shows "\<exists>k n s. mtd_unlock K mtd w = (Ret 0, w\<lparr>kern := k, mtdsize := n, erasesize := s, mtdtype_nand := nand\<rparr>) \<and> V k = V (kern w) \<and> R k = R (kern w)"
proof -
  obtain k where k: "mtd_check_open K mtd True w = (fd, w\<lparr>kern := k, mtdsize := int (length (V (kern w))), erasesize := int (2 ^ e), mtdtype_nand := nand\<rparr>)"
    "V k = V (kern w)" "R k = R (kern w)" using serves_check_open [OF assms(1,4,5)] by blast
  let ?k = "os_unlock K fd 0 (u32_of_int (int (length (V (kern w))))) k"
  have f: "\<not> fd < 0" "R (os_close K fd ?k) = R ?k" using assms(1) by (simp_all add: serves_device_def)
  then show ?thesis using k flash_keeps(1,2) [OF assms(2)] image_streamD(5) [OF assms(3)]
    by (intro exI [of _ "os_close K fd ?k"] exI [of _ "int (length (V (kern w)))"] exI [of _ "int (2 ^ e)"])
      (simp add: mtd_unlock_def device_names_single [OF assms(6)] close_fd_def)
qed

text \<open>
  C12. \<^verbatim>\<open>mtd write - device\<close>, for one device and without the options \<^verbatim>\<open>-e\<close>, \<^verbatim>\<open>-p\<close>, \<^verbatim>\<open>-n\<close> and \<^verbatim>\<open>-j\<close>, writes the image: on a device without faults with enough good blocks, for an image of at least four bytes that is not a TRX image, however many bytes
  a read of the image gives, the tool ends with status 0. The good blocks of the device, one after the other, then hold the image, padded with \<open>0xff\<close> to whole blocks, and behind it
  what they held before; the bad blocks are as before.
\<close>

theorem mtd_main_write_image:
  assumes "serves_device K mtd fd V P R nand e" and "mtd_flash K fd V bad (2 ^ e)" and "mtd_works K fd V bad (2 ^ e)" and "image_stream K fd 0 V P R bad (2 ^ e)"
    and "nand \<or> (\<forall>b. \<not> bad b)" and "4 \<le> (2 ^ e :: nat)" and "2 ^ e \<le> length (V (kern w))" and "2 ^ e dvd length (V (kern w))" and "length (V (kern w)) < 2147483648"
    and "parse_options opts a0 = Ret a" and "a_erase a = []" and "a_part_offset a = 0" and "\<not> no_erase (a_cfg a)" and "jffs2file (a_cfg a) = None"
    and "tpl_uboot_args_part (a_cfg a) = None" and "\<not> target_brcm (a_cfg a)"
    and "colon \<notin> set mtd" and "tbuf w = []" and "tbuflen w = 0" and "32 \<le> size_bits w"
    and "R (kern w) = img" and "4 \<le> length img" and "be32_at img 0 \<noteq> a_trxmagic a"
    and "length (pad_image (2 ^ e) img) \<le> length (good_data bad (2 ^ e) (V (kern w)) 0 (length (V (kern w))))" and "2 * length (V (kern w)) + 2 \<le> fuel"
  shows "\<exists>w'. mtd_main fuel L J md5sum K a0 opts [bytes_of ''write'', bytes_of ''-'', mtd] w = Some (0, w') \<and>
    good_data bad (2 ^ e) (V (kern w')) 0 (length (V (kern w))) =
      pad_image (2 ^ e) img @ drop (length (pad_image (2 ^ e) img)) (good_data bad (2 ^ e) (V (kern w)) 0 (length (V (kern w)))) \<and>
    (\<forall>i < length (V (kern w)). bad (i div 2 ^ e) \<longrightarrow> V (kern w') ! i = V (kern w) ! i)"
proof -
  let ?d = "V (kern w)" and ?w = "w\<lparr>opt_trxmagic := a_trxmagic a\<rparr>"
  obtain k1 n1 s1 where c: "mtd_check K mtd ?w = (1, ?w\<lparr>kern := k1, mtdsize := n1, erasesize := s1, mtdtype_nand := nand, tbuf := replicate (2 ^ e) 0\<rparr>)" "V k1 = ?d" "R k1 = img"
    using mtd_check_serves [OF assms(1,2), of ?w] assms(7,9,17,18,21) by auto
  let ?w1 = "?w\<lparr>kern := k1, mtdsize := n1, erasesize := s1, mtdtype_nand := nand, tbuf := replicate (2 ^ e) 0\<rparr>"
  obtain k2 t format where i: "image_check (a_cfg a) K 0 mtd ?w1 = (Ret (1, format), ?w1\<lparr>kern := k2, tbuf := t, tbuflen := 4\<rparr>)" "V k2 = ?d" "length t = 2 ^ e" "take 4 t @ R k2 = img"
    using image_check_stream [OF assms(4), of ?w1 "a_cfg a" mtd] assms(6,16,19,22,23) c(2,3) by auto
  let ?w2 = "?w1\<lparr>kern := k2, tbuf := t, tbuflen := 4\<rparr>"
  have prep: "prepare K a CMD_WRITE mtd (bytes_of ''-'') ?w = (Ret (0, format), ?w2)" using c(1) i(1) by (simp add: prepare_def Let_def)
  obtain k3 n3 s3 where u: "mtd_unlock K mtd ?w2 = (Ret 0, ?w2\<lparr>kern := k3, mtdsize := n3, erasesize := s3, mtdtype_nand := nand\<rparr>)" "V k3 = ?d" "R k3 = R k2"
    using mtd_unlock_serves [OF assms(1,2,4), of ?w2] i(2) assms(7,9,17) by auto
  let ?w3 = "?w2\<lparr>kern := k3, mtdsize := n3, erasesize := s3, mtdtype_nand := nand\<rparr>"
  obtain k4 where k4: "mtd_check_open K mtd True ?w3 = (fd, ?w3\<lparr>kern := k4, mtdsize := int (length ?d), erasesize := int (2 ^ e), mtdtype_nand := nand\<rparr>)"
    "V k4 = ?d" "R k4 = R k2" "P k4 = 0" using serves_check_open [OF assms(1), of ?w3] u(2,3) assms(7,9) by auto
  let ?w4 = "?w3\<lparr>kern := k4, mtdsize := int (length ?d), erasesize := int (2 ^ e), mtdtype_nand := nand\<rparr>"
  have op: "opens_flash K mtd ?w3 fd ?w4 V bad e"
    using k4 assms(1,2,5,7,9,20) by (simp add: opens_flash_def serves_device_def)
  have four: "(4 :: int) \<le> 2 ^ e" using assms(6) by (metis of_nat_le_iff of_nat_numeral of_nat_power)
  have pend: "pending R ?w4 = img" using k4(3) i(4) by (simp add: pending_def)
  have "\<exists>w'. mtd_write fuel (a_cfg a) J K format 0 mtd 0 ?w3 = Some (Ret 0, w') \<and> length (V (kern w')) = length (V (kern ?w4)) \<and>
      good_data bad (2 ^ e) (V (kern w')) 0 (length (V (kern ?w4))) = pad_image (2 ^ e) (pending R ?w4) @
        drop (length (pad_image (2 ^ e) (pending R ?w4))) (good_data bad (2 ^ e) (V (kern ?w4)) 0 (length (V (kern ?w4)))) \<and>
      (\<forall>i < length (V (kern ?w4)). bad (i div 2 ^ e) \<longrightarrow> V (kern w') ! i = V (kern ?w4) ! i)"
    by (rule mtd_write_works [OF op assms(3,4,17,13,14,15)]) (use assms(8,24,25) four k4 i(3) pend in simp_all)
  then obtain w' where w': "mtd_write fuel (a_cfg a) J K format 0 mtd 0 ?w3 = Some (Ret 0, w')"
    "good_data bad (2 ^ e) (V (kern w')) 0 (length ?d) = pad_image (2 ^ e) img @ drop (length (pad_image (2 ^ e) img)) (good_data bad (2 ^ e) ?d 0 (length ?d))"
    "\<forall>i < length ?d. bad (i div 2 ^ e) \<longrightarrow> V (kern w') ! i = ?d ! i"
    using k4(2) pend by auto
  have "parse_command (has_resetbc L) (a_cfg a) [bytes_of ''write'', bytes_of ''-'', mtd] = Some (CMD_WRITE, mtd, bytes_of ''-'')"
    by (simp add: parse_command_def bytes_of_def)
  then have "mtd_main fuel L J md5sum K a0 opts [bytes_of ''write'', bytes_of ''-'', mtd] w = Some (0, w')"
    using assms(10-12) prep u(1) w'(1) by (simp add: mtd_main_def run_command_def unlock_then_def exit_status_def)
  then show ?thesis using w'(2,3) by blast
qed

theorem mtd_main_write_image_witness:
  "\<exists>w'. mtd_main 200 nand_links no_jffs2 (\<lambda>f k. None) nand_os nand_args [] [bytes_of ''write'', bytes_of ''-'', [109]]
       ((nand_tool (replicate 96 9) (replicate 40 7))\<lparr>tbuf := []\<rparr>) = Some (0, w') \<and>
     good_data (\<lambda>b. b = 1) 32 (fst (kern w')) 0 96 = replicate 40 7 @ replicate 24 0xff \<and> fst (kern w') ! 32 = 9"
proof -
  let ?w = "(nand_tool (replicate 96 9) (replicate 40 7))\<lparr>tbuf := []\<rparr>"
  have sv: "serves_device nand_os [109] 3 fst (fst \<circ> snd) (snd \<circ> snd) True 5"
    unfolding serves_device_def by (intro conjI allI exI [of _ "(fst (kern w), 0, snd (snd (kern w)))" for w])
      (auto simp: mtd_open_def nand_os_def split: prod.splits)
  have f: "filter (\<lambda>i. i div 32 \<noteq> (1 :: nat)) [0..<96] = [0..<32] @ [64..<96]" by (simp add: upt_rec)
  have l: "length (good_data (\<lambda>b. b = 1) 32 (replicate 96 9) 0 96) = 64" using f by (simp add: good_data_def)
  have be: "be32_at (replicate 40 7) 0 = 0x07070707"
  proof -
    have "field 0 4 (replicate 40 (7 :: byte)) = replicate 4 7" by (simp add: field_def)
    also have "\<dots> = [7, 7, 7, 7]" by (simp add: eval_nat_numeral)
    finally show ?thesis by (simp add: be32_at_def be_val_def)
  qed
  have k: "kern ?w = (replicate 96 9, 0, replicate 40 7)" "tbuf ?w = []" "tbuflen ?w = 0" "size_bits ?w = 32" by (simp_all add: nand_tool_def)
  have a: "a_erase nand_args = []" "a_part_offset nand_args = 0" "\<not> no_erase (a_cfg nand_args)" "jffs2file (a_cfg nand_args) = None"
    "tpl_uboot_args_part (a_cfg nand_args) = None" "\<not> target_brcm (a_cfg nand_args)" "a_trxmagic nand_args = 0x48445230"
    by (simp_all add: nand_args_def nand_cfg_def)
  have "\<exists>w'. mtd_main 200 nand_links no_jffs2 (\<lambda>f k. None) nand_os nand_args [] [bytes_of ''write'', bytes_of ''-'', [109]] ?w = Some (0, w') \<and>
      good_data (\<lambda>b. b = 1) 32 (fst (kern w')) 0 96 = pad_image 32 (replicate 40 7) @
        drop (length (pad_image 32 (replicate 40 7))) (good_data (\<lambda>b. b = 1) 32 (replicate 96 9) 0 96) \<and>
      (\<forall>i < 96. i div 32 = 1 \<longrightarrow> fst (kern w') ! i = replicate 96 9 ! i)"
    using mtd_main_write_image [OF sv, of "\<lambda>b. b = 1" ?w "[]" nand_args nand_args "replicate 40 7" 200 nand_links no_jffs2 "\<lambda>f k. None"]
      nand_flash nand_works nand_stream k a be l by (simp add: colon_def pad_image_def)
  then show ?thesis using l by (auto simp: pad_image_def)
qed

end
