(* ===== verification/Mapcalc.thy ===== *)
theory Mapcalc
  imports Flash_Prelude
begin

text \<open>
  \<^verbatim>\<open>mapcalc\<close> (\<^verbatim>\<open>package/network/ipv6/map/src/mapcalc.c\<close>): from the rules of a provider and the IPv6 prefix a router was given it computes the
  IPv4 address and the ports the router may use (MAP-E, MAP-T and lightweight 4over6).

  Addresses are lists of bytes in the order of the network. The interfaces and prefixes ubus reports are a list, and the options of a rule are
  those \<^verbatim>\<open>getsubopt\<close> finds, with the result of \<^verbatim>\<open>strtoul\<close> or \<^verbatim>\<open>inet_pton\<close>. Instead of printing, a rule gives a record. What the code
  reads behind an address is 0, and what it would copy behind the end of a variable is lost. A length that is passed as a number of bits is
  converted to an unsigned 64 bit number first. A shift by a negative count, undefined in C, shifts by 0.
\<close>

section \<open>Copying and comparing bits\<close>

fun memcmp :: "byte list \<Rightarrow> byte list \<Rightarrow> int" where
  "memcmp (a # as) (b # bs) = (if a = b then memcmp as bs else if a < b then - 1 else 1)"
| "memcmp _ _ = 0"

definition bmemcmp :: "byte list \<Rightarrow> byte list \<Rightarrow> nat \<Rightarrow> int" where
  "bmemcmp a b bits =
     (let bytes = bits div 8; r = bits mod 8; res = memcmp (take bytes a) (take bytes b)
      in if res = 0 \<and> r > 0 then int (unat (drop_bit (8 - r) (arr_get 0 a bytes))) - int (unat (drop_bit (8 - r) (arr_get 0 b bytes))) else res)"

definition bmemcpy :: "byte list \<Rightarrow> byte list \<Rightarrow> nat \<Rightarrow> byte list" where
  "bmemcpy a b bits =
     (let bytes = bits div 8; r = bits mod 8; a1 = poke a 0 (take bytes b)
      in if r > 0
         then let m = push_bit (8 - r) 1 - 1 :: byte
              in a1[bytes := (arr_get 0 a1 bytes AND m) OR (NOT m AND arr_get 0 b bytes)]
         else a1)"

definition be64 :: "byte list \<Rightarrow> 64 word" where
  "be64 bs = fold (\<lambda>b w. push_bit 8 w OR ucast b) bs 0"

definition be64_bytes :: "64 word \<Rightarrow> byte list" where
  "be64_bytes w = map (\<lambda>i. ucast (drop_bit (56 - 8 * i) w)) [0..<8]"

definition bmemcpys64 :: "byte list \<Rightarrow> byte list \<Rightarrow> nat \<Rightarrow> nat \<Rightarrow> byte list" where
  "bmemcpys64 a b frombits nbits =
     (let frombyte = frombits div 8; tobyte = (frombits + nbits) div 8;
          buf = poke (replicate 8 0) 0 (map (arr_get 0 b) [frombyte..<tobyte + 1])
      in bmemcpy a (be64_bytes (push_bit (frombits mod 8) (be64 buf))) nbits)"

section \<open>The prefix of the router\<close>

definition size_bits :: "int \<Rightarrow> nat" where
  "size_bits i = nat (i mod 2 ^ 64)"

type_synonym prefix = "byte list \<times> int"

record interface =
  if_name :: "byte list"
  if_prefix :: "prefix list"
  if_address :: "prefix list"

definition match_one :: "byte list \<Rightarrow> int \<Rightarrow> bool \<Rightarrow> prefix \<Rightarrow> int \<times> byte list \<Rightarrow> int \<times> byte list" where
  "match_one ipv6prefix prefix6len lw4o6 = (\<lambda>(p, m) (pdlen, pd).
     let mask = (if lw4o6 \<and> m = 128 then 64 else m)
     in if pdlen < mask \<and> mask \<ge> prefix6len \<and> bmemcmp p ipv6prefix (size_bits prefix6len) = 0 then (mask, bmemcpy pd p (size_bits mask))
        else if lw4o6 \<and> pdlen < prefix6len \<and> mask < prefix6len \<and> bmemcmp p ipv6prefix (size_bits mask) = 0
        then (prefix6len, bmemcpy pd ipv6prefix (size_bits prefix6len))
        else (pdlen, pd))"

definition match_prefix :: "byte list \<Rightarrow> int \<Rightarrow> bool \<Rightarrow> prefix list \<Rightarrow> int \<times> byte list \<Rightarrow> int \<times> byte list" where
  "match_prefix ipv6prefix prefix6len lw4o6 ps s = fold (match_one ipv6prefix prefix6len lw4o6) ps s"

fun find_pd :: "byte list \<Rightarrow> byte list \<Rightarrow> int \<Rightarrow> bool \<Rightarrow> interface list \<Rightarrow> int \<Rightarrow> byte list \<Rightarrow> byte list \<Rightarrow> int \<times> byte list \<times> byte list" where
  "find_pd arg ipv6prefix prefix6len lw4o6 [] pdlen pd iface = (pdlen, pd, iface)"
| "find_pd arg ipv6prefix prefix6len lw4o6 (c # cs) pdlen pd iface =
     (if arg \<noteq> bytes_of ''*'' \<and> arg \<noteq> if_name c then find_pd arg ipv6prefix prefix6len lw4o6 cs pdlen pd iface
      else
        let s = match_prefix ipv6prefix prefix6len lw4o6 (if_prefix c) (pdlen, pd);
            (n, p) = (if lw4o6 then match_prefix ipv6prefix prefix6len lw4o6 (if_address c) s else s)
        in if n \<ge> 0 then (n, p, if_name c) else find_pd arg ipv6prefix prefix6len lw4o6 cs n p iface)"

section \<open>Rules\<close>

text \<open>The options of a rule; a number is \<^const>\<open>None\<close> when \<^verbatim>\<open>strtoul\<close> sets \<^verbatim>\<open>errno\<close>, an address when it cannot be parsed.\<close>

datatype rule_option =
    OPT_TYPE bool | OPT_FMR | OPT_EALEN "nat option" | OPT_PREFIX4LEN "nat option" | OPT_PREFIX6LEN "nat option"
  | OPT_IPV6PREFIX "byte list option" | OPT_IPV4PREFIX "byte list option" | OPT_OFFSET "nat option" | OPT_PSIDLEN "nat option"
  | OPT_PSID "nat option" | OPT_BR "byte list option" | OPT_DMR "byte list option" | OPT_PD "byte list option" | OPT_PDLEN "nat option" | OPT_INVALID

record rule =
  r_lw4o6 :: bool
  r_fmr :: bool
  r_ealen :: int
  r_prefix4len :: int
  r_prefix6len :: int
  r_pdlen :: int
  r_ipv4prefix :: "byte list"
  r_ipv6prefix :: "byte list"
  r_pd :: "byte list"
  r_offset :: int
  r_psidlen :: int
  r_psid :: int
  r_dmr :: "byte list option"
  r_br :: "byte list option"

definition rule_default :: rule where
  "rule_default =
     \<lparr>r_lw4o6 = False, r_fmr = False, r_ealen = - 1, r_prefix4len = 32, r_prefix6len = - 1, r_pdlen = - 1, r_ipv4prefix = replicate 4 0,
      r_ipv6prefix = replicate 16 0, r_pd = replicate 16 0, r_offset = - 1, r_psidlen = - 1, r_psid = - 1, r_dmr = None, r_br = None\<rparr>"

text \<open>The result of \<^verbatim>\<open>strtoul\<close> is converted to \<open>int\<close> before it is compared with the limit, so that large numbers can pass as negative ones.\<close>

definition subopt_number :: "nat option \<Rightarrow> int \<Rightarrow> int option" where
  "subopt_number v limit = (case v of None \<Rightarrow> None | Some n \<Rightarrow> let i = s32 (u32 n) in if i \<le> limit then Some i else None)"

definition set_number :: "(int \<Rightarrow> rule) \<Rightarrow> rule \<Rightarrow> int option \<Rightarrow> rule" where
  "set_number f r v = (case v of None \<Rightarrow> r | Some i \<Rightarrow> f i)"

fun parse_subopt :: "rule_option \<Rightarrow> rule \<Rightarrow> rule" where
  "parse_subopt (OPT_TYPE b) r = r\<lparr>r_lw4o6 := b\<rparr>"
| "parse_subopt OPT_FMR r = r\<lparr>r_fmr := True\<rparr>"
| "parse_subopt (OPT_EALEN v) r = set_number (\<lambda>i. r\<lparr>r_ealen := i\<rparr>) r (subopt_number v 48)"
| "parse_subopt (OPT_PREFIX4LEN v) r = set_number (\<lambda>i. r\<lparr>r_prefix4len := i\<rparr>) r (subopt_number v 32)"
| "parse_subopt (OPT_PREFIX6LEN v) r = set_number (\<lambda>i. r\<lparr>r_prefix6len := i\<rparr>) r (subopt_number v 128)"
| "parse_subopt (OPT_IPV4PREFIX v) r = (case v of None \<Rightarrow> r | Some a \<Rightarrow> r\<lparr>r_ipv4prefix := a\<rparr>)"
| "parse_subopt (OPT_IPV6PREFIX v) r = (case v of None \<Rightarrow> r | Some a \<Rightarrow> r\<lparr>r_ipv6prefix := a\<rparr>)"
| "parse_subopt (OPT_PD v) r = (case v of None \<Rightarrow> r | Some a \<Rightarrow> r\<lparr>r_pd := a\<rparr>)"
| "parse_subopt (OPT_OFFSET v) r = set_number (\<lambda>i. r\<lparr>r_offset := i\<rparr>) r (subopt_number v 16)"
| "parse_subopt (OPT_PSIDLEN v) r = set_number (\<lambda>i. r\<lparr>r_psidlen := i\<rparr>) r (subopt_number v 16)"
| "parse_subopt (OPT_PDLEN v) r = set_number (\<lambda>i. r\<lparr>r_pdlen := i\<rparr>) r (subopt_number v 128)"
| "parse_subopt (OPT_PSID v) r = set_number (\<lambda>i. r\<lparr>r_psid := i\<rparr>) r (subopt_number v 65535)"
| "parse_subopt (OPT_DMR v) r = r\<lparr>r_dmr := v\<rparr>"
| "parse_subopt (OPT_BR v) r = r\<lparr>r_br := v\<rparr>"
| "parse_subopt OPT_INVALID r = r"

text \<open>The defaults, the prefix of the router, and the lengths that follow from the others.\<close>

definition set_defaults :: "bool \<Rightarrow> rule \<Rightarrow> rule" where
  "set_defaults legacy r =
     (let offset = (if r_offset r < 0 then if r_lw4o6 r then 0 else if legacy then 4 else 6 else r_offset r);
          psidlen = (if r_psidlen r < 0 then 0 else r_psidlen r)
      in if r_lw4o6 r then r\<lparr>r_offset := offset, r_psidlen := psidlen, r_ealen := psidlen\<rparr> else r\<lparr>r_offset := offset\<rparr>)"

definition derive_lengths :: "rule \<Rightarrow> rule" where
  "derive_lengths r =
     (let ealen = (if r_ealen r < 0 \<and> r_pdlen r \<ge> 0 then r_pdlen r - r_prefix6len r else r_ealen r);
          psidlen = ealen - (32 - r_prefix4len r)
      in if r_psidlen r \<le> 0 then r\<lparr>r_ealen := ealen, r_psidlen := (if psidlen < 0 then 0 else psidlen), r_psid := - 1\<rparr>
         else r\<lparr>r_ealen := ealen\<rparr>)"

definition complete_rule :: "bool \<Rightarrow> byte list \<Rightarrow> interface list \<Rightarrow> byte list \<Rightarrow> rule \<Rightarrow> rule \<times> byte list" where
  "complete_rule legacy arg dump iface0 r =
     (let r1 = set_defaults legacy r;
          (pdlen, pd, iface) = (if r_pdlen r1 < 0 then find_pd arg (r_ipv6prefix r1) (r_prefix6len r1) (r_lw4o6 r1) dump (r_pdlen r1) (r_pd r1) iface0
                                else (r_pdlen r1, r_pd r1, iface0))
      in (derive_lengths (r1\<lparr>r_pdlen := pdlen, r_pd := pd\<rparr>), iface))"

definition rule_invalid :: "rule \<Rightarrow> bool" where
  "rule_invalid r \<longleftrightarrow> r_prefix4len r < 0 \<or> r_prefix6len r < 0 \<or> r_ealen r < 0 \<or> r_psidlen r > 16 \<or> r_ealen r < r_psidlen r"

definition be16_bytes :: "int \<Rightarrow> byte list" where
  "be16_bytes i = [word_of_int (i div 256), word_of_int i]"

text \<open>The port set identifier: on the left of 16 bits as a number, and as the two bytes of the address.\<close>

definition calc_psid :: "rule \<Rightarrow> int \<times> byte list" where
  "calc_psid r =
     (let (psid, psid16) = (if r_psid r < 0 \<and> r_psidlen r \<ge> 0 \<and> r_pdlen r \<ge> 0
                            then let b = bmemcpys64 [0, 0] (r_pd r) (nat (r_prefix6len r + r_ealen r - r_psidlen r)) (nat (r_psidlen r))
                                 in (int (be16_at b 0), b)
                            else (r_psid r, [0, 0]))
      in if r_psidlen r > 0
         then let n = 16 - nat (r_psidlen r); p = drop_bit n psid in (push_bit n p, be16_bytes p)
         else (psid, psid16))"

definition be32_bytes :: "nat \<Rightarrow> byte list" where
  "be32_bytes n = rev (le32 n)"

definition calc_ipv4addr :: "rule \<Rightarrow> byte list" where
  "calc_ipv4addr r =
     (if r_pdlen r \<ge> 0 \<or> r_ealen r = r_psidlen r
      then let a = bmemcpys64 (replicate 4 0) (r_pd r) (nat (r_prefix6len r)) (nat (r_ealen r - r_psidlen r))
           in bmemcpy (be32_bytes (drop_bit (nat (r_prefix4len r)) (be32_at a 0))) (r_ipv4prefix r) (nat (r_prefix4len r))
      else replicate 4 0)"

definition calc_addr4len :: "rule \<Rightarrow> int" where
  "calc_addr4len r =
     (if (r_pdlen r \<ge> 0 \<or> r_ealen r = r_psidlen r) \<and> r_prefix4len r + r_ealen r < 32 then r_prefix4len r + r_ealen r else 32)"

definition calc_ipv6addr :: "bool \<Rightarrow> rule \<Rightarrow> byte list \<Rightarrow> byte list \<Rightarrow> byte list" where
  "calc_ipv6addr legacy r ipv4addr psid16 =
     (if r_pdlen r \<ge> 0
      then let v4offset = (if legacy then 9 else 10)
           in bmemcpy (poke (poke (replicate 16 0) v4offset ipv4addr) (v4offset + 4) psid16) (r_pd r) (nat (r_pdlen r))
      else replicate 16 0)"

text \<open>The ranges of ports.\<close>

definition port_range :: "nat \<Rightarrow> nat \<Rightarrow> nat \<Rightarrow> nat \<Rightarrow> (nat \<times> nat) list" where
  "port_range offset psidlen psid k =
     (let start = (k * 2 ^ (16 - offset)) OR (psid div 2 ^ offset);
          e = start + 2 ^ (16 - offset - psidlen) - 1;
          start' = (if start = 0 then 1 else start)
      in if start' \<le> e then [(start', e)] else [])"

definition port_sets :: "nat \<Rightarrow> nat \<Rightarrow> nat \<Rightarrow> (nat \<times> nat) list" where
  "port_sets offset psidlen psid = concat (map (port_range offset psidlen psid) [(if offset \<noteq> 0 then 1 else 0)..<2 ^ offset])"

text \<open>What is printed for a rule: its options and lengths, the prefix and interface of the router with its IPv6 address, its IPv4 address with its
  length unless the address is 0.0.0.0, and the ports.\<close>

record map_result =
  m_rule :: rule
  m_bmr :: "(byte list \<times> byte list) option"
  m_ipv4addr :: "(byte list \<times> int) option"
  m_ports :: "(nat \<times> nat) list option"

definition calc_rule :: "bool \<Rightarrow> byte list \<Rightarrow> interface list \<Rightarrow> byte list \<Rightarrow> rule_option list \<Rightarrow> map_result option \<times> byte list" where
  "calc_rule legacy arg dump iface0 opts =
     (let (r, iface) = complete_rule legacy arg dump iface0 (fold parse_subopt opts rule_default)
      in if rule_invalid r then (None, iface)
         else
           let (psid, psid16) = calc_psid r; a4 = calc_ipv4addr r
           in if r_pdlen r < 0 \<and> \<not> r_fmr r then (None, iface)
              else (Some \<lparr>m_rule = r, m_bmr = (if r_pdlen r \<ge> 0 then Some (iface, calc_ipv6addr legacy r a4 psid16) else None),
                          m_ipv4addr = (if be32_at a4 0 \<noteq> 0 then Some (a4, calc_addr4len r) else None),
                          m_ports = (if r_psidlen r > 0 \<and> psid \<ge> 0 then Some (port_sets (nat (r_offset r)) (nat (r_psidlen r)) (nat psid)) else None)\<rparr>, iface))"

text \<open>The interface that was found last is kept from rule to rule. The status is 1 when a rule was skipped or there is none.\<close>

fun calc_rules :: "bool \<Rightarrow> byte list \<Rightarrow> interface list \<Rightarrow> byte list \<Rightarrow> rule_option list list \<Rightarrow> int \<times> map_result list" where
  "calc_rules legacy arg dump iface [] = (0, [])"
| "calc_rules legacy arg dump iface (x # xs) =
     (let (res, iface') = calc_rule legacy arg dump iface x; (status, rs) = calc_rules legacy arg dump iface' xs
      in case res of None \<Rightarrow> (1, rs) | Some m \<Rightarrow> (status, m # rs))"

definition mapcalc :: "bool \<Rightarrow> byte list \<Rightarrow> interface list \<Rightarrow> rule_option list list \<Rightarrow> int \<times> map_result list" where
  "mapcalc legacy arg dump rules = (if rules = [] then (1, []) else calc_rules legacy arg dump arg rules)"

end
