(* ===== verification/Mapcalc_Bits.thy ===== *)
theory Mapcalc_Bits
  imports Mapcalc
begin

text \<open>
  The routines of \<^verbatim>\<open>mapcalc\<close> that copy and compare bits, with their shifts and masks of bytes, seen on the bits of an address: bit \<open>i\<close> from the left is \<^verbatim>\<open>getbit\<close>,
  and the number in a range of bits is \<^verbatim>\<open>addr_bits\<close>. The ranges of ports are characterised by the bits of a port.
\<close>

section \<open>Bits of an address\<close>

text \<open>Bit \<open>i\<close> of an address, counted from the left.\<close>

definition getbit :: "byte list \<Rightarrow> nat \<Rightarrow> bool" where
  "getbit bs i = bit (arr_get 0 bs (i div 8)) (7 - i mod 8)"

lemma mask_bit: "bit (push_bit n 1 - 1 :: byte) i \<longleftrightarrow> i < n" if "n \<le> 7" "i < 8"
proof -
  have "push_bit n 1 - 1 = (mask n :: byte)" by (simp add: mask_eq_exp_minus_1 push_bit_eq_mult)
  then show ?thesis using that by (simp add: bit_simps)
qed

lemma memcmp_0: "length a = length b \<Longrightarrow> memcmp a b = 0 \<longleftrightarrow> a = b"
  by (induction a b rule: list_induct2) auto

lemma byte_eqI: "(\<And>i. i < 8 \<Longrightarrow> bit a i = bit b i) \<Longrightarrow> a = (b :: byte)"
  by (rule bit_word_eqI) simp

lemma getbit_bmemcpy:
  assumes "n \<le> 8 * length a" and "n \<le> 8 * length b" and "i < 8 * length a"
  shows "getbit (bmemcpy a b n) i = (if i < n then getbit b i else getbit a i)"
proof -
  let ?q = "n div 8" and ?r = "n mod 8"
  have l: "length (take ?q b) = ?q" using assms(2) by simp
  have id: "i div 8 < length a" using assms(3) by simp
  have p: "poke a 0 (take ?q b) ! j = (if j < ?q then b ! j else a ! j)" if "j < length a" for j using that l by (simp add: nth_poke)
  show ?thesis
  proof (cases "?r = 0")
    case True
    then have "i < n \<longleftrightarrow> i div 8 < ?q" using div_mult_mod_eq [of n 8] div_mult_mod_eq [of i 8] mod_less_divisor [of 8 i] by linarith
    then show ?thesis using True id p [OF id] assms(2) by (auto simp: bmemcpy_def getbit_def arr_get_def Let_def)
  next
    case False
    have n: "8 * ?q + ?r = n" by simp
    have qa: "?q < length a" "?q < length b" using n False assms(1,2) by linarith+
    have r: "8 - ?r \<le> 7" using False by simp
    show ?thesis
    proof (cases "i div 8 = ?q")
      case True
      have im: "i mod 8 < 8" by simp
      have lt: "i < n \<longleftrightarrow> 7 - i mod 8 \<ge> 8 - ?r"
      proof -
        have "i < n \<longleftrightarrow> i mod 8 < ?r" using True n div_mult_mod_eq [of i 8] by linarith
        then show ?thesis using im False by linarith
      qed
      have "getbit (bmemcpy a b n) i = bit ((a ! ?q AND (push_bit (8 - ?r) 1 - 1)) OR (NOT (push_bit (8 - ?r) 1 - 1) AND b ! ?q)) (7 - i mod 8)"
        using False True id qa p [OF id] by (simp add: bmemcpy_def getbit_def arr_get_def Let_def)
      also have "\<dots> = (if 7 - i mod 8 < 8 - ?r then bit (a ! ?q) (7 - i mod 8) else bit (b ! ?q) (7 - i mod 8))"
        using mask_bit [OF r, of "7 - i mod 8"] by (simp only: bit_or_iff bit_and_iff bit_not_iff) (auto simp: bit_simps)
      finally show ?thesis using lt True qa id by (auto simp: getbit_def arr_get_def)
    next
      case neq: False
      then have lt: "i < n \<longleftrightarrow> i div 8 < ?q" using n div_mult_mod_eq [of i 8] mod_less_divisor [of 8 i] mod_less_divisor [of 8 n] by linarith
      have "getbit (bmemcpy a b n) i = bit (poke a 0 (take ?q b) ! (i div 8)) (7 - i mod 8)"
        using False neq id by (simp add: bmemcpy_def getbit_def arr_get_def Let_def)
      then show ?thesis using p [OF id] lt assms(2) qa id by (auto simp: getbit_def arr_get_def)
    qed
  qed
qed

lemma size_bits_nat: "0 \<le> i \<Longrightarrow> i \<le> 128 \<Longrightarrow> size_bits i = nat i"
  by (simp add: size_bits_def)

lemma getbit_byte: "k < 8 \<Longrightarrow> getbit c (8 * j + k) = bit (arr_get 0 c j) (7 - k)"
  by (simp add: getbit_def)

lemma getbit_byte': "k < 8 \<Longrightarrow> bit (arr_get 0 c j) k = getbit c (8 * j + (7 - k))"
  by (subst getbit_byte) simp_all

lemma arr_get_eq_getbit: "arr_get 0 a j = arr_get 0 b j \<longleftrightarrow> (\<forall>k < 8. getbit a (8 * j + k) = getbit b (8 * j + k))"
proof
  assume all: "\<forall>k < 8. getbit a (8 * j + k) = getbit b (8 * j + k)"
  show "arr_get 0 a j = arr_get 0 b j"
  proof (rule byte_eqI)
    fix i :: nat assume i: "i < 8"
    have "7 - i < 8" by simp
    then show "bit (arr_get 0 a j) i = bit (arr_get 0 b j) i" unfolding getbit_byte' [OF i] using all by blast
  qed
qed (simp add: getbit_byte)

lemma drop_bit_eq_getbit:
  assumes "0 < r" and "r < 8"
  shows "drop_bit (8 - r) (arr_get 0 a j) = drop_bit (8 - r) (arr_get 0 b j) \<longleftrightarrow> (\<forall>k < r. getbit a (8 * j + k) = getbit b (8 * j + k))"
    (is "?l = ?m \<longleftrightarrow> _")
proof -
  have gb: "getbit c (8 * j + k) = bit (drop_bit (8 - r) (arr_get 0 c j)) (r - 1 - k)" if "k < r" for c k
  proof -
    have "7 - k = 8 - r + (r - 1 - k)" using that assms by linarith
    then show ?thesis using that assms by (simp add: getbit_byte bit_drop_bit_eq)
  qed
  show ?thesis
  proof
    assume "?l = ?m"
    then show "\<forall>k < r. getbit a (8 * j + k) = getbit b (8 * j + k)" by (simp add: gb)
  next
    assume all: "\<forall>k < r. getbit a (8 * j + k) = getbit b (8 * j + k)"
    show "?l = ?m"
    proof (rule byte_eqI)
      fix i :: nat assume i: "i < 8"
      show "bit ?l i = bit ?m i"
      proof (cases "i < r")
        case True
        then have k: "r - 1 - i < r" "r - 1 - (r - 1 - i) = i" by linarith+
        have "bit (drop_bit (8 - r) (arr_get 0 c j)) i = getbit c (8 * j + (r - 1 - i))" for c using gb [OF k(1), of c] unfolding k(2) by (rule sym)
        then show ?thesis using all k(1) by blast
      next
        case False
        then have "8 \<le> 8 - r + i" by linarith
        then have "\<not> bit (arr_get 0 c j :: byte) (8 - r + i)" for c using bit_imp_le_length [of "arr_get 0 c j"] by fastforce
        then show ?thesis by (simp add: bit_drop_bit_eq)
      qed
    qed
  qed
qed

lemma take_eq_getbit:
  assumes "q \<le> length a" and "q \<le> length b"
  shows "take q a = take q b \<longleftrightarrow> (\<forall>i < 8 * q. getbit a i = getbit b i)"
proof -
  have "take q a = take q b \<longleftrightarrow> (\<forall>j < q. arr_get 0 a j = arr_get 0 b j)"
    using assms by (auto simp: list_eq_iff_nth_eq arr_get_def min_def)
  also have "\<dots> \<longleftrightarrow> (\<forall>j < q. \<forall>k < 8. getbit a (8 * j + k) = getbit b (8 * j + k))" by (simp add: arr_get_eq_getbit)
  also have "\<dots> \<longleftrightarrow> (\<forall>i < 8 * q. getbit a i = getbit b i)"
  proof
    assume l: "\<forall>j < q. \<forall>k < 8. getbit a (8 * j + k) = getbit b (8 * j + k)"
    show "\<forall>i < 8 * q. getbit a i = getbit b i"
    proof (intro allI impI)
      fix i assume "i < 8 * q"
      then have "i div 8 < q" "i mod 8 < 8" by auto
      with l have "getbit a (8 * (i div 8) + i mod 8) = getbit b (8 * (i div 8) + i mod 8)" by blast
      then show "getbit a i = getbit b i" by simp
    qed
  qed auto
  finally show ?thesis .
qed

lemma all_less_add: "(\<forall>i < m + r. P i) \<longleftrightarrow> (\<forall>i < m. P i) \<and> (\<forall>k < r. P (m + k))" for m r :: nat
proof (intro iffI conjI allI impI)
  fix i assume a: "(\<forall>i < m. P i) \<and> (\<forall>k < r. P (m + k))" and i: "i < m + r"
  show "P i"
  proof (cases "i < m")
    case False
    then have "i - m < r" "m + (i - m) = i" using i by linarith+
    then show ?thesis using a by metis
  qed (use a in simp)
qed auto

lemma bmemcmp_0:
  assumes "n \<le> 8 * length a" and "n \<le> 8 * length b"
  shows "bmemcmp a b n = 0 \<longleftrightarrow> (\<forall>i < n. getbit a i = getbit b i)"
proof -
  define q r where "q = n div 8" and "r = n mod 8"
  have n: "n = 8 * q + r" and r8: "r < 8" by (simp_all add: q_def r_def)
  have l: "q \<le> length a" "q \<le> length b" using assms n by linarith+
  then have m0: "memcmp (take q a) (take q b) = 0 \<longleftrightarrow> (\<forall>i < 8 * q. getbit a i = getbit b i)"
    by (simp add: memcmp_0 take_eq_getbit)
  show ?thesis
  proof (cases "r = 0")
    case True
    then show ?thesis using m0 n by (simp add: bmemcmp_def Let_def q_def [symmetric] r_def [symmetric])
  next
    case False
    have "bmemcmp a b n = 0 \<longleftrightarrow> memcmp (take q a) (take q b) = 0 \<and> drop_bit (8 - r) (arr_get 0 a q) = drop_bit (8 - r) (arr_get 0 b q)"
      using False by (simp add: bmemcmp_def Let_def q_def [symmetric] r_def [symmetric] word_uint_eq_iff)
    also have "\<dots> \<longleftrightarrow> (\<forall>i < n. getbit a i = getbit b i)"
      unfolding n all_less_add m0 using False r8 by (simp only: drop_bit_eq_getbit neq0_conv)
    finally show ?thesis .
  qed
qed

lemma getbit_snoc: "i < 8 * length bs + 8 \<Longrightarrow> getbit (bs @ [b]) i = (if i < 8 * length bs then getbit bs i else bit b (7 - i mod 8))"
proof -
  assume i: "i < 8 * length bs + 8"
  then have "i div 8 < length bs \<or> i div 8 = length bs" by linarith
  moreover have "i < 8 * length bs \<longleftrightarrow> i div 8 < length bs" by linarith
  ultimately show ?thesis by (auto simp: getbit_def arr_get_def nth_append)
qed

lemma be64_snoc: "be64 (bs @ [b]) = push_bit 8 (be64 bs) OR ucast b"
  by (simp add: be64_def)

lemma snoc_index:
  assumes "i < 8 * Suc n" and "\<not> i < 8 * n"
  shows "8 * Suc n - 1 - i = 7 - i mod 8"
proof -
  have "i div 8 = n" using assms by (intro div_nat_eqI) simp_all
  moreover define m where "m = i mod 8"
  ultimately have "i = 8 * n + m" using mult_div_mod_eq [of 8 i] by simp
  then show ?thesis unfolding m_def [symmetric] by simp
qed

lemma bit_be64: "length bs \<le> 8 \<Longrightarrow> i < 8 * length bs \<Longrightarrow> bit (be64 bs) (8 * length bs - 1 - i) = getbit bs i"
proof (induction bs arbitrary: i rule: rev_induct)
  case (snoc b bs)
  let ?n = "length bs"
  show ?case
  proof (cases "i < 8 * ?n")
    case True
    then have j: "8 * length (bs @ [b]) - 1 - i = (8 * ?n - 1 - i) + 8" by simp
    have l: "(8 * ?n - 1 - i) + 8 < 64" using snoc.prems True by simp
    have "bit (be64 bs) (8 * ?n - 1 - i) = getbit bs i" using snoc True by simp
    then have "bit (be64 (bs @ [b])) ((8 * ?n - 1 - i) + 8) = getbit bs i"
      unfolding be64_snoc bit_or_iff bit_push_bit_iff bit_ucast_iff using l by (auto dest: bit_imp_le_length)
    then show ?thesis unfolding j using True by (simp add: getbit_snoc)
  next
    case False
    then have j: "8 * length (bs @ [b]) - 1 - i = 7 - i mod 8" using snoc.prems(2) snoc_index [of i ?n] by simp
    have "bit (be64 (bs @ [b])) (7 - i mod 8) = bit b (7 - i mod 8)" by (auto simp: be64_snoc bit_simps)
    then show ?thesis unfolding j using False snoc.prems(2) by (simp add: getbit_snoc)
  qed
qed simp

lemma length_be64_bytes [simp]: "length (be64_bytes w) = 8"
  by (simp add: be64_bytes_def)

lemma getbit_be64_bytes: "i < 64 \<Longrightarrow> getbit (be64_bytes w) i = bit w (63 - i)"
proof -
  assume i: "i < 64"
  then have d: "i div 8 < 8" by linarith
  have "56 - 8 * (i div 8) + (7 - i mod 8) = 63 - i" using d mult_div_mod_eq [of 8 i] by linarith
  moreover have "7 - i mod 8 < 8" by simp
  ultimately show ?thesis using d by (simp add: getbit_def be64_bytes_def arr_get_def bit_simps del: diff_less_Suc)
qed

lemma getbit_bmemcpys64:
  assumes "f + n \<le> 8 * length b" and "f mod 8 + n < 64" and "n \<le> 8 * length a" and "i < 8 * length a"
  shows "getbit (bmemcpys64 a b f n) i = (if i < n then getbit b (f + i) else getbit a i)"
proof -
  define q m where "q = f div 8" and "m = f mod 8"
  have f: "f = 8 * q + m" and m: "m < 8" by (simp_all add: q_def m_def)
  define t where "t = (f + n) div 8"
  have "t = q + (m + n) div 8" unfolding t_def f by (simp add: add.assoc)
  moreover have "(m + n) div 8 < 8" using assms(2) unfolding m_def [symmetric] by simp
  ultimately have t: "q \<le> t" "t - q < 8" by simp_all
  define buf where "buf = poke (replicate 8 0) 0 (map (arr_get 0 b) [q..<t + 1])"
  have buf: "arr_get 0 buf j = (if j < t + 1 - q then arr_get 0 b (q + j) else 0)" if "j < 8" for j
    using that t by (auto simp: buf_def nth_poke simp del: upt_Suc)
  have l: "length buf = 8" by (simp add: buf_def)
  have gb: "getbit buf (m + i) = getbit b (f + i)" if "i < n" for i
  proof -
    have mi: "(f + i) div 8 = q + (m + i) div 8" "(f + i) mod 8 = (m + i) mod 8" unfolding f by (simp_all add: add.assoc)
    have le: "(f + i) div 8 \<le> t" unfolding t_def using that by (intro div_le_mono) simp
    have "(m + i) div 8 < t + 1 - q" "(m + i) div 8 < 8" using le mi(1) t by linarith+
    then show ?thesis using buf by (simp add: getbit_def mi)
  qed
  have "bmemcpys64 a b f n = bmemcpy a (be64_bytes (push_bit m (be64 buf))) n"
    by (simp add: bmemcpys64_def Let_def q_def m_def t_def buf_def)
  moreover have "getbit (be64_bytes (push_bit m (be64 buf))) i = getbit b (f + i)" if "i < n" for i
  proof -
    have i: "i < 64" "m + i < 64" using that assms(2) m_def by linarith+
    then have "63 - i - m = 8 * length buf - 1 - (m + i)" "m \<le> 63 - i" using l by simp_all
    then have "getbit (be64_bytes (push_bit m (be64 buf))) i = bit (be64 buf) (8 * length buf - 1 - (m + i))"
      using i by (auto simp: getbit_be64_bytes bit_simps)
    then show ?thesis using bit_be64 [of buf "m + i"] l i gb [OF that] by simp
  qed
  ultimately show ?thesis using assms getbit_bmemcpy [of n a "be64_bytes (push_bit m (be64 buf))" i] by simp
qed

section \<open>Ports\<close>

definition has_port :: "nat \<Rightarrow> (nat \<times> nat) list \<Rightarrow> bool" where
  "has_port p rs \<longleftrightarrow> list_ex (\<lambda>(s, e). s \<le> p \<and> p \<le> e) rs"

lemma div_eq_range: "0 < (m :: nat) \<Longrightarrow> P div m = c \<longleftrightarrow> c * m \<le> P \<and> P \<le> c * m + m - 1"
proof
  assume c: "P div m = c" and m: "0 < m"
  have "c * m + P mod m = P" unfolding c [symmetric] by simp
  moreover have "P mod m < m" using m by simp
  ultimately show "c * m \<le> P \<and> P \<le> c * m + m - 1" by linarith
next
  assume m: "0 < m" and "c * m \<le> P \<and> P \<le> c * m + m - 1"
  then show "P div m = c" by (intro div_nat_eqI) (simp_all add: mult.commute, linarith)
qed

lemma or_disjoint: "b < 2 ^ n \<Longrightarrow> (a * 2 ^ n) OR b = a * 2 ^ n + b" for a b :: nat
proof -
  assume b: "b < 2 ^ n"
  have "\<not> bit b i" if "n \<le> i" for i
  proof -
    have "b < 2 ^ i" using b that by (meson less_le_trans one_le_numeral power_increasing)
    then show ?thesis by (simp add: bit_iff_odd)
  qed
  then have "push_bit n a AND b = 0" by (intro bit_eqI) (auto simp: bit_simps)
  then show ?thesis by (simp add: push_bit_eq_mult disjunctive_add_eq_or)
qed

lemma has_port_from:
  "has_port P (if (if s = 0 then 1 else s) \<le> e then [(if s = 0 then 1 else s, e)] else []) \<longleftrightarrow> 1 \<le> P \<and> s \<le> P \<and> P \<le> e"
  by (auto simp: has_port_def)

lemma in_port_range:
  assumes "offset + psidlen \<le> 16" and "p < 2 ^ psidlen"
  shows "has_port P (port_range offset psidlen (p * 2 ^ (16 - psidlen)) k) \<longleftrightarrow> 1 \<le> P \<and> P div 2 ^ (16 - offset - psidlen) = k * 2 ^ psidlen + p"
proof -
  define m where "m = 16 - offset - psidlen"
  have e: "16 - psidlen = m + offset" "16 - offset = m + psidlen" using assms(1) by (simp_all add: m_def)
  have d: "p * 2 ^ (m + offset) div 2 ^ offset = p * 2 ^ m" by (simp add: power_add mult.assoc [symmetric])
  have "p * 2 ^ m < 2 ^ psidlen * 2 ^ m" using assms(2) by simp
  then have "p * 2 ^ m < 2 ^ (m + psidlen)" by (simp add: power_add mult.commute)
  then have s: "(k * 2 ^ (m + psidlen)) OR (p * 2 ^ (m + offset) div 2 ^ offset) = (k * 2 ^ psidlen + p) * 2 ^ m"
    unfolding d by (simp add: or_disjoint) (simp add: power_add algebra_simps)
  have r: "P div 2 ^ m = c \<longleftrightarrow> c * 2 ^ m \<le> P \<and> P \<le> c * 2 ^ m + 2 ^ m - 1" for c by (rule div_eq_range) simp
  have "port_range offset psidlen (p * 2 ^ (16 - psidlen)) k =
      (let start = (k * 2 ^ psidlen + p) * 2 ^ m; e = start + 2 ^ m - 1; start' = (if start = 0 then 1 else start)
       in if start' \<le> e then [(start', e)] else [])"
    unfolding port_range_def m_def [symmetric] by (simp only: e s)
  then show ?thesis unfolding m_def [symmetric] r Let_def by (simp only: has_port_from)
qed

lemma div_mod_range:
  assumes "p < (b :: nat)"
  shows "(\<exists>k \<in> A. q = k * b + p) \<longleftrightarrow> q div b \<in> A \<and> q mod b = p"
proof
  assume "q div b \<in> A \<and> q mod b = p"
  then show "\<exists>k \<in> A. q = k * b + p" by (intro bexI [of _ "q div b"]) (use div_mult_mod_eq [of q b] in simp_all)
qed (use assms in auto)

lemma in_port_sets:
  assumes "offset + psidlen \<le> 16" and "p < 2 ^ psidlen"
  shows "has_port P (port_sets offset psidlen (p * 2 ^ (16 - psidlen))) \<longleftrightarrow>
    1 \<le> P \<and> P < 65536 \<and> (offset = 0 \<or> 2 ^ (16 - offset) \<le> P) \<and> P div 2 ^ (16 - offset - psidlen) mod 2 ^ psidlen = p"
proof -
  define m k0 where "m = 16 - offset - psidlen" and "k0 = (if offset \<noteq> 0 then 1 else 0 :: nat)"
  let ?q = "P div 2 ^ m"
  have e: "16 - offset = m + psidlen" using assms(1) by (simp add: m_def)
  have "has_port P (port_sets offset psidlen (p * 2 ^ (16 - psidlen))) \<longleftrightarrow> (\<exists>k \<in> {k0..<2 ^ offset}. has_port P (port_range offset psidlen (p * 2 ^ (16 - psidlen)) k))"
    by (auto simp: has_port_def port_sets_def list_ex_iff k0_def split: if_splits)
  also have "\<dots> \<longleftrightarrow> 1 \<le> P \<and> (\<exists>k \<in> {k0..<2 ^ offset}. ?q = k * 2 ^ psidlen + p)" using in_port_range [OF assms] by (auto simp: m_def)
  also have "(\<exists>k \<in> {k0..<2 ^ offset}. ?q = k * 2 ^ psidlen + p) \<longleftrightarrow> ?q div 2 ^ psidlen \<in> {k0..<2 ^ offset} \<and> ?q mod 2 ^ psidlen = p"
    using assms(2) by (rule div_mod_range)
  also have "?q div 2 ^ psidlen = P div 2 ^ (m + psidlen)" by (simp add: div_mult2_eq [symmetric] power_add)
  also have "P div 2 ^ (m + psidlen) \<in> {k0..<2 ^ offset} \<longleftrightarrow> P < 65536 \<and> (offset = 0 \<or> 2 ^ (16 - offset) \<le> P)"
  proof -
    have "P div 2 ^ (m + psidlen) < 2 ^ offset \<longleftrightarrow> P < 2 ^ offset * 2 ^ (m + psidlen)" by (simp add: div_less_iff_less_mult)
    also have "(2 :: nat) ^ offset * 2 ^ (m + psidlen) = 2 ^ 16" using assms(1) by (simp add: power_add [symmetric] m_def)
    finally have a: "P div 2 ^ (m + psidlen) < 2 ^ offset \<longleftrightarrow> P < 65536" by simp
    have "1 \<le> P div 2 ^ (m + psidlen) \<longleftrightarrow> 1 * 2 ^ (m + psidlen) \<le> P" by (rule less_eq_div_iff_mult_less_eq) simp
    then show ?thesis using a e by (auto simp: k0_def)
  qed
  finally show ?thesis unfolding m_def by blast
qed

section \<open>Bits of an address as a number\<close>

text \<open>The number in the \<open>n\<close> bits from bit \<open>f\<close>.\<close>

fun addr_bits :: "byte list \<Rightarrow> nat \<Rightarrow> nat \<Rightarrow> nat" where
  "addr_bits bs f 0 = 0"
| "addr_bits bs f (Suc n) = 2 * addr_bits bs f n + of_bool (getbit bs (f + n))"

lemma addr_bits_cong: "(\<And>i. i < n \<Longrightarrow> getbit a (f + i) = getbit b (g + i)) \<Longrightarrow> addr_bits a f n = addr_bits b g n"
  by (induction n) simp_all

lemma addr_bits_less: "addr_bits bs f n < 2 ^ n"
  by (induction n) auto

lemma addr_bits_add: "addr_bits bs f (m + n) = addr_bits bs f m * 2 ^ n + addr_bits bs (f + m) n"
  by (induction n) (simp_all add: add.assoc)

lemma addr_bits_0: "(\<And>i. i < n \<Longrightarrow> \<not> getbit a (f + i)) \<Longrightarrow> addr_bits a f n = 0"
  by (induction n) simp_all

lemma addr_bits_eq_iff: "addr_bits a f n = addr_bits b g n \<longleftrightarrow> (\<forall>i < n. getbit a (f + i) = getbit b (g + i))"
proof (induction n)
  case (Suc n)
  have "2 * x + of_bool p = 2 * y + of_bool q \<longleftrightarrow> x = y \<and> p = q" for x y :: nat and p q by (cases p; cases q; simp; presburger)
  then show ?case by (simp add: Suc less_Suc_eq) blast
qed simp

lemma addr_bits_part: "n \<le> 8 \<Longrightarrow> addr_bits bs (8 * j) n = unat (arr_get 0 bs j) div 2 ^ (8 - n)"
proof (induction n)
  case 0
  then show ?case using unsigned_less [of "arr_get 0 bs j", where 'a = nat] by simp
next
  case (Suc n)
  let ?x = "unat (arr_get 0 bs j)" and ?k = "7 - n"
  have k: "8 - n = Suc ?k" "8 - Suc n = ?k" using Suc.prems by simp_all
  have "getbit bs (8 * j + n) \<longleftrightarrow> odd (?x div 2 ^ ?k)"
    using Suc.prems by (simp add: getbit_byte bit_unsigned_iff flip: bit_iff_odd)
  moreover have "addr_bits bs (8 * j) n = ?x div 2 ^ ?k div 2" using Suc unfolding k by (simp add: div_mult2_eq [symmetric] mult.commute)
  moreover have "2 * (y div 2) + of_bool (odd y) = y" for y :: nat by simp
  ultimately show ?case unfolding k by simp
qed

lemma addr_bits_byte: "addr_bits bs (8 * j) 8 = unat (arr_get 0 bs j)"
  by (simp add: addr_bits_part)

lemma be_val_addr_bits: "be_val bs = addr_bits bs 0 (8 * length bs)"
proof (induction bs rule: rev_induct)
  case (snoc b bs)
  have "addr_bits (bs @ [b]) 0 (8 * length bs) = addr_bits bs 0 (8 * length bs)"
    by (rule addr_bits_cong) (simp add: getbit_snoc)
  moreover have "addr_bits (bs @ [b]) (8 * length bs) 8 = unat b" by (simp add: addr_bits_byte)
  ultimately show ?case using addr_bits_add [of "bs @ [b]" 0 "8 * length bs" 8] snoc by (simp add: be_val_def add.commute)
qed (simp add: be_val_def)

lemma be_at_addr_bits:
  "length b = 2 \<Longrightarrow> be16_at b 0 = addr_bits b 0 16"
  "length b = 4 \<Longrightarrow> be32_at b 0 = addr_bits b 0 32"
  by (simp_all add: be16_at_def be32_at_def field_def be_val_addr_bits)

lemma length_bmemcpy [simp]: "length (bmemcpy a b n) = length a"
  by (simp add: bmemcpy_def Let_def)

lemma length_bmemcpys64 [simp]: "length (bmemcpys64 a b f n) = length a"
  by (simp add: bmemcpys64_def Let_def)

lemma getbit_zeros [simp]: "\<not> getbit (replicate n 0) i"
  by (simp add: getbit_def arr_get_def)

lemma be32_bytes_val: "x < 4294967296 \<Longrightarrow> addr_bits (be32_bytes x) 0 32 = x"
  using be_val_addr_bits [of "be32_bytes x"] by (simp add: be32_bytes_def be_val_def)

lemma copied_bits:
  assumes "f + n \<le> 8 * length b" and "n < 57" and "n \<le> 8 * l"
  shows "addr_bits (bmemcpys64 (replicate l 0) b f n) 0 (8 * l) = addr_bits b f n * 2 ^ (8 * l - n)"
proof -
  let ?c = "bmemcpys64 (replicate l 0) b f n"
  have m: "f mod 8 + n < 64" using assms(2) mod_less_divisor [of 8 f] by linarith
  have g: "getbit ?c i = (i < n \<and> getbit b (f + i))" if "i < 8 * l" for i
    using getbit_bmemcpys64 [of f n b "replicate l 0" i] assms m that by simp
  have "addr_bits ?c 0 n = addr_bits b f n" using assms(3) by (intro addr_bits_cong) (simp add: g)
  moreover have "addr_bits ?c n (8 * l - n) = 0" by (intro addr_bits_0) (simp add: g)
  ultimately show ?thesis using addr_bits_add [of ?c 0 n "8 * l - n"] assms(3) by simp
qed

end
