(* ===== verification/Mapcalc_Props.thy ===== *)
theory Mapcalc_Props
  imports Mapcalc_Bits
begin

text \<open>
  What \<^verbatim>\<open>mapcalc\<close> computes: the address and the ports of a router are those of RFC 7597, the search finds the longest prefix, and no two routers share a port of
  an address. The rule of the examples is that of the RFC.
\<close>

section \<open>The address and the port set identifier\<close>

lemma calc_psid_bits:
  assumes "r_psid r < 0" and "0 < r_psidlen r" and "r_psidlen r \<le> 16" and "0 \<le> r_pdlen r" and "0 \<le> r_prefix6len r" and "r_psidlen r \<le> r_ealen r"
    and "length (r_pd r) = 16" and "r_prefix6len r + r_ealen r \<le> 128"
  defines "p \<equiv> addr_bits (r_pd r) (nat (r_prefix6len r + r_ealen r - r_psidlen r)) (nat (r_psidlen r))"
  shows "calc_psid r = (int (p * 2 ^ (16 - nat (r_psidlen r))), be16_bytes (int p))"
proof -
  let ?l = "nat (r_psidlen r)" and ?f = "nat (r_prefix6len r + r_ealen r - r_psidlen r)"
  let ?b = "bmemcpys64 [0, 0] (r_pd r) ?f ?l" and ?n = "16 - nat (r_psidlen r)"
  have z: "[0, 0] = replicate 2 (0 :: byte)" by (simp add: numeral_2_eq_2)
  have "addr_bits ?b 0 (8 * 2) = p * 2 ^ (8 * 2 - ?l)" unfolding z p_def by (rule copied_bits) (use assms in simp_all)
  then have "be16_at ?b 0 = p * 2 ^ ?n" using be_at_addr_bits(1) [of ?b] by simp
  moreover have "drop_bit ?n (int (p * 2 ^ ?n)) = int p" by (simp add: drop_bit_eq_div)
  ultimately show ?thesis using assms(1-4) by (simp add: calc_psid_def Let_def push_bit_eq_mult)
qed

lemma calc_ipv4addr_bits:
  assumes "0 \<le> r_pdlen r" and "0 \<le> r_prefix6len r" and "0 \<le> r_prefix4len r" and "0 \<le> r_psidlen r" and "r_psidlen r \<le> r_ealen r"
    and "r_prefix4len r + r_ealen r - r_psidlen r \<le> 32" and "r_prefix6len r + r_ealen r \<le> 128"
    and "length (r_pd r) = 16" and "length (r_ipv4prefix r) = 4"
  defines "p4 \<equiv> nat (r_prefix4len r)" and "n \<equiv> nat (r_ealen r - r_psidlen r)"
  shows "be32_at (calc_ipv4addr r) 0 =
    addr_bits (r_ipv4prefix r) 0 p4 * 2 ^ (32 - p4) + addr_bits (r_pd r) (nat (r_prefix6len r)) n * 2 ^ (32 - p4 - n)"
proof -
  have pn: "p4 + n \<le> 32" using assms by (simp add: p4_def n_def)
  let ?v = "addr_bits (r_pd r) (nat (r_prefix6len r)) n" and ?a = "bmemcpys64 (replicate 4 0) (r_pd r) (nat (r_prefix6len r)) n"
  define x where "x = ?v * 2 ^ (32 - p4 - n)"
  have "addr_bits ?a 0 (8 * 4) = ?v * 2 ^ (8 * 4 - n)" by (rule copied_bits) (use assms pn in \<open>simp_all add: n_def p4_def\<close>)
  then have "be32_at ?a 0 = ?v * 2 ^ (32 - n)" using be_at_addr_bits(2) [of ?a] by simp
  moreover have "?v * 2 ^ (32 - n) = x * 2 ^ p4" unfolding x_def using pn by (simp add: mult.assoc power_add [symmetric])
  ultimately have d: "drop_bit p4 (be32_at ?a 0) = x" by (simp add: drop_bit_eq_div)
  have "?v * 2 ^ (32 - p4 - n) < 2 ^ n * 2 ^ (32 - p4 - n)" using addr_bits_less by simp
  then have xl: "x < 2 ^ (32 - p4)" unfolding x_def using pn by (simp add: power_add [symmetric])
  also have "\<dots> \<le> 2 ^ 32" by (rule power_increasing) simp_all
  finally have x32: "addr_bits (be32_bytes x) 0 32 = x" by (simp add: be32_bytes_val)
  have lx: "length (be32_bytes x) = 4" by (simp add: be32_bytes_def)
  have x: "addr_bits (be32_bytes x) p4 (32 - p4) = x"
  proof -
    have "x = addr_bits (be32_bytes x) 0 p4 * 2 ^ (32 - p4) + addr_bits (be32_bytes x) p4 (32 - p4)"
      using addr_bits_add [of "be32_bytes x" 0 p4 "32 - p4"] pn x32 by simp
    moreover from this have "addr_bits (be32_bytes x) 0 p4 = 0" using xl by (metis add_lessD1 less_one mult_less_cancel2 mult_1 not_gr_zero)
    ultimately show ?thesis by simp
  qed
  let ?r = "bmemcpy (be32_bytes x) (r_ipv4prefix r) p4"
  have g: "getbit ?r i = (if i < p4 then getbit (r_ipv4prefix r) i else getbit (be32_bytes x) i)" if "i < 32" for i
    using getbit_bmemcpy [of p4 "be32_bytes x" "r_ipv4prefix r" i] pn lx assms that by simp
  have "addr_bits ?r 0 p4 = addr_bits (r_ipv4prefix r) 0 p4" using pn by (intro addr_bits_cong) (simp add: g)
  moreover have "addr_bits ?r p4 (32 - p4) = addr_bits (be32_bytes x) p4 (32 - p4)" using pn by (intro addr_bits_cong) (simp add: g)
  ultimately have "addr_bits ?r 0 32 = addr_bits (r_ipv4prefix r) 0 p4 * 2 ^ (32 - p4) + x"
    using addr_bits_add [of ?r 0 p4 "32 - p4"] pn x by simp
  moreover have "calc_ipv4addr r = ?r" using assms(1) d by (simp add: calc_ipv4addr_def Let_def n_def p4_def)
  ultimately show ?thesis using be_at_addr_bits(2) [of ?r] lx by (simp add: x_def)
qed

section \<open>The prefix that is found\<close>

text \<open>A prefix belongs to a rule when it is not shorter than the IPv6 prefix of the rule and starts with it.\<close>

definition belongs :: "byte list \<Rightarrow> int \<Rightarrow> prefix \<Rightarrow> bool" where
  "belongs v6 p6 = (\<lambda>(p, m). p6 \<le> m \<and> (\<forall>i < nat p6. getbit p i = getbit v6 i))"

definition prefix_ok :: "prefix \<Rightarrow> bool" where
  "prefix_ok = (\<lambda>(p, m). length p = 16 \<and> m \<le> 128)"

definition dump_ok :: "interface list \<Rightarrow> bool" where
  "dump_ok dump \<longleftrightarrow> (\<forall>c \<in> set dump. list_all prefix_ok (if_prefix c) \<and> list_all prefix_ok (if_address c))"

lemma getbit_bmemcpy16:
  "length a = 16 \<Longrightarrow> length b = 16 \<Longrightarrow> m \<le> 128 \<Longrightarrow> i < nat m \<Longrightarrow> getbit (bmemcpy a b (nat m)) i = getbit b i"
  by (subst getbit_bmemcpy) simp_all

lemma bmemcmp_belongs:
  assumes "length p = 16" and "length v6 = 16" and "0 \<le> p6" and "p6 \<le> 128"
  shows "bmemcmp p v6 (size_bits p6) = 0 \<longleftrightarrow> (\<forall>i < nat p6. getbit p i = getbit v6 i)"
  using assms by (simp add: size_bits_nat bmemcmp_0)

text \<open>The state of the search: no prefix yet, or one that belongs to the rule.\<close>

definition pd_state :: "byte list \<Rightarrow> int \<Rightarrow> int \<times> byte list \<Rightarrow> bool" where
  "pd_state v6 p6 = (\<lambda>(n, pd). length pd = 16 \<and> n \<le> 128 \<and> (0 \<le> n \<longrightarrow> belongs v6 p6 (pd, n)))"

lemma match_one_state:
  assumes "pd_state v6 p6 s" and "prefix_ok x" and "length v6 = 16" and "0 \<le> p6" and "p6 \<le> 128"
  shows "pd_state v6 p6 (match_one v6 p6 lw x s)"
proof -
  obtain p m n pd where x: "x = (p, m)" and s: "s = (n, pd)" by (cases x, cases s)
  define k where "k = (if lw \<and> m = 128 then 64 else m)"
  have k: "k \<le> 128" "length p = 16" "length pd = 16" using assms x s by (auto simp: k_def prefix_ok_def pd_state_def)
  have a: "pd_state v6 p6 (k, bmemcpy pd p (size_bits k))" if "p6 \<le> k" "bmemcmp p v6 (size_bits p6) = 0"
    using that assms k bmemcmp_belongs [OF k(2) assms(3,4,5)] by (auto simp: pd_state_def belongs_def size_bits_nat getbit_bmemcpy16)
  have b: "pd_state v6 p6 (p6, bmemcpy pd v6 (size_bits p6))" using assms k by (auto simp: pd_state_def belongs_def size_bits_nat getbit_bmemcpy16)
  show ?thesis using a b assms(1) unfolding x s by (simp add: match_one_def Let_def k_def [symmetric])
qed

lemma match_prefix_state:
  assumes "length v6 = 16" and "0 \<le> p6" and "p6 \<le> 128"
  shows "pd_state v6 p6 s \<Longrightarrow> list_all prefix_ok ps \<Longrightarrow> pd_state v6 p6 (match_prefix v6 p6 lw ps s)"
  by (induction ps arbitrary: s) (simp_all add: match_prefix_def match_one_state assms)

text \<open>Without lightweight 4over6 the longest of them is taken.\<close>

definition longest :: "byte list \<Rightarrow> int \<Rightarrow> prefix list \<Rightarrow> int \<times> byte list \<Rightarrow> bool" where
  "longest v6 p6 ps = (\<lambda>(n, pd). (\<forall>x \<in> set ps. belongs v6 p6 x \<longrightarrow> snd x \<le> n) \<and>
     (0 \<le> n \<longrightarrow> (\<exists>p. (p, n) \<in> set ps \<and> (\<forall>i < nat n. getbit pd i = getbit p i))))"

lemma match_one_longest:
  assumes "longest v6 p6 ps s" and "pd_state v6 p6 s" and "prefix_ok x" and "length v6 = 16" and "0 \<le> p6" and "p6 \<le> 128"
  shows "longest v6 p6 (ps @ [x]) (match_one v6 p6 False x s)"
proof -
  obtain p m n pd where x: "x = (p, m)" and s: "s = (n, pd)" by (cases x, cases s)
  have k: "m \<le> 128" "length p = 16" "length pd = 16" using assms x s by (auto simp: prefix_ok_def pd_state_def)
  show ?thesis
  proof (cases "n < m \<and> belongs v6 p6 x")
    case True
    then have "match_one v6 p6 False x s = (m, bmemcpy pd p (nat m))"
      using bmemcmp_belongs [OF k(2) assms(4,5,6)] assms(5) k by (simp add: match_one_def x s belongs_def size_bits_nat)
    then show ?thesis using True assms(1) k unfolding x s
      by (auto simp: longest_def getbit_bmemcpy16 intro!: exI [of _ p] dest: bspec less_imp_le order_trans)
  next
    case False
    then have "match_one v6 p6 False x s = s"
      using bmemcmp_belongs [OF k(2) assms(4,5,6)] by (auto simp: match_one_def x s belongs_def)
    then show ?thesis using False assms(1) unfolding x s by (auto simp: longest_def)
  qed
qed

lemma match_prefix_longest:
  assumes "length v6 = 16" and "0 \<le> p6" and "p6 \<le> 128"
  shows "longest v6 p6 qs s \<Longrightarrow> pd_state v6 p6 s \<Longrightarrow> list_all prefix_ok ps \<Longrightarrow> longest v6 p6 (qs @ ps) (match_prefix v6 p6 False ps s)"
proof (induction ps arbitrary: s qs)
  case (Cons x ps)
  then have "longest v6 p6 (qs @ [x]) (match_one v6 p6 False x s)" "pd_state v6 p6 (match_one v6 p6 False x s)"
    using match_one_longest match_one_state assms by simp_all
  then show ?case using Cons.IH [of "qs @ [x]" "match_one v6 p6 False x s"] Cons.prems by (simp add: match_prefix_def)
qed (simp add: match_prefix_def)

definition candidate :: "byte list \<Rightarrow> byte list \<Rightarrow> int \<Rightarrow> interface \<Rightarrow> bool" where
  "candidate arg v6 p6 c \<longleftrightarrow> (arg = bytes_of ''*'' \<or> arg = if_name c) \<and> list_ex (belongs v6 p6) (if_prefix c)"

lemma longest_belongs:
  assumes "longest v6 p6 ps (n, pd)" and "pd_state v6 p6 (n, pd)" and "0 \<le> p6"
  shows "0 \<le> n \<longleftrightarrow> list_ex (belongs v6 p6) ps"
proof
  assume n: "0 \<le> n"
  then obtain p where p: "(p, n) \<in> set ps" "\<forall>i < nat n. getbit pd i = getbit p i" using assms(1) by (auto simp: longest_def)
  have "belongs v6 p6 (pd, n)" using assms(2) n by (simp add: pd_state_def)
  then have "belongs v6 p6 (p, n)" using p(2) by (auto simp: belongs_def)
  then show "list_ex (belongs v6 p6) ps" using p(1) by (auto simp: list_ex_iff)
next
  assume "list_ex (belongs v6 p6) ps"
  then obtain x where x: "x \<in> set ps" "belongs v6 p6 x" by (auto simp: list_ex_iff)
  then have "snd x \<le> n" "p6 \<le> snd x" using assms(1) by (auto simp: longest_def belongs_def)
  then show "0 \<le> n" using assms(3) by simp
qed

lemma find_pd_state:
  assumes "length v6 = 16" and "0 \<le> p6" and "p6 \<le> 128"
  shows "find_pd arg v6 p6 lw dump n0 pd0 i0 = (n, pd, i) \<Longrightarrow> dump_ok dump \<Longrightarrow> pd_state v6 p6 (n0, pd0) \<Longrightarrow> pd_state v6 p6 (n, pd)"
proof (induction dump arbitrary: n0 pd0)
  case (Cons c cs)
  let ?s = "match_prefix v6 p6 lw (if_prefix c) (n0, pd0)"
  let ?t = "if lw then match_prefix v6 p6 lw (if_address c) ?s else ?s"
  have ok: "dump_ok cs" "list_all prefix_ok (if_prefix c)" "list_all prefix_ok (if_address c)" using Cons.prems(2) by (simp_all add: dump_ok_def)
  then have "pd_state v6 p6 ?t" using Cons.prems(3) by (simp add: match_prefix_state [OF assms])
  then show ?case using Cons.IH ok(1) Cons.prems by (auto simp: Let_def split: if_splits prod.splits)
qed simp

lemma find_pd_first:
  assumes "length v6 = 16" and "0 \<le> p6" and "p6 \<le> 128"
  shows "find_pd arg v6 p6 False dump n0 pd0 i0 = (n, pd, i) \<Longrightarrow> dump_ok dump \<Longrightarrow> pd_state v6 p6 (n0, pd0) \<Longrightarrow> n0 < 0 \<Longrightarrow>
    (case filter (candidate arg v6 p6) dump of [] \<Rightarrow> n < 0 \<and> i = i0 | c # _ \<Rightarrow> i = if_name c \<and> 0 \<le> n \<and> longest v6 p6 (if_prefix c) (n, pd))"
proof (induction dump arbitrary: n0 pd0)
  case (Cons c cs)
  obtain k q where s: "match_prefix v6 p6 False (if_prefix c) (n0, pd0) = (k, q)" by (cases "match_prefix v6 p6 False (if_prefix c) (n0, pd0)")
  have ok: "dump_ok cs" "list_all prefix_ok (if_prefix c)" using Cons.prems(2) by (simp_all add: dump_ok_def)
  have st: "pd_state v6 p6 (k, q)" using match_prefix_state [OF assms Cons.prems(3) ok(2), of False] s by simp
  have "longest v6 p6 [] (n0, pd0)" using Cons.prems(4) by (simp add: longest_def)
  then have lo: "longest v6 p6 (if_prefix c) (k, q)" using match_prefix_longest [OF assms _ Cons.prems(3) ok(2), of "[]"] s by simp
  show ?case
  proof (cases "arg \<noteq> bytes_of ''*'' \<and> arg \<noteq> if_name c")
    case True
    then show ?thesis using Cons.IH [OF _ ok(1) Cons.prems(3,4)] Cons.prems(1) by (simp add: candidate_def)
  next
    case False
    then have c: "candidate arg v6 p6 c \<longleftrightarrow> 0 \<le> k" using longest_belongs [OF lo st assms(2)] by (auto simp: candidate_def)
    have step: "find_pd arg v6 p6 False (c # cs) n0 pd0 i0 = (if 0 \<le> k then (k, q, if_name c) else find_pd arg v6 p6 False cs k q i0)"
      unfolding find_pd.simps if_not_P [OF False] by (simp add: s)
    show ?thesis
    proof (cases "0 \<le> k")
      case True
      then show ?thesis using Cons.prems(1) lo c unfolding step by simp
    next
      case neg: False
      then have "find_pd arg v6 p6 False cs k q i0 = (n, pd, i)" using Cons.prems(1) unfolding step by simp
      then show ?thesis using Cons.IH [OF _ ok(1) st] neg c by simp
    qed
  qed
qed simp

section \<open>The rule that is used\<close>

fun option_ok :: "rule_option \<Rightarrow> bool" where
  "option_ok (OPT_IPV6PREFIX (Some a)) = (length a = 16)"
| "option_ok (OPT_PD (Some a)) = (length a = 16)"
| "option_ok (OPT_IPV4PREFIX (Some a)) = (length a = 4)"
| "option_ok _ = True"

definition rule_ok :: "rule \<Rightarrow> bool" where
  "rule_ok r \<longleftrightarrow> length (r_ipv4prefix r) = 4 \<and> length (r_ipv6prefix r) = 16 \<and> length (r_pd r) = 16 \<and> r_prefix4len r \<le> 32 \<and> r_prefix6len r \<le> 128 \<and>
     r_ealen r \<le> 48 \<and> r_offset r \<le> 16 \<and> r_psidlen r \<le> 16 \<and> r_pdlen r \<le> 128 \<and> r_psid r \<le> 65535"

lemma rule_default_ok: "rule_ok rule_default"
  by (simp add: rule_ok_def rule_default_def)

lemma subopt_number_le: "subopt_number v l = Some i \<Longrightarrow> i \<le> l"
  by (auto simp: subopt_number_def Let_def split: option.splits if_splits)

lemma set_number_ok: "rule_ok r \<Longrightarrow> (\<And>i. i \<le> l \<Longrightarrow> rule_ok (f i)) \<Longrightarrow> rule_ok (set_number f r (subopt_number v l))"
  using subopt_number_le [of v l] by (auto simp: set_number_def split: option.splits)

lemma parse_subopt_ok: "rule_ok r \<Longrightarrow> option_ok x \<Longrightarrow> rule_ok (parse_subopt x r)"
  by (cases x) (auto simp: rule_ok_def split: option.splits intro!: set_number_ok [unfolded rule_ok_def])

lemma parse_subopts_ok: "rule_ok r \<Longrightarrow> list_all option_ok xs \<Longrightarrow> rule_ok (fold parse_subopt xs r)"
  by (induction xs arbitrary: r) (simp_all add: parse_subopt_ok)

lemma set_defaults_keeps [simp]:
  "r_ipv4prefix (set_defaults legacy r) = r_ipv4prefix r" "r_ipv6prefix (set_defaults legacy r) = r_ipv6prefix r"
  "r_prefix4len (set_defaults legacy r) = r_prefix4len r" "r_prefix6len (set_defaults legacy r) = r_prefix6len r"
  "r_lw4o6 (set_defaults legacy r) = r_lw4o6 r" "r_fmr (set_defaults legacy r) = r_fmr r"
  "r_pdlen (set_defaults legacy r) = r_pdlen r" "r_pd (set_defaults legacy r) = r_pd r"
  by (simp_all add: set_defaults_def Let_def)

lemma set_defaults_offset: "0 \<le> r_offset (set_defaults legacy r)"
  by (simp add: set_defaults_def Let_def)

lemma derive_lengths_keeps [simp]:
  "r_ipv4prefix (derive_lengths r) = r_ipv4prefix r" "r_ipv6prefix (derive_lengths r) = r_ipv6prefix r"
  "r_prefix4len (derive_lengths r) = r_prefix4len r" "r_prefix6len (derive_lengths r) = r_prefix6len r"
  "r_lw4o6 (derive_lengths r) = r_lw4o6 r" "r_fmr (derive_lengths r) = r_fmr r"
  "r_pdlen (derive_lengths r) = r_pdlen r" "r_pd (derive_lengths r) = r_pd r" "r_offset (derive_lengths r) = r_offset r"
  by (simp_all add: derive_lengths_def Let_def)

lemma derive_lengths_psidlen: "0 \<le> r_psidlen (derive_lengths r)"
  by (simp add: derive_lengths_def Let_def)

lemma derive_lengths_pd: "derive_lengths (r\<lparr>r_pdlen := n, r_pd := x\<rparr>) = (derive_lengths (r\<lparr>r_pdlen := n, r_pd := y\<rparr>))\<lparr>r_pd := x\<rparr>"
  by (simp add: derive_lengths_def Let_def)

lemma complete_rule_derive:
  assumes "complete_rule legacy arg dump i r0 = (r, j)"
  shows "r = derive_lengths ((set_defaults legacy r0)\<lparr>r_pdlen := r_pdlen r, r_pd := r_pd r\<rparr>)"
    and "r_pdlen r0 < 0 \<Longrightarrow> find_pd arg (r_ipv6prefix r0) (r_prefix6len r0) (r_lw4o6 r0) dump (r_pdlen r0) (r_pd r0) i = (r_pdlen r, r_pd r, j)"
    and "\<not> r_pdlen r0 < 0 \<Longrightarrow> r_pdlen r = r_pdlen r0 \<and> r_pd r = r_pd r0"
  using assms by (auto simp: complete_rule_def Let_def split: prod.splits)

lemma complete_rule_same:
  assumes "complete_rule legacy arg dump i r0 = (r, j)" and "complete_rule legacy arg' dump' i' r0 = (r', j')" and "r_pdlen r' = r_pdlen r"
  shows "r' = r\<lparr>r_pd := r_pd r'\<rparr>"
  using complete_rule_derive(1) [OF assms(1)] complete_rule_derive(1) [OF assms(2)] derive_lengths_pd assms(3) by metis

lemma complete_rule_keeps:
  assumes "complete_rule legacy arg dump i r0 = (r, j)"
  shows "r_ipv4prefix r = r_ipv4prefix r0" "r_ipv6prefix r = r_ipv6prefix r0" "r_prefix4len r = r_prefix4len r0" "r_prefix6len r = r_prefix6len r0"
    "r_lw4o6 r = r_lw4o6 r0" "r_fmr r = r_fmr r0" "0 \<le> r_psidlen r" "0 \<le> r_offset r"
  by (subst complete_rule_derive(1) [OF assms], simp add: set_defaults_offset derive_lengths_psidlen)+

lemma complete_rule_pd:
  assumes "complete_rule legacy arg dump i r0 = (r, j)" and "rule_ok r0" and "dump_ok dump" and "0 \<le> r_prefix6len r"
  shows "length (r_pd r) = 16 \<and> r_pdlen r \<le> 128"
proof (cases "r_pdlen r0 < 0")
  case True
  have k: "length (r_ipv6prefix r0) = 16" "0 \<le> r_prefix6len r0" "r_prefix6len r0 \<le> 128" "pd_state (r_ipv6prefix r0) (r_prefix6len r0) (r_pdlen r0, r_pd r0)"
    using assms(2,4) complete_rule_keeps(4) [OF assms(1)] True by (simp_all add: rule_ok_def pd_state_def)
  show ?thesis using find_pd_state [OF k(1-3) complete_rule_derive(2) [OF assms(1) True] assms(3) k(4)] by (simp add: pd_state_def)
qed (use complete_rule_derive(3) [OF assms(1)] assms(2) in \<open>simp add: rule_ok_def\<close>)

lemma calc_rule_Some:
  assumes "calc_rule legacy arg dump i opts = (Some m, j)"
  obtains r psid psid16 where "complete_rule legacy arg dump i (fold parse_subopt opts rule_default) = (r, j)" and "\<not> rule_invalid r"
    and "calc_psid r = (psid, psid16)" and "m_rule m = r" and "r_pdlen r < 0 \<Longrightarrow> r_fmr r"
    and "m_bmr m = (if r_pdlen r \<ge> 0 then Some (j, calc_ipv6addr legacy r (calc_ipv4addr r) psid16) else None)"
    and "m_ipv4addr m = (if be32_at (calc_ipv4addr r) 0 \<noteq> 0 then Some (calc_ipv4addr r, calc_addr4len r) else None)"
    and "m_ports m = (if r_psidlen r > 0 \<and> psid \<ge> 0 then Some (port_sets (nat (r_offset r)) (nat (r_psidlen r)) (nat psid)) else None)"
  using assms by (auto simp: calc_rule_def Let_def split: prod.splits if_splits)

text \<open>The IPv4 address and the port set identifier that belong to a prefix.\<close>

definition map_ipv4 :: "rule \<Rightarrow> nat" where
  "map_ipv4 r = (let p4 = nat (r_prefix4len r); n = nat (r_ealen r - r_psidlen r)
     in addr_bits (r_ipv4prefix r) 0 p4 * 2 ^ (32 - p4) + addr_bits (r_pd r) (nat (r_prefix6len r)) n * 2 ^ (32 - p4 - n))"

definition map_psid :: "rule \<Rightarrow> nat" where
  "map_psid r = addr_bits (r_pd r) (nat (r_prefix6len r + r_ealen r - r_psidlen r)) (nat (r_psidlen r))"

definition map_port :: "rule \<Rightarrow> nat \<Rightarrow> bool" where
  "map_port r P \<longleftrightarrow> (let offset = nat (r_offset r); l = nat (r_psidlen r)
     in 1 \<le> P \<and> P < 65536 \<and> (offset = 0 \<or> 2 ^ (16 - offset) \<le> P) \<and> P div 2 ^ (16 - offset - l) mod 2 ^ l = map_psid r)"

text \<open>The lengths fit into the addresses and ports, and the port set identifier is taken from the prefix.\<close>

definition map_fits :: "rule \<Rightarrow> bool" where
  "map_fits r \<longleftrightarrow> 0 \<le> r_pdlen r \<and> r_psid r < 0 \<and> r_prefix6len r + r_ealen r \<le> 128 \<and> r_prefix4len r + r_ealen r - r_psidlen r \<le> 32 \<and>
     r_offset r + r_psidlen r \<le> 16"

lemma calc_rule_values:
  assumes "calc_rule legacy arg dump i opts = (Some m, j)" and "list_all option_ok opts" and "dump_ok dump" and "map_fits (m_rule m)"
  defines "r \<equiv> m_rule m"
  shows "be32_at (calc_ipv4addr r) 0 = map_ipv4 r"
    and "m_ports m = (if r_psidlen r = 0 then None else Some (port_sets (nat (r_offset r)) (nat (r_psidlen r)) (map_psid r * 2 ^ (16 - nat (r_psidlen r)))))"
    and "m_bmr m = Some (j, calc_ipv6addr legacy r (calc_ipv4addr r) (be16_bytes (int (map_psid r))))"
    and "0 \<le> r_psidlen r" and "0 \<le> r_offset r" and "length (r_pd r) = 16" and "\<not> rule_invalid r" and "r_pdlen r \<le> 128"
proof -
  obtain psid psid16 where c: "complete_rule legacy arg dump i (fold parse_subopt opts rule_default) = (r, j)" "\<not> rule_invalid r"
    and p: "calc_psid r = (psid, psid16)"
    and b: "m_bmr m = (if r_pdlen r \<ge> 0 then Some (j, calc_ipv6addr legacy r (calc_ipv4addr r) psid16) else None)"
    and q: "m_ports m = (if r_psidlen r > 0 \<and> psid \<ge> 0 then Some (port_sets (nat (r_offset r)) (nat (r_psidlen r)) (nat psid)) else None)"
    using assms(1) unfolding r_def by (rule calc_rule_Some) blast
  have ok: "rule_ok (fold parse_subopt opts rule_default)" using assms(2) by (simp add: parse_subopts_ok rule_default_ok)
  have v: "0 \<le> r_prefix4len r" "0 \<le> r_prefix6len r" "r_psidlen r \<le> 16" "r_psidlen r \<le> r_ealen r" using c(2) by (simp_all add: rule_invalid_def)
  have l: "length (r_ipv4prefix r) = 4" "0 \<le> r_psidlen r" "0 \<le> r_offset r" using ok complete_rule_keeps [OF c(1)] by (simp_all add: rule_ok_def)
  have pd: "length (r_pd r) = 16" "r_pdlen r \<le> 128" using complete_rule_pd [OF c(1) ok assms(3) v(2)] by simp_all
  have f: "0 \<le> r_pdlen r" "r_psid r < 0" "r_prefix6len r + r_ealen r \<le> 128" "r_prefix4len r + r_ealen r - r_psidlen r \<le> 32"
    using assms(4) by (simp_all add: map_fits_def r_def)
  show "be32_at (calc_ipv4addr r) 0 = map_ipv4 r" using calc_ipv4addr_bits [of r] v l pd f by (simp add: map_ipv4_def Let_def)
  have "calc_psid r = (int (map_psid r * 2 ^ (16 - nat (r_psidlen r))), be16_bytes (int (map_psid r)))"
  proof (cases "r_psidlen r = 0")
    case True
    then have "calc_psid r = (0, [0, 0])" using f by (simp add: calc_psid_def Let_def bmemcpys64_def bmemcpy_def be16_at_def be_val_def field_def)
    then show ?thesis using True by (simp add: map_psid_def be16_bytes_def)
  next
    case False
    then show ?thesis using calc_psid_bits [of r] v l pd f by (simp add: map_psid_def)
  qed
  then have ps: "psid = int (map_psid r * 2 ^ (16 - nat (r_psidlen r)))" "psid16 = be16_bytes (int (map_psid r))" using p by simp_all
  show "m_ports m = (if r_psidlen r = 0 then None else Some (port_sets (nat (r_offset r)) (nat (r_psidlen r)) (map_psid r * 2 ^ (16 - nat (r_psidlen r)))))"
    using q l(2) unfolding ps by (simp del: of_nat_mult)
  show "m_bmr m = Some (j, calc_ipv6addr legacy r (calc_ipv4addr r) (be16_bytes (int (map_psid r))))" using b f(1) by (simp add: ps)
  show "0 \<le> r_psidlen r" "0 \<le> r_offset r" "length (r_pd r) = 16" "\<not> rule_invalid r" "r_pdlen r \<le> 128" by (fact l pd c(2))+
qed

lemma in_ports:
  assumes "\<not> rule_invalid r" and "map_fits r" and "0 \<le> r_psidlen r" and "0 \<le> r_offset r"
  shows "has_port P (port_sets (nat (r_offset r)) (nat (r_psidlen r)) (map_psid r * 2 ^ (16 - nat (r_psidlen r)))) \<longleftrightarrow> map_port r P"
proof -
  have "nat (r_offset r) + nat (r_psidlen r) \<le> 16" using assms by (auto simp: map_fits_def)
  then show ?thesis by (subst in_port_sets) (simp_all add: map_psid_def addr_bits_less map_port_def Let_def)
qed

text \<open>C21. For a router whose prefix is known and a rule without a port set identifier of its own whose lengths fit (\<open>map_fits\<close>), the IPv4 address consists of
  the IPv4 prefix of the rule and the bits that follow the IPv6 prefix of the rule in the prefix of the router, and the ports are those the port
  mapping of RFC 7597 gives to the port set identifier in the bits after these: the bits after the first \<open>offset\<close> bits of a port are the identifier,
  and the ports whose first bits are 0 are left out.\<close>

theorem calc_rule_address_and_ports:
  assumes "calc_rule legacy arg dump i opts = (Some m, j)" and "list_all option_ok opts" and "dump_ok dump" and "map_fits (m_rule m)"
  shows "(case m_ipv4addr m of None \<Rightarrow> map_ipv4 (m_rule m) = 0
          | Some (a, n) \<Rightarrow> be32_at a 0 = map_ipv4 (m_rule m) \<and> n = min 32 (r_prefix4len (m_rule m) + r_ealen (m_rule m))) \<and>
         (case m_ports m of None \<Rightarrow> r_psidlen (m_rule m) = 0 | Some ps \<Rightarrow> (\<forall>P. has_port P ps \<longleftrightarrow> map_port (m_rule m) P))"
proof -
  note v = calc_rule_values [OF assms]
  have "m_ipv4addr m = (if be32_at (calc_ipv4addr (m_rule m)) 0 \<noteq> 0 then Some (calc_ipv4addr (m_rule m), calc_addr4len (m_rule m)) else None)"
    using assms(1) by (rule calc_rule_Some) simp
  moreover have "calc_addr4len (m_rule m) = min 32 (r_prefix4len (m_rule m) + r_ealen (m_rule m))"
    using assms(4) by (simp add: calc_addr4len_def map_fits_def)
  ultimately show ?thesis using v(2) in_ports [OF v(7) assms(4) v(4,5)] by (simp add: v(1))
qed

lemma map_psid_or_ipv4:
  assumes "k < nat (r_ealen r)" and "getbit (r_pd r) (nat (r_prefix6len r) + k) \<noteq> getbit x (nat (r_prefix6len r) + k)"
    and "\<not> rule_invalid r" and "map_fits r" and "0 \<le> r_psidlen r"
  shows "map_ipv4 r \<noteq> map_ipv4 (r\<lparr>r_pd := x\<rparr>) \<or> (0 < r_psidlen r \<and> map_psid r \<noteq> map_psid (r\<lparr>r_pd := x\<rparr>))"
proof -
  define p6 n l where "p6 = nat (r_prefix6len r)" and "n = nat (r_ealen r - r_psidlen r)" and "l = nat (r_psidlen r)"
  have f: "nat (r_prefix6len r + r_ealen r - r_psidlen r) = p6 + n" "nat (r_ealen r) = n + l"
    using assms(3,5) by (auto simp: p6_def n_def l_def rule_invalid_def)
  show ?thesis
  proof (cases "k < n")
    case True
    then have "addr_bits (r_pd r) p6 n \<noteq> addr_bits x p6 n" using assms(2) by (auto simp: addr_bits_eq_iff p6_def)
    then show ?thesis by (simp add: map_ipv4_def Let_def p6_def n_def)
  next
    case False
    then have k: "k - n < l" "n + (k - n) = k" using assms(1) f(2) by linarith+
    have "getbit (r_pd r) (p6 + n + (k - n)) \<noteq> getbit x (p6 + n + (k - n))" using assms(2) k(2) by (simp add: p6_def add.assoc)
    then have "addr_bits (r_pd r) (p6 + n) l \<noteq> addr_bits x (p6 + n) l" using k(1) by (auto simp: addr_bits_eq_iff)
    moreover have "0 < r_psidlen r" using k(1) by (cases "0 < r_psidlen r") (simp_all add: l_def)
    ultimately show ?thesis by (simp add: map_psid_def f l_def)
  qed
qed

text \<open>C20. For a rule without a port set identifier of its own whose lengths fit (\<open>map_fits\<close>), no two routers with prefixes of the same length are given the
  same port of the same address: when their prefixes differ in the bits between the IPv6 prefix of the rule and the end of the embedded bits, either
  their IPv4 addresses differ or no port is in the port sets of both. (A \<^verbatim>\<open>psid\<close> option gives all routers of the rule the same ports.)\<close>

theorem calc_rule_unique:
  assumes "calc_rule legacy arg dump i opts = (Some m, j)" and "calc_rule legacy arg' dump' i' opts = (Some m', j')"
    and "list_all option_ok opts" and "dump_ok dump" and "dump_ok dump'" and "map_fits (m_rule m)" and "r_pdlen (m_rule m') = r_pdlen (m_rule m)"
    and "k < nat (r_ealen (m_rule m))"
    and "getbit (r_pd (m_rule m)) (nat (r_prefix6len (m_rule m)) + k) \<noteq> getbit (r_pd (m_rule m')) (nat (r_prefix6len (m_rule m)) + k)"
  shows "m_ipv4addr m \<noteq> m_ipv4addr m' \<or>
    (\<exists>ps ps'. m_ports m = Some ps \<and> m_ports m' = Some ps' \<and> (\<forall>P. \<not> (has_port P ps \<and> has_port P ps')))"
proof -
  define r r' where "r = m_rule m" and "r' = m_rule m'"
  obtain c: "complete_rule legacy arg dump i (fold parse_subopt opts rule_default) = (r, j)"
    and a: "m_ipv4addr m = (if be32_at (calc_ipv4addr r) 0 \<noteq> 0 then Some (calc_ipv4addr r, calc_addr4len r) else None)"
    using assms(1) unfolding r_def by (rule calc_rule_Some) blast
  obtain c': "complete_rule legacy arg' dump' i' (fold parse_subopt opts rule_default) = (r', j')"
    and a': "m_ipv4addr m' = (if be32_at (calc_ipv4addr r') 0 \<noteq> 0 then Some (calc_ipv4addr r', calc_addr4len r') else None)"
    using assms(2) unfolding r'_def by (rule calc_rule_Some) blast
  have same: "r' = r\<lparr>r_pd := r_pd r'\<rparr>" using complete_rule_same [OF c c'] assms(7) by (simp add: r_def r'_def)
  have fit: "map_fits r" "map_fits r'" using assms(6) by (simp add: r_def) (subst same, use assms(6) in \<open>simp add: map_fits_def r_def\<close>)
  note v = calc_rule_values [OF assms(1,3,4,6), folded r_def] and v' = calc_rule_values [OF assms(2,3,5) fit(2) [unfolded r'_def], folded r'_def]
  have "map_ipv4 r \<noteq> map_ipv4 r' \<or> (0 < r_psidlen r \<and> map_psid r \<noteq> map_psid r')"
    using map_psid_or_ipv4 [of k r "r_pd r'"] assms(8,9) v(4,7) fit(1) same by (metis r_def r'_def)
  then show ?thesis
  proof
    assume "map_ipv4 r \<noteq> map_ipv4 r'"
    then show ?thesis using a a' v(1) v'(1) by (auto split: if_splits)
  next
    assume p: "0 < r_psidlen r \<and> map_psid r \<noteq> map_psid r'"
    have e: "r_offset r' = r_offset r" "r_psidlen r' = r_psidlen r" by (subst same, simp)+
    have "\<not> (map_port r P \<and> map_port r' P)" for P using p e by (auto simp: map_port_def Let_def)
    then show ?thesis using v(2) v'(2) p e in_ports [OF v(7) fit(1) v(4,5)] in_ports [OF v'(7) fit(2) v'(4,5)] by simp
  qed
qed


text \<open>C22. A rule without a prefix length among its options is printed without a prefix of the router only as a forwarding rule, and a prefix it gets is not
  shorter than the IPv6 prefix of the rule and starts with it. Except for lightweight 4over6, where addresses and shorter prefixes count too, it gets
  the longest such prefix of the first interface that has one and has the name asked for, and none when no such interface has one.\<close>

theorem calc_rule_finds_prefix:
  assumes "calc_rule legacy arg dump i opts = (Some m, j)" and "list_all option_ok opts" and "dump_ok dump"
    and "r_pdlen (fold parse_subopt opts rule_default) < 0"
  defines "v6 \<equiv> r_ipv6prefix (m_rule m)" and "p6 \<equiv> r_prefix6len (m_rule m)"
  shows "(case m_bmr m of None \<Rightarrow> r_fmr (m_rule m) | Some _ \<Rightarrow> belongs v6 p6 (r_pd (m_rule m), r_pdlen (m_rule m))) \<and>
    (\<not> r_lw4o6 (m_rule m) \<longrightarrow>
      (case filter (candidate arg v6 p6) dump of
         [] \<Rightarrow> m_bmr m = None
       | c # _ \<Rightarrow> (\<exists>a. m_bmr m = Some (if_name c, a)) \<and> longest v6 p6 (if_prefix c) (r_pdlen (m_rule m), r_pd (m_rule m))))"
proof -
  define r r0 where "r = m_rule m" and "r0 = fold parse_subopt opts rule_default"
  obtain psid16 where c: "complete_rule legacy arg dump i r0 = (r, j)" "\<not> rule_invalid r"
    and f: "r_pdlen r < 0 \<Longrightarrow> r_fmr r"
    and b: "m_bmr m = (if r_pdlen r \<ge> 0 then Some (j, calc_ipv6addr legacy r (calc_ipv4addr r) psid16) else None)"
    using assms(1) unfolding r_def r0_def by (rule calc_rule_Some) blast
  have ok: "rule_ok r0" using assms(2) by (simp add: r0_def parse_subopts_ok rule_default_ok)
  note k = complete_rule_keeps [OF c(1)]
  have v: "length v6 = 16" "0 \<le> p6" "p6 \<le> 128" "pd_state v6 p6 (r_pdlen r0, r_pd r0)" "r_pdlen r0 < 0"
    using ok c(2) assms(4) k by (simp_all add: v6_def p6_def rule_ok_def rule_invalid_def pd_state_def flip: r_def r0_def)
  have fp: "find_pd arg v6 p6 (r_lw4o6 r) dump (r_pdlen r0) (r_pd r0) i = (r_pdlen r, r_pd r, j)"
    using complete_rule_derive(2) [OF c(1) v(5)] k by (simp add: v6_def p6_def flip: r_def)
  have st: "pd_state v6 p6 (r_pdlen r, r_pd r)" by (rule find_pd_state [OF v(1-3) fp assms(3) v(4)])
  have second: "case filter (candidate arg v6 p6) dump of [] \<Rightarrow> m_bmr m = None
      | c # _ \<Rightarrow> (\<exists>a. m_bmr m = Some (if_name c, a)) \<and> longest v6 p6 (if_prefix c) (r_pdlen r, r_pd r)" if "\<not> r_lw4o6 r"
  proof -
    have "find_pd arg v6 p6 False dump (r_pdlen r0) (r_pd r0) i = (r_pdlen r, r_pd r, j)" using fp that by simp
    from find_pd_first [OF v(1-3) this assms(3) v(4,5)] show ?thesis using b by (auto split: list.splits)
  qed
  have first: "case m_bmr m of None \<Rightarrow> r_fmr r | Some _ \<Rightarrow> belongs v6 p6 (r_pd r, r_pdlen r)"
    using b f st by (auto simp: pd_state_def)
  show ?thesis unfolding r_def [symmetric] using first second by blast
qed

lemma field_bmemcpy: "n \<le> 8 * off \<Longrightarrow> field off l (bmemcpy a b n) = field off l a"
proof (rule field_nth_eqI)
  fix i assume n: "n \<le> 8 * off" and i: "off \<le> i" "i < length (bmemcpy a b n)"
  have "n div 8 \<le> off" using n by linarith
  moreover have "n mod 8 > 0 \<Longrightarrow> n div 8 < off" using n div_mult_mod_eq [of n 8] by linarith
  ultimately show "bmemcpy a b n ! i = a ! i" using i by (auto simp: bmemcpy_def Let_def nth_poke nth_list_update)
qed simp

lemma be16_bytes_val: "p < 65536 \<Longrightarrow> be16_at (be16_bytes (int p)) 0 = p"
proof -
  assume p: "p < 65536"
  have "unat (word_of_int (int q) :: byte) = q mod 256" for q by (simp add: unat_of_nat flip: of_nat_eq_iff)
  moreover have "int p div 256 = int (p div 256)" by simp
  moreover have "be16_at (be16_bytes (int p)) 0 = unat (word_of_int (int p) :: byte) + 256 * unat (word_of_int (int p div 256) :: byte)"
    by (simp add: be16_at_def field_def be_val_def be16_bytes_def)
  moreover have "p div 256 mod 256 = p div 256" using p by simp
  ultimately show ?thesis by (metis mod_mult_div_eq)
qed

lemma length_calc_ipv4addr: "length (calc_ipv4addr r) = 4"
  by (simp add: calc_ipv4addr_def Let_def be32_bytes_def)

text \<open>The IPv6 address of a router starts with its prefix and, when the prefix does not reach so far, carries its IPv4 address and its port set identifier
  at byte 10, or at byte 9 for the drafts before RFC 7597.\<close>

theorem calc_rule_ipv6addr:
  assumes "calc_rule legacy arg dump i opts = (Some m, j)" and "list_all option_ok opts" and "dump_ok dump" and "map_fits (m_rule m)"
  defines "r \<equiv> m_rule m" and "at \<equiv> if legacy then 9 else 10"
  shows "\<exists>a. m_bmr m = Some (j, a) \<and> (\<forall>k < nat (r_pdlen r). getbit a k = getbit (r_pd r) k) \<and>
    (r_pdlen r \<le> 8 * int at \<longrightarrow> be32_at a at = map_ipv4 r \<and> be16_at a (at + 4) = map_psid r)"
proof -
  note v = calc_rule_values [OF assms(1-4), folded r_def]
  let ?b = "be16_bytes (int (map_psid r))"
  let ?d = "poke (poke (replicate 16 0) at (calc_ipv4addr r)) (at + 4) ?b"
  let ?a = "bmemcpy ?d (r_pd r) (nat (r_pdlen r))"
  have at: "at \<le> 10" by (simp add: at_def)
  have l: "length ?b = 2" by (simp add: be16_bytes_def)
  have "calc_ipv6addr legacy r (calc_ipv4addr r) ?b = ?a" using assms(4) by (simp add: calc_ipv6addr_def Let_def at_def map_fits_def r_def)
  then have m: "m_bmr m = Some (j, ?a)" using v(3) by simp
  have "getbit ?a k = getbit (r_pd r) k" if "k < nat (r_pdlen r)" for k
    using that v(6,8) by (subst getbit_bmemcpy) simp_all
  moreover have "be32_at ?a at = map_ipv4 r \<and> be16_at ?a (at + 4) = map_psid r" if "r_pdlen r \<le> 8 * int at"
  proof
    have n: "nat (r_pdlen r) \<le> 8 * at" using that by simp
    have "8 * at \<le> 8 * (at + 4)" by simp
    with n have n4: "nat (r_pdlen r) \<le> 8 * (at + 4)" by (rule order_trans)
    have "field at 4 ?a = field (at + 0) 4 (poke (replicate 16 0) at (calc_ipv4addr r))"
      using n l by (simp add: field_bmemcpy field_poke_other)
    also have "\<dots> = field 0 4 (calc_ipv4addr r)" using at by (intro field_poke_in) (simp_all add: length_calc_ipv4addr)
    finally show "be32_at ?a at = map_ipv4 r" using v(1) by (simp add: be32_at_def)
    have "field (at + 4) 2 ?a = field (at + 4 + 0) 2 ?d" using n4 by (simp only: field_bmemcpy add_0_right)
    also have "\<dots> = field 0 2 ?b" using at l by (intro field_poke_in) simp_all
    finally have "be16_at ?a (at + 4) = be16_at ?b 0" by (simp add: be16_at_def)
    moreover have "map_psid r < 65536"
      using addr_bits_less [of "r_pd r" _ "nat (r_psidlen r)"] power_increasing [of "nat (r_psidlen r)" 16 "2 :: nat"] v(7)
      by (fastforce simp: map_psid_def rule_invalid_def intro: less_le_trans)
    ultimately show "be16_at ?a (at + 4) = map_psid r" by (simp add: be16_bytes_val)
  qed
  ultimately show ?thesis using m by blast
qed

lemma calc_rules_results:
  "calc_rules legacy arg dump i rules = (st, ms) \<Longrightarrow>
    (st = 0 \<longleftrightarrow> length ms = length rules) \<and> length ms \<le> length rules \<and> (\<forall>m \<in> set ms. \<exists>opts \<in> set rules. \<exists>i' j. calc_rule legacy arg dump i' opts = (Some m, j))"
proof (induction rules arbitrary: i st ms)
  case (Cons x xs)
  obtain res j where r: "calc_rule legacy arg dump i x = (res, j)" by (cases "calc_rule legacy arg dump i x")
  obtain st' ms' where s: "calc_rules legacy arg dump j xs = (st', ms')" by (cases "calc_rules legacy arg dump j xs")
  show ?case using Cons.IH [OF s] Cons.prems r s by (cases res) (auto, blast+)
qed simp

lemma mapcalc_results:
  assumes "mapcalc legacy arg dump rules = (st, ms)"
  shows "(st = 0 \<longleftrightarrow> rules \<noteq> [] \<and> length ms = length rules) \<and> (\<forall>m \<in> set ms. \<exists>opts \<in> set rules. \<exists>i j. calc_rule legacy arg dump i opts = (Some m, j))"
  using assms calc_rules_results [of legacy arg dump arg rules st ms] by (auto simp: mapcalc_def split: if_splits)

section \<open>The example of RFC 7597\<close>

definition ex_opts :: "rule_option list" where
  "ex_opts = [OPT_IPV6PREFIX (Some ([0x20, 0x01, 0x0d, 0xb8] @ replicate 12 0)), OPT_PREFIX6LEN (Some 40), OPT_IPV4PREFIX (Some [192, 0, 2, 0]),
     OPT_PREFIX4LEN (Some 24), OPT_EALEN (Some 16)]"

definition ex_pd :: "byte \<Rightarrow> byte list" where
  "ex_pd b = [0x20, 0x01, 0x0d, 0xb8, 0, 0x12, b] @ replicate 9 0"

definition ex_dump :: "byte \<Rightarrow> interface list" where
  "ex_dump b = [\<lparr>if_name = bytes_of ''lan'', if_prefix = [], if_address = []\<rparr>,
     \<lparr>if_name = bytes_of ''wan6'', if_prefix = [([0xfd] @ replicate 15 0, 48), (ex_pd b, 56)], if_address = []\<rparr>]"

definition ex_calc :: "byte \<Rightarrow> map_result option \<times> byte list" where
  "ex_calc b = calc_rule False (bytes_of ''*'') (ex_dump b) [] ex_opts"

definition ex_rule :: "byte \<Rightarrow> rule" where
  "ex_rule b =
     \<lparr>r_lw4o6 = False, r_fmr = False, r_ealen = 16, r_prefix4len = 24, r_prefix6len = 40, r_pdlen = 56, r_ipv4prefix = [192, 0, 2, 0],
      r_ipv6prefix = [0x20, 0x01, 0x0d, 0xb8] @ replicate 12 0, r_pd = ex_pd b, r_offset = 6, r_psidlen = 8, r_psid = - 1, r_dmr = None, r_br = None\<rparr>"

lemma ex_map_find:
  "find_pd (bytes_of ''*'') ([0x20, 0x01, 0x0d, 0xb8] @ replicate 12 0) 40 False (ex_dump b) (- 1) (replicate 16 0) [] = (56, ex_pd b, bytes_of ''wan6'')"
  by (simp add: ex_dump_def match_prefix_def match_one_def bmemcmp_def bmemcpy_def size_bits_def ex_pd_def poke_def)

lemma ex_complete: "complete_rule False (bytes_of ''*'') (ex_dump b) [] (fold parse_subopt ex_opts rule_default) = (ex_rule b, bytes_of ''wan6'')"
  using ex_map_find [of b]
  by (simp add: complete_rule_def set_defaults_def derive_lengths_def ex_opts_def rule_default_def set_number_def subopt_number_def s32_def ex_rule_def)

lemma ex_calc_runs: "\<exists>m. ex_calc b = (Some m, bytes_of ''wan6'') \<and> m_rule m = ex_rule b"
proof -
  have "\<not> rule_invalid (ex_rule b)" "r_pdlen (ex_rule b) = 56" by (simp_all add: rule_invalid_def ex_rule_def)
  then show ?thesis using ex_complete [of b] by (simp add: ex_calc_def calc_rule_def Let_def split: prod.splits)
qed

lemma ex_ok: "list_all option_ok ex_opts" "dump_ok (ex_dump b)" "map_fits (ex_rule b)"
  by (simp_all add: ex_opts_def dump_ok_def ex_dump_def prefix_ok_def ex_pd_def map_fits_def ex_rule_def)

lemma ex_map: "map_ipv4 (ex_rule b) = 0xC0000212" "map_psid (ex_rule b) = unat b"
proof -
  let ?v = "[192, 0, 2, 0 :: byte]"
  have "addr_bits ?v 0 (8 + 8 + 8) = 0xC00002"
    using addr_bits_byte [of ?v 0] addr_bits_byte [of ?v 1] addr_bits_byte [of ?v 2] unfolding addr_bits_add by simp
  moreover have "addr_bits (ex_pd b) (8 * 5) 8 = 0x12" "addr_bits (ex_pd b) (8 * 6) 8 = unat b" by (simp_all only: addr_bits_byte) (simp_all add: ex_pd_def)
  ultimately show "map_ipv4 (ex_rule b) = 0xC0000212" "map_psid (ex_rule b) = unat b" by (simp_all add: map_ipv4_def map_psid_def ex_rule_def)
qed

theorem calc_rule_address_and_ports_witness:
  "\<exists>m a n ps. ex_calc 0x34 = (Some m, bytes_of ''wan6'') \<and> m_ipv4addr m = Some (a, n) \<and> be32_at a 0 = 0xC0000212 \<and> n = 32 \<and> m_ports m = Some ps \<and>
    has_port 1232 ps \<and> has_port 1235 ps \<and> \<not> has_port 1236 ps \<and> has_port 2256 ps \<and> \<not> has_port 208 ps"
proof -
  obtain m where m: "ex_calc 0x34 = (Some m, bytes_of ''wan6'')" "m_rule m = ex_rule 0x34" using ex_calc_runs by blast
  have p: "map_port (ex_rule 0x34) P \<longleftrightarrow> 1 \<le> P \<and> P < 65536 \<and> 1024 \<le> P \<and> P div 4 mod 256 = 0x34" for P
    by (simp add: map_port_def ex_map Let_def) (simp add: ex_rule_def)
  have "r_psidlen (ex_rule 0x34) = 8" "r_prefix4len (ex_rule 0x34) = 24" "r_ealen (ex_rule 0x34) = 16" by (simp_all add: ex_rule_def)
  then show ?thesis using calc_rule_address_and_ports [OF m(1) [unfolded ex_calc_def] ex_ok(1,2)] m ex_ok(3)
    by (auto simp: ex_map p split: option.splits prod.splits)
qed

theorem calc_rule_unique_witness:
  "\<exists>m m' ps ps'. ex_calc 0x34 = (Some m, bytes_of ''wan6'') \<and> ex_calc 0x35 = (Some m', bytes_of ''wan6'') \<and>
    (m_ipv4addr m \<noteq> m_ipv4addr m' \<or> m_ports m = Some ps \<and> m_ports m' = Some ps' \<and> (\<forall>P. \<not> (has_port P ps \<and> has_port P ps')))"
proof -
  obtain m where m: "ex_calc 0x34 = (Some m, bytes_of ''wan6'')" "m_rule m = ex_rule 0x34" using ex_calc_runs by blast
  obtain m' where m': "ex_calc 0x35 = (Some m', bytes_of ''wan6'')" "m_rule m' = ex_rule 0x35" using ex_calc_runs by blast
  have "m_ipv4addr m \<noteq> m_ipv4addr m' \<or> (\<exists>ps ps'. m_ports m = Some ps \<and> m_ports m' = Some ps' \<and> (\<forall>P. \<not> (has_port P ps \<and> has_port P ps')))"
    by (rule calc_rule_unique [OF m(1) [unfolded ex_calc_def] m'(1) [unfolded ex_calc_def] ex_ok(1) ex_ok(2) ex_ok(2), of 15])
       (simp_all add: m(2) m'(2) ex_ok, simp_all add: ex_rule_def ex_pd_def getbit_def bit_numeral_rec)
  then show ?thesis using m(1) m'(1) by blast
qed

theorem calc_rule_finds_prefix_witness:
  "\<exists>m a. ex_calc 0x34 = (Some m, bytes_of ''wan6'') \<and> m_bmr m = Some (bytes_of ''wan6'', a) \<and> r_pdlen (m_rule m) = 56"
proof -
  obtain m where m: "ex_calc 0x34 = (Some m, bytes_of ''wan6'')" "m_rule m = ex_rule 0x34" using ex_calc_runs by blast
  have v: "r_ipv6prefix (ex_rule 0x34) = [0x20, 0x01, 0x0d, 0xb8] @ replicate 12 0" "r_prefix6len (ex_rule 0x34) = 40" "r_pdlen (ex_rule 0x34) = 56"
    by (simp_all add: ex_rule_def)
  have "bmemcmp (ex_pd 0x34) (r_ipv6prefix (ex_rule 0x34)) 40 = 0" by (simp add: bmemcmp_def ex_pd_def v)
  then have "belongs (r_ipv6prefix (ex_rule 0x34)) 40 (ex_pd 0x34, 56)" by (subst (asm) bmemcmp_0) (simp_all add: belongs_def ex_pd_def v)
  then have f: "filter (candidate (bytes_of ''*'') (r_ipv6prefix (ex_rule 0x34)) 40) (ex_dump 0x34) = [ex_dump 0x34 ! 1]"
    by (simp add: ex_dump_def candidate_def)
  have "r_pdlen (fold parse_subopt ex_opts rule_default) < 0" "\<not> r_lw4o6 (m_rule m)"
    by (simp_all add: m(2) ex_rule_def ex_opts_def rule_default_def set_number_def subopt_number_def s32_def)
  then have "\<exists>a. m_bmr m = Some (if_name (ex_dump 0x34 ! 1), a)"
    using calc_rule_finds_prefix [OF m(1) [unfolded ex_calc_def] ex_ok(1,2)] f unfolding m(2) v(2) by simp
  then show ?thesis using m v(3) by (simp add: ex_dump_def)
qed

theorem calc_rule_ipv6addr_witness:
  "\<exists>m a. ex_calc 0x34 = (Some m, bytes_of ''wan6'') \<and> m_bmr m = Some (bytes_of ''wan6'', a) \<and> be32_at a 10 = 0xC0000212 \<and> be16_at a 14 = 0x34"
proof -
  obtain m where m: "ex_calc 0x34 = (Some m, bytes_of ''wan6'')" "m_rule m = ex_rule 0x34" using ex_calc_runs by blast
  have "r_pdlen (ex_rule 0x34) = 56" by (simp add: ex_rule_def)
  then show ?thesis using calc_rule_ipv6addr [OF m(1) [unfolded ex_calc_def] ex_ok(1,2)] m ex_ok(3) by (auto simp: ex_map)
qed

end
