(* ===== verification/Spec2Isabelle.thy ===== *)
theory Spec2Isabelle
  imports Bmt_Attach Bmt_V2_Store En75_Init Mtdsplit_Fit Mtdsplit_Wfi Mtdsplit_Mstc Nvram_Cli Mtd_Main Mapcalc_Props
begin

text \<open>
  Verification of the flash-storage code of this OpenWrt tree, and of its MAP-E/MAP-T calculator.

  \<^bold>\<open>The program.\<close> The repository builds firmware for routers. What its own C code decides about the
  data on a flash chip is in two kernel components: the MediaTek bad-block layer
  (\<^verbatim>\<open>target/linux/generic/files/drivers/mtd/nand/mtk_bmt*\<close>), which hides bad NAND blocks from
  everything above it, and the firmware splitters (\<^verbatim>\<open>target/linux/generic/files/drivers/mtd/mtdsplit\<close>),
  which read the headers on a firmware partition and say where the kernel, the root file system
  and the overlay begin. A splitter runs on a partition of the device the bad-block layer
  provides; an error in the first loses or duplicates blocks, an error in the second lets one
  partition overwrite another. Two more parts are in user space: the \<^verbatim>\<open>nvram\<close> tool (\<^verbatim>\<open>package/utils/nvram\<close>),
  which keeps the boot loader's variables in a partition of their own, and the \<^verbatim>\<open>mtd\<close> tool
  (\<^verbatim>\<open>package/system/mtd/src\<close>), with which a running system erases and writes its flash and repairs the headers of images.
  Apart from these, \<^verbatim>\<open>mapcalc\<close> (\<^verbatim>\<open>package/network/ipv6/map/src\<close>) computes the IPv4 address and the ports a router may use from the rules of its provider.

  \<^bold>\<open>The bad-block layer.\<close>
  \<^item> \<open>Flash_Prelude\<close>: C integers as bounded numbers with explicit conversions, byte encodings, array
    access, error numbers, and the lemmas all other theories share.
  \<^item> \<open>Bmt_Desc\<close>: \<^verbatim>\<open>struct bmt_desc\<close> and the global \<^verbatim>\<open>bmtd\<close>, the \<^verbatim>\<open>mtd_info\<close> and the device as one
    record \<open>bmt_world\<close>; the wrappers of \<^verbatim>\<open>mtk_bmt.h\<close> and \<^verbatim>\<open>bbt_nand_copy\<close>. The driver of the chip is
    not in the repository: it is the parameter \<open>nand_drv\<close>, five functions over an arbitrary device
    state, so the theorems hold for every failure the driver may report.
  \<^item> \<open>Bmt_Core\<close>: the operations of \<^verbatim>\<open>mtk_bmt.c\<close> (read, write, erase, block tests, debug) over a record
    of functions that is \<^verbatim>\<open>struct mtk_bmt_ops\<close>.
  \<^item> \<open>Bmt_Contract\<close>: the locale \<open>bmt_backend\<close>, what the layer relies on in a back end (a mapped block is
    on the chip, remapping keeps the invariant and the geometry), and what follows for its loops.
  \<^item> \<open>Bmt_Bbt\<close>, \<open>Bmt_V2\<close> and \<open>Nmbm_State\<close>, \<open>Nmbm_Flash\<close>, \<open>Nmbm_Table\<close>, \<open>Nmbm_Attach\<close>: the back ends of
    \<^verbatim>\<open>mtk_bmt_bbt.c\<close>, \<^verbatim>\<open>mtk_bmt_v2.c\<close> and \<^verbatim>\<open>mtk_bmt_nmbm.c\<close>, each with its invariant and the interpretation
    of the locale on its operations. \<open>Bmt_V2_Store\<close>: what the next attachment makes of the tables that BMT v2 has stored.
  \<^item> \<open>Bmt_Attach\<close>: attaching and detaching, the choice of the back end and the failure paths.
  \<^item> \<open>En75_Bmt\<close>, \<open>En75_Remap\<close>, \<open>En75_Init\<close>: the back end of EcoNet chips, a fourth one
    (\<^verbatim>\<open>target/linux/econet/files/drivers/mtd/nand/en75_bmt.c\<close>): its operations, its invariant with the
    interpretation of the locale, and its attaching. A patch of that target, which is no C file of
    the tree, makes the layer call it.

  What is shown: reads, writes and erases return and keep the invariants over the back
  ends; the BBT mapping is the rank among good blocks and a bijection on each range; remapping
  with BMT v2 and with the EcoNet tables never gives a block to two logical blocks; tables that were stored are found again at
  the next attachment, but those of BMT v2 are lost when their block had failed before; NMBM searches equal their specification, updates of its tables end, and management
  writes stay in their range; detaching restores the operations of the device. Theorems of
  kind error state what the code really does where that is not what it means to do.

  \<^bold>\<open>The splitters.\<close>
  \<^item> \<open>Mtdsplit_Base\<close>: the partition as a record with the read function of the MTD core as a parameter,
    the fields of headers, the loop over erase blocks (\<open>for_blocks\<close>), and \<^verbatim>\<open>mtdsplit.c\<close>. The width of
    \<^verbatim>\<open>size_t\<close> and the byte order are fields of the record, since the code is built for all of them.
  \<^item> \<open>Mtdsplit_Parsers\<close>: the thirteen splitters with a header at a fixed place, and the locales
    \<open>kernel_rootfs_split\<close> and \<open>total_split\<close>: the partitions are inside the device and disjoint, and the
    splitter returns.
  \<^item> \<open>Mtdsplit_Scan\<close>: TRX, uImage and JBOOT images, searched at every erase block; the locale
    \<open>image_splitter\<close> is the structure the last two share.
  \<^item> \<open>Mtdsplit_Fit\<close>: BCM63xx and FIT images. \<open>Mtdsplit_Wfi\<close>: Broadcom whole-flash images with one image
    or two. \<open>Mtdsplit_Mstc\<close>: the boot partitions of MSTC devices.

  What is shown: the search for a root file system equals a search in a list; splitters return
  and give disjoint partitions inside the device, or the exact condition under which they do
  not; the overlay is behind the squashfs; of two images the inactive one is never part of a
  partition of the active one.

  \<^bold>\<open>The nvram tool.\<close>
  \<^item> \<open>Nvram_Table\<close>: the checksum of \<^verbatim>\<open>crc.c\<close> and the hash table of \<^verbatim>\<open>nvram.c\<close>. The locale \<open>var_table\<close> is the
    contract of a table, a map from names to values; its interpretation is on the hash table.
  \<^item> \<open>Nvram_Store\<close>: header, search, parsing and writing of the area (\<^verbatim>\<open>nvram_open\<close>, \<^verbatim>\<open>_nvram_rehash\<close>,
    \<^verbatim>\<open>nvram_commit\<close>), and the exact image a commit writes. \<open>Nvram_Commit\<close>: its properties.
  \<^item> \<open>Nvram_Cli\<close>: the staging file and \<^verbatim>\<open>cli.c\<close>. The world is a record of the MTD devices, the staging file
    and the outcomes of the next system calls, so the theorems cover failing calls.

  What is shown: the table checksum is the division by its polynomial; the hash table refines a
  map; what a session commits is what the next start reads; every handle stays well-formed, even when allocations fail;
  \<^verbatim>\<open>set\<close>, \<^verbatim>\<open>commit\<close> and \<^verbatim>\<open>get\<close> from the command line work end to end when nothing fails and the variables fit, and nothing but \<^verbatim>\<open>commit\<close> writes the flash.

  \<^bold>\<open>The mtd tool.\<close>
  \<^item> \<open>Crc_Step\<close>: the locale \<open>crc_step\<close>, a checksum that shifts bit by bit, and why a table of bytes computes it;
    interpreted for the checksum of the \<^verbatim>\<open>nvram\<close> tool and for \<^verbatim>\<open>crc32.c\<close> in \<open>Mtd_Crc\<close>. \<open>Mtd_Md5\<close>: \<^verbatim>\<open>md5.c\<close>.
  \<^item> \<open>Mtd_Io\<close>: opening, testing, erasing, dumping and verifying (\<^verbatim>\<open>mtd.c\<close>). The kernel is the parameter \<open>mtd_os\<close>, a
    record of the system calls over an arbitrary state; the global variables are the record \<open>tool\<close>.
  \<^item> \<open>Mtd_Flash\<close>: what the kernel documents of a flash device, as hypotheses on these calls (\<open>mtd_flash\<close>: the effect of a
    call that succeeds; \<open>mtd_works\<close>: good blocks can be erased and written), and a device in memory that satisfies them.
  \<^item> \<open>Mtd_Fix\<close>: TRX headers (\<^verbatim>\<open>trx.c\<close>). \<open>Mtd_Digest\<close>: SEAMA, WRG and WRGG03 headers (\<^verbatim>\<open>seama.c\<close>, \<^verbatim>\<open>wrg.c\<close>, \<^verbatim>\<open>wrgg.c\<close>), with
    the locale \<open>digest_header\<close> for what the three have in common. \<open>Mtd_Count\<close>: the boot counter and the recovery
    flag (\<^verbatim>\<open>linksys_bootcount.c\<close>, \<^verbatim>\<open>tpl_ramips_recoveryflag.c\<close>).
  \<^item> \<open>Mtd_Write\<close>: the check of an image and the loop that writes it. \<open>Mtd_Main\<close>: the command line.

  What is shown: the table-driven checksum is CRC-32 and hashing in pieces gives the MD5 digest of the padded message;
  \<^verbatim>\<open>mtd erase\<close> erases exactly the good blocks; after a repair the length and the checksum or digest in the header are those of the data on the
  flash, and nothing else has changed; resetting the boot counter leaves a well-formed log that ends with 0;
  \<^verbatim>\<open>mtd write\<close> writes nothing before its checks are over, ends, and leaves the padded image on the good blocks in order.

  \<^bold>\<open>The MAP calculator.\<close>
  \<^item> \<open>Mapcalc\<close>: \<^verbatim>\<open>mapcalc.c\<close>, from the options of a rule and the interfaces ubus reports to what is printed.
  \<^item> \<open>Mapcalc_Bits\<close>: its routines that copy and compare bits, and its port ranges, on the bits of an address and of a port.
    \<open>Mapcalc_Props\<close>: what a rule gives.

  What is shown: the address and the ports are those of RFC 7597, the prefix that is used is the longest one that belongs to the rule, and no two
  routers of a rule share a port of an address. The theorems on addresses and ports are about rules whose lengths fit and that leave the port set
  identifier to the prefix (\<open>map_fits\<close>), which the code does not check.

  \<^bold>\<open>Results and errors.\<close> A C function that returns an error code is a function into a sum or a pair
  with the code; a splitter returns \<open>Inl\<close> of the code or \<open>Inr\<close> of the partitions. Functions not in
  the repository (the NAND driver, \<^verbatim>\<open>mtd_read\<close>, \<^verbatim>\<open>crc32\<close> of the kernel, \<^verbatim>\<open>kstrtol\<close>, libfdt, libubox, the system calls, the device tree) and
  the success of allocations are arguments. A call of \<^verbatim>\<open>exit\<close> is a value of its own (\<open>Exit\<close>).

  \<^bold>\<open>Loops and fuel.\<close> Loops that end for every input are recursive functions with a termination
  proof. The loops of \<^verbatim>\<open>mtk_bmt.c\<close> take fuel, one unit per round: a write or read of \<open>len\<close> bytes needs
  \<open>11 * len + 11\<close> at most, since each round handles a byte or is one of ten retries, and the
  theorems prove that this much gives a result. Loops of the splitters and of the NMBM signature
  search that can run forever on some flash are partial functions into \<open>option\<close>, where \<^const>\<open>None\<close> is
  not returning, and that they return is proved where it holds. The loops of the \<^verbatim>\<open>mtd\<close> tool end or not depending on the kernel and take
  fuel; on a flash of \<open>n\<close> bytes \<open>2 * n + 2\<close> is enough to write an image, since each round handles a block or a byte.

  \<^bold>\<open>Not modelled.\<close> Log messages, the registration of parsers and debugfs files, and locking, which this
  code does not do itself. Reads of the splitters beyond a buffer are modelled where the code
  makes them (an argument holds the bytes there); reads of the \<^verbatim>\<open>nvram\<close> tool behind its mapping are
  crashes, and what it would write there is not modelled. Of the \<^verbatim>\<open>mtd\<close> tool: adding files to a jffs2 file system
  (\<^verbatim>\<open>jffs2.c\<close>, a parameter of \<open>Mtd_Write\<close>: its code depends on what lies behind its buffer), \<^verbatim>\<open>imagetag.c\<close> and
  \<^verbatim>\<open>fis.c\<close> (each for one target only), messages, and the reboot. Of \<^verbatim>\<open>mapcalc\<close>: the scanning
  of options and addresses by the C library, the ubus call, and what the code does behind the end of its variables. Outside these components: the RouterBOOT parsers, and the image tools, which
  run on the build host; hardware drivers, vendored code (kconfig, LZMA, tinysrp, the
  switch SDK), bindings, device trees and scripts, which have no storage logic of their own.
\<close>

end
